(* ===== verification/Prelude.thy ===== *)
theory Prelude
  imports Main "HOL-Library.Word" "HOL-Library.Monad_Syntax"
begin

text \<open>
  Shared vocabulary of the development: machine integers of the C target (LP64), the
  fault monad for \<^verbatim>\<open>assert\<close> and for undefined accesses, and a byte heap of
  allocated blocks with the few libc operations the client library uses on it.

  A C function that can abort is modelled as a function into \<open>'a option\<close>; the value
  \<open>None\<close> stands for an aborted process (a failed \<^verbatim>\<open>assert\<close>) or for an access the
  C standard leaves undefined. Ordinary error returns stay ordinary values, so a theorem
  that an operation yields \<open>Some\<close> includes that no assertion of the code fires.
\<close>

unbundle bit_operations_syntax

named_theorems c_simps \<open>unfolding rules for the C-level helpers\<close>
named_theorems heap_simps \<open>rewriting of heap reads and writes\<close>

section \<open>Machine integers\<close>

type_synonym u8 = "8 word"
type_synonym u16 = "16 word"
type_synonym u32 = "32 word"
type_synonym u64 = "64 word"
type_synonym size_t = "64 word"

lemma unat_add_no_wrap:
  fixes a b :: "'a::len word"
  assumes "unat a + unat b < 2 ^ LENGTH('a)"
  shows "unat (a + b) = unat a + unat b"
  using assms by (simp add: unat_word_ariths)

lemma unat_sub_le:
  fixes a b :: "'a::len word"
  assumes "b \<le> a"
  shows "unat (a - b) = unat a - unat b"
  using assms by (rule unat_sub)

lemma unat_of_nat_small:
  assumes "n < 2 ^ LENGTH('a::len)"
  shows "unat (of_nat n :: 'a word) = n"
  using assms by (simp add: unat_of_nat)

lemma unat_lt_64: "unat (w :: 64 word) < 2 ^ 64"
  using unsigned_less [of w] by simp

lemma unat_lt_32: "unat (w :: 32 word) < 2 ^ 32"
  using unsigned_less [of w] by simp

lemma unat_lt_16: "unat (w :: 16 word) < 2 ^ 16"
  using unsigned_less [of w] by simp

lemma sint_eq_uint_small_64:
  assumes "unat (w :: 64 word) < 2 ^ 63"
  shows "sint w = uint w"
proof -
  have lt: "uint w < 2 ^ 63"
    using assms by (metis nat_less_numeral_power_cancel_iff unat_eq_nat_uint)
  have "- (2 ^ 63) \<le> uint w"
    by (rule order_trans [OF _ unsigned_greater_eq]) simp
  with lt have "signed_take_bit 63 (uint w) = uint w"
    by (intro signed_take_bit_int_eq_self)
  then show ?thesis using sint_uint [of w] by simp
qed

text \<open>Masking with a power of two less one is the remainder: the ring buffers and the
  hash table both index with it.\<close>

lemma unat_and_mask:
  fixes w :: "64 word"
  shows "unat (w AND mask n) = unat w mod 2 ^ n"
  unfolding take_bit_eq_mask [symmetric] unsigned_take_bit_eq by (simp add: take_bit_eq_mod)

lemma unat_pow2: "k < 64 \<Longrightarrow> unat (2 ^ k :: 64 word) = 2 ^ k"
proof -
  assume "k < 64"
  then have "(2::nat) ^ k < 2 ^ 64" by (intro power_strict_increasing) simp_all
  then have "unat (of_nat (2 ^ k) :: 64 word) = 2 ^ k" by (simp only: unat_of_nat) simp
  then show ?thesis by simp
qed

section \<open>Assertions\<close>

definition c_assert :: "bool \<Rightarrow> unit option" where
  [c_simps]: "c_assert b = (if b then Some () else None)"

lemma c_assert_bind [simp]: "Option.bind (c_assert b) f = (if b then f () else None)"
  by (simp add: c_assert_def)

lemma bind_Some_iff: "Option.bind m f = Some y \<longleftrightarrow> (\<exists>x. m = Some x \<and> f x = Some y)"
  by (cases m) auto

lemma map_eqI:
  assumes "\<And>x v. f x = Some v \<longleftrightarrow> g x = Some v"
  shows "f = g"
proof (rule ext)
  fix x
  show "f x = g x"
  proof (cases "g x")
    case None
    have "f x \<noteq> Some v" for v by (simp only: assms None) simp
    with None show ?thesis by (cases "f x") auto
  next
    case (Some v)
    then have "f x = Some v" by (simp only: assms)
    with Some show ?thesis by simp
  qed
qed

section \<open>A heap of byte blocks\<close>

text \<open>A pointer is null or an offset into a block; a block is the list of its bytes.\<close>

datatype ptr = NULL | Ptr nat nat

type_synonym heap = "nat \<Rightarrow> u8 list option"

definition heap_ok :: "heap \<Rightarrow> bool" where
  \<comment> \<open>no object is larger than \<^verbatim>\<open>PTRDIFF_MAX\<close>\<close>
  "heap_ok h \<longleftrightarrow> (\<forall>b bs. h b = Some bs \<longrightarrow> length bs < 2 ^ 63)"

definition ptr_add :: "ptr \<Rightarrow> nat \<Rightarrow> ptr" where
  "ptr_add p k = (case p of NULL \<Rightarrow> NULL | Ptr b off \<Rightarrow> Ptr b (off + k))"

lemma ptr_add_simps [simp]: "ptr_add NULL k = NULL" "ptr_add (Ptr b off) k = Ptr b (off + k)"
  by (simp_all add: ptr_add_def)

definition load_bytes :: "heap \<Rightarrow> ptr \<Rightarrow> nat \<Rightarrow> u8 list option" where
  "load_bytes h p n =
     (case p of NULL \<Rightarrow> None
      | Ptr b off \<Rightarrow>
          (case h b of None \<Rightarrow> None
           | Some bs \<Rightarrow> if off + n \<le> length bs then Some (take n (drop off bs)) else None))"

definition splice_at :: "'a list \<Rightarrow> nat \<Rightarrow> 'a list \<Rightarrow> 'a list" where
  "splice_at bs off xs = take off bs @ xs @ drop (off + length xs) bs"

definition store_bytes :: "heap \<Rightarrow> ptr \<Rightarrow> u8 list \<Rightarrow> heap option" where
  "store_bytes h p xs =
     (case p of NULL \<Rightarrow> None
      | Ptr b off \<Rightarrow>
          (case h b of None \<Rightarrow> None
           | Some bs \<Rightarrow>
               if off + length xs \<le> length bs then Some (h(b \<mapsto> splice_at bs off xs)) else None))"

text \<open>\<^verbatim>\<open>memcpy\<close> on overlapping ranges is undefined.\<close>

definition overlap :: "ptr \<Rightarrow> ptr \<Rightarrow> nat \<Rightarrow> bool" where
  "overlap p q n =
     (case (p, q) of
        (Ptr b i, Ptr c j) \<Rightarrow> b = c \<and> n > 0 \<and> i < j + n \<and> j < i + n
      | _ \<Rightarrow> False)"

definition memcpy :: "heap \<Rightarrow> ptr \<Rightarrow> ptr \<Rightarrow> nat \<Rightarrow> heap option" where
  "memcpy h dst src n =
     do { c_assert (\<not> overlap dst src n);
          xs \<leftarrow> load_bytes h src n;
          store_bytes h dst xs }"

text \<open>\<^verbatim>\<open>strlen\<close> reads up to the first zero byte of the block.\<close>

definition cstring :: "heap \<Rightarrow> ptr \<Rightarrow> u8 list option" where
  "cstring h p =
     (case p of NULL \<Rightarrow> None
      | Ptr b off \<Rightarrow>
          (case h b of None \<Rightarrow> None
           | Some bs \<Rightarrow>
               if off \<le> length bs \<and> 0 \<in> set (drop off bs)
               then Some (takeWhile (\<lambda>x. x \<noteq> 0) (drop off bs)) else None))"

lemma length_splice_at [simp]:
  "off + length xs \<le> length bs \<Longrightarrow> length (splice_at bs off xs) = length bs"
  by (simp add: splice_at_def)

lemma splice_Nil [simp]: "splice_at bs off [] = bs"
  by (simp add: splice_at_def)

lemma take_drop_splice:
  assumes "off + length xs \<le> length bs"
  shows "take (length xs) (drop off (splice_at bs off xs)) = xs"
  using assms by (simp add: splice_at_def)

lemma nth_splice:
  assumes "off + length xs \<le> length bs" "i < length bs"
  shows "splice_at bs off xs ! i =
     (if off \<le> i \<and> i < off + length xs then xs ! (i - off) else bs ! i)"
  using assms by (auto simp: splice_at_def nth_append min_def)

lemma take_splice [simp]:
  "k \<le> off \<Longrightarrow> off \<le> length bs \<Longrightarrow> take k (splice_at bs off xs) = take k bs"
  by (simp add: splice_at_def min_def)

lemma splice_at_splice_at:
  assumes "off + length xs + length ys \<le> length bs"
  shows "splice_at (splice_at bs off xs) (off + length xs) ys = splice_at bs off (xs @ ys)"
  using assms by (cases xs) (auto simp: splice_at_def min_def ac_simps)

lemma take_drop_splice_prefix:
  assumes "off + u + length xs \<le> length bs"
  shows "take (u + length xs) (drop off (splice_at bs (off + u) xs)) = take u (drop off bs) @ xs"
  using assms by (cases xs) (auto simp: splice_at_def take_add drop_take min_def)

lemma load_bytes_length: "load_bytes h p n = Some xs \<Longrightarrow> length xs = n"
  by (auto simp: load_bytes_def split: ptr.splits option.splits if_splits)

lemma load_store_same:
  assumes "store_bytes h p xs = Some h'"
  shows "load_bytes h' p (length xs) = Some xs"
  using assms
  by (auto simp: store_bytes_def load_bytes_def take_drop_splice
        split: ptr.splits option.splits if_splits)

lemma store_bytes_heap_ok:
  assumes "heap_ok h" "store_bytes h p xs = Some h'"
  shows "heap_ok h'"
  using assms
  by (auto simp: store_bytes_def heap_ok_def split: ptr.splits option.splits if_splits)

lemma load_bytes_bound:
  assumes "heap_ok h" "load_bytes h p n = Some xs"
  shows "n < 2 ^ 63"
proof -
  from assms(2) obtain b off bs where "h b = Some bs" "off + n \<le> length bs"
    by (auto simp: load_bytes_def split: ptr.splits option.splits if_splits)
  with assms(1) show ?thesis
    unfolding heap_ok_def by (meson add_leE order_le_less_trans)
qed

lemma cstring_load:
  assumes "cstring h p = Some xs"
  shows "load_bytes h p (length xs) = Some xs"
proof -
  from assms obtain b off bs where p: "p = Ptr b off" and h: "h b = Some bs"
    and ok: "off \<le> length bs" and xs: "xs = takeWhile (\<lambda>x. x \<noteq> 0) (drop off bs)"
    by (auto simp: cstring_def split: ptr.splits option.splits if_splits)
  have "length xs \<le> length (drop off bs)"
    unfolding xs by (rule length_takeWhile_le)
  moreover have "take (length xs) (drop off bs) = xs"
    unfolding xs by (metis takeWhile_eq_take)
  ultimately show ?thesis
    using p h ok by (simp add: load_bytes_def)
qed

end
