(* ===== verification/Byte_Array.thy ===== *)
theory Byte_Array
  imports Prelude
begin

text \<open>
  Byte arrays and byte buffers: \<^verbatim>\<open>src/lib/byte_array.c\<close> over the types of
  \<^verbatim>\<open>include/byte_array.h\<close>. An array is a length and a pointer into the heap, a
  buffer an array with a fill mark. Slices alias the memory they were taken from, which is
  why the operations are modelled over the heap and not over lists of bytes.

  A pointer argument to a struct is the struct itself; the functions that return such a
  pointer or null return the updated struct and whether the pointer is non-null.
\<close>

section \<open>Types\<close>

record byte_array =
  ba_len :: size_t
  ba_data :: ptr

record byte_buffer =
  bb_array :: byte_array
  bytesUsed :: size_t

abbreviation bb_len :: "byte_buffer \<Rightarrow> size_t" where
  "bb_len b \<equiv> ba_len (bb_array b)"

abbreviation bb_data :: "byte_buffer \<Rightarrow> ptr" where
  "bb_data b \<equiv> ba_data (bb_array b)"

definition BYTE_ARRAY_NONE :: byte_array where
  "BYTE_ARRAY_NONE = \<lparr>ba_len = 0, ba_data = NULL\<rparr>"

definition BYTE_BUFFER_NONE :: byte_buffer where
  "BYTE_BUFFER_NONE = \<lparr>bb_array = BYTE_ARRAY_NONE, bytesUsed = 0\<rparr>"

section \<open>Operations\<close>

definition ByteArray_Create :: "ptr \<Rightarrow> size_t \<Rightarrow> byte_array" where
  "ByteArray_Create data len = \<lparr>ba_len = len, ba_data = data\<rparr>"

definition ByteArray_CreateWithCString :: "heap \<Rightarrow> ptr \<Rightarrow> byte_array option" where
  "ByteArray_CreateWithCString h str =
     do { s \<leftarrow> cstring h str;
          Some \<lparr>ba_len = of_nat (length s), ba_data = str\<rparr> }"

text \<open>\<^verbatim>\<open>(uint8_t)(i & 0xFF)\<close> for \<open>i = 0, 1, \<dots>\<close>: the loops below write it byte by byte.\<close>

definition dummy_data :: "nat \<Rightarrow> u8 list" where
  "dummy_data n = map (\<lambda>i. ucast ((of_nat i :: size_t) AND 0xFF)) [0..<n]"

fun fill_dummy :: "heap \<Rightarrow> ptr \<Rightarrow> nat \<Rightarrow> nat \<Rightarrow> heap option" where
  "fill_dummy h p i 0 = Some h"
| "fill_dummy h p i (Suc n) =
     do { h' \<leftarrow> store_bytes h (ptr_add p i) [ucast ((of_nat i :: size_t) AND 0xFF)];
          fill_dummy h' p (Suc i) n }"

definition ByteArray_FillWithDummyData :: "heap \<Rightarrow> byte_array \<Rightarrow> heap option" where
  "ByteArray_FillWithDummyData h a = fill_dummy h (ba_data a) 0 (unat (ba_len a))"

definition ByteArray_GetSlice :: "byte_array \<Rightarrow> size_t \<Rightarrow> size_t \<Rightarrow> byte_array option" where
  "ByteArray_GetSlice a start len =
     do { c_assert (ba_data a \<noteq> NULL);
          c_assert (start < ba_len a);
          c_assert (start + len \<le> ba_len a);
          Some \<lparr>ba_len = len, ba_data = ptr_add (ba_data a) (unat start)\<rparr> }"

definition ByteBuffer_Reset :: "byte_buffer \<Rightarrow> byte_buffer" where
  "ByteBuffer_Reset b = b\<lparr>bytesUsed := 0\<rparr>"

definition ByteBuffer_Create :: "ptr \<Rightarrow> size_t \<Rightarrow> size_t \<Rightarrow> byte_buffer option" where
  "ByteBuffer_Create data max_len used =
     do { c_assert (data \<noteq> NULL);
          c_assert (max_len > 0);
          Some \<lparr>bb_array = \<lparr>ba_len = max_len, ba_data = data\<rparr>, bytesUsed = used\<rparr> }"

definition ByteBuffer_CreateWithArray :: "byte_array \<Rightarrow> byte_buffer" where
  "ByteBuffer_CreateWithArray a = \<lparr>bb_array = a, bytesUsed = 0\<rparr>"

definition ByteBuffer_BytesRemaining :: "byte_buffer \<Rightarrow> int option" where
  "ByteBuffer_BytesRemaining b =
     do { c_assert (bb_data b \<noteq> NULL);
          Some (sint (bb_len b) - sint (bytesUsed b)) }"

definition ByteBuffer_Consume :: "byte_buffer \<Rightarrow> size_t \<Rightarrow> (byte_buffer \<times> byte_array) option" where
  "ByteBuffer_Consume b max_len =
     do { c_assert (bb_data b \<noteq> NULL);
          if bytesUsed b \<ge> bb_len b then Some (b, BYTE_ARRAY_NONE)
          else do {
            remaining \<leftarrow> ByteBuffer_BytesRemaining b;
            c_assert (remaining \<ge> 0);
            let len = min max_len (word_of_int remaining);
                slice = \<lparr>ba_len = len, ba_data = ptr_add (bb_data b) (unat (bytesUsed b))\<rparr>
            in Some (b\<lparr>bytesUsed := bytesUsed b + len\<rparr>, slice) } }"

definition ByteBuffer_Append ::
    "heap \<Rightarrow> byte_buffer \<Rightarrow> ptr \<Rightarrow> size_t \<Rightarrow> (heap \<times> byte_buffer \<times> bool) option" where
  "ByteBuffer_Append h b data len =
     do { c_assert (bb_data b \<noteq> NULL);
          c_assert (data \<noteq> NULL);
          if bytesUsed b + len > bb_len b then Some (h, b, False)
          else do {
            h' \<leftarrow> memcpy h (ptr_add (bb_data b) (unat (bytesUsed b))) data (unat len);
            Some (h', b\<lparr>bytesUsed := bytesUsed b + len\<rparr>, True) } }"

definition ByteBuffer_AppendArray ::
    "heap \<Rightarrow> byte_buffer \<Rightarrow> byte_array \<Rightarrow> (heap \<times> byte_buffer \<times> bool) option" where
  "ByteBuffer_AppendArray h b a =
     do { c_assert (bb_data b \<noteq> NULL);
          c_assert (ba_data a \<noteq> NULL);
          if bytesUsed b + ba_len a > bb_len b then Some (h, b, False)
          else do {
            h' \<leftarrow> memcpy h (ptr_add (bb_data b) (unat (bytesUsed b))) (ba_data a) (unat (ba_len a));
            Some (h', b\<lparr>bytesUsed := bytesUsed b + ba_len a\<rparr>, True) } }"

definition ByteBuffer_AppendBuffer ::
    "heap \<Rightarrow> byte_buffer \<Rightarrow> byte_buffer \<Rightarrow> (heap \<times> byte_buffer \<times> bool) option" where
  "ByteBuffer_AppendBuffer h b src =
     do { c_assert (bb_data b \<noteq> NULL);
          c_assert (bb_data src \<noteq> NULL);
          c_assert (bytesUsed src \<le> bb_len src);
          if bytesUsed b + bytesUsed src > bb_len b then Some (h, b, False)
          else do {
            h' \<leftarrow> memcpy h (ptr_add (bb_data b) (unat (bytesUsed b))) (bb_data src)
                   (unat (bytesUsed src));
            Some (h', b\<lparr>bytesUsed := bytesUsed b + bytesUsed src\<rparr>, True) } }"

text \<open>\<^verbatim>\<open>int len = strlen(str)\<close> truncates to 32 bits; the sums and the copy length sign-extend it.\<close>

definition ByteBuffer_AppendCString ::
    "heap \<Rightarrow> byte_buffer \<Rightarrow> ptr \<Rightarrow> (heap \<times> byte_buffer \<times> bool) option" where
  "ByteBuffer_AppendCString h b str =
     do { c_assert (bb_data b \<noteq> NULL);
          c_assert (str \<noteq> NULL);
          s \<leftarrow> cstring h str;
          let len = (scast (of_nat (length s) :: 32 word) :: size_t)
          in if len = 0 \<or> bytesUsed b + len > bb_len b then Some (h, b, False)
             else do {
               h' \<leftarrow> memcpy h (ptr_add (bb_data b) (unat (bytesUsed b))) str (unat len);
               Some (h', b\<lparr>bytesUsed := bytesUsed b + len\<rparr>, True) } }"

text \<open>
  \<^verbatim>\<open>vsnprintf\<close> takes the text the format denotes (\<open>None\<close>: an output error, result
  \<open>-1\<close>), stores what fits into \<open>n\<close> bytes with a terminating zero and returns the length
  of the whole text.
\<close>

definition vsnprintf :: "heap \<Rightarrow> ptr \<Rightarrow> nat \<Rightarrow> u8 list option \<Rightarrow> (heap \<times> int) option" where
  "vsnprintf h p n formatted =
     (case formatted of None \<Rightarrow> Some (h, -1)
      | Some t \<Rightarrow>
          if n = 0 then Some (h, int (length t))
          else do { h' \<leftarrow> store_bytes h p (take (n - 1) t @ [0]);
                    Some (h', int (length t)) })"

definition append_formatted_cstring_va_list ::
    "heap \<Rightarrow> byte_buffer \<Rightarrow> u8 list option \<Rightarrow> (heap \<times> byte_buffer \<times> bool) option" where
  "append_formatted_cstring_va_list h b formatted =
     (let start = ptr_add (bb_data b) (unat (bytesUsed b));
          startLen = sint (bytesUsed b);
          maxLen = sint (bb_len b)
      in do {
           remainingLen \<leftarrow> ByteBuffer_BytesRemaining b;
           (h', extraLen) \<leftarrow> vsnprintf h start (unat (word_of_int remainingLen :: size_t)) formatted;
           if startLen + extraLen \<ge> maxLen then Some (h', b, False)
           else Some (h', b\<lparr>bytesUsed := bytesUsed b + word_of_int extraLen\<rparr>, True) })"

definition ByteBuffer_AppendFormattedCString ::
    "heap \<Rightarrow> byte_buffer \<Rightarrow> u8 list option \<Rightarrow> (heap \<times> byte_buffer \<times> bool) option" where
  "ByteBuffer_AppendFormattedCString h b formatted =
     do { c_assert (bb_data b \<noteq> NULL);
          append_formatted_cstring_va_list h b formatted }"

definition ByteBuffer_CreateAndAppendFormattedCString ::
    "heap \<Rightarrow> ptr \<Rightarrow> size_t \<Rightarrow> u8 list option \<Rightarrow> (heap \<times> byte_buffer) option" where
  "ByteBuffer_CreateAndAppendFormattedCString h data max_len formatted =
     do { buf \<leftarrow> ByteBuffer_Create data max_len 0;
          (h', buf', ok) \<leftarrow> append_formatted_cstring_va_list h buf formatted;
          Some (h', if ok then buf' else BYTE_BUFFER_NONE) }"

definition ByteBuffer_AppendDummyData ::
    "heap \<Rightarrow> byte_buffer \<Rightarrow> size_t \<Rightarrow> (heap \<times> byte_buffer \<times> bool) option" where
  "ByteBuffer_AppendDummyData h b len =
     do { c_assert (bb_data b \<noteq> NULL);
          if len = 0 \<or> bytesUsed b + len > bb_len b then Some (h, b, False)
          else do {
            h' \<leftarrow> fill_dummy h (ptr_add (bb_data b) (unat (bytesUsed b))) 0 (unat len);
            Some (h', b\<lparr>bytesUsed := bytesUsed b + len\<rparr>, True) } }"

definition ByteBuffer_CreateAndAppend ::
    "heap \<Rightarrow> ptr \<Rightarrow> size_t \<Rightarrow> ptr \<Rightarrow> size_t \<Rightarrow> (heap \<times> byte_buffer) option" where
  "ByteBuffer_CreateAndAppend h data max_len val value_len =
     do { buf \<leftarrow> ByteBuffer_Create data max_len 0;
          (h', buf', _) \<leftarrow> ByteBuffer_Append h buf val value_len;
          Some (h', buf') }"

definition ByteBuffer_CreateAndAppendArray ::
    "heap \<Rightarrow> ptr \<Rightarrow> size_t \<Rightarrow> byte_array \<Rightarrow> (heap \<times> byte_buffer) option" where
  "ByteBuffer_CreateAndAppendArray h data max_len val =
     do { buf \<leftarrow> ByteBuffer_Create data max_len 0;
          (h', buf', _) \<leftarrow> ByteBuffer_AppendArray h buf val;
          Some (h', buf') }"

definition ByteBuffer_CreateAndAppendCString ::
    "heap \<Rightarrow> ptr \<Rightarrow> size_t \<Rightarrow> ptr \<Rightarrow> (heap \<times> byte_buffer) option" where
  "ByteBuffer_CreateAndAppendCString h data max_len val =
     do { buf \<leftarrow> ByteBuffer_Create data max_len 0;
          (h', buf', _) \<leftarrow> ByteBuffer_AppendCString h buf val;
          Some (h', buf') }"

definition ByteBuffer_CreateAndAppendDummyData ::
    "heap \<Rightarrow> ptr \<Rightarrow> size_t \<Rightarrow> size_t \<Rightarrow> (heap \<times> byte_buffer) option" where
  "ByteBuffer_CreateAndAppendDummyData h data max_len len =
     do { buf \<leftarrow> ByteBuffer_Create data max_len 0;
          (h', buf', _) \<leftarrow> ByteBuffer_AppendDummyData h buf len;
          Some (h', buf') }"

definition ByteBuffer_IsNull :: "byte_buffer \<Rightarrow> bool" where
  "ByteBuffer_IsNull b \<longleftrightarrow> bb_data b = NULL"

text \<open>\<^verbatim>\<open>calloc\<close> yields a fresh zeroed block, or null (\<open>None\<close>).\<close>

definition calloc_bytes :: "heap \<Rightarrow> nat option \<Rightarrow> size_t \<Rightarrow> heap \<times> ptr" where
  "calloc_bytes h fresh sz =
     (case fresh of None \<Rightarrow> (h, NULL)
      | Some b \<Rightarrow> (h(b \<mapsto> replicate (unat sz) 0), Ptr b 0))"

definition ByteBuffer_Malloc :: "heap \<Rightarrow> nat option \<Rightarrow> size_t \<Rightarrow> (heap \<times> byte_buffer) option" where
  "ByteBuffer_Malloc h fresh sz =
     (let (h', p) = calloc_bytes h fresh sz
      in do { buf \<leftarrow> ByteBuffer_Create p sz 0; Some (h', buf) })"

definition ByteBuffer_MallocAndAppend ::
    "heap \<Rightarrow> nat option \<Rightarrow> ptr \<Rightarrow> size_t \<Rightarrow> (heap \<times> byte_buffer) option" where
  "ByteBuffer_MallocAndAppend h fresh data len =
     do { c_assert (data \<noteq> NULL);
          c_assert (len \<noteq> 0);
          (h', buffer) \<leftarrow> ByteBuffer_Malloc h fresh len;
          if ByteBuffer_IsNull buffer then Some (h', buffer)
          else do {
            (h'', buffer', _) \<leftarrow> ByteBuffer_Append h' buffer data len;
            Some (h'', buffer') } }"

text \<open>\<^verbatim>\<open>free\<close> is defined on the start of a live block only.\<close>

definition ByteBuffer_Free :: "heap \<Rightarrow> byte_buffer \<Rightarrow> heap option" where
  "ByteBuffer_Free h b =
     do { c_assert (bb_data b \<noteq> NULL);
          case bb_data b of
            Ptr blk off \<Rightarrow> if off = 0 \<and> h blk \<noteq> None then Some (h(blk := None)) else None
          | NULL \<Rightarrow> None }"

section \<open>Well-formed buffers and their contents\<close>

definition buffer_ok :: "heap \<Rightarrow> byte_buffer \<Rightarrow> bool" where
  "buffer_ok h b \<longleftrightarrow>
     (case bb_data b of NULL \<Rightarrow> False
      | Ptr blk off \<Rightarrow>
          (case h blk of None \<Rightarrow> False
           | Some bs \<Rightarrow> off + unat (bb_len b) \<le> length bs)) \<and>
     bytesUsed b \<le> bb_len b"

definition contents :: "heap \<Rightarrow> byte_buffer \<Rightarrow> u8 list" where
  "contents h b =
     (case load_bytes h (bb_data b) (unat (bytesUsed b)) of None \<Rightarrow> [] | Some xs \<Rightarrow> xs)"

definition unread :: "heap \<Rightarrow> byte_buffer \<Rightarrow> u8 list" where
  "unread h b =
     (case load_bytes h (ptr_add (bb_data b) (unat (bytesUsed b)))
             (unat (bb_len b) - unat (bytesUsed b))
      of None \<Rightarrow> [] | Some xs \<Rightarrow> xs)"

definition room :: "byte_buffer \<Rightarrow> nat" where
  "room b = unat (bb_len b) - unat (bytesUsed b)"

lemma buffer_okE:
  assumes "buffer_ok h b"
  obtains blk off bs where "bb_data b = Ptr blk off" "h blk = Some bs"
    "off + unat (bb_len b) \<le> length bs" "unat (bytesUsed b) \<le> unat (bb_len b)"
  using assms by (auto simp: buffer_ok_def word_le_nat_alt split: ptr.splits option.splits)

text \<open>Appending the bytes \<open>xs\<close>, as the header promises it: all of them, or none.\<close>

definition append_spec :: "heap \<Rightarrow> byte_buffer \<Rightarrow> u8 list \<Rightarrow> (heap \<times> byte_buffer \<times> bool) option" where
  "append_spec h b xs =
     (if length xs \<le> room b then
        do { h' \<leftarrow> store_bytes h (ptr_add (bb_data b) (unat (bytesUsed b))) xs;
             Some (h', b\<lparr>bytesUsed := bytesUsed b + of_nat (length xs)\<rparr>, True) }
      else Some (h, b, False))"

definition outside_unchanged :: "heap \<Rightarrow> heap \<Rightarrow> byte_buffer \<Rightarrow> bool" where
  "outside_unchanged h h' b \<longleftrightarrow>
     (case bb_data b of NULL \<Rightarrow> h' = h
      | Ptr blk off \<Rightarrow>
          (\<forall>c. c \<noteq> blk \<longrightarrow> h' c = h c) \<and>
          map_option (take (off + unat (bytesUsed b))) (h' blk)
            = map_option (take (off + unat (bytesUsed b))) (h blk) \<and>
          map_option (drop (off + unat (bb_len b))) (h' blk)
            = map_option (drop (off + unat (bb_len b))) (h blk))"

definition append_outcome ::
    "heap \<Rightarrow> byte_buffer \<Rightarrow> u8 list \<Rightarrow> (heap \<times> byte_buffer \<times> bool) option \<Rightarrow> bool" where
  "append_outcome h b xs r \<longleftrightarrow>
     (\<exists>h' b'. r = Some (h', b', length xs \<le> room b) \<and> heap_ok h' \<and> buffer_ok h' b' \<and>
        bb_array b' = bb_array b \<and> outside_unchanged h h' b \<and>
        (length xs \<le> room b \<longrightarrow> contents h' b' = contents h b @ xs) \<and>
        (\<not> length xs \<le> room b \<longrightarrow> h' = h \<and> b' = b))"

lemma outside_unchanged_refl [simp]: "outside_unchanged h h b"
  by (simp add: outside_unchanged_def split: ptr.split)

lemma append_spec_full:
  "room b < length xs \<Longrightarrow> append_spec h b xs = Some (h, b, False)"
  by (simp add: append_spec_def)

lemma bytesUsed_add:
  assumes "length xs \<le> room b" "unat (bytesUsed b) \<le> unat (bb_len b)"
  shows "unat (bytesUsed b + of_nat (length xs)) = unat (bytesUsed b) + length xs"
proof -
  have "unat (bytesUsed b) + length xs \<le> unat (bb_len b)"
    using assms by (simp add: room_def)
  then have lt: "unat (bytesUsed b) + length xs < 2 ^ 64"
    using unat_lt_64 [of "bb_len b"] by simp
  then have "unat (of_nat (length xs) :: 64 word) = length xs"
    by (simp add: unat_of_nat)
  with lt show ?thesis by (simp add: unat_word_ariths)
qed

lemma append_spec_fits:
  assumes "heap_ok h" "buffer_ok h b" "length xs \<le> room b"
  obtains h' b' where "append_spec h b xs = Some (h', b', True)"
    "heap_ok h'" "buffer_ok h' b'" "contents h' b' = contents h b @ xs"
    "outside_unchanged h h' b" "bb_array b' = bb_array b"
proof -
  from assms(2) obtain blk off bs where d: "bb_data b = Ptr blk off" "h blk = Some bs"
    "off + unat (bb_len b) \<le> length bs" "unat (bytesUsed b) \<le> unat (bb_len b)"
    by (rule buffer_okE)
  let ?u = "unat (bytesUsed b)"
  let ?bs = "splice_at bs (off + ?u) xs"
  let ?h = "h(blk \<mapsto> ?bs)"
  let ?b = "b\<lparr>bytesUsed := bytesUsed b + of_nat (length xs)\<rparr>"
  have u': "unat (bytesUsed ?b) = ?u + length xs"
    using bytesUsed_add [OF assms(3) d(4)] by simp
  have fit: "off + ?u + length xs \<le> length bs"
    using assms(3) d(3,4) by (simp add: room_def)
  then have st: "store_bytes h (ptr_add (bb_data b) ?u) xs = Some ?h"
    using d by (simp add: store_bytes_def)
  have "append_spec h b xs = Some (?h, ?b, True)"
    using assms(3) st by (simp add: append_spec_def)
  moreover have "heap_ok ?h" using assms(1) st by (rule store_bytes_heap_ok)
  moreover have "buffer_ok ?h ?b"
    using d fit u' assms(3) by (simp add: buffer_ok_def word_le_nat_alt room_def)
  moreover have "contents ?h ?b = contents h b @ xs"
  proof -
    have "take (?u + length xs) (drop off ?bs) = take ?u (drop off bs) @ xs"
      using fit by (rule take_drop_splice_prefix)
    then show ?thesis
      using d fit u' by (simp add: contents_def load_bytes_def)
  qed
  moreover have "outside_unchanged h ?h b"
  proof -
    have "off + ?u + length xs \<le> off + unat (bb_len b)"
      using assms(3) d(4) by (simp add: room_def)
    then have "drop (off + unat (bb_len b)) ?bs = drop (off + unat (bb_len b)) bs"
      using fit by (simp add: splice_at_def ac_simps)
    then show ?thesis using d fit by (simp add: outside_unchanged_def)
  qed
  ultimately show thesis by (rule that) simp
qed

section \<open>The contract of the append operations\<close>

text \<open>
  Every append operation takes some description of the bytes to append. \<open>payload\<close>
  reads those bytes; where it is defined, the operation is \<^const>\<open>append_spec\<close>.
\<close>

locale buffer_appender =
  fixes app :: "heap \<Rightarrow> byte_buffer \<Rightarrow> 'a \<Rightarrow> (heap \<times> byte_buffer \<times> bool) option"
    and payload :: "heap \<Rightarrow> byte_buffer \<Rightarrow> 'a \<Rightarrow> u8 list option"
  assumes app_refines:
    "heap_ok h \<Longrightarrow> buffer_ok h b \<Longrightarrow> payload h b x = Some xs \<Longrightarrow> app h b x = append_spec h b xs"
begin

lemma app_outcome:
  assumes "heap_ok h" "buffer_ok h b" "payload h b x = Some xs"
  shows "append_outcome h b xs (app h b x)"
proof (cases "length xs \<le> room b")
  case True
  with assms(1,2) obtain h' b' where "append_spec h b xs = Some (h', b', True)"
    "heap_ok h'" "buffer_ok h' b'" "contents h' b' = contents h b @ xs"
    "outside_unchanged h h' b" "bb_array b' = bb_array b"
    by (rule append_spec_fits)
  with True assms show ?thesis by (auto simp: append_outcome_def app_refines)
next
  case False
  with assms show ?thesis by (simp add: append_outcome_def app_refines append_spec_full)
qed

end

text \<open>What each operation appends: the bytes must be readable and not overlap the free
  part of the buffer they are copied to.\<close>

definition raw_payload :: "heap \<Rightarrow> byte_buffer \<Rightarrow> ptr \<times> size_t \<Rightarrow> u8 list option" where
  "raw_payload h b x =
     (case x of (p, len) \<Rightarrow>
        if overlap (ptr_add (bb_data b) (unat (bytesUsed b))) p (unat len) then None
        else load_bytes h p (unat len))"

definition cstring_payload :: "heap \<Rightarrow> byte_buffer \<Rightarrow> ptr \<Rightarrow> u8 list option" where
  "cstring_payload h b p =
     (case cstring h p of None \<Rightarrow> None
      | Some s \<Rightarrow>
          if s \<noteq> [] \<and> length s < 2 ^ 31 \<and>
             \<not> overlap (ptr_add (bb_data b) (unat (bytesUsed b))) p (length s)
          then Some s else None)"

definition buffer_payload :: "heap \<Rightarrow> byte_buffer \<Rightarrow> byte_buffer \<Rightarrow> u8 list option" where
  "buffer_payload h b src =
     (if bytesUsed src \<le> bb_len src then raw_payload h b (bb_data src, bytesUsed src) else None)"

definition dummy_payload :: "heap \<Rightarrow> byte_buffer \<Rightarrow> size_t \<Rightarrow> u8 list option" where
  "dummy_payload h b len =
     (if len \<noteq> 0 \<and> unat len < 2 ^ 63 then Some (dummy_data (unat len)) else None)"

lemma copy_step:
  assumes "heap_ok h" "buffer_ok h b" "raw_payload h b (p, len) = Some xs"
  shows "(if bytesUsed b + len > bb_len b then Some (h, b, False)
          else do { h' \<leftarrow> memcpy h (ptr_add (bb_data b) (unat (bytesUsed b))) p (unat len);
                    Some (h', b\<lparr>bytesUsed := bytesUsed b + len\<rparr>, True) }) = append_spec h b xs"
proof -
  from assms(2) obtain blk off bs where d: "bb_data b = Ptr blk off" "h blk = Some bs"
    "off + unat (bb_len b) \<le> length bs" "unat (bytesUsed b) \<le> unat (bb_len b)"
    by (rule buffer_okE)
  have ld: "load_bytes h p (unat len) = Some xs"
    and nov: "\<not> overlap (ptr_add (bb_data b) (unat (bytesUsed b))) p (unat len)"
    using assms(3) by (auto simp: raw_payload_def split: if_splits)
  have lx: "length xs = unat len" using ld by (rule load_bytes_length)
  have "unat len < 2 ^ 63" using assms(1) ld by (rule load_bytes_bound)
  moreover have "unat (bytesUsed b) < 2 ^ 63"
    using d assms(1) unfolding heap_ok_def by (meson add_leE order_le_less_trans)
  ultimately have sum: "unat (bytesUsed b + len) = unat (bytesUsed b) + unat len"
    by (intro unat_add_no_wrap) simp
  have "(bytesUsed b + len > bb_len b) = (\<not> length xs \<le> room b)"
    using sum d(4) lx by (auto simp: word_less_nat_alt room_def)
  moreover have "of_nat (length xs) = len" by (simp add: lx)
  ultimately show ?thesis
    using nov ld by (simp add: append_spec_def memcpy_def)
qed

lemma raw_payload_nonnull: "raw_payload h b (p, len) = Some xs \<Longrightarrow> p \<noteq> NULL"
  by (auto simp: raw_payload_def load_bytes_def split: if_splits)

lemma buffer_ok_nonnull: "buffer_ok h b \<Longrightarrow> bb_data b \<noteq> NULL"
  by (auto elim: buffer_okE)

interpretation raw: buffer_appender
  "\<lambda>h b x. ByteBuffer_Append h b (fst x) (snd x)" raw_payload
proof
  fix h b xs and x :: "ptr \<times> size_t"
  assume a: "heap_ok h" "buffer_ok h b" "raw_payload h b x = Some xs"
  show "ByteBuffer_Append h b (fst x) (snd x) = append_spec h b xs"
    using copy_step [OF a(1,2), of "fst x" "snd x"] a raw_payload_nonnull [of h b "fst x" "snd x"]
    by (simp add: ByteBuffer_Append_def buffer_ok_nonnull)
qed

interpretation arr: buffer_appender
  ByteBuffer_AppendArray "\<lambda>h b a. raw_payload h b (ba_data a, ba_len a)"
proof
  fix h b xs and a :: byte_array
  assume a: "heap_ok h" "buffer_ok h b" "raw_payload h b (ba_data a, ba_len a) = Some xs"
  show "ByteBuffer_AppendArray h b a = append_spec h b xs"
    using copy_step [OF a] a(2) raw_payload_nonnull [OF a(3)]
    by (simp add: ByteBuffer_AppendArray_def buffer_ok_nonnull)
qed

interpretation buf: buffer_appender ByteBuffer_AppendBuffer buffer_payload
proof
  fix h b src xs
  assume a: "heap_ok h" "buffer_ok h b" "buffer_payload h b src = Some xs"
  then have r: "raw_payload h b (bb_data src, bytesUsed src) = Some xs"
    and le: "bytesUsed src \<le> bb_len src"
    by (auto simp: buffer_payload_def split: if_splits)
  show "ByteBuffer_AppendBuffer h b src = append_spec h b xs"
    using copy_step [OF a(1,2) r] a(2) le raw_payload_nonnull [OF r]
    by (simp add: ByteBuffer_AppendBuffer_def buffer_ok_nonnull)
qed

lemma scast_of_nat_32:
  assumes "n < 2 ^ 31"
  shows "(scast (of_nat n :: 32 word) :: 64 word) = of_nat n"
proof -
  have "sint (of_nat n :: 32 word) = int n"
    using assms by (simp add: signed_of_nat signed_take_bit_int_eq_self)
  then have "(word_of_int (sint (of_nat n :: 32 word)) :: 64 word) = of_nat n"
    by simp
  then show ?thesis by (subst scast_eq)
qed

interpretation cstr: buffer_appender ByteBuffer_AppendCString cstring_payload
proof
  fix h b p xs
  assume a: "heap_ok h" "buffer_ok h b" "cstring_payload h b p = Some xs"
  then have s: "cstring h p = Some xs" and ne: "xs \<noteq> []" and lt: "length xs < 2 ^ 31"
    and nov: "\<not> overlap (ptr_add (bb_data b) (unat (bytesUsed b))) p (length xs)"
    by (auto simp: cstring_payload_def split: option.splits if_splits)
  have len: "(scast (of_nat (length xs) :: 32 word) :: 64 word) = of_nat (length xs)"
    using lt by (rule scast_of_nat_32)
  have u: "unat (of_nat (length xs) :: 64 word) = length xs"
    using lt by (simp add: unat_of_nat)
  have r: "raw_payload h b (p, of_nat (length xs)) = Some xs"
    using nov cstring_load [OF s] u by (simp add: raw_payload_def)
  have "(of_nat (length xs) :: 64 word) \<noteq> 0" using u ne by (metis length_0_conv unat_0)
  then show "ByteBuffer_AppendCString h b p = append_spec h b xs"
    using copy_step [OF a(1,2) r] a(2) raw_payload_nonnull [OF r] s len
    by (simp add: ByteBuffer_AppendCString_def buffer_ok_nonnull)
qed

lemma fill_dummy_store:
  assumes "h blk = Some bs" "off + i + n \<le> length bs"
  shows "fill_dummy h (Ptr blk off) i n =
     store_bytes h (Ptr blk (off + i)) (map (\<lambda>j. ucast ((of_nat j :: size_t) AND 0xFF)) [i..<i + n])"
  using assms
proof (induction n arbitrary: h i bs)
  case 0
  then show ?case by (simp add: store_bytes_def map_upd_triv)
next
  case (Suc n)
  let ?f = "\<lambda>j. ucast ((of_nat j :: size_t) AND 0xFF) :: u8"
  let ?bs = "splice_at bs (off + i) [?f i]"
  have st: "store_bytes h (Ptr blk (off + i)) [?f i] = Some (h(blk \<mapsto> ?bs))"
    using Suc.prems by (simp add: store_bytes_def)
  let ?ys = "map ?f [Suc i..<Suc i + n]"
  have ih: "fill_dummy (h(blk \<mapsto> ?bs)) (Ptr blk off) (Suc i) n =
      store_bytes (h(blk \<mapsto> ?bs)) (Ptr blk (off + Suc i)) ?ys"
    using Suc.prems by (intro Suc.IH [where bs = ?bs]) auto
  have sp: "splice_at ?bs (off + Suc i) ?ys = splice_at bs (off + i) (?f i # ?ys)"
    using Suc.prems splice_at_splice_at [of "off + i" "[?f i]" ?ys bs] by simp
  have up: "map ?f [i..<i + Suc n] = ?f i # ?ys"
    using upt_conv_Cons [of i "i + Suc n"] by (simp del: upt_Suc)
  show ?case
    unfolding up using st ih sp Suc.prems by (simp add: store_bytes_def del: upt_Suc)
qed

interpretation dummy: buffer_appender ByteBuffer_AppendDummyData dummy_payload
proof
  fix h b len xs
  assume a: "heap_ok h" "buffer_ok h b" "dummy_payload h b len = Some xs"
  then have ne: "len \<noteq> 0" and lt: "unat len < 2 ^ 63" and xs: "xs = dummy_data (unat len)"
    by (auto simp: dummy_payload_def split: if_splits)
  have lx: "length xs = unat len" by (simp add: xs dummy_data_def)
  from a(2) obtain blk off bs where d: "bb_data b = Ptr blk off" "h blk = Some bs"
    "off + unat (bb_len b) \<le> length bs" "unat (bytesUsed b) \<le> unat (bb_len b)"
    by (rule buffer_okE)
  have "unat (bytesUsed b) < 2 ^ 63"
    using d a(1) unfolding heap_ok_def by (meson add_leE order_le_less_trans)
  with lt have sum: "unat (bytesUsed b + len) = unat (bytesUsed b) + unat len"
    by (intro unat_add_no_wrap) simp
  have cond: "(bytesUsed b + len > bb_len b) = (\<not> length xs \<le> room b)"
    using sum d(4) lx by (auto simp: word_less_nat_alt room_def)
  show "ByteBuffer_AppendDummyData h b len = append_spec h b xs"
  proof (cases "length xs \<le> room b")
    case True
    then have fit: "off + unat (bytesUsed b) + 0 + unat len \<le> length bs"
      using d lx by (simp add: room_def)
    have "fill_dummy h (Ptr blk (off + unat (bytesUsed b))) 0 (unat len)
        = store_bytes h (Ptr blk (off + unat (bytesUsed b))) xs"
      using fill_dummy_store [of h blk bs "off + unat (bytesUsed b)" 0 "unat len"] d(2) fit by (simp add: xs dummy_data_def)
    then show ?thesis
      using True ne cond d lx by (simp add: ByteBuffer_AppendDummyData_def append_spec_def)
  next
    case False
    then show ?thesis
      using ne cond d by (simp add: ByteBuffer_AppendDummyData_def append_spec_def)
  qed
qed

section \<open>Reading: slices and consuming\<close>

lemma Consume_unread:
  assumes "heap_ok h" "buffer_ok h b"
  obtains b' sl where "ByteBuffer_Consume b n = Some (b', sl)" "buffer_ok h b'"
    "bb_array b' = bb_array b"
    "unread h b' = drop (unat n) (unread h b)"
    "ba_data sl \<noteq> NULL \<Longrightarrow> load_bytes h (ba_data sl) (unat (ba_len sl)) = Some (take (unat n) (unread h b))"
    "ba_data sl = NULL \<Longrightarrow> unread h b = []"
proof -
  from assms(2) obtain blk off bs where d: "bb_data b = Ptr blk off" "h blk = Some bs"
    "off + unat (bb_len b) \<le> length bs" "unat (bytesUsed b) \<le> unat (bb_len b)"
    by (rule buffer_okE)
  let ?u = "unat (bytesUsed b)" and ?l = "unat (bb_len b)"
  have small: "?l < 2 ^ 63"
    using d assms(1) unfolding heap_ok_def by (meson add_leE order_le_less_trans)
  have un: "unread h b = take (?l - ?u) (drop (off + ?u) bs)"
    using d by (simp add: unread_def load_bytes_def)
  show thesis
  proof (cases "bytesUsed b \<ge> bb_len b")
    case True
    then have "?u = ?l" using d(4) by (simp add: word_le_nat_alt)
    with True d assms un show ?thesis
      by (intro that [of b BYTE_ARRAY_NONE]) (simp_all add: ByteBuffer_Consume_def BYTE_ARRAY_NONE_def)
  next
    case False
    have rem: "sint (bb_len b) - sint (bytesUsed b) = uint (bb_len b) - uint (bytesUsed b)"
      using small d(4) by (simp add: sint_eq_uint_small_64)
    have le: "uint (bytesUsed b) \<le> uint (bb_len b)"
      using d(4) by (simp add: word_le_nat_alt [symmetric] word_le_def)
    let ?len = "min n (bb_len b - bytesUsed b)"
    have ul: "unat ?len = min (unat n) (?l - ?u)"
      using d(4) by (auto simp: min_def word_le_nat_alt unat_sub)
    let ?b = "b\<lparr>bytesUsed := bytesUsed b + ?len\<rparr>"
    let ?sl = "\<lparr>ba_len = ?len, ba_data = Ptr blk (off + ?u)\<rparr>"
    have "ByteBuffer_Consume b n = Some (?b, ?sl)"
      using False d le by (simp add: ByteBuffer_Consume_def ByteBuffer_BytesRemaining_def rem Let_def)
    moreover have uu: "unat (bytesUsed ?b) = ?u + unat ?len"
      using ul d(4) unat_lt_64 [of "bb_len b"] by (simp add: unat_word_ariths)
    moreover have "buffer_ok h ?b"
      using d uu ul by (auto simp: buffer_ok_def word_le_nat_alt)
    moreover have "unread h ?b = drop (unat n) (unread h b)"
      using d uu ul un by (auto simp: unread_def load_bytes_def drop_take ac_simps min_def)
    moreover have "load_bytes h (Ptr blk (off + ?u)) (unat ?len) = Some (take (unat n) (unread h b))"
      using d ul un by (auto simp: load_bytes_def min_def)
    ultimately show ?thesis by (intro that [of ?b ?sl]) simp_all
  qed
qed

section \<open>Properties of the byte buffers\<close>


definition ex_heap :: heap where
  "ex_heap = (\<lambda>_. None)(0 \<mapsto> [0, 0, 0, 0], Suc 0 \<mapsto> [104, 105, 0])"

definition ex_buffer :: byte_buffer where
  "ex_buffer = \<lparr>bb_array = \<lparr>ba_len = 4, ba_data = Ptr 0 0\<rparr>, bytesUsed = 1\<rparr>"

lemma ex_buffer_ok: "heap_ok ex_heap" "buffer_ok ex_heap ex_buffer"
  by (auto simp: heap_ok_def buffer_ok_def ex_heap_def ex_buffer_def)


text \<open>consuming at most \<open>n\<close> bytes of a well-formed buffer never aborts and yields a
  slice of exactly the next \<open>n\<close> unread bytes (fewer at the end, the empty array when
  nothing is left); what stays unread is the rest, so consecutive calls partition the array
  in order.\<close>
theorem consume_takes_next_bytes:
  assumes "heap_ok h" "buffer_ok h b"
  shows "\<exists>b' sl. ByteBuffer_Consume b n = Some (b', sl) \<and> buffer_ok h b' \<and>
     bb_array b' = bb_array b \<and>
     unread h b' = drop (unat n) (unread h b) \<and>
     (if ba_data sl = NULL then unread h b = []
      else load_bytes h (ba_data sl) (unat (ba_len sl)) = Some (take (unat n) (unread h b)))"
  using Consume_unread [OF assms, of n] by metis

theorem consume_takes_next_bytes_witness:
  "\<exists>b' sl. ByteBuffer_Consume ex_buffer 2 = Some (b', sl) \<and> buffer_ok ex_heap b' \<and>
     bb_array b' = bb_array ex_buffer \<and>
     unread ex_heap b' = drop (unat (2::size_t)) (unread ex_heap ex_buffer) \<and>
     (if ba_data sl = NULL then unread ex_heap ex_buffer = []
      else load_bytes ex_heap (ba_data sl) (unat (ba_len sl)) =
             Some (take (unat (2::size_t)) (unread ex_heap ex_buffer)))"
  by (rule consume_takes_next_bytes [OF ex_buffer_ok])

text \<open>a failed allocation makes \<^verbatim>\<open>ByteBuffer_Malloc\<close> abort on the assertion of
  \<^verbatim>\<open>ByteBuffer_Create\<close>: the null buffer its comment tells the caller to test for with
  \<^verbatim>\<open>ByteBuffer_IsNull\<close> is never returned. A successful allocation of a non-zero size
  gives an empty well-formed buffer of that size.\<close>
theorem malloc_never_returns_null:
  "ByteBuffer_Malloc h None sz = None \<and>
   (ByteBuffer_Malloc h fresh sz = Some (h', buf) \<longrightarrow>
      \<not> ByteBuffer_IsNull buf \<and> buffer_ok h' buf \<and> room buf = unat sz \<and> contents h' buf = [])"
  by (auto simp: ByteBuffer_Malloc_def calloc_bytes_def ByteBuffer_Create_def ByteBuffer_IsNull_def
        buffer_ok_def room_def contents_def load_bytes_def bind_Some_iff split: option.splits)

theorem malloc_never_returns_null_witness:
  "\<not> ByteBuffer_IsNull \<lparr>bb_array = \<lparr>ba_len = 2, ba_data = Ptr 7 0\<rparr>, bytesUsed = 0\<rparr>"
proof -
  have "ByteBuffer_Malloc Map.empty (Some 7) 2 =
      Some (Map.empty(7 \<mapsto> replicate 2 0), \<lparr>bb_array = \<lparr>ba_len = 2, ba_data = Ptr 7 0\<rparr>, bytesUsed = 0\<rparr>)"
    by (simp add: ByteBuffer_Malloc_def calloc_bytes_def ByteBuffer_Create_def)
  with malloc_never_returns_null show ?thesis by blast
qed

lemma formatted_step:
  assumes "heap_ok h" "buffer_ok h b" "bytesUsed b < bb_len b"
  shows "ByteBuffer_AppendFormattedCString h b None = Some (h, b\<lparr>bytesUsed := bytesUsed b - 1\<rparr>, True)"
    and "\<exists>h'. ByteBuffer_AppendFormattedCString h b (Some t) =
           Some (h', if length t < room b then b\<lparr>bytesUsed := bytesUsed b + of_nat (length t)\<rparr> else b,
                 length t < room b)"
proof -
  from assms(2) obtain blk off bs where d: "bb_data b = Ptr blk off" "h blk = Some bs"
    "off + unat (bb_len b) \<le> length bs" "unat (bytesUsed b) \<le> unat (bb_len b)"
    by (rule buffer_okE)
  have small: "unat (bb_len b) < 2 ^ 63"
    using d assms(1) unfolding heap_ok_def by (meson add_leE order_le_less_trans)
  have s1: "sint (bb_len b) = uint (bb_len b)" and s2: "sint (bytesUsed b) = uint (bytesUsed b)"
    using small d(4) by (simp_all add: sint_eq_uint_small_64)
  have lt: "unat (bytesUsed b) < unat (bb_len b)" using assms(3) by (simp add: word_less_nat_alt)
  have ilt: "uint (bytesUsed b) < uint (bb_len b)" using assms(3) by (simp add: word_less_def)
  have n: "unat (bb_len b - bytesUsed b) = room b"
    using d(4) by (simp add: room_def unat_sub word_le_nat_alt)
  show "ByteBuffer_AppendFormattedCString h b None = Some (h, b\<lparr>bytesUsed := bytesUsed b - 1\<rparr>, True)"
    using d ilt by (simp add: ByteBuffer_AppendFormattedCString_def append_formatted_cstring_va_list_def
        ByteBuffer_BytesRemaining_def s1 s2 vsnprintf_def Let_def)
  have pos: "room b > 0" using lt by (simp add: room_def)
  have "off + unat (bytesUsed b) + length (take (room b - 1) t @ [0]) \<le> length bs"
    using d(3) lt by (auto simp: room_def min_def)
  then obtain h' where st: "store_bytes h (Ptr blk (off + unat (bytesUsed b))) (take (room b - 1) t @ [0]) = Some h'"
    using d(2) by (simp add: store_bytes_def)
  have full: "(uint (bytesUsed b) + int (length t) \<ge> uint (bb_len b)) = (\<not> length t < room b)"
  proof -
    have "uint (bytesUsed b) = int (unat (bytesUsed b))" "uint (bb_len b) = int (unat (bb_len b))"
      by simp_all
    then show ?thesis using lt unfolding room_def by linarith
  qed
  show "\<exists>h'. ByteBuffer_AppendFormattedCString h b (Some t) =
           Some (h', if length t < room b then b\<lparr>bytesUsed := bytesUsed b + of_nat (length t)\<rparr> else b,
                 length t < room b)"
    using d st n pos full by (simp add: ByteBuffer_AppendFormattedCString_def
        append_formatted_cstring_va_list_def ByteBuffer_BytesRemaining_def s1 s2 vsnprintf_def Let_def)
qed

text \<open>appending formatted text to a buffer with room left: text that fits together with
  its terminating zero advances the mark by its length, longer text is refused and the mark
  stays. When the formatter reports an output error the code still reports success and
  moves the mark one byte back, so an empty buffer then claims \<open>2 ^ 64 - 1\<close> used bytes.\<close>
theorem append_formatted_mark:
  assumes "heap_ok h" "buffer_ok h b" "bytesUsed b < bb_len b"
  shows "(\<exists>h'. ByteBuffer_AppendFormattedCString h b (Some t) =
           Some (h', if length t < room b then b\<lparr>bytesUsed := bytesUsed b + of_nat (length t)\<rparr> else b,
                 length t < room b)) \<and>
         ByteBuffer_AppendFormattedCString h b None = Some (h, b\<lparr>bytesUsed := bytesUsed b - 1\<rparr>, True)"
  using formatted_step [OF assms] by blast

theorem append_formatted_mark_witness:
  "ByteBuffer_AppendFormattedCString ex_heap ex_buffer None =
     Some (ex_heap, ex_buffer\<lparr>bytesUsed := bytesUsed ex_buffer - 1\<rparr>, True)"
  using append_formatted_mark [OF ex_buffer_ok] by (simp add: ex_buffer_def)

end
