(* ===== verification/Nbo.thy ===== *)
theory Nbo
  imports Prelude
begin

text \<open>
  Network byte order, \<^verbatim>\<open>src/lib/kinetic_nbo.c\<close>. The code reads the bytes a host integer
  occupies in memory as one big-endian number. How the host lays out an integer is an
  argument: \<open>True\<close> for a little-endian machine.
\<close>

section \<open>Host memory and the conversions\<close>

definition le_bytes :: "nat \<Rightarrow> nat \<Rightarrow> u8 list" where
  "le_bytes n x = map (\<lambda>i. of_nat (x div 256 ^ i mod 256)) [0..<n]"

definition host_bytes :: "bool \<Rightarrow> nat \<Rightarrow> nat \<Rightarrow> u8 list" where
  "host_bytes little n x = (if little then le_bytes n x else rev (le_bytes n x))"

fun swap_loop :: "u64 \<Rightarrow> u8 list \<Rightarrow> u64" where
  "swap_loop swapped [] = swapped"
| "swap_loop swapped (b # bs) = swap_loop (push_bit 8 swapped OR ucast b) bs"

definition KineticNBO_SwapByteOrder :: "u8 list \<Rightarrow> u64" where
  "KineticNBO_SwapByteOrder bytes = swap_loop 0 bytes"

definition KineticNBO_FromHostU32 :: "bool \<Rightarrow> u32 \<Rightarrow> u32" where
  "KineticNBO_FromHostU32 little valueHost =
     ucast (KineticNBO_SwapByteOrder (host_bytes little 4 (unat valueHost)))"

definition KineticNBO_ToHostU32 :: "bool \<Rightarrow> u32 \<Rightarrow> u32" where
  "KineticNBO_ToHostU32 little valueNBO =
     ucast (KineticNBO_SwapByteOrder (host_bytes little 4 (unat valueNBO)))"

definition KineticNBO_FromHostU64 :: "bool \<Rightarrow> u64 \<Rightarrow> u64" where
  "KineticNBO_FromHostU64 little valueHost =
     KineticNBO_SwapByteOrder (host_bytes little 8 (unat valueHost))"

definition KineticNBO_ToHostU64 :: "bool \<Rightarrow> u64 \<Rightarrow> u64" where
  "KineticNBO_ToHostU64 little valueNBO =
     KineticNBO_SwapByteOrder (host_bytes little 8 (unat valueNBO))"

section \<open>Bytes as numbers\<close>

fun be_val :: "u8 list \<Rightarrow> nat" where
  "be_val [] = 0"
| "be_val (b # bs) = unat b * 256 ^ length bs + be_val bs"

lemma unat_u8_less: "unat (b :: u8) < 256"
  using unsigned_less [of b] by simp

lemma be_val_less: "be_val bs < 256 ^ length bs"
proof (induction bs)
  case (Cons b bs)
  have "unat b * 256 ^ length bs + be_val bs < unat b * 256 ^ length bs + 256 ^ length bs"
    using Cons by simp
  also have "\<dots> = (unat b + 1) * 256 ^ length bs" by (simp add: algebra_simps)
  also have "\<dots> \<le> 256 * 256 ^ length bs" using unat_u8_less [of b] by (intro mult_right_mono) simp_all
  finally show ?case by simp
qed simp

lemma be_val_append: "be_val (xs @ ys) = be_val xs * 256 ^ length ys + be_val ys"
  by (induction xs) (simp_all add: algebra_simps power_add)

lemma le_bytes_Suc: "le_bytes (Suc n) x = of_nat (x mod 256) # le_bytes n (x div 256)"
proof -
  have "[0..<Suc n] = 0 # map Suc [0..<n]" by (simp add: map_Suc_upt upt_conv_Cons)
  then show ?thesis by (simp add: le_bytes_def div_mult2_eq [symmetric] mult.commute del: upt_Suc)
qed

lemma length_le_bytes [simp]: "length (le_bytes n x) = n"
  by (simp add: le_bytes_def)

lemma be_val_rev_le_bytes: "be_val (rev (le_bytes n x)) = x mod 256 ^ n"
proof (induction n arbitrary: x)
  case 0
  then show ?case by (simp add: le_bytes_def)
next
  case (Suc n)
  have "be_val (rev (le_bytes (Suc n) x)) = be_val (rev (le_bytes n (x div 256))) * 256 + x mod 256"
    by (simp add: le_bytes_Suc be_val_append unat_of_nat)
  also have "\<dots> = x mod 256 ^ Suc n"
    by (simp add: Suc.IH mod_mult2_eq mult.commute)
  finally show ?case .
qed

lemma le_bytes_be_val: "le_bytes (length bs) (be_val bs) = rev bs"
proof (induction bs rule: rev_induct)
  case Nil
  then show ?case by (simp add: le_bytes_def)
next
  case (snoc b bs)
  have "be_val (bs @ [b]) mod 256 = unat b" "be_val (bs @ [b]) div 256 = be_val bs"
    using unat_u8_less [of b] by (simp_all add: be_val_append)
  with snoc show ?case by (simp add: le_bytes_Suc)
qed

lemma push_or_add:
  fixes s :: u64 and b :: u8
  shows "push_bit 8 s OR ucast b = s * 256 + ucast b"
proof -
  have "\<not> bit (push_bit 8 s) n \<or> \<not> bit (ucast b :: u64) n" for n
    by (auto simp: bit_simps dest: bit_imp_le_length)
  then have "push_bit 8 s OR ucast b = push_bit 8 s + ucast b"
    by (simp add: disjunctive_add)
  then show ?thesis by (simp add: push_bit_eq_mult)
qed

lemma unat_ucast_u8: "unat (ucast (b :: u8) :: u64) = unat b"
  using unat_u8_less [of b] by (simp add: unsigned_ucast_eq take_bit_eq_mod)

lemma swap_loop_val:
  "unat (swap_loop s bs) = (unat s * 256 ^ length bs + be_val bs) mod 2 ^ 64"
proof (induction bs arbitrary: s)
  case Nil
  then show ?case using unat_lt_64 [of s] by simp
next
  case (Cons b bs)
  have u: "unat (s * 256 + ucast b) = (unat s * 256 + unat b) mod 2 ^ 64"
    by (simp add: unat_word_ariths unat_ucast_u8 mod_simps)
  have "unat (swap_loop s (b # bs)) =
      ((unat s * 256 + unat b) mod 2 ^ 64 * 256 ^ length bs + be_val bs) mod 2 ^ 64"
    by (simp only: swap_loop.simps push_or_add Cons.IH u)
  also have "\<dots> = ((unat s * 256 + unat b) * 256 ^ length bs + be_val bs) mod 2 ^ 64"
    by (metis mod_add_left_eq mod_mult_left_eq)
  finally show ?case by (simp add: algebra_simps)
qed


lemma SwapByteOrder_val:
  assumes "length bs \<le> 8"
  shows "unat (KineticNBO_SwapByteOrder bs) = be_val bs"
proof -
  have "(256::nat) ^ length bs \<le> 256 ^ 8" using assms by (intro power_increasing) simp_all
  then have "be_val bs < 2 ^ 64" using be_val_less [of bs] by simp
  then show ?thesis by (simp add: KineticNBO_SwapByteOrder_def swap_loop_val)
qed

lemma host_bytes_be_val: "host_bytes True (length bs) (be_val bs) = rev bs"
  by (simp add: host_bytes_def le_bytes_be_val)

lemma length_host_bytes [simp]: "length (host_bytes little n x) = n"
  by (simp add: host_bytes_def)

lemma swapped_host_bytes:
  "host_bytes little n (be_val (host_bytes little n x)) = rev (le_bytes n x)"
proof (cases little)
  case True
  then show ?thesis using le_bytes_be_val [of "le_bytes n x"] by (simp add: host_bytes_def)
next
  case False
  then show ?thesis using le_bytes_be_val [of "rev (le_bytes n x)"] by (simp add: host_bytes_def)
qed

lemma unat_ucast_32:
  assumes "unat (w :: u64) < 2 ^ 32"
  shows "unat (ucast w :: u32) = unat w"
  using assms by (simp add: unsigned_ucast_eq take_bit_eq_mod)

lemma FromHost_val:
  "unat (KineticNBO_FromHostU32 little v) = be_val (host_bytes little 4 (unat v))"
  "unat (KineticNBO_FromHostU64 little w) = be_val (host_bytes little 8 (unat w))"
proof -
  have "be_val (host_bytes little 4 (unat v)) < 2 ^ 32"
    using be_val_less [of "host_bytes little 4 (unat v)"] by simp
  then show "unat (KineticNBO_FromHostU32 little v) = be_val (host_bytes little 4 (unat v))"
    by (simp add: KineticNBO_FromHostU32_def unat_ucast_32 SwapByteOrder_val)
  show "unat (KineticNBO_FromHostU64 little w) = be_val (host_bytes little 8 (unat w))"
    by (simp add: KineticNBO_FromHostU64_def SwapByteOrder_val)
qed

lemma ToHost_FromHost: "KineticNBO_ToHostU32 = KineticNBO_FromHostU32"
  "KineticNBO_ToHostU64 = KineticNBO_FromHostU64"
  by (auto simp: fun_eq_iff KineticNBO_ToHostU32_def KineticNBO_FromHostU32_def
      KineticNBO_ToHostU64_def KineticNBO_FromHostU64_def)

text \<open>on a machine of either byte order, the value \<^verbatim>\<open>KineticNBO_FromHost\<close> returns lies
  in memory as the most-significant-first bytes of its argument, and \<^verbatim>\<open>KineticNBO_ToHost\<close>
  turns it back into the argument, for 32 and for 64 bits.\<close>
theorem network_byte_order_roundtrip:
  "host_bytes little 4 (unat (KineticNBO_FromHostU32 little v)) = rev (le_bytes 4 (unat v)) \<and>
   host_bytes little 8 (unat (KineticNBO_FromHostU64 little w)) = rev (le_bytes 8 (unat w)) \<and>
   KineticNBO_ToHostU32 little (KineticNBO_FromHostU32 little v) = v \<and>
   KineticNBO_ToHostU64 little (KineticNBO_FromHostU64 little w) = w"
proof -
  have "unat (KineticNBO_ToHostU32 little (KineticNBO_FromHostU32 little v)) = unat v"
    using unat_lt_32 [of v]
    by (simp add: ToHost_FromHost FromHost_val swapped_host_bytes be_val_rev_le_bytes)
  moreover have "unat (KineticNBO_ToHostU64 little (KineticNBO_FromHostU64 little w)) = unat w"
    using unat_lt_64 [of w]
    by (simp add: ToHost_FromHost FromHost_val swapped_host_bytes be_val_rev_le_bytes)
  ultimately show ?thesis
    by (simp add: FromHost_val swapped_host_bytes) (simp add: unsigned_word_eqI)
qed

end
