(* ===== verification/Bus_Types.thy ===== *)
theory Bus_Types
  imports Prelude
begin

text \<open>
  Types shared by the message bus: \<^verbatim>\<open>bus_types.h\<close>, \<^verbatim>\<open>bus_internal_types.h\<close> and
  \<^verbatim>\<open>listener_internal_types.h\<close> under \<^verbatim>\<open>src/lib/bus\<close>. Pointers to opaque user data and
  protocol messages are numbers; a boxed message has one owner at a time and is passed by
  value. The union of a receive record is a datatype keyed by its state.
\<close>

section \<open>Statuses\<close>

datatype bus_send_status =
    BUS_SEND_UNDEFINED | BUS_SEND_REQUEST_COMPLETE | BUS_SEND_SUCCESS
  | BUS_SEND_TX_TIMEOUT | BUS_SEND_TX_FAILURE | BUS_SEND_RX_TIMEOUT | BUS_SEND_RX_FAILURE
  | BUS_SEND_BAD_RESPONSE | BUS_SEND_UNREGISTERED_SOCKET | BUS_SEND_RX_TIMEOUT_EXPECT
  | BUS_SEND_TX_TIMEOUT_NOTIFYING_LISTENER | BUS_SEND_TIMESTAMP_ERROR

datatype rx_error =
    RX_ERROR_NONE | RX_ERROR_READY_FOR_DELIVERY | RX_ERROR_DONE
  | RX_ERROR_POLLHUP | RX_ERROR_POLLERR | RX_ERROR_READ_FAILURE | RX_ERROR_TIMEOUT

fun rx_error_code :: "rx_error \<Rightarrow> int" where
  "rx_error_code RX_ERROR_NONE = 0"
| "rx_error_code RX_ERROR_READY_FOR_DELIVERY = 1"
| "rx_error_code RX_ERROR_DONE = 2"
| "rx_error_code RX_ERROR_POLLHUP = -31"
| "rx_error_code RX_ERROR_POLLERR = -32"
| "rx_error_code RX_ERROR_READ_FAILURE = -33"
| "rx_error_code RX_ERROR_TIMEOUT = -34"

datatype bus_socket_type = BUS_SOCKET_PLAIN | BUS_SOCKET_SSL

definition BUS_NO_SEQ_ID :: int where "BUS_NO_SEQ_ID = -1"

section \<open>Messages\<close>

text \<open>Result of the unpack callback; \<open>ur_msg\<close> is the message or the opaque error id.\<close>

record bus_unpack_res =
  ur_ok :: bool
  ur_msg :: nat
  ur_seq_id :: int

definition zero_unpack_res :: bus_unpack_res where
  "zero_unpack_res = \<lparr>ur_ok = False, ur_msg = 0, ur_seq_id = 0\<rparr>"

record bus_user_msg =
  um_fd :: int
  um_type :: bus_socket_type
  um_seq_id :: int
  um_msg :: "u8 list"
  um_msg_size :: size_t
  um_timeout_sec :: u16
  um_udata :: nat

record timeval =
  tv_sec :: int
  tv_usec :: int

text \<open>\<open>bx_response\<close> is what is stored into \<^verbatim>\<open>result.u.response\<close>, if anything;
  \<open>bx_udata\<close> stands for the callback and its user data.\<close>

record boxed_msg =
  bx_status :: bus_send_status
  bx_response :: "(int \<times> nat) option"
  bx_timeout_sec :: int
  bx_udata :: nat
  bx_tv_send_start :: timeval
  bx_tv_send_done :: timeval
  bx_fd :: int
  bx_ssl :: "nat option"
  bx_out_seq_id :: int
  bx_out_msg :: "u8 list"
  bx_out_msg_size :: size_t
  bx_out_sent_size :: size_t

section \<open>Connections and poll records\<close>

text \<open>\<open>'u\<close> is the state the protocol's sink callback keeps for a socket.\<close>

record 'u connection_info =
  ci_fd :: int
  ci_type :: bus_socket_type
  ci_udata :: 'u
  ci_ssl :: "nat option"
  ci_largest_wr_seq_id_seen :: int
  ci_error :: rx_error
  ci_to_read_size :: size_t

record revents =
  POLLIN :: bool
  POLLERR :: bool
  POLLNVAL :: bool
  POLLHUP :: bool

text \<open>Of \<^verbatim>\<open>events\<close> the code only ever sets and clears \<^verbatim>\<open>POLLIN\<close>.\<close>

record pollfd =
  pfd_fd :: int
  pfd_events_in :: bool
  pfd_revents :: revents

section \<open>Receive records and queue messages\<close>

record hold =
  h_fd :: int
  h_seq_id :: int
  h_has_result :: bool
  h_result :: bus_unpack_res
  h_error :: rx_error

record expect =
  e_box :: "boxed_msg option"
  e_error :: rx_error
  e_has_result :: bool
  e_result :: bus_unpack_res

datatype rx_state = RIS_INACTIVE | RIS_HOLD hold | RIS_EXPECT expect

record rx_info =
  rx_next :: "nat option"
  rx_state :: rx_state
  rx_timeout_sec :: int

datatype 'u msg_body =
    MSG_NONE
  | MSG_ADD_SOCKET "'u connection_info" int
  | MSG_REMOVE_SOCKET int int
  | MSG_HOLD_RESPONSE int int int int
  | MSG_EXPECT_RESPONSE "boxed_msg option"
  | MSG_SHUTDOWN int

record 'u listener_msg =
  m_body :: "'u msg_body"
  m_next :: "nat option"
  m_pipes :: "int \<times> int"

definition MAX_FDS :: nat where "MAX_FDS = 1000"
definition MAX_PENDING_MESSAGES :: nat where "MAX_PENDING_MESSAGES = 1024"
definition MAX_QUEUE_MESSAGES :: nat where "MAX_QUEUE_MESSAGES = 32"
lemma MAX_pos [simp]: "0 < MAX_PENDING_MESSAGES" "0 < MAX_QUEUE_MESSAGES" "0 < MAX_FDS"
  by (simp_all add: MAX_PENDING_MESSAGES_def MAX_QUEUE_MESSAGES_def MAX_FDS_def)

definition LISTENER_MSG_TAG :: u8 where "LISTENER_MSG_TAG = 0x15"
definition LISTENER_NO_FD :: int where "LISTENER_NO_FD = -1"
definition LISTENER_SHUTDOWN_COMPLETE_FD :: int where "LISTENER_SHUTDOWN_COMPLETE_FD = -2"

text \<open>What the listener does to the outside: completion notices to callers (with the bytes
  written, which carry the backpressure), boxed messages handed to the thread pool, user callbacks,
  connection records it frees and descriptors it closes.\<close>

datatype event =
    Notified int "u8 list"
  | Delivered boxed_msg
  | Refused boxed_msg
  | Slept int
  | Unexpected_msg nat int
  | Error_cb nat
  | Leaked_result
  | Freed_ci int
  | Freed_box
  | Closed int

section \<open>The listener\<close>

text \<open>\<^verbatim>\<open>fds[0]\<close>, the command pipe, is \<open>l_incoming\<close>; \<open>l_fds ! i\<close> is \<^verbatim>\<open>fds[i + INCOMING_MSG_PIPE]\<close>.\<close>

record 'u listener =
  l_shutdown_notify_fd :: int
  l_is_idle :: bool
  l_rx_info :: "rx_info list"
  l_rx_info_freelist :: "nat option"
  l_rx_info_in_use :: u16
  l_rx_info_max_used :: nat
  l_msgs :: "'u listener_msg list"
  l_msg_freelist :: "nat option"
  l_msgs_in_use :: int
  l_upstream_backpressure :: size_t
  l_tracked_fds :: nat
  l_inactive_fds :: nat
  l_incoming :: pollfd
  l_fds :: "pollfd list"
  l_fd_info :: "'u connection_info option list"
  l_error_occured :: bool
  l_read_buf_size :: size_t
  l_queue :: "nat list"
  l_trace :: "event list"

definition emit :: "event \<Rightarrow> 'u listener \<Rightarrow> 'u listener" where
  "emit e l = l\<lparr>l_trace := l_trace l @ [e]\<rparr>"

definition upd_info :: "nat \<Rightarrow> (rx_info \<Rightarrow> rx_info) \<Rightarrow> 'u listener \<Rightarrow> 'u listener" where
  "upd_info i f l = l\<lparr>l_rx_info := (l_rx_info l)[i := f (l_rx_info l ! i)]\<rparr>"

definition upd_msg :: "nat \<Rightarrow> ('u listener_msg \<Rightarrow> 'u listener_msg) \<Rightarrow> 'u listener \<Rightarrow> 'u listener" where
  "upd_msg i f l = l\<lparr>l_msgs := (l_msgs l)[i := f (l_msgs l ! i)]\<rparr>"

section \<open>The environment\<close>

text \<open>What the listener calls outside its own files. \<open>env_sink\<close> and \<open>env_unpack\<close> are the
  protocol's callbacks: the sink takes the socket's state and the bytes read and gives the
  new state, the next read size and possibly a full message buffer (\<open>None\<close>: its own
  assertion fails). \<open>env_pool\<close> is the outcome and backpressure of
  \<^verbatim>\<open>Bus_ProcessBoxedMessage\<close> after a given history, so that any sequence of
  outcomes is covered; \<open>env_ts\<close> says whether a time stamp can be taken, \<open>env_realloc\<close> whether
  a read buffer of a size can be had, \<open>env_notify\<close> lists what writing to a notification
  pipe does until it succeeds.\<close>

datatype write_res = WR_OK | WR_EINTR | WR_ERR

record ('u, 'm) env =
  env_sink :: "'u \<Rightarrow> u8 list \<Rightarrow> ('u \<times> size_t \<times> 'm option) option"
  env_unpack :: "'m \<Rightarrow> 'u \<Rightarrow> bus_unpack_res"
  env_unexpected_cb :: bool
  env_pool :: "event list \<Rightarrow> boxed_msg \<Rightarrow> bool \<times> size_t"
  env_ts :: "nat \<Rightarrow> bool"
  env_realloc :: "size_t \<Rightarrow> bool"
  env_notify :: "int \<Rightarrow> write_res list"

text \<open>A write loop that retries interrupted writes; after the listed results the pipe takes
  the bytes.\<close>

fun write_loop :: "write_res list \<Rightarrow> bool" where
  "write_loop [] = True"
| "write_loop (WR_OK # rs) = True"
| "write_loop (WR_EINTR # rs) = write_loop rs"
| "write_loop (WR_ERR # rs) = False"

section \<open>Singly linked free lists\<close>

text \<open>\<open>linked next h xs\<close>: following \<open>next\<close> from \<open>h\<close> visits exactly \<open>xs\<close>.\<close>

fun linked :: "(nat \<Rightarrow> nat option) \<Rightarrow> nat option \<Rightarrow> nat list \<Rightarrow> bool" where
  "linked nxt h [] \<longleftrightarrow> h = None"
| "linked nxt h (x # xs) \<longleftrightarrow> h = Some x \<and> linked nxt (nxt x) xs"

lemma linked_cong:
  "(\<And>x. x \<in> set xs \<Longrightarrow> nxt x = nxt' x) \<Longrightarrow> linked nxt h xs = linked nxt' h xs"
  by (induction xs arbitrary: h) auto

lemma linked_NoneD: "linked nxt None xs \<Longrightarrow> xs = []"
  by (cases xs) auto

lemma linked_SomeE:
  assumes "linked nxt (Some x) ys"
  obtains xs where "ys = x # xs" "linked nxt (nxt x) xs"
  using assms by (cases ys) auto

lemma linked_push:
  assumes "linked nxt h xs" "x \<notin> set xs"
  shows "linked (nxt(x := h)) (Some x) (x # xs)"
proof -
  have "linked (nxt(x := h)) h xs = linked nxt h xs"
    by (rule linked_cong) (use assms(2) in auto)
  with assms(1) show ?thesis by simp
qed

lemma linked_unique:
  "linked nxt h xs \<Longrightarrow> linked nxt h ys \<Longrightarrow> xs = ys"
proof (induction xs arbitrary: h ys)
  case Nil
  then show ?case by (auto dest: linked_NoneD)
next
  case (Cons x xs)
  then show ?case by (cases ys) auto
qed

text \<open>The chain from \<open>h\<close> visits each member of \<open>F\<close> once and nothing else.\<close>

definition chain_ok :: "(nat \<Rightarrow> nat option) \<Rightarrow> nat option \<Rightarrow> nat set \<Rightarrow> bool" where
  "chain_ok nxt h F \<longleftrightarrow> (\<exists>xs. linked nxt h xs \<and> distinct xs \<and> set xs = F)"

lemma chain_ok_empty_iff: "chain_ok nxt h F \<Longrightarrow> F = {} \<longleftrightarrow> h = None"
  unfolding chain_ok_def
proof (elim exE conjE)
  fix xs assume "linked nxt h xs" "set xs = F"
  then show "F = {} \<longleftrightarrow> h = None" by (cases xs) auto
qed

lemma chain_ok_head: "chain_ok nxt (Some i) F \<Longrightarrow> i \<in> F"
  by (auto simp: chain_ok_def elim: linked_SomeE)

lemma chain_ok_pop:
  assumes "chain_ok nxt (Some i) F"
  shows "chain_ok nxt (nxt i) (F - {i})"
proof -
  from assms obtain xs where "linked nxt (nxt i) xs" "distinct (i # xs)" "set (i # xs) = F"
    unfolding chain_ok_def by (auto elim!: linked_SomeE)
  then show ?thesis unfolding chain_ok_def by (intro exI [of _ xs]) auto
qed

lemma chain_ok_cong:
  assumes "chain_ok nxt h F" "\<And>j. j \<in> F \<Longrightarrow> nxt' j = nxt j"
  shows "chain_ok nxt' h F"
  using assms linked_cong unfolding chain_ok_def by metis

lemma chain_ok_push:
  assumes "chain_ok nxt h F" "i \<notin> F" "nxt' i = h" "\<And>j. j \<in> F \<Longrightarrow> nxt' j = nxt j"
  shows "chain_ok nxt' (Some i) (insert i F)"
proof -
  from chain_ok_cong [OF assms(1,4)] obtain xs where
    "linked nxt' h xs" "distinct xs" "set xs = F" by (auto simp: chain_ok_def)
  with assms(2,3) show ?thesis
    unfolding chain_ok_def by (intro exI [of _ "i # xs"]) auto
qed

lemma chain_ok_unique: "chain_ok nxt h F \<Longrightarrow> chain_ok nxt h G \<Longrightarrow> F = G"
  unfolding chain_ok_def using linked_unique by blast

text \<open>What the listener relies on of a table of \<open>cap\<close> records threaded by a free list: \<open>pop\<close>
  unlinks the head and \<open>push\<close> links a record in front, without touching other links.\<close>

locale free_list =
  fixes sized :: "'s \<Rightarrow> bool" and head :: "'s \<Rightarrow> nat option" and nxt :: "'s \<Rightarrow> nat \<Rightarrow> nat option"
    and cap :: nat and pop :: "'s \<Rightarrow> nat \<Rightarrow> 's" and push :: "'s \<Rightarrow> nat \<Rightarrow> 's"
  assumes head_pop: "sized s \<Longrightarrow> i < cap \<Longrightarrow> head s = Some i \<Longrightarrow> head (pop s i) = nxt s i"
    and nxt_pop: "sized s \<Longrightarrow> i < cap \<Longrightarrow> j \<noteq> i \<Longrightarrow> nxt (pop s i) j = nxt s j"
    and head_push: "sized s \<Longrightarrow> i < cap \<Longrightarrow> head (push s i) = Some i"
    and nxt_push_same: "sized s \<Longrightarrow> i < cap \<Longrightarrow> nxt (push s i) i = head s"
    and nxt_push_other: "sized s \<Longrightarrow> i < cap \<Longrightarrow> j \<noteq> i \<Longrightarrow> nxt (push s i) j = nxt s j"
begin

text \<open>The records outside \<open>owned\<close> are the free ones.\<close>

lemma pop_takes_free:
  assumes "sized s" "chain_ok (nxt s) (head s) ({..<cap} - owned)" "head s = Some i"
  shows "i < cap \<and> i \<notin> owned \<and>
         chain_ok (nxt (pop s i)) (head (pop s i)) ({..<cap} - insert i owned)"
proof -
  have i: "i < cap" "i \<notin> owned" using chain_ok_head assms(2,3) by fastforce+
  have "chain_ok (nxt s) (nxt s i) ({..<cap} - owned - {i})"
    using assms(2,3) chain_ok_pop by metis
  moreover have "{..<cap} - owned - {i} = {..<cap} - insert i owned" by auto
  ultimately have "chain_ok (nxt (pop s i)) (nxt s i) ({..<cap} - insert i owned)"
    using nxt_pop [OF assms(1) i(1)] by (auto intro: chain_ok_cong)
  then show ?thesis using i head_pop [OF assms(1) i(1) assms(3)] by simp
qed

lemma push_frees:
  assumes "sized s" "chain_ok (nxt s) (head s) ({..<cap} - owned)" "i < cap" "i \<in> owned"
  shows "chain_ok (nxt (push s i)) (head (push s i)) ({..<cap} - (owned - {i}))"
proof -
  have "chain_ok (nxt (push s i)) (Some i) (insert i ({..<cap} - owned))"
    by (rule chain_ok_push [OF assms(2)])
      (use assms(4) nxt_push_same [OF assms(1,3)] nxt_push_other [OF assms(1,3)] in fastforce)+
  moreover have "insert i ({..<cap} - owned) = {..<cap} - (owned - {i})" using assms by auto
  ultimately show ?thesis using head_push [OF assms(1,3)] by simp
qed

lemma exhausted_iff:
  assumes "chain_ok (nxt s) (head s) ({..<cap} - owned)"
  shows "head s = None \<longleftrightarrow> {..<cap} \<subseteq> owned"
  using chain_ok_empty_iff [OF assms] by auto

end

end
