(* ===== verification/Listener_Pool.thy ===== *)
theory Listener_Pool
  imports Bus_Types
begin

text \<open>
  The two record pools of the listener: command messages and receive records
  (\<^verbatim>\<open>src/lib/bus/listener_helper.c\<close> and the release functions of
  \<^verbatim>\<open>src/lib/bus/listener_task.c\<close>). Records are named by their index. The
  compare-and-swap loops are taken here as atomic; their interleavings are the subject of
  the theory \<^verbatim>\<open>Msg_Freelist\<close>.
\<close>

section \<open>Command messages\<close>

definition msg_pop :: "'u listener \<Rightarrow> nat \<Rightarrow> 'u listener" where
  "msg_pop l i = l\<lparr>l_msg_freelist := m_next (l_msgs l ! i)\<rparr>"

definition msg_push :: "'u listener \<Rightarrow> nat \<Rightarrow> 'u listener" where
  "msg_push l i =
     (upd_msg i (\<lambda>m. m\<lparr>m_body := MSG_NONE, m_next := l_msg_freelist l\<rparr>) l)\<lparr>l_msg_freelist := Some i\<rparr>"

definition msg_delay :: "int \<Rightarrow> int" where
  "msg_delay miu = 10 * (miu div 2) * (miu div 2)"

definition ListenerHelper_GetFreeMsg :: "'u listener \<Rightarrow> (nat option \<times> 'u listener) option" where
  "ListenerHelper_GetFreeMsg l =
     (case l_msg_freelist l of
        None \<Rightarrow> Some (None, l)
      | Some head \<Rightarrow>
          do { c_assert (head < length (l_msgs l));
               let l1 = msg_pop l head;
               let miu = l_msgs_in_use l1;
               c_assert (miu < int MAX_QUEUE_MESSAGES);
               let l2 = l1\<lparr>l_msgs_in_use := miu + 1\<rparr>;
               let delay = msg_delay miu;
               let l3 = (if delay > 0 then emit (Slept (1000 * delay)) l2 else l2);
               c_assert (m_body (l_msgs l3 ! head) = MSG_NONE);
               Some (Some head, l3) })"

definition ListenerTask_ReleaseMsg :: "'u listener \<Rightarrow> nat \<Rightarrow> 'u listener option" where
  "ListenerTask_ReleaseMsg l msg =
     do { c_assert (msg < MAX_QUEUE_MESSAGES);
          let l1 = msg_push l msg;
          let miu = l_msgs_in_use l1;
          c_assert (miu \<ge> 0);
          Some (l1\<lparr>l_msgs_in_use := miu - 1\<rparr>) }"

text \<open>Committing writes the message's id into the command pipe; \<open>wr\<close> is what the writes give.\<close>

definition ListenerHelper_PushMessage ::
  "'u listener \<Rightarrow> nat \<Rightarrow> write_res list \<Rightarrow> (bool \<times> 'u listener) option" where
  "ListenerHelper_PushMessage l msg wr =
     (if write_loop wr then Some (True, l\<lparr>l_queue := l_queue l @ [msg]\<rparr>)
      else do { l1 \<leftarrow> ListenerTask_ReleaseMsg l msg; Some (False, l1) })"

section \<open>Receive records\<close>

definition inactive :: "'u listener \<Rightarrow> nat \<Rightarrow> bool" where
  "inactive l i \<longleftrightarrow> rx_state (l_rx_info l ! i) = RIS_INACTIVE"

definition rx_pop :: "'u listener \<Rightarrow> nat \<Rightarrow> 'u listener" where
  "rx_pop l i =
     upd_info i (\<lambda>r. r\<lparr>rx_next := None\<rparr>) (l\<lparr>l_rx_info_freelist := rx_next (l_rx_info l ! i)\<rparr>)"

definition rx_push :: "'u listener \<Rightarrow> nat \<Rightarrow> 'u listener" where
  "rx_push l i =
     (upd_info i (\<lambda>r. r\<lparr>rx_state := RIS_INACTIVE, rx_next := l_rx_info_freelist l\<rparr>) l)
        \<lparr>l_rx_info_freelist := Some i\<rparr>"

definition ListenerHelper_GetFreeRXInfo :: "'u listener \<Rightarrow> (nat option \<times> 'u listener) option" where
  "ListenerHelper_GetFreeRXInfo l =
     (case l_rx_info_freelist l of
        None \<Rightarrow> Some (None, l)
      | Some head \<Rightarrow>
          do { c_assert (head < length (l_rx_info l));
               let l1 = rx_pop l head;
               let l2 = l1\<lparr>l_rx_info_in_use := l_rx_info_in_use l1 + 1\<rparr>;
               c_assert (inactive l2 head);
               l3 \<leftarrow> (if l_rx_info_max_used l2 < head
                      then do { c_assert (head < MAX_PENDING_MESSAGES);
                                Some (l2\<lparr>l_rx_info_max_used := head\<rparr>) }
                      else Some l2);
               Some (Some head, l3) })"

fun info_matches :: "rx_info \<Rightarrow> int \<Rightarrow> int \<Rightarrow> bool" where
  "info_matches r fd seq_id =
     (case rx_state r of
        RIS_INACTIVE \<Rightarrow> False
      | RIS_HOLD h \<Rightarrow> h_fd h = fd \<and> h_seq_id h = seq_id
      | RIS_EXPECT e \<Rightarrow>
          (case e_box e of None \<Rightarrow> False
           | Some box \<Rightarrow> bx_out_seq_id box = seq_id \<and> bx_fd box = fd))"

definition ListenerHelper_FindInfoBySequenceID :: "'u listener \<Rightarrow> int \<Rightarrow> int \<Rightarrow> nat option" where
  "ListenerHelper_FindInfoBySequenceID l fd seq_id =
     find (\<lambda>i. info_matches (l_rx_info l ! i) fd seq_id) [0..<Suc (l_rx_info_max_used l)]"

fun find_ci :: "'u connection_info option list \<Rightarrow> int \<Rightarrow> 'u connection_info option option" where
  "find_ci [] fd = Some None"
| "find_ci (c # cs) fd =
     (case c of None \<Rightarrow> None
      | Some ci \<Rightarrow> if ci_fd ci = fd then Some (Some ci) else find_ci cs fd)"

definition get_connection_info :: "'u listener \<Rightarrow> int \<Rightarrow> 'u connection_info option option" where
  "get_connection_info l fd = find_ci (take (l_tracked_fds l) (l_fd_info l)) fd"

text \<open>The loop that lowers the high-water mark past inactive records.\<close>

fun lower_max_used :: "rx_info list \<Rightarrow> nat \<Rightarrow> nat" where
  "lower_max_used infos 0 = 0"
| "lower_max_used infos (Suc m) =
     (if rx_state (infos ! Suc m) = RIS_INACTIVE
      then (if m = 0 then 0 else lower_max_used infos m) else Suc m)"

definition ListenerTask_ReleaseRXInfo ::
  "('u, 'm) env \<Rightarrow> 'u listener \<Rightarrow> nat \<Rightarrow> 'u listener option" where
  "ListenerTask_ReleaseRXInfo env l i =
     do { c_assert (i < MAX_PENDING_MESSAGES);
          l1 \<leftarrow> (case rx_state (l_rx_info l ! i) of
                  RIS_HOLD h \<Rightarrow>
                    if h_has_result h \<and> ur_ok (h_result h)
                    then do { ci \<leftarrow> get_connection_info l (h_fd h);
                              Some (if ci \<noteq> None \<and> env_unexpected_cb env
                                    then emit (Unexpected_msg (ur_msg (h_result h))
                                                 (ur_seq_id (h_result h))) l
                                    else emit Leaked_result l) }
                    else Some l
                | RIS_EXPECT e \<Rightarrow>
                    do { c_assert (e_error e = RX_ERROR_DONE);
                         c_assert (e_box e = None);
                         Some l }
                | RIS_INACTIVE \<Rightarrow> None);
          let l2 = rx_push l1 i;
          l3 \<leftarrow> (if l_rx_info_max_used l2 = i \<and> i > 0
                 then do { let l3 = l2\<lparr>l_rx_info_max_used :=
                                       lower_max_used (l_rx_info l2) (l_rx_info_max_used l2)\<rparr>;
                           c_assert (l_rx_info_max_used l3 < MAX_PENDING_MESSAGES);
                           Some l3 }
                 else Some l2);
          Some (l3\<lparr>l_rx_info_in_use := l_rx_info_in_use l3 - 1\<rparr>) }"

section \<open>Creating a listener\<close>

definition no_revents :: revents where
  "no_revents = \<lparr>POLLIN = False, POLLERR = False, POLLNVAL = False, POLLHUP = False\<rparr>"

definition zero_pollfd :: pollfd where
  "zero_pollfd = \<lparr>pfd_fd = 0, pfd_events_in = False, pfd_revents = no_revents\<rparr>"

text \<open>The two loops thread the records into free lists, from the last receive record down and
  from the first message up; \<open>pipes\<close> is what creating the pipes of the messages gives.\<close>

fun init_rx_info :: "nat \<Rightarrow> rx_info list \<times> nat option \<Rightarrow> rx_info list \<times> nat option" where
  "init_rx_info 0 (infos, fl) = (infos, fl)"
| "init_rx_info (Suc i) (infos, fl) =
     init_rx_info i (infos[i := (infos ! i)\<lparr>rx_state := RIS_INACTIVE, rx_next := fl\<rparr>], Some i)"

fun init_msgs :: "(int \<times> int) option list \<Rightarrow> 'u listener_msg list \<Rightarrow> 'u listener_msg list option" where
  "init_msgs [] done = Some done"
| "init_msgs (None # ps) done = None"
| "init_msgs (Some p # ps) done =
     init_msgs ps (done @ [\<lparr>m_body = MSG_NONE,
        m_next = (if done = [] then None else Some (length done - 1)), m_pipes = p\<rparr>])"

definition Listener_Init ::
  "bool \<Rightarrow> (int \<times> int) option \<Rightarrow> (int \<times> int) option list \<Rightarrow> 'u listener option" where
  "Listener_Init calloc_ok main_pipe pipes =
     (if \<not> calloc_ok then None
      else case main_pipe of
        None \<Rightarrow> None
      | Some (rd, wr) \<Rightarrow>
          (let zero = \<lparr>rx_next = None, rx_state = RIS_INACTIVE, rx_timeout_sec = 0\<rparr>;
               (infos, fl) = init_rx_info MAX_PENDING_MESSAGES (replicate MAX_PENDING_MESSAGES zero, None)
           in case init_msgs pipes [] of
                None \<Rightarrow> None
              | Some ms \<Rightarrow>
                  Some \<lparr>l_shutdown_notify_fd = LISTENER_NO_FD, l_is_idle = False,
                     l_rx_info = infos, l_rx_info_freelist = fl, l_rx_info_in_use = 0,
                     l_rx_info_max_used = 0, l_msgs = ms, l_msg_freelist = Some (length ms - 1),
                     l_msgs_in_use = 0, l_upstream_backpressure = 0,
                     l_tracked_fds = 0, l_inactive_fds = 0,
                     l_incoming = \<lparr>pfd_fd = rd, pfd_events_in = True, pfd_revents = no_revents\<rparr>,
                     l_fds = replicate MAX_FDS zero_pollfd, l_fd_info = replicate MAX_FDS None,
                     l_error_occured = False, l_read_buf_size = 0,
                     l_queue = [], l_trace = []\<rparr>))"

section \<open>Free lists of the two pools\<close>

abbreviation msg_sized :: "'u listener \<Rightarrow> bool" where
  "msg_sized l \<equiv> length (l_msgs l) = MAX_QUEUE_MESSAGES"

abbreviation rx_sized :: "'u listener \<Rightarrow> bool" where
  "rx_sized l \<equiv> length (l_rx_info l) = MAX_PENDING_MESSAGES"

abbreviation msg_nxt :: "'u listener \<Rightarrow> nat \<Rightarrow> nat option" where
  "msg_nxt l i \<equiv> m_next (l_msgs l ! i)"

abbreviation rx_nxt :: "'u listener \<Rightarrow> nat \<Rightarrow> nat option" where
  "rx_nxt l i \<equiv> rx_next (l_rx_info l ! i)"

interpretation msg_fl: free_list msg_sized l_msg_freelist msg_nxt MAX_QUEUE_MESSAGES msg_pop msg_push
  by unfold_locales (simp_all add: msg_pop_def msg_push_def upd_msg_def)

interpretation rx_fl: free_list rx_sized l_rx_info_freelist rx_nxt MAX_PENDING_MESSAGES rx_pop rx_push
  by unfold_locales (simp_all add: rx_pop_def rx_push_def upd_info_def)

definition msgs_owned :: "'u listener \<Rightarrow> nat set" where
  "msgs_owned l = {i. i < MAX_QUEUE_MESSAGES \<and> m_body (l_msgs l ! i) \<noteq> MSG_NONE}"

definition active_ids :: "'u listener \<Rightarrow> nat set" where
  "active_ids l = {i. i < MAX_PENDING_MESSAGES \<and> \<not> inactive l i}"

text \<open>The receive record pool: the free list holds exactly the inactive records, the counter
  counts the others, and the high-water mark is above all of them.\<close>

definition rx_pool_ok :: "'u listener \<Rightarrow> bool" where
  "rx_pool_ok l \<longleftrightarrow>
     rx_sized l \<and>
     chain_ok (rx_nxt l) (l_rx_info_freelist l) ({..<MAX_PENDING_MESSAGES} - active_ids l) \<and>
     unat (l_rx_info_in_use l) = card (active_ids l) \<and>
     l_rx_info_max_used l < MAX_PENDING_MESSAGES \<and>
     (\<forall>i\<in>active_ids l. i \<le> l_rx_info_max_used l)"

definition msg_pool_ok :: "'u listener \<Rightarrow> bool" where
  "msg_pool_ok l \<longleftrightarrow>
     msg_sized l \<and>
     chain_ok (msg_nxt l) (l_msg_freelist l) ({..<MAX_QUEUE_MESSAGES} - msgs_owned l) \<and>
     l_msgs_in_use l = int (card (msgs_owned l))"

section \<open>What the pool operations leave alone\<close>

text \<open>\<open>l'\<close> differs from \<open>l\<close> only in the receive records, their bookkeeping, the observed
  backpressure and the trace.\<close>

definition rx_frame :: "'u listener \<Rightarrow> 'u listener \<Rightarrow> bool" where
  "rx_frame l l' \<longleftrightarrow>
     l = l'\<lparr>l_rx_info := l_rx_info l, l_rx_info_freelist := l_rx_info_freelist l,
           l_rx_info_in_use := l_rx_info_in_use l, l_rx_info_max_used := l_rx_info_max_used l,
           l_upstream_backpressure := l_upstream_backpressure l, l_trace := l_trace l\<rparr>"

lemma rx_frame_refl [simp]: "rx_frame l l"
  by (simp add: rx_frame_def)

lemma rx_frameI:
  "l' = l\<lparr>l_rx_info := a, l_rx_info_freelist := b, l_rx_info_in_use := c, l_rx_info_max_used := d,
        l_upstream_backpressure := e, l_trace := f\<rparr> \<Longrightarrow> rx_frame l l'"
  by (simp add: rx_frame_def)

lemma rx_frame_trans:
  assumes "rx_frame l l'" "rx_frame l' l''"
  shows "rx_frame l l''"
proof -
  have "l = l'\<lparr>l_rx_info := l_rx_info l, l_rx_info_freelist := l_rx_info_freelist l,
           l_rx_info_in_use := l_rx_info_in_use l, l_rx_info_max_used := l_rx_info_max_used l,
           l_upstream_backpressure := l_upstream_backpressure l, l_trace := l_trace l\<rparr>"
    using assms(1) by (simp only: rx_frame_def)
  also have "\<dots> = l''\<lparr>l_rx_info := l_rx_info l, l_rx_info_freelist := l_rx_info_freelist l,
           l_rx_info_in_use := l_rx_info_in_use l, l_rx_info_max_used := l_rx_info_max_used l,
           l_upstream_backpressure := l_upstream_backpressure l, l_trace := l_trace l\<rparr>"
    by (subst assms(2) [unfolded rx_frame_def]) simp
  finally show ?thesis by (simp only: rx_frame_def)
qed

lemma rx_frame_fields:
  assumes "rx_frame l l'"
  shows "l_fds l' = l_fds l" "l_fd_info l' = l_fd_info l" "l_tracked_fds l' = l_tracked_fds l"
    "l_inactive_fds l' = l_inactive_fds l" "l_msgs l' = l_msgs l"
    "l_msg_freelist l' = l_msg_freelist l" "l_msgs_in_use l' = l_msgs_in_use l"
    "l_queue l' = l_queue l" "l_shutdown_notify_fd l' = l_shutdown_notify_fd l"
    "l_read_buf_size l' = l_read_buf_size l" "l_error_occured l' = l_error_occured l"
    "l_is_idle l' = l_is_idle l" "l_incoming l' = l_incoming l"
  by (subst assms [unfolded rx_frame_def]; simp)+

lemma rx_frame_updates [simp]:
  "rx_frame l (emit e l)" "rx_frame l (upd_info i f l)"
  "rx_frame l (l\<lparr>l_upstream_backpressure := b\<rparr>)" "rx_frame l (rx_push l i)" "rx_frame l (rx_pop l i)"
  by (simp_all add: rx_frame_def emit_def upd_info_def rx_push_def rx_pop_def)

section \<open>Receive records: basic facts\<close>

lemma finite_active_ids [simp]: "finite (active_ids l)"
  by (simp add: active_ids_def)

lemma active_ids_subset: "active_ids l \<subseteq> {..<MAX_PENDING_MESSAGES}"
  by (auto simp: active_ids_def)

lemma card_active_ids: "card (active_ids l) \<le> MAX_PENDING_MESSAGES"
  using card_mono [OF _ active_ids_subset] by fastforce

lemma emit_fields [simp]:
  "l_rx_info (emit e l) = l_rx_info l" "l_trace (emit e l) = l_trace l @ [e]"
  "l_rx_info_freelist (emit e l) = l_rx_info_freelist l"
  "l_rx_info_in_use (emit e l) = l_rx_info_in_use l"
  "l_rx_info_max_used (emit e l) = l_rx_info_max_used l"
  "l_upstream_backpressure (emit e l) = l_upstream_backpressure l"
  by (simp_all add: emit_def)

lemma upd_info_fields [simp]:
  "length (l_rx_info (upd_info i f l)) = length (l_rx_info l)" "l_trace (upd_info i f l) = l_trace l"
  "l_rx_info_freelist (upd_info i f l) = l_rx_info_freelist l"
  "l_rx_info_in_use (upd_info i f l) = l_rx_info_in_use l"
  "l_rx_info_max_used (upd_info i f l) = l_rx_info_max_used l"
  "l_upstream_backpressure (upd_info i f l) = l_upstream_backpressure l"
  by (simp_all add: upd_info_def)

lemma upd_info_nth:
  "i < length (l_rx_info l) \<Longrightarrow>
   l_rx_info (upd_info i f l) ! j = (if j = i then f (l_rx_info l ! i) else l_rx_info l ! j)"
  by (simp add: upd_info_def nth_list_update)

lemma rx_pool_ok_cong:
  assumes "rx_pool_ok l" "l_rx_info l' = l_rx_info l" "l_rx_info_freelist l' = l_rx_info_freelist l"
    "l_rx_info_in_use l' = l_rx_info_in_use l" "l_rx_info_max_used l' = l_rx_info_max_used l"
  shows "rx_pool_ok l'" "active_ids l' = active_ids l"
  using assms by (simp_all add: rx_pool_ok_def active_ids_def inactive_def)

lemma active_ids_emit [simp]: "active_ids (emit e l) = active_ids l"
  by (simp add: active_ids_def inactive_def)

lemma rx_pool_ok_emit [simp]: "rx_pool_ok (emit e l) = rx_pool_ok l"
  by (simp add: rx_pool_ok_def inactive_def)

lemma rx_pool_ok_bp [simp]: "rx_pool_ok (l\<lparr>l_upstream_backpressure := b\<rparr>) = rx_pool_ok l"
  by (simp add: rx_pool_ok_def active_ids_def inactive_def)

text \<open>Rewriting the contents of an active record, keeping it active, keeps the pool.\<close>

lemma rx_pool_ok_upd:
  assumes "rx_pool_ok l" "i \<in> active_ids l"
    "rx_state (f (l_rx_info l ! i)) \<noteq> RIS_INACTIVE" "rx_next (f (l_rx_info l ! i)) = rx_nxt l i"
  shows "rx_pool_ok (upd_info i f l)" "active_ids (upd_info i f l) = active_ids l"
proof -
  have i: "i < length (l_rx_info l)" using assms(1,2) by (simp add: rx_pool_ok_def active_ids_def)
  show act: "active_ids (upd_info i f l) = active_ids l"
    using assms(2,3) by (auto simp: active_ids_def inactive_def upd_info_nth [OF i] split: if_splits)
  have "rx_nxt (upd_info i f l) = rx_nxt l"
    using assms(4) by (auto simp: upd_info_nth [OF i])
  then show "rx_pool_ok (upd_info i f l)"
    using assms(1) act by (simp add: rx_pool_ok_def)
qed

lemma lower_max_used_props:
  "lower_max_used infos m \<le> m"
  "lower_max_used infos m < i \<Longrightarrow> i \<le> m \<Longrightarrow> rx_state (infos ! i) = RIS_INACTIVE"
  by (induction m) (auto split: if_splits simp: le_Suc_eq less_Suc_eq_le)

section \<open>Reserving a receive record\<close>

lemma GetFreeRXInfo_none:
  assumes "rx_pool_ok l" "l_rx_info_freelist l = None"
  shows "ListenerHelper_GetFreeRXInfo l = Some (None, l)" "card (active_ids l) = MAX_PENDING_MESSAGES"
proof -
  show "ListenerHelper_GetFreeRXInfo l = Some (None, l)"
    using assms by (simp add: ListenerHelper_GetFreeRXInfo_def)
  have "{..<MAX_PENDING_MESSAGES} \<subseteq> active_ids l"
    using rx_fl.exhausted_iff assms by (metis rx_pool_ok_def)
  then have "active_ids l = {..<MAX_PENDING_MESSAGES}" using active_ids_subset by blast
  then show "card (active_ids l) = MAX_PENDING_MESSAGES" by simp
qed

lemma GetFreeRXInfo_some:
  assumes "rx_pool_ok l" "l_rx_info_freelist l = Some i"
  obtains l' where "ListenerHelper_GetFreeRXInfo l = Some (Some i, l')"
    "i < MAX_PENDING_MESSAGES" "i \<notin> active_ids l" "rx_frame l l'"
    "l_rx_info l' = (l_rx_info l)[i := (l_rx_info l ! i)\<lparr>rx_next := None\<rparr>]"
    "l_trace l' = l_trace l" "l_upstream_backpressure l' = l_upstream_backpressure l"
    "l_rx_info_in_use l' = l_rx_info_in_use l + 1"
    "l_rx_info_max_used l' = max (l_rx_info_max_used l) i"
    "chain_ok (rx_nxt l') (l_rx_info_freelist l') ({..<MAX_PENDING_MESSAGES} - insert i (active_ids l))"
proof -
  let ?p = "rx_pop l i"
  let ?l' = "?p\<lparr>l_rx_info_in_use := l_rx_info_in_use l + 1,
                l_rx_info_max_used := max (l_rx_info_max_used l) i\<rparr>"
  have sz: "rx_sized l" and ch: "chain_ok (rx_nxt l) (l_rx_info_freelist l) ({..<MAX_PENDING_MESSAGES} - active_ids l)"
    using assms(1) by (simp_all add: rx_pool_ok_def)
  have pop: "i < MAX_PENDING_MESSAGES" "i \<notin> active_ids l"
    "chain_ok (rx_nxt ?p) (l_rx_info_freelist ?p) ({..<MAX_PENDING_MESSAGES} - insert i (active_ids l))"
    using rx_fl.pop_takes_free [OF sz ch assms(2)] by auto
  have ina: "inactive l i" using pop(1,2) by (simp add: active_ids_def)
  have "ListenerHelper_GetFreeRXInfo l = Some (Some i, ?l')"
    using assms(2) pop(1) ina sz
    by (simp add: ListenerHelper_GetFreeRXInfo_def inactive_def rx_pop_def upd_info_def Let_def max_def)
  moreover have "rx_frame l ?l'" by (simp add: rx_frame_def rx_pop_def upd_info_def)
  ultimately show ?thesis using pop that by (simp add: rx_pop_def upd_info_def)
qed

lemma in_use_Suc:
  assumes "rx_pool_ok l" "card (active_ids l) < MAX_PENDING_MESSAGES"
  shows "unat (l_rx_info_in_use l + 1) = card (active_ids l) + 1"
  using assms by (subst unat_add_no_wrap) (simp_all add: rx_pool_ok_def MAX_PENDING_MESSAGES_def)

text \<open>Reserving a record and putting it in use keeps the pool.\<close>

lemma rx_reserve:
  assumes "rx_pool_ok l" "l_rx_info_freelist l = Some i"
    and "\<And>r. rx_state (f r) \<noteq> RIS_INACTIVE" "\<And>r. rx_next (f r) = rx_next r"
  obtains l' where "ListenerHelper_GetFreeRXInfo l = Some (Some i, l')"
    "rx_pool_ok (upd_info i f l')" "active_ids (upd_info i f l') = insert i (active_ids l)"
    "i \<notin> active_ids l" "i < MAX_PENDING_MESSAGES" "rx_frame l l'"
    "l_rx_info (upd_info i f l') = (l_rx_info l)[i := f ((l_rx_info l ! i)\<lparr>rx_next := None\<rparr>)]"
    "l_trace l' = l_trace l"
proof -
  from GetFreeRXInfo_some [OF assms(1,2)] obtain l' where
    g: "ListenerHelper_GetFreeRXInfo l = Some (Some i, l')"
    and i: "i < MAX_PENDING_MESSAGES" "i \<notin> active_ids l" and fr: "rx_frame l l'"
    and info: "l_rx_info l' = (l_rx_info l)[i := (l_rx_info l ! i)\<lparr>rx_next := None\<rparr>]"
    and tr: "l_trace l' = l_trace l" and iu: "l_rx_info_in_use l' = l_rx_info_in_use l + 1"
    and mu: "l_rx_info_max_used l' = max (l_rx_info_max_used l) i"
    and ch: "chain_ok (rx_nxt l') (l_rx_info_freelist l') ({..<MAX_PENDING_MESSAGES} - insert i (active_ids l))"
    by metis
  let ?u = "upd_info i f l'"
  have sz: "i < length (l_rx_info l)" using i assms(1) by (simp add: rx_pool_ok_def)
  have uinfo: "l_rx_info ?u = (l_rx_info l)[i := f ((l_rx_info l ! i)\<lparr>rx_next := None\<rparr>)]"
    using sz by (simp add: upd_info_def info)
  have act: "active_ids ?u = insert i (active_ids l)"
    using i sz assms(3) by (auto simp: active_ids_def inactive_def uinfo nth_list_update split: if_splits)
  have nx: "rx_nxt ?u = rx_nxt l'"
    using sz assms(4) by (auto simp: uinfo info nth_list_update)
  have "card (insert i (active_ids l)) \<le> MAX_PENDING_MESSAGES" using card_active_ids [of ?u] act by simp
  then have "unat (l_rx_info_in_use ?u) = card (active_ids ?u)"
    using in_use_Suc [OF assms(1)] i iu act by simp
  then have "rx_pool_ok ?u"
    using assms(1) act nx ch i mu by (auto simp: rx_pool_ok_def info)
  then show ?thesis using that g act i fr uinfo tr by blast
qed

section \<open>Releasing a receive record\<close>

text \<open>A record the code may release: a hold, or an expectation whose box is gone.\<close>

fun releasable :: "rx_state \<Rightarrow> bool" where
  "releasable RIS_INACTIVE = False"
| "releasable (RIS_HOLD h) = True"
| "releasable (RIS_EXPECT e) = (e_error e = RX_ERROR_DONE \<and> e_box e = None)"

text \<open>Connection records of the tracked sockets are never null.\<close>

definition conns_present :: "'u listener \<Rightarrow> bool" where
  "conns_present l \<longleftrightarrow> (\<forall>i < l_tracked_fds l. i < length (l_fd_info l) \<and> l_fd_info l ! i \<noteq> None)"

lemma find_ci_total: "\<forall>c \<in> set cs. c \<noteq> None \<Longrightarrow> \<exists>r. find_ci cs fd = Some r"
  by (induction cs) auto

lemma get_connection_info_total:
  assumes "conns_present l"
  shows "\<exists>r. get_connection_info l fd = Some r"
  unfolding get_connection_info_def
  by (rule find_ci_total) (use assms in \<open>auto simp: conns_present_def in_set_conv_nth\<close>)

text \<open>The message of a hold that is dropped with its result goes to the callback for
  unexpected messages, or is leaked.\<close>

definition release_events :: "('u, 'm) env \<Rightarrow> 'u listener \<Rightarrow> rx_state \<Rightarrow> event list" where
  "release_events env l st =
     (case st of
        RIS_HOLD h \<Rightarrow>
          if h_has_result h \<and> ur_ok (h_result h)
          then [if (\<exists>ci. get_connection_info l (h_fd h) = Some (Some ci)) \<and> env_unexpected_cb env
                then Unexpected_msg (ur_msg (h_result h)) (ur_seq_id (h_result h)) else Leaked_result]
          else []
      | _ \<Rightarrow> [])"

lemma rx_push_pool:
  assumes "rx_pool_ok l" "i \<in> active_ids l"
  shows "chain_ok (rx_nxt (rx_push l i)) (l_rx_info_freelist (rx_push l i))
           ({..<MAX_PENDING_MESSAGES} - (active_ids l - {i}))"
    and "active_ids (rx_push l i) = active_ids l - {i}"
proof -
  have sz: "rx_sized l" and i: "i < MAX_PENDING_MESSAGES"
    using assms by (simp_all add: rx_pool_ok_def active_ids_def)
  show "chain_ok (rx_nxt (rx_push l i)) (l_rx_info_freelist (rx_push l i))
          ({..<MAX_PENDING_MESSAGES} - (active_ids l - {i}))"
    by (rule rx_fl.push_frees [OF sz _ i assms(2)]) (use assms(1) in \<open>simp add: rx_pool_ok_def\<close>)
  show "active_ids (rx_push l i) = active_ids l - {i}"
    using sz i
    by (auto simp: active_ids_def inactive_def rx_push_def upd_info_def nth_list_update split: if_splits)
qed

lemma in_use_pred:
  assumes "rx_pool_ok l" "i \<in> active_ids l"
  shows "unat (l_rx_info_in_use l - 1) = card (active_ids l - {i})"
proof -
  have c: "unat (l_rx_info_in_use l) = card (active_ids l)" using assms(1) by (simp add: rx_pool_ok_def)
  have "card (active_ids l) > 0" using assms(2) by (auto simp: card_gt_0_iff)
  then have "1 \<le> l_rx_info_in_use l" using c by (simp add: word_le_nat_alt)
  then show ?thesis using c assms(2) by (simp add: unat_sub_le)
qed

text \<open>The bookkeeping part of a release, after the checks on the record's state.\<close>

definition rx_retire :: "'u listener \<Rightarrow> nat \<Rightarrow> 'u listener" where
  "rx_retire l i =
     (rx_push l i)\<lparr>
        l_rx_info_max_used :=
          (if l_rx_info_max_used l = i \<and> i > 0
           then lower_max_used (l_rx_info (rx_push l i)) i else l_rx_info_max_used l),
        l_rx_info_in_use := l_rx_info_in_use l - 1\<rparr>"

lemma rx_retire_fields [simp]:
  "l_rx_info (rx_retire l i) =
     (l_rx_info l)[i := (l_rx_info l ! i)\<lparr>rx_state := RIS_INACTIVE, rx_next := l_rx_info_freelist l\<rparr>]"
  "l_trace (rx_retire l i) = l_trace l"
  "l_upstream_backpressure (rx_retire l i) = l_upstream_backpressure l"
  by (simp_all add: rx_retire_def rx_push_def upd_info_def)

lemma rx_frame_retire [simp]: "rx_frame l (rx_retire l i)"
  by (simp add: rx_frame_def rx_retire_def rx_push_def upd_info_def)

lemma active_ids_retire:
  "rx_pool_ok l \<Longrightarrow> i \<in> active_ids l \<Longrightarrow> active_ids (rx_retire l i) = active_ids l - {i}"
  using rx_push_pool(2) [of l i] by (simp add: active_ids_def inactive_def rx_retire_def)

lemma rx_pool_ok_retire:
  assumes "rx_pool_ok l" "i \<in> active_ids l"
  shows "rx_pool_ok (rx_retire l i)"
proof -
  let ?p = "rx_push l i" and ?r = "rx_retire l i"
  have i: "i < MAX_PENDING_MESSAGES" using assms by (simp add: active_ids_def)
  have mu: "l_rx_info_max_used l < MAX_PENDING_MESSAGES" using assms by (simp add: rx_pool_ok_def)
  have below: "j \<le> l_rx_info_max_used ?r" if "j \<in> active_ids ?r" for j
  proof (rule ccontr)
    assume n: "\<not> ?thesis"
    have j: "j \<in> active_ids l" "j \<noteq> i" using that active_ids_retire [OF assms] by auto
    then have "j \<le> l_rx_info_max_used l" using assms by (simp add: rx_pool_ok_def)
    with n have "l_rx_info_max_used l = i" "lower_max_used (l_rx_info ?p) i < j" "j \<le> i"
      by (auto simp: rx_retire_def split: if_splits)
    then have "rx_state (l_rx_info ?p ! j) = RIS_INACTIVE" using lower_max_used_props(2) by blast
    then show False using that by (simp add: active_ids_def inactive_def rx_retire_def)
  qed
  have "l_rx_info_max_used ?r < MAX_PENDING_MESSAGES"
    using mu lower_max_used_props(1) [of "l_rx_info ?p" i] i by (auto simp: rx_retire_def)
  moreover have "rx_nxt ?r = rx_nxt ?p" "l_rx_info_freelist ?r = l_rx_info_freelist ?p"
    by (simp_all add: rx_retire_def)
  moreover have "unat (l_rx_info_in_use ?r) = card (active_ids l - {i})"
    using in_use_pred [OF assms] by (simp add: rx_retire_def)
  ultimately show ?thesis
    using assms below rx_push_pool [OF assms] active_ids_retire [OF assms] by (simp add: rx_pool_ok_def)
qed

lemma ReleaseRXInfo_eq:
  assumes "rx_pool_ok l" "conns_present l" "i \<in> active_ids l" "releasable (rx_state (l_rx_info l ! i))"
  shows "ListenerTask_ReleaseRXInfo env l i =
     Some ((rx_retire l i)\<lparr>l_trace := l_trace l @ release_events env l (rx_state (l_rx_info l ! i))\<rparr>)"
proof -
  have i: "i < MAX_PENDING_MESSAGES" using assms(3) by (simp add: active_ids_def)
  have mu: "lower_max_used xs i < MAX_PENDING_MESSAGES" for xs
    using lower_max_used_props(1) i by (rule le_less_trans)
  obtain ci where "get_connection_info l fd = Some (ci fd)" for fd
    using get_connection_info_total [OF assms(2)] by metis
  then show ?thesis
    using i mu assms(4)
    by (cases "rx_state (l_rx_info l ! i)")
      (auto simp: ListenerTask_ReleaseRXInfo_def release_events_def rx_retire_def rx_push_def
        upd_info_def emit_def Let_def split: option.splits)
qed

section \<open>Command messages: reserving and releasing\<close>

lemma msgs_owned_props [simp]: "finite (msgs_owned l)" "msgs_owned l \<subseteq> {..<MAX_QUEUE_MESSAGES}"
  by (auto simp: msgs_owned_def)

lemma GetFreeMsg_none:
  assumes "msg_pool_ok l" "l_msg_freelist l = None"
  shows "ListenerHelper_GetFreeMsg l = Some (None, l)" "msgs_owned l = {..<MAX_QUEUE_MESSAGES}"
  using assms msg_fl.exhausted_iff [of l "msgs_owned l"] msgs_owned_props(2) [of l]
  by (auto simp: ListenerHelper_GetFreeMsg_def msg_pool_ok_def)

text \<open>A reserved message that is given a command keeps the pool.\<close>

lemma msg_reserve:
  assumes "msg_pool_ok l" "l_msg_freelist l = Some i" "body \<noteq> MSG_NONE"
  obtains l' where "ListenerHelper_GetFreeMsg l = Some (Some i, l')" "i < MAX_QUEUE_MESSAGES"
    "i \<notin> msgs_owned l"
    "l_trace l' = l_trace l @ (if msg_delay (l_msgs_in_use l) > 0
                               then [Slept (1000 * msg_delay (l_msgs_in_use l))] else [])"
    "l' = l\<lparr>l_msg_freelist := msg_nxt l i, l_msgs_in_use := l_msgs_in_use l + 1, l_trace := l_trace l'\<rparr>"
    "msg_pool_ok (upd_msg i (\<lambda>m. m\<lparr>m_body := body\<rparr>) l')"
    "msgs_owned (upd_msg i (\<lambda>m. m\<lparr>m_body := body\<rparr>) l') = insert i (msgs_owned l)"
proof -
  have sz: "msg_sized l" and ch: "chain_ok (msg_nxt l) (l_msg_freelist l) ({..<MAX_QUEUE_MESSAGES} - msgs_owned l)"
    and iu: "l_msgs_in_use l = int (card (msgs_owned l))"
    using assms(1) by (simp_all add: msg_pool_ok_def)
  have pop: "i < MAX_QUEUE_MESSAGES" "i \<notin> msgs_owned l"
    "chain_ok (msg_nxt (msg_pop l i)) (l_msg_freelist (msg_pop l i)) ({..<MAX_QUEUE_MESSAGES} - insert i (msgs_owned l))"
    using msg_fl.pop_takes_free [OF sz ch assms(2)] by auto
  have none: "m_body (l_msgs l ! i) = MSG_NONE" using pop(1,2) by (simp add: msgs_owned_def)
  have "insert i (msgs_owned l) \<subseteq> {..<MAX_QUEUE_MESSAGES}" using pop(1) msgs_owned_props(2) [of l] by blast
  from card_mono [OF _ this] have lt: "l_msgs_in_use l < int MAX_QUEUE_MESSAGES"
    using pop(2) iu by simp
  let ?d = "msg_delay (l_msgs_in_use l)"
  let ?l' = "l\<lparr>l_msg_freelist := msg_nxt l i, l_msgs_in_use := l_msgs_in_use l + 1,
      l_trace := l_trace l @ (if ?d > 0 then [Slept (1000 * ?d)] else [])\<rparr>"
  have g: "ListenerHelper_GetFreeMsg l = Some (Some i, ?l')"
    using assms(2) pop(1) sz lt none
    by (simp add: ListenerHelper_GetFreeMsg_def msg_pop_def Let_def emit_def)
  let ?u = "upd_msg i (\<lambda>m. m\<lparr>m_body := body\<rparr>) ?l'"
  have own: "msgs_owned ?u = insert i (msgs_owned l)"
    using pop(1) sz assms(3) by (auto simp: msgs_owned_def upd_msg_def nth_list_update split: if_splits)
  have nx: "msg_nxt ?u = msg_nxt l"
    using pop(1) sz by (auto simp: upd_msg_def nth_list_update)
  have "msg_pool_ok ?u"
    unfolding msg_pool_ok_def own nx using pop iu sz by (simp add: upd_msg_def msg_pop_def)
  with own g pop show ?thesis by (intro that [of ?l']) simp_all
qed

lemma ReleaseMsg_ok:
  assumes "msg_pool_ok l" "i \<in> msgs_owned l"
  obtains l' where "ListenerTask_ReleaseMsg l i = Some l'" "msg_pool_ok l'"
    "msgs_owned l' = msgs_owned l - {i}"
    "l' = (msg_push l i)\<lparr>l_msgs_in_use := l_msgs_in_use l - 1\<rparr>"
proof -
  have i: "i < MAX_QUEUE_MESSAGES" using assms(2) by (simp add: msgs_owned_def)
  have sz: "msg_sized l" and iu: "l_msgs_in_use l = int (card (msgs_owned l))"
    and ch: "chain_ok (msg_nxt l) (l_msg_freelist l) ({..<MAX_QUEUE_MESSAGES} - msgs_owned l)"
    using assms(1) by (simp_all add: msg_pool_ok_def)
  have pos: "card (msgs_owned l) > 0" using assms(2) by (auto simp: card_gt_0_iff)
  let ?l' = "(msg_push l i)\<lparr>l_msgs_in_use := l_msgs_in_use l - 1\<rparr>"
  have r: "ListenerTask_ReleaseMsg l i = Some ?l'"
    using i iu by (simp add: ListenerTask_ReleaseMsg_def Let_def msg_push_def upd_msg_def)
  have own: "msgs_owned ?l' = msgs_owned l - {i}"
    using i sz by (auto simp: msgs_owned_def msg_push_def upd_msg_def nth_list_update split: if_splits)
  have c: "chain_ok (msg_nxt (msg_push l i)) (l_msg_freelist (msg_push l i)) ({..<MAX_QUEUE_MESSAGES} - (msgs_owned l - {i}))"
    by (rule msg_fl.push_frees [OF sz ch i assms(2)])
  have "msg_pool_ok ?l'"
    unfolding msg_pool_ok_def own using c sz iu pos assms(2)
    by (auto simp: card_Diff_singleton int_ops msg_push_def upd_msg_def)
  with r own show ?thesis by (intro that [of ?l']) simp_all
qed

section \<open>The pools of a new listener\<close>

lemma init_rx_info_eq:
  assumes "n \<le> length infos"
  shows "init_rx_info n (infos, fl) =
     (map (\<lambda>i. (infos ! i)\<lparr>rx_state := RIS_INACTIVE,
                 rx_next := (if Suc i = n then fl else Some (Suc i))\<rparr>) [0..<n] @ drop n infos,
      if n = 0 then fl else Some 0)"
  using assms
proof (induction n arbitrary: infos fl)
  case (Suc n)
  have "drop n (infos[n := x]) = x # drop (Suc n) infos" for x
    using Suc.prems by (metis Cons_nth_drop_Suc drop_update_cancel length_list_update less_eq_Suc_le lessI nth_list_update_eq)
  moreover have "n \<le> length infos" using Suc.prems by simp
  ultimately show ?case
    using Suc.IH [of "infos[n := (infos ! n)\<lparr>rx_state := RIS_INACTIVE, rx_next := fl\<rparr>]" "Some n"]
    by (auto simp: list_update_beyond)
qed simp

lemma linked_upt:
  assumes "k \<le> n" "\<And>i. k \<le> i \<Longrightarrow> i < n \<Longrightarrow> nxt i = (if Suc i = n then None else Some (Suc i))"
  shows "linked nxt (if k = n then None else Some k) [k..<n]"
  using assms
proof (induction "n - k" arbitrary: k)
  case (Suc d)
  then have "k < n" by simp
  moreover have "linked nxt (if Suc k = n then None else Some (Suc k)) [Suc k..<n]"
    using Suc by simp
  ultimately show ?case using Suc.prems by (simp add: upt_conv_Cons)
qed simp

lemma linked_down:
  "(\<And>i. i < n \<Longrightarrow> nxt i = (if i = 0 then None else Some (i - 1))) \<Longrightarrow>
   linked nxt (if n = 0 then None else Some (n - 1)) (rev [0..<n])"
proof (induction n)
  case (Suc n)
  then have "linked nxt (if n = 0 then None else Some (n - 1)) (rev [0..<n])" by simp
  with Suc.prems [of n] show ?case by simp
qed simp

lemma init_msgs_Some:
  "init_msgs (map Some ps) done =
     Some (done @ map (\<lambda>i. \<lparr>m_body = MSG_NONE, m_next = (if length done + i = 0 then None else Some (length done + i - 1)),
                            m_pipes = ps ! i\<rparr>) [0..<length ps])"
proof (induction ps arbitrary: "done")
  case (Cons p ps)
  then show ?case by (simp add: map_upt_Suc del: upt_Suc)
qed simp

lemma init_msgs_fails: "None \<in> set ps \<Longrightarrow> init_msgs ps done = None"
  by (induction ps "done" rule: init_msgs.induct) auto

text \<open>A listener is created exactly when the allocation and all pipes succeed.\<close>

lemma Listener_Init_Some:
  assumes "length ps = MAX_QUEUE_MESSAGES"
  obtains l where "Listener_Init True (Some p) (map Some ps) = Some l"
    "rx_pool_ok l" "msg_pool_ok l" "active_ids l = {}" "msgs_owned l = {}" "l_tracked_fds l = 0"
    "l_inactive_fds l = 0" "l_queue l = []" "l_trace l = []" "l_shutdown_notify_fd l = LISTENER_NO_FD"
    "length (l_fds l) = MAX_FDS" "length (l_fd_info l) = MAX_FDS"
    "\<And>i. i < MAX_QUEUE_MESSAGES \<Longrightarrow> m_pipes (l_msgs l ! i) = ps ! i"
proof -
  let ?i = "Listener_Init True (Some p) (map Some ps) :: 'a listener option"
  obtain l where l: "?i = Some l"
    by (cases p) (simp add: Listener_Init_def init_msgs_Some init_rx_info_eq Let_def)
  have inf: "l_rx_info l = map (\<lambda>i. \<lparr>rx_next = (if Suc i = MAX_PENDING_MESSAGES then None else Some (Suc i)),
        rx_state = RIS_INACTIVE, rx_timeout_sec = 0\<rparr>) [0..<MAX_PENDING_MESSAGES]"
    "l_rx_info_freelist l = Some 0" "l_rx_info_in_use l = 0" "l_rx_info_max_used l = 0"
    using l by (auto simp: Listener_Init_def init_msgs_Some init_rx_info_eq Let_def split: prod.splits)
  have ms: "l_msgs l = map (\<lambda>i. \<lparr>m_body = MSG_NONE, m_next = (if i = 0 then None else Some (i - 1)), m_pipes = ps ! i\<rparr>) [0..<MAX_QUEUE_MESSAGES]"
    "l_msg_freelist l = Some (MAX_QUEUE_MESSAGES - 1)" "l_msgs_in_use l = 0"
    using l assms by (auto simp: Listener_Init_def init_msgs_Some init_rx_info_eq Let_def split: prod.splits)
  have rest: "l_tracked_fds l = 0" "l_inactive_fds l = 0" "l_queue l = []" "l_trace l = []"
    "l_shutdown_notify_fd l = LISTENER_NO_FD" "length (l_fds l) = MAX_FDS" "length (l_fd_info l) = MAX_FDS"
    using l by (auto simp: Listener_Init_def init_msgs_Some init_rx_info_eq Let_def split: prod.splits)
  have act: "active_ids l = {}" by (auto simp: active_ids_def inactive_def inf)
  have own: "msgs_owned l = {}" by (auto simp: msgs_owned_def ms)
  have "linked (rx_nxt l) (if 0 = MAX_PENDING_MESSAGES then None else Some 0) [0..<MAX_PENDING_MESSAGES]"
    by (rule linked_upt) (simp_all add: inf)
  then have "chain_ok (rx_nxt l) (Some 0) {..<MAX_PENDING_MESSAGES}"
    unfolding chain_ok_def by (intro exI [of _ "[0..<MAX_PENDING_MESSAGES]"]) (auto simp: MAX_PENDING_MESSAGES_def)
  then have rx: "rx_pool_ok l" using act inf by (simp add: rx_pool_ok_def MAX_PENDING_MESSAGES_def)
  have "linked (msg_nxt l) (if MAX_QUEUE_MESSAGES = 0 then None else Some (MAX_QUEUE_MESSAGES - 1)) (rev [0..<MAX_QUEUE_MESSAGES])"
    by (rule linked_down) (simp add: ms)
  then have "chain_ok (msg_nxt l) (l_msg_freelist l) {..<MAX_QUEUE_MESSAGES}"
    unfolding chain_ok_def ms(2)
    by (intro exI [of _ "rev [0..<MAX_QUEUE_MESSAGES]"]) (auto simp: MAX_QUEUE_MESSAGES_def)
  then have msg: "msg_pool_ok l" using own ms by (simp add: msg_pool_ok_def)
  show ?thesis by (rule that [OF l rx msg act own rest]) (simp add: ms)
qed

section \<open>Properties of the receive record pool\<close>

text \<open>in a consistent pool of receive records, \<^verbatim>\<open>ListenerHelper_GetFreeRXInfo\<close> fails exactly
  when all 1024 are in use; otherwise it hands out a record nobody uses, and once the record
  is marked in use the pool is consistent again: free list, in-use counter and
  \<^verbatim>\<open>rx_info_max_used\<close> all account for it, and no other record is touched.\<close>
theorem reserve_rx_info:
  assumes "rx_pool_ok l" "st \<noteq> RIS_INACTIVE"
  shows "case ListenerHelper_GetFreeRXInfo l of
           None \<Rightarrow> False
         | Some (None, l') \<Rightarrow> l' = l \<and> card (active_ids l) = MAX_PENDING_MESSAGES
         | Some (Some i, l') \<Rightarrow>
             let l'' = upd_info i (\<lambda>r. r\<lparr>rx_state := st\<rparr>) l' in
             i < MAX_PENDING_MESSAGES \<and> i \<notin> active_ids l \<and> rx_pool_ok l'' \<and>
             active_ids l'' = insert i (active_ids l) \<and>
             (\<forall>j. j \<noteq> i \<longrightarrow> l_rx_info l'' ! j = l_rx_info l ! j)"
proof (cases "l_rx_info_freelist l")
  case None
  then show ?thesis using GetFreeRXInfo_none [OF assms(1)] by simp
next
  case (Some i)
  from assms(2) have "rx_state (r\<lparr>rx_state := st\<rparr>) \<noteq> RIS_INACTIVE"
    "rx_next (r\<lparr>rx_state := st\<rparr>) = rx_next r" for r by simp_all
  from rx_reserve [OF assms(1) Some this] show ?thesis
    by (smt (verit, best) Let_def case_prod_conv nth_list_update_neq option.case(2))
qed

text \<open>A new listener and an environment for examples.\<close>

definition ex_listener :: "nat listener" where
  "ex_listener = the (Listener_Init True (Some (3, 4))
     (map (\<lambda>i. Some (10 + 2 * int i, 11 + 2 * int i)) [0..<MAX_QUEUE_MESSAGES]))"

definition ex_hold :: hold where
  "ex_hold = \<lparr>h_fd = 5, h_seq_id = 7, h_has_result = True,
     h_result = \<lparr>ur_ok = True, ur_msg = 99, ur_seq_id = 7\<rparr>, h_error = RX_ERROR_NONE\<rparr>"

definition ex_env :: "(nat, nat) env" where
  "ex_env = \<lparr>env_sink = (\<lambda>u bs. Some (u, 4, if bs = [] then None else Some (length bs))),
     env_unpack = (\<lambda>m u. \<lparr>ur_ok = True, ur_msg = m, ur_seq_id = 7\<rparr>),
     env_unexpected_cb = True, env_pool = (\<lambda>tr box. (True, 0)), env_ts = (\<lambda>i. True),
     env_realloc = (\<lambda>n. True), env_notify = (\<lambda>fd. [])\<rparr>"

lemma ex_listener_eq:
  "Listener_Init True (Some (3, 4))
     (map Some (map (\<lambda>i. (10 + 2 * int i, 11 + 2 * int i)) [0..<MAX_QUEUE_MESSAGES])) = Some ex_listener"
proof -
  obtain l :: "nat listener" where "Listener_Init True (Some (3, 4))
     (map Some (map (\<lambda>i. (10 + 2 * int i, 11 + 2 * int i)) [0..<MAX_QUEUE_MESSAGES])) = Some l"
    by (rule Listener_Init_Some [where p = "(3, 4)"
          and ps = "map (\<lambda>i. (10 + 2 * int i, 11 + 2 * int i)) [0..<MAX_QUEUE_MESSAGES]"]) simp_all
  then show ?thesis by (simp add: ex_listener_def comp_def)
qed

lemma ex_listener_ok:
  "rx_pool_ok ex_listener" "msg_pool_ok ex_listener" "active_ids ex_listener = {}"
  "msgs_owned ex_listener = {}" "l_tracked_fds ex_listener = 0" "l_inactive_fds ex_listener = 0"
  "l_queue ex_listener = []" "l_trace ex_listener = []"
  "l_shutdown_notify_fd ex_listener = LISTENER_NO_FD"
  "length (l_fds ex_listener) = MAX_FDS" "length (l_fd_info ex_listener) = MAX_FDS"
proof -
  have len: "length (map (\<lambda>i. (10 + 2 * int i, 11 + 2 * int i)) [0..<MAX_QUEUE_MESSAGES]) = MAX_QUEUE_MESSAGES"
    by simp
  note * = Listener_Init_Some [OF len, where p = "(3, 4)" and 'a = nat, unfolded ex_listener_eq option.inject]
  show "rx_pool_ok ex_listener" "msg_pool_ok ex_listener" "active_ids ex_listener = {}"
    "msgs_owned ex_listener = {}" "l_tracked_fds ex_listener = 0" "l_inactive_fds ex_listener = 0"
    "l_queue ex_listener = []" "l_trace ex_listener = []"
    "l_shutdown_notify_fd ex_listener = LISTENER_NO_FD"
    "length (l_fds ex_listener) = MAX_FDS" "length (l_fd_info ex_listener) = MAX_FDS"
    by (rule *, simp)+
qed

lemma reserve_rx_info_witness:
  "case ListenerHelper_GetFreeRXInfo ex_listener of
     None \<Rightarrow> False
   | Some (None, l') \<Rightarrow> l' = ex_listener \<and> card (active_ids ex_listener) = MAX_PENDING_MESSAGES
   | Some (Some i, l') \<Rightarrow>
       let l'' = upd_info i (\<lambda>r. r\<lparr>rx_state := RIS_HOLD ex_hold\<rparr>) l' in
       i < MAX_PENDING_MESSAGES \<and> i \<notin> active_ids ex_listener \<and> rx_pool_ok l'' \<and>
       active_ids l'' = insert i (active_ids ex_listener) \<and>
       (\<forall>j. j \<noteq> i \<longrightarrow> l_rx_info l'' ! j = l_rx_info ex_listener ! j)"
  by (rule reserve_rx_info [OF ex_listener_ok(1)]) simp

text \<open>releasing a receive record that is a hold, or an expectation whose message has been
  handed on, never fails an assertion; it returns the record to the free list, keeps the pool
  consistent (the high-water mark drops to a record in use or to 0), leaves the other records
  as they are, and the next reservation gets the same record.\<close>
theorem release_rx_info:
  assumes "rx_pool_ok l" "conns_present l" "i \<in> active_ids l" "releasable (rx_state (l_rx_info l ! i))"
  shows "\<exists>l' l''. ListenerTask_ReleaseRXInfo env l i = Some l' \<and> rx_pool_ok l' \<and>
           active_ids l' = active_ids l - {i} \<and>
           (\<forall>j. j \<noteq> i \<longrightarrow> l_rx_info l' ! j = l_rx_info l ! j) \<and>
           l_trace l' = l_trace l @ release_events env l (rx_state (l_rx_info l ! i)) \<and>
           ListenerHelper_GetFreeRXInfo l' = Some (Some i, l'')"
proof -
  let ?l' = "(rx_retire l i)\<lparr>l_trace := l_trace l @ release_events env l (rx_state (l_rx_info l ! i))\<rparr>"
  have ok: "rx_pool_ok ?l'"
    by (rule rx_pool_ok_cong(1) [OF rx_pool_ok_retire [OF assms(1,3)]]) simp_all
  have "l_rx_info_freelist ?l' = Some i" by (simp add: rx_retire_def rx_push_def)
  from GetFreeRXInfo_some [OF ok this] obtain l'' where
    "ListenerHelper_GetFreeRXInfo ?l' = Some (Some i, l'')" by metis
  moreover have "active_ids ?l' = active_ids l - {i}"
    using active_ids_retire [OF assms(1,3)] by (simp add: active_ids_def inactive_def)
  ultimately show ?thesis
    using ReleaseRXInfo_eq [OF assms] ok by (intro exI [of _ ?l'] exI [of _ l'']) simp
qed

definition ex_held :: "nat listener" where
  "ex_held = (case ListenerHelper_GetFreeRXInfo ex_listener of
     Some (Some i, l) \<Rightarrow> upd_info i (\<lambda>r. r\<lparr>rx_state := RIS_HOLD ex_hold\<rparr>) l | _ \<Rightarrow> ex_listener)"

lemma ex_listener_freelist: "l_rx_info_freelist ex_listener = Some 0"
  by (simp add: ex_listener_def Listener_Init_def init_rx_info_eq Let_def
      init_msgs_Some [where ps = "map (\<lambda>i. (10 + 2 * int i, 11 + 2 * int i)) xs" for xs, unfolded map_map comp_def])

lemma ex_listener_buf: "l_read_buf_size ex_listener = 0"
  by (simp add: ex_listener_def Listener_Init_def init_rx_info_eq Let_def
      init_msgs_Some [where ps = "map (\<lambda>i. (10 + 2 * int i, 11 + 2 * int i)) xs" for xs, unfolded map_map comp_def])

lemma ex_msg_freelist: "l_msg_freelist ex_listener = Some 31"
  by (simp add: ex_listener_def Listener_Init_def init_rx_info_eq Let_def MAX_QUEUE_MESSAGES_def
      init_msgs_Some [where ps = "map (\<lambda>i. (10 + 2 * int i, 11 + 2 * int i)) xs" for xs, unfolded map_map comp_def])

lemma ex_held_ok:
  "rx_pool_ok ex_held" "conns_present ex_held" "active_ids ex_held = {0}"
  "rx_state (l_rx_info ex_held ! 0) = RIS_HOLD ex_hold"
proof -
  have f: "rx_state (r\<lparr>rx_state := RIS_HOLD ex_hold\<rparr>) \<noteq> RIS_INACTIVE"
    "rx_next (r\<lparr>rx_state := RIS_HOLD ex_hold\<rparr>) = rx_next r" for r by simp_all
  have len: "0 < length (l_rx_info ex_listener)" using ex_listener_ok(1) by (simp add: rx_pool_ok_def)
  obtain l' where
    l': "ListenerHelper_GetFreeRXInfo ex_listener = Some (Some 0, l')"
    "rx_pool_ok (upd_info 0 (\<lambda>r. r\<lparr>rx_state := RIS_HOLD ex_hold\<rparr>) l')"
    "active_ids (upd_info 0 (\<lambda>r. r\<lparr>rx_state := RIS_HOLD ex_hold\<rparr>) l') = insert 0 (active_ids ex_listener)"
    "rx_frame ex_listener l'"
    "l_rx_info (upd_info 0 (\<lambda>r. r\<lparr>rx_state := RIS_HOLD ex_hold\<rparr>) l') =
     (l_rx_info ex_listener)[0 := (l_rx_info ex_listener ! 0)\<lparr>rx_next := None, rx_state := RIS_HOLD ex_hold\<rparr>]"
    by (rule rx_reserve [OF ex_listener_ok(1) ex_listener_freelist,
          where f = "\<lambda>r. r\<lparr>rx_state := RIS_HOLD ex_hold\<rparr>"]) (use f in auto)
  have e: "ex_held = upd_info 0 (\<lambda>r. r\<lparr>rx_state := RIS_HOLD ex_hold\<rparr>) l'" by (simp add: ex_held_def l'(1))
  show "rx_pool_ok ex_held" "active_ids ex_held = {0}" using l'(2,3) ex_listener_ok(3) by (simp_all add: e)
  show "conns_present ex_held"
    using rx_frame_fields(3) [OF l'(4)] ex_listener_ok(5) by (simp add: e conns_present_def upd_info_def)
  show "rx_state (l_rx_info ex_held ! 0) = RIS_HOLD ex_hold" using l'(5) len by (simp add: e)
qed

lemma release_rx_info_witness:
  "\<exists>l' l''. ListenerTask_ReleaseRXInfo ex_env ex_held 0 = Some l' \<and> rx_pool_ok l' \<and>
     active_ids l' = active_ids ex_held - {0} \<and>
     (\<forall>j. j \<noteq> 0 \<longrightarrow> l_rx_info l' ! j = l_rx_info ex_held ! j) \<and>
     l_trace l' = l_trace ex_held @ release_events ex_env ex_held (rx_state (l_rx_info ex_held ! 0)) \<and>
     ListenerHelper_GetFreeRXInfo l' = Some (Some 0, l'')"
  by (rule release_rx_info) (simp_all add: ex_held_ok)

end
