(* ===== verification/Listener_Task.thy ===== *)
theory Listener_Task
  imports Listener_Pool
begin

text \<open>
  Delivery of boxed messages and the once-a-second tick of the listener thread
  (\<^verbatim>\<open>src/lib/bus/listener_task.c\<close>), with \<^verbatim>\<open>Bus_ProcessBoxedMessage\<close> of \<^verbatim>\<open>bus.c\<close>. A box is
  taken out of its receive record before it is offered to the thread pool and put back when
  the pool refuses it; the trace records every offer and its outcome.
\<close>

section \<open>Offering a box to the thread pool\<close>

definition Bus_ProcessBoxedMessage ::
  "('u, 'm) env \<Rightarrow> 'u listener \<Rightarrow> boxed_msg \<Rightarrow> (bool \<times> size_t \<times> 'u listener) option" where
  "Bus_ProcessBoxedMessage env l box =
     do { c_assert (bx_status box \<noteq> BUS_SEND_UNDEFINED);
          let (ok, backpressure) = env_pool env (l_trace l) box;
          Some (ok, backpressure, emit (if ok then Delivered box else Refused box) l) }"

definition observe_backpressure :: "size_t \<Rightarrow> 'u listener \<Rightarrow> 'u listener" where
  "observe_backpressure backpressure l =
     l\<lparr>l_upstream_backpressure := (l_upstream_backpressure l + backpressure) div 2\<rparr>"

definition set_expect :: "nat \<Rightarrow> expect \<Rightarrow> 'u listener \<Rightarrow> 'u listener" where
  "set_expect i e l = upd_info i (\<lambda>r. r\<lparr>rx_state := RIS_EXPECT e\<rparr>) l"

definition get_expect :: "'u listener \<Rightarrow> nat \<Rightarrow> expect option" where
  "get_expect l i = (case rx_state (l_rx_info l ! i) of RIS_EXPECT e \<Rightarrow> Some e | _ \<Rightarrow> None)"

definition retry_delivery :: "('u, 'm) env \<Rightarrow> 'u listener \<Rightarrow> nat \<Rightarrow> 'u listener option" where
  "retry_delivery env l i =
     do { e \<leftarrow> get_expect l i;
          c_assert (e_error e = RX_ERROR_READY_FOR_DELIVERY);
          box \<leftarrow> e_box e;
          let l1 = set_expect i (e\<lparr>e_box := None\<rparr>) l;
          c_assert (bx_status box = BUS_SEND_SUCCESS);
          (ok, backpressure, l2) \<leftarrow> Bus_ProcessBoxedMessage env l1 box;
          l3 \<leftarrow> (if ok then
                   ListenerTask_ReleaseRXInfo env
                     (set_expect i (e\<lparr>e_box := None, e_error := RX_ERROR_DONE\<rparr>) l2) i
                 else Some (set_expect i (e\<lparr>e_box := Some box\<rparr>) l2));
          Some (observe_backpressure backpressure l3) }"

definition clean_up_completed_info :: "('u, 'm) env \<Rightarrow> 'u listener \<Rightarrow> nat \<Rightarrow> 'u listener option" where
  "clean_up_completed_info env l i =
     do { e \<leftarrow> get_expect l i;
          c_assert (e_error e = RX_ERROR_DONE);
          (case e_box e of
             Some box \<Rightarrow>
               do { c_assert (bx_status box = BUS_SEND_SUCCESS);
                    let l1 = set_expect i (e\<lparr>e_box := None\<rparr>) l;
                    (ok, backpressure, l2) \<leftarrow> Bus_ProcessBoxedMessage env l1 box;
                    l3 \<leftarrow> (if ok then ListenerTask_ReleaseRXInfo env l2 i
                           else Some (set_expect i (e\<lparr>e_box := Some box\<rparr>) l2));
                    Some (observe_backpressure backpressure l3) }
           | None \<Rightarrow>
               do { l1 \<leftarrow> ListenerTask_ReleaseRXInfo env l i;
                    Some (observe_backpressure 0 l1) }) }"

definition ListenerTask_NotifyMessageFailure ::
  "('u, 'm) env \<Rightarrow> 'u listener \<Rightarrow> nat \<Rightarrow> bus_send_status \<Rightarrow> 'u listener option" where
  "ListenerTask_NotifyMessageFailure env l i status =
     do { e \<leftarrow> get_expect l i;
          box0 \<leftarrow> e_box e;
          c_assert (status \<noteq> BUS_SEND_UNDEFINED);
          let box = box0\<lparr>bx_status := status\<rparr>;
          let l1 = set_expect i (e\<lparr>e_box := None\<rparr>) l;
          (ok, backpressure, l2) \<leftarrow> Bus_ProcessBoxedMessage env l1 box;
          l3 \<leftarrow> (if ok then
                   ListenerTask_ReleaseRXInfo env
                     (set_expect i (e\<lparr>e_box := None, e_error := RX_ERROR_DONE\<rparr>) l2) i
                 else Some (set_expect i (e\<lparr>e_box := Some box\<rparr>) l2));
          Some (observe_backpressure backpressure l3) }"

text \<open>The status and response a box leaves with when its response has arrived.\<close>

definition complete_box :: "boxed_msg \<Rightarrow> bus_unpack_res \<Rightarrow> boxed_msg" where
  "complete_box box res =
     box\<lparr>bx_status := (if bx_status box = BUS_SEND_REQUEST_COMPLETE then BUS_SEND_SUCCESS
                       else bx_status box),
         bx_response := Some (ur_seq_id res, ur_msg res)\<rparr>"

definition ListenerTask_AttemptDelivery :: "('u, 'm) env \<Rightarrow> 'u listener \<Rightarrow> nat \<Rightarrow> 'u listener option" where
  "ListenerTask_AttemptDelivery env l i =
     do { e \<leftarrow> get_expect l i;
          box0 \<leftarrow> e_box e;
          let l1 = set_expect i (e\<lparr>e_box := None\<rparr>) l;
          c_assert (e_has_result e);
          c_assert (ur_ok (e_result e));
          let box = complete_box box0 (e_result e);
          (ok, backpressure, l2) \<leftarrow> Bus_ProcessBoxedMessage env l1 box;
          l3 \<leftarrow> (if ok then
                   clean_up_completed_info env
                     (set_expect i (e\<lparr>e_box := None, e_error := RX_ERROR_DONE\<rparr>) l2) i
                 else Some (set_expect i (e\<lparr>e_box := Some box\<rparr>) l2));
          Some (observe_backpressure backpressure l3) }"

section \<open>The tick\<close>

definition dec_timeout :: "nat \<Rightarrow> 'u listener \<Rightarrow> 'u listener" where
  "dec_timeout i l = upd_info i (\<lambda>r. r\<lparr>rx_timeout_sec := rx_timeout_sec r - 1\<rparr>) l"

definition tick_info :: "('u, 'm) env \<Rightarrow> 'u listener \<Rightarrow> nat \<Rightarrow> (bool \<times> 'u listener) option" where
  "tick_info env l i =
     (let info = l_rx_info l ! i in
      case rx_state info of
        RIS_INACTIVE \<Rightarrow> Some (False, l)
      | RIS_HOLD h \<Rightarrow>
          if rx_timeout_sec info = 1 then
            (if \<not> env_ts env i then Some (True, l)
             else do { l1 \<leftarrow> ListenerTask_ReleaseRXInfo env l i; Some (True, l1) })
          else Some (True, dec_timeout i l)
      | RIS_EXPECT e \<Rightarrow>
          if e_error e = RX_ERROR_READY_FOR_DELIVERY then
            do { l1 \<leftarrow> retry_delivery env l i; Some (True, l1) }
          else if e_error e = RX_ERROR_DONE then
            do { l1 \<leftarrow> clean_up_completed_info env l i; Some (True, l1) }
          else if e_error e \<noteq> RX_ERROR_NONE then
            do { l1 \<leftarrow> ListenerTask_NotifyMessageFailure env l i BUS_SEND_RX_FAILURE; Some (True, l1) }
          else if rx_timeout_sec info = 1 then
            (if \<not> env_ts env i then Some (True, l)
             else do { c_assert (e_box e \<noteq> None);
                       l1 \<leftarrow> ListenerTask_NotifyMessageFailure env l i BUS_SEND_RX_TIMEOUT;
                       Some (True, l1) })
          else Some (True, dec_timeout i l))"

text \<open>The loop's bound, \<^verbatim>\<open>rx_info_max_used\<close>, is read again in every round.\<close>

function tick_loop :: "('u, 'm) env \<Rightarrow> nat \<Rightarrow> bool \<Rightarrow> 'u listener \<Rightarrow> (bool \<times> 'u listener) option" where
  "tick_loop env i any_work l =
     (if i \<le> l_rx_info_max_used l then
        if i < MAX_PENDING_MESSAGES then
          (case tick_info env l i of
             None \<Rightarrow> None
           | Some (work, l') \<Rightarrow> tick_loop env (Suc i) (any_work \<or> work) l')
        else None
      else Some (any_work, l))"
  by pat_completeness auto
termination by (relation "measure (\<lambda>(env, i, any_work, l). MAX_PENDING_MESSAGES - i)") auto

declare tick_loop.simps [simp del]

definition tick_handler :: "('u, 'm) env \<Rightarrow> 'u listener \<Rightarrow> 'u listener option" where
  "tick_handler env l =
     do { (any_work, l') \<leftarrow> tick_loop env 0 False l;
          Some (if any_work then l' else l'\<lparr>l_is_idle := True\<rparr>) }"

section \<open>Backpressure\<close>

text \<open>The factors are floating point in the source; on the ranges below every product is
  exact, so integer arithmetic gives the converted value: \<open>0.25 * 2 * n\<close> is cut down to
  \<open>n div 2\<close>, \<open>0.5 * 10 * n\<close> is \<open>5 n\<close>, \<open>2.0 * 100 * n\<close> is \<open>200 n\<close>. The upstream value is
  a \<^verbatim>\<open>size_t\<close> converted to 16 bits.\<close>

definition ListenerTask_GetBackpressure :: "'u listener \<Rightarrow> u16" where
  "ListenerTask_GetBackpressure l =
     (let n = l_msgs_in_use l;
          msg_fill_pressure =
            (if n < 8 then 0 else if n < 16 then n div 2 else if n < 24 then 5 * n else 200 * n);
          m = uint (l_rx_info_in_use l);
          rx_info_fill_pressure =
            (if m < 256 then 0 else if m < 512 then m div 2 else if m < 768 then m div 2 else 2 * m)
      in word_of_int msg_fill_pressure + word_of_int rx_info_fill_pressure
         + ucast (l_upstream_backpressure l))"

text \<open>Growing the shared read buffer; \<open>env_realloc\<close> says whether the memory can be had.\<close>

definition ListenerTask_GrowReadBuf :: "('u, 'm) env \<Rightarrow> 'u listener \<Rightarrow> size_t \<Rightarrow> bool \<times> 'u listener" where
  "ListenerTask_GrowReadBuf env l nsize =
     (if nsize < l_read_buf_size l then (True, l)
      else if env_realloc env nsize then (True, l\<lparr>l_read_buf_size := nsize\<rparr>)
      else (False, l))"

section \<open>What delivery does\<close>

text \<open>The common shape of the four delivery functions: if the pool takes the box its receive
  record is retired, otherwise the box goes back into the record, which becomes \<open>e\<close>. When the
  first delivery of a response succeeds, the clean-up observes a pressure of 0 as well.\<close>

definition offer :: "bool \<Rightarrow> ('u, 'm) env \<Rightarrow> nat \<Rightarrow> boxed_msg \<Rightarrow> expect \<Rightarrow> 'u listener \<Rightarrow> 'u listener" where
  "offer first env i box e l =
     (let (ok, bp) = env_pool env (l_trace l) box in
      observe_backpressure bp
        (if ok then (if first then observe_backpressure 0 else id) (rx_retire (emit (Delivered box) l) i)
         else set_expect i (e\<lparr>e_box := Some box\<rparr>) (emit (Refused box) l)))"

lemma get_expect_Some [simp]: "rx_state (l_rx_info l ! i) = RIS_EXPECT e \<Longrightarrow> get_expect l i = Some e"
  by (simp add: get_expect_def)

lemma set_expect_fields [simp]:
  "l_trace (set_expect i e l) = l_trace l" "length (l_rx_info (set_expect i e l)) = length (l_rx_info l)"
  by (simp_all add: set_expect_def)

lemma set_expect_emit: "set_expect i e (emit ev l) = emit ev (set_expect i e l)"
  by (simp add: set_expect_def upd_info_def emit_def)

lemma set_expect_twice [simp]: "set_expect i e (set_expect i e' l) = set_expect i e l"
  by (cases "i < length (l_rx_info l)") (simp_all add: set_expect_def upd_info_def list_update_beyond)

lemma rx_retire_set_expect:
  "i < length (l_rx_info l) \<Longrightarrow> rx_retire (set_expect i e l) i = rx_retire l i"
  by (simp add: rx_retire_def rx_push_def set_expect_def upd_info_def)

lemma conns_present_cong [simp]:
  "conns_present (emit ev l) = conns_present l" "conns_present (set_expect i e l) = conns_present l"
  "conns_present (upd_info i f l) = conns_present l"
  by (simp_all add: conns_present_def emit_def set_expect_def upd_info_def)

lemma set_expect_pool:
  assumes "rx_pool_ok l" "i \<in> active_ids l"
  shows "rx_pool_ok (set_expect i e l)" "active_ids (set_expect i e l) = active_ids l"
  unfolding set_expect_def by (rule rx_pool_ok_upd [OF assms]; simp)+

lemma active_less: "rx_pool_ok l \<Longrightarrow> i \<in> active_ids l \<Longrightarrow> i < length (l_rx_info l)"
  by (simp add: rx_pool_ok_def active_ids_def)

lemma set_expect_nth:
  "i < length (l_rx_info l) \<Longrightarrow>
   l_rx_info (set_expect i e l) ! j =
     (if j = i then (l_rx_info l ! i)\<lparr>rx_state := RIS_EXPECT e\<rparr> else l_rx_info l ! j)"
  by (simp add: set_expect_def upd_info_nth)

text \<open>Retiring an emptied expectation.\<close>

lemma Release_done:
  assumes "rx_pool_ok l" "conns_present l" "i \<in> active_ids l" "e_error e = RX_ERROR_DONE" "e_box e = None"
  shows "ListenerTask_ReleaseRXInfo env (set_expect i e l) i = Some (rx_retire l i)"
proof -
  note i = active_less [OF assms(1,3)]
  have "ListenerTask_ReleaseRXInfo env (set_expect i e l) i =
      Some ((rx_retire (set_expect i e l) i)\<lparr>l_trace := l_trace (set_expect i e l) @
        release_events env (set_expect i e l) (rx_state (l_rx_info (set_expect i e l) ! i))\<rparr>)"
    by (rule ReleaseRXInfo_eq)
      (use assms i set_expect_pool [OF assms(1,3)] in \<open>simp_all add: set_expect_nth\<close>)
  then show ?thesis
    using i assms by (simp add: set_expect_nth release_events_def rx_retire_set_expect)
qed

lemma retry_delivery_eq:
  assumes "rx_pool_ok l" "conns_present l" "i \<in> active_ids l"
    "rx_state (l_rx_info l ! i) = RIS_EXPECT e" "e_error e = RX_ERROR_READY_FOR_DELIVERY"
    "e_box e = Some box" "bx_status box = BUS_SEND_SUCCESS"
  shows "retry_delivery env l i = Some (offer False env i box e l)"
proof (cases "env_pool env (l_trace l) box")
  case (Pair ok bp)
  then show ?thesis
    using assms
    by (cases ok)
      (simp_all add: retry_delivery_def Bus_ProcessBoxedMessage_def offer_def Let_def
        Release_done set_expect_emit [symmetric])
qed

lemma NotifyMessageFailure_eq:
  assumes "rx_pool_ok l" "conns_present l" "i \<in> active_ids l"
    "rx_state (l_rx_info l ! i) = RIS_EXPECT e" "e_box e = Some box" "status \<noteq> BUS_SEND_UNDEFINED"
  shows "ListenerTask_NotifyMessageFailure env l i status =
     Some (offer False env i (box\<lparr>bx_status := status\<rparr>) e l)"
proof (cases "env_pool env (l_trace l) (box\<lparr>bx_status := status\<rparr>)")
  case (Pair ok bp)
  then show ?thesis
    using assms
    by (cases ok)
      (simp_all add: ListenerTask_NotifyMessageFailure_def Bus_ProcessBoxedMessage_def offer_def
        Let_def Release_done set_expect_emit [symmetric])
qed

lemma AttemptDelivery_eq:
  assumes "rx_pool_ok l" "conns_present l" "i \<in> active_ids l"
    "rx_state (l_rx_info l ! i) = RIS_EXPECT e" "e_box e = Some box" "bx_status box \<noteq> BUS_SEND_UNDEFINED"
    "e_has_result e" "ur_ok (e_result e)"
  shows "ListenerTask_AttemptDelivery env l i =
     Some (offer True env i (complete_box box (e_result e)) e l)"
proof (cases "env_pool env (l_trace l) (complete_box box (e_result e))")
  case (Pair ok bp)
  have "bx_status (complete_box box (e_result e)) \<noteq> BUS_SEND_UNDEFINED"
    using assms(6) by (simp add: complete_box_def)
  then show ?thesis
    using assms Pair active_less [OF assms(1,3)]
    by (cases ok)
      (simp_all add: ListenerTask_AttemptDelivery_def clean_up_completed_info_def
        Bus_ProcessBoxedMessage_def offer_def Let_def Release_done set_expect_emit [symmetric]
        set_expect_nth)
qed

section \<open>The invariant of the receive records\<close>

text \<open>A hold that has a result has a good one, and its error is a socket error or none; an expectation owns a box with a definite
  status, is never left in the state \<^verbatim>\<open>RX_ERROR_DONE\<close>, and a box waiting for redelivery has
  the status the retry insists on.\<close>

fun info_ok :: "rx_state \<Rightarrow> bool" where
  "info_ok RIS_INACTIVE = True"
| "info_ok (RIS_HOLD h) =
     ((h_has_result h \<longrightarrow> ur_ok (h_result h)) \<and>
      h_error h \<noteq> RX_ERROR_DONE \<and> h_error h \<noteq> RX_ERROR_READY_FOR_DELIVERY)"
| "info_ok (RIS_EXPECT e) =
     (case e_box e of
        None \<Rightarrow> False
      | Some box \<Rightarrow>
          bx_status box \<noteq> BUS_SEND_UNDEFINED \<and> e_error e \<noteq> RX_ERROR_DONE \<and>
          (e_error e = RX_ERROR_READY_FOR_DELIVERY \<longrightarrow> bx_status box = BUS_SEND_SUCCESS))"

definition rx_ok :: "'u listener \<Rightarrow> bool" where
  "rx_ok l \<longleftrightarrow> rx_pool_ok l \<and> conns_present l \<and>
     (\<forall>i < MAX_PENDING_MESSAGES. info_ok (rx_state (l_rx_info l ! i)))"

lemma rx_okD: assumes "rx_ok l"
  shows "rx_pool_ok l" "conns_present l"
    "\<And>i. i < MAX_PENDING_MESSAGES \<Longrightarrow> info_ok (rx_state (l_rx_info l ! i))"
  using assms by (auto simp: rx_ok_def)

lemma active_iff:
  "i < MAX_PENDING_MESSAGES \<Longrightarrow> i \<in> active_ids l \<longleftrightarrow> rx_state (l_rx_info l ! i) \<noteq> RIS_INACTIVE"
  by (simp add: active_ids_def inactive_def)

lemma observe_fields [simp]:
  "l_rx_info (observe_backpressure bp l) = l_rx_info l" "l_trace (observe_backpressure bp l) = l_trace l"
  "l_rx_info_max_used (observe_backpressure bp l) = l_rx_info_max_used l"
  "rx_pool_ok (observe_backpressure bp l) = rx_pool_ok l"
  by (simp_all add: observe_backpressure_def)

lemma frame_conns: "rx_frame l l' \<Longrightarrow> conns_present l' = conns_present l"
  by (simp add: conns_present_def rx_frame_fields)

lemma rx_frame_observe [simp]: "rx_frame l (observe_backpressure bp l)"
  by (simp add: observe_backpressure_def)

lemma rx_frame_set_expect [simp]: "rx_frame l (set_expect i e l)"
  by (simp add: set_expect_def)

lemma max_used_retire: "l_rx_info_max_used (rx_retire l i) \<le> l_rx_info_max_used l"
  using lower_max_used_props(1) by (auto simp: rx_retire_def)

text \<open>One offer: the record is emptied or keeps the box, all others are untouched, and the
  trace gets the outcome.\<close>

lemma offer_cases:
  assumes "rx_pool_ok l" "i \<in> active_ids l"
  obtains
    (delivered) bp where "env_pool env (l_trace l) box = (True, bp)"
      "l_rx_info (offer first env i box e l) = (l_rx_info l)[i := (l_rx_info l ! i)
         \<lparr>rx_state := RIS_INACTIVE, rx_next := l_rx_info_freelist l\<rparr>]"
      "l_trace (offer first env i box e l) = l_trace l @ [Delivered box]"
      "active_ids (offer first env i box e l) = active_ids l - {i}"
  | (refused) bp where "env_pool env (l_trace l) box = (False, bp)"
      "l_rx_info (offer first env i box e l) = (l_rx_info l)[i := (l_rx_info l ! i)
         \<lparr>rx_state := RIS_EXPECT (e\<lparr>e_box := Some box\<rparr>)\<rparr>]"
      "l_trace (offer first env i box e l) = l_trace l @ [Refused box]"
      "active_ids (offer first env i box e l) = active_ids l"
proof (cases "env_pool env (l_trace l) box")
  case (Pair ok bp)
  show ?thesis
  proof (cases ok)
    case True
    have "active_ids (rx_retire (emit ev l) i) = active_ids l - {i}" for ev
      using active_ids_retire [of "emit ev l" i] assms by simp
    then show ?thesis using Pair True
      by (intro delivered) (simp_all add: offer_def active_ids_def inactive_def)
  next
    case False
    have "active_ids (set_expect i x (emit ev l)) = active_ids l" for x ev
      using set_expect_pool [of "emit ev l" i] assms by simp
    then show ?thesis using Pair False
      by (intro refused) (simp_all add: offer_def set_expect_def upd_info_def active_ids_def inactive_def)
  qed
qed

lemma offer_frame:
  "rx_frame l (offer first env i box e l)"
  "rx_pool_ok l \<Longrightarrow> i \<in> active_ids l \<Longrightarrow> rx_pool_ok (offer first env i box e l)"
  "l_rx_info_max_used (offer first env i box e l) \<le> l_rx_info_max_used l"
proof -
  have e: "rx_frame l (emit ev l)" for ev by simp
  show "rx_frame l (offer first env i box e l)"
    using rx_frame_trans [OF e rx_frame_retire] rx_frame_trans [OF e rx_frame_set_expect]
    by (auto simp: offer_def Let_def split: prod.splits
        intro: rx_frame_trans [OF _ rx_frame_observe])
  show "rx_pool_ok l \<Longrightarrow> i \<in> active_ids l \<Longrightarrow> rx_pool_ok (offer first env i box e l)"
    by (auto simp: offer_def Let_def rx_pool_ok_retire set_expect_pool split: prod.splits)
  show "l_rx_info_max_used (offer first env i box e l) \<le> l_rx_info_max_used l"
    using max_used_retire [of "emit (Delivered box) l" i]
    by (auto simp: offer_def Let_def set_expect_def split: prod.splits)
qed

lemma offer_rx_ok:
  assumes "rx_ok l" "i \<in> active_ids l" "info_ok (RIS_EXPECT (e\<lparr>e_box := Some box\<rparr>))"
  shows "rx_ok (offer first env i box e l)"
proof -
  note ok = rx_okD [OF assms(1)]
  have len: "i < length (l_rx_info l)" by (rule active_less [OF ok(1) assms(2)])
  have "info_ok (rx_state (l_rx_info (offer first env i box e l) ! j))" if "j < MAX_PENDING_MESSAGES" for j
    by (rule offer_cases [OF ok(1) assms(2), of env box first e])
      (use ok(3) [OF that] len assms(3) in \<open>simp_all add: nth_list_update\<close>)
  then show ?thesis
    using ok offer_frame(2) [OF ok(1) assms(2), of first env box e]
      frame_conns [OF offer_frame(1) [where l = l and first = first and env = env and i = i and box = box and e = e]]
    by (simp add: rx_ok_def)
qed

section \<open>What a tick does to one record\<close>

text \<open>Specification of a tick on the record \<open>r\<close> with index \<open>i\<close>: the events it causes and the
  record it leaves (of a retired record only that it is inactive).\<close>

definition offered :: "('u, 'm) env \<Rightarrow> boxed_msg \<Rightarrow> rx_info \<Rightarrow> expect \<Rightarrow> event list \<Rightarrow> rx_info \<Rightarrow> bool" where
  "offered env box r e evs r' \<longleftrightarrow>
     (\<exists>tr. if fst (env_pool env tr box)
           then evs = [Delivered box] \<and> rx_state r' = RIS_INACTIVE
           else evs = [Refused box] \<and> r' = r\<lparr>rx_state := RIS_EXPECT (e\<lparr>e_box := Some box\<rparr>)\<rparr>)"

definition tick_effect :: "('u, 'm) env \<Rightarrow> 'u listener \<Rightarrow> nat \<Rightarrow> rx_info \<Rightarrow> event list \<Rightarrow> rx_info \<Rightarrow> bool" where
  "tick_effect env l i r evs r' \<longleftrightarrow>
     (case rx_state r of
        RIS_INACTIVE \<Rightarrow> evs = [] \<and> r' = r
      | RIS_HOLD h \<Rightarrow>
          if rx_timeout_sec r \<noteq> 1 then evs = [] \<and> r' = r\<lparr>rx_timeout_sec := rx_timeout_sec r - 1\<rparr>
          else if env_ts env i
          then evs = release_events env l (RIS_HOLD h) \<and> rx_state r' = RIS_INACTIVE
          else evs = [] \<and> r' = r
      | RIS_EXPECT e \<Rightarrow>
          (case e_box e of None \<Rightarrow> False
           | Some box \<Rightarrow>
               if e_error e = RX_ERROR_READY_FOR_DELIVERY then offered env box r e evs r'
               else if e_error e \<noteq> RX_ERROR_NONE
               then offered env (box\<lparr>bx_status := BUS_SEND_RX_FAILURE\<rparr>) r e evs r'
               else if rx_timeout_sec r \<noteq> 1
               then evs = [] \<and> r' = r\<lparr>rx_timeout_sec := rx_timeout_sec r - 1\<rparr>
               else if env_ts env i
               then offered env (box\<lparr>bx_status := BUS_SEND_RX_TIMEOUT\<rparr>) r e evs r'
               else evs = [] \<and> r' = r))"

lemma get_connection_info_frame: "rx_frame l l' \<Longrightarrow> get_connection_info l' fd = get_connection_info l fd"
  by (simp add: get_connection_info_def rx_frame_fields)

lemma tick_effect_frame: "rx_frame l l' \<Longrightarrow> tick_effect env l' = tick_effect env l"
  by (simp add: fun_eq_iff tick_effect_def release_events_def get_connection_info_frame
      split: rx_state.split)

text \<open>The result of handling record \<open>i\<close>: only it changes.\<close>

definition steps_to :: "'u listener \<Rightarrow> nat \<Rightarrow> event list \<Rightarrow> 'u listener \<Rightarrow> bool" where
  "steps_to l i evs l' \<longleftrightarrow> rx_ok l' \<and> rx_frame l l' \<and> (\<forall>j. j \<noteq> i \<longrightarrow> l_rx_info l' ! j = l_rx_info l ! j) \<and>
     l_trace l' = l_trace l @ evs \<and> l_rx_info_max_used l' \<le> l_rx_info_max_used l"

lemma offer_steps:
  assumes "rx_ok l" "i \<in> active_ids l" "info_ok (RIS_EXPECT (e\<lparr>e_box := Some box\<rparr>))"
  obtains evs where "steps_to l i evs (offer first env i box e l)"
    "offered env box (l_rx_info l ! i) e evs (l_rx_info (offer first env i box e l) ! i)"
proof -
  note pool = rx_okD(1) [OF assms(1)]
  note len = active_less [OF pool assms(2)]
  note * = offer_rx_ok [OF assms, of first env] offer_frame(1,3) [where l = l and first = first and env = env and i = i and box = box and e = e]
  show ?thesis
  proof (rule offer_cases [OF pool assms(2), of env box first e], goal_cases)
    case (1 bp)
    then show ?thesis using * len
      by (intro that [of "[Delivered box]"])
        (simp_all add: steps_to_def offered_def, intro exI [of _ "l_trace l"], simp)
  next
    case (2 bp)
    then show ?thesis using * len
      by (intro that [of "[Refused box]"])
        (simp_all add: steps_to_def offered_def, intro exI [of _ "l_trace l"], simp)
  qed
qed

lemma dec_timeout_steps:
  assumes "rx_ok l" "i \<in> active_ids l"
  shows "steps_to l i [] (dec_timeout i l)"
    "l_rx_info (dec_timeout i l) ! i = (l_rx_info l ! i)\<lparr>rx_timeout_sec := rx_timeout_sec (l_rx_info l ! i) - 1\<rparr>"
proof -
  note ok = rx_okD [OF assms(1)]
  note len = active_less [OF ok(1) assms(2)]
  have "i < MAX_PENDING_MESSAGES" "\<not> inactive l i" using assms(2) by (auto simp: active_ids_def)
  then have "rx_pool_ok (dec_timeout i l)"
    unfolding dec_timeout_def by (intro rx_pool_ok_upd(1) [OF ok(1) assms(2)]) (simp_all add: inactive_def)
  then show "steps_to l i [] (dec_timeout i l)"
    using ok len by (auto simp: steps_to_def rx_ok_def dec_timeout_def upd_info_nth)
  show "l_rx_info (dec_timeout i l) ! i = (l_rx_info l ! i)\<lparr>rx_timeout_sec := rx_timeout_sec (l_rx_info l ! i) - 1\<rparr>"
    using len by (simp add: dec_timeout_def upd_info_nth)
qed

lemma hold_release_steps:
  assumes "rx_ok l" "i \<in> active_ids l" "rx_state (l_rx_info l ! i) = RIS_HOLD h"
  obtains l' where "ListenerTask_ReleaseRXInfo env l i = Some l'"
    "steps_to l i (release_events env l (RIS_HOLD h)) l'" "rx_state (l_rx_info l' ! i) = RIS_INACTIVE"
proof -
  note ok = rx_okD [OF assms(1)]
  note len = active_less [OF ok(1) assms(2)]
  let ?l' = "(rx_retire l i)\<lparr>l_trace := l_trace l @ release_events env l (RIS_HOLD h)\<rparr>"
  have "ListenerTask_ReleaseRXInfo env l i = Some ?l'"
    using ReleaseRXInfo_eq [OF ok(1,2) assms(2)] assms(3) by simp
  moreover have "rx_pool_ok ?l'"
    by (rule rx_pool_ok_cong(1) [OF rx_pool_ok_retire [OF ok(1) assms(2)]]) simp_all
  moreover have fr: "rx_frame l ?l'" by (simp add: rx_frame_def rx_retire_def rx_push_def upd_info_def)
  ultimately show ?thesis
    using that [of ?l'] ok len frame_conns [OF fr] max_used_retire [of l i]
    by (auto simp: steps_to_def rx_ok_def nth_list_update)
qed

lemma tick_info_steps:
  assumes "rx_ok l" "i < MAX_PENDING_MESSAGES"
  obtains l' evs where "tick_info env l i = Some (i \<in> active_ids l, l')" "steps_to l i evs l'"
    "tick_effect env l i (l_rx_info l ! i) evs (l_rx_info l' ! i)"
proof -
  note ok = rx_okD [OF assms(1)]
  let ?r = "l_rx_info l ! i"
  show ?thesis
  proof (cases "rx_state ?r")
    case RIS_INACTIVE
    then show ?thesis
      using that [of l "[]"] assms by (simp add: tick_info_def tick_effect_def steps_to_def active_iff)
  next
    case (RIS_HOLD h)
    then have act: "i \<in> active_ids l" using assms(2) by (simp add: active_iff)
    consider "rx_timeout_sec ?r \<noteq> 1" | "rx_timeout_sec ?r = 1" "env_ts env i"
      | "rx_timeout_sec ?r = 1" "\<not> env_ts env i" by blast
    then show ?thesis
    proof cases
      case 1
      then show ?thesis
        using that [of "dec_timeout i l" "[]"] RIS_HOLD act dec_timeout_steps [OF assms(1) act]
        by (simp add: tick_info_def tick_effect_def)
    next
      case 2
      obtain l' where "ListenerTask_ReleaseRXInfo env l i = Some l'"
        "steps_to l i (release_events env l (RIS_HOLD h)) l'" "rx_state (l_rx_info l' ! i) = RIS_INACTIVE"
        by (rule hold_release_steps [OF assms(1) act RIS_HOLD])
      then show ?thesis
        using that [of l' "release_events env l (RIS_HOLD h)"] RIS_HOLD 2 act
        by (simp add: tick_info_def tick_effect_def)
    next
      case 3
      then show ?thesis
        using that [of l "[]"] RIS_HOLD act assms(1) by (simp add: tick_info_def tick_effect_def steps_to_def)
    qed
  next
    case (RIS_EXPECT e)
    then have act: "i \<in> active_ids l" using assms(2) by (simp add: active_iff)
    from ok(3) [OF assms(2)] RIS_EXPECT obtain box where box: "e_box e = Some box"
      "bx_status box \<noteq> BUS_SEND_UNDEFINED" "e_error e \<noteq> RX_ERROR_DONE"
      "e_error e = RX_ERROR_READY_FOR_DELIVERY \<Longrightarrow> bx_status box = BUS_SEND_SUCCESS"
      by (auto split: option.splits)
    consider (ready) "e_error e = RX_ERROR_READY_FOR_DELIVERY"
      | (failed) "e_error e \<noteq> RX_ERROR_READY_FOR_DELIVERY" "e_error e \<noteq> RX_ERROR_NONE"
      | (wait) "e_error e = RX_ERROR_NONE" "rx_timeout_sec ?r \<noteq> 1"
      | (timeout) "e_error e = RX_ERROR_NONE" "rx_timeout_sec ?r = 1" "env_ts env i"
      | (nots) "e_error e = RX_ERROR_NONE" "rx_timeout_sec ?r = 1" "\<not> env_ts env i" by blast
    then show ?thesis
    proof cases
      case ready
      obtain evs where "steps_to l i evs (offer False env i box e l)"
        "offered env box ?r e evs (l_rx_info (offer False env i box e l) ! i)"
        by (rule offer_steps [OF assms(1) act]) (use box ready in auto)
      then show ?thesis
        using that [of "offer False env i box e l" evs] retry_delivery_eq [OF ok(1,2) act RIS_EXPECT ready box(1), where env = env] box ready RIS_EXPECT act
        by (simp add: tick_info_def tick_effect_def)
    next
      case failed
      let ?b = "box\<lparr>bx_status := BUS_SEND_RX_FAILURE\<rparr>"
      obtain evs where "steps_to l i evs (offer False env i ?b e l)"
        "offered env ?b ?r e evs (l_rx_info (offer False env i ?b e l) ! i)"
        by (rule offer_steps [OF assms(1) act, where box = ?b and e = e and env = env and first = False])
          (use box failed in auto)
      then show ?thesis
        using that [of "offer False env i ?b e l" evs] NotifyMessageFailure_eq [OF ok(1,2) act RIS_EXPECT box(1), where env = env] box failed RIS_EXPECT act
        by (simp add: tick_info_def tick_effect_def)
    next
      case wait
      then show ?thesis
        using that [of "dec_timeout i l" "[]"] RIS_EXPECT act box dec_timeout_steps [OF assms(1) act]
        by (simp add: tick_info_def tick_effect_def)
    next
      case timeout
      let ?b = "box\<lparr>bx_status := BUS_SEND_RX_TIMEOUT\<rparr>"
      obtain evs where "steps_to l i evs (offer False env i ?b e l)"
        "offered env ?b ?r e evs (l_rx_info (offer False env i ?b e l) ! i)"
        by (rule offer_steps [OF assms(1) act, where box = ?b and e = e and env = env and first = False])
          (use box timeout in auto)
      then show ?thesis
        using that [of "offer False env i ?b e l" evs] NotifyMessageFailure_eq [OF ok(1,2) act RIS_EXPECT box(1), where env = env] box timeout RIS_EXPECT act
        by (simp add: tick_info_def tick_effect_def)
    next
      case nots
      then show ?thesis
        using that [of l "[]"] RIS_EXPECT act box assms(1) by (simp add: tick_info_def tick_effect_def steps_to_def)
    qed
  qed
qed

section \<open>The whole tick\<close>

text \<open>Records below \<open>i\<close> have been handled, the others are still as they were.\<close>

lemma tick_loop_effect:
  assumes "rx_ok l0" "rx_ok l" "rx_frame l0 l"
    "\<And>j. i \<le> j \<Longrightarrow> l_rx_info l ! j = l_rx_info l0 ! j" "i \<le> MAX_PENDING_MESSAGES"
    "l_trace l = l_trace l0 @ concat (map pre [0..<i])"
    "\<And>j. j < i \<Longrightarrow> tick_effect env l0 j (l_rx_info l0 ! j) (pre j) (l_rx_info l ! j)"
  shows "\<exists>l' evs. tick_loop env i w l = Some (w \<or> (\<exists>j\<in>active_ids l0. i \<le> j), l') \<and> rx_ok l' \<and> rx_frame l0 l' \<and>
     l_trace l' = l_trace l0 @ concat (map evs [0..<MAX_PENDING_MESSAGES]) \<and>
     (\<forall>j < MAX_PENDING_MESSAGES. tick_effect env l0 j (l_rx_info l0 ! j) (evs j) (l_rx_info l' ! j))"
  using assms
proof (induction "MAX_PENDING_MESSAGES - i" arbitrary: i l w pre)
  case 0
  then have i: "i = MAX_PENDING_MESSAGES" by simp
  then have "l_rx_info_max_used l < i" using 0 by (simp add: rx_ok_def rx_pool_ok_def)
  moreover have "\<not> (\<exists>j\<in>active_ids l0. i \<le> j)" using i by (auto simp: active_ids_def)
  ultimately show ?case using 0 i by (intro exI [of _ l] exI [of _ pre]) (simp add: tick_loop.simps)
next
  case (Suc d)
  then have i: "i < MAX_PENDING_MESSAGES" by simp
  have same: "i \<le> j \<Longrightarrow> j \<in> active_ids l \<longleftrightarrow> j \<in> active_ids l0" for j
    using Suc.prems(4) by (simp add: active_ids_def inactive_def)
  show ?case
  proof (cases "i \<le> l_rx_info_max_used l")
    case True
    obtain l' evs where t: "tick_info env l i = Some (i \<in> active_ids l, l')" "steps_to l i evs l'"
      "tick_effect env l i (l_rx_info l ! i) evs (l_rx_info l' ! i)"
      by (rule tick_info_steps [OF Suc.prems(2) i])
    have st: "rx_ok l'" "rx_frame l0 l'" "\<And>j. j \<noteq> i \<Longrightarrow> l_rx_info l' ! j = l_rx_info l ! j"
      "l_trace l' = l_trace l @ evs"
      using t(2) Suc.prems(3) rx_frame_trans by (auto simp: steps_to_def)
    have eff: "tick_effect env l0 i (l_rx_info l0 ! i) evs (l_rx_info l' ! i)"
      using t(3) Suc.prems(4) [of i] tick_effect_frame [OF Suc.prems(3), where env = env] by simp
    have ex: "(w \<or> i \<in> active_ids l) \<or> (\<exists>j\<in>active_ids l0. Suc i \<le> j) \<longleftrightarrow> w \<or> (\<exists>j\<in>active_ids l0. i \<le> j)"
      using same [of i] by (metis le_eq_less_or_eq less_eq_Suc_le order_refl)
    have "\<exists>l'' evs'. tick_loop env (Suc i) (w \<or> i \<in> active_ids l) l' =
        Some ((w \<or> i \<in> active_ids l) \<or> (\<exists>j\<in>active_ids l0. Suc i \<le> j), l'') \<and> rx_ok l'' \<and> rx_frame l0 l'' \<and>
        l_trace l'' = l_trace l0 @ concat (map evs' [0..<MAX_PENDING_MESSAGES]) \<and>
        (\<forall>j < MAX_PENDING_MESSAGES. tick_effect env l0 j (l_rx_info l0 ! j) (evs' j) (l_rx_info l'' ! j))"
    proof (rule Suc.hyps(1) [where pre = "pre(i := evs)"])
      show "l_trace l' = l_trace l0 @ concat (map (pre(i := evs)) [0..<Suc i])"
        using st(4) Suc.prems(6) by simp
      show "tick_effect env l0 j (l_rx_info l0 ! j) ((pre(i := evs)) j) (l_rx_info l' ! j)"
        if "j < Suc i" for j
        using that eff Suc.prems(7) [of j] st(3) [of j] by (cases "j = i") auto
      show "l_rx_info l' ! j = l_rx_info l0 ! j" if "Suc i \<le> j" for j
        using that st(3) [of j] Suc.prems(4) [of j] by simp
    qed (use Suc i st in auto)
    then show ?thesis
      using True i t(1) unfolding ex by (subst tick_loop.simps) auto
  next
    case False
    have none: "j \<notin> active_ids l0" if "i \<le> j" for j
      using False same [OF that] Suc.prems(2) that by (force simp: rx_ok_def rx_pool_ok_def)
    define evs where "evs j = (if j < i then pre j else [])" for j
    have "concat (map evs [0..<MAX_PENDING_MESSAGES]) = concat (map pre [0..<i])"
    proof -
      have "[0..<MAX_PENDING_MESSAGES] = [0..<i] @ [i..<MAX_PENDING_MESSAGES]"
        using i by (metis le_add_diff_inverse less_imp_le upt_add_eq_append zero_le)
      moreover have "map evs [0..<i] = map pre [0..<i]"
        "concat (map evs [i..<MAX_PENDING_MESSAGES]) = []" by (simp_all add: evs_def)
      ultimately show ?thesis by (metis append_Nil2 concat_append map_append)
    qed
    moreover have "tick_effect env l0 j (l_rx_info l0 ! j) (evs j) (l_rx_info l ! j)"
      if "j < MAX_PENDING_MESSAGES" for j
      using none [of j] that Suc.prems(4,7) [of j]
      by (cases "j < i") (auto simp: evs_def active_iff tick_effect_def)
    ultimately show ?thesis
      using False Suc.prems none by (intro exI [of _ l] exI [of _ evs]) (auto simp: tick_loop.simps)
  qed
qed

lemma tick_handler_effect:
  assumes "rx_ok l"
  shows "\<exists>l' evs. tick_handler env l = Some l' \<and> rx_ok l' \<and>
     l_trace l' = l_trace l @ concat (map evs [0..<MAX_PENDING_MESSAGES]) \<and>
     (\<forall>i < MAX_PENDING_MESSAGES. tick_effect env l i (l_rx_info l ! i) (evs i) (l_rx_info l' ! i)) \<and>
     l_is_idle l' = (l_is_idle l \<or> active_ids l = {}) \<and>
     l_fds l' = l_fds l \<and> l_fd_info l' = l_fd_info l \<and> l_msgs l' = l_msgs l \<and> l_queue l' = l_queue l"
proof -
  let ?w = "active_ids l \<noteq> {}"
  have w: "(False \<or> (\<exists>j\<in>active_ids l. 0 \<le> j)) = ?w" by auto
  have "\<exists>l' evs. tick_loop env 0 False l = Some (False \<or> (\<exists>j\<in>active_ids l. 0 \<le> j), l') \<and> rx_ok l' \<and> rx_frame l l' \<and>
     l_trace l' = l_trace l @ concat (map evs [0..<MAX_PENDING_MESSAGES]) \<and>
     (\<forall>j < MAX_PENDING_MESSAGES. tick_effect env l j (l_rx_info l ! j) (evs j) (l_rx_info l' ! j))"
    by (rule tick_loop_effect) (use assms in auto)
  then obtain l' evs where l': "tick_loop env 0 False l = Some (?w, l')" "rx_ok l'" "rx_frame l l'"
    "l_trace l' = l_trace l @ concat (map evs [0..<MAX_PENDING_MESSAGES])"
    "\<forall>j < MAX_PENDING_MESSAGES. tick_effect env l j (l_rx_info l ! j) (evs j) (l_rx_info l' ! j)"
    unfolding w by blast
  let ?l = "if ?w then l' else l'\<lparr>l_is_idle := True\<rparr>"
  have "rx_ok (l'\<lparr>l_is_idle := True\<rparr>)"
    using l'(2) by (simp add: rx_ok_def conns_present_def rx_pool_ok_def active_ids_def inactive_def)
  then have "rx_ok ?l" using l'(2) by simp
  then show ?thesis
    using l' rx_frame_fields [OF l'(3)]
    by (intro exI [of _ ?l] exI [of _ evs]) (auto simp: tick_handler_def)
qed

text \<open>C7: in a consistent listener the once-a-second tick returns, keeps every invariant, and
  treats each of the 1024 receive records exactly as specified: a hold is counted down and
  dropped at its timeout; a box whose response is ready is offered again; a box whose socket
  failed is offered with \<^verbatim>\<open>BUS_SEND_RX_FAILURE\<close> and one whose countdown ends with
  \<^verbatim>\<open>BUS_SEND_RX_TIMEOUT\<close>; a refused box stays in its record. The trace has these events in
  record order and nothing else, and the listener becomes idle exactly when no record is in
  use.\<close>
theorem tick_handles_every_record:
  assumes "rx_ok l"
  shows "\<exists>l' evs. tick_handler env l = Some l' \<and> rx_ok l' \<and>
     l_trace l' = l_trace l @ concat (map evs [0..<MAX_PENDING_MESSAGES]) \<and>
     (\<forall>i < MAX_PENDING_MESSAGES. tick_effect env l i (l_rx_info l ! i) (evs i) (l_rx_info l' ! i)) \<and>
     l_is_idle l' = (l_is_idle l \<or> active_ids l = {}) \<and>
     l_fds l' = l_fds l \<and> l_fd_info l' = l_fd_info l \<and> l_msgs l' = l_msgs l \<and> l_queue l' = l_queue l"
  by (rule tick_handler_effect [OF assms])

section \<open>Every expectation is answered in time\<close>

fun ticks :: "('u, 'm) env \<Rightarrow> nat \<Rightarrow> 'u listener \<Rightarrow> 'u listener option" where
  "ticks env 0 l = Some l"
| "ticks env (Suc n) l = do { l' \<leftarrow> tick_handler env l; ticks env n l' }"

lemma tick_waits:
  assumes "rx_ok l" "i < MAX_PENDING_MESSAGES" "rx_state (l_rx_info l ! i) = RIS_EXPECT e"
    "e_error e = RX_ERROR_NONE" "rx_timeout_sec (l_rx_info l ! i) \<noteq> 1"
  obtains l' evs where "tick_handler env l = Some l'" "rx_ok l'" "l_trace l' = l_trace l @ evs"
    "rx_state (l_rx_info l' ! i) = RIS_EXPECT e"
    "rx_timeout_sec (l_rx_info l' ! i) = rx_timeout_sec (l_rx_info l ! i) - 1"
proof -
  obtain l' evs where "tick_handler env l = Some l'" "rx_ok l'"
    "l_trace l' = l_trace l @ concat (map evs [0..<MAX_PENDING_MESSAGES])"
    and eff: "tick_effect env l i (l_rx_info l ! i) (evs i) (l_rx_info l' ! i)"
    using tick_handler_effect [OF assms(1), of env] assms(2) by blast
  moreover have "e_box e \<noteq> None" using rx_okD(3) [OF assms(1,2)] assms(3) by (auto split: option.splits)
  ultimately show ?thesis
    using that assms(3-5) by (auto simp: tick_effect_def split: option.splits)
qed

lemma tick_times_out:
  assumes "rx_ok l" "i < MAX_PENDING_MESSAGES" "rx_state (l_rx_info l ! i) = RIS_EXPECT e"
    "e_error e = RX_ERROR_NONE" "e_box e = Some box" "rx_timeout_sec (l_rx_info l ! i) = 1"
    "env_ts env i" "\<And>tr b. fst (env_pool env tr b)"
  obtains l' where "tick_handler env l = Some l'" "rx_ok l'"
    "Delivered (box\<lparr>bx_status := BUS_SEND_RX_TIMEOUT\<rparr>) \<in> set (l_trace l')"
    "rx_state (l_rx_info l' ! i) = RIS_INACTIVE"
proof -
  let ?b = "box\<lparr>bx_status := BUS_SEND_RX_TIMEOUT\<rparr>"
  obtain l' evs where l': "tick_handler env l = Some l'" "rx_ok l'"
    "l_trace l' = l_trace l @ concat (map evs [0..<MAX_PENDING_MESSAGES])"
    and eff: "tick_effect env l i (l_rx_info l ! i) (evs i) (l_rx_info l' ! i)"
    using tick_handler_effect [OF assms(1), of env] assms(2) by blast
  have "offered env ?b (l_rx_info l ! i) e (evs i) (l_rx_info l' ! i)"
    using eff assms(3-7) by (simp add: tick_effect_def)
  then have "evs i = [Delivered ?b]" "rx_state (l_rx_info l' ! i) = RIS_INACTIVE"
    using assms(8) by (auto simp: offered_def)
  then show ?thesis using assms(2) by (intro that [OF l'(1,2)]) (force simp: l'(3))+
qed

lemma ticks_time_out:
  assumes "rx_ok l" "i < MAX_PENDING_MESSAGES" "rx_state (l_rx_info l ! i) = RIS_EXPECT e"
    "e_error e = RX_ERROR_NONE" "e_box e = Some box" "rx_timeout_sec (l_rx_info l ! i) = int (Suc n)"
    "env_ts env i" "\<And>tr b. fst (env_pool env tr b)"
  shows "\<exists>l'. ticks env (Suc n) l = Some l' \<and> rx_ok l' \<and>
     Delivered (box\<lparr>bx_status := BUS_SEND_RX_TIMEOUT\<rparr>) \<in> set (l_trace l') \<and>
     rx_state (l_rx_info l' ! i) = RIS_INACTIVE"
  using assms(1,3,6)
proof (induction n arbitrary: l)
  case 0
  obtain l' where "tick_handler env l = Some l'" "rx_ok l'"
    "Delivered (box\<lparr>bx_status := BUS_SEND_RX_TIMEOUT\<rparr>) \<in> set (l_trace l')"
    "rx_state (l_rx_info l' ! i) = RIS_INACTIVE"
    by (rule tick_times_out [OF 0(1) assms(2) 0(2) assms(4,5) _ assms(7,8)]) (use 0(3) in auto)
  then show ?case by simp
next
  case (Suc n)
  obtain l' evs where l': "tick_handler env l = Some l'" "rx_ok l'"
    "rx_state (l_rx_info l' ! i) = RIS_EXPECT e"
    "rx_timeout_sec (l_rx_info l' ! i) = rx_timeout_sec (l_rx_info l ! i) - 1"
    by (rule tick_waits [OF Suc.prems(1) assms(2) Suc.prems(2) assms(4), where env = env])
      (use Suc.prems(3) in auto)
  have "rx_timeout_sec (l_rx_info l' ! i) = int (Suc n)" using l'(4) Suc.prems(3) by simp
  from Suc.IH [OF l'(2,3) this] l'(1) show ?case by (simp only: ticks.simps) simp
qed

text \<open>C8: a request whose response never arrives is answered: if the thread pool accepts work
  and the clock can be read, an expectation with a timeout of \<open>n > 0\<close> seconds is handed to
  its callback with \<^verbatim>\<open>BUS_SEND_RX_TIMEOUT\<close> by the \<open>n\<close>-th tick, its record is free again, and
  no assertion fails on the way.\<close>
theorem expectation_times_out:
  assumes "rx_ok l" "i < MAX_PENDING_MESSAGES" "rx_state (l_rx_info l ! i) = RIS_EXPECT e"
    "e_error e = RX_ERROR_NONE" "e_box e = Some box" "n > 0" "rx_timeout_sec (l_rx_info l ! i) = int n"
    "env_ts env i" "\<forall>tr b. fst (env_pool env tr b)"
  shows "\<exists>l'. ticks env n l = Some l' \<and> rx_ok l' \<and>
     Delivered (box\<lparr>bx_status := BUS_SEND_RX_TIMEOUT\<rparr>) \<in> set (l_trace l') \<and>
     rx_state (l_rx_info l' ! i) = RIS_INACTIVE"
  using ticks_time_out [of l i e box "n - 1" env] assms by simp

definition ex_box :: boxed_msg where
  "ex_box = \<lparr>bx_status = BUS_SEND_REQUEST_COMPLETE, bx_response = None, bx_timeout_sec = 3, bx_udata = 1,
     bx_tv_send_start = \<lparr>tv_sec = 0, tv_usec = 0\<rparr>, bx_tv_send_done = \<lparr>tv_sec = 0, tv_usec = 0\<rparr>, bx_fd = 5, bx_ssl = None, bx_out_seq_id = 7,
     bx_out_msg = [], bx_out_msg_size = 0, bx_out_sent_size = 0\<rparr>"

definition ex_expect :: expect where
  "ex_expect = \<lparr>e_box = Some ex_box, e_error = RX_ERROR_NONE, e_has_result = False, e_result = zero_unpack_res\<rparr>"

definition ex_waiting :: "nat listener" where
  "ex_waiting = upd_info 0 (\<lambda>r. r\<lparr>rx_state := RIS_EXPECT ex_expect, rx_timeout_sec := 3\<rparr>) ex_held"

lemma ex_held_rx_ok: "rx_ok ex_held"
proof -
  have "info_ok (rx_state (l_rx_info ex_held ! i))" if "i < MAX_PENDING_MESSAGES" for i
    using that ex_held_ok(3,4) active_iff [OF that, of ex_held] by (cases "i = 0") (auto simp: ex_hold_def)
  then show ?thesis using ex_held_ok by (simp add: rx_ok_def)
qed

lemma ex_waiting_ok:
  "rx_ok ex_waiting" "rx_state (l_rx_info ex_waiting ! 0) = RIS_EXPECT ex_expect"
  "rx_timeout_sec (l_rx_info ex_waiting ! 0) = 3"
proof -
  note ok = rx_okD [OF ex_held_rx_ok]
  have a: "0 \<in> active_ids ex_held" by (simp add: ex_held_ok)
  note len = active_less [OF ok(1) a]
  have "rx_pool_ok ex_waiting" unfolding ex_waiting_def by (rule rx_pool_ok_upd [OF ok(1) a]) simp_all
  then show "rx_ok ex_waiting"
    using ok len by (auto simp: rx_ok_def ex_waiting_def upd_info_nth ex_expect_def ex_box_def)
  show "rx_state (l_rx_info ex_waiting ! 0) = RIS_EXPECT ex_expect"
    "rx_timeout_sec (l_rx_info ex_waiting ! 0) = 3"
    using len by (simp_all add: ex_waiting_def upd_info_nth)
qed

lemma expectation_times_out_witness:
  "\<exists>l'. ticks ex_env 3 ex_waiting = Some l' \<and> rx_ok l' \<and>
     Delivered (ex_box\<lparr>bx_status := BUS_SEND_RX_TIMEOUT\<rparr>) \<in> set (l_trace l') \<and>
     rx_state (l_rx_info l' ! 0) = RIS_INACTIVE"
  by (rule expectation_times_out [OF ex_waiting_ok(1) _ ex_waiting_ok(2)])
    (simp_all add: ex_waiting_ok ex_expect_def ex_env_def)

lemma tick_handles_every_record_witness:
  "\<exists>l' evs. tick_handler ex_env ex_waiting = Some l' \<and> rx_ok l' \<and>
     l_trace l' = l_trace ex_waiting @ concat (map evs [0..<MAX_PENDING_MESSAGES]) \<and>
     (\<forall>i < MAX_PENDING_MESSAGES. tick_effect ex_env ex_waiting i (l_rx_info ex_waiting ! i) (evs i) (l_rx_info l' ! i)) \<and>
     l_is_idle l' = (l_is_idle ex_waiting \<or> active_ids ex_waiting = {}) \<and>
     l_fds l' = l_fds ex_waiting \<and> l_fd_info l' = l_fd_info ex_waiting \<and>
     l_msgs l' = l_msgs ex_waiting \<and> l_queue l' = l_queue ex_waiting"
  by (rule tick_handles_every_record [OF ex_waiting_ok(1)])

section \<open>Backpressure bounds\<close>

lemma ex_listener_bp: "l_upstream_backpressure ex_listener = 0"
  by (simp add: ex_listener_def Listener_Init_def init_rx_info_eq Let_def
      init_msgs_Some [where ps = "map (\<lambda>i. (10 + 2 * int i, 11 + 2 * int i)) xs" for xs, unfolded map_map comp_def])

lemma pressure_sum:
  assumes "0 \<le> p" "p \<le> 6400" "0 \<le> q" "q \<le> 2048" "unat (u :: size_t) < 57000"
  shows "unat (word_of_int p + word_of_int q + ucast u :: u16) = nat p + nat q + unat u"
proof -
  have "word_of_int p + word_of_int q + ucast u = (of_nat (nat p + nat q + unat u) :: u16)"
    using assms(1,3) by (simp add: of_nat_nat)
  also have "unat \<dots> = nat p + nat q + unat u"
    by (rule unat_of_nat_small) (use assms in simp)
  finally show ?thesis .
qed

text \<open>with both pools within their capacity the pressure a caller is told is the sum of the
  three parts without wrap-around as long as the thread pool's share stays below 57000: at
  most 6400 for the 32 messages and 2048 for the 1024 records, and exactly the thread pool's
  share while both pools are less than a quarter full.\<close>
theorem backpressure_bounds:
  assumes "msg_pool_ok l" "rx_pool_ok l" "unat (l_upstream_backpressure l) < 57000"
  shows "unat (ListenerTask_GetBackpressure l) \<le> 6400 + 2048 + unat (l_upstream_backpressure l) \<and>
     unat (l_upstream_backpressure l) \<le> unat (ListenerTask_GetBackpressure l) \<and>
     (card (msgs_owned l) < 8 \<and> card (active_ids l) < 256 \<longrightarrow>
      unat (ListenerTask_GetBackpressure l) = unat (l_upstream_backpressure l))"
proof -
  let ?n = "int (card (msgs_owned l))" and ?m = "int (card (active_ids l))"
  let ?p = "if ?n < 8 then 0 else if ?n < 16 then ?n div 2 else if ?n < 24 then 5 * ?n else 200 * ?n"
  let ?q = "if ?m < 256 then 0 else if ?m < 512 then ?m div 2 else if ?m < 768 then ?m div 2 else 2 * ?m"
  have "card (msgs_owned l) \<le> card {..<MAX_QUEUE_MESSAGES}"
    by (intro card_mono) simp_all
  then have n: "?n \<le> 32" by (simp add: MAX_QUEUE_MESSAGES_def)
  have m: "?m \<le> 1024" using card_active_ids [of l] by (simp add: MAX_PENDING_MESSAGES_def)
  have iu: "l_msgs_in_use l = ?n" "uint (l_rx_info_in_use l) = ?m"
    using assms(1,2) by (auto simp: msg_pool_ok_def rx_pool_ok_def uint_nat)
  have "unat (ListenerTask_GetBackpressure l) = nat ?p + nat ?q + unat (l_upstream_backpressure l)"
    unfolding ListenerTask_GetBackpressure_def Let_def iu
    by (rule pressure_sum) (use n m assms(3) in auto)
  moreover have "nat ?p \<le> 6400" "nat ?q \<le> 2048" using n m by auto
  ultimately show ?thesis by simp
qed

lemma backpressure_bounds_witness:
  "unat (ListenerTask_GetBackpressure ex_listener) \<le> 6400 + 2048 + unat (l_upstream_backpressure ex_listener) \<and>
   unat (ListenerTask_GetBackpressure ex_listener) = unat (l_upstream_backpressure ex_listener)"
  using backpressure_bounds [OF ex_listener_ok(2,1)] by (simp add: ex_listener_bp ex_listener_ok(3,4))

end
