(* ===== verification/Listener_Cmd.thy ===== *)
theory Listener_Cmd
  imports Listener_Task
begin

text \<open>
  The commands the listener thread executes on behalf of client threads
  (\<^verbatim>\<open>src/lib/bus/listener_cmd.c\<close>): adding and removing sockets, holding and expecting
  responses, shutdown.
\<close>

section \<open>Notifying the caller\<close>

definition notify_bytes :: "u16 \<Rightarrow> u8 list" where
  "notify_bytes backpressure =
     [LISTENER_MSG_TAG, ucast (backpressure AND 0xff), ucast (drop_bit 8 backpressure AND 0xff)]"

text \<open>A write that fails for good ends the process.\<close>

definition ListenerCmd_NotifyCaller :: "('u, 'm) env \<Rightarrow> 'u listener \<Rightarrow> int \<Rightarrow> 'u listener option" where
  "ListenerCmd_NotifyCaller env l fd =
     (if fd = -1 then Some l
      else if write_loop (env_notify env fd)
      then Some (emit (Notified fd (notify_bytes (ListenerTask_GetBackpressure l))) l)
      else None)"

section \<open>The socket table\<close>

definition swap :: "'u listener \<Rightarrow> nat \<Rightarrow> nat \<Rightarrow> 'u listener" where
  "swap l a b =
     l\<lparr>l_fds := (l_fds l)[b := l_fds l ! a, a := l_fds l ! b],
       l_fd_info := (l_fd_info l)[a := l_fd_info l ! b, b := l_fd_info l ! a]\<rparr>"

definition fds_partitioned :: "'u listener \<Rightarrow> bool" where
  "fds_partitioned l \<longleftrightarrow>
     (\<forall>i < l_tracked_fds l. pfd_events_in (l_fds l ! i) \<longleftrightarrow> i + l_inactive_fds l < l_tracked_fds l)"

definition add_socket ::
  "('u, 'm) env \<Rightarrow> 'u listener \<Rightarrow> 'u connection_info \<Rightarrow> int \<Rightarrow> 'u listener option" where
  "add_socket env l ci notify_fd =
     (if l_tracked_fds l = MAX_FDS then ListenerCmd_NotifyCaller env l notify_fd
      else if \<exists>i < l_tracked_fds l. pfd_fd (l_fds l ! i) = ci_fd ci
      then ListenerCmd_NotifyCaller env (emit (Freed_ci (ci_fd ci)) l) notify_fd
      else
        do { let idx = l_tracked_fds l;
             let l1 = l\<lparr>l_fd_info := (l_fd_info l)[idx := Some ci],
                        l_fds := (l_fds l)[idx := (l_fds l ! idx)\<lparr>pfd_fd := ci_fd ci, pfd_events_in := True\<rparr>]\<rparr>;
             let at = (if l_inactive_fds l1 > 0 then l_tracked_fds l1 - l_inactive_fds l1 else idx);
             let l2 = (if l_inactive_fds l1 > 0 then swap l1 idx at else l1);
             let l3 = l2\<lparr>l_tracked_fds := l_tracked_fds l2 + 1\<rparr>;
             c_assert (fds_partitioned l3);
             (u, next_read, full_msg_buffer) \<leftarrow> env_sink env (ci_udata ci) [];
             c_assert (full_msg_buffer = None);
             let l4 = l3\<lparr>l_fd_info :=
                          (l_fd_info l3)[at := Some (ci\<lparr>ci_udata := u, ci_to_read_size := next_read\<rparr>)]\<rparr>;
             let (ok, l5) = ListenerTask_GrowReadBuf env l4 next_read;
             if ok then ListenerCmd_NotifyCaller env l5 notify_fd
             else ListenerCmd_NotifyCaller env (emit (Freed_ci (ci_fd ci)) l5) notify_fd })"

text \<open>One match of the removal loop at index \<open>idx\<close>: the entry is swapped behind the active
  ones and then to the end, and the table shrinks. Returns the loop index it leaves.\<close>

definition remove_at :: "'u listener \<Rightarrow> nat \<Rightarrow> (nat \<times> 'u listener) option" where
  "remove_at l idx =
     (let is_active = pfd_events_in (l_fds l ! idx) in
      do { (idx', l') \<leftarrow>
             (if l_tracked_fds l > 1 then
                let last_active = int (l_tracked_fds l) - int (l_inactive_fds l) - 1 in
                do { (id1, l1) \<leftarrow>
                       (if is_active \<and> int idx \<noteq> last_active then
                          do { c_assert (int idx < last_active);
                               Some (nat last_active, swap l idx (nat last_active)) }
                        else Some (idx, l));
                     let last = l_tracked_fds l1 - 1;
                     Some (if id1 < last then (last, swap l1 id1 last) else (id1, l1)) }
              else Some (idx, l));
           Some (idx', l'\<lparr>l_tracked_fds := l_tracked_fds l' - 1,
                         l_inactive_fds := (if is_active then l_inactive_fds l'
                                            else l_inactive_fds l' - 1)\<rparr>) })"

lemma swap_fields [simp]:
  "l_tracked_fds (swap l a b) = l_tracked_fds l" "l_inactive_fds (swap l a b) = l_inactive_fds l"
  by (simp_all add: swap_def)

lemma remove_at_progress:
  assumes "remove_at l idx = Some (idx', l')" "idx < l_tracked_fds l"
  shows "idx \<le> idx' \<and> l_tracked_fds l' < l_tracked_fds l"
  using assms
  by (auto simp: remove_at_def Let_def bind_Some_iff c_assert_def split: if_splits)

function remove_socket_loop :: "int \<Rightarrow> nat \<Rightarrow> 'u listener \<Rightarrow> 'u listener option" where
  "remove_socket_loop fd idx l =
     (if idx < l_tracked_fds l then
        if pfd_fd (l_fds l ! idx) = fd then
          (case remove_at l idx of None \<Rightarrow> None | Some (idx', l') \<Rightarrow> remove_socket_loop fd (Suc idx') l')
        else remove_socket_loop fd (Suc idx) l
      else Some l)"
  by pat_completeness auto
termination
  by (relation "measure (\<lambda>(fd, idx, l). l_tracked_fds l - idx)") (auto dest!: remove_at_progress)

declare remove_socket_loop.simps [simp del]

definition remove_socket :: "('u, 'm) env \<Rightarrow> 'u listener \<Rightarrow> int \<Rightarrow> int \<Rightarrow> 'u listener option" where
  "remove_socket env l fd notify_fd =
     do { l1 \<leftarrow> remove_socket_loop fd 0 l; ListenerCmd_NotifyCaller env l1 notify_fd }"

section \<open>Responses\<close>

text \<open>An inactive record's union is all zero bytes (\<^verbatim>\<open>ListenerTask_ReleaseRXInfo\<close> and
  \<^verbatim>\<open>calloc\<close>), so the error of a new hold, which is not assigned, is \<^verbatim>\<open>RX_ERROR_NONE\<close>.\<close>

definition hold_response ::
  "('u, 'm) env \<Rightarrow> 'u listener \<Rightarrow> int \<Rightarrow> int \<Rightarrow> int \<Rightarrow> int \<Rightarrow> 'u listener option" where
  "hold_response env l fd seq_id timeout_sec notify_fd =
     do { (info, l1) \<leftarrow> ListenerHelper_GetFreeRXInfo l;
          (case info of
             None \<Rightarrow> ListenerCmd_NotifyCaller env l1 notify_fd
           | Some i \<Rightarrow>
               do { c_assert (inactive l1 i);
                    let h = \<lparr>h_fd = fd, h_seq_id = seq_id, h_has_result = False,
                             h_result = zero_unpack_res, h_error = RX_ERROR_NONE\<rparr>;
                    let l2 = upd_info i (\<lambda>r. r\<lparr>rx_state := RIS_HOLD h, rx_timeout_sec := timeout_sec\<rparr>) l1;
                    ListenerCmd_NotifyCaller env l2 notify_fd }) }"

text \<open>Fields of the expectation that a conversion does not assign keep the bytes of the hold:
  \<^verbatim>\<open>expect.has_result\<close> lies on byte 4 of \<^verbatim>\<open>hold.seq_id\<close>, and \<^verbatim>\<open>expect.result\<close> on
  \<^verbatim>\<open>hold.has_result\<close> and the first half of \<^verbatim>\<open>hold.result\<close> (LP64, little endian).\<close>

definition alias_has_result :: "hold \<Rightarrow> bool" where
  "alias_has_result h \<longleftrightarrow> h_seq_id h div 2 ^ 32 mod 256 \<noteq> 0"

definition alias_result :: "hold \<Rightarrow> bus_unpack_res" where
  "alias_result h = \<lparr>ur_ok = h_has_result h, ur_msg = (if ur_ok (h_result h) then 1 else 0),
                     ur_seq_id = int (ur_msg (h_result h))\<rparr>"

definition expect_response :: "('u, 'm) env \<Rightarrow> 'u listener \<Rightarrow> boxed_msg option \<Rightarrow> 'u listener option" where
  "expect_response env l mbox =
     do { box \<leftarrow> mbox;
          (case ListenerHelper_FindInfoBySequenceID l (bx_fd box) (bx_out_seq_id box) of
             None \<Rightarrow> Some l
           | Some i \<Rightarrow>
               (case rx_state (l_rx_info l ! i) of
                  RIS_HOLD h \<Rightarrow>
                    if h_error h = RX_ERROR_NONE \<and> h_has_result h then
                      do { let l1 = set_expect i \<lparr>e_box = Some box, e_error = RX_ERROR_READY_FOR_DELIVERY,
                                                  e_has_result = True, e_result = h_result h\<rparr> l;
                           c_assert (bx_status box \<noteq> BUS_SEND_UNDEFINED);
                           ListenerTask_AttemptDelivery env l1 i }
                    else if h_error h \<noteq> RX_ERROR_NONE then
                      ListenerTask_NotifyMessageFailure env
                        (set_expect i \<lparr>e_box = Some box, e_error = h_error h,
                                       e_has_result = alias_has_result h, e_result = h_result h\<rparr> l)
                        i BUS_SEND_RX_FAILURE
                    else
                      Some (upd_info i (\<lambda>r. r\<lparr>rx_timeout_sec := bx_timeout_sec box\<rparr>)
                             (set_expect i \<lparr>e_box = Some box, e_error = RX_ERROR_NONE,
                                            e_has_result = False, e_result = alias_result h\<rparr> l))
                | RIS_EXPECT e \<Rightarrow> None
                | RIS_INACTIVE \<Rightarrow> Some l)) }"

definition shutdown :: "'u listener \<Rightarrow> int \<Rightarrow> 'u listener" where
  "shutdown l notify_fd = l\<lparr>l_shutdown_notify_fd := notify_fd\<rparr>"

section \<open>Dispatch\<close>

definition run_command :: "('u, 'm) env \<Rightarrow> 'u listener \<Rightarrow> 'u msg_body \<Rightarrow> 'u listener option" where
  "run_command env l body =
     (case body of
        MSG_ADD_SOCKET ci notify_fd \<Rightarrow> add_socket env l ci notify_fd
      | MSG_REMOVE_SOCKET fd notify_fd \<Rightarrow> remove_socket env l fd notify_fd
      | MSG_HOLD_RESPONSE fd seq_id timeout_sec notify_fd \<Rightarrow>
          hold_response env l fd seq_id timeout_sec notify_fd
      | MSG_EXPECT_RESPONSE box \<Rightarrow> expect_response env l box
      | MSG_SHUTDOWN notify_fd \<Rightarrow> Some (shutdown l notify_fd)
      | MSG_NONE \<Rightarrow> None)"

definition msg_handler :: "('u, 'm) env \<Rightarrow> 'u listener \<Rightarrow> nat \<Rightarrow> 'u listener option" where
  "msg_handler env l pmsg =
     do { c_assert (pmsg < length (l_msgs l));
          l1 \<leftarrow> run_command env (l\<lparr>l_is_idle := False\<rparr>) (m_body (l_msgs l ! pmsg));
          ListenerTask_ReleaseMsg l1 pmsg }"

fun handle_all :: "('u, 'm) env \<Rightarrow> nat list \<Rightarrow> 'u listener \<Rightarrow> 'u listener option" where
  "handle_all env [] l = Some l"
| "handle_all env (i # is) l = do { l1 \<leftarrow> msg_handler env l i; handle_all env is l1 }"

text \<open>The command pipe holds the ids of committed messages; one read takes up to
  \<^verbatim>\<open>LISTENER_CMD_BUF_SIZE\<close> of them. \<open>rds\<close> lists what \<^verbatim>\<open>read\<close> does before it succeeds.\<close>

definition LISTENER_CMD_BUF_SIZE :: nat where "LISTENER_CMD_BUF_SIZE = 64"

datatype pipe_read = PR_EINTR | PR_ERR

fun pipe_loop :: "pipe_read list \<Rightarrow> bool" where
  "pipe_loop [] = True"
| "pipe_loop (PR_EINTR # rds) = pipe_loop rds"
| "pipe_loop (PR_ERR # rds) = False"

definition ListenerCmd_CheckIncomingMessages ::
  "('u, 'm) env \<Rightarrow> pipe_read list \<Rightarrow> 'u listener \<Rightarrow> int \<Rightarrow> (int \<times> 'u listener) option" where
  "ListenerCmd_CheckIncomingMessages env rds l res =
     (let events = pfd_revents (l_incoming l) in
      if POLLERR events \<or> POLLHUP events \<or> POLLNVAL events then Some (res, l)
      else if POLLIN events then
        (if pipe_loop rds then
           do { let cmd_buf = take LISTENER_CMD_BUF_SIZE (l_queue l);
                l1 \<leftarrow> handle_all env cmd_buf (l\<lparr>l_queue := drop LISTENER_CMD_BUF_SIZE (l_queue l)\<rparr>);
                Some (res - 1, l1) }
         else Some (res, l))
      else Some (res, l))"

section \<open>Invariant of the socket table\<close>

text \<open>Each tracked socket has its connection record at the same index, no descriptor is tracked
  twice, and the sockets that are polled come first.\<close>

definition fd_table_ok :: "'u listener \<Rightarrow> bool" where
  "fd_table_ok l \<longleftrightarrow>
     length (l_fds l) = MAX_FDS \<and> length (l_fd_info l) = MAX_FDS \<and>
     l_tracked_fds l \<le> MAX_FDS \<and> l_inactive_fds l \<le> l_tracked_fds l \<and>
     (\<forall>i < l_tracked_fds l. \<exists>ci. l_fd_info l ! i = Some ci \<and> ci_fd ci = pfd_fd (l_fds l ! i)) \<and>
     (\<forall>i < l_tracked_fds l. \<forall>j < l_tracked_fds l.
        pfd_fd (l_fds l ! i) = pfd_fd (l_fds l ! j) \<longrightarrow> i = j) \<and>
     fds_partitioned l"

text \<open>The table as a set: descriptor, whether it is polled, connection record.\<close>

definition row :: "'u listener \<Rightarrow> nat \<Rightarrow> int \<times> bool \<times> 'u connection_info option" where
  "row l i = (pfd_fd (l_fds l ! i), pfd_events_in (l_fds l ! i), l_fd_info l ! i)"

definition sockets :: "'u listener \<Rightarrow> (int \<times> bool \<times> 'u connection_info option) set" where
  "sockets l = row l ` {..<l_tracked_fds l}"

text \<open>All of \<^term>\<open>fd_table_ok\<close> but the order, over the rows.\<close>

definition rows_ok :: "(nat \<Rightarrow> int \<times> bool \<times> 'u connection_info option) \<Rightarrow> nat \<Rightarrow> nat \<Rightarrow> bool" where
  "rows_ok r n k \<longleftrightarrow>
     (\<forall>i < n. \<exists>ci. snd (snd (r i)) = Some ci \<and> ci_fd ci = fst (r i)) \<and>
     inj_on (fst \<circ> r) {..<n} \<and> (\<forall>i < n. fst (snd (r i)) \<longleftrightarrow> i + k < n)"

lemma fd_table_ok_rows:
  "fd_table_ok l \<longleftrightarrow>
     length (l_fds l) = MAX_FDS \<and> length (l_fd_info l) = MAX_FDS \<and>
     l_tracked_fds l \<le> MAX_FDS \<and> l_inactive_fds l \<le> l_tracked_fds l \<and>
     rows_ok (row l) (l_tracked_fds l) (l_inactive_fds l)"
  by (auto simp: fd_table_ok_def rows_ok_def row_def fds_partitioned_def inj_on_def)

lemma fd_table_conns: "fd_table_ok l \<Longrightarrow> conns_present l"
  by (fastforce simp: fd_table_ok_def conns_present_def)

definition swap_ix :: "nat \<Rightarrow> nat \<Rightarrow> nat \<Rightarrow> nat" where
  "swap_ix a b i = (if i = a then b else if i = b then a else i)"

lemma row_swap:
  assumes "a < length (l_fds l)" "b < length (l_fds l)" "length (l_fd_info l) = length (l_fds l)"
  shows "row (swap l a b) i = row l (swap_ix a b i)"
  using assms by (auto simp: row_def swap_def swap_ix_def nth_list_update)

lemma row_cong:
  "l_fds l' = l_fds l \<Longrightarrow> l_fd_info l' = l_fd_info l \<Longrightarrow> row l' = row l"
  by (simp add: fun_eq_iff row_def)

lemma swap_ix_image: "a < n \<Longrightarrow> b < n \<Longrightarrow> swap_ix a b ` {..<n} = {..<n}"
proof
  assume "a < n" "b < n"
  then show "swap_ix a b ` {..<n} \<subseteq> {..<n}" by (auto simp: swap_ix_def)
  show "{..<n} \<subseteq> swap_ix a b ` {..<n}"
  proof
    fix i assume "i \<in> {..<n}"
    then have "swap_ix a b i \<in> {..<n}" "i = swap_ix a b (swap_ix a b i)"
      using \<open>a < n\<close> \<open>b < n\<close> by (auto simp: swap_ix_def)
    then show "i \<in> swap_ix a b ` {..<n}" by blast
  qed
qed

lemma NotifyCaller_cases:
  assumes "write_loop (env_notify env fd)"
  obtains bs where "ListenerCmd_NotifyCaller env l fd =
    Some (l\<lparr>l_trace := l_trace l @ (if fd = -1 then [] else [Notified fd bs])\<rparr>)"
  by (rule that [of "notify_bytes (ListenerTask_GetBackpressure l)"])
    (use assms in \<open>simp add: ListenerCmd_NotifyCaller_def emit_def\<close>)

section \<open>Removing a socket\<close>

text \<open>Where each remaining row comes from when entry \<open>idx\<close> of \<open>n\<close>, \<open>k\<close> of them inactive, goes.\<close>

definition removed_src :: "nat \<Rightarrow> nat \<Rightarrow> nat \<Rightarrow> bool \<Rightarrow> nat \<Rightarrow> nat" where
  "removed_src n k idx active j =
     (if active then if j = n - k - 1 then n - 1 else if j = idx then n - k - 1 else j
      else if j = idx then n - 1 else j)"

lemma removed_src_image:
  assumes "idx < n" "active \<longleftrightarrow> idx + k < n"
  shows "removed_src n k idx active ` {..<n - 1} = {..<n} - {idx}"
    and "inj_on (removed_src n k idx active) {..<n - 1}"
proof -
  show inj: "inj_on (removed_src n k idx active) {..<n - 1}"
    using assms by (auto simp: inj_on_def removed_src_def split: if_splits)
  have "removed_src n k idx active ` {..<n - 1} \<subseteq> {..<n} - {idx}"
    using assms by (auto simp: removed_src_def split: if_splits)
  moreover have "card (removed_src n k idx active ` {..<n - 1}) = card ({..<n} - {idx})"
    using inj assms(1) by (simp add: card_image)
  ultimately show "removed_src n k idx active ` {..<n - 1} = {..<n} - {idx}"
    by (intro card_subset_eq) simp_all
qed

lemma remove_at_rows:
  assumes ok: "fd_table_ok l" and i: "idx < l_tracked_fds l"
  obtains l' where "remove_at l idx = Some (l_tracked_fds l - 1, l')"
    "l_tracked_fds l' = l_tracked_fds l - 1"
    "l_inactive_fds l' = (if pfd_events_in (l_fds l ! idx) then l_inactive_fds l else l_inactive_fds l - 1)"
    "length (l_fds l') = MAX_FDS" "length (l_fd_info l') = MAX_FDS"
    "\<forall>j < l_tracked_fds l - 1. row l' j =
       row l (removed_src (l_tracked_fds l) (l_inactive_fds l) idx (pfd_events_in (l_fds l ! idx)) j)"
    "l' = l\<lparr>l_fds := l_fds l', l_fd_info := l_fd_info l', l_tracked_fds := l_tracked_fds l',
           l_inactive_fds := l_inactive_fds l'\<rparr>"
proof -
  let ?n = "l_tracked_fds l" and ?k = "l_inactive_fds l" and ?act = "pfd_events_in (l_fds l ! idx)"
  let ?a = "?n - ?k - 1"
  have sz: "length (l_fds l) = MAX_FDS" "length (l_fd_info l) = MAX_FDS" "?n \<le> MAX_FDS" "?k \<le> ?n"
    and act: "?act \<longleftrightarrow> idx + ?k < ?n"
    using ok i by (auto simp: fd_table_ok_def fds_partitioned_def)
  let ?l1 = "if ?act \<and> idx \<noteq> ?a then swap l idx ?a else l"
  let ?i1 = "if ?act then ?a else idx"
  let ?l2 = "if ?i1 < ?n - 1 then swap ?l1 ?i1 (?n - 1) else ?l1"
  let ?l' = "?l2\<lparr>l_tracked_fds := ?n - 1, l_inactive_fds := (if ?act then ?k else ?k - 1)\<rparr>"
  have r: "remove_at l idx = Some (?n - 1, ?l')"
  proof (cases ?act)
    case True
    then have "?n = ?a + ?k + 1" "idx \<le> ?a" using act by auto
    then obtain m where "?n = Suc (m + ?k)" "idx \<le> m" by fastforce
    then show ?thesis
      using True i by (cases "idx = m"; cases "?k = 0") (auto simp: remove_at_def Let_def)
  next
    case False
    then show ?thesis using i by (cases "?n > 1") (auto simp: remove_at_def Let_def)
  qed
  have len: "length (l_fds ?l') = MAX_FDS" "length (l_fd_info ?l') = MAX_FDS"
    using sz by (simp_all add: swap_def)
  have rows: "row ?l' j = row l (removed_src ?n ?k idx ?act j)" if "j < ?n - 1" for j
  proof -
    have r': "row ?l' j = row ?l2 j" by (simp add: row_def)
    have l1: "length (l_fds ?l1) = MAX_FDS" "length (l_fd_info ?l1) = MAX_FDS" using sz by (simp_all add: swap_def)
    have r2: "row ?l2 j = row ?l1 (if ?i1 < ?n - 1 then swap_ix ?i1 (?n - 1) j else j)"
      using l1 sz i act by (auto simp: row_swap)
    have "row ?l1 m = row l (if ?act \<and> idx \<noteq> ?a then swap_ix idx ?a m else m)" for m
      using sz i act by (auto simp: row_swap)
    then show ?thesis
      unfolding r' r2 using that i act sz by (auto simp: removed_src_def swap_ix_def)
  qed
  show ?thesis
    by (rule that [OF r _ _ len]) (use rows in \<open>simp_all add: swap_def\<close>)
qed

lemma remove_socket_loop_hit:
  assumes "fd_table_ok l" "idx < l_tracked_fds l" "pfd_fd (l_fds l ! idx) = fd" "start \<le> idx"
    and l': "remove_at l idx = Some (l_tracked_fds l - 1, l')" "l_tracked_fds l' = l_tracked_fds l - 1"
  shows "remove_socket_loop fd start l = Some l'"
  using assms(4)
proof (induction "idx - start" arbitrary: start)
  case 0
  have "remove_socket_loop fd (Suc (l_tracked_fds l - 1)) l' = Some l'"
    using l'(2) by (simp add: remove_socket_loop.simps)
  then show ?case using 0 assms by (subst remove_socket_loop.simps) simp
next
  case (Suc d)
  then have "start \<noteq> idx" "start < l_tracked_fds l" using assms(2) by auto
  then have "pfd_fd (l_fds l ! start) \<noteq> fd" using assms(1-3) by (metis fd_table_ok_def)
  then show ?case
    using Suc \<open>start < l_tracked_fds l\<close> by (subst remove_socket_loop.simps) simp
qed

lemma remove_socket_loop_miss:
  assumes "\<forall>i < l_tracked_fds l. pfd_fd (l_fds l ! i) \<noteq> fd"
  shows "remove_socket_loop fd start l = Some l"
proof (induction "l_tracked_fds l - start" arbitrary: start)
  case 0
  then show ?case by (simp add: remove_socket_loop.simps)
next
  case (Suc d)
  then show ?case using assms by (subst remove_socket_loop.simps) simp
qed

lemma remove_socket_loop_table:
  assumes ok: "fd_table_ok l"
  obtains l' where "remove_socket_loop fd 0 l = Some l'" "fd_table_ok l'"
    "sockets l' = sockets l - {r. fst r = fd}"
    "l' = l\<lparr>l_fds := l_fds l', l_fd_info := l_fd_info l', l_tracked_fds := l_tracked_fds l',
           l_inactive_fds := l_inactive_fds l'\<rparr>"
proof (cases "\<exists>i < l_tracked_fds l. pfd_fd (l_fds l ! i) = fd")
  case False
  then have "remove_socket_loop fd 0 l = Some l" by (intro remove_socket_loop_miss) blast
  moreover have "sockets l = sockets l - {r. fst r = fd}"
    using False by (auto simp: sockets_def row_def)
  ultimately show ?thesis using ok that [of l] by simp
next
  case True
  then obtain idx where i: "idx < l_tracked_fds l" "pfd_fd (l_fds l ! idx) = fd" by blast
  let ?n = "l_tracked_fds l" and ?k = "l_inactive_fds l" and ?act = "pfd_events_in (l_fds l ! idx)"
  let ?\<pi> = "removed_src ?n ?k idx ?act"
  obtain l' where l': "remove_at l idx = Some (?n - 1, l')" "l_tracked_fds l' = ?n - 1"
    "l_inactive_fds l' = (if ?act then ?k else ?k - 1)"
    "length (l_fds l') = MAX_FDS" "length (l_fd_info l') = MAX_FDS"
    "\<forall>j < ?n - 1. row l' j = row l (?\<pi> j)"
    and rest: "l' = l\<lparr>l_fds := l_fds l', l_fd_info := l_fd_info l', l_tracked_fds := l_tracked_fds l',
           l_inactive_fds := l_inactive_fds l'\<rparr>"
    by (rule remove_at_rows [OF ok i(1)])
  have sz: "?n \<le> MAX_FDS" "?k \<le> ?n" and rok: "rows_ok (row l) ?n ?k"
    using ok by (simp_all add: fd_table_ok_rows)
  have act: "?act \<longleftrightarrow> idx + ?k < ?n" using rok i by (simp add: rows_ok_def row_def)
  note img = removed_src_image [OF i(1) act]
  have lt: "?\<pi> j < ?n" "?\<pi> j \<noteq> idx" if "j < ?n - 1" for j using that img(1) by auto
  have inj: "inj_on (fst \<circ> row l') {..<?n - 1}"
  proof -
    have "inj_on (fst \<circ> row l) (?\<pi> ` {..<?n - 1})"
      using rok img(1) by (auto simp: rows_ok_def intro: inj_on_subset)
    then have "inj_on ((fst \<circ> row l) \<circ> ?\<pi>) {..<?n - 1}" by (rule comp_inj_on [OF img(2)])
    then show ?thesis by (rule inj_on_cong [THEN iffD1, rotated]) (simp add: l'(6))
  qed
  have "rows_ok (row l') (?n - 1) (l_inactive_fds l')"
    unfolding rows_ok_def
  proof (intro conjI inj allI impI)
    fix j assume j: "j < ?n - 1"
    show "\<exists>ci. snd (snd (row l' j)) = Some ci \<and> ci_fd ci = fst (row l' j)"
      using rok lt [OF j] by (simp add: rows_ok_def l'(6) [rule_format, OF j])
    have "fst (snd (row l' j)) \<longleftrightarrow> ?\<pi> j + ?k < ?n"
      using rok lt [OF j] by (simp add: rows_ok_def l'(6) [rule_format, OF j])
    also have "\<dots> \<longleftrightarrow> j + l_inactive_fds l' < ?n - 1"
      using j act sz i(1) by (auto simp: removed_src_def l'(3))
    finally show "fst (snd (row l' j)) = (j + l_inactive_fds l' < ?n - 1)" .
  qed
  then have tok: "fd_table_ok l'" using l' sz act i by (auto simp: fd_table_ok_rows)
  have "sockets l' = row l ` (?\<pi> ` {..<?n - 1})"
    by (auto simp: sockets_def l'(2,6) image_image)
  also have "\<dots> = sockets l - {r. fst r = fd}"
    unfolding img(1) sockets_def using rok i by (auto simp: rows_ok_def inj_on_def row_def)
  finally have "sockets l' = sockets l - {r. fst r = fd}" .
  moreover have "remove_socket_loop fd 0 l = Some l'" by (rule remove_socket_loop_hit [OF ok i _ l'(1,2)]) simp
  ultimately show ?thesis using that tok rest by blast
qed

section \<open>Adding a socket\<close>

text \<open>The table after a new entry \<open>x\<close> has been swapped in front of the \<open>k\<close> inactive ones.\<close>

definition added_row :: "(nat \<Rightarrow> 'b) \<Rightarrow> nat \<Rightarrow> nat \<Rightarrow> 'b \<Rightarrow> nat \<Rightarrow> 'b" where
  "added_row r n k x j = (if j = n - k then x else if j = n then r (n - k) else r j)"

lemma added_row_ok:
  assumes "rows_ok r n k" "k \<le> n" "fst x \<notin> fst ` r ` {..<n}" "fst (snd x)"
    "snd (snd x) = Some ci" "ci_fd ci = fst x"
  shows "rows_ok (added_row r n k x) (Suc n) k"
    and "added_row r n k x ` {..<Suc n} = insert x (r ` {..<n})"
proof -
  have lt: "n - k < n" if "k \<noteq> 0" using that assms(2) by simp
  show img: "added_row r n k x ` {..<Suc n} = insert x (r ` {..<n})"
  proof (cases "k = 0")
    case True
    then show ?thesis by (auto simp: added_row_def lessThan_Suc)
  next
    case False
    have "{..<Suc n} = insert (n - k) (insert n ({..<n} - {n - k}))" using lt [OF False] by auto
    moreover have "added_row r n k x ` ({..<n} - {n - k}) = r ` ({..<n} - {n - k})"
      by (rule image_cong) (auto simp: added_row_def)
    ultimately have "added_row r n k x ` {..<Suc n} = insert x (insert (r (n - k)) (r ` ({..<n} - {n - k})))"
      using lt [OF False] False by (auto simp: added_row_def)
    also have "\<dots> = insert x (r ` {..<n})" using lt [OF False] by auto
    finally show ?thesis .
  qed
  have inj: "inj_on (fst \<circ> r) {..<n}" using assms(1) by (simp add: rows_ok_def)
  have "card ((fst \<circ> added_row r n k x) ` {..<Suc n}) = card (insert (fst x) ((fst \<circ> r) ` {..<n}))"
    unfolding image_comp [symmetric] img by simp
  also have "\<dots> = Suc (card ((fst \<circ> r) ` {..<n}))"
    by (rule card_insert_disjoint) (use assms(3) in auto)
  also have "\<dots> = card {..<Suc n}" by (simp only: card_image [OF inj] card_lessThan)
  finally have "inj_on (fst \<circ> added_row r n k x) {..<Suc n}" by (intro eq_card_imp_inj_on) simp_all
  then show "rows_ok (added_row r n k x) (Suc n) k"
    using assms lt by (auto simp: rows_ok_def added_row_def less_Suc_eq)
qed

definition primed :: "'u connection_info \<Rightarrow> 'u \<Rightarrow> size_t \<Rightarrow> 'u connection_info" where
  "primed ci u next_read = ci\<lparr>ci_udata := u, ci_to_read_size := next_read\<rparr>"

lemma row_added:
  assumes "length (l_fds l) = MAX_FDS" "length (l_fd_info l) = MAX_FDS" "n < MAX_FDS" "k \<le> n"
    and l1: "l1 = l\<lparr>l_fd_info := (l_fd_info l)[n := Some ci],
             l_fds := (l_fds l)[n := (l_fds l ! n)\<lparr>pfd_fd := ci_fd ci, pfd_events_in := True\<rparr>]\<rparr>"
    and l2: "l2 = (if k > 0 then swap l1 n (n - k) else l1)" and "j < Suc n"
  shows "row l2 j = added_row (row l) n k (ci_fd ci, True, Some ci) j"
proof (cases "k = 0")
  case True
  then show ?thesis using assms by (auto simp: row_def added_row_def l1 l2 nth_list_update)
next
  case False
  have "row l2 j = row l1 (swap_ix n (n - k) j)"
    using assms False by (simp add: l2 row_swap l1)
  then show ?thesis
    using assms False by (auto simp: row_def added_row_def l1 swap_ix_def nth_list_update)
qed

lemma add_socket_table:
  assumes ok: "fd_table_ok l" and room: "l_tracked_fds l < MAX_FDS" and new: "ci_fd ci \<notin> fst ` sockets l"
    and sink: "env_sink env (ci_udata ci) [] = Some (u, next_read, None)"
    and wr: "write_loop (env_notify env notify_fd)"
  obtains l' where "add_socket env l ci notify_fd = Some l'" "fd_table_ok l'"
    "sockets l' = insert (ci_fd ci, True, Some (primed ci u next_read)) (sockets l)"
    "\<exists>tr. l' = l\<lparr>l_fds := l_fds l', l_fd_info := l_fd_info l', l_tracked_fds := l_tracked_fds l + 1,
           l_read_buf_size := l_read_buf_size l', l_trace := l_trace l @ tr\<rparr> \<and>
       set tr \<inter> range Delivered = {} \<and>
       (Freed_ci (ci_fd ci) \<in> set tr \<longleftrightarrow> \<not> (next_read < l_read_buf_size l \<or> env_realloc env next_read))"
proof -
  let ?n = "l_tracked_fds l" and ?k = "l_inactive_fds l"
  have sz: "length (l_fds l) = MAX_FDS" "length (l_fd_info l) = MAX_FDS" "?k \<le> ?n"
    and rok: "rows_ok (row l) ?n ?k" using ok by (simp_all add: fd_table_ok_rows)
  have fresh: "(\<exists>i < ?n. pfd_fd (l_fds l ! i) = ci_fd ci) = False"
    using new by (force simp: sockets_def row_def)
  define l1 where "l1 = l\<lparr>l_fd_info := (l_fd_info l)[?n := Some ci],
     l_fds := (l_fds l)[?n := (l_fds l ! ?n)\<lparr>pfd_fd := ci_fd ci, pfd_events_in := True\<rparr>]\<rparr>"
  define l2 where "l2 = (if ?k > 0 then swap l1 ?n (?n - ?k) else l1)"
  define l3 where "l3 = l2\<lparr>l_tracked_fds := Suc ?n\<rparr>"
  define l4 where "l4 = l3\<lparr>l_fd_info := (l_fd_info l3)[?n - ?k := Some (primed ci u next_read)]\<rparr>"
  let ?x = "(ci_fd ci, True, Some ci)" and ?x' = "(ci_fd ci, True, Some (primed ci u next_read))"
  have r3: "row l3 j = added_row (row l) ?n ?k ?x j" if "j < Suc ?n" for j
    using row_added [OF sz(1,2) room sz(3) l1_def l2_def that] by (simp add: l3_def row_def)
  have len: "length (l_fds l4) = MAX_FDS" "length (l_fd_info l4) = MAX_FDS" "length (l_fd_info l3) = MAX_FDS"
    using sz by (simp_all add: l4_def l3_def l2_def l1_def swap_def)
  have r4: "row l4 j = added_row (row l) ?n ?k ?x' j" if "j < Suc ?n" for j
    using r3 [OF that] len room by (auto simp: l4_def row_def added_row_def nth_list_update)
  have notin: "fst ?x \<notin> fst ` row l ` {..<?n}" using new by (simp add: sockets_def)
  have tr: "l_tracked_fds l3 = Suc ?n" "l_inactive_fds l3 = ?k" "l_tracked_fds l4 = Suc ?n" "l_inactive_fds l4 = ?k"
    by (simp_all add: l4_def l3_def l2_def l1_def)
  have "rows_ok (added_row (row l) ?n ?k ?x) (Suc ?n) ?k"
    by (rule added_row_ok(1) [OF rok sz(3) notin]) auto
  then have part: "fds_partitioned l3"
    using r3 tr by (simp add: fds_partitioned_def rows_ok_def) (metis fst_conv row_def snd_conv)
  have x': "rows_ok (added_row (row l) ?n ?k ?x') (Suc ?n) ?k"
      "added_row (row l) ?n ?k ?x' ` {..<Suc ?n} = insert ?x' (sockets l)"
    using added_row_ok [OF rok sz(3), of ?x' "primed ci u next_read"] notin
    by (simp_all add: primed_def sockets_def)
  have img: "row l4 ` {..<Suc ?n} = added_row (row l) ?n ?k ?x' ` {..<Suc ?n}"
    by (rule image_cong) (use r4 in auto)
  have "rows_ok (row l4) (Suc ?n) ?k"
  proof -
    have "inj_on (fst \<circ> row l4) {..<Suc ?n} = inj_on (fst \<circ> added_row (row l) ?n ?k ?x') {..<Suc ?n}"
      by (rule inj_on_cong) (simp add: r4)
    then show ?thesis using x'(1) r4 by (auto simp: rows_ok_def)
  qed
  then have ok4: "fd_table_ok l4" using len tr room sz by (simp add: fd_table_ok_rows)
  have so4: "sockets l4 = insert ?x' (sockets l)" using img x'(2) by (simp add: sockets_def tr)
  obtain grown l5 where g: "ListenerTask_GrowReadBuf env l4 next_read = (grown, l5)" by fastforce
  then have "l5 \<in> {l4, l4\<lparr>l_read_buf_size := next_read\<rparr>}"
    by (auto simp: ListenerTask_GrowReadBuf_def split: if_splits)
  then obtain bz where l5: "l5 = l4\<lparr>l_read_buf_size := bz\<rparr>"
    by (metis insertE listener.surjective listener.update_convs(17) singletonD)
  have same: "row l5 = row l4" "l_tracked_fds l5 = l_tracked_fds l4" "l_inactive_fds l5 = l_inactive_fds l4"
    "l_fds l5 = l_fds l4" "l_fd_info l5 = l_fd_info l4"
    by (simp_all add: l5 row_def fun_eq_iff)
  let ?l6 = "if grown then l5 else emit (Freed_ci (ci_fd ci)) l5"
  obtain bs where nt: "ListenerCmd_NotifyCaller env ?l6 notify_fd =
      Some (?l6\<lparr>l_trace := l_trace ?l6 @ (if notify_fd = -1 then [] else [Notified notify_fd bs])\<rparr>)"
    by (rule NotifyCaller_cases [OF wr])
  let ?l' = "?l6\<lparr>l_trace := l_trace ?l6 @ (if notify_fd = -1 then [] else [Notified notify_fd bs])\<rparr>"
  let ?tr = "(if grown then [] else [Freed_ci (ci_fd ci)]) @
     (if notify_fd = -1 then [] else [Notified notify_fd bs])"
  have r1: "add_socket env l ci notify_fd = Some ?l'"
    using room sink part g nt
    unfolding add_socket_def fresh l4_def l3_def l2_def l1_def primed_def
    by (simp add: Let_def split: if_splits)
  have r2: "fd_table_ok ?l'" "sockets ?l' = insert ?x' (sockets l)"
    using ok4 so4 same by (auto simp: fd_table_ok_def fds_partitioned_def sockets_def row_def emit_def)
  have r3: "?l' = l\<lparr>l_fds := l_fds ?l', l_fd_info := l_fd_info ?l', l_tracked_fds := l_tracked_fds l + 1,
       l_read_buf_size := l_read_buf_size ?l', l_trace := l_trace l @ ?tr\<rparr>"
    by (simp add: l5 emit_def l4_def l3_def l2_def l1_def swap_def)
  have "set ?tr \<inter> range Delivered = {}" by auto
  moreover have "l_read_buf_size l4 = l_read_buf_size l"
    by (simp add: l4_def l3_def l2_def l1_def swap_def)
  then have "Freed_ci (ci_fd ci) \<in> set ?tr \<longleftrightarrow> \<not> (next_read < l_read_buf_size l \<or> env_realloc env next_read)"
    using g by (auto simp: ListenerTask_GrowReadBuf_def split: if_splits)
  ultimately show ?thesis using r3 by (intro that [OF r1 r2] exI [of _ ?tr] conjI)
qed

section \<open>Properties of the socket commands\<close>

lemma fd_table_ok_trace [simp]:
  "fd_table_ok (l\<lparr>l_trace := t\<rparr>) = fd_table_ok l" "sockets (l\<lparr>l_trace := t\<rparr>) = sockets l"
  by (simp_all add: fd_table_ok_def fds_partitioned_def sockets_def row_def)

lemma add_socket_rejected:
  assumes "l_tracked_fds l = MAX_FDS \<or> ci_fd ci \<in> fst ` sockets l" "write_loop (env_notify env notify_fd)"
  obtains tr where "add_socket env l ci notify_fd = Some (l\<lparr>l_trace := l_trace l @ tr\<rparr>)"
    "set tr \<inter> range Delivered = {}"
proof -
  have dup: "(\<exists>i < l_tracked_fds l. pfd_fd (l_fds l ! i) = ci_fd ci) \<longleftrightarrow> ci_fd ci \<in> fst ` sockets l"
    by (auto simp: sockets_def row_def image_image intro: rev_image_eqI)
  let ?l = "if l_tracked_fds l = MAX_FDS then l else emit (Freed_ci (ci_fd ci)) l"
  obtain bs where "ListenerCmd_NotifyCaller env ?l notify_fd =
      Some (?l\<lparr>l_trace := l_trace ?l @ (if notify_fd = -1 then [] else [Notified notify_fd bs])\<rparr>)"
    by (rule NotifyCaller_cases [OF assms(2)])
  then have "add_socket env l ci notify_fd = Some (l\<lparr>l_trace := l_trace l @
      ((if l_tracked_fds l = MAX_FDS then [] else [Freed_ci (ci_fd ci)]) @
       (if notify_fd = -1 then [] else [Notified notify_fd bs]))\<rparr>)"
    using assms(1) unfolding add_socket_def dup by (cases "l_tracked_fds l = MAX_FDS") (simp_all add: emit_def)
  moreover have "set ((if l_tracked_fds l = MAX_FDS then [] else [Freed_ci (ci_fd ci)]) @
       (if notify_fd = -1 then [] else [Notified notify_fd bs])) \<inter> range Delivered = {}" by auto
  ultimately show ?thesis by (rule that)
qed

text \<open>Adding a socket to a well-formed socket table never fails the code's own check that the
  polled sockets are contiguous, keeps the table well formed, and tracks exactly one more
  socket, polled and with the read size the protocol asks for; a full table or a descriptor
  that is already tracked leaves the table as it is.\<close>
theorem add_socket_updates_table:
  assumes "fd_table_ok l" "env_sink env (ci_udata ci) [] = Some (u, next_read, None)"
    "write_loop (env_notify env notify_fd)"
  shows "\<exists>l'. add_socket env l ci notify_fd = Some l' \<and> fd_table_ok l' \<and>
     sockets l' = (if l_tracked_fds l = MAX_FDS \<or> ci_fd ci \<in> fst ` sockets l then sockets l
                   else insert (ci_fd ci, True, Some (primed ci u next_read)) (sockets l))"
proof (cases "l_tracked_fds l = MAX_FDS \<or> ci_fd ci \<in> fst ` sockets l")
  case True
  obtain tr where "add_socket env l ci notify_fd = Some (l\<lparr>l_trace := l_trace l @ tr\<rparr>)"
    by (rule add_socket_rejected [OF True assms(3)])
  then show ?thesis using True assms(1) by auto
next
  case False
  then have "l_tracked_fds l < MAX_FDS" "ci_fd ci \<notin> fst ` sockets l"
    using assms(1) by (auto simp: fd_table_ok_def)
  from add_socket_table [OF assms(1) this assms(2,3)] show ?thesis using False by (metis (no_types, lifting))
qed

text \<open>removing a socket from a well-formed socket table returns without failing an assertion,
  drops exactly the rows of that descriptor, whether it is polled or set aside after an error,
  and keeps the polled sockets contiguous at the front.\<close>
theorem remove_socket_updates_table:
  assumes "fd_table_ok l" "write_loop (env_notify env notify_fd)"
  shows "\<exists>l'. remove_socket env l fd notify_fd = Some l' \<and> fd_table_ok l' \<and>
     sockets l' = sockets l - {r. fst r = fd}"
proof -
  obtain l1 where l1: "remove_socket_loop fd 0 l = Some l1" "fd_table_ok l1" "sockets l1 = sockets l - {r. fst r = fd}"
    by (rule remove_socket_loop_table [OF assms(1)])
  obtain bs where "ListenerCmd_NotifyCaller env l1 notify_fd =
      Some (l1\<lparr>l_trace := l_trace l1 @ (if notify_fd = -1 then [] else [Notified notify_fd bs])\<rparr>)"
    by (rule NotifyCaller_cases [OF assms(2)])
  with l1 show ?thesis by (simp add: remove_socket_def)
qed

section \<open>Holding a response\<close>

definition new_hold :: "int \<Rightarrow> int \<Rightarrow> hold" where
  "new_hold fd seq_id = \<lparr>h_fd = fd, h_seq_id = seq_id, h_has_result = False,
     h_result = zero_unpack_res, h_error = RX_ERROR_NONE\<rparr>"

lemma rx_ok_trace [simp]: "rx_ok (l\<lparr>l_trace := t\<rparr>) = rx_ok l"
  by (simp add: rx_ok_def rx_pool_ok_def active_ids_def inactive_def conns_present_def)

lemma rx_frame_trace [simp]: "rx_frame l (l\<lparr>l_trace := t\<rparr>)"
  by (simp add: rx_frame_def)

lemma hold_response_ok:
  assumes "rx_ok l" "write_loop (env_notify env notify_fd)"
  obtains l' tr where "hold_response env l fd seq_id timeout_sec notify_fd = Some l'" "rx_ok l'" "rx_frame l l'"
    "l_trace l' = l_trace l @ tr" "set tr \<inter> range Delivered = {}"
    "case l_rx_info_freelist l of
       None \<Rightarrow> active_ids l' = active_ids l \<and> l_rx_info l' = l_rx_info l
     | Some i \<Rightarrow> i < MAX_PENDING_MESSAGES \<and> i \<notin> active_ids l \<and> active_ids l' = insert i (active_ids l) \<and>
         rx_state (l_rx_info l' ! i) = RIS_HOLD (new_hold fd seq_id) \<and>
         rx_timeout_sec (l_rx_info l' ! i) = timeout_sec \<and>
         (\<forall>j. j \<noteq> i \<longrightarrow> l_rx_info l' ! j = l_rx_info l ! j)"
proof -
  note ok = rx_okD [OF assms(1)]
  show ?thesis
  proof (cases "l_rx_info_freelist l")
    case None
    obtain bs where "ListenerCmd_NotifyCaller env l notify_fd =
        Some (l\<lparr>l_trace := l_trace l @ (if notify_fd = -1 then [] else [Notified notify_fd bs])\<rparr>)"
      by (rule NotifyCaller_cases [OF assms(2)])
    then have h: "hold_response env l fd seq_id timeout_sec notify_fd =
        Some (l\<lparr>l_trace := l_trace l @ (if notify_fd = -1 then [] else [Notified notify_fd bs])\<rparr>)"
      using GetFreeRXInfo_none [OF ok(1) None] by (simp add: hold_response_def)
    show ?thesis
      by (rule that [OF h]) (use assms(1) None in \<open>auto simp: active_ids_def inactive_def split: if_splits\<close>)
  next
    case (Some i)
    let ?f = "\<lambda>r. r\<lparr>rx_state := RIS_HOLD (new_hold fd seq_id), rx_timeout_sec := timeout_sec\<rparr>"
    obtain l1 where l1: "ListenerHelper_GetFreeRXInfo l = Some (Some i, l1)"
      "rx_pool_ok (upd_info i ?f l1)" "active_ids (upd_info i ?f l1) = insert i (active_ids l)"
      "i \<notin> active_ids l" "i < MAX_PENDING_MESSAGES" "rx_frame l l1"
      "l_rx_info (upd_info i ?f l1) = (l_rx_info l)[i := ?f ((l_rx_info l ! i)\<lparr>rx_next := None\<rparr>)]"
      "l_trace l1 = l_trace l"
      by (rule rx_reserve [OF ok(1) Some, where f = ?f]) auto
    let ?u = "upd_info i ?f l1"
    have fr: "rx_frame l ?u" using l1(6) rx_frame_updates(2) by (rule rx_frame_trans)
    have len: "i < length (l_rx_info l)" using ok(1) l1(5) by (simp add: rx_pool_ok_def)
    have oku: "rx_ok ?u"
      using ok l1(2,7) len frame_conns [OF fr] by (auto simp: rx_ok_def nth_list_update new_hold_def)
    have ina: "inactive l1 i"
    proof -
      have "length (l_rx_info l1) = length (l_rx_info ?u)" by simp
      then show ?thesis using GetFreeRXInfo_some [OF ok(1) Some] l1(1,4,5) len
        by (metis active_ids_def inactive_def mem_Collect_eq nth_list_update_eq option.inject prod.inject
            rx_info.select_convs(2) rx_info.surjective rx_info.update_convs(1))
    qed
    obtain bs where nt: "ListenerCmd_NotifyCaller env ?u notify_fd =
        Some (?u\<lparr>l_trace := l_trace ?u @ (if notify_fd = -1 then [] else [Notified notify_fd bs])\<rparr>)"
      by (rule NotifyCaller_cases [OF assms(2)])
    let ?l' = "?u\<lparr>l_trace := l_trace ?u @ (if notify_fd = -1 then [] else [Notified notify_fd bs])\<rparr>"
    have h: "hold_response env l fd seq_id timeout_sec notify_fd = Some ?l'"
      using nt ina by (simp add: hold_response_def l1(1) new_hold_def)
    have fr': "rx_frame l ?l'" using fr rx_frame_trace by (rule rx_frame_trans)
    have act: "active_ids ?l' = insert i (active_ids l)" using l1(3) by (simp add: active_ids_def inactive_def)
    show ?thesis
      by (rule that [OF h _ fr', of "if notify_fd = -1 then [] else [Notified notify_fd bs]"])
        (use oku l1 len act Some in \<open>auto simp: nth_list_update split: if_splits\<close>)
  qed
qed

section \<open>Expecting a response\<close>

lemma FindInfo_sound:
  assumes "ListenerHelper_FindInfoBySequenceID l fd seq_id = Some i" "rx_pool_ok l"
  shows "i < MAX_PENDING_MESSAGES" "i \<in> active_ids l" "info_matches (l_rx_info l ! i) fd seq_id"
proof -
  show m: "info_matches (l_rx_info l ! i) fd seq_id"
    using assms(1) by (auto simp: ListenerHelper_FindInfoBySequenceID_def find_Some_iff simp del: upt_Suc)
  have "i \<le> l_rx_info_max_used l"
    using assms(1) by (auto simp: ListenerHelper_FindInfoBySequenceID_def find_Some_iff simp del: upt_Suc)
  then show lt: "i < MAX_PENDING_MESSAGES" using assms(2) by (simp add: rx_pool_ok_def)
  then show "i \<in> active_ids l" using m by (auto simp: active_ids_def inactive_def)
qed

text \<open>The search finds every request that is pending: records above the high-water mark are
  inactive.\<close>

lemma FindInfo_complete:
  assumes "rx_pool_ok l"
  shows "ListenerHelper_FindInfoBySequenceID l fd seq_id = None \<longleftrightarrow>
    (\<forall>i < MAX_PENDING_MESSAGES. \<not> info_matches (l_rx_info l ! i) fd seq_id)"
proof -
  have "i \<le> l_rx_info_max_used l" if "i < MAX_PENDING_MESSAGES" "info_matches (l_rx_info l ! i) fd seq_id" for i
    using that assms by (auto simp: rx_pool_ok_def active_ids_def inactive_def)
  moreover have "l_rx_info_max_used l < MAX_PENDING_MESSAGES" using assms by (simp add: rx_pool_ok_def)
  ultimately show ?thesis
    unfolding ListenerHelper_FindInfoBySequenceID_def find_None_iff set_upt atLeastLessThan_iff less_Suc_eq_le
    by (metis le_less_trans zero_le)
qed

definition sent_ok :: "boxed_msg \<Rightarrow> bool" where
  "sent_ok box \<longleftrightarrow> bx_status box \<in> {BUS_SEND_SUCCESS, BUS_SEND_REQUEST_COMPLETE}"

text \<open>Specification of an expectation for the record \<open>r\<close> that holds its response.\<close>

definition expect_effect :: "('u, 'm) env \<Rightarrow> boxed_msg \<Rightarrow> rx_info \<Rightarrow> event list \<Rightarrow> rx_info \<Rightarrow> bool" where
  "expect_effect env box r evs r' \<longleftrightarrow>
     (case rx_state r of
        RIS_HOLD h \<Rightarrow>
          if h_error h \<noteq> RX_ERROR_NONE then
            (\<exists>e. e_error e = h_error h \<and> offered env (box\<lparr>bx_status := BUS_SEND_RX_FAILURE\<rparr>) r e evs r')
          else if h_has_result h then
            (\<exists>e. e_error e = RX_ERROR_READY_FOR_DELIVERY \<and>
                 offered env (box\<lparr>bx_status := BUS_SEND_SUCCESS,
                   bx_response := Some (ur_seq_id (h_result h), ur_msg (h_result h))\<rparr>) r e evs r')
          else evs = [] \<and> rx_timeout_sec r' = bx_timeout_sec box \<and>
            (\<exists>e. rx_state r' = RIS_EXPECT e \<and> e_box e = Some box \<and> e_error e = RX_ERROR_NONE \<and>
                 \<not> e_has_result e \<and> \<not> ur_ok (e_result e))
      | _ \<Rightarrow> False)"

lemma offer_set_expect:
  "i < length (l_rx_info l) \<Longrightarrow> offer first env i box e (set_expect i e' l) = offer first env i box e l"
  by (auto simp: offer_def Let_def set_expect_emit [symmetric] rx_retire_set_expect split: prod.splits)

lemma expect_converts:
  assumes "rx_ok l" "i \<in> active_ids l" "rx_state (l_rx_info l ! i) = RIS_HOLD h" "sent_ok box"
    "ListenerHelper_FindInfoBySequenceID l (bx_fd box) (bx_out_seq_id box) = Some i"
  obtains l' evs where "expect_response env l (Some box) = Some l'" "steps_to l i evs l'"
    "expect_effect env box (l_rx_info l ! i) evs (l_rx_info l' ! i)"
proof -
  note ok = rx_okD [OF assms(1)]
  note len = active_less [OF ok(1) assms(2)]
  have i: "i < MAX_PENDING_MESSAGES" using assms(2) by (simp add: active_ids_def)
  have herr: "h_error h \<noteq> RX_ERROR_DONE" "h_error h \<noteq> RX_ERROR_READY_FOR_DELIVERY"
    using ok(3) [OF i] assms(3) by simp_all
  have hok: "h_has_result h \<Longrightarrow> ur_ok (h_result h)" using ok(3) [OF i] assms(3) by simp
  have st: "bx_status box \<noteq> BUS_SEND_UNDEFINED" using assms(4) by (auto simp: sent_ok_def)
  have pool: "rx_pool_ok (set_expect i e l)" "conns_present (set_expect i e l)" "i \<in> active_ids (set_expect i e l)"
    and state: "rx_state (l_rx_info (set_expect i e l) ! i) = RIS_EXPECT e" for e
    using set_expect_pool [OF ok(1) assms(2)] ok(2) assms(2) len by (simp_all add: set_expect_nth)
  consider (err) "h_error h \<noteq> RX_ERROR_NONE"
    | (res) "h_error h = RX_ERROR_NONE" "h_has_result h"
    | (wait) "h_error h = RX_ERROR_NONE" "\<not> h_has_result h" by blast
  then show ?thesis
  proof cases
    case err
    let ?e = "\<lparr>e_box = Some box, e_error = h_error h, e_has_result = alias_has_result h, e_result = h_result h\<rparr>"
    let ?b = "box\<lparr>bx_status := BUS_SEND_RX_FAILURE\<rparr>"
    obtain evs where evs: "steps_to l i evs (offer False env i ?b ?e l)"
      "offered env ?b (l_rx_info l ! i) ?e evs (l_rx_info (offer False env i ?b ?e l) ! i)"
      by (rule offer_steps [OF assms(1,2), where box = ?b and e = ?e and env = env and first = False])
        (use herr in auto)
    have "expect_response env l (Some box) = Some (offer False env i ?b ?e l)"
      using NotifyMessageFailure_eq [OF pool state, of ?e box BUS_SEND_RX_FAILURE env] err assms(3,5)
      by (simp add: expect_response_def offer_set_expect [OF len])
    then show ?thesis using evs(1)
      by (rule that) (use evs(2) err assms(3) in \<open>auto simp: expect_effect_def intro!: exI [of _ ?e]\<close>)
  next
    case res
    let ?e = "\<lparr>e_box = Some box, e_error = RX_ERROR_READY_FOR_DELIVERY, e_has_result = True, e_result = h_result h\<rparr>"
    let ?b = "complete_box box (h_result h)"
    have b: "?b = box\<lparr>bx_status := BUS_SEND_SUCCESS,
                   bx_response := Some (ur_seq_id (h_result h), ur_msg (h_result h))\<rparr>"
      using assms(4) by (auto simp: complete_box_def sent_ok_def)
    obtain evs where evs: "steps_to l i evs (offer True env i ?b ?e l)"
      "offered env ?b (l_rx_info l ! i) ?e evs (l_rx_info (offer True env i ?b ?e l) ! i)"
      by (rule offer_steps [OF assms(1,2), where box = ?b and e = ?e and env = env and first = True])
        (auto simp: b)
    have "expect_response env l (Some box) = Some (offer True env i ?b ?e l)"
      using AttemptDelivery_eq [OF pool state, of ?e box env] res assms(3,5) st hok
      by (simp add: expect_response_def offer_set_expect [OF len])
    then show ?thesis using evs(1)
      by (rule that) (use evs(2) res assms(3) in \<open>auto simp: expect_effect_def b intro!: exI [of _ ?e]\<close>)
  next
    case wait
    let ?e = "\<lparr>e_box = Some box, e_error = RX_ERROR_NONE, e_has_result = False, e_result = alias_result h\<rparr>"
    let ?l' = "upd_info i (\<lambda>r. r\<lparr>rx_timeout_sec := bx_timeout_sec box\<rparr>) (set_expect i ?e l)"
    have nth: "l_rx_info ?l' ! j = (if j = i then (l_rx_info l ! i)\<lparr>rx_state := RIS_EXPECT ?e,
          rx_timeout_sec := bx_timeout_sec box\<rparr> else l_rx_info l ! j)" for j
      using len by (simp add: upd_info_nth set_expect_nth)
    have "rx_pool_ok ?l'" by (rule rx_pool_ok_upd [OF pool(1,3)]) (simp_all add: state)
    then have "rx_ok ?l'" using ok pool(2) st nth by (auto simp: rx_ok_def)
    moreover have "rx_frame l ?l'" using rx_frame_set_expect rx_frame_updates(2) by (rule rx_frame_trans)
    ultimately have steps: "steps_to l i [] ?l'" by (simp add: steps_to_def nth) (simp add: set_expect_def)
    have "expect_response env l (Some box) = Some ?l'"
      using wait assms(3,5) by (simp add: expect_response_def)
    then show ?thesis using steps
      by (rule that) (use wait assms(3) nth in \<open>auto simp: expect_effect_def alias_result_def\<close>)
  qed
qed

text \<open>C11: when a client reports that a request went out, the listener finds the hold it
  made for it and, without failing an assertion, hands the box on as its state demands: with
  the saved response and \<^verbatim>\<open>BUS_SEND_SUCCESS\<close> if it arrived first, with
  \<^verbatim>\<open>BUS_SEND_RX_FAILURE\<close> if the socket failed meanwhile, and otherwise it waits for the response
  with the request's own timeout; all other records stay as they are. If no hold is left the
  request is dropped and nothing changes.\<close>
theorem expect_response_matches_hold:
  assumes "rx_ok l" "sent_ok box"
    "\<forall>i e. ListenerHelper_FindInfoBySequenceID l (bx_fd box) (bx_out_seq_id box) = Some i \<longrightarrow>
       rx_state (l_rx_info l ! i) \<noteq> RIS_EXPECT e"
  shows "\<exists>l'. expect_response env l (Some box) = Some l' \<and> rx_ok l' \<and>
     (case ListenerHelper_FindInfoBySequenceID l (bx_fd box) (bx_out_seq_id box) of
        None \<Rightarrow> l' = l
      | Some i \<Rightarrow> \<exists>evs. expect_effect env box (l_rx_info l ! i) evs (l_rx_info l' ! i) \<and>
          l_trace l' = l_trace l @ evs \<and> (\<forall>j. j \<noteq> i \<longrightarrow> l_rx_info l' ! j = l_rx_info l ! j))"
proof (cases "ListenerHelper_FindInfoBySequenceID l (bx_fd box) (bx_out_seq_id box)")
  case None
  then show ?thesis using assms(1) by (simp add: expect_response_def)
next
  case (Some i)
  note f = FindInfo_sound [OF Some rx_okD(1) [OF assms(1)]]
  from f(3) assms(3) Some obtain h where h: "rx_state (l_rx_info l ! i) = RIS_HOLD h"
    by (cases "rx_state (l_rx_info l ! i)") auto
  obtain l' evs where "expect_response env l (Some box) = Some l'" "steps_to l i evs l'"
    "expect_effect env box (l_rx_info l ! i) evs (l_rx_info l' ! i)"
    by (rule expect_converts [OF assms(1) f(2) h assms(2) Some])
  then show ?thesis using Some by (auto simp: steps_to_def)
qed

text \<open>when the read buffer cannot be grown for a new socket, \<^verbatim>\<open>add_socket\<close> frees the
  connection record but leaves it in the table of polled sockets, and notifies the caller
  just as after a success.\<close>
theorem add_socket_keeps_freed_record:
  assumes "fd_table_ok l" "l_tracked_fds l < MAX_FDS" "ci_fd ci \<notin> fst ` sockets l"
    "env_sink env (ci_udata ci) [] = Some (u, next_read, None)" "write_loop (env_notify env notify_fd)"
    "\<not> next_read < l_read_buf_size l" "\<not> env_realloc env next_read"
  shows "\<exists>l'. add_socket env l ci notify_fd = Some l' \<and> Freed_ci (ci_fd ci) \<in> set (l_trace l') \<and>
     (ci_fd ci, True, Some (primed ci u next_read)) \<in> sockets l'"
proof -
  obtain l' tr where l': "add_socket env l ci notify_fd = Some l'"
    "sockets l' = insert (ci_fd ci, True, Some (primed ci u next_read)) (sockets l)"
    and tr: "l' = l\<lparr>l_fds := l_fds l', l_fd_info := l_fd_info l', l_tracked_fds := l_tracked_fds l + 1,
           l_read_buf_size := l_read_buf_size l', l_trace := l_trace l @ tr\<rparr>"
       "Freed_ci (ci_fd ci) \<in> set tr \<longleftrightarrow> \<not> (next_read < l_read_buf_size l \<or> env_realloc env next_read)"
    using add_socket_table [OF assms(1-5)] by metis
  have "l_trace l' = l_trace l @ tr" by (subst tr(1)) simp
  then show ?thesis using l' tr(2) assms(6,7) by auto
qed

section \<open>The dispatcher keeps all invariants\<close>

definition queue_ok :: "'u listener \<Rightarrow> bool" where
  "queue_ok l \<longleftrightarrow> distinct (l_queue l) \<and> set (l_queue l) \<subseteq> msgs_owned l"

definition listener_ok :: "'u listener \<Rightarrow> bool" where
  "listener_ok l \<longleftrightarrow> rx_ok l \<and> fd_table_ok l \<and> msg_pool_ok l \<and> queue_ok l"

text \<open>What a command must satisfy to run without failing an assertion.\<close>

fun cmd_ok :: "('u, 'm) env \<Rightarrow> 'u listener \<Rightarrow> 'u msg_body \<Rightarrow> bool" where
  "cmd_ok env l MSG_NONE = False"
| "cmd_ok env l (MSG_ADD_SOCKET ci n) =
     (write_loop (env_notify env n) \<and>
      (case env_sink env (ci_udata ci) [] of Some (u, k, None) \<Rightarrow> True | _ \<Rightarrow> False))"
| "cmd_ok env l (MSG_REMOVE_SOCKET fd n) = write_loop (env_notify env n)"
| "cmd_ok env l (MSG_HOLD_RESPONSE fd seq_id timeout n) = write_loop (env_notify env n)"
| "cmd_ok env l (MSG_EXPECT_RESPONSE mbox) =
     (case mbox of None \<Rightarrow> False
      | Some box \<Rightarrow> sent_ok box \<and>
          (case ListenerHelper_FindInfoBySequenceID l (bx_fd box) (bx_out_seq_id box) of
             None \<Rightarrow> True
           | Some i \<Rightarrow> (case rx_state (l_rx_info l ! i) of RIS_EXPECT e \<Rightarrow> False | _ \<Rightarrow> True)))"
| "cmd_ok env l (MSG_SHUTDOWN n) = True"

text \<open>What a command leaves alone: the message pool and the queue.\<close>

definition msgs_same :: "'u listener \<Rightarrow> 'u listener \<Rightarrow> bool" where
  "msgs_same l l' \<longleftrightarrow> l_msgs l' = l_msgs l \<and> l_msg_freelist l' = l_msg_freelist l \<and>
     l_msgs_in_use l' = l_msgs_in_use l \<and> l_queue l' = l_queue l"

lemma rx_frame_msgs_same: "rx_frame l l' \<Longrightarrow> msgs_same l l'"
  by (simp add: msgs_same_def rx_frame_fields)

lemma rx_frame_fd_table: "rx_frame l l' \<Longrightarrow> fd_table_ok l' = fd_table_ok l"
  by (simp add: fd_table_ok_def fds_partitioned_def rx_frame_fields)

lemma rx_ok_other:
  assumes "rx_ok l" "fd_table_ok l'" "l_rx_info l' = l_rx_info l" "l_rx_info_freelist l' = l_rx_info_freelist l"
    "l_rx_info_in_use l' = l_rx_info_in_use l" "l_rx_info_max_used l' = l_rx_info_max_used l"
  shows "rx_ok l'"
  using assms rx_pool_ok_cong(1) [OF rx_okD(1) [OF assms(1)] assms(3-6)] fd_table_conns [OF assms(2)]
  by (simp add: rx_ok_def)

lemma run_command_ok:
  assumes "rx_ok l" "fd_table_ok l" "cmd_ok env l body"
  obtains l' where "run_command env l body = Some l'" "rx_ok l'" "fd_table_ok l'" "msgs_same l l'"
proof (cases body)
  case MSG_NONE
  then show ?thesis using assms by simp
next
  case (MSG_ADD_SOCKET ci n)
  from assms(3) MSG_ADD_SOCKET obtain u k where c: "env_sink env (ci_udata ci) [] = Some (u, k, None)"
    "write_loop (env_notify env n)" by (auto split: option.splits)
  show ?thesis
  proof (cases "l_tracked_fds l = MAX_FDS \<or> ci_fd ci \<in> fst ` sockets l")
    case True
    obtain tr where "add_socket env l ci n = Some (l\<lparr>l_trace := l_trace l @ tr\<rparr>)"
      by (rule add_socket_rejected [OF True c(2)])
    then show ?thesis
      using assms(1,2) MSG_ADD_SOCKET
      by (intro that [of "l\<lparr>l_trace := l_trace l @ tr\<rparr>"]) (simp_all add: run_command_def msgs_same_def)
  next
    case False
    then have "l_tracked_fds l < MAX_FDS" "ci_fd ci \<notin> fst ` sockets l"
      using assms(2) by (auto simp: fd_table_ok_def)
    then obtain l' tr where l': "add_socket env l ci n = Some l'" "fd_table_ok l'"
      and e: "l' = l\<lparr>l_fds := l_fds l', l_fd_info := l_fd_info l', l_tracked_fds := l_tracked_fds l + 1,
           l_read_buf_size := l_read_buf_size l', l_trace := l_trace l @ tr\<rparr>"
      using add_socket_table [OF assms(2) _ _ c] by metis
    have "rx_ok l'" by (rule rx_ok_other [OF assms(1) l'(2)]) (subst e; simp)+
    moreover have "msgs_same l l'" by (subst e) (simp add: msgs_same_def)
    ultimately show ?thesis using l' MSG_ADD_SOCKET by (intro that [of l']) (simp_all add: run_command_def)
  qed
next
  case (MSG_REMOVE_SOCKET fd n)
  obtain l1 where l1: "remove_socket_loop fd 0 l = Some l1" "fd_table_ok l1"
    and e: "l1 = l\<lparr>l_fds := l_fds l1, l_fd_info := l_fd_info l1, l_tracked_fds := l_tracked_fds l1,
           l_inactive_fds := l_inactive_fds l1\<rparr>"
    using remove_socket_loop_table [OF assms(2)] by metis
  obtain bs where "ListenerCmd_NotifyCaller env l1 n =
      Some (l1\<lparr>l_trace := l_trace l1 @ (if n = -1 then [] else [Notified n bs])\<rparr>)"
    by (rule NotifyCaller_cases) (use assms(3) MSG_REMOVE_SOCKET in simp)
  moreover have "rx_ok l1" by (rule rx_ok_other [OF assms(1) l1(2)]) (subst e; simp)+
  moreover have "msgs_same l l1" by (subst e) (simp add: msgs_same_def)
  ultimately show ?thesis
    using l1 MSG_REMOVE_SOCKET
    by (intro that [of "l1\<lparr>l_trace := l_trace l1 @ (if n = -1 then [] else [Notified n bs])\<rparr>"])
      (simp_all add: run_command_def remove_socket_def msgs_same_def)
next
  case (MSG_HOLD_RESPONSE fd seq_id timeout n)
  obtain l' where "hold_response env l fd seq_id timeout n = Some l'" "rx_ok l'" "rx_frame l l'"
    by (rule hold_response_ok [OF assms(1)]) (use assms(3) MSG_HOLD_RESPONSE in auto)
  then show ?thesis
    using MSG_HOLD_RESPONSE assms(2) rx_frame_msgs_same rx_frame_fd_table
    by (intro that [of l']) (auto simp: run_command_def)
next
  case (MSG_EXPECT_RESPONSE mbox)
  from assms(3) MSG_EXPECT_RESPONSE obtain box where b: "mbox = Some box" "sent_ok box"
    by (auto split: option.splits)
  show ?thesis
  proof (cases "ListenerHelper_FindInfoBySequenceID l (bx_fd box) (bx_out_seq_id box)")
    case None
    then show ?thesis using assms(1,2) MSG_EXPECT_RESPONSE b
      by (intro that [of l]) (simp_all add: run_command_def expect_response_def msgs_same_def)
  next
    case (Some i)
    note f = FindInfo_sound [OF Some rx_okD(1) [OF assms(1)]]
    from f(3) assms(3) MSG_EXPECT_RESPONSE b Some obtain h where h: "rx_state (l_rx_info l ! i) = RIS_HOLD h"
      by (cases "rx_state (l_rx_info l ! i)") auto
    obtain l' evs where "expect_response env l (Some box) = Some l'" "steps_to l i evs l'"
      by (rule expect_converts [OF assms(1) f(2) h b(2) Some])
    then show ?thesis
      using MSG_EXPECT_RESPONSE b assms(2) rx_frame_msgs_same rx_frame_fd_table
      by (intro that [of l']) (auto simp: run_command_def steps_to_def)
  qed
next
  case (MSG_SHUTDOWN n)
  then show ?thesis
    using assms(1,2) rx_ok_other [OF assms(1), of "shutdown l n"]
    by (intro that [of "shutdown l n"])
      (simp_all add: run_command_def msgs_same_def shutdown_def fd_table_ok_def fds_partitioned_def)
qed

lemma msg_handler_ok:
  assumes ok: "listener_ok l" and i: "i \<in> msgs_owned l" "i \<notin> set (l_queue l)"
    and cmd: "cmd_ok env l (m_body (l_msgs l ! i))"
  obtains l' where "msg_handler env l i = Some l'" "listener_ok l'" "msgs_owned l' = msgs_owned l - {i}"
    "\<And>j. j \<noteq> i \<Longrightarrow> l_msgs l' ! j = l_msgs l ! j" "l_queue l' = l_queue l"
proof -
  let ?l0 = "l\<lparr>l_is_idle := False\<rparr>"
  let ?body = "m_body (l_msgs l ! i)"
  have "rx_ok ?l0" "fd_table_ok ?l0"
    using ok by (simp_all add: listener_ok_def rx_ok_def rx_pool_ok_def active_ids_def inactive_def
        conns_present_def fd_table_ok_def fds_partitioned_def)
  moreover have "ListenerHelper_FindInfoBySequenceID ?l0 = ListenerHelper_FindInfoBySequenceID l"
    by (simp add: fun_eq_iff ListenerHelper_FindInfoBySequenceID_def)
  then have "cmd_ok env ?l0 ?body" using cmd by (cases ?body) (auto split: option.splits)
  ultimately obtain l1 where l1: "run_command env ?l0 ?body = Some l1" "rx_ok l1" "fd_table_ok l1" "msgs_same ?l0 l1"
    by (rule run_command_ok)
  have m: "l_msgs l1 = l_msgs l" "l_msg_freelist l1 = l_msg_freelist l" "l_msgs_in_use l1 = l_msgs_in_use l"
    "l_queue l1 = l_queue l" using l1(4) by (simp_all add: msgs_same_def)
  have mp: "msg_pool_ok l1" "msgs_owned l1 = msgs_owned l"
    using ok m by (simp_all add: listener_ok_def msg_pool_ok_def msgs_owned_def)
  obtain l' where l': "ListenerTask_ReleaseMsg l1 i = Some l'" "msg_pool_ok l'"
    "msgs_owned l' = msgs_owned l1 - {i}" "l' = (msg_push l1 i)\<lparr>l_msgs_in_use := l_msgs_in_use l1 - 1\<rparr>"
    by (rule ReleaseMsg_ok [OF mp(1)]) (use i mp in auto)
  have ft: "fd_table_ok l'"
    using l1(3) by (simp add: l'(4) msg_push_def upd_msg_def fd_table_ok_def fds_partitioned_def)
  have "rx_ok l'" by (rule rx_ok_other [OF l1(2) ft]) (simp_all add: l'(4) msg_push_def upd_msg_def)
  moreover have q: "l_queue l' = l_queue l" using m by (simp add: l'(4) msg_push_def upd_msg_def)
  moreover have "queue_ok l'"
    using ok i q l'(3) mp(2) by (auto simp: listener_ok_def queue_ok_def)
  ultimately have "listener_ok l'" using ft l'(2) by (simp add: listener_ok_def)
  moreover have "i < length (l_msgs l)" using ok i by (simp add: listener_ok_def msg_pool_ok_def msgs_owned_def)
  then have "msg_handler env l i = Some l'" using l1(1) l'(1) by (simp add: msg_handler_def)
  moreover have "l_msgs l' ! j = l_msgs l ! j" if "j \<noteq> i" for j
    using that m by (simp add: l'(4) msg_push_def upd_msg_def)
  ultimately show ?thesis using that l'(3) mp(2) q by simp
qed

text \<open>C12: executing a well-formed command from the queue keeps every invariant of the
  listener (receive records, socket table, message pool, queue), fails no assertion, and
  returns its message, and only that one, to the pool.\<close>
theorem command_keeps_listener_ok:
  assumes "listener_ok l" "i \<in> msgs_owned l" "i \<notin> set (l_queue l)" "cmd_ok env l (m_body (l_msgs l ! i))"
  shows "\<exists>l'. msg_handler env l i = Some l' \<and> listener_ok l' \<and> msgs_owned l' = msgs_owned l - {i} \<and>
     l_queue l' = l_queue l"
  by (rule msg_handler_ok [OF assms]) blast

section \<open>Instances\<close>

definition ex_ci :: "nat connection_info" where
  "ex_ci = \<lparr>ci_fd = 5, ci_type = BUS_SOCKET_PLAIN, ci_udata = 0, ci_ssl = None,
     ci_largest_wr_seq_id_seen = BUS_NO_SEQ_ID, ci_error = RX_ERROR_NONE, ci_to_read_size = 0\<rparr>"

lemma ex_env_simps:
  "env_sink ex_env u [] = Some (u, 4, None)" "env_notify ex_env n = []" "env_realloc ex_env k"
  "fst (env_pool ex_env tr b)" "env_ts ex_env i"
  by (simp_all add: ex_env_def)

lemma no_sockets: "l_tracked_fds l = 0 \<Longrightarrow> sockets l = {}"
  by (simp add: sockets_def)

lemma ex_fd_table: "fd_table_ok ex_listener"
  using ex_listener_ok by (simp add: fd_table_ok_def fds_partitioned_def)

lemma ex_listener_listener_ok: "listener_ok ex_listener"
proof -
  have "info_ok (rx_state (l_rx_info ex_listener ! i))" if "i < MAX_PENDING_MESSAGES" for i
    using that active_iff [OF that, of ex_listener] ex_listener_ok(3) by simp
  then show ?thesis
    using ex_listener_ok ex_fd_table fd_table_conns [OF ex_fd_table]
    by (simp add: listener_ok_def rx_ok_def queue_ok_def)
qed

lemma add_socket_updates_table_witness:
  "\<exists>l'. add_socket ex_env ex_listener ex_ci 11 = Some l' \<and> fd_table_ok l' \<and>
     sockets l' = (if l_tracked_fds ex_listener = MAX_FDS \<or> ci_fd ex_ci \<in> fst ` sockets ex_listener
                   then sockets ex_listener
                   else insert (ci_fd ex_ci, True, Some (primed ex_ci 0 4)) (sockets ex_listener))"
  by (rule add_socket_updates_table [OF ex_fd_table]) (simp_all add: ex_env_simps ex_ci_def)

definition ex_one_socket :: "nat listener" where
  "ex_one_socket = the (add_socket ex_env ex_listener ex_ci 11)"

lemma ex_one_socket_ok:
  "fd_table_ok ex_one_socket" "sockets ex_one_socket = {(5, True, Some (primed ex_ci 0 4))}"
proof -
  have ci: "ci_fd ex_ci = 5" "ci_udata ex_ci = 0" by (simp_all add: ex_ci_def)
  have "l_tracked_fds ex_listener < MAX_FDS" "ci_fd ex_ci \<notin> fst ` sockets ex_listener"
    using ex_listener_ok(5) by (simp_all add: no_sockets)
  then have "\<exists>l'. add_socket ex_env ex_listener ex_ci 11 = Some l' \<and> fd_table_ok l' \<and>
      sockets l' = insert (5, True, Some (primed ex_ci 0 4)) (sockets ex_listener)"
    by (rule add_socket_table [OF ex_fd_table, of ex_ci ex_env 0 4 11]) (auto simp: ex_env_simps ci)
  then show "fd_table_ok ex_one_socket" "sockets ex_one_socket = {(5, True, Some (primed ex_ci 0 4))}"
    using ex_listener_ok(5) by (auto simp: ex_one_socket_def no_sockets)
qed

lemma remove_socket_updates_table_witness:
  "\<exists>l'. remove_socket ex_env ex_one_socket 5 11 = Some l' \<and> fd_table_ok l' \<and>
     sockets l' = sockets ex_one_socket - {r. fst r = 5}"
  by (rule remove_socket_updates_table [OF ex_one_socket_ok(1)]) (simp add: ex_env_simps)

lemma add_socket_keeps_freed_record_witness:
  "\<exists>l'. add_socket (ex_env\<lparr>env_realloc := \<lambda>n. False\<rparr>) ex_listener ex_ci 11 = Some l' \<and>
     Freed_ci (ci_fd ex_ci) \<in> set (l_trace l') \<and>
     (ci_fd ex_ci, True, Some (primed ex_ci 0 4)) \<in> sockets l'"
  by (rule add_socket_keeps_freed_record [OF ex_fd_table])
    (use ex_listener_ok in \<open>simp_all add: ex_env_def ex_ci_def no_sockets ex_listener_buf\<close>)

definition ex_held_waiting :: "nat listener" where
  "ex_held_waiting = upd_info 0 (\<lambda>r. r\<lparr>rx_state := RIS_HOLD (new_hold 5 7)\<rparr>) ex_held"

lemma ex_held_waiting_ok:
  "rx_ok ex_held_waiting" "rx_state (l_rx_info ex_held_waiting ! 0) = RIS_HOLD (new_hold 5 7)"
  "ListenerHelper_FindInfoBySequenceID ex_held_waiting 5 7 = Some 0"
proof -
  note ok = rx_okD [OF ex_held_rx_ok]
  have a: "0 \<in> active_ids ex_held" by (simp add: ex_held_ok)
  note len = active_less [OF ok(1) a]
  have "rx_pool_ok ex_held_waiting" unfolding ex_held_waiting_def by (rule rx_pool_ok_upd [OF ok(1) a]) simp_all
  then show "rx_ok ex_held_waiting"
    using ok len by (auto simp: rx_ok_def ex_held_waiting_def upd_info_nth new_hold_def)
  show st: "rx_state (l_rx_info ex_held_waiting ! 0) = RIS_HOLD (new_hold 5 7)"
    using len by (simp add: ex_held_waiting_def upd_info_nth)
  show "ListenerHelper_FindInfoBySequenceID ex_held_waiting 5 7 = Some 0"
    using st by (simp add: ListenerHelper_FindInfoBySequenceID_def new_hold_def upt_conv_Cons del: upt_Suc)
qed

lemma expect_response_matches_hold_witness:
  "\<exists>l'. expect_response ex_env ex_held_waiting (Some ex_box) = Some l' \<and> rx_ok l' \<and>
     (case ListenerHelper_FindInfoBySequenceID ex_held_waiting (bx_fd ex_box) (bx_out_seq_id ex_box) of
        None \<Rightarrow> l' = ex_held_waiting
      | Some i \<Rightarrow> \<exists>evs. expect_effect ex_env ex_box (l_rx_info ex_held_waiting ! i) evs (l_rx_info l' ! i) \<and>
          l_trace l' = l_trace ex_held_waiting @ evs \<and>
          (\<forall>j. j \<noteq> i \<longrightarrow> l_rx_info l' ! j = l_rx_info ex_held_waiting ! j))"
  by (rule expect_response_matches_hold [OF ex_held_waiting_ok(1)])
    (use ex_held_waiting_ok in \<open>auto simp: ex_box_def sent_ok_def\<close>)

text \<open>A listener with one queued command that has just been read from the pipe.\<close>

definition ex_queued :: "nat listener" where
  "ex_queued = (case ListenerHelper_GetFreeMsg ex_listener of
     Some (Some i, l) \<Rightarrow> upd_msg i (\<lambda>m. m\<lparr>m_body := MSG_HOLD_RESPONSE 5 7 15 11\<rparr>) l | _ \<Rightarrow> ex_listener)"

lemma ex_queued_ok: "listener_ok ex_queued" "31 \<in> msgs_owned ex_queued" "31 \<notin> set (l_queue ex_queued)"
  "cmd_ok ex_env ex_queued (m_body (l_msgs ex_queued ! 31))"
proof -
  let ?f = "\<lambda>m :: nat listener_msg. m\<lparr>m_body := MSG_HOLD_RESPONSE 5 7 15 11\<rparr>"
  obtain l' where l': "ListenerHelper_GetFreeMsg ex_listener = Some (Some 31, l')"
    "l' = ex_listener\<lparr>l_msg_freelist := msg_nxt ex_listener 31, l_msgs_in_use := l_msgs_in_use ex_listener + 1,
       l_trace := l_trace l'\<rparr>"
    "msg_pool_ok (upd_msg 31 ?f l')" "msgs_owned (upd_msg 31 ?f l') = insert 31 (msgs_owned ex_listener)"
    using msg_reserve [OF ex_listener_ok(2) ex_msg_freelist, of "MSG_HOLD_RESPONSE 5 7 15 11"] by blast
  have e: "ex_queued = upd_msg 31 ?f l'" by (simp add: ex_queued_def l'(1))
  have q: "l_queue ex_queued = []" unfolding e by (subst l'(2)) (simp add: upd_msg_def ex_listener_ok)
  have ft: "fd_table_ok ex_queued"
    unfolding e by (subst l'(2)) (use ex_fd_table in \<open>simp add: upd_msg_def fd_table_ok_def fds_partitioned_def\<close>)
  have "rx_ok ex_listener" using ex_listener_listener_ok by (simp add: listener_ok_def)
  then have "rx_ok ex_queued"
    by (rule rx_ok_other [OF _ ft]) (unfold e, (subst l'(2), simp add: upd_msg_def)+)
  then show "listener_ok ex_queued" using ft l'(3) q by (simp add: listener_ok_def queue_ok_def e)
  show "31 \<in> msgs_owned ex_queued" "31 \<notin> set (l_queue ex_queued)" using l'(4) q by (simp_all add: e)
  have "msg_sized l'" using l'(3) by (simp add: msg_pool_ok_def upd_msg_def)
  then have "m_body (l_msgs ex_queued ! 31) = MSG_HOLD_RESPONSE 5 7 15 11"
    by (simp add: e upd_msg_def MAX_QUEUE_MESSAGES_def)
  then show "cmd_ok ex_env ex_queued (m_body (l_msgs ex_queued ! 31))" by (simp add: ex_env_simps)
qed

lemma command_keeps_listener_ok_witness:
  "\<exists>l'. msg_handler ex_env ex_queued 31 = Some l' \<and> listener_ok l' \<and>
     msgs_owned l' = msgs_owned ex_queued - {31} \<and> l_queue l' = l_queue ex_queued"
  by (rule command_keeps_listener_ok [OF ex_queued_ok])

end
