(* ===== verification/Listener_Io.thy ===== *)
theory Listener_Io
  imports Listener_Cmd
begin

text \<open>
  Receiving from sockets (\<^verbatim>\<open>src/lib/bus/listener_io.c\<close>): reading what the protocol asked for,
  sinking it, matching unpacked messages with the receive records, and setting sockets with
  errors aside. What the sockets deliver is an argument: for a plain socket the results of
  successive reads, where a chunk longer than the requested size stays readable, and after
  the listed results \<^verbatim>\<open>EAGAIN\<close>; for an SSL socket the outcomes of \<^verbatim>\<open>SSL_read\<close>, and then
  \<^verbatim>\<open>SSL_ERROR_WANT_READ\<close>.
\<close>

section \<open>Errors on a socket\<close>

definition mark_info :: "int \<Rightarrow> rx_error \<Rightarrow> rx_info \<Rightarrow> rx_info" where
  "mark_info fd er info =
     (case rx_state info of
        RIS_INACTIVE \<Rightarrow> info
      | RIS_HOLD h \<Rightarrow> info\<lparr>rx_state := RIS_HOLD (h\<lparr>h_error := er\<rparr>)\<rparr>
      | RIS_EXPECT e \<Rightarrow>
          (case e_box e of
             Some box \<Rightarrow> if bx_fd box = fd then info\<lparr>rx_state := RIS_EXPECT (e\<lparr>e_error := er\<rparr>)\<rparr> else info
           | None \<Rightarrow> info))"

definition upd_ci :: "nat \<Rightarrow> ('u connection_info \<Rightarrow> 'u connection_info) \<Rightarrow> 'u listener \<Rightarrow> 'u listener" where
  "upd_ci i f l = l\<lparr>l_fd_info := (l_fd_info l)[i := map_option f (l_fd_info l ! i)]\<rparr>"

definition set_error_for_socket :: "'u listener \<Rightarrow> nat \<Rightarrow> int \<Rightarrow> rx_error \<Rightarrow> 'u listener" where
  "set_error_for_socket l i fd er =
     (let n = Suc (l_rx_info_max_used l);
          l1 = l\<lparr>l_error_occured := True,
                 l_rx_info := map (mark_info fd er) (take n (l_rx_info l)) @ drop n (l_rx_info l)\<rparr>
      in upd_ci i (\<lambda>ci. ci\<lparr>ci_error := er\<rparr>) l1)"

text \<open>One round of the loop that sets errored sockets aside.\<close>

definition set_aside :: "'u listener \<Rightarrow> nat \<Rightarrow> 'u listener option" where
  "set_aside l i =
     do { let l1 = l\<lparr>l_fds := (l_fds l)[i := (l_fds l ! i)\<lparr>pfd_events_in := False\<rparr>]\<rparr>;
          let last_active = l_tracked_fds l1 - l_inactive_fds l1 - 1;
          l2 \<leftarrow> (if i \<noteq> last_active then
                   do { c_assert (pfd_fd (l_fds l1 ! last_active) \<noteq> pfd_fd (l_fds l1 ! i));
                        Some (swap l1 i last_active) }
                 else Some l1);
          let l3 = l2\<lparr>l_inactive_fds := l_inactive_fds l2 + 1\<rparr>;
          c_assert (l_inactive_fds l3 \<le> l_tracked_fds l3);
          Some l3 }"

lemma set_aside_progress:
  "set_aside l i = Some l' \<Longrightarrow> l_tracked_fds l' = l_tracked_fds l \<and> l_inactive_fds l' = Suc (l_inactive_fds l)"
  by (auto simp: set_aside_def Let_def bind_Some_iff c_assert_def split: if_splits)

function move_loop :: "nat \<Rightarrow> 'u listener \<Rightarrow> 'u listener option" where
  "move_loop i l =
     (if i + l_inactive_fds l < l_tracked_fds l then
        (case l_fd_info l ! i of
           None \<Rightarrow> None
         | Some ci \<Rightarrow>
             if rx_error_code (ci_error ci) < 0 \<and> pfd_events_in (l_fds l ! i) then
               (case set_aside l i of None \<Rightarrow> None | Some l' \<Rightarrow> move_loop (Suc i) l')
             else move_loop (Suc i) l)
      else Some l)"
  by pat_completeness auto
termination
  by (relation "measure (\<lambda>(i, l). l_tracked_fds l - l_inactive_fds l - i)") (auto dest!: set_aside_progress)

declare move_loop.simps [simp del]

definition move_errored_active_sockets_to_end :: "'u listener \<Rightarrow> 'u listener option" where
  "move_errored_active_sockets_to_end l = move_loop 0 l"

section \<open>Messages\<close>

text \<open>In the state \<^verbatim>\<open>RIS_EXPECT\<close> the code checks \<^verbatim>\<open>u.hold.has_result\<close>, the byte
  \<^verbatim>\<open>u.expect.result.ok\<close> lies on.\<close>

definition process_unpacked_message ::
  "('u, 'm) env \<Rightarrow> 'u listener \<Rightarrow> int \<Rightarrow> bus_unpack_res \<Rightarrow> 'u listener option" where
  "process_unpacked_message env l fd result =
     (if ur_ok result then
        (case ListenerHelper_FindInfoBySequenceID l fd (ur_seq_id result) of
           Some i \<Rightarrow>
             (case rx_state (l_rx_info l ! i) of
                RIS_HOLD h \<Rightarrow>
                  do { c_assert (\<not> h_has_result h);
                       Some (upd_info i (\<lambda>r. r\<lparr>rx_state :=
                          RIS_HOLD (h\<lparr>h_has_result := True, h_result := result\<rparr>)\<rparr>) l) }
              | RIS_EXPECT e \<Rightarrow>
                  do { c_assert (\<not> ur_ok (e_result e));
                       ListenerTask_AttemptDelivery env
                         (set_expect i (e\<lparr>e_error := RX_ERROR_READY_FOR_DELIVERY,
                                          e_has_result := True, e_result := result\<rparr>) l) i }
              | RIS_INACTIVE \<Rightarrow> None)
         | None \<Rightarrow>
             Some (if env_unexpected_cb env
                   then emit (Unexpected_msg (ur_msg result) (ur_seq_id result)) l else l))
      else Some (emit (Error_cb (ur_msg result)) l))"

definition sink_socket_read :: "('u, 'm) env \<Rightarrow> 'u listener \<Rightarrow> nat \<Rightarrow> u8 list \<Rightarrow> 'u listener option" where
  "sink_socket_read env l i bytes =
     do { ci \<leftarrow> l_fd_info l ! i;
          (u, next_read, full_msg_buffer) \<leftarrow> env_sink env (ci_udata ci) bytes;
          let l1 = upd_ci i (\<lambda>c. c\<lparr>ci_udata := u\<rparr>) l;
          l2 \<leftarrow> (case full_msg_buffer of
                   Some m \<Rightarrow> process_unpacked_message env l1 (ci_fd ci) (env_unpack env m u)
                 | None \<Rightarrow> Some l1);
          let l3 = upd_ci i (\<lambda>c. c\<lparr>ci_to_read_size := next_read\<rparr>) l2;
          if next_read > l_read_buf_size l3 then
            do { let (ok, l4) = ListenerTask_GrowReadBuf env l3 next_read;
                 c_assert ok;
                 Some l4 }
          else Some l3 }"

section \<open>Reading\<close>

datatype sock_read = SR_DATA "u8 list" | SR_EAGAIN | SR_RESUMABLE | SR_FAIL

definition to_read :: "'u listener \<Rightarrow> nat \<Rightarrow> nat" where
  "to_read l i = (case l_fd_info l ! i of None \<Rightarrow> 0 | Some ci \<Rightarrow> unat (ci_to_read_size ci))"

fun read_size :: "sock_read list \<Rightarrow> nat" where
  "read_size [] = 0"
| "read_size (SR_DATA bs # rs) = Suc (length bs) + read_size rs"
| "read_size (r # rs) = Suc (read_size rs)"

function (sequential) socket_read_plain ::
  "('u, 'm) env \<Rightarrow> nat \<Rightarrow> int \<Rightarrow> sock_read list \<Rightarrow> int \<Rightarrow> 'u listener \<Rightarrow> (int \<times> 'u listener) option" where
  "socket_read_plain env i fd [] accum l = Some (accum, l)"
| "socket_read_plain env i fd (r # rs) accum l =
     (if to_read l i = 0 then Some (accum, l)
      else case r of
        SR_EAGAIN \<Rightarrow> Some (accum, l)
      | SR_RESUMABLE \<Rightarrow> socket_read_plain env i fd rs accum l
      | SR_FAIL \<Rightarrow> Some (-1, set_error_for_socket l i fd RX_ERROR_READ_FAILURE)
      | SR_DATA bs \<Rightarrow>
          if bs = [] then Some (accum, l)
          else if length bs \<le> to_read l i then
            (case sink_socket_read env l i bs of
               None \<Rightarrow> None
             | Some l1 \<Rightarrow> socket_read_plain env i fd rs (accum + int (length bs)) l1)
          else
            (case sink_socket_read env l i (take (to_read l i) bs) of
               None \<Rightarrow> None
             | Some l1 \<Rightarrow>
                 socket_read_plain env i fd (SR_DATA (drop (to_read l i) bs) # rs)
                   (accum + int (to_read l i)) l1))"
  by pat_completeness auto
termination
proof (relation "measure (\<lambda>(env, i, fd, rs, accum, l). read_size rs)", goal_cases)
  case (2 env i fd r rs accum l)
  then show ?case by (cases r) simp_all
qed auto

datatype ssl_read =
    SSL_DATA "u8 list" | SSL_WANT_READ | SSL_WANT_WRITE | SSL_SYSCALL_RESUMABLE | SSL_SYSCALL_NO_ERRNO
  | SSL_SYSCALL_FAIL | SSL_ZERO_RETURN | SSL_UNKNOWN

fun ssl_size :: "ssl_read list \<Rightarrow> nat" where
  "ssl_size [] = 0"
| "ssl_size (SSL_DATA bs # rs) = Suc (length bs) + ssl_size rs"
| "ssl_size (r # rs) = Suc (ssl_size rs)"

function (sequential) ssl_read_loop ::
  "('u, 'm) env \<Rightarrow> nat \<Rightarrow> int \<Rightarrow> ssl_read list \<Rightarrow> int \<Rightarrow> 'u listener \<Rightarrow> (int \<times> 'u listener) option" where
  "ssl_read_loop env i fd [] accum l = Some (accum, l)"
| "ssl_read_loop env i fd (r # rs) accum l =
     (if to_read l i = 0 then Some (accum, l)
      else case r of
        SSL_WANT_READ \<Rightarrow> Some (accum, l)
      | SSL_WANT_WRITE \<Rightarrow> None
      | SSL_SYSCALL_NO_ERRNO \<Rightarrow> None
      | SSL_SYSCALL_RESUMABLE \<Rightarrow> ssl_read_loop env i fd rs accum l
      | SSL_SYSCALL_FAIL \<Rightarrow> Some (-1, set_error_for_socket l i fd RX_ERROR_READ_FAILURE)
      | SSL_ZERO_RETURN \<Rightarrow> Some (-1, set_error_for_socket l i fd RX_ERROR_POLLHUP)
      | SSL_UNKNOWN \<Rightarrow> None
      | SSL_DATA bs \<Rightarrow>
          if bs = [] then Some (accum, l)
          else
            (let n = min (length bs) (to_read l i);
                 rest = (if length bs \<le> n then rs else SSL_DATA (drop n bs) # rs) in
             case sink_socket_read env l i (take n bs) of
               None \<Rightarrow> None
             | Some l1 \<Rightarrow>
                 if accum + int n = int (to_read l1 i) then Some (accum + int n, l1)
                 else ssl_read_loop env i fd rest (accum + int n) l1))"
  by pat_completeness auto
termination
proof (relation "measure (\<lambda>(env, i, fd, rs, accum, l). ssl_size rs)", goal_cases)
  case (2 env i fd r rs accum l)
  then show ?case by (cases r) simp_all
qed (auto simp: min_def)

declare socket_read_plain.simps(2) [simp del] ssl_read_loop.simps(2) [simp del]

definition socket_read_ssl ::
  "('u, 'm) env \<Rightarrow> nat \<Rightarrow> int \<Rightarrow> ssl_read list \<Rightarrow> 'u listener \<Rightarrow> (int \<times> 'u listener) option" where
  "socket_read_ssl env i fd rs l =
     do { ci \<leftarrow> l_fd_info l ! i;
          c_assert (ci_ssl ci \<noteq> None);
          ssl_read_loop env i fd rs 0 l }"

section \<open>Polling results\<close>

text \<open>\<^verbatim>\<open>is_closing\<close> looks for error bits in the requested events, where only \<^verbatim>\<open>POLLIN\<close> is
  ever stored, so the read is done once.\<close>

definition recv_one ::
  "('u, 'm) env \<Rightarrow> (int \<Rightarrow> sock_read list) \<Rightarrow> (int \<Rightarrow> ssl_read list) \<Rightarrow> nat \<Rightarrow> int \<times> 'u listener
     \<Rightarrow> (int \<times> 'u listener) option" where
  "recv_one env plain ssl i st =
     (let (read_from, l) = st; pfd = l_fds l ! i; ev = pfd_revents pfd in
      do { ci \<leftarrow> l_fd_info l ! i;
           c_assert (ci_fd ci = pfd_fd pfd);
           (read_from1, l1) \<leftarrow>
             (if POLLIN ev then
                do { c_assert (ci_to_read_size ci \<le> l_read_buf_size l);
                     (cur_read, l1) \<leftarrow>
                       (case ci_type ci of
                          BUS_SOCKET_PLAIN \<Rightarrow> socket_read_plain env i (ci_fd ci) (plain (ci_fd ci)) 0 l
                        | BUS_SOCKET_SSL \<Rightarrow> socket_read_ssl env i (ci_fd ci) (ssl (ci_fd ci)) l);
                     Some (read_from + 1, l1) }
              else Some (read_from, l));
           Some (if POLLERR ev \<or> POLLNVAL ev
                 then (read_from1 + 1, set_error_for_socket l1 i (ci_fd ci) RX_ERROR_POLLERR)
                 else if POLLHUP ev
                 then (read_from1 + 1, set_error_for_socket l1 i (ci_fd ci) RX_ERROR_POLLHUP)
                 else (read_from1, l1)) })"

fun recv_loop ::
  "('u, 'm) env \<Rightarrow> (int \<Rightarrow> sock_read list) \<Rightarrow> (int \<Rightarrow> ssl_read list) \<Rightarrow> int \<Rightarrow> nat list \<Rightarrow> int \<times> 'u listener
     \<Rightarrow> 'u listener option" where
  "recv_loop env plain ssl available [] (read_from, l) = Some l"
| "recv_loop env plain ssl available (i # is) (read_from, l) =
     (if read_from = available then Some l
      else do { st \<leftarrow> recv_one env plain ssl i (read_from, l);
                recv_loop env plain ssl available is st })"

definition ListenerIO_AttemptRecv ::
  "('u, 'm) env \<Rightarrow> (int \<Rightarrow> sock_read list) \<Rightarrow> (int \<Rightarrow> ssl_read list) \<Rightarrow> 'u listener \<Rightarrow> int \<Rightarrow> 'u listener option" where
  "ListenerIO_AttemptRecv env plain ssl l available =
     do { l1 \<leftarrow> recv_loop env plain ssl available [0..<l_tracked_fds l] (0, l);
          if l_error_occured l1 then
            do { l2 \<leftarrow> move_errored_active_sockets_to_end l1;
                 Some (l2\<lparr>l_error_occured := False\<rparr>) }
          else Some l1 }"

section \<open>Setting errored sockets aside\<close>

text \<open>The row of a socket that is no longer polled.\<close>

definition off :: "int set \<Rightarrow> int \<times> bool \<times> 'u connection_info option \<Rightarrow> int \<times> bool \<times> 'u connection_info option" where
  "off D r = (fst r, fst (snd r) \<and> fst r \<notin> D, snd (snd r))"

lemma off_simps [simp]:
  "fst (off D r) = fst r" "fst (snd (off D r)) = (fst (snd r) \<and> fst r \<notin> D)" "snd (snd (off D r)) = snd (snd r)"
  "off D (off D' r) = off (D \<union> D') r" "off {} r = r"
  by (simp_all add: off_def conj_ac)

text \<open>Only the socket table differs.\<close>

definition fd_frame :: "'u listener \<Rightarrow> 'u listener \<Rightarrow> bool" where
  "fd_frame l l' \<longleftrightarrow>
     (\<exists>a b c. l' = l\<lparr>l_fds := a, l_fd_info := b, l_inactive_fds := c\<rparr>)"

lemma fd_frame_refl [simp]: "fd_frame l l"
  unfolding fd_frame_def by (intro exI [of _ "l_fds l"] exI [of _ "l_fd_info l"] exI [of _ "l_inactive_fds l"]) simp

lemma fd_frame_trans: "fd_frame l l' \<Longrightarrow> fd_frame l' l'' \<Longrightarrow> fd_frame l l''"
  unfolding fd_frame_def by (elim exE) (simp, blast)

lemma fd_frameI: "l' = l\<lparr>l_fds := a, l_fd_info := b, l_inactive_fds := c\<rparr> \<Longrightarrow> fd_frame l l'"
  unfolding fd_frame_def by blast

lemma set_aside_table:
  assumes ok: "fd_table_ok l" and i: "i + l_inactive_fds l < l_tracked_fds l"
  obtains l' where "set_aside l i = Some l'" "fd_table_ok l'"
    "sockets l' = off {pfd_fd (l_fds l ! i)} ` sockets l"
    "l_tracked_fds l' = l_tracked_fds l" "l_inactive_fds l' = Suc (l_inactive_fds l)"
    "fd_frame l l'"
proof -
  let ?n = "l_tracked_fds l" and ?k = "l_inactive_fds l" and ?fd = "pfd_fd (l_fds l ! i)"
  let ?a = "?n - ?k - 1"
  have sz: "length (l_fds l) = MAX_FDS" "length (l_fd_info l) = MAX_FDS" "?n \<le> MAX_FDS" "?k \<le> ?n"
    and rok: "rows_ok (row l) ?n ?k" using ok by (simp_all add: fd_table_ok_rows)
  have dist: "pfd_fd (l_fds l ! j) \<noteq> ?fd" if "j < ?n" "j \<noteq> i" for j
    using ok that i by (auto simp: fd_table_ok_def)
  define l1 where "l1 = l\<lparr>l_fds := (l_fds l)[i := (l_fds l ! i)\<lparr>pfd_events_in := False\<rparr>]\<rparr>"
  define l2 where "l2 = (if i \<noteq> ?a then swap l1 i ?a else l1)"
  define l3 where "l3 = l2\<lparr>l_inactive_fds := Suc ?k\<rparr>"
  have r1: "row l1 j = off {?fd} (row l j)" if "j < ?n" for j
    using dist [OF that] sz i by (cases "j = i") (auto simp: l1_def row_def off_def nth_list_update)
  have sw: "swap_ix i ?a j < ?n" if "j < ?n" for j using that i by (auto simp: swap_ix_def)
  have r3: "row l3 j = off {?fd} (row l (swap_ix i ?a j))" if "j < ?n" for j
  proof -
    have "row l2 j = row l1 (swap_ix i ?a j)"
      using sz i by (auto simp: l2_def row_swap l1_def swap_ix_def)
    then show ?thesis using r1 [OF sw [OF that]] by (simp add: l3_def row_def)
  qed
  have tr: "l_tracked_fds l3 = ?n" "l_inactive_fds l3 = Suc ?k" "length (l_fds l3) = MAX_FDS"
    "length (l_fd_info l3) = MAX_FDS"
    using sz by (simp_all add: l3_def l2_def l1_def swap_def)
  have img: "swap_ix i ?a ` {..<?n} = {..<?n}" by (rule swap_ix_image) (use i in auto)
  have a: "set_aside l i = Some l3"
    using dist [of ?a] i sz
    by (simp add: set_aside_def Let_def l3_def l2_def l1_def nth_list_update split: if_splits)
  have "inj_on (swap_ix i ?a) {..<?n}" by (rule eq_card_imp_inj_on) (simp_all only: img finite_lessThan)
  then have "inj_on ((fst \<circ> row l) \<circ> swap_ix i ?a) {..<?n}"
    using rok by (intro comp_inj_on [where f = "swap_ix i ?a"]) (simp_all only: img rows_ok_def)
  moreover have "inj_on (fst \<circ> row l3) {..<?n} = inj_on ((fst \<circ> row l) \<circ> swap_ix i ?a) {..<?n}"
    by (rule inj_on_cong) (simp add: r3)
  moreover have "fst (snd (row l3 j)) \<longleftrightarrow> j + Suc ?k < ?n" if "j < ?n" for j
  proof -
    have "fst (snd (row l3 j)) \<longleftrightarrow> swap_ix i ?a j + ?k < ?n \<and> swap_ix i ?a j \<noteq> i"
      using r3 [OF that] rok sw [OF that] dist [OF sw [OF that]]
      by (cases "swap_ix i ?a j = i") (auto simp: rows_ok_def row_def)
    also have "\<dots> \<longleftrightarrow> j + Suc ?k < ?n" using that i by (auto simp: swap_ix_def)
    finally show ?thesis .
  qed
  moreover have "\<exists>ci. snd (snd (row l3 j)) = Some ci \<and> ci_fd ci = fst (row l3 j)" if "j < ?n" for j
    using r3 [OF that] rok sw [OF that] by (simp add: rows_ok_def)
  ultimately have "rows_ok (row l3) ?n (Suc ?k)" by (simp add: rows_ok_def)
  then have tok: "fd_table_ok l3" using tr sz i by (simp add: fd_table_ok_rows)
  have "sockets l3 = off {?fd} ` row l ` swap_ix i ?a ` {..<?n}"
    by (auto simp: sockets_def tr r3 image_image)
  then have so: "sockets l3 = off {?fd} ` sockets l" by (simp only: img sockets_def)
  show ?thesis
    by (rule that [OF a tok so tr(1,2)],
        rule fd_frameI [where a = "l_fds l3" and b = "l_fd_info l3" and c = "l_inactive_fds l3"])
      (simp add: l3_def l2_def l1_def swap_def)
qed

text \<open>Polled sockets whose connection has an error.\<close>

definition errored :: "(int \<times> bool \<times> 'u connection_info option) set \<Rightarrow> int set" where
  "errored S = {fd. \<exists>ci. (fd, True, Some ci) \<in> S \<and> rx_error_code (ci_error ci) < 0}"

lemma errored_off: "errored (off D ` S) = errored S - D"
  by (force simp: errored_def off_def image_iff)

lemma move_loop_table:
  assumes "fd_table_ok l"
  shows "\<exists>l' D. move_loop i l = Some l' \<and> fd_table_ok l' \<and> sockets l' = off D ` sockets l \<and>
     D \<subseteq> errored (sockets l) \<and>
     (\<forall>j. i \<le> j \<and> j + l_inactive_fds l < l_tracked_fds l \<and> pfd_fd (l_fds l ! j) \<in> errored (sockets l)
        \<longrightarrow> D \<noteq> {}) \<and>
     fd_frame l l'"
  using assms
proof (induction i l rule: move_loop.induct)
  case (1 i l)
  show ?case
  proof (cases "i + l_inactive_fds l < l_tracked_fds l")
    case False
    then show ?thesis
      using 1(3) by (intro exI [of _ l] exI [of _ "{}"]) (auto simp: move_loop.simps)
  next
    case True
    then have "i < l_tracked_fds l" by simp
    then obtain ci where ci: "l_fd_info l ! i = Some ci" "ci_fd ci = pfd_fd (l_fds l ! i)"
      using 1(3) unfolding fd_table_ok_def by blast
    have pol: "pfd_events_in (l_fds l ! i)" using 1(3) True by (auto simp: fd_table_ok_def fds_partitioned_def)
    have mem: "(pfd_fd (l_fds l ! i), True, Some ci) \<in> sockets l"
      using True ci pol by (force simp: sockets_def row_def)
    have uniq: "c = ci" if "(pfd_fd (l_fds l ! i), True, Some c) \<in> sockets l" for c
    proof -
      from that obtain x where x: "x < l_tracked_fds l" "pfd_fd (l_fds l ! x) = pfd_fd (l_fds l ! i)"
        "l_fd_info l ! x = Some c" by (auto simp: sockets_def row_def)
      then have "x = i" using 1(3) \<open>i < l_tracked_fds l\<close> unfolding fd_table_ok_def by blast
      with x ci show ?thesis by simp
    qed
    show ?thesis
    proof (cases "rx_error_code (ci_error ci) < 0")
      case err: True
      let ?D = "{pfd_fd (l_fds l ! i)}"
      obtain l1 where l1: "set_aside l i = Some l1" "fd_table_ok l1" "sockets l1 = off ?D ` sockets l"
        and fr: "fd_frame l l1"
        by (rule set_aside_table [OF 1(3) True])
      obtain l' D where l': "move_loop (Suc i) l1 = Some l'" "fd_table_ok l'" "sockets l' = off D ` sockets l1"
        "D \<subseteq> errored (sockets l1)"
        "fd_frame l1 l'"
        using 1(1) [OF True ci(1) conjI [OF err pol] l1(1,2)] by (elim exE conjE)
      have "move_loop i l = Some l'" using True ci err pol l1(1) l'(1) by (subst move_loop.simps) simp
      moreover have "sockets l' = off (D \<union> ?D) ` sockets l" by (simp add: l'(3) l1(3) image_image Un_commute)
      moreover have "D \<union> ?D \<subseteq> errored (sockets l)"
        using l'(4) mem err by (auto simp: l1(3) errored_off) (auto simp: errored_def)
      moreover have "fd_frame l l'" using fr l'(5) by (rule fd_frame_trans)
      ultimately show ?thesis using l'(2) by (intro exI [of _ l'] exI [of _ "D \<union> ?D"]) simp
    next
      case False
      then have "move_loop i l = move_loop (Suc i) l" using True ci by (subst move_loop.simps) simp
      moreover have "pfd_fd (l_fds l ! i) \<notin> errored (sockets l)"
        using False uniq by (auto simp: errored_def)
      ultimately show ?thesis
        using 1(2) [OF True ci(1) _ 1(3)] False by (metis (no_types, lifting) le_antisym not_less_eq_eq)
    qed
  qed
qed

text \<open>after a poll round in which sockets failed, setting them aside returns without failing
  an assertion and keeps the socket table well formed; only sockets with an error stop being
  polled, every socket keeps its connection record, and at least one is set aside when one
  has failed (so exactly the failed one when only one has).\<close>
theorem errored_sockets_set_aside:
  assumes "fd_table_ok l"
  shows "\<exists>l' D. move_errored_active_sockets_to_end l = Some l' \<and> fd_table_ok l' \<and>
     sockets l' = off D ` sockets l \<and> D \<subseteq> errored (sockets l) \<and>
     (errored (sockets l) \<noteq> {} \<longrightarrow> D \<noteq> {})"
proof -
  have "\<exists>j. 0 \<le> j \<and> j + l_inactive_fds l < l_tracked_fds l \<and> pfd_fd (l_fds l ! j) \<in> errored (sockets l)"
    if "errored (sockets l) \<noteq> {}"
  proof -
    from that obtain fd where fd: "fd \<in> errored (sockets l)" by blast
    then obtain j where "j < l_tracked_fds l" "pfd_fd (l_fds l ! j) = fd" "pfd_events_in (l_fds l ! j)"
      by (auto simp: errored_def sockets_def row_def)
    then show ?thesis using fd assms by (auto simp: fd_table_ok_def fds_partitioned_def)
  qed
  moreover obtain l' D where l': "move_loop 0 l = Some l'" "fd_table_ok l'" "sockets l' = off D ` sockets l"
    "D \<subseteq> errored (sockets l)"
    "\<And>j. 0 \<le> j \<and> j + l_inactive_fds l < l_tracked_fds l \<and> pfd_fd (l_fds l ! j) \<in> errored (sockets l)
        \<Longrightarrow> D \<noteq> {}"
    using move_loop_table [OF assms, of 0] by blast
  ultimately have "errored (sockets l) \<noteq> {} \<longrightarrow> D \<noteq> {}" by blast
  then show ?thesis using l' unfolding move_errored_active_sockets_to_end_def by blast
qed

text \<open>when both of two polled sockets fail in the same round, only the first is set aside: the
  loop swaps the second into the slot it has already passed, so a socket with an error is
  still polled afterwards.\<close>
theorem second_errored_socket_still_polled:
  assumes "fd_table_ok l" "l_tracked_fds l = 2" "l_inactive_fds l = 0"
    "errored (sockets l) = {pfd_fd (l_fds l ! 0), pfd_fd (l_fds l ! 1)}"
  shows "\<exists>l'. move_errored_active_sockets_to_end l = Some l' \<and>
     errored (sockets l') = {pfd_fd (l_fds l ! 1)}"
proof -
  obtain ci where ci: "l_fd_info l ! 0 = Some ci" "pfd_events_in (l_fds l ! 0)"
    using assms(1-3) unfolding fd_table_ok_def fds_partitioned_def by (metis add_0 zero_less_numeral)
  have ne: "pfd_fd (l_fds l ! 0) \<noteq> pfd_fd (l_fds l ! 1)"
    using assms(1,2) unfolding fd_table_ok_def by (metis one_less_numeral_iff semiring_norm(76) zero_less_numeral zero_neq_one)
  have "rx_error_code (ci_error ci) < 0"
  proof -
    from assms(4) obtain c where c: "(pfd_fd (l_fds l ! 0), True, Some c) \<in> sockets l" "rx_error_code (ci_error c) < 0"
      unfolding errored_def by blast
    then obtain x where "x < 2" "pfd_fd (l_fds l ! x) = pfd_fd (l_fds l ! 0)" "l_fd_info l ! x = Some c"
      using assms(2) by (auto simp: sockets_def row_def)
    then show ?thesis using c(2) ci ne by (cases "x = 0") (auto simp: less_2_cases_iff)
  qed
  moreover obtain l1 where l1: "set_aside l 0 = Some l1" "sockets l1 = off {pfd_fd (l_fds l ! 0)} ` sockets l"
    "l_tracked_fds l1 = 2" "l_inactive_fds l1 = 1"
    using set_aside_table [OF assms(1), of 0] assms(2,3) by (metis One_nat_def add_0 zero_less_numeral)
  ultimately have "move_loop 0 l = Some l1"
    using ci assms(2,3) by (simp add: move_loop.simps [of 0] move_loop.simps [of "Suc 0"])
  moreover have "errored (sockets l1) = {pfd_fd (l_fds l ! 1)}"
    using ne assms(4) by (auto simp: l1(2) errored_off)
  ultimately show ?thesis by (simp add: move_errored_active_sockets_to_end_def)
qed

section \<open>Marking pending requests\<close>

lemma mark_info_next [simp]: "rx_next (mark_info fd er r) = rx_next r"
  by (simp add: mark_info_def split: rx_state.split option.split)

lemma mark_info_inactive [simp]:
  "rx_state (mark_info fd er r) = RIS_INACTIVE \<longleftrightarrow> rx_state r = RIS_INACTIVE"
  by (simp add: mark_info_def split: rx_state.split option.split)

lemma set_error_nth:
  assumes "rx_pool_ok l" "j < MAX_PENDING_MESSAGES"
  shows "l_rx_info (set_error_for_socket l i fd er) ! j = mark_info fd er (l_rx_info l ! j)"
proof (cases "j \<le> l_rx_info_max_used l")
  case True
  then show ?thesis
    using assms by (simp add: set_error_for_socket_def Let_def upd_ci_def rx_pool_ok_def nth_append)
next
  case False
  then have "rx_state (l_rx_info l ! j) = RIS_INACTIVE"
    using assms by (auto simp: rx_pool_ok_def active_ids_def inactive_def)
  then show ?thesis
    using assms False
    by (simp add: set_error_for_socket_def Let_def upd_ci_def rx_pool_ok_def nth_append mark_info_def)
qed

lemma set_error_fields:
  "l_trace (set_error_for_socket l i fd er) = l_trace l"
  "l_rx_info_freelist (set_error_for_socket l i fd er) = l_rx_info_freelist l"
  "l_rx_info_in_use (set_error_for_socket l i fd er) = l_rx_info_in_use l"
  "l_rx_info_max_used (set_error_for_socket l i fd er) = l_rx_info_max_used l"
  "length (l_rx_info (set_error_for_socket l i fd er)) = length (l_rx_info l)"
  by (simp_all add: set_error_for_socket_def Let_def upd_ci_def)

lemma conns_upd_ci: "conns_present l \<Longrightarrow> conns_present (upd_ci i f l)"
  by (cases "i < length (l_fd_info l)")
    (auto simp: conns_present_def upd_ci_def nth_list_update list_update_beyond)

lemma set_error_rx_ok:
  assumes "rx_ok l" "er \<noteq> RX_ERROR_DONE" "er \<noteq> RX_ERROR_READY_FOR_DELIVERY"
  shows "rx_ok (set_error_for_socket l i fd er)"
proof -
  let ?l = "set_error_for_socket l i fd er"
  note ok = rx_okD [OF assms(1)]
  note nth = set_error_nth [OF ok(1)]
  have act: "active_ids ?l = active_ids l" by (auto simp: active_ids_def inactive_def nth)
  have "chain_ok (rx_nxt ?l) (l_rx_info_freelist ?l) ({..<MAX_PENDING_MESSAGES} - active_ids l)"
    by (rule chain_ok_cong [of "rx_nxt l"])
      (use ok(1) in \<open>auto simp: rx_pool_ok_def set_error_fields nth\<close>)
  then have "rx_pool_ok ?l" using ok(1) act by (simp add: rx_pool_ok_def set_error_fields)
  moreover have "conns_present ?l"
    unfolding set_error_for_socket_def Let_def
    by (rule conns_upd_ci) (use ok(2) in \<open>simp add: conns_present_def\<close>)
  moreover have "info_ok (rx_state (l_rx_info ?l ! j))" if "j < MAX_PENDING_MESSAGES" for j
    using ok(3) [OF that] assms(2,3)
    by (auto simp: nth [OF that] mark_info_def split: rx_state.split option.split)
  ultimately show ?thesis by (simp add: rx_ok_def)
qed

text \<open>an error on one socket makes requests on other sockets fail. If another socket's
  request is still held when socket \<open>fd\<close> hangs up, the later expectation for it is answered
  with \<^verbatim>\<open>BUS_SEND_RX_FAILURE\<close>, although its own socket is fine and its response may already
  be there.\<close>
theorem hangup_fails_foreign_request:
  assumes "rx_ok l" "sent_ok box" "bx_fd box \<noteq> fd"
    "ListenerHelper_FindInfoBySequenceID l (bx_fd box) (bx_out_seq_id box) = Some i"
    "rx_state (l_rx_info l ! i) = RIS_HOLD h" "\<forall>tr b. fst (env_pool env tr b)"
  shows "\<exists>l'. expect_response env (set_error_for_socket l s fd RX_ERROR_POLLHUP) (Some box) = Some l' \<and>
     l_trace l' = l_trace l @ [Delivered (box\<lparr>bx_status := BUS_SEND_RX_FAILURE\<rparr>)]"
proof -
  let ?l = "set_error_for_socket l s fd RX_ERROR_POLLHUP"
  note f = FindInfo_sound [OF assms(4) rx_okD(1) [OF assms(1)]]
  note nth = set_error_nth [OF rx_okD(1) [OF assms(1)]]
  have ok: "rx_ok ?l" by (rule set_error_rx_ok [OF assms(1)]) simp_all
  have st: "rx_state (l_rx_info ?l ! i) = RIS_HOLD (h\<lparr>h_error := RX_ERROR_POLLHUP\<rparr>)"
    using assms(5) by (simp add: nth [OF f(1)] mark_info_def)
  have same: "info_matches (l_rx_info ?l ! j) a b = info_matches (l_rx_info l ! j) a b"
    if "j < MAX_PENDING_MESSAGES" for j a b
    by (simp add: nth [OF that] mark_info_def split: rx_state.split option.split)
  have mu: "l_rx_info_max_used l < MAX_PENDING_MESSAGES" using assms(1) by (simp add: rx_ok_def rx_pool_ok_def)
  have "ListenerHelper_FindInfoBySequenceID ?l (bx_fd box) (bx_out_seq_id box) =
        ListenerHelper_FindInfoBySequenceID l (bx_fd box) (bx_out_seq_id box)"
    unfolding ListenerHelper_FindInfoBySequenceID_def set_error_fields
    by (rule find_cong) (use mu same in \<open>auto simp del: info_matches.simps\<close>)
  then have find: "ListenerHelper_FindInfoBySequenceID ?l (bx_fd box) (bx_out_seq_id box) = Some i"
    using assms(4) by simp
  have act: "i \<in> active_ids ?l" using st f(1) by (simp add: active_iff)
  obtain l' evs where l': "expect_response env ?l (Some box) = Some l'" "steps_to ?l i evs l'"
    "expect_effect env box (l_rx_info ?l ! i) evs (l_rx_info l' ! i)"
    by (rule expect_converts [OF ok act st assms(2) find])
  then have "evs = [Delivered (box\<lparr>bx_status := BUS_SEND_RX_FAILURE\<rparr>)]"
    using assms(6) st by (auto simp: expect_effect_def offered_def)
  then show ?thesis using l' by (auto simp: steps_to_def set_error_fields)
qed

section \<open>Matching responses\<close>

text \<open>Specification of a response \<open>res\<close> for the pending record \<open>r\<close>.\<close>

definition response_effect ::
  "('u, 'm) env \<Rightarrow> bus_unpack_res \<Rightarrow> rx_info \<Rightarrow> event list \<Rightarrow> rx_info \<Rightarrow> bool" where
  "response_effect env res r evs r' \<longleftrightarrow>
     (case rx_state r of
        RIS_HOLD h \<Rightarrow> evs = [] \<and> r' = r\<lparr>rx_state := RIS_HOLD (h\<lparr>h_has_result := True, h_result := res\<rparr>)\<rparr>
      | RIS_EXPECT e \<Rightarrow>
          (\<exists>box. e_box e = Some box \<and>
             offered env (box\<lparr>bx_status := BUS_SEND_SUCCESS, bx_response := Some (ur_seq_id res, ur_msg res)\<rparr>) r
               (e\<lparr>e_error := RX_ERROR_READY_FOR_DELIVERY, e_has_result := True, e_result := res\<rparr>) evs r')
      | RIS_INACTIVE \<Rightarrow> False)"

text \<open>The record waits for its first response.\<close>

fun awaiting :: "rx_state \<Rightarrow> bool" where
  "awaiting RIS_INACTIVE = False"
| "awaiting (RIS_HOLD h) = (\<not> h_has_result h)"
| "awaiting (RIS_EXPECT e) = (\<not> ur_ok (e_result e) \<and> (case e_box e of None \<Rightarrow> False | Some box \<Rightarrow> sent_ok box))"

lemma process_matched:
  assumes "rx_ok l" "ur_ok res" "ListenerHelper_FindInfoBySequenceID l fd (ur_seq_id res) = Some i"
    "awaiting (rx_state (l_rx_info l ! i))"
  obtains l' evs where "process_unpacked_message env l fd res = Some l'" "steps_to l i evs l'"
    "response_effect env res (l_rx_info l ! i) evs (l_rx_info l' ! i)"
proof -
  note ok = rx_okD [OF assms(1)]
  note f = FindInfo_sound [OF assms(3) ok(1)]
  note len = active_less [OF ok(1) f(2)]
  show ?thesis
  proof (cases "rx_state (l_rx_info l ! i)")
    case RIS_INACTIVE
    then show ?thesis using assms(4) by simp
  next
    case (RIS_HOLD h)
    let ?f = "\<lambda>r. r\<lparr>rx_state := RIS_HOLD (h\<lparr>h_has_result := True, h_result := res\<rparr>)\<rparr>"
    let ?l' = "upd_info i ?f l"
    have "rx_pool_ok ?l'" by (rule rx_pool_ok_upd [OF ok(1) f(2)]) simp_all
    then have "rx_ok ?l'"
      using ok len assms(2) ok(3) [OF f(1)] RIS_HOLD by (auto simp: rx_ok_def upd_info_nth)
    then have "steps_to l i [] ?l'" using len by (simp add: steps_to_def upd_info_nth)
    moreover have "process_unpacked_message env l fd res = Some ?l'"
      using assms RIS_HOLD by (simp add: process_unpacked_message_def)
    moreover have "response_effect env res (l_rx_info l ! i) [] (l_rx_info ?l' ! i)"
      using RIS_HOLD len by (simp add: response_effect_def upd_info_nth)
    ultimately show ?thesis by (intro that)
  next
    case (RIS_EXPECT e)
    then obtain box where box: "e_box e = Some box" "sent_ok box" "\<not> ur_ok (e_result e)"
      using assms(4) by (auto split: option.splits)
    let ?e = "e\<lparr>e_error := RX_ERROR_READY_FOR_DELIVERY, e_has_result := True, e_result := res\<rparr>"
    let ?b = "complete_box box res"
    have b: "?b = box\<lparr>bx_status := BUS_SEND_SUCCESS, bx_response := Some (ur_seq_id res, ur_msg res)\<rparr>"
      using box(2) by (auto simp: complete_box_def sent_ok_def)
    have st: "bx_status box \<noteq> BUS_SEND_UNDEFINED" using box(2) by (auto simp: sent_ok_def)
    have pool: "rx_pool_ok (set_expect i ?e l)" "conns_present (set_expect i ?e l)"
      "i \<in> active_ids (set_expect i ?e l)" "rx_state (l_rx_info (set_expect i ?e l) ! i) = RIS_EXPECT ?e"
      using set_expect_pool [OF ok(1) f(2)] ok(2) f(2) len by (simp_all add: set_expect_nth)
    obtain evs where evs: "steps_to l i evs (offer True env i ?b ?e l)"
      "offered env ?b (l_rx_info l ! i) ?e evs (l_rx_info (offer True env i ?b ?e l) ! i)"
      by (rule offer_steps [OF assms(1) f(2), where box = ?b and e = ?e and env = env and first = True])
        (auto simp: b)
    have "process_unpacked_message env l fd res = Some (offer True env i ?b ?e l)"
      using AttemptDelivery_eq [OF pool, of box env] RIS_EXPECT box st assms(2,3)
      by (simp add: process_unpacked_message_def offer_set_expect [OF len])
    then show ?thesis using evs(1)
      by (rule that) (use evs(2) RIS_EXPECT box b in \<open>auto simp: response_effect_def\<close>)
  qed
qed


text \<open>a second response to a request that is still held ends the process: the code asserts
  that no result has been saved yet.\<close>
theorem duplicate_response_aborts:
  assumes "rx_ok l" "ur_ok res" "ListenerHelper_FindInfoBySequenceID l fd (ur_seq_id res) = Some i"
    "rx_state (l_rx_info l ! i) = RIS_HOLD h" "\<not> h_has_result h"
  shows "\<exists>l'. process_unpacked_message env l fd res = Some l' \<and> process_unpacked_message env l' fd res = None"
proof -
  note f = FindInfo_sound [OF assms(3) rx_okD(1) [OF assms(1)]]
  note len = active_less [OF rx_okD(1) [OF assms(1)] f(2)]
  let ?h = "h\<lparr>h_has_result := True, h_result := res\<rparr>"
  let ?l' = "upd_info i (\<lambda>r. r\<lparr>rx_state := RIS_HOLD ?h\<rparr>) l"
  have "info_matches (l_rx_info ?l' ! j) a b = info_matches (l_rx_info l ! j) a b" for j a b
    using assms(4) len by (simp add: upd_info_nth)
  then have "ListenerHelper_FindInfoBySequenceID ?l' fd (ur_seq_id res) = Some i"
    using assms(3) by (simp add: ListenerHelper_FindInfoBySequenceID_def del: info_matches.simps upt_Suc)
  moreover have "process_unpacked_message env l fd res = Some ?l'"
    using assms by (simp add: process_unpacked_message_def)
  ultimately show ?thesis using assms(2) len by (simp add: process_unpacked_message_def upd_info_nth)
qed

section \<open>Instances\<close>

lemma errored_sockets_set_aside_witness:
  "\<exists>l' D. move_errored_active_sockets_to_end ex_one_socket = Some l' \<and> fd_table_ok l' \<and>
     sockets l' = off D ` sockets ex_one_socket \<and> D \<subseteq> errored (sockets ex_one_socket) \<and>
     (errored (sockets ex_one_socket) \<noteq> {} \<longrightarrow> D \<noteq> {})"
  by (rule errored_sockets_set_aside [OF ex_one_socket_ok(1)])

definition ex_two_errored :: "nat listener" where
  "ex_two_errored = ex_listener\<lparr>
     l_tracked_fds := 2, l_inactive_fds := 0,
     l_fds := (l_fds ex_listener)[0 := \<lparr>pfd_fd = 5, pfd_events_in = True, pfd_revents = no_revents\<rparr>,
                                  1 := \<lparr>pfd_fd = 6, pfd_events_in = True, pfd_revents = no_revents\<rparr>],
     l_fd_info := (l_fd_info ex_listener)[0 := Some (ex_ci\<lparr>ci_error := RX_ERROR_POLLHUP\<rparr>),
                                          1 := Some (ex_ci\<lparr>ci_fd := 6, ci_error := RX_ERROR_POLLHUP\<rparr>)]\<rparr>"

lemma ex_two_errored_ok:
  "fd_table_ok ex_two_errored" "l_tracked_fds ex_two_errored = 2" "l_inactive_fds ex_two_errored = 0"
  "pfd_fd (l_fds ex_two_errored ! 0) = 5" "pfd_fd (l_fds ex_two_errored ! 1) = 6"
  "errored (sockets ex_two_errored) = {5, 6}"
proof -
  have len: "length (l_fds ex_listener) = 1000" "length (l_fd_info ex_listener) = 1000"
    using ex_listener_ok by (simp_all add: MAX_FDS_def)
  show "fd_table_ok ex_two_errored" "l_tracked_fds ex_two_errored = 2" "l_inactive_fds ex_two_errored = 0"
    "pfd_fd (l_fds ex_two_errored ! 0) = 5" "pfd_fd (l_fds ex_two_errored ! 1) = 6"
    using len by (auto simp: ex_two_errored_def fd_table_ok_def fds_partitioned_def MAX_FDS_def less_2_cases_iff
        ex_ci_def numeral_2_eq_2 less_Suc_eq)
  have two: "{..<2::nat} = {0, 1}" by auto
  show "errored (sockets ex_two_errored) = {5, 6}"
    unfolding sockets_def ex_two_errored_def using len by (auto simp: two errored_def row_def)
qed

lemma second_errored_socket_still_polled_witness:
  "\<exists>l'. move_errored_active_sockets_to_end ex_two_errored = Some l' \<and>
     errored (sockets l') = {pfd_fd (l_fds ex_two_errored ! 1)}"
  by (rule second_errored_socket_still_polled [OF ex_two_errored_ok(1-3)])
    (simp add: ex_two_errored_ok(4-6) del: One_nat_def)

lemma hangup_fails_foreign_request_witness:
  "\<exists>l'. expect_response ex_env (set_error_for_socket ex_held_waiting 0 6 RX_ERROR_POLLHUP) (Some ex_box) = Some l' \<and>
     l_trace l' = l_trace ex_held_waiting @ [Delivered (ex_box\<lparr>bx_status := BUS_SEND_RX_FAILURE\<rparr>)]"
  by (rule hangup_fails_foreign_request [OF ex_held_waiting_ok(1) _ _ _ ex_held_waiting_ok(2)])
    (simp_all add: ex_held_waiting_ok ex_env_simps ex_box_def sent_ok_def)

definition ex_response :: bus_unpack_res where
  "ex_response = \<lparr>ur_ok = True, ur_msg = 42, ur_seq_id = 7\<rparr>"


lemma duplicate_response_aborts_witness:
  "\<exists>l'. process_unpacked_message ex_env ex_held_waiting 5 ex_response = Some l' \<and>
     process_unpacked_message ex_env l' 5 ex_response = None"
  by (rule duplicate_response_aborts [OF ex_held_waiting_ok(1) _ _ ex_held_waiting_ok(2)])
    (simp_all add: ex_response_def ex_held_waiting_ok new_hold_def)

end
