(* ===== verification/Listener.thy ===== *)
theory Listener
  imports Listener_Io
begin

text \<open>
  The listener as a whole: the calls other threads make (\<^verbatim>\<open>src/lib/bus/listener.c\<close>), the thread's
  main loop (\<^verbatim>\<open>ListenerTask_MainLoop\<close>), its destruction, and a step relation over all of
  them with the invariant of every reachable state.
\<close>

section \<open>Calls from client threads\<close>

text \<open>Each call reserves a message, fills it in with the write end of the message's pipe as the
  descriptor to notify, commits it, and hands the read end to the caller. Result: whether the
  command was queued, the descriptor to wait on, the listener.\<close>

definition post_command ::
  "'u listener \<Rightarrow> (int \<Rightarrow> 'u msg_body) \<Rightarrow> write_res list \<Rightarrow> (bool \<times> int option \<times> 'u listener) option" where
  "post_command l body wr =
     do { (msg, l1) \<leftarrow> ListenerHelper_GetFreeMsg l;
          (case msg of
             None \<Rightarrow> Some (False, None, l1)
           | Some i \<Rightarrow>
               do { let pipes = m_pipes (l_msgs l1 ! i);
                    let l2 = upd_msg i (\<lambda>m. m\<lparr>m_body := body (snd pipes)\<rparr>) l1;
                    (ok, l3) \<leftarrow> ListenerHelper_PushMessage l2 i wr;
                    Some (ok, Some (fst pipes), l3) }) }"

definition Listener_AddSocket where
  "Listener_AddSocket l ci wr = post_command l (MSG_ADD_SOCKET ci) wr"

definition Listener_RemoveSocket where
  "Listener_RemoveSocket l fd wr = post_command l (MSG_REMOVE_SOCKET fd) wr"

definition Listener_HoldResponse where
  "Listener_HoldResponse l fd seq_id timeout_sec wr =
     post_command l (MSG_HOLD_RESPONSE fd seq_id timeout_sec) wr"

definition Listener_Shutdown where
  "Listener_Shutdown l wr = post_command l MSG_SHUTDOWN wr"

definition Listener_ExpectResponse ::
  "'u listener \<Rightarrow> boxed_msg \<Rightarrow> write_res list \<Rightarrow> (bool \<times> u16 option \<times> 'u listener) option" where
  "Listener_ExpectResponse l box wr =
     do { (msg, l1) \<leftarrow> ListenerHelper_GetFreeMsg l;
          (case msg of
             None \<Rightarrow> Some (False, None, l1)
           | Some i \<Rightarrow>
               do { let l2 = upd_msg i (\<lambda>m. m\<lparr>m_body := MSG_EXPECT_RESPONSE (Some box)\<rparr>) l1;
                    let backpressure = ListenerTask_GetBackpressure l2;
                    c_assert (bx_status box \<noteq> BUS_SEND_UNDEFINED);
                    (ok, l3) \<leftarrow> ListenerHelper_PushMessage l2 i wr;
                    Some (ok, Some backpressure, l3) }) }"

section \<open>Destruction\<close>

fun free_infos :: "rx_info list \<Rightarrow> event list" where
  "free_infos [] = []"
| "free_infos (r # rs) =
     (case rx_state r of RIS_EXPECT e \<Rightarrow> (if e_box e \<noteq> None then [Freed_box] else []) | _ \<Rightarrow> []) @ free_infos rs"

fun free_msgs :: "('u, 'm) env \<Rightarrow> 'u listener_msg list \<Rightarrow> 'u listener \<Rightarrow> 'u listener option" where
  "free_msgs env [] l = Some l"
| "free_msgs env (m # ms) l =
     do { l1 \<leftarrow> (case m_body m of
                  MSG_ADD_SOCKET ci n \<Rightarrow> ListenerCmd_NotifyCaller env l n
                | MSG_REMOVE_SOCKET fd n \<Rightarrow> ListenerCmd_NotifyCaller env l n
                | MSG_EXPECT_RESPONSE box \<Rightarrow> Some (if box \<noteq> None then emit Freed_box l else l)
                | _ \<Rightarrow> Some l);
          free_msgs env ms (emit (Closed (snd (m_pipes m))) (emit (Closed (fst (m_pipes m))) l1)) }"

text \<open>The result is the final trace; \<open>commit_pipe\<close> is the write end of the command pipe.\<close>

definition Listener_Free :: "('u, 'm) env \<Rightarrow> int \<Rightarrow> 'u listener \<Rightarrow> event list option" where
  "Listener_Free env commit_pipe l =
     do { c_assert (l_shutdown_notify_fd l = LISTENER_SHUTDOWN_COMPLETE_FD);
          let l1 = l\<lparr>l_trace := l_trace l @ free_infos (l_rx_info l)\<rparr>;
          l2 \<leftarrow> free_msgs env (l_msgs l1) l1;
          Some (l_trace l2 @ [Closed commit_pipe, Closed (pfd_fd (l_incoming l))]) }"

section \<open>The main loop\<close>

text \<open>What the outside does in one round: the clock, the outcome of \<^verbatim>\<open>poll\<close>, and what the
  sockets and the command pipe then deliver.\<close>

datatype poll_outcome =
    POLL_RESUMABLE_ERROR
  | POLL_FATAL_ERROR
  | POLL_READY revents "int \<Rightarrow> revents"

record round =
  rd_sec :: int
  rd_poll :: poll_outcome
  rd_pipe :: "pipe_read list"
  rd_plain :: "int \<Rightarrow> sock_read list"
  rd_ssl :: "int \<Rightarrow> ssl_read list"

definition any_event :: "revents \<Rightarrow> bool" where
  "any_event e \<longleftrightarrow> POLLIN e \<or> POLLERR e \<or> POLLNVAL e \<or> POLLHUP e"

text \<open>\<^verbatim>\<open>poll\<close> fills in the command pipe's entry and the first \<^verbatim>\<open>tracked_fds - inactive_fds\<close>
  sockets and returns how many of them have events.\<close>

definition poll_fds :: "revents \<Rightarrow> (int \<Rightarrow> revents) \<Rightarrow> 'u listener \<Rightarrow> int \<times> 'u listener" where
  "poll_fds e es l =
     (let k = l_tracked_fds l - l_inactive_fds l;
          polled = map (\<lambda>p. p\<lparr>pfd_revents := es (pfd_fd p)\<rparr>) (take k (l_fds l))
      in (int (length (filter any_event (e # map pfd_revents polled))),
          l\<lparr>l_incoming := (l_incoming l)\<lparr>pfd_revents := e\<rparr>, l_fds := polled @ drop k (l_fds l)\<rparr>))"

definition main_round :: "('u, 'm) env \<Rightarrow> round \<Rightarrow> int \<times> 'u listener \<Rightarrow> (int \<times> 'u listener) option" where
  "main_round env rnd st =
     (let (last_sec, l) = st in
      do { l1 \<leftarrow> (if rd_sec rnd \<noteq> last_sec then tick_handler env l else Some l);
           l3 \<leftarrow> (case rd_poll rnd of
                   POLL_RESUMABLE_ERROR \<Rightarrow> Some l1
                 | POLL_FATAL_ERROR \<Rightarrow> None
                 | POLL_READY e es \<Rightarrow>
                     let (poll_res, l2) = poll_fds e es l1 in
                     if poll_res > 0 then
                       do { (poll_res', l3) \<leftarrow> ListenerCmd_CheckIncomingMessages env (rd_pipe rnd) l2 poll_res;
                            if poll_res' > 0
                            then ListenerIO_AttemptRecv env (rd_plain rnd) (rd_ssl rnd) l3 poll_res'
                            else Some l3 }
                     else Some l2);
           Some (rd_sec rnd, l3) })"

fun main_loop :: "('u, 'm) env \<Rightarrow> round list \<Rightarrow> int \<times> 'u listener \<Rightarrow> (int \<times> 'u listener) option" where
  "main_loop env [] st = Some st"
| "main_loop env (r # rs) st =
     (if l_shutdown_notify_fd (snd st) \<noteq> LISTENER_NO_FD then Some st
      else do { st' \<leftarrow> main_round env r st; main_loop env rs st' })"

text \<open>The thread: the loop runs until shutdown is requested, then the requester is notified. In
  the model the outside may also end after the given rounds, and then the thread still runs.\<close>

definition ListenerTask_MainLoop :: "('u, 'm) env \<Rightarrow> round list \<Rightarrow> 'u listener \<Rightarrow> 'u listener option" where
  "ListenerTask_MainLoop env rs l =
     do { (last_sec, l1) \<leftarrow> main_loop env rs (-1, l);
          if l_shutdown_notify_fd l1 \<noteq> LISTENER_NO_FD then
            do { l2 \<leftarrow> ListenerCmd_NotifyCaller env l1 (l_shutdown_notify_fd l1);
                 Some (l2\<lparr>l_shutdown_notify_fd := LISTENER_SHUTDOWN_COMPLETE_FD\<rparr>) }
          else Some l1 }"

section \<open>Creation closes what it opened when it fails\<close>

definition Listener_Init_closes :: "bool \<Rightarrow> (int \<times> int) option \<Rightarrow> (int \<times> int) option list \<Rightarrow> int list" where
  "Listener_Init_closes calloc_ok main_pipe pipes =
     (if \<not> calloc_ok then []
      else case main_pipe of
        None \<Rightarrow> []
      | Some (rd, wr) \<Rightarrow>
          if init_msgs pipes ([] :: unit listener_msg list) = None
          then concat (map (\<lambda>p. case p of None \<Rightarrow> [] | Some (r, w) \<Rightarrow> [r, w]) (takeWhile (\<lambda>p. p \<noteq> None) pipes)) @ [wr, rd]
          else [])"

section \<open>Invariant of the listener\<close>

lemma listener_ok_msgs_update:
  assumes "listener_ok l" "msg_pool_ok l'" "queue_ok l'" "l_rx_info l' = l_rx_info l"
    "l_rx_info_freelist l' = l_rx_info_freelist l" "l_rx_info_in_use l' = l_rx_info_in_use l"
    "l_rx_info_max_used l' = l_rx_info_max_used l" "l_fds l' = l_fds l" "l_fd_info l' = l_fd_info l"
    "l_tracked_fds l' = l_tracked_fds l" "l_inactive_fds l' = l_inactive_fds l"
  shows "listener_ok l'"
proof -
  have ft: "fd_table_ok l'" using assms by (simp add: listener_ok_def fd_table_ok_def fds_partitioned_def)
  moreover have "rx_ok l'" by (rule rx_ok_other [OF _ ft]) (use assms in \<open>simp_all add: listener_ok_def\<close>)
  ultimately show ?thesis using assms(2,3) by (simp add: listener_ok_def)
qed

text \<open>Putting a command into a reserved message and committing it, or giving it back.\<close>

lemma push_reserved:
  assumes "listener_ok l" "l_msg_freelist l = Some i" "body \<noteq> MSG_NONE"
    and g: "ListenerHelper_GetFreeMsg l = Some (Some i, l1)"
  obtains ok l' where "ListenerHelper_PushMessage (upd_msg i (\<lambda>m. m\<lparr>m_body := body\<rparr>) l1) i wr = Some (ok, l')"
    "listener_ok l'" "ok = write_loop wr" "l_queue l' = (if ok then l_queue l @ [i] else l_queue l)"
    "i \<notin> set (l_queue l)" "ok \<Longrightarrow> m_body (l_msgs l' ! i) = body"
    "\<And>j. j \<noteq> i \<Longrightarrow> l_msgs l' ! j = l_msgs l ! j"
proof -
  have ok: "msg_pool_ok l" "queue_ok l" using assms(1) by (simp_all add: listener_ok_def)
  let ?l2 = "upd_msg i (\<lambda>m. m\<lparr>m_body := body\<rparr>) l1"
  obtain l0 where l0: "ListenerHelper_GetFreeMsg l = Some (Some i, l0)" "i < MAX_QUEUE_MESSAGES" "i \<notin> msgs_owned l"
    and e: "l0 = l\<lparr>l_msg_freelist := msg_nxt l i, l_msgs_in_use := l_msgs_in_use l + 1, l_trace := l_trace l0\<rparr>"
    and p: "msg_pool_ok (upd_msg i (\<lambda>m. m\<lparr>m_body := body\<rparr>) l0)"
      "msgs_owned (upd_msg i (\<lambda>m. m\<lparr>m_body := body\<rparr>) l0) = insert i (msgs_owned l)"
    by (rule msg_reserve [OF ok(1) assms(2,3)])
  have "l0 = l1" using l0(1) g by simp
  note e = e [unfolded this] and p = p [unfolded this]
  have fields: "l_rx_info ?l2 = l_rx_info l" "l_rx_info_freelist ?l2 = l_rx_info_freelist l"
    "l_rx_info_in_use ?l2 = l_rx_info_in_use l" "l_rx_info_max_used ?l2 = l_rx_info_max_used l"
    "l_fds ?l2 = l_fds l" "l_fd_info ?l2 = l_fd_info l" "l_tracked_fds ?l2 = l_tracked_fds l"
    "l_inactive_fds ?l2 = l_inactive_fds l" "l_queue ?l2 = l_queue l"
    "l_msgs ?l2 = (l_msgs l)[i := (l_msgs l ! i)\<lparr>m_body := body\<rparr>]"
    by (subst e, simp add: upd_msg_def)+
  have iq: "i \<notin> set (l_queue l)" using ok(2) l0(3) by (auto simp: queue_ok_def)
  have i: "i < length (l_msgs l)" using ok(1) l0(2) by (simp add: msg_pool_ok_def)
  show ?thesis
  proof (cases "write_loop wr")
    case True
    let ?l3 = "?l2\<lparr>l_queue := l_queue l @ [i]\<rparr>"
    have "msg_pool_ok ?l3" using p(1) by (simp add: msg_pool_ok_def msgs_owned_def)
    moreover have "queue_ok ?l3"
      using ok(2) iq p(2) by (auto simp: queue_ok_def) (auto simp: msgs_owned_def)
    ultimately have "listener_ok ?l3"
      by (rule listener_ok_msgs_update [OF assms(1)]) (use fields in simp_all)
    then show ?thesis using True iq i
      by (intro that [of True ?l3]) (simp_all add: ListenerHelper_PushMessage_def fields)
  next
    case False
    obtain l3 where l3: "ListenerTask_ReleaseMsg ?l2 i = Some l3" "msg_pool_ok l3" "msgs_owned l3 = msgs_owned ?l2 - {i}"
      "l3 = (msg_push ?l2 i)\<lparr>l_msgs_in_use := l_msgs_in_use ?l2 - 1\<rparr>"
      by (rule ReleaseMsg_ok [OF p(1)]) (use p(2) in auto)
    have f3: "l_rx_info l3 = l_rx_info ?l2" "l_rx_info_freelist l3 = l_rx_info_freelist ?l2"
      "l_rx_info_in_use l3 = l_rx_info_in_use ?l2" "l_rx_info_max_used l3 = l_rx_info_max_used ?l2"
      "l_fds l3 = l_fds ?l2" "l_fd_info l3 = l_fd_info ?l2" "l_tracked_fds l3 = l_tracked_fds ?l2"
      "l_inactive_fds l3 = l_inactive_fds ?l2" "l_queue l3 = l_queue ?l2"
      "\<And>j. j \<noteq> i \<Longrightarrow> l_msgs l3 ! j = l_msgs ?l2 ! j"
      by (simp_all add: l3(4) msg_push_def) (simp_all add: upd_msg_def)
    have "queue_ok l3" using ok(2) iq l3(3) p(2) by (auto simp: queue_ok_def f3(9) fields(9))
    then have "listener_ok l3"
      by (rule listener_ok_msgs_update [OF assms(1) l3(2)]) (simp_all only: f3 fields)
    then show ?thesis using False iq l3(1) f3 fields
      by (intro that [of False l3]) (simp_all add: ListenerHelper_PushMessage_def)
  qed
qed

lemma post_command_ok:
  assumes "listener_ok l" "\<And>n. body n \<noteq> MSG_NONE"
  shows "\<exists>ok r l'. post_command l body wr = Some (ok, r, l') \<and> listener_ok l'"
proof (cases "l_msg_freelist l")
  case None
  then show ?thesis using assms(1) by (auto simp: post_command_def ListenerHelper_GetFreeMsg_def)
next
  case (Some i)
  have "msg_pool_ok l" using assms(1) by (simp add: listener_ok_def)
  then obtain l1 where g: "ListenerHelper_GetFreeMsg l = Some (Some i, l1)"
    by (rule msg_reserve [OF _ Some assms(2)])
  let ?b = "body (snd (m_pipes (l_msgs l1 ! i)))"
  obtain ok l' where "ListenerHelper_PushMessage (upd_msg i (\<lambda>m. m\<lparr>m_body := ?b\<rparr>) l1) i wr = Some (ok, l')" "listener_ok l'"
    by (rule push_reserved [OF assms(1) Some assms(2) g])
  then show ?thesis by (simp add: post_command_def g Let_def)
qed

lemma ExpectResponse_ok:
  assumes "listener_ok l" "bx_status box \<noteq> BUS_SEND_UNDEFINED"
  shows "\<exists>ok bp l'. Listener_ExpectResponse l box wr = Some (ok, bp, l') \<and> listener_ok l'"
proof (cases "l_msg_freelist l")
  case None
  then show ?thesis using assms(1) by (auto simp: Listener_ExpectResponse_def ListenerHelper_GetFreeMsg_def)
next
  case (Some i)
  have ne: "MSG_EXPECT_RESPONSE (Some box) \<noteq> MSG_NONE" by simp
  have "msg_pool_ok l" using assms(1) by (simp add: listener_ok_def)
  then obtain l1 where g: "ListenerHelper_GetFreeMsg l = Some (Some i, l1)"
    by (rule msg_reserve [OF _ Some ne])
  obtain ok l' where "ListenerHelper_PushMessage (upd_msg i (\<lambda>m. m\<lparr>m_body := MSG_EXPECT_RESPONSE (Some box)\<rparr>) l1) i wr
      = Some (ok, l')" "listener_ok l'"
    by (rule push_reserved [OF assms(1) Some ne g])
  then show ?thesis using assms(2) by (simp add: Listener_ExpectResponse_def g Let_def)
qed

section \<open>Reachable states\<close>

text \<open>The steps of a running listener, in any order: clients post commands or expectations, the
  thread executes the oldest command, ticks, handles a response to a request that waits for
  one, or meets a socket error and sets errored sockets aside.\<close>

inductive lstep :: "('u, 'm) env \<Rightarrow> 'u listener \<Rightarrow> 'u listener \<Rightarrow> bool" for env where
  post: "post_command l body wr = Some (ok, r, l') \<Longrightarrow> (\<And>n. body n \<noteq> MSG_NONE) \<Longrightarrow> lstep env l l'"
| post_expect: "bx_status box \<noteq> BUS_SEND_UNDEFINED \<Longrightarrow> Listener_ExpectResponse l box wr = Some (ok, bp, l') \<Longrightarrow> lstep env l l'"
| command: "l_queue l = i # q \<Longrightarrow> cmd_ok env (l\<lparr>l_queue := q\<rparr>) (m_body (l_msgs l ! i)) \<Longrightarrow>
    msg_handler env (l\<lparr>l_queue := q\<rparr>) i = Some l' \<Longrightarrow> lstep env l l'"
| tick: "tick_handler env l = Some l' \<Longrightarrow> lstep env l l'"
| response: "(\<And>i. ListenerHelper_FindInfoBySequenceID l fd (ur_seq_id res) = Some i \<Longrightarrow>
      awaiting (rx_state (l_rx_info l ! i))) \<Longrightarrow>
    process_unpacked_message env l fd res = Some l' \<Longrightarrow> lstep env l l'"
| socket_error: "er \<noteq> RX_ERROR_DONE \<Longrightarrow> er \<noteq> RX_ERROR_READY_FOR_DELIVERY \<Longrightarrow>
    lstep env l (set_error_for_socket l i fd er)"
| aside: "move_errored_active_sockets_to_end l = Some l' \<Longrightarrow> lstep env l l'"

inductive lreach :: "('u, 'm) env \<Rightarrow> 'u listener \<Rightarrow> bool" for env where
  start: "length ps = MAX_QUEUE_MESSAGES \<Longrightarrow> Listener_Init True (Some p) (map Some ps) = Some l \<Longrightarrow> lreach env l"
| step: "lreach env l \<Longrightarrow> lstep env l l' \<Longrightarrow> lreach env l'"

lemma Listener_Init_ok:
  assumes "length ps = MAX_QUEUE_MESSAGES" "Listener_Init True (Some p) (map Some ps) = Some l"
  shows "listener_ok l"
proof -
  obtain l0 :: "'a listener" where l0: "Listener_Init True (Some p) (map Some ps) = Some l0"
    "rx_pool_ok l0" "msg_pool_ok l0" "active_ids l0 = {}" "msgs_owned l0 = {}" "l_tracked_fds l0 = 0"
    "l_inactive_fds l0 = 0" "l_queue l0 = []" "length (l_fds l0) = MAX_FDS" "length (l_fd_info l0) = MAX_FDS"
    by (rule Listener_Init_Some [OF assms(1)]) blast
  have l: "l = l0" using assms(2) l0(1) by simp
  have ft: "fd_table_ok l0" using l0 by (simp add: fd_table_ok_def fds_partitioned_def)
  have "info_ok (rx_state (l_rx_info l0 ! i))" if "i < MAX_PENDING_MESSAGES" for i
    using active_iff [OF that, of l0] l0(4) by simp
  then show ?thesis
    using l0 ft fd_table_conns [OF ft] by (simp add: l listener_ok_def rx_ok_def queue_ok_def)
qed

lemma listener_ok_rx_step:
  assumes "listener_ok l" "rx_ok l'" "rx_frame l l'"
  shows "listener_ok l'"
  using assms rx_frame_fd_table [OF assms(3)] rx_frame_msgs_same [OF assms(3)]
  by (simp add: listener_ok_def msgs_same_def msg_pool_ok_def msgs_owned_def queue_ok_def)

lemma listener_ok_dequeue:
  assumes "listener_ok l" "l_queue l = i # q"
  shows "listener_ok (l\<lparr>l_queue := q\<rparr>)" "i \<in> msgs_owned (l\<lparr>l_queue := q\<rparr>)" "i \<notin> set q"
proof -
  have m: "msg_pool_ok (l\<lparr>l_queue := q\<rparr>)" "msgs_owned (l\<lparr>l_queue := q\<rparr>) = msgs_owned l"
    using assms(1) by (simp_all add: listener_ok_def msg_pool_ok_def msgs_owned_def)
  then have q: "queue_ok (l\<lparr>l_queue := q\<rparr>)" "i \<notin> set q" "i \<in> msgs_owned l"
    using assms by (auto simp: listener_ok_def queue_ok_def)
  show "listener_ok (l\<lparr>l_queue := q\<rparr>)"
    by (rule listener_ok_msgs_update [OF assms(1) m(1) q(1)]) simp_all
  show "i \<in> msgs_owned (l\<lparr>l_queue := q\<rparr>)" "i \<notin> set q" using q m by simp_all
qed

lemma tick_handler_ok:
  assumes "listener_ok l"
  obtains l' where "tick_handler env l = Some l'" "listener_ok l'"
proof -
  have rx: "rx_ok l" using assms by (simp add: listener_ok_def)
  obtain l1 w where l1: "tick_loop env 0 False l = Some (w, l1)" "rx_ok l1" "rx_frame l l1"
  proof -
    have "\<exists>l' evs. tick_loop env 0 False l = Some (False \<or> (\<exists>j\<in>active_ids l. 0 \<le> j), l') \<and> rx_ok l' \<and> rx_frame l l' \<and>
        l_trace l' = l_trace l @ concat (map evs [0..<MAX_PENDING_MESSAGES]) \<and>
        (\<forall>j < MAX_PENDING_MESSAGES. tick_effect env l j (l_rx_info l ! j) (evs j) (l_rx_info l' ! j))"
      by (rule tick_loop_effect) (use rx in auto)
    then show ?thesis using that by blast
  qed
  have ok1: "listener_ok l1" by (rule listener_ok_rx_step [OF assms l1(2,3)])
  have "listener_ok (l1\<lparr>l_is_idle := True\<rparr>)"
    by (rule listener_ok_msgs_update [OF ok1])
      (use ok1 in \<open>simp_all add: listener_ok_def msg_pool_ok_def msgs_owned_def queue_ok_def\<close>)
  then show ?thesis using ok1 l1(1)
    by (intro that [of "if w then l1 else l1\<lparr>l_is_idle := True\<rparr>"]) (auto simp: tick_handler_def)
qed

lemma process_ok:
  assumes "listener_ok l"
    "\<And>i. ListenerHelper_FindInfoBySequenceID l fd (ur_seq_id res) = Some i \<Longrightarrow> awaiting (rx_state (l_rx_info l ! i))"
  obtains l' where "process_unpacked_message env l fd res = Some l'" "listener_ok l'"
proof -
  have rx: "rx_ok l" using assms(1) by (simp add: listener_ok_def)
  have em: "listener_ok (emit ev l)" for ev
    by (rule listener_ok_rx_step [OF assms(1)]) (use rx in \<open>simp_all add: emit_def\<close>)
  show ?thesis
  proof (cases "ur_ok res \<and> ListenerHelper_FindInfoBySequenceID l fd (ur_seq_id res) \<noteq> None")
    case False
    then show ?thesis using em assms(1)
      by (intro that [of "if \<not> ur_ok res then emit (Error_cb (ur_msg res)) l
            else if env_unexpected_cb env then emit (Unexpected_msg (ur_msg res) (ur_seq_id res)) l else l"])
        (auto simp: process_unpacked_message_def)
  next
    case True
    then obtain i where i: "ur_ok res" "ListenerHelper_FindInfoBySequenceID l fd (ur_seq_id res) = Some i" by auto
    obtain l' evs where "process_unpacked_message env l fd res = Some l'" "steps_to l i evs l'"
      by (rule process_matched [OF rx i assms(2) [OF i(2)]])
    then show ?thesis using that listener_ok_rx_step [OF assms(1)] by (auto simp: steps_to_def)
  qed
qed

lemma set_error_listener_ok:
  assumes "listener_ok l" "er \<noteq> RX_ERROR_DONE" "er \<noteq> RX_ERROR_READY_FOR_DELIVERY"
  shows "listener_ok (set_error_for_socket l i fd er)"
proof -
  let ?l = "set_error_for_socket l i fd er"
  have rx: "rx_ok ?l" by (rule set_error_rx_ok) (use assms in \<open>simp_all add: listener_ok_def\<close>)
  have f: "l_fds ?l = l_fds l" "l_tracked_fds ?l = l_tracked_fds l" "l_inactive_fds ?l = l_inactive_fds l"
    "l_msgs ?l = l_msgs l" "l_msg_freelist ?l = l_msg_freelist l" "l_msgs_in_use ?l = l_msgs_in_use l"
    "l_queue ?l = l_queue l" "length (l_fd_info ?l) = length (l_fd_info l)"
    by (simp_all add: set_error_for_socket_def Let_def upd_ci_def)
  have "\<exists>ci. l_fd_info ?l ! j = Some ci \<and> ci_fd ci = pfd_fd (l_fds l ! j)" if j: "j < l_tracked_fds l" for j
  proof -
    have "j < length (l_fd_info l)" using assms(1) j by (simp add: listener_ok_def fd_table_ok_def)
    moreover obtain ci where "l_fd_info l ! j = Some ci" "ci_fd ci = pfd_fd (l_fds l ! j)"
      using assms(1) j unfolding listener_ok_def fd_table_ok_def by blast
    ultimately show ?thesis
      by (cases "j = i") (auto simp: set_error_for_socket_def Let_def upd_ci_def)
  qed
  then have "fd_table_ok ?l"
    using assms(1) f by (simp add: listener_ok_def fd_table_ok_def fds_partitioned_def)
  then show ?thesis
    using rx assms(1) f by (simp add: listener_ok_def msg_pool_ok_def msgs_owned_def queue_ok_def)
qed

lemma move_errored_ok:
  assumes "listener_ok l"
  obtains l' where "move_errored_active_sockets_to_end l = Some l'" "listener_ok l'"
proof -
  have ft: "fd_table_ok l" using assms by (simp add: listener_ok_def)
  obtain l' where l': "move_loop 0 l = Some l'" "fd_table_ok l'" "fd_frame l l'"
    using move_loop_table [OF ft, of 0] by blast
  from l'(3) obtain a b c where e: "l' = l\<lparr>l_fds := a, l_fd_info := b, l_inactive_fds := c\<rparr>"
    by (auto simp: fd_frame_def)
  have "rx_ok l'" by (rule rx_ok_other [OF _ l'(2)]) (use assms in \<open>simp_all add: e listener_ok_def\<close>)
  then have "listener_ok l'"
    using l'(2) assms by (simp add: listener_ok_def msg_pool_ok_def msgs_owned_def queue_ok_def e)
  then show ?thesis using that l'(1) by (simp add: move_errored_active_sockets_to_end_def)
qed

lemma lstep_ok:
  assumes "lstep env l l'" "listener_ok l"
  shows "listener_ok l'"
  using assms
proof (induction rule: lstep.induct)
  case (post l body wr ok r l')
  then show ?case using post_command_ok [of l body wr] by auto
next
  case (post_expect box l wr ok bp l')
  then show ?case using ExpectResponse_ok [of l box wr] by auto
next
  case (command l i q l')
  note d = listener_ok_dequeue [OF command(4,1)]
  obtain l1 where "msg_handler env (l\<lparr>l_queue := q\<rparr>) i = Some l1" "listener_ok l1"
    by (rule msg_handler_ok [OF d(1,2)]) (use d(3) command(2) in simp_all)
  then show ?case using command(3) by simp
next
  case (tick l l')
  obtain l1 where "tick_handler env l = Some l1" "listener_ok l1" by (rule tick_handler_ok [OF tick(2)])
  then show ?case using tick(1) by simp
next
  case (response l fd res l')
  obtain l1 where "process_unpacked_message env l fd res = Some l1" "listener_ok l1"
    by (rule process_ok [OF response(3,1)])
  then show ?case using response(2) by simp
next
  case (socket_error er l i fd)
  then show ?case by (rule set_error_listener_ok [rotated])
next
  case (aside l l')
  obtain l1 where "move_errored_active_sockets_to_end l = Some l1" "listener_ok l1"
    by (rule move_errored_ok [OF aside(2)])
  then show ?case using aside(1) by simp
qed

lemma lreach_ok: "lreach env l \<Longrightarrow> listener_ok l"
  by (induction rule: lreach.induct) (auto intro: Listener_Init_ok lstep_ok)


lemma ex_listener_reachable: "lreach env ex_listener"
  by (rule lreach.start [where ps = "map (\<lambda>i. (10 + 2 * int i, 11 + 2 * int i)) [0..<MAX_QUEUE_MESSAGES]", OF _ ex_listener_eq]) simp


section \<open>Shutting down\<close>

lemma NotifyCaller_writes:
  assumes "\<And>n. write_loop (env_notify env n)"
  shows "\<exists>evs. ListenerCmd_NotifyCaller env l fd = Some (l\<lparr>l_trace := l_trace l @ evs\<rparr>)"
  using assms by (intro exI [of _ "if fd = -1 then [] else [Notified fd (notify_bytes (ListenerTask_GetBackpressure l))]"])
    (simp add: ListenerCmd_NotifyCaller_def emit_def)

lemma free_msgs_trace:
  assumes "\<And>n. write_loop (env_notify env n)"
  shows "\<exists>evs. free_msgs env ms l = Some (l\<lparr>l_trace := l_trace l @ evs\<rparr>)"
proof (induction ms arbitrary: l)
  case Nil
  show ?case by (intro exI [of _ "[]"]) simp
next
  case (Cons m ms)
  let ?step = "case m_body m of
      MSG_ADD_SOCKET ci n \<Rightarrow> ListenerCmd_NotifyCaller env l n
    | MSG_REMOVE_SOCKET fd n \<Rightarrow> ListenerCmd_NotifyCaller env l n
    | MSG_EXPECT_RESPONSE box \<Rightarrow> Some (if box \<noteq> None then emit Freed_box l else l)
    | _ \<Rightarrow> Some l"
  have "\<exists>evs. ?step = Some (l\<lparr>l_trace := l_trace l @ evs\<rparr>)"
  proof (cases "m_body m")
    case (MSG_ADD_SOCKET ci n)
    then show ?thesis using NotifyCaller_writes [OF assms] by simp
  next
    case (MSG_REMOVE_SOCKET fd n)
    then show ?thesis using NotifyCaller_writes [OF assms] by simp
  next
    case (MSG_EXPECT_RESPONSE box)
    then show ?thesis by (intro exI [of _ "if box \<noteq> None then [Freed_box] else []"]) (simp add: emit_def)
  qed (auto intro!: exI [of _ "[]"])
  then obtain evs where e: "?step = Some (l\<lparr>l_trace := l_trace l @ evs\<rparr>)" by blast
  obtain evs' where "free_msgs env ms (emit (Closed (snd (m_pipes m))) (emit (Closed (fst (m_pipes m))) (l\<lparr>l_trace := l_trace l @ evs\<rparr>)))
      = Some (l\<lparr>l_trace := l_trace l @ evs @ [Closed (fst (m_pipes m)), Closed (snd (m_pipes m))] @ evs'\<rparr>)"
    using Cons.IH [of "emit (Closed (snd (m_pipes m))) (emit (Closed (fst (m_pipes m))) (l\<lparr>l_trace := l_trace l @ evs\<rparr>))"]
    by (auto simp: emit_def)
  then show ?case using e by (simp only: free_msgs.simps option.simps Option.bind.simps) blast
qed

lemma MainLoop_end:
  assumes "ListenerTask_MainLoop env rs l = Some l'"
  shows "l_shutdown_notify_fd l' = LISTENER_NO_FD \<or> l_shutdown_notify_fd l' = LISTENER_SHUTDOWN_COMPLETE_FD"
  using assms by (auto simp: ListenerTask_MainLoop_def bind_Some_iff split: if_splits)

lemma Listener_Free_ok:
  assumes "l_shutdown_notify_fd l = LISTENER_SHUTDOWN_COMPLETE_FD" "\<And>n. write_loop (env_notify env n)"
  shows "\<exists>evs. Listener_Free env cp l =
    Some (l_trace l @ free_infos (l_rx_info l) @ evs @ [Closed cp, Closed (pfd_fd (l_incoming l))])"
  using free_msgs_trace [OF assms(2), of "l_msgs l" "l\<lparr>l_trace := l_trace l @ free_infos (l_rx_info l)\<rparr>"] assms(1)
  by (auto simp: Listener_Free_def Let_def)

lemma Listener_Free_unstarted:
  assumes "Listener_Init c p ps = Some l"
  shows "Listener_Free env cp l = None"
proof -
  have "l_shutdown_notify_fd l = LISTENER_NO_FD"
    using assms by (auto simp: Listener_Init_def Let_def split: prod.splits option.splits if_splits)
  then show ?thesis by (simp add: Listener_Free_def LISTENER_NO_FD_def LISTENER_SHUTDOWN_COMPLETE_FD_def)
qed

text \<open>a listener whose thread has not run to its end cannot be freed. Destroying one straight
  after its creation fails the assertion in \<^verbatim>\<open>Listener_Free\<close>, which the error path of
  \<^verbatim>\<open>Bus_Init\<close> does; a thread that has left its loop can be freed if the pipes of the
  messages it still holds can be written.\<close>
theorem listener_free_needs_shutdown:
  "(Listener_Init True (Some p) (map Some ps) = Some l \<longrightarrow> Listener_Free env cp l = None) \<and>
   (\<forall>rs l'. ListenerTask_MainLoop env rs l = Some l' \<and> (\<forall>n. write_loop (env_notify env n)) \<and>
      l_shutdown_notify_fd l' \<noteq> LISTENER_NO_FD \<longrightarrow>
      (\<exists>evs. Listener_Free env cp l' = Some (l_trace l' @ free_infos (l_rx_info l') @ evs @ [Closed cp, Closed (pfd_fd (l_incoming l'))])))"
proof (intro conjI impI allI)
  assume "Listener_Init True (Some p) (map Some ps) = Some l"
  then show "Listener_Free env cp l = None" by (rule Listener_Free_unstarted)
next
  fix rs l'
  assume a: "ListenerTask_MainLoop env rs l = Some l' \<and> (\<forall>n. write_loop (env_notify env n)) \<and>
      l_shutdown_notify_fd l' \<noteq> LISTENER_NO_FD"
  then have "l_shutdown_notify_fd l' = LISTENER_SHUTDOWN_COMPLETE_FD" using MainLoop_end by blast
  then show "\<exists>evs. Listener_Free env cp l' =
      Some (l_trace l' @ free_infos (l_rx_info l') @ evs @ [Closed cp, Closed (pfd_fd (l_incoming l'))])"
    using a by (intro Listener_Free_ok) simp_all
qed

text \<open>A listener told to shut down by the first round's command is freed after its loop.\<close>

lemma listener_free_needs_shutdown_witness:
  "Listener_Free ex_env 4 ex_listener = None \<and>
   (\<exists>l' evs. ListenerTask_MainLoop ex_env [] (ex_listener\<lparr>l_shutdown_notify_fd := 11\<rparr>) = Some l' \<and>
      Listener_Free ex_env 4 l' = Some evs)"
proof
  have i: "Listener_Init True (Some (3, 4)) (map Some (map (\<lambda>i. (10 + 2 * int i, 11 + 2 * int i)) [0..<MAX_QUEUE_MESSAGES])) = Some ex_listener"
    by (rule ex_listener_eq)
  show "Listener_Free ex_env 4 ex_listener = None"
    using listener_free_needs_shutdown [of "(3, 4)" "map (\<lambda>i. (10 + 2 * int i, 11 + 2 * int i)) [0..<MAX_QUEUE_MESSAGES]"
        ex_listener ex_env 4] i by blast
  let ?l = "ex_listener\<lparr>l_shutdown_notify_fd := 11\<rparr>"
  obtain l' where l': "ListenerTask_MainLoop ex_env [] ?l = Some l'"
    "l_shutdown_notify_fd l' = LISTENER_SHUTDOWN_COMPLETE_FD"
    by (simp add: ListenerTask_MainLoop_def LISTENER_NO_FD_def ListenerCmd_NotifyCaller_def ex_env_def)
  have "l_shutdown_notify_fd l' \<noteq> LISTENER_NO_FD"
    using l'(2) by (simp add: LISTENER_NO_FD_def LISTENER_SHUTDOWN_COMPLETE_FD_def)
  then show "\<exists>l' evs. ListenerTask_MainLoop ex_env [] ?l = Some l' \<and> Listener_Free ex_env 4 l' = Some evs"
    using listener_free_needs_shutdown [of "(3, 4)" "[]" ?l ex_env 4] l'(1) by (auto simp: ex_env_def)
qed

end
