(* ===== verification/Box_Ownership.thy ===== *)
theory Box_Ownership
  imports Listener
begin

text \<open>
  A boxed message has one owner at a time: a queued command, a receive record, or, once
  handed to the thread pool, the callback. This theory counts the owners of the boxes with a
  given user data pointer and shows that the listener thread neither duplicates nor loses a
  box, except where the code drops an expectation whose hold is gone.
\<close>

section \<open>Counting owners\<close>

fun info_boxes :: "nat \<Rightarrow> rx_state \<Rightarrow> nat" where
  "info_boxes u (RIS_EXPECT e) = (case e_box e of None \<Rightarrow> 0 | Some b \<Rightarrow> if bx_udata b = u then 1 else 0)"
| "info_boxes u st = 0"

fun body_boxes :: "nat \<Rightarrow> 'u msg_body \<Rightarrow> nat" where
  "body_boxes u (MSG_EXPECT_RESPONSE (Some b)) = (if bx_udata b = u then 1 else 0)"
| "body_boxes u body = 0"

fun deliveries :: "nat \<Rightarrow> event list \<Rightarrow> nat" where
  "deliveries u [] = 0"
| "deliveries u (Delivered b # evs) = (if bx_udata b = u then 1 else 0) + deliveries u evs"
| "deliveries u (ev # evs) = deliveries u evs"

definition rx_owned :: "nat \<Rightarrow> 'u listener \<Rightarrow> nat" where
  "rx_owned u l = (\<Sum>i < MAX_PENDING_MESSAGES. info_boxes u (rx_state (l_rx_info l ! i)))"

definition msg_owned :: "nat \<Rightarrow> 'u listener \<Rightarrow> nat" where
  "msg_owned u l = (\<Sum>i < MAX_QUEUE_MESSAGES. body_boxes u (m_body (l_msgs l ! i)))"

text \<open>Owners of boxes with user data \<open>u\<close>, past deliveries included.\<close>

definition owners :: "nat \<Rightarrow> 'u listener \<Rightarrow> nat" where
  "owners u l = msg_owned u l + rx_owned u l + deliveries u (l_trace l)"

lemma deliveries_append [simp]: "deliveries u (xs @ ys) = deliveries u xs + deliveries u ys"
  by (induction u xs rule: deliveries.induct) auto

lemma deliveries_concat: "deliveries u (concat (map f xs)) = (\<Sum>x\<leftarrow>xs. deliveries u (f x))"
  by (induction xs) auto

lemma no_deliveries: "set evs \<inter> range Delivered = {} \<Longrightarrow> deliveries u evs = 0"
  by (induction u evs rule: deliveries.induct) auto

lemma sum_one_change:
  fixes f g :: "nat \<Rightarrow> nat"
  assumes "i < n" "\<And>j. j \<noteq> i \<Longrightarrow> g j = f j" "g i + b = f i + a"
  shows "(\<Sum>j<n. g j) + b = (\<Sum>j<n. f j) + a"
proof -
  have "(\<Sum>j<n. g j) = g i + (\<Sum>j\<in>{..<n} - {i}. g j)" "(\<Sum>j<n. f j) = f i + (\<Sum>j\<in>{..<n} - {i}. f j)"
    using assms(1) by (simp_all add: sum.remove)
  moreover have "(\<Sum>j\<in>{..<n} - {i}. g j) = (\<Sum>j\<in>{..<n} - {i}. f j)" by (rule sum.cong) (use assms(2) in auto)
  ultimately show ?thesis using assms(3) by simp
qed

section \<open>One record\<close>

lemma offered_owners:
  assumes "offered env box r e evs r'"
  shows "info_boxes u (rx_state r') + deliveries u evs = (if bx_udata box = u then 1 else 0)"
proof -
  from assms consider "evs = [Delivered box]" "rx_state r' = RIS_INACTIVE"
    | "evs = [Refused box]" "r' = r\<lparr>rx_state := RIS_EXPECT (e\<lparr>e_box := Some box\<rparr>)\<rparr>"
    unfolding offered_def by (meson)
  then show ?thesis by cases simp_all
qed

lemma release_events_no_delivery [simp]: "deliveries u (release_events env l st) = 0"
  by (cases st) (simp_all add: release_events_def)

lemma tick_effect_owners:
  assumes "tick_effect env l i r evs r'"
  shows "info_boxes u (rx_state r') + deliveries u evs = info_boxes u (rx_state r)"
proof (cases "rx_state r")
  case (RIS_EXPECT e)
  then obtain box where "e_box e = Some box" using assms by (auto simp: tick_effect_def split: option.splits)
  with RIS_EXPECT assms show ?thesis
    by (auto simp: tick_effect_def dest!: offered_owners [where u = u] split: if_splits)
qed (use assms in \<open>auto simp: tick_effect_def split: if_splits\<close>)

lemma expect_effect_owners:
  assumes "expect_effect env box r evs r'"
  shows "info_boxes u (rx_state r') + deliveries u evs = info_boxes u (rx_state r) + (if bx_udata box = u then 1 else 0)"
proof (cases "rx_state r")
  case (RIS_HOLD h)
  with assms show ?thesis
    by (auto simp: expect_effect_def dest!: offered_owners [where u = u] split: if_splits)
qed (use assms in \<open>auto simp: expect_effect_def\<close>)

lemma response_effect_owners:
  assumes "response_effect env res r evs r'"
  shows "info_boxes u (rx_state r') + deliveries u evs = info_boxes u (rx_state r)"
proof (cases "rx_state r")
  case (RIS_EXPECT e)
  with assms show ?thesis by (auto simp: response_effect_def dest!: offered_owners [where u = u])
qed (use assms in \<open>auto simp: response_effect_def\<close>)

lemma steps_owners:
  assumes "steps_to l i evs l'" "i < MAX_PENDING_MESSAGES"
    "info_boxes u (rx_state (l_rx_info l' ! i)) + deliveries u evs = info_boxes u (rx_state (l_rx_info l ! i)) + a"
  shows "rx_owned u l' + deliveries u (l_trace l') = rx_owned u l + deliveries u (l_trace l) + a"
proof -
  have "rx_owned u l' + deliveries u evs = rx_owned u l + a"
    unfolding rx_owned_def
    by (rule sum_one_change [OF assms(2)]) (use assms(1,3) in \<open>auto simp: steps_to_def\<close>)
  then show ?thesis using assms(1) by (simp add: steps_to_def)
qed

section \<open>The operations of the listener thread\<close>

lemma tick_owners:
  assumes "listener_ok l" "tick_handler env l = Some l'"
  shows "owners u l' = owners u l"
proof -
  obtain evs where e: "l_trace l' = l_trace l @ concat (map evs [0..<MAX_PENDING_MESSAGES])"
    "\<forall>i < MAX_PENDING_MESSAGES. tick_effect env l i (l_rx_info l ! i) (evs i) (l_rx_info l' ! i)"
    "l_msgs l' = l_msgs l"
    using tick_handler_effect [of l env] assms by (auto simp: listener_ok_def)
  have "rx_owned u l' + (\<Sum>i < MAX_PENDING_MESSAGES. deliveries u (evs i)) = rx_owned u l"
    unfolding rx_owned_def sum.distrib [symmetric]
  proof (rule sum.cong)
    fix i assume "i \<in> {..<MAX_PENDING_MESSAGES}"
    then show "info_boxes u (rx_state (l_rx_info l' ! i)) + deliveries u (evs i) = info_boxes u (rx_state (l_rx_info l ! i))"
      using e(2) tick_effect_owners [of env l i "l_rx_info l ! i" "evs i" "l_rx_info l' ! i" u] by simp
  qed simp
  then show ?thesis
    by (simp add: owners_def msg_owned_def e(1,3) deliveries_concat interv_sum_list_conv_sum_set_nat
        atLeast0LessThan)
qed

lemma process_owners:
  assumes "listener_ok l"
    "\<And>i. ListenerHelper_FindInfoBySequenceID l fd (ur_seq_id res) = Some i \<Longrightarrow> awaiting (rx_state (l_rx_info l ! i))"
    "process_unpacked_message env l fd res = Some l'"
  shows "owners u l' = owners u l"
proof -
  have rx: "rx_ok l" using assms(1) by (simp add: listener_ok_def)
  show ?thesis
  proof (cases "ur_ok res \<and> ListenerHelper_FindInfoBySequenceID l fd (ur_seq_id res) \<noteq> None")
    case False
    then have "l' \<in> {l, emit (Error_cb (ur_msg res)) l, emit (Unexpected_msg (ur_msg res) (ur_seq_id res)) l}"
      using assms(3) by (auto simp: process_unpacked_message_def split: if_splits)
    then show ?thesis by (auto simp: owners_def msg_owned_def rx_owned_def emit_def)
  next
    case True
    then obtain i where i: "ur_ok res" "ListenerHelper_FindInfoBySequenceID l fd (ur_seq_id res) = Some i" by auto
    note lt = FindInfo_sound(1) [OF i(2) rx_okD(1) [OF rx]]
    obtain l1 evs where l1: "process_unpacked_message env l fd res = Some l1" "steps_to l i evs l1"
      "response_effect env res (l_rx_info l ! i) evs (l_rx_info l1 ! i)"
      by (rule process_matched [OF rx i assms(2) [OF i(2)]])
    have "l1 = l'" using l1(1) assms(3) by simp
    moreover have "l_msgs l1 = l_msgs l" using l1(2) rx_frame_fields(5) by (auto simp: steps_to_def)
    ultimately show ?thesis
      using steps_owners [OF l1(2) lt, of u 0] response_effect_owners [OF l1(3), of u]
      by (simp add: owners_def msg_owned_def)
  qed
qed

lemma mark_info_owners: "info_boxes u (rx_state (mark_info fd er r)) = info_boxes u (rx_state r)"
  by (simp add: mark_info_def split: rx_state.split option.split)

lemma set_error_owners:
  assumes "listener_ok l"
  shows "owners u (set_error_for_socket l i fd er) = owners u l"
proof -
  have "rx_pool_ok l" using assms by (simp add: listener_ok_def rx_ok_def)
  then have "rx_owned u (set_error_for_socket l i fd er) = rx_owned u l"
    unfolding rx_owned_def by (intro sum.cong) (simp_all add: set_error_nth mark_info_owners)
  moreover have "l_msgs (set_error_for_socket l i fd er) = l_msgs l"
    by (simp add: set_error_for_socket_def Let_def upd_ci_def)
  ultimately show ?thesis by (simp add: owners_def msg_owned_def set_error_fields)
qed

text \<open>The expectation the code drops because its hold is gone.\<close>

definition drops :: "nat \<Rightarrow> 'u listener \<Rightarrow> 'u msg_body \<Rightarrow> nat" where
  "drops u l body =
     (case body of
        MSG_EXPECT_RESPONSE (Some b) \<Rightarrow>
          if bx_udata b = u \<and> ListenerHelper_FindInfoBySequenceID l (bx_fd b) (bx_out_seq_id b) = None
          then 1 else 0
      | _ \<Rightarrow> 0)"

lemma rx_owned_cong: "l_rx_info l' = l_rx_info l \<Longrightarrow> rx_owned u l' = rx_owned u l"
  by (simp add: rx_owned_def)

lemma hold_owners:
  assumes "rx_ok l" "write_loop (env_notify env n)" "hold_response env l fd seq_id timeout n = Some l'"
  shows "rx_owned u l' + deliveries u (l_trace l') = rx_owned u l + deliveries u (l_trace l)"
proof -
  obtain l1 tr where l1: "hold_response env l fd seq_id timeout n = Some l1" "l_trace l1 = l_trace l @ tr"
    "set tr \<inter> range Delivered = {}"
    and c: "case l_rx_info_freelist l of
       None \<Rightarrow> active_ids l1 = active_ids l \<and> l_rx_info l1 = l_rx_info l
     | Some i \<Rightarrow> i < MAX_PENDING_MESSAGES \<and> i \<notin> active_ids l \<and> active_ids l1 = insert i (active_ids l) \<and>
         rx_state (l_rx_info l1 ! i) = RIS_HOLD (new_hold fd seq_id) \<and>
         rx_timeout_sec (l_rx_info l1 ! i) = timeout \<and>
         (\<forall>j. j \<noteq> i \<longrightarrow> l_rx_info l1 ! j = l_rx_info l ! j)"
    by (rule hold_response_ok [OF assms(1,2)])
  have e: "l1 = l'" using l1(1) assms(3) by simp
  have "rx_owned u l1 = rx_owned u l"
  proof (cases "l_rx_info_freelist l")
    case None
    then show ?thesis using c rx_owned_cong by auto
  next
    case (Some i)
    then have i: "i < MAX_PENDING_MESSAGES" "rx_state (l_rx_info l ! i) = RIS_INACTIVE"
      using c by (auto simp: active_ids_def inactive_def)
    have "rx_owned u l1 + 0 = rx_owned u l + 0"
      unfolding rx_owned_def by (rule sum_one_change [OF i(1)]) (use c Some i in auto)
    then show ?thesis by simp
  qed
  then show ?thesis using l1(2,3) no_deliveries by (simp add: e)
qed

lemma add_socket_owners:
  assumes "rx_ok l" "fd_table_ok l" "cmd_ok env l (MSG_ADD_SOCKET ci n)" "add_socket env l ci n = Some l'"
  shows "rx_owned u l' + deliveries u (l_trace l') = rx_owned u l + deliveries u (l_trace l)"
proof -
  from assms(3) obtain x k where c: "env_sink env (ci_udata ci) [] = Some (x, k, None)"
    "write_loop (env_notify env n)" by (auto split: option.splits)
  obtain tr where "l_rx_info l' = l_rx_info l" "l_trace l' = l_trace l @ tr" "set tr \<inter> range Delivered = {}"
  proof (cases "l_tracked_fds l = MAX_FDS \<or> ci_fd ci \<in> fst ` sockets l")
    case True
    obtain tr where "add_socket env l ci n = Some (l\<lparr>l_trace := l_trace l @ tr\<rparr>)" "set tr \<inter> range Delivered = {}"
      by (rule add_socket_rejected [OF True c(2)])
    then show ?thesis using assms(4) that [of tr] by auto
  next
    case False
    then have "l_tracked_fds l < MAX_FDS" "ci_fd ci \<notin> fst ` sockets l"
      using assms(2) by (auto simp: fd_table_ok_def)
    then obtain l1 tr where l1: "add_socket env l ci n = Some l1"
      and e: "l1 = l\<lparr>l_fds := l_fds l1, l_fd_info := l_fd_info l1, l_tracked_fds := l_tracked_fds l + 1,
           l_read_buf_size := l_read_buf_size l1, l_trace := l_trace l @ tr\<rparr>" "set tr \<inter> range Delivered = {}"
      using add_socket_table [OF assms(2) _ _ c] by metis
    have "l_rx_info l1 = l_rx_info l" "l_trace l1 = l_trace l @ tr" by (subst e, simp)+
    then show ?thesis using that [of tr] e(2) l1 assms(4) by simp
  qed
  then show ?thesis using no_deliveries rx_owned_cong by simp
qed

lemma remove_socket_owners:
  assumes "fd_table_ok l" "write_loop (env_notify env n)" "remove_socket env l fd n = Some l'"
  shows "rx_owned u l' + deliveries u (l_trace l') = rx_owned u l + deliveries u (l_trace l)"
proof -
  obtain l1 where l1: "remove_socket_loop fd 0 l = Some l1"
    and e: "l1 = l\<lparr>l_fds := l_fds l1, l_fd_info := l_fd_info l1, l_tracked_fds := l_tracked_fds l1,
           l_inactive_fds := l_inactive_fds l1\<rparr>"
    using remove_socket_loop_table [OF assms(1)] by metis
  obtain bs where "ListenerCmd_NotifyCaller env l1 n =
      Some (l1\<lparr>l_trace := l_trace l1 @ (if n = -1 then [] else [Notified n bs])\<rparr>)"
    by (rule NotifyCaller_cases [OF assms(2)])
  then have l': "l' = l1\<lparr>l_trace := l_trace l1 @ (if n = -1 then [] else [Notified n bs])\<rparr>"
    using assms(3) l1 by (simp add: remove_socket_def)
  have "l_rx_info l1 = l_rx_info l" "l_trace l1 = l_trace l" by (subst e, simp)+
  then show ?thesis by (simp add: l' rx_owned_def)
qed

lemma run_command_owners:
  assumes "rx_ok l" "fd_table_ok l" "cmd_ok env l body" "run_command env l body = Some l'"
  shows "rx_owned u l' + deliveries u (l_trace l') + drops u l body
       = rx_owned u l + deliveries u (l_trace l) + body_boxes u body"
proof (cases body)
  case (MSG_EXPECT_RESPONSE mbox)
  from assms(3) MSG_EXPECT_RESPONSE obtain box where b: "mbox = Some box" "sent_ok box"
    by (auto split: option.splits)
  show ?thesis
  proof (cases "ListenerHelper_FindInfoBySequenceID l (bx_fd box) (bx_out_seq_id box)")
    case None
    then show ?thesis
      using assms(4) MSG_EXPECT_RESPONSE b by (auto simp: run_command_def expect_response_def drops_def)
  next
    case (Some i)
    note f = FindInfo_sound [OF Some rx_okD(1) [OF assms(1)]]
    from f(3) assms(3) MSG_EXPECT_RESPONSE b Some obtain h where h: "rx_state (l_rx_info l ! i) = RIS_HOLD h"
      by (cases "rx_state (l_rx_info l ! i)") auto
    obtain l1 evs where l1: "expect_response env l (Some box) = Some l1" "steps_to l i evs l1"
      "expect_effect env box (l_rx_info l ! i) evs (l_rx_info l1 ! i)"
      by (rule expect_converts [OF assms(1) f(2) h b(2) Some])
    have "l1 = l'" using l1(1) assms(4) MSG_EXPECT_RESPONSE b by (simp add: run_command_def)
    then show ?thesis
      using steps_owners [OF l1(2) f(1) expect_effect_owners [OF l1(3)], of u] MSG_EXPECT_RESPONSE b Some
      by (simp add: drops_def)
  qed
next
  case (MSG_ADD_SOCKET ci n)
  then show ?thesis using add_socket_owners [OF assms(1,2), of env ci n] assms(3,4) by (simp add: run_command_def drops_def)
next
  case (MSG_REMOVE_SOCKET fd n)
  then show ?thesis using remove_socket_owners [OF assms(2)] assms(3,4) by (simp add: run_command_def drops_def)
next
  case (MSG_HOLD_RESPONSE fd seq_id timeout n)
  then show ?thesis using hold_owners [OF assms(1)] assms(3,4) by (simp add: run_command_def drops_def)
next
  case (MSG_SHUTDOWN n)
  then show ?thesis using assms(4) by (auto simp: run_command_def drops_def shutdown_def rx_owned_def)
qed (use assms(3) in simp)

lemma msg_handler_owners:
  assumes "listener_ok l" "i \<in> msgs_owned l" "cmd_ok env l (m_body (l_msgs l ! i))" "msg_handler env l i = Some l'"
  shows "owners u l' + drops u l (m_body (l_msgs l ! i)) = owners u l"
proof -
  let ?l0 = "l\<lparr>l_is_idle := False\<rparr>" and ?body = "m_body (l_msgs l ! i)"
  have i: "i < MAX_QUEUE_MESSAGES" "i < length (l_msgs l)"
    using assms(1,2) by (simp_all add: msgs_owned_def listener_ok_def msg_pool_ok_def)
  have ok: "rx_ok ?l0" "fd_table_ok ?l0"
    using assms(1) by (simp_all add: listener_ok_def rx_ok_def rx_pool_ok_def active_ids_def inactive_def
        conns_present_def fd_table_ok_def fds_partitioned_def)
  have find: "ListenerHelper_FindInfoBySequenceID ?l0 = ListenerHelper_FindInfoBySequenceID l"
    by (simp add: fun_eq_iff ListenerHelper_FindInfoBySequenceID_def)
  then have cmd: "cmd_ok env ?l0 ?body" using assms(3) by (cases ?body) (auto split: option.splits)
  from assms(4) obtain l1 where l1: "run_command env ?l0 ?body = Some l1" "ListenerTask_ReleaseMsg l1 i = Some l'"
    by (auto simp: msg_handler_def bind_Some_iff c_assert_def split: if_splits)
  obtain l1' where "run_command env ?l0 ?body = Some l1'" "msgs_same ?l0 l1'"
    by (rule run_command_ok [OF ok cmd])
  then have same: "l_msgs l1 = l_msgs l" using l1(1) by (simp add: msgs_same_def)
  have l': "l_msgs l' = (l_msgs l)[i := (l_msgs l ! i)\<lparr>m_body := MSG_NONE, m_next := l_msg_freelist l1\<rparr>]"
    "rx_owned u l' = rx_owned u l1" "l_trace l' = l_trace l1"
    using l1(2) same i by (auto simp: ListenerTask_ReleaseMsg_def msg_push_def upd_msg_def Let_def rx_owned_def
        c_assert_def bind_Some_iff split: if_splits)
  have "msg_owned u l' + body_boxes u ?body = msg_owned u l + 0"
    unfolding msg_owned_def by (rule sum_one_change [OF i(1)]) (use l'(1) i in auto)
  moreover have "drops u ?l0 ?body = drops u l ?body" unfolding drops_def find ..
  moreover have "rx_owned u ?l0 = rx_owned u l" "l_trace ?l0 = l_trace l" by (simp_all add: rx_owned_def)
  ultimately show ?thesis
    using run_command_owners [OF ok cmd l1(1), of u] by (simp add: owners_def l'(2,3))
qed

text \<open>C3: the listener thread neither duplicates nor loses a message. In every reachable state,
  counting for any user data pointer the boxes in queued commands, in receive records and
  already handed to their callback, a tick, an accepted response and a socket error leave
  the count as it is; executing a command does too, except that an expectation whose hold is
  gone is dropped. So a request posted once is answered at most once.\<close>
theorem boxes_have_one_owner:
  assumes "lreach env l"
  shows "(\<forall>l'. tick_handler env l = Some l' \<longrightarrow> owners u l' = owners u l) \<and>
     (\<forall>fd res l'. (\<forall>i. ListenerHelper_FindInfoBySequenceID l fd (ur_seq_id res) = Some i \<longrightarrow>
                       awaiting (rx_state (l_rx_info l ! i))) \<and>
        process_unpacked_message env l fd res = Some l' \<longrightarrow> owners u l' = owners u l) \<and>
     (\<forall>i fd er. owners u (set_error_for_socket l i fd er) = owners u l) \<and>
     (\<forall>i q l'. l_queue l = i # q \<and> cmd_ok env (l\<lparr>l_queue := q\<rparr>) (m_body (l_msgs l ! i)) \<and>
        msg_handler env (l\<lparr>l_queue := q\<rparr>) i = Some l' \<longrightarrow>
        owners u l' + drops u (l\<lparr>l_queue := q\<rparr>) (m_body (l_msgs l ! i)) = owners u l)"
proof (intro conjI allI impI)
  note ok = lreach_ok [OF assms]
  show "owners u l' = owners u l" if "tick_handler env l = Some l'" for l'
    by (rule tick_owners [OF ok that])
  show "owners u l' = owners u l" if "(\<forall>i. ListenerHelper_FindInfoBySequenceID l fd (ur_seq_id res) = Some i \<longrightarrow>
      awaiting (rx_state (l_rx_info l ! i))) \<and> process_unpacked_message env l fd res = Some l'" for fd res l'
    by (rule process_owners [OF ok, of fd res]) (use that in blast)+
  show "owners u (set_error_for_socket l i fd er) = owners u l" for i fd er by (rule set_error_owners [OF ok])
  fix i q l'
  assume a: "l_queue l = i # q \<and> cmd_ok env (l\<lparr>l_queue := q\<rparr>) (m_body (l_msgs l ! i)) \<and>
        msg_handler env (l\<lparr>l_queue := q\<rparr>) i = Some l'"
  note d = listener_ok_dequeue [OF ok conjunct1 [OF a]]
  have "owners u (l\<lparr>l_queue := q\<rparr>) = owners u l" by (simp add: owners_def msg_owned_def rx_owned_def)
  then show "owners u l' + drops u (l\<lparr>l_queue := q\<rparr>) (m_body (l_msgs l ! i)) = owners u l"
    using msg_handler_owners [OF d(1,2), of env l' u] a by simp
qed

lemma boxes_have_one_owner_witness:
  "\<exists>l l'. lreach ex_env l \<and> l \<noteq> ex_listener \<and> tick_handler ex_env l = Some l' \<and> owners 1 l' = owners 1 l"
proof -
  obtain i where i: "l_msg_freelist ex_listener = Some i" using ex_msg_freelist by blast
  have sent: "bx_status ex_box \<noteq> BUS_SEND_UNDEFINED" by (simp add: ex_box_def)
  note ok = lreach_ok [OF ex_listener_reachable [of ex_env]]
  obtain ok' bp l where l: "Listener_ExpectResponse ex_listener ex_box [WR_OK] = Some (ok', bp, l)"
    using ExpectResponse_ok [OF ok sent, of "[WR_OK]"] by blast
  have r: "lreach ex_env l"
    by (rule lreach.step [OF ex_listener_reachable lstep.post_expect [OF sent l]])
  have "l_queue l = [i]"
    using l i ex_listener_ok(7) by (auto simp: Listener_ExpectResponse_def ListenerHelper_GetFreeMsg_def
        ListenerHelper_PushMessage_def bind_Some_iff Let_def upd_msg_def msg_pop_def emit_def split: if_splits)
  then have "l \<noteq> ex_listener" using ex_listener_ok(7) by auto
  moreover obtain l' where t: "tick_handler ex_env l = Some l'" by (rule tick_handler_ok [OF lreach_ok [OF r]])
  moreover have "owners 1 l' = owners 1 l" using boxes_have_one_owner [OF r, of 1] t by blast
  ultimately show ?thesis using r by blast
qed

end
