(* ===== verification/Yacht.thy ===== *)
theory Yacht
  imports Prelude
begin

text \<open>
  The open-addressing hash table that maps file descriptors to connection records
  (\<^verbatim>\<open>src/lib/bus/yacht.c\<close>). Keys are C \<^verbatim>\<open>int\<close>s, values are pointers (\<open>None\<close> is the
  null pointer). An array access out of range is a fault (\<open>None\<close> of the outer option).
  Whether \<^verbatim>\<open>malloc\<close> and \<^verbatim>\<open>calloc\<close> succeed is an argument.
\<close>

section \<open>The table and its operations\<close>

definition YACHT_NO_KEY :: int where "YACHT_NO_KEY = -1"
definition YACHT_DELETED :: int where "YACHT_DELETED = -2"
definition DEF_SZ2 :: nat where "DEF_SZ2 = 4"
definition MAX_PROBES :: size_t where "MAX_PROBES = 16"
definition LARGE_PRIME :: int where "LARGE_PRIME = 4294967291"

lemmas yacht_consts = YACHT_NO_KEY_def YACHT_DELETED_def DEF_SZ2_def MAX_PROBES_def LARGE_PRIME_def

record 'v yacht =
  y_size :: size_t
  y_mask :: size_t
  y_buckets :: "int list"
  y_values :: "'v option list"

datatype 'v lookup = Missing | Found "'v option"

definition index :: "'a list \<Rightarrow> nat \<Rightarrow> 'a option" where
  "index xs i = (if i < length xs then Some (xs ! i) else None)"

text \<open>\<^verbatim>\<open>Yacht_Init\<close>: \<open>allocs\<close> says which of the three allocations succeed.\<close>

definition Yacht_Init :: "bool \<times> bool \<times> bool \<Rightarrow> u8 \<Rightarrow> 'v yacht option" where
  "Yacht_Init allocs sz2 =
     (let sz2 = (if sz2 = 0 then DEF_SZ2 else unat sz2);
          sz = (2 ^ sz2 :: size_t)
      in if fst allocs \<and> fst (snd allocs) \<and> snd (snd allocs)
         then Some \<lparr>y_size = sz, y_mask = sz - 1,
                    y_buckets = replicate (unat sz) YACHT_NO_KEY,
                    y_values = replicate (unat sz) None\<rparr>
         else None)"

definition hash :: "int \<Rightarrow> size_t" where
  "hash key = word_of_int (key * LARGE_PRIME)"

text \<open>The bucket of probe number \<open>o\<close>: \<^verbatim>\<open>((hash(key) & mask) + o) & mask\<close>.\<close>

definition slot :: "size_t \<Rightarrow> int \<Rightarrow> nat \<Rightarrow> nat" where
  "slot msk key n = unat (((hash key AND msk) + of_nat n) AND msk)"

fun get_loop :: "'v yacht \<Rightarrow> int \<Rightarrow> nat \<Rightarrow> nat \<Rightarrow> 'v lookup option" where
  "get_loop y key k 0 = Some Missing"
| "get_loop y key k (Suc n) =
     (let i = slot (y_mask y) key k in do {
        bv \<leftarrow> index (y_buckets y) i;
        if bv = key then do { v \<leftarrow> index (y_values y) i; Some (Found v) }
        else if bv = YACHT_NO_KEY \<or> bv = YACHT_DELETED then Some Missing
        else get_loop y key (Suc k) n })"

definition Yacht_Get :: "'v yacht \<Rightarrow> int \<Rightarrow> 'v lookup option" where
  "Yacht_Get y key = get_loop y key 0 (unat (y_size y))"

definition Yacht_Member :: "'v yacht \<Rightarrow> int \<Rightarrow> bool option" where
  "Yacht_Member y key = do { r \<leftarrow> Yacht_Get y key; Some (r \<noteq> Missing) }"

text \<open>\<^verbatim>\<open>insert\<close> returns the arrays, what it stores through \<^verbatim>\<open>old_value\<close> (\<open>None\<close>: nothing)
  and whether a bucket was found.\<close>

fun insert_loop ::
    "int list \<Rightarrow> 'v option list \<Rightarrow> size_t \<Rightarrow> int \<Rightarrow> 'v option \<Rightarrow> nat \<Rightarrow> nat \<Rightarrow>
     (int list \<times> 'v option list \<times> 'v option option \<times> bool) option" where
  "insert_loop bs vs msk key val k 0 = Some (bs, vs, None, False)"
| "insert_loop bs vs msk key val k (Suc n) =
     (let i = slot msk key k in do {
        bv \<leftarrow> index bs i;
        if bv = key then do { old \<leftarrow> index vs i; Some (bs, vs[i := val], Some old, True) }
        else if bv = YACHT_NO_KEY \<or> bv = YACHT_DELETED
        then do { _ \<leftarrow> index vs i; Some (bs[i := key], vs[i := val], None, True) }
        else insert_loop bs vs msk key val (Suc k) n })"

definition yacht_insert ::
    "int list \<Rightarrow> 'v option list \<Rightarrow> size_t \<Rightarrow> size_t \<Rightarrow> int \<Rightarrow> 'v option \<Rightarrow>
     (int list \<times> 'v option list \<times> 'v option option \<times> bool) option" where
  "yacht_insert bs vs msk max_fill key val = insert_loop bs vs msk key val 0 (unat max_fill)"

text \<open>The rehashing loop of \<^verbatim>\<open>grow\<close> over the old buckets; \<open>False\<close> is the jump to \<^verbatim>\<open>cleanup\<close>.\<close>

fun rehash ::
    "(int \<times> 'v option) list \<Rightarrow> size_t \<Rightarrow> size_t \<Rightarrow> int list \<Rightarrow> 'v option list \<Rightarrow>
     (int list \<times> 'v option list \<times> bool) option" where
  "rehash [] nmask nsize nbs nvs = Some (nbs, nvs, True)"
| "rehash ((key, v) # rest) nmask nsize nbs nvs =
     (if key \<noteq> YACHT_NO_KEY \<and> key \<noteq> YACHT_DELETED then do {
        (nbs', nvs', _, ok) \<leftarrow> yacht_insert nbs nvs nmask nsize key v;
        if ok then rehash rest nmask nsize nbs' nvs' else Some (nbs', nvs', False) }
      else rehash rest nmask nsize nbs nvs)"

definition grow :: "(size_t \<Rightarrow> bool \<times> bool) \<Rightarrow> 'v yacht \<Rightarrow> ('v yacht \<times> bool) option" where
  "grow alloc y =
     (let nsize = 2 * y_size y; nmask = nsize - 1
      in if \<not> fst (alloc nsize) then Some (y, False)
         else if \<not> snd (alloc nsize) then Some (y, False)
         else do {
           (nbs, nvs, ok) \<leftarrow> rehash (zip (y_buckets y) (y_values y)) nmask nsize
              (replicate (unat nsize) YACHT_NO_KEY) (replicate (unat nsize) None);
           if ok then Some (\<lparr>y_size = nsize, y_mask = nmask, y_buckets = nbs, y_values = nvs\<rparr>, True)
           else Some (y, False) })"

definition max_fill :: "size_t \<Rightarrow> size_t" where
  "max_fill sz = (if sz div 2 > 16 then MAX_PROBES else sz div 2)"

partial_function (option) Yacht_Set ::
    "(size_t \<Rightarrow> bool \<times> bool) \<Rightarrow> 'v yacht \<Rightarrow> int \<Rightarrow> 'v option \<Rightarrow>
     ('v yacht \<times> 'v option option \<times> bool) option" where
  "Yacht_Set alloc y key val =
     do { (bs, vs, old, ok) \<leftarrow> yacht_insert (y_buckets y) (y_values y) (y_mask y) (max_fill (y_size y)) key val;
          if ok then Some (y\<lparr>y_buckets := bs, y_values := vs\<rparr>, old, True)
          else do {
            (y', grown) \<leftarrow> grow alloc y;
            if grown then Yacht_Set alloc y' key val else Some (y', None, False) } }"

declare Yacht_Set.simps [code]

text \<open>\<^verbatim>\<open>Yacht_Remove\<close>: \<open>want_old\<close> says whether \<^verbatim>\<open>old_value\<close> is non-null.\<close>

fun remove_loop :: "'v yacht \<Rightarrow> int \<Rightarrow> bool \<Rightarrow> nat \<Rightarrow> nat \<Rightarrow> ('v yacht \<times> 'v lookup) option" where
  "remove_loop y key want_old k 0 = Some (y, Missing)"
| "remove_loop y key want_old k (Suc n) =
     (let i = slot (y_mask y) key k in do {
        bv \<leftarrow> index (y_buckets y) i;
        if bv = key then do {
          nxt \<leftarrow> index (y_buckets y) (unat ((of_nat i + 1 :: size_t) AND y_mask y));
          v \<leftarrow> index (y_values y) i;
          Some (y\<lparr>y_buckets := (y_buckets y)[i := if nxt = YACHT_NO_KEY then YACHT_NO_KEY
                                                  else YACHT_DELETED],
                  y_values := if want_old then (y_values y)[i := None] else y_values y\<rparr>, Found v) }
        else if bv = YACHT_NO_KEY then Some (y, Missing)
        else remove_loop y key want_old (Suc k) n })"

definition Yacht_Remove :: "'v yacht \<Rightarrow> int \<Rightarrow> bool \<Rightarrow> ('v yacht \<times> 'v lookup) option" where
  "Yacht_Remove y key want_old = remove_loop y key want_old 0 (unat (y_size y))"

text \<open>\<^verbatim>\<open>Yacht_Free\<close> calls the callback on the value of every live bucket, in order.\<close>

definition Yacht_Free :: "('v option \<Rightarrow> 's \<Rightarrow> 's) option \<Rightarrow> 'v yacht \<Rightarrow> 's \<Rightarrow> 's" where
  "Yacht_Free cb y s =
     (case cb of None \<Rightarrow> s
      | Some f \<Rightarrow>
          fold (\<lambda>(key, v) s. if key \<noteq> YACHT_NO_KEY \<and> key \<noteq> YACHT_DELETED then f v s else s)
            (zip (y_buckets y) (y_values y)) s)"


section \<open>Probe sequences\<close>

text \<open>A table of size \<open>2 ^ k\<close>.\<close>

definition yacht_ok :: "nat \<Rightarrow> 'v yacht \<Rightarrow> bool" where
  "yacht_ok k y \<longleftrightarrow> 1 \<le> k \<and> k \<le> 61 \<and> y_size y = 2 ^ k \<and> y_mask y = mask k \<and>
     length (y_buckets y) = 2 ^ k \<and> length (y_values y) = 2 ^ k"

abbreviation free_bucket :: "int \<Rightarrow> bool" where
  "free_bucket b \<equiv> b = YACHT_NO_KEY \<or> b = YACHT_DELETED"

definition hit :: "nat \<Rightarrow> int list \<Rightarrow> int \<Rightarrow> nat \<Rightarrow> bool" where
  "hit k bs key n \<longleftrightarrow> (let b = bs ! slot (mask k) key n in b = key \<or> free_bucket b)"

definition first_hit :: "nat \<Rightarrow> int list \<Rightarrow> int \<Rightarrow> nat \<Rightarrow> nat option" where
  "first_hit k bs key n = find (hit k bs key) [0..<n]"

lemma slot_mod:
  assumes "k \<le> 64"
  shows "slot (mask k) key n = (unat (hash key) + n) mod 2 ^ k"
proof -
  have dvd: "(2::nat) ^ k dvd 2 ^ 64" using assms by (rule le_imp_power_dvd)
  have "slot (mask k) key n = unat ((hash key AND mask k) + of_nat n) mod 2 ^ k"
    by (simp add: slot_def unat_and_mask)
  also have "\<dots> = (unat (hash key AND mask k) + n) mod 2 ^ k"
    using dvd by (simp add: unat_word_ariths unat_of_nat mod_mod_cancel mod_add_right_eq)
  also have "\<dots> = (unat (hash key) + n) mod 2 ^ k"
    by (simp add: unat_and_mask mod_add_left_eq)
  finally show ?thesis .
qed

lemma slot_less [simp]: "k \<le> 64 \<Longrightarrow> slot (mask k) key n < 2 ^ k"
  by (simp add: slot_mod)

lemma add_mod_inj:
  fixes a m n N :: nat
  assumes "m < N" "n < N" "(a + m) mod N = (a + n) mod N"
  shows "m = n"
proof -
  have *: "x = y" if "x \<le> y" "y < N" "(a + x) mod N = (a + y) mod N" for x y :: nat
  proof -
    have "N dvd (a + y) - (a + x)"
      using that by (intro mod_eq_dvd_iff_nat [THEN iffD1]) simp_all
    then have "N dvd y - x" by simp
    with that(1,2) show ?thesis by (metis dvd_imp_le less_imp_diff_less linorder_not_less
          nat_less_le zero_less_diff)
  qed
  show ?thesis using *[of m n] *[of n m] assms by (cases "m \<le> n") auto
qed

lemma slot_inj:
  assumes "k \<le> 64" "m < 2 ^ k" "n < 2 ^ k" "slot (mask k) key m = slot (mask k) key n"
  shows "m = n"
  using assms by (auto simp: slot_mod intro: add_mod_inj)

lemma slot_surj:
  assumes "k \<le> 64" "j < 2 ^ k"
  obtains n where "n < 2 ^ k" "slot (mask k) key n = j"
proof -
  have "inj_on (slot (mask k) key) {..<2 ^ k}"
    using assms(1) by (auto intro: inj_onI slot_inj)
  moreover have "slot (mask k) key ` {..<2 ^ k} \<subseteq> {..<2 ^ k}"
    using assms(1) by auto
  ultimately have "slot (mask k) key ` {..<2 ^ k} = {..<2 ^ k}"
    by (intro endo_inj_surj) auto
  with assms(2) that show thesis by (metis imageE lessThan_iff)
qed

lemma first_hit_Some:
  "first_hit k bs key n = Some m \<longleftrightarrow>
     m < n \<and> hit k bs key m \<and> (\<forall>m' < m. \<not> hit k bs key m')"
  by (auto simp: first_hit_def find_Some_iff)

lemma first_hit_None: "first_hit k bs key n = None \<longleftrightarrow> (\<forall>m < n. \<not> hit k bs key m)"
  by (auto simp: first_hit_def find_None_iff)

lemma first_hit_le: "first_hit k bs key n = Some m \<Longrightarrow> n \<le> n' \<Longrightarrow> first_hit k bs key n' = Some m"
  by (auto simp: first_hit_Some)

section \<open>What the loops compute\<close>

lemma get_loop_find:
  assumes "yacht_ok k y"
  shows "get_loop y key m n =
     Some (case find (hit k (y_buckets y) key) [m..<m + n] of
             None \<Rightarrow> Missing
           | Some m' \<Rightarrow> let i = slot (mask k) key m' in
               if y_buckets y ! i = key then Found (y_values y ! i) else Missing)"
proof (induction n arbitrary: m)
  case (Suc n)
  have "[m..<m + Suc n] = m # [Suc m..<Suc m + n]" by (simp add: upt_conv_Cons)
  moreover have "slot (mask k) key m < 2 ^ k" using assms by (simp add: yacht_ok_def)
  ultimately show ?case
    using assms Suc.IH [of "Suc m"]
    by (simp add: yacht_ok_def index_def hit_def Let_def del: upt_Suc)
qed simp

lemma insert_loop_find:
  assumes "length bs = 2 ^ k" "length vs = 2 ^ k" "k \<le> 64"
  shows "insert_loop bs vs (mask k) key v m n =
     Some (case find (hit k bs key) [m..<m + n] of
             None \<Rightarrow> (bs, vs, None, False)
           | Some m' \<Rightarrow> let i = slot (mask k) key m' in
               (bs[i := key], vs[i := v], if bs ! i = key then Some (vs ! i) else None, True))"
proof (induction n arbitrary: m)
  case (Suc n)
  have "[m..<m + Suc n] = m # [Suc m..<Suc m + n]" by (simp add: upt_conv_Cons)
  moreover have "slot (mask k) key m < 2 ^ k" using assms by simp
  moreover have "bs ! i = key \<Longrightarrow> bs[i := key] = bs" for i by (metis list_update_id)
  ultimately show ?case
    using assms Suc.IH [of "Suc m"]
    by (simp add: index_def hit_def Let_def del: upt_Suc)
qed simp


section \<open>The table as a map\<close>

text \<open>Every key sits where its probe sequence first meets it.\<close>

definition probe_inv :: "nat \<Rightarrow> int list \<Rightarrow> bool" where
  "probe_inv k bs \<longleftrightarrow>
     (\<forall>j < 2 ^ k. \<not> free_bucket (bs ! j) \<longrightarrow>
        (\<exists>n. first_hit k bs (bs ! j) (2 ^ k) = Some n \<and> slot (mask k) (bs ! j) n = j))"

definition table_map :: "int list \<Rightarrow> 'v option list \<Rightarrow> int \<Rightarrow> 'v option option" where
  "table_map bs vs key =
     (if free_bucket key then None
      else map_option (\<lambda>j. vs ! j) (find (\<lambda>j. bs ! j = key) [0..<length bs]))"

lemma probe_inv_first:
  assumes "probe_inv k bs" "j < 2 ^ k" "\<not> free_bucket (bs ! j)"
  obtains n where "first_hit k bs (bs ! j) (2 ^ k) = Some n" "slot (mask k) (bs ! j) n = j"
  using assms by (auto simp: probe_inv_def)

lemma probe_unique:
  assumes "probe_inv k bs" "j < 2 ^ k" "i < 2 ^ k" "bs ! j = bs ! i" "\<not> free_bucket (bs ! j)"
  shows "j = i"
  using assms by (metis option.inject probe_inv_first)

lemma table_map_iff:
  assumes "probe_inv k bs" "length bs = 2 ^ k"
  shows "table_map bs vs key = Some v \<longleftrightarrow> \<not> free_bucket key \<and> (\<exists>j < 2 ^ k. bs ! j = key \<and> vs ! j = v)"
proof
  assume "table_map bs vs key = Some v"
  then show "\<not> free_bucket key \<and> (\<exists>j < 2 ^ k. bs ! j = key \<and> vs ! j = v)"
    using assms(2) by (auto simp: table_map_def find_Some_iff split: if_splits)
next
  assume r: "\<not> free_bucket key \<and> (\<exists>j < 2 ^ k. bs ! j = key \<and> vs ! j = v)"
  then obtain j where j: "j < 2 ^ k" "bs ! j = key" "vs ! j = v" by blast
  have "find (\<lambda>j. bs ! j = key) [0..<length bs] \<noteq> None"
    using j assms(2) by (auto simp: find_None_iff)
  then obtain i where i: "find (\<lambda>j. bs ! j = key) [0..<length bs] = Some i" by blast
  then have "i < 2 ^ k" "bs ! i = key" using assms(2) by (auto simp: find_Some_iff)
  with j r assms(1) have "i = j" by (metis probe_unique)
  with i j r show "table_map bs vs key = Some v" by (simp add: table_map_def)
qed

lemma insert_table:
  assumes k: "k \<le> 64" and len: "length bs = 2 ^ k" "length vs = 2 ^ k"
    and inv: "probe_inv k bs" and nf: "\<not> free_bucket key"
    and fh: "first_hit k bs key (2 ^ k) = Some m" and i: "i = slot (mask k) key m"
  shows "probe_inv k (bs[i := key])" (is ?P)
    and "table_map (bs[i := key]) (vs[i := v]) = (table_map bs vs)(key \<mapsto> v)" (is ?M)
proof -
  have il: "i < 2 ^ k" using k i by simp
  have m: "m < 2 ^ k" "bs ! i = key \<or> free_bucket (bs ! i)"
    "\<And>m'. m' < m \<Longrightarrow> \<not> hit k bs key m'"
    using fh i by (auto simp: first_hit_Some hit_def Let_def)
  have nhit: "hit k (bs[i := key]) x n = hit k bs x n" if "slot (mask k) x n \<noteq> i" for x n
    using that by (simp add: hit_def)
  have keyed: "first_hit k (bs[i := key]) key (2 ^ k) = Some m"
  proof -
    have "slot (mask k) key m' \<noteq> i" if "m' < m" for m'
      using slot_inj [OF k, of m' m key] that m(1) i by auto
    then have "\<forall>m' < m. \<not> hit k (bs[i := key]) key m'" using m(3) nhit by simp
    moreover have "hit k (bs[i := key]) key m" using il len i by (simp add: hit_def)
    ultimately show ?thesis using m(1) by (simp add: first_hit_Some)
  qed
  show inv': ?P
  proof (cases "bs ! i = key")
    case True
    then show ?thesis using inv by (metis list_update_id)
  next
    case free: False
    show ?thesis
      unfolding probe_inv_def
    proof (intro allI impI)
      fix j assume j: "j < 2 ^ k" and occ: "\<not> free_bucket (bs[i := key] ! j)"
      show "\<exists>n. first_hit k (bs[i := key]) (bs[i := key] ! j) (2 ^ k) = Some n \<and>
          slot (mask k) (bs[i := key] ! j) n = j"
      proof (cases "j = i")
        case True
        with keyed il len i show ?thesis by simp
      next
        case False
        then have bj: "bs[i := key] ! j = bs ! j" by simp
        with occ inv j obtain n where n: "first_hit k bs (bs ! j) (2 ^ k) = Some n"
          "slot (mask k) (bs ! j) n = j" by (metis probe_inv_first)
        have "slot (mask k) (bs ! j) n' \<noteq> i" if "n' \<le> n" for n'
        proof
          assume e: "slot (mask k) (bs ! j) n' = i"
          with False n(2) that have "n' < n" by (metis le_neq_implies_less)
          with n(1) have "\<not> hit k bs (bs ! j) n'" by (simp add: first_hit_Some)
          with e have "\<not> free_bucket (bs ! i)" by (auto simp: hit_def Let_def)
          with m(2) free show False by simp
        qed
        then have "\<forall>n' \<le> n. hit k (bs[i := key]) (bs ! j) n' = hit k bs (bs ! j) n'"
          using nhit by simp
        with n bj show ?thesis by (auto simp: first_hit_Some)
      qed
    qed
  qed
  have iff: "table_map (bs[i := key]) (vs[i := v]) x = Some w \<longleftrightarrow>
      ((table_map bs vs)(key \<mapsto> v)) x = Some w" for x w
  proof (cases "x = key")
    case True
    have "\<exists>j < 2 ^ k. bs[i := key] ! j = key \<and> vs[i := v] ! j = v"
      using il len by (intro exI [of _ i]) simp
    then have "table_map (bs[i := key]) (vs[i := v]) key = Some v"
      using table_map_iff [OF inv', of "vs[i := v]" key v] len nf by simp
    with True show ?thesis by auto
  next
    case False
    then have "(\<exists>j < 2 ^ k. bs[i := key] ! j = x \<and> vs[i := v] ! j = w) \<longleftrightarrow>
        (\<exists>j < 2 ^ k. bs ! j = x \<and> vs ! j = w)" if "\<not> free_bucket x"
      using m(2) that il len by (metis nth_list_update_eq nth_list_update_neq)
    with False show ?thesis
      using table_map_iff [OF inv', of "vs[i := v]" x w] table_map_iff [OF inv len(1), of vs x w]
        len by auto
  qed
  then show ?M by (rule map_eqI)
qed

lemma insert_keyed:
  assumes k: "k \<le> 64" and len: "length bs = 2 ^ k"
    and fh: "first_hit k bs key (2 ^ k) = Some m" and i: "i = slot (mask k) key m"
  shows "first_hit k (bs[i := x]) key (2 ^ k) = (if x = key \<or> free_bucket x then Some m else
           first_hit k (bs[i := x]) key (2 ^ k))"
proof -
  have m: "m < 2 ^ k" "\<And>m'. m' < m \<Longrightarrow> \<not> hit k bs key m'"
    using fh by (auto simp: first_hit_Some)
  have "i \<noteq> slot (mask k) key m'" if "m' < m" for m'
    using slot_inj [OF k, of m' m key] that m(1) i by auto
  then have "\<forall>m' < m. \<not> hit k (bs[i := x]) key m'" using m(2) by (simp add: hit_def Let_def)
  moreover have "hit k (bs[i := x]) key m" if "x = key \<or> free_bucket x"
    using that k len i by (simp add: hit_def)
  ultimately show ?thesis using m(1) by (simp add: first_hit_Some)
qed

lemma Yacht_Get_first_hit:
  assumes "yacht_ok k y"
  shows "Yacht_Get y key =
     Some (case first_hit k (y_buckets y) key (2 ^ k) of
             None \<Rightarrow> Missing
           | Some m \<Rightarrow> let i = slot (mask k) key m in
               if y_buckets y ! i = key then Found (y_values y ! i) else Missing)"
  using assms get_loop_find [OF assms, of key 0 "2 ^ k"]
  by (simp add: Yacht_Get_def yacht_ok_def unat_pow2 first_hit_def)

abbreviation yacht_map :: "'v yacht \<Rightarrow> int \<Rightarrow> 'v option option" where
  "yacht_map y \<equiv> table_map (y_buckets y) (y_values y)"

lemma Yacht_Get_map:
  assumes ok: "yacht_ok k y" and inv: "probe_inv k (y_buckets y)" and nf: "\<not> free_bucket key"
  shows "Yacht_Get y key = Some (case yacht_map y key of None \<Rightarrow> Missing | Some v \<Rightarrow> Found v)"
proof -
  have k: "k \<le> 64" and len: "length (y_buckets y) = 2 ^ k" using ok by (auto simp: yacht_ok_def)
  note iff = table_map_iff [OF inv len]
  show ?thesis
  proof (cases "first_hit k (y_buckets y) key (2 ^ k)")
    case None
    have "y_buckets y ! j \<noteq> key" if j: "j < 2 ^ k" for j
    proof -
      obtain n where n: "n < 2 ^ k" "slot (mask k) key n = j" using k j by (rule slot_surj)
      have "\<not> hit k (y_buckets y) key n" using None n(1) by (simp add: first_hit_None)
      then show ?thesis using n(2) by (auto simp: hit_def Let_def)
    qed
    then have "yacht_map y key = None" using iff [of "y_values y" key] by (cases "yacht_map y key") auto
    with None ok show ?thesis by (simp add: Yacht_Get_first_hit)
  next
    case (Some m)
    let ?i = "slot (mask k) key m"
    show ?thesis
    proof (cases "y_buckets y ! ?i = key")
      case True
      then have "yacht_map y key = Some (y_values y ! ?i)"
        unfolding iff using k nf slot_less by blast
      with Some True ok show ?thesis by (simp add: Yacht_Get_first_hit)
    next
      case False
      have "y_buckets y ! j \<noteq> key" if j: "j < 2 ^ k" for j
      proof
        assume e: "y_buckets y ! j = key"
        with inv j nf obtain n where "first_hit k (y_buckets y) key (2 ^ k) = Some n"
          "slot (mask k) key n = j" by (metis probe_inv_first)
        with Some False e show False by simp
      qed
      then have "yacht_map y key = None"
        using iff [of "y_values y" key] by (cases "yacht_map y key") auto
      with Some False ok show ?thesis by (simp add: Yacht_Get_first_hit)
    qed
  qed
qed

section \<open>Growing\<close>

definition occupied :: "nat \<Rightarrow> int list \<Rightarrow> nat set" where
  "occupied k bs = {j. j < 2 ^ k \<and> \<not> free_bucket (bs ! j)}"

lemma first_hit_exists:
  assumes "k \<le> 64" "card (occupied k bs) < 2 ^ k"
  obtains m where "first_hit k bs key (2 ^ k) = Some m"
proof -
  have "occupied k bs \<noteq> {..<2 ^ k}" using assms(2) by (metis card_lessThan less_irrefl)
  moreover have "occupied k bs \<subseteq> {..<2 ^ k}" by (auto simp: occupied_def)
  ultimately obtain j where j: "j < 2 ^ k" "free_bucket (bs ! j)"
    unfolding occupied_def by blast
  moreover obtain n where "n < 2 ^ k" "slot (mask k) key n = j"
    using assms(1) \<open>j < 2 ^ k\<close> by (rule slot_surj)
  ultimately have "hit k bs key n" by (simp add: hit_def)
  then have "first_hit k bs key (2 ^ k) \<noteq> None"
    using \<open>n < 2 ^ k\<close> by (auto simp: first_hit_None)
  with that show thesis by blast
qed

lemma rehash_table:
  assumes "k < 64" "probe_inv k nbs" "length nbs = 2 ^ k" "length nvs = 2 ^ k"
    and "card (occupied k nbs) + length rest < 2 ^ k"
  shows "\<exists>nbs' nvs'. rehash rest (mask k) (2 ^ k) nbs nvs = Some (nbs', nvs', True) \<and>
     length nbs' = 2 ^ k \<and> length nvs' = 2 ^ k \<and> probe_inv k nbs' \<and>
     table_map nbs' nvs' = table_map nbs nvs ++ map_of (rev (filter (\<lambda>(b, _). \<not> free_bucket b) rest))"
  using assms
proof (induction rest arbitrary: nbs nvs)
  case Nil
  then show ?case by simp
next
  case (Cons p rest)
  obtain key v where p: "p = (key, v)" by fastforce
  show ?case
  proof (cases "free_bucket key")
    case True
    with Cons p show ?thesis by auto
  next
    case False
    from Cons.prems obtain m where fh: "first_hit k nbs key (2 ^ k) = Some m"
      by (metis add_lessD1 first_hit_exists less_imp_le)
    let ?i = "slot (mask k) key m"
    have ins: "yacht_insert nbs nvs (mask k) (2 ^ k) key v =
        Some (nbs[?i := key], nvs[?i := v], if nbs ! ?i = key then Some (nvs ! ?i) else None, True)"
      using insert_loop_find [of nbs k nvs key v 0 "2 ^ k"] Cons.prems fh
      by (simp add: yacht_insert_def unat_pow2 first_hit_def Let_def)
    note tab = insert_table(1) [OF _ Cons.prems(3,4,2) False fh refl]
      insert_table(2) [OF _ Cons.prems(3,4,2) False fh refl, where v = v]
    have "occupied k (nbs[?i := key]) \<subseteq> Set.insert ?i (occupied k nbs)"
      by (auto simp: occupied_def)
    then have "card (occupied k (nbs[?i := key])) \<le> card (Set.insert ?i (occupied k nbs))"
      by (intro card_mono) (auto simp: occupied_def)
    also have "\<dots> \<le> Suc (card (occupied k nbs))" by (simp add: card_insert_le_m1 card_insert_if occupied_def)
    finally have "card (occupied k (nbs[?i := key])) + length rest < 2 ^ k"
      using Cons.prems(5) by simp
    then obtain nbs' nvs' where r:
      "rehash rest (mask k) (2 ^ k) (nbs[?i := key]) (nvs[?i := v]) = Some (nbs', nvs', True)"
      "length nbs' = 2 ^ k" "length nvs' = 2 ^ k" "probe_inv k nbs'"
      "table_map nbs' nvs' = table_map (nbs[?i := key]) (nvs[?i := v]) ++
         map_of (rev (filter (\<lambda>(b, _). \<not> free_bucket b) rest))"
      using Cons.IH [of "nbs[?i := key]" "nvs[?i := v]"] Cons.prems tab(1) by auto
    have "table_map nbs' nvs' =
        table_map nbs nvs ++ map_of (rev (filter (\<lambda>(b, _). \<not> free_bucket b) (p # rest)))"
      using r(5) tab(2) Cons.prems(1) False p by (simp add: map_add_assoc [symmetric])
    with r ins False p show ?thesis by auto
  qed
qed

lemma probe_inv_empty: "probe_inv k (replicate (2 ^ k) YACHT_NO_KEY)"
  by (simp add: probe_inv_def)

lemma table_map_empty: "table_map (replicate n YACHT_NO_KEY) vs = Map.empty"
  by (auto simp: table_map_def find_None_iff)


lemma grow_table:
  assumes ok: "yacht_ok k y" and k: "k < 61" and al: "fst (alloc (2 ^ Suc k))" "snd (alloc (2 ^ Suc k))"
  obtains y' where "grow alloc y = Some (y', True)" "yacht_ok (Suc k) y'"
    "probe_inv (Suc k) (y_buckets y')"
    "yacht_map y' = map_of (rev (filter (\<lambda>(b, _). \<not> free_bucket b) (zip (y_buckets y) (y_values y))))"
proof -
  let ?bs = "replicate (2 ^ Suc k) YACHT_NO_KEY :: int list"
  let ?vs = "replicate (2 ^ Suc k) None"
  have sz: "2 * y_size y = 2 ^ Suc k" "unat (2 ^ Suc k :: 64 word) = 2 ^ Suc k"
    using ok k by (simp_all only: yacht_ok_def power_Suc unat_pow2 Suc_less_eq) (simp add: unat_pow2 flip: power_Suc)
  have msk: "(2 ^ Suc k - 1 :: 64 word) = mask (Suc k)" by (simp add: mask_eq_exp_minus_1)
  have "card (occupied (Suc k) ?bs) = 0" by (simp add: occupied_def)
  then have "card (occupied (Suc k) ?bs) + length (zip (y_buckets y) (y_values y)) < 2 ^ Suc k"
    using ok by (simp add: yacht_ok_def)
  then obtain nbs nvs where r: "rehash (zip (y_buckets y) (y_values y)) (mask (Suc k)) (2 ^ Suc k) ?bs ?vs
        = Some (nbs, nvs, True)" "length nbs = 2 ^ Suc k" "length nvs = 2 ^ Suc k"
      "probe_inv (Suc k) nbs" "table_map nbs nvs = table_map ?bs ?vs ++
         map_of (rev (filter (\<lambda>(b, _). \<not> free_bucket b) (zip (y_buckets y) (y_values y))))"
    using rehash_table [OF _ probe_inv_empty, of "Suc k" ?vs "zip (y_buckets y) (y_values y)"] k
    by (auto simp del: power_Suc)
  let ?y = "\<lparr>y_size = 2 ^ Suc k, y_mask = mask (Suc k), y_buckets = nbs, y_values = nvs\<rparr>"
  have "grow alloc y = Some (?y, True)"
    using al r(1) sz msk by (simp add: grow_def Let_def del: power_Suc)
  moreover have "yacht_ok (Suc k) ?y" using ok k r by (simp add: yacht_ok_def)
  ultimately show thesis
    using r that [of ?y] by (simp add: table_map_empty)
qed

lemma grow_fails: "\<not> (fst (alloc (2 * y_size y)) \<and> snd (alloc (2 * y_size y))) \<Longrightarrow> grow alloc y = Some (y, False)"
  by (auto simp: grow_def Let_def)

lemma live_entries_map:
  assumes "yacht_ok k y" "probe_inv k (y_buckets y)"
  shows "map_of (rev (filter (\<lambda>(b, _). \<not> free_bucket b) (zip (y_buckets y) (y_values y)))) = yacht_map y"
    (is "map_of ?l = _")
proof -
  have len: "length (y_buckets y) = 2 ^ k" "length (y_values y) = 2 ^ k"
    using assms(1) by (auto simp: yacht_ok_def)
  have mem: "(x, v) \<in> set ?l \<longleftrightarrow> yacht_map y x = Some v" for x v
    using table_map_iff [OF assms(2) len(1), of "y_values y" x v] len
    by (auto simp: in_set_zip)
  have "map_of ?l x = Some v \<longleftrightarrow> yacht_map y x = Some v" for x v
  proof
    assume "map_of ?l x = Some v"
    then have "(x, v) \<in> set ?l" by (rule map_of_SomeD)
    then show "yacht_map y x = Some v" by (simp only: mem)
  next
    assume a: "yacht_map y x = Some v"
    then have "(x, v) \<in> set ?l" by (simp only: mem)
    then obtain w where w: "map_of ?l x = Some w" by (blast dest: weak_map_of_SomeI)
    then have "(x, w) \<in> set ?l" by (rule map_of_SomeD)
    then have "yacht_map y x = Some w" by (simp only: mem)
    with a w show "map_of ?l x = Some v" by simp
  qed
  then show ?thesis by (rule map_eqI)
qed

section \<open>Setting a key\<close>

lemma max_fill_le:
  assumes "1 \<le> k" "k \<le> 61"
  shows "unat (max_fill (2 ^ k)) \<le> 2 ^ k"
proof -
  have "unat (2 ^ k div 2 :: 64 word) \<le> 2 ^ k"
    using assms unat_pow2 [of k] by (simp add: unat_div)
  moreover have "2 ^ k div 2 > (16 :: 64 word) \<Longrightarrow> unat (16 :: 64 word) \<le> unat (2 ^ k div 2 :: 64 word)"
    by (simp add: word_less_nat_alt)
  ultimately show ?thesis
    by (auto simp: max_fill_def MAX_PROBES_def)
qed

lemma yacht_insert_cases:
  assumes ok: "yacht_ok k y"
  shows "yacht_insert (y_buckets y) (y_values y) (y_mask y) (max_fill (y_size y)) key v =
     Some (case first_hit k (y_buckets y) key (unat (max_fill (2 ^ k))) of
             None \<Rightarrow> (y_buckets y, y_values y, None, False)
           | Some m \<Rightarrow> let i = slot (mask k) key m in
               ((y_buckets y)[i := key], (y_values y)[i := v],
                if y_buckets y ! i = key then Some (y_values y ! i) else None, True))"
  using ok insert_loop_find [of "y_buckets y" k "y_values y" key v 0]
  by (simp add: yacht_ok_def yacht_insert_def first_hit_def)

definition set_post :: "'v yacht \<Rightarrow> nat \<Rightarrow> int \<Rightarrow> 'v option \<Rightarrow> 'v yacht \<Rightarrow> nat \<Rightarrow> bool \<Rightarrow> bool" where
  "set_post y k key v y' k' ok \<longleftrightarrow> yacht_ok k' y' \<and>
     (ok \<longrightarrow> Yacht_Get y' key = Some (Found v)) \<and>
     (probe_inv k (y_buckets y) \<longrightarrow> probe_inv k' (y_buckets y') \<and>
        yacht_map y' = (if ok then (yacht_map y)(key \<mapsto> v) else yacht_map y))"

lemma Yacht_Set_now:
  assumes ok: "yacht_ok k y" and nf: "\<not> free_bucket key"
    and fh: "first_hit k (y_buckets y) key (unat (max_fill (2 ^ k))) = Some m"
  obtains y' old where "Yacht_Set alloc y key v = Some (y', old, True)" "set_post y k key v y' k True"
proof -
  let ?i = "slot (mask k) key m"
  let ?y = "y\<lparr>y_buckets := (y_buckets y)[?i := key], y_values := (y_values y)[?i := v]\<rparr>"
  have k: "1 \<le> k" "k \<le> 61" "k \<le> 64" "length (y_buckets y) = 2 ^ k" "length (y_values y) = 2 ^ k"
    using ok by (auto simp: yacht_ok_def)
  have fh': "first_hit k (y_buckets y) key (2 ^ k) = Some m"
    using fh max_fill_le [OF k(1,2)] by (rule first_hit_le)
  have ok': "yacht_ok k ?y" using ok by (simp add: yacht_ok_def)
  have "Yacht_Get ?y key = Some (Found v)"
    using insert_keyed [OF k(3,4) fh' refl, of key] k ok'
    by (simp add: Yacht_Get_first_hit Let_def)
  moreover have "Yacht_Set alloc y key v =
      Some (?y, if y_buckets y ! ?i = key then Some (y_values y ! ?i) else None, True)"
    using yacht_insert_cases [OF ok, of key v] fh by (subst Yacht_Set.simps) (simp add: Let_def)
  ultimately show thesis
    using that ok' insert_table [OF k(3,4,5) _ nf fh' refl] by (auto simp: set_post_def)
qed

text \<open>The loop of \<^verbatim>\<open>Yacht_Set\<close> ends: each round doubles the table, and the request for
  \<open>2 ^ 62\<close> value cells of eight bytes cannot be met by \<^verbatim>\<open>calloc\<close>.\<close>

lemma Yacht_Set_total:
  assumes "yacht_ok k y" "\<not> free_bucket key" "\<not> snd (alloc (2 ^ 62))"
  shows "\<exists>y' old ok k'. Yacht_Set alloc y key v = Some (y', old, ok) \<and> set_post y k key v y' k' ok"
  using assms
proof (induction "61 - k" arbitrary: k y)
  case (0 k y)
  then have k: "k = 61" by (simp add: yacht_ok_def)
  show ?case
  proof (cases "first_hit k (y_buckets y) key (unat (max_fill (2 ^ k)))")
    case None
    have "grow alloc y = Some (y, False)"
      using 0 k by (intro grow_fails) (simp add: yacht_ok_def)
    then have "Yacht_Set alloc y key v = Some (y, None, False)"
      using yacht_insert_cases [OF 0(2), of key v] None by (subst Yacht_Set.simps) simp
    with 0 show ?thesis by (auto simp: set_post_def)
  next
    case (Some m)
    with 0 show ?thesis by (metis Yacht_Set_now)
  qed
next
  case (Suc d k y)
  then have k: "k < 61" by simp
  show ?case
  proof (cases "first_hit k (y_buckets y) key (unat (max_fill (2 ^ k)))")
    case None
    have step: "Yacht_Set alloc y key v = do { (y', grown) \<leftarrow> grow alloc y;
        if grown then Yacht_Set alloc y' key v else Some (y', None, False) }"
      using yacht_insert_cases [OF Suc.prems(1), of key v] None by (subst Yacht_Set.simps) simp
    have sz: "2 * y_size y = 2 ^ Suc k" using Suc.prems(1) by (simp add: yacht_ok_def)
    show ?thesis
    proof (cases "fst (alloc (2 ^ Suc k)) \<and> snd (alloc (2 ^ Suc k))")
      case True
      then obtain y1 where y1: "grow alloc y = Some (y1, True)" "yacht_ok (Suc k) y1"
        "probe_inv (Suc k) (y_buckets y1)" "yacht_map y1 =
          map_of (rev (filter (\<lambda>(b, _). \<not> free_bucket b) (zip (y_buckets y) (y_values y))))"
        using grow_table [OF Suc.prems(1) k] by blast
      have "d = 61 - Suc k" using Suc.hyps(2) by simp
      then obtain y' old ok k' where r: "Yacht_Set alloc y1 key v = Some (y', old, ok)"
        "set_post y1 (Suc k) key v y' k' ok"
        using Suc.hyps(1) y1(2) Suc.prems(2,3) by blast
      have "set_post y k key v y' k' ok"
        using r(2) y1 live_entries_map [OF Suc.prems(1)] by (auto simp: set_post_def)
      with step y1(1) r(1) show ?thesis by auto
    next
      case False
      then have "grow alloc y = Some (y, False)" using sz grow_fails [of alloc y] by simp
      with step Suc.prems(1) show ?thesis by (auto simp: set_post_def)
    qed
  next
    case (Some m)
    with Suc.prems show ?thesis by (metis Yacht_Set_now)
  qed
qed


section \<open>Removing a key\<close>

text \<open>\<^verbatim>\<open>Yacht_Remove\<close> walks over deleted buckets, \<^verbatim>\<open>Yacht_Get\<close> stops at them.\<close>

definition rhit :: "nat \<Rightarrow> int list \<Rightarrow> int \<Rightarrow> nat \<Rightarrow> bool" where
  "rhit k bs key n \<longleftrightarrow> (let b = bs ! slot (mask k) key n in b = key \<or> b = YACHT_NO_KEY)"

definition removed_at :: "nat \<Rightarrow> 'v yacht \<Rightarrow> bool \<Rightarrow> nat \<Rightarrow> 'v yacht" where
  "removed_at k y want_old i =
     y\<lparr>y_buckets := (y_buckets y)[i := if y_buckets y ! ((i + 1) mod 2 ^ k) = YACHT_NO_KEY
                                       then YACHT_NO_KEY else YACHT_DELETED],
       y_values := if want_old then (y_values y)[i := None] else y_values y\<rparr>"

lemma remove_loop_find:
  assumes "yacht_ok k y"
  shows "remove_loop y key want_old m n =
     Some (case find (rhit k (y_buckets y) key) [m..<m + n] of
             None \<Rightarrow> (y, Missing)
           | Some m' \<Rightarrow> let i = slot (mask k) key m' in
               if y_buckets y ! i = key then (removed_at k y want_old i, Found (y_values y ! i))
               else (y, Missing))"
proof (induction n arbitrary: m)
  case (Suc n)
  have "[m..<m + Suc n] = m # [Suc m..<Suc m + n]" by (simp add: upt_conv_Cons)
  moreover have i: "slot (mask k) key m < 2 ^ k" using assms by (simp add: yacht_ok_def)
  moreover have "unat ((of_nat (slot (mask k) key m) + 1 :: 64 word) AND mask k)
      = (slot (mask k) key m + 1) mod 2 ^ k"
  proof -
    have "(2::nat) ^ k \<le> 2 ^ 61" using assms by (intro power_increasing) (auto simp: yacht_ok_def)
    then have "unat (of_nat (slot (mask k) key m) + 1 :: 64 word) = slot (mask k) key m + 1"
      using i by (simp add: unat_word_ariths unat_of_nat)
    then show ?thesis by (simp add: unat_and_mask)
  qed
  ultimately show ?case
    using assms Suc.IH [of "Suc m"]
    by (simp add: yacht_ok_def index_def rhit_def Let_def removed_at_def del: upt_Suc)
qed simp

text \<open>Where the bucket of \<open>key\<close> lies on the path to \<open>x\<close>.\<close>

definition crosses :: "nat \<Rightarrow> int list \<Rightarrow> int \<Rightarrow> int \<Rightarrow> bool" where
  "crosses k bs key x \<longleftrightarrow>
     (case (first_hit k bs key (2 ^ k), first_hit k bs x (2 ^ k)) of
        (Some m, Some n) \<Rightarrow> \<exists>n' < n. slot (mask k) x n' = slot (mask k) key m
      | _ \<Rightarrow> False)"

lemma Yacht_Remove_map:
  assumes ok: "yacht_ok k y" and inv: "probe_inv k (y_buckets y)" and nf: "\<not> free_bucket key"
  shows "Yacht_Remove y key want_old = Some
     (case yacht_map y key of
        None \<Rightarrow> (y, Missing)
      | Some v \<Rightarrow> (removed_at k y want_old (slot (mask k) key (the (first_hit k (y_buckets y) key (2 ^ k)))),
                   Found v))"
proof -
  have k: "k \<le> 64" and len: "length (y_buckets y) = 2 ^ k" using ok by (auto simp: yacht_ok_def)
  note iff = table_map_iff [OF inv len, of "y_values y" key]
  have R: "Yacht_Remove y key want_old = Some (case find (rhit k (y_buckets y) key) [0..<2 ^ k] of
      None \<Rightarrow> (y, Missing)
    | Some m' \<Rightarrow> let i = slot (mask k) key m' in
        if y_buckets y ! i = key then (removed_at k y want_old i, Found (y_values y ! i))
        else (y, Missing))"
    using remove_loop_find [OF ok, of key want_old 0 "2 ^ k"] ok
    by (simp add: Yacht_Remove_def yacht_ok_def unat_pow2)
  show ?thesis
  proof (cases "yacht_map y key")
    case None
    have "y_buckets y ! slot (mask k) key m \<noteq> key" for m
    proof
      assume "y_buckets y ! slot (mask k) key m = key"
      then have "yacht_map y key = Some (y_values y ! slot (mask k) key m)"
        unfolding iff using k nf slot_less by blast
      with None show False by simp
    qed
    with R None show ?thesis by (simp split: option.split add: Let_def)
  next
    case (Some v)
    then obtain j where j: "j < 2 ^ k" "y_buckets y ! j = key" "y_values y ! j = v"
      unfolding iff by blast
    then obtain n where n: "first_hit k (y_buckets y) key (2 ^ k) = Some n" "slot (mask k) key n = j"
      using inv nf by (metis probe_inv_first)
    have "rhit k (y_buckets y) key n" using n j by (simp add: rhit_def)
    moreover have "\<not> rhit k (y_buckets y) key m" if "m < n" for m
      using n(1) that by (auto simp: first_hit_Some hit_def rhit_def Let_def)
    ultimately have "find (rhit k (y_buckets y) key) [0..<2 ^ k] = Some n"
      using n(1) by (auto simp: find_Some_iff first_hit_Some)
    with R Some n j show ?thesis by simp
  qed
qed

lemma removed_Get:
  assumes ok: "yacht_ok k y" and fh: "first_hit k (y_buckets y) key (2 ^ k) = Some m"
    and i: "i = slot (mask k) key m" and live: "y_buckets y ! i = key" and nf: "\<not> free_bucket key"
    and x: "x \<noteq> key" "\<not> free_bucket x"
  shows "Yacht_Get (removed_at k y want_old i) x =
     (if crosses k (y_buckets y) key x then Some Missing else Yacht_Get y x)"
proof -
  have k: "k \<le> 64" "length (y_buckets y) = 2 ^ k" "i < 2 ^ k" using ok i by (auto simp: yacht_ok_def)
  let ?y = "removed_at k y want_old i"
  obtain f where f: "y_buckets ?y = (y_buckets y)[i := f]" "free_bucket f"
    by (auto simp: removed_at_def)
  have ok': "yacht_ok k ?y" using ok by (simp add: removed_at_def yacht_ok_def)
  have same: "hit k (y_buckets ?y) x n = hit k (y_buckets y) x n" if "slot (mask k) x n \<noteq> i" for n
    using that f by (simp add: hit_def)
  have at_i: "hit k (y_buckets ?y) x n" "\<not> hit k (y_buckets y) x n" if "slot (mask k) x n = i" for n
    using that f k live x nf by (auto simp: hit_def Let_def)
  show ?thesis
  proof (cases "\<exists>n < 2 ^ k. slot (mask k) x n = i \<and> (\<forall>n' < n. \<not> hit k (y_buckets y) x n')")
    case True
    then obtain n where n: "n < 2 ^ k" "slot (mask k) x n = i" "\<forall>n' < n. \<not> hit k (y_buckets y) x n'" by blast
    have "\<not> hit k (y_buckets ?y) x n'" if "n' < n" for n'
      using same [of n'] n that slot_inj [OF k(1), of n' n x] by force
    then have "first_hit k (y_buckets ?y) x (2 ^ k) = Some n"
      using n at_i(1) by (simp add: first_hit_Some)
    then have M: "Yacht_Get ?y x = Some Missing"
      using ok' n f k x by (auto simp: Yacht_Get_first_hit Let_def)
    show ?thesis
    proof (cases "first_hit k (y_buckets y) x (2 ^ k)")
      case None
      with ok M show ?thesis by (simp add: crosses_def Yacht_Get_first_hit)
    next
      case (Some p)
      then have "n < p" using n at_i(2) by (metis first_hit_Some linorder_neqE_nat)
      then have "crosses k (y_buckets y) key x" using Some fh i n by (auto simp: crosses_def)
      with M show ?thesis by simp
    qed
  next
    case False
    have nc: "\<not> crosses k (y_buckets y) key x"
    proof
      assume "crosses k (y_buckets y) key x"
      then obtain p n' where p: "first_hit k (y_buckets y) x (2 ^ k) = Some p" "n' < p"
        "slot (mask k) x n' = i"
        using fh i by (auto simp: crosses_def split: option.splits)
      then have "n' < 2 ^ k" "\<forall>n'' < n'. \<not> hit k (y_buckets y) x n''" by (auto simp: first_hit_Some)
      with False p(3) show False by blast
    qed
    have eq: "first_hit k (y_buckets ?y) x (2 ^ k) = first_hit k (y_buckets y) x (2 ^ k)"
    proof (cases "first_hit k (y_buckets y) x (2 ^ k)")
      case None
      then have "\<forall>n < 2 ^ k. slot (mask k) x n \<noteq> i" using False by (auto simp: first_hit_None)
      with None same have "first_hit k (y_buckets ?y) x (2 ^ k) = None"
        unfolding first_hit_None by simp
      with None show ?thesis by simp
    next
      case (Some p)
      then have "\<forall>n \<le> p. slot (mask k) x n \<noteq> i"
        using False by (auto simp: first_hit_Some)
      with Some same have "first_hit k (y_buckets ?y) x (2 ^ k) = Some p"
        unfolding first_hit_Some by simp
      with Some show ?thesis by simp
    qed
    have "slot (mask k) x p \<noteq> i" if "first_hit k (y_buckets y) x (2 ^ k) = Some p" for p
      using that False by (auto simp: first_hit_Some)
    then have "Yacht_Get ?y x = Yacht_Get y x"
      using ok ok' eq f by (auto simp: Yacht_Get_first_hit removed_at_def Let_def split: option.splits)
    with nc show ?thesis by simp
  qed
qed


lemma removed_Get_self:
  assumes ok: "yacht_ok k y" and fh: "first_hit k (y_buckets y) key (2 ^ k) = Some m"
    and nf: "\<not> free_bucket key"
  shows "Yacht_Get (removed_at k y want_old (slot (mask k) key m)) key = Some Missing"
proof -
  let ?i = "slot (mask k) key m"
  have k: "k \<le> 64" "length (y_buckets y) = 2 ^ k" "?i < 2 ^ k" using ok by (auto simp: yacht_ok_def)
  have ok': "yacht_ok k (removed_at k y want_old ?i)" using ok by (simp add: removed_at_def yacht_ok_def)
  obtain f where f: "y_buckets (removed_at k y want_old ?i) = (y_buckets y)[?i := f]" "free_bucket f"
    by (auto simp: removed_at_def)
  have "first_hit k ((y_buckets y)[?i := f]) key (2 ^ k) = Some m"
    using insert_keyed [OF k(1,2) fh refl, of f] f by simp
  with ok' f k nf show ?thesis by (auto simp: Yacht_Get_first_hit Let_def)
qed

section \<open>The interface the bus relies on\<close>

text \<open>A finite map from descriptors with partial, possibly failing updates.\<close>

locale fd_map =
  fixes invar :: "'t \<Rightarrow> bool"
    and absm :: "'t \<Rightarrow> int \<Rightarrow> 'v option option"
    and get :: "'t \<Rightarrow> int \<Rightarrow> 'v lookup option"
    and put :: "'t \<Rightarrow> int \<Rightarrow> 'v option \<Rightarrow> ('t \<times> 'v option option \<times> bool) option"
    and valid :: "int \<Rightarrow> bool"
  assumes get_abs:
      "invar t \<Longrightarrow> valid key \<Longrightarrow> get t key = Some (case absm t key of None \<Rightarrow> Missing | Some v \<Rightarrow> Found v)"
    and set_total: "invar t \<Longrightarrow> valid key \<Longrightarrow> \<exists>t' old ok. put t key v = Some (t', old, ok)"
    and set_invar: "invar t \<Longrightarrow> valid key \<Longrightarrow> put t key v = Some (t', old, ok) \<Longrightarrow> invar t'"
    and set_abs: "invar t \<Longrightarrow> valid key \<Longrightarrow> put t key v = Some (t', old, ok) \<Longrightarrow>
      absm t' = (if ok then (absm t)(key \<mapsto> v) else absm t)"
begin

lemma get_set:
  assumes "invar t" "valid key" "valid x" "put t key v = Some (t', old, ok)"
  shows "get t' x = (if ok \<and> x = key then Some (Found v) else get t x)"
proof -
  have "get t' x = Some (case absm t' x of None \<Rightarrow> Missing | Some w \<Rightarrow> Found w)"
    using set_invar [OF assms(1,2,4)] assms(3) by (rule get_abs)
  moreover have "get t x = Some (case absm t x of None \<Rightarrow> Missing | Some w \<Rightarrow> Found w)"
    using assms(1,3) by (rule get_abs)
  ultimately show ?thesis using set_abs [OF assms(1,2,4)] by simp
qed

end

definition yacht_inv :: "'v yacht \<Rightarrow> bool" where
  "yacht_inv y \<longleftrightarrow> (\<exists>k. yacht_ok k y \<and> probe_inv k (y_buckets y))"

text \<open>An allocator that refuses the \<open>2 ^ 65\<close> bytes of \<open>2 ^ 62\<close> pointers.\<close>

definition bounded_alloc :: "(size_t \<Rightarrow> bool \<times> bool) \<Rightarrow> size_t \<Rightarrow> bool \<times> bool" where
  "bounded_alloc alloc n = (fst (alloc n), snd (alloc n) \<and> n \<noteq> 2 ^ 62)"

interpretation yacht: fd_map yacht_inv yacht_map Yacht_Get
  "Yacht_Set (bounded_alloc alloc)" "\<lambda>key. \<not> free_bucket key"
proof
  fix y :: "'v yacht" and key v y' old ok
  have lim: "\<not> snd (bounded_alloc alloc (2 ^ 62))" by (simp add: bounded_alloc_def)
  assume i: "yacht_inv y" and nf: "\<not> free_bucket key"
  then obtain k where k: "yacht_ok k y" "probe_inv k (y_buckets y)" by (auto simp: yacht_inv_def)
  show "Yacht_Get y key = Some (case yacht_map y key of None \<Rightarrow> Missing | Some v \<Rightarrow> Found v)"
    using k nf by (rule Yacht_Get_map)
  obtain y1 old1 ok1 k1 where r: "Yacht_Set (bounded_alloc alloc) y key v = Some (y1, old1, ok1)"
    "set_post y k key v y1 k1 ok1"
    using Yacht_Set_total [where alloc = "bounded_alloc alloc", OF k(1) nf lim] by blast
  then show "\<exists>y' old ok. Yacht_Set (bounded_alloc alloc) y key v = Some (y', old, ok)" by blast
  assume "Yacht_Set (bounded_alloc alloc) y key v = Some (y', old, ok)"
  with r have p: "set_post y k key v y' k1 ok" by simp
  with k(2) show "yacht_inv y'" by (auto simp: set_post_def yacht_inv_def)
  from p k(2) show "yacht_map y' = (if ok then (yacht_map y)(key \<mapsto> v) else yacht_map y)"
    by (auto simp: set_post_def)
qed

section \<open>Properties of the hash table\<close>

text \<open>C15: on a well-formed table without interrupted probe sequences, lookups agree with
  the stored entries; setting a key always returns, keeps the table well formed, makes the
  key's lookup give the new value and changes no other lookup, also when the table had to
  grow; when it reports failure no lookup changes.\<close>
theorem set_then_get:
  assumes "yacht_inv y" "\<not> free_bucket key" "\<not> free_bucket x"
  shows "\<exists>y' old ok. Yacht_Set (bounded_alloc alloc) y key v = Some (y', old, ok) \<and> yacht_inv y' \<and>
     Yacht_Get y' x = (if ok \<and> x = key then Some (Found v) else Yacht_Get y x)"
proof -
  obtain y' old ok where "Yacht_Set (bounded_alloc alloc) y key v = Some (y', old, ok)"
    using yacht.set_total [OF assms(1,2)] by blast
  with assms show ?thesis using yacht.set_invar yacht.get_set by blast
qed

definition ex_yacht :: "nat yacht" where
  "ex_yacht = \<lparr>y_size = 2, y_mask = 1, y_buckets = [-1, -1], y_values = [None, None]\<rparr>"

lemma ex_yacht_inv: "yacht_inv ex_yacht"
  unfolding yacht_inv_def yacht_ok_def ex_yacht_def
  by (rule exI [of _ 1]) (auto simp: probe_inv_def yacht_consts mask_eq_exp_minus_1 less_2_cases_iff)

theorem set_then_get_witness:
  "\<exists>y' old ok. Yacht_Set (bounded_alloc (\<lambda>_. (True, True))) ex_yacht 5 (Some 7) = Some (y', old, ok) \<and>
     yacht_inv y' \<and>
     Yacht_Get y' 6 = (if ok \<and> (6::int) = 5 then Some (Found (Some 7)) else Yacht_Get ex_yacht 6)"
  by (rule set_then_get [OF ex_yacht_inv]) (simp_all add: yacht_consts)

text \<open>whatever state the table is in (interrupted probe sequences and duplicate keys
  included), setting a key returns, and if it reports success the very next lookup of that
  key finds the new value.\<close>
theorem set_returns_and_is_visible:
  assumes "yacht_ok k y" "\<not> free_bucket key"
  shows "\<exists>y' old ok k'. Yacht_Set (bounded_alloc alloc) y key v = Some (y', old, ok) \<and>
     yacht_ok k' y' \<and> (ok \<longrightarrow> Yacht_Get y' key = Some (Found v))"
proof -
  have "\<not> snd (bounded_alloc alloc (2 ^ 62))" by (simp add: bounded_alloc_def)
  from Yacht_Set_total [where alloc = "bounded_alloc alloc", OF assms this] show ?thesis unfolding set_post_def by blast
qed

lemma ex_yacht_ok: "yacht_ok 1 ex_yacht"
  by (simp add: yacht_ok_def ex_yacht_def mask_eq_exp_minus_1)

theorem set_returns_and_is_visible_witness:
  "\<exists>y' old ok k'. Yacht_Set (bounded_alloc (\<lambda>_. (False, True))) ex_yacht 5 (Some 7) = Some (y', old, ok) \<and>
     yacht_ok k' y' \<and> (ok \<longrightarrow> Yacht_Get y' 5 = Some (Found (Some 7)))"
  by (rule set_returns_and_is_visible [OF ex_yacht_ok]) (simp add: yacht_consts)

text \<open>removing a key from a table whose lookups all work reports the value it had,
  makes it absent, and changes the lookup of another key exactly when the removed bucket
  lies on that key's probe path: such a key is still stored but can no longer be found.\<close>
theorem remove_effect_on_lookups:
  assumes "yacht_ok k y" "probe_inv k (y_buckets y)" "\<not> free_bucket key"
  shows "\<exists>y'. Yacht_Remove y key want_old =
       Some (y', case yacht_map y key of None \<Rightarrow> Missing | Some v \<Rightarrow> Found v) \<and>
     Yacht_Get y' key = Some Missing \<and>
     (\<forall>x. x \<noteq> key \<and> \<not> free_bucket x \<longrightarrow>
        Yacht_Get y' x = (if yacht_map y key \<noteq> None \<and> crosses k (y_buckets y) key x
                          then Some Missing else Yacht_Get y x))"
proof (cases "yacht_map y key")
  case None
  with assms show ?thesis by (auto simp: Yacht_Remove_map Yacht_Get_map)
next
  case (Some v)
  have len: "length (y_buckets y) = 2 ^ k" using assms(1) by (simp add: yacht_ok_def)
  from Some obtain j where j: "j < 2 ^ k" "y_buckets y ! j = key"
    unfolding table_map_iff [OF assms(2) len] by blast
  then obtain m where m: "first_hit k (y_buckets y) key (2 ^ k) = Some m" "slot (mask k) key m = j"
    using assms(2,3) by (metis probe_inv_first)
  show ?thesis
    using Some m j assms removed_Get [OF assms(1) m(1) refl] removed_Get_self [OF assms(1) m(1)]
    by (auto simp: Yacht_Remove_map)
qed

theorem remove_effect_on_lookups_witness:
  "\<exists>y'. Yacht_Remove ex_yacht 5 True =
       Some (y', case yacht_map ex_yacht 5 of None \<Rightarrow> Missing | Some v \<Rightarrow> Found v) \<and>
     Yacht_Get y' 5 = Some Missing \<and>
     (\<forall>x. x \<noteq> 5 \<and> \<not> free_bucket x \<longrightarrow>
        Yacht_Get y' x = (if yacht_map ex_yacht 5 \<noteq> None \<and> crosses 1 (y_buckets ex_yacht) 5 x
                          then Some Missing else Yacht_Get ex_yacht x))"
proof (rule remove_effect_on_lookups [OF ex_yacht_ok])
  show "probe_inv 1 (y_buckets ex_yacht)"
    by (auto simp: probe_inv_def ex_yacht_def yacht_consts less_2_cases_iff)
qed (simp add: yacht_consts)

definition lost_key_run :: "(nat lookup \<times> nat lookup \<times> int list) option" where
  "lost_key_run =
     do { y0 \<leftarrow> Yacht_Init (True, True, True) 4;
          (y1, _, _) \<leftarrow> Yacht_Set (\<lambda>_. (True, True)) y0 3 (Some 30);
          (y2, _, _) \<leftarrow> Yacht_Set (\<lambda>_. (True, True)) y1 19 (Some 190);
          before \<leftarrow> Yacht_Get y2 19;
          (y3, _) \<leftarrow> Yacht_Remove y2 3 True;
          after \<leftarrow> Yacht_Get y3 19;
          Some (before, after, y_buckets y3) }"


end
