(* ===== verification/Bus_Poll.thy ===== *)
theory Bus_Poll
  imports Bus_Types
begin

text \<open>
  How a client thread waits for the listener: \<^verbatim>\<open>bus_poll.c\<close>, with the error classification and
  the clock of \<^verbatim>\<open>util.c\<close> and the backpressure delay of \<^verbatim>\<open>bus.c\<close>. Functions that loop on the
  outside world recurse on the list of what it answers; \<open>None\<close> means that an assertion fails
  or that the call has not returned when the answers end.
\<close>

section \<open>Errors and clock\<close>

datatype errno = EAGAIN | EINTR | EWOULDBLOCK | EOTHER

definition Util_IsResumableIOError :: "errno \<Rightarrow> bool" where
  "Util_IsResumableIOError e \<longleftrightarrow> e = EAGAIN \<or> e = EINTR \<or> e = EWOULDBLOCK"

text \<open>The result of \<^verbatim>\<open>gettimeofday\<close>; the clock is the wall clock whether or not \<open>relative\<close> is set.\<close>

definition Util_Timestamp :: "bool \<Rightarrow> timeval option \<Rightarrow> bool \<Rightarrow> timeval option" where
  "Util_Timestamp tv_null gettimeofday_res relative = (if tv_null then None else gettimeofday_res)"

section \<open>Backpressure\<close>

text \<open>The delay, if any, is the argument of \<^verbatim>\<open>poll\<close>, an \<^verbatim>\<open>int\<close>.\<close>

definition Bus_BackpressureDelay :: "size_t \<Rightarrow> nat \<Rightarrow> int list" where
  "Bus_BackpressureDelay backpressure shift =
     (let bp = drop_bit shift backpressure
      in if bp > 0 then [sint (ucast bp :: 32 word)] else [])"

definition LISTENER_BACKPRESSURE_SHIFT :: nat where "LISTENER_BACKPRESSURE_SHIFT = 0"
definition LISTENER_EXPECT_BACKPRESSURE_SHIFT :: nat where "LISTENER_EXPECT_BACKPRESSURE_SHIFT = 7"

lemma sint_ucast_small:
  assumes "unat (w :: size_t) < 2 ^ 31"
  shows "sint (ucast w :: 32 word) = int (unat w)"
proof -
  have lt: "uint w < 2 ^ 31"
    using assms by (metis nat_less_numeral_power_cancel_iff unat_eq_nat_uint)
  have u: "uint (ucast w :: 32 word) = int (unat w)"
    using lt by (simp add: unsigned_ucast_eq take_bit_int_eq_self)
  moreover have "signed_take_bit 31 (uint (ucast w :: 32 word)) = uint (ucast w :: 32 word)"
    unfolding u by (rule signed_take_bit_int_eq_self) (use lt in \<open>simp_all add: order_trans [of _ 0]\<close>)
  ultimately show ?thesis using sint_uint [of "ucast w :: 32 word"] by simp
qed

lemma unat_drop_bit: "unat (drop_bit n (w :: size_t)) = unat w div 2 ^ n"
  unfolding unsigned_drop_bit_eq drop_bit_nat_def
  using unat_lt_64 [of w] by (simp add: take_bit_nat_eq_self)

text \<open>Below \<^verbatim>\<open>INT_MAX\<close> the delay is the shifted backpressure in milliseconds, never negative.\<close>

lemma BackpressureDelay_eq:
  assumes "unat bp div 2 ^ shift < 2 ^ 31"
  shows "Bus_BackpressureDelay bp shift =
    (if unat bp div 2 ^ shift = 0 then [] else [int (unat bp div 2 ^ shift)])"
proof -
  have "drop_bit shift bp > 0 \<longleftrightarrow> unat bp div 2 ^ shift \<noteq> 0"
    unfolding unat_drop_bit [symmetric] word_gt_0 by (simp add: unat_eq_0)
  then show ?thesis
    using sint_ucast_small [of "drop_bit shift bp"] assms
    by (simp add: Bus_BackpressureDelay_def Let_def unat_drop_bit)
qed

section \<open>Waiting for a completion notice\<close>

datatype pipe_answer =
    PA_Error errno
  | PA_Zero
  | PA_Broken
  | PA_Read_error errno
  | PA_Bytes "u8 list"

text \<open>Each answer is the outcome of one round: \<^verbatim>\<open>poll\<close> fails, returns 0, reports a broken pipe, or
  the read fails or gives bytes. The result is whether the notice arrived, and the delay.\<close>

fun BusPoll_OnCompletion :: "pipe_answer list \<Rightarrow> (bool \<times> int list) option" where
  "BusPoll_OnCompletion [] = None"
| "BusPoll_OnCompletion (PA_Error e # as) =
     (if Util_IsResumableIOError e then BusPoll_OnCompletion as else Some (False, []))"
| "BusPoll_OnCompletion (PA_Zero # as) = BusPoll_OnCompletion as"
| "BusPoll_OnCompletion (PA_Broken # as) = Some (False, [])"
| "BusPoll_OnCompletion (PA_Read_error e # as) =
     (if Util_IsResumableIOError e then BusPoll_OnCompletion as else Some (False, []))"
| "BusPoll_OnCompletion (PA_Bytes bs # as) =
     (if length bs = 3 then
        do { c_assert (bs ! 0 = LISTENER_MSG_TAG);
             let msec = (ucast (bs ! 1) + push_bit 8 (ucast (bs ! 2)) :: u16);
             Some (True, Bus_BackpressureDelay (ucast msec) LISTENER_BACKPRESSURE_SHIFT) }
      else Some (False, []))"

definition pa_transient :: "pipe_answer \<Rightarrow> bool" where
  "pa_transient a = (case a of PA_Error e \<Rightarrow> Util_IsResumableIOError e
     | PA_Read_error e \<Rightarrow> Util_IsResumableIOError e | PA_Zero \<Rightarrow> True | _ \<Rightarrow> False)"

lemma OnCompletion_skips:
  "(\<forall>a \<in> set xs. pa_transient a) \<Longrightarrow> BusPoll_OnCompletion (xs @ as) = BusPoll_OnCompletion as"
proof (induction xs)
  case (Cons a xs)
  then show ?case by (cases a) (simp_all add: pa_transient_def)
qed simp

lemma OnCompletion_False_fatal:
  assumes "BusPoll_OnCompletion as = Some (False, ds)"
  shows "ds = [] \<and> (\<exists>a \<in> set as. \<not> pa_transient a)"
  using assms by (induction as rule: BusPoll_OnCompletion.induct)
    (auto simp: pa_transient_def Let_def split: if_splits)

text \<open>The two bytes of a notice put together again.\<close>

lemma u16_bytes_join:
  "ucast (ucast (w AND 0xff) :: u8) + push_bit 8 (ucast (ucast (drop_bit 8 w AND 0xff) :: u8)) = (w :: u16)"
proof -
  have byte_mask: "(0xff :: u16) = mask 8" by (simp add: mask_eq_exp_minus_1)
  have "ucast (ucast (w AND 0xff) :: u8) AND push_bit 8 (ucast (ucast (drop_bit 8 w AND 0xff) :: u8)) = (0 :: u16)"
    by (rule bit_word_eqI) (auto simp: bit_simps)
  then have "ucast (ucast (w AND 0xff) :: u8) + push_bit 8 (ucast (ucast (drop_bit 8 w AND 0xff) :: u8)) =
      (ucast (ucast (w AND 0xff) :: u8) OR push_bit 8 (ucast (ucast (drop_bit 8 w AND 0xff) :: u8)) :: u16)"
    by (rule disjunctive_add_eq_or)
  also have "\<dots> = w"
    unfolding byte_mask by (rule bit_word_eqI) (auto simp: bit_simps)
  finally show ?thesis .
qed

end
