(* ===== verification/Send.thy ===== *)
theory Send
  imports Bus_Poll
begin

text \<open>
  The sending half of a request: \<^verbatim>\<open>send.c\<close> and \<^verbatim>\<open>send_helper.c\<close>. The client thread announces the
  request to the listener (HOLD), writes it to the socket within its timeout, and then
  gives the box away: to the listener (EXPECT) or, on failure, to the thread pool. The
  listener and the thread pool run concurrently, so their answers are inputs; what the thread
  does to the outside is a list of events. \<open>None\<close> means that an assertion fails or
  that the call has not returned when the answers end.
\<close>

section \<open>Answers of the outside and events\<close>

datatype plain_write = PW_Wrote nat | PW_Error errno

datatype ssl_write =
    SW_Wrote nat
  | SW_Zero
  | SW_Want_write
  | SW_Want_read
  | SW_Syscall errno
  | SW_Ssl
  | SW_Other

record wrevents =
  W_POLLNVAL :: bool
  W_POLLERR :: bool
  W_POLLHUP :: bool
  W_POLLOUT :: bool

datatype send_poll = SP_Error errno | SP_Timeout | SP_Ready wrevents

text \<open>One turn of the loop in \<^verbatim>\<open>Send_DoBlockingSend\<close>: the clock, the poll, the socket, the clock
  after the last byte, and the listener's answers to EXPECT (accepted, backpressure).\<close>

record send_round =
  sr_now :: "timeval option"
  sr_poll :: send_poll
  sr_plain :: "plain_write list"
  sr_ssl :: "ssl_write list"
  sr_done :: "timeval option"
  sr_expect :: "(bool \<times> u16) list"

datatype send_event =
    SE_Hold int int int bool
  | SE_Sleep int
  | SE_Poll int
  | SE_Write "u8 list"
  | SE_Expect boxed_msg
  | SE_Deliver boxed_msg

definition SEND_NOTIFY_LISTENER_RETRIES :: nat where "SEND_NOTIFY_LISTENER_RETRIES = 10"
definition SEND_NOTIFY_LISTENER_RETRY_DELAY :: int where "SEND_NOTIFY_LISTENER_RETRY_DELAY = 5"

datatype SendHelper_HandleWrite_res = SHHW_OK | SHHW_DONE | SHHW_ERROR

section \<open>Failure: the thread pool gets the box\<close>

fun handle_failure_loop :: "boxed_msg \<Rightarrow> (bool \<times> size_t) list \<Rightarrow> send_event list option" where
  "handle_failure_loop box [] = None"
| "handle_failure_loop box ((ok, backpressure) # rs) =
     (if ok then Some (SE_Deliver box # map SE_Sleep (Bus_BackpressureDelay backpressure LISTENER_EXPECT_BACKPRESSURE_SHIFT))
      else map_option ((#) (SE_Sleep SEND_NOTIFY_LISTENER_RETRY_DELAY)) (handle_failure_loop box rs))"

definition Send_HandleFailure ::
  "boxed_msg \<Rightarrow> bus_send_status \<Rightarrow> (bool \<times> size_t) list \<Rightarrow> send_event list option" where
  "Send_HandleFailure box status pool =
     do { c_assert (status \<noteq> BUS_SEND_UNDEFINED);
          handle_failure_loop (box\<lparr>bx_status := status, bx_response := None\<rparr>) pool }"

section \<open>Writing\<close>

text \<open>The socket takes at most the bytes it is offered.\<close>

fun write_plain :: "boxed_msg \<Rightarrow> plain_write list \<Rightarrow> int option" where
  "write_plain box [] = None"
| "write_plain box (PW_Error e # ws) =
     (if Util_IsResumableIOError e then write_plain box ws else Some (-1))"
| "write_plain box (PW_Wrote k # ws) =
     (let rem = bx_out_msg_size box - bx_out_sent_size box in Some (int (min k (unat rem))))"

fun ssl_write_loop :: "size_t \<Rightarrow> ssl_write list \<Rightarrow> int option" where
  "ssl_write_loop rem [] = None"
| "ssl_write_loop rem (SW_Wrote k # ws) = Some (int (min (Suc k) (unat rem)))"
| "ssl_write_loop rem (SW_Zero # ws) = ssl_write_loop rem ws"
| "ssl_write_loop rem (SW_Want_write # ws) = Some 0"
| "ssl_write_loop rem (SW_Want_read # ws) = None"
| "ssl_write_loop rem (SW_Syscall e # ws) =
     (if Util_IsResumableIOError e then ssl_write_loop rem ws else Some (-1))"
| "ssl_write_loop rem (SW_Ssl # ws) = Some (-1)"
| "ssl_write_loop rem (SW_Other # ws) = Some (-1)"

definition write_ssl :: "boxed_msg \<Rightarrow> ssl_write list \<Rightarrow> int option" where
  "write_ssl box ws =
     (let rem = bx_out_msg_size box - bx_out_sent_size box in
      do { c_assert (sint rem \<ge> 0);
           if sint rem > 0 then ssl_write_loop rem ws else Some 0 })"

section \<open>Handing over to the listener\<close>

fun expect_retries :: "boxed_msg \<Rightarrow> nat \<Rightarrow> (bool \<times> u16) list \<Rightarrow> (bool \<times> send_event list) option" where
  "expect_retries box 0 as = Some (False, [])"
| "expect_retries box (Suc n) [] = None"
| "expect_retries box (Suc n) ((ok, backpressure) # as) =
     (if ok then Some (True, SE_Expect box #
        map SE_Sleep (Bus_BackpressureDelay (ucast backpressure) LISTENER_EXPECT_BACKPRESSURE_SHIFT))
      else map_option (\<lambda>(r, evs). (r, SE_Sleep SEND_NOTIFY_LISTENER_RETRY_DELAY # evs)) (expect_retries box n as))"

definition enqueue_EXPECT_message_to_listener ::
  "boxed_msg \<Rightarrow> (bool \<times> u16) list \<Rightarrow> (bool \<times> boxed_msg \<times> send_event list) option" where
  "enqueue_EXPECT_message_to_listener box as =
     (let box1 = (if bx_status box = BUS_SEND_UNDEFINED then box\<lparr>bx_status := BUS_SEND_REQUEST_COMPLETE\<rparr> else box) in
      do { (ok, evs) \<leftarrow> expect_retries box1 SEND_NOTIFY_LISTENER_RETRIES as;
           Some (ok, box1, evs) })"

fun hold_retries ::
  "int \<Rightarrow> int \<Rightarrow> int \<Rightarrow> nat \<Rightarrow> bool list \<Rightarrow> pipe_answer list \<Rightarrow> (bool \<times> send_event list) option" where
  "hold_retries fd seq_id t 0 hs as = Some (False, [])"
| "hold_retries fd seq_id t (Suc n) [] as = None"
| "hold_retries fd seq_id t (Suc n) (ok # hs) as =
     (if ok then
        do { (done, delays) \<leftarrow> BusPoll_OnCompletion as;
             Some (done, SE_Hold fd seq_id t done # map SE_Sleep delays) }
      else map_option (\<lambda>(r, evs). (r, SE_Sleep SEND_NOTIFY_LISTENER_RETRY_DELAY # evs)) (hold_retries fd seq_id t n hs as))"

text \<open>The timeout is passed as an \<^verbatim>\<open>int16_t\<close>.\<close>

definition attempt_to_enqueue_HOLD_message_to_listener ::
  "int \<Rightarrow> int \<Rightarrow> int \<Rightarrow> bool list \<Rightarrow> pipe_answer list \<Rightarrow> (bool \<times> send_event list) option" where
  "attempt_to_enqueue_HOLD_message_to_listener fd seq_id timeout_sec hs as =
     hold_retries fd seq_id (sint (of_int timeout_sec :: 16 word)) SEND_NOTIFY_LISTENER_RETRIES hs as"

section \<open>One write and the loop\<close>

text \<open>After the write: the box goes to the listener once the whole message is written.\<close>

definition after_write ::
  "boxed_msg \<Rightarrow> send_round \<Rightarrow> (bool \<times> size_t) list \<Rightarrow>
   (SendHelper_HandleWrite_res \<times> boxed_msg \<times> send_event list) option" where
  "after_write box r pool =
     (let rem = bx_out_msg_size box - bx_out_sent_size box in
      if rem = 0 then
        (case Util_Timestamp False (sr_done r) True of
           None \<Rightarrow>
             do { evs \<leftarrow> Send_HandleFailure box BUS_SEND_TIMESTAMP_ERROR pool; Some (SHHW_ERROR, box, evs) }
         | Some now \<Rightarrow>
             do { let box1 = box\<lparr>bx_tv_send_done := now\<rparr>;
                  (ok, box2, evs) \<leftarrow> enqueue_EXPECT_message_to_listener box1 (sr_expect r);
                  if ok then Some (SHHW_DONE, box2, evs)
                  else do { evs' \<leftarrow> Send_HandleFailure box2 BUS_SEND_TX_TIMEOUT_NOTIFYING_LISTENER pool;
                            Some (SHHW_ERROR, box2, evs @ evs') } })
      else Some (SHHW_OK, box, []))"

definition SendHelper_HandleWrite ::
  "boxed_msg \<Rightarrow> send_round \<Rightarrow> (bool \<times> size_t) list \<Rightarrow>
   (SendHelper_HandleWrite_res \<times> boxed_msg \<times> send_event list) option" where
  "SendHelper_HandleWrite box r pool =
     do { wrsz \<leftarrow> (if bx_ssl box = None then write_plain box (sr_plain r) else write_ssl box (sr_ssl r));
          if wrsz = -1 then
            do { evs \<leftarrow> Send_HandleFailure box BUS_SEND_TX_FAILURE pool; Some (SHHW_ERROR, box, evs) }
          else
            do { let sent = take (nat wrsz) (drop (unat (bx_out_sent_size box)) (bx_out_msg box));
                 let box1 = (if wrsz = 0 then box else box\<lparr>bx_out_sent_size := bx_out_sent_size box + of_int wrsz\<rparr>);
                 (res, box2, evs) \<leftarrow> after_write box1 r pool;
                 Some (res, box2, SE_Write sent # evs) } }"

text \<open>The remaining milliseconds, in the arithmetic of the code: the elapsed time is a
  \<^verbatim>\<open>size_t\<close>, the difference is converted back to \<^verbatim>\<open>int\<close>.\<close>

definition remaining_msec :: "int \<Rightarrow> timeval \<Rightarrow> timeval \<Rightarrow> int" where
  "remaining_msec timeout_msec start now =
     (let usec_elapsed = (of_int ((tv_sec now - tv_sec start) * 1000000 + (tv_usec now - tv_usec start)) :: size_t);
          msec_elapsed = usec_elapsed div 1000
      in sint (ucast (of_int timeout_msec - msec_elapsed :: size_t) :: 32 word))"

fun send_loop ::
  "int \<Rightarrow> timeval \<Rightarrow> (bool \<times> size_t) list \<Rightarrow> send_round list \<Rightarrow> int \<Rightarrow> boxed_msg \<Rightarrow> send_event list option" where
  "send_loop timeout_msec start pool rs rem_msec box =
     (if \<not> rem_msec > 0 then Send_HandleFailure box BUS_SEND_TX_TIMEOUT pool
      else case rs of
        [] \<Rightarrow> None
      | r # rs' \<Rightarrow>
          (case Util_Timestamp False (sr_now r) True of
             None \<Rightarrow> Send_HandleFailure box BUS_SEND_TX_FAILURE pool
           | Some now \<Rightarrow>
               (let rem = remaining_msec timeout_msec start now in
                map_option ((#) (SE_Poll rem))
                  (case sr_poll r of
                     SP_Error e \<Rightarrow>
                       if e = EINTR \<or> e = EAGAIN then send_loop timeout_msec start pool rs' rem box
                       else Send_HandleFailure box BUS_SEND_TX_FAILURE pool
                   | SP_Timeout \<Rightarrow> Send_HandleFailure box BUS_SEND_TX_TIMEOUT pool
                   | SP_Ready ev \<Rightarrow>
                       if W_POLLNVAL ev then Send_HandleFailure box BUS_SEND_UNREGISTERED_SOCKET pool
                       else if W_POLLERR ev \<or> W_POLLHUP ev then Send_HandleFailure box BUS_SEND_TX_FAILURE pool
                       else if W_POLLOUT ev then
                         (case SendHelper_HandleWrite box r pool of
                            None \<Rightarrow> None
                          | Some (SHHW_OK, box', evs) \<Rightarrow>
                              map_option ((@) evs) (send_loop timeout_msec start pool rs' rem box')
                          | Some (_, box', evs) \<Rightarrow> Some evs)
                       else None))))"

declare send_loop.simps [simp del]

text \<open>\<^verbatim>\<open>start_ts\<close> is the first clock reading, \<open>holds\<close> and \<open>notice\<close> the listener's answers to HOLD, \<open>rounds\<close>
  the turns of the loop and \<open>pool\<close> the thread pool's answers.\<close>

definition Send_DoBlockingSend ::
  "boxed_msg \<Rightarrow> timeval option \<Rightarrow> bool list \<Rightarrow> pipe_answer list \<Rightarrow> send_round list \<Rightarrow>
   (bool \<times> size_t) list \<Rightarrow> (bool \<times> send_event list) option" where
  "Send_DoBlockingSend box start_ts holds notice rounds pool =
     (let timeout_msec = sint (of_int (bx_timeout_sec box * 1000) :: 32 word) in
      case Util_Timestamp False start_ts True of
        None \<Rightarrow> Some (False, [])
      | Some start \<Rightarrow>
          do { let box1 = box\<lparr>bx_tv_send_start := start\<rparr>;
               (held, evs) \<leftarrow> attempt_to_enqueue_HOLD_message_to_listener (bx_fd box1) (bx_out_seq_id box1)
                 (bx_timeout_sec box1 + 5) holds notice;
               if \<not> held then Some (False, evs)
               else do { c_assert (bx_out_sent_size box1 = 0);
                         evs' \<leftarrow> send_loop timeout_msec start pool rounds timeout_msec box1;
                         Some (True, evs @ evs') } })"

section \<open>What leaves the thread\<close>

fun written :: "send_event list \<Rightarrow> u8 list" where
  "written [] = []"
| "written (SE_Write bs # evs) = bs @ written evs"
| "written (ev # evs) = written evs"

definition is_handover :: "send_event \<Rightarrow> bool" where
  "is_handover ev = (case ev of SE_Expect b \<Rightarrow> True | SE_Deliver b \<Rightarrow> True | _ \<Rightarrow> False)"

abbreviation handovers :: "send_event list \<Rightarrow> send_event list" where
  "handovers \<equiv> filter is_handover"

lemma written_append [simp]: "written (xs @ ys) = written xs @ written ys"
  by (induction xs rule: written.induct) simp_all

lemma is_handover_simps [simp]:
  "\<not> is_handover (SE_Hold fd sid t h)" "\<not> is_handover (SE_Sleep ms)" "\<not> is_handover (SE_Poll ms)"
  "\<not> is_handover (SE_Write bs)" "is_handover (SE_Expect b)" "is_handover (SE_Deliver b)"
  by (simp_all add: is_handover_def)

lemma sleeps_silent [simp]: "written (map SE_Sleep ds) = []" "handovers (map SE_Sleep ds) = []"
  by (induction ds) simp_all

text \<open>A request keeps its identity on its way.\<close>

definition same_request :: "boxed_msg \<Rightarrow> boxed_msg \<Rightarrow> bool" where
  "same_request a b \<longleftrightarrow> bx_fd a = bx_fd b \<and> bx_out_seq_id a = bx_out_seq_id b \<and> bx_udata a = bx_udata b \<and>
     bx_out_msg a = bx_out_msg b \<and> bx_out_msg_size a = bx_out_msg_size b \<and> bx_timeout_sec a = bx_timeout_sec b"

definition msg_ok :: "boxed_msg \<Rightarrow> bool" where
  "msg_ok b \<longleftrightarrow> length (bx_out_msg b) = unat (bx_out_msg_size b) \<and> bx_out_sent_size b \<le> bx_out_msg_size b"

definition unsent :: "boxed_msg \<Rightarrow> u8 list" where
  "unsent b = drop (unat (bx_out_sent_size b)) (bx_out_msg b)"

definition send_failure :: "bus_send_status \<Rightarrow> bool" where
  "send_failure st \<longleftrightarrow> st \<in> {BUS_SEND_TX_TIMEOUT, BUS_SEND_TX_FAILURE, BUS_SEND_UNREGISTERED_SOCKET,
     BUS_SEND_TIMESTAMP_ERROR, BUS_SEND_TX_TIMEOUT_NOTIFYING_LISTENER}"

lemma same_request_refl [simp]: "same_request b b"
  by (simp add: same_request_def)

lemma same_request_trans: "same_request a b \<Longrightarrow> same_request b c \<Longrightarrow> same_request a c"
  by (simp add: same_request_def)

lemma handle_failure_loop_events:
  "handle_failure_loop box pool = Some evs \<Longrightarrow> handovers evs = [SE_Deliver box] \<and> written evs = []"
  by (induction box pool arbitrary: evs rule: handle_failure_loop.induct) (auto split: if_splits)

lemma HandleFailure_events:
  assumes "Send_HandleFailure box st pool = Some evs"
  shows "handovers evs = [SE_Deliver (box\<lparr>bx_status := st, bx_response := None\<rparr>)]" "written evs = []"
  using assms handle_failure_loop_events by (auto simp: Send_HandleFailure_def split: if_splits)

lemma handle_failure_returns:
  assumes "(True, bp) \<in> set pool" "st \<noteq> BUS_SEND_UNDEFINED"
  shows "\<exists>evs. Send_HandleFailure box st pool = Some evs"
proof -
  have "\<exists>evs. handle_failure_loop b pool = Some evs" for b
    using assms(1) by (induction pool) auto
  then show ?thesis using assms(2) by (simp add: Send_HandleFailure_def)
qed

lemma expect_retries_events:
  "expect_retries box n as = Some (ok, evs) \<Longrightarrow>
   written evs = [] \<and> handovers evs = (if ok then [SE_Expect box] else [])"
  by (induction box n as arbitrary: ok evs rule: expect_retries.induct) (auto split: if_splits)

lemma hold_retries_events:
  "hold_retries fd sid t n hs as = Some (ok, evs) \<Longrightarrow>
   written evs = [] \<and> handovers evs = [] \<and> (ok \<longrightarrow> SE_Hold fd sid t True \<in> set evs)"
  by (induction fd sid t n hs as arbitrary: ok evs rule: hold_retries.induct)
    (auto simp: bind_Some_iff split: if_splits)

lemma write_plain_bounds:
  "write_plain box ws = Some n \<Longrightarrow> n = -1 \<or> (0 \<le> n \<and> nat n \<le> unat (bx_out_msg_size box - bx_out_sent_size box))"
  by (induction box ws rule: write_plain.induct) (auto simp: Let_def split: if_splits)

lemma write_ssl_bounds:
  assumes "write_ssl box ws = Some n"
  shows "n = -1 \<or> (0 \<le> n \<and> nat n \<le> unat (bx_out_msg_size box - bx_out_sent_size box))"
proof -
  have "ssl_write_loop rem ws = Some n \<Longrightarrow> n = -1 \<or> (0 \<le> n \<and> nat n \<le> unat rem)" for rem
    by (induction rem ws rule: ssl_write_loop.induct) (auto split: if_splits)
  with assms show ?thesis by (auto simp: write_ssl_def Let_def split: if_splits)
qed

lemma advance_sent:
  assumes "msg_ok box" "0 \<le> n" "nat n \<le> unat (bx_out_msg_size box - bx_out_sent_size box)"
  defines "box' \<equiv> box\<lparr>bx_out_sent_size := bx_out_sent_size box + of_int n\<rparr>"
  shows "msg_ok box'" "unsent box = take (nat n) (unsent box) @ unsent box'"
    "unat (bx_out_sent_size box') = unat (bx_out_sent_size box) + nat n"
proof -
  have d: "unat (bx_out_msg_size box - bx_out_sent_size box) = unat (bx_out_msg_size box) - unat (bx_out_sent_size box)"
    using assms(1) by (simp add: msg_ok_def unat_sub_le)
  have le: "unat (bx_out_sent_size box) \<le> unat (bx_out_msg_size box)"
    using assms(1) by (simp add: msg_ok_def word_le_nat_alt)
  have sum: "unat (bx_out_sent_size box) + nat n \<le> unat (bx_out_msg_size box)" using assms(2,3) le d by linarith
  have n: "unat (of_int n :: size_t) = nat n"
  proof -
    have "nat n < 2 ^ 64" using sum unat_lt_64 [of "bx_out_msg_size box"] by linarith
    then have "unat (of_nat (nat n) :: size_t) = nat n" by (intro unat_of_nat_small) simp
    then show ?thesis using assms(2) by simp
  qed
  show u: "unat (bx_out_sent_size box') = unat (bx_out_sent_size box) + nat n"
    unfolding box'_def using unat_add_no_wrap [of "bx_out_sent_size box" "of_int n"] n sum unat_lt_64 [of "bx_out_msg_size box"]
    by simp
  then show "msg_ok box'" using assms(1) sum by (simp add: msg_ok_def word_le_nat_alt box'_def)
  show "unsent box = take (nat n) (unsent box) @ unsent box'"
    unfolding unsent_def u by (simp add: box'_def add.commute [of "unat (bx_out_sent_size box)"] flip: drop_drop)
qed

lemma write_bounds:
  assumes "(if bx_ssl box = None then write_plain box ps else write_ssl box ss) = Some n"
  shows "n = -1 \<or> (0 \<le> n \<and> nat n \<le> unat (bx_out_msg_size box - bx_out_sent_size box))"
  using assms write_plain_bounds write_ssl_bounds by (auto split: if_splits)

lemma fully_sent: "msg_ok b \<Longrightarrow> bx_out_msg_size b - bx_out_sent_size b = 0 \<Longrightarrow> unsent b = []"
  by (simp add: msg_ok_def unsent_def)

lemma EXPECT_events:
  assumes "enqueue_EXPECT_message_to_listener box as = Some (ok, box', evs)"
  shows "written evs = []" "handovers evs = (if ok then [SE_Expect box'] else [])"
    "box' = (if bx_status box = BUS_SEND_UNDEFINED then box\<lparr>bx_status := BUS_SEND_REQUEST_COMPLETE\<rparr> else box)"
  using assms expect_retries_events
  by (auto simp: enqueue_EXPECT_message_to_listener_def Let_def bind_Some_iff split: if_splits)

text \<open>What one write does, by its result.\<close>

definition write_effect :: "boxed_msg \<Rightarrow> SendHelper_HandleWrite_res \<Rightarrow> boxed_msg \<Rightarrow> send_event list \<Rightarrow> bool" where
  "write_effect box res box' evs \<longleftrightarrow>
     msg_ok box' \<and> same_request box box' \<and> unsent box = written evs @ unsent box' \<and>
     (case res of
        SHHW_OK \<Rightarrow> handovers evs = [] \<and> bx_status box' = bx_status box
      | SHHW_DONE \<Rightarrow> unsent box' = [] \<and> handovers evs = [SE_Expect box'] \<and>
          bx_status box' = (if bx_status box = BUS_SEND_UNDEFINED then BUS_SEND_REQUEST_COMPLETE else bx_status box)
      | SHHW_ERROR \<Rightarrow> \<exists>b. handovers evs = [SE_Deliver b] \<and> same_request box b \<and> send_failure (bx_status b))"

lemma after_write_effect:
  assumes "msg_ok box" "after_write box r pool = Some (res, box', evs)"
  shows "write_effect box res box' evs \<and> written evs = []"
proof (cases "bx_out_msg_size box - bx_out_sent_size box = 0")
  case False
  then show ?thesis using assms by (simp add: after_write_def write_effect_def)
next
  case True
  show ?thesis
  proof (cases "sr_done r")
    case None
    then show ?thesis using assms True HandleFailure_events [of box BUS_SEND_TIMESTAMP_ERROR pool]
      by (auto simp: after_write_def bind_Some_iff Util_Timestamp_def write_effect_def same_request_def send_failure_def)
  next
    case (Some now)
    let ?box1 = "box\<lparr>bx_tv_send_done := now\<rparr>"
    obtain ok evs1 where e: "enqueue_EXPECT_message_to_listener ?box1 (sr_expect r) = Some (ok, box', evs1)"
      and r: "if ok then res = SHHW_DONE \<and> evs = evs1
        else res = SHHW_ERROR \<and> (\<exists>evs2. Send_HandleFailure box' BUS_SEND_TX_TIMEOUT_NOTIFYING_LISTENER pool = Some evs2 \<and>
              evs = evs1 @ evs2)"
      using assms(2) True Some by (auto simp: after_write_def Util_Timestamp_def bind_Some_iff split: if_splits)
    have m: "msg_ok box'" "unsent box' = unsent box" "same_request box box'"
      using EXPECT_events(3) [OF e] assms(1) by (auto simp: msg_ok_def unsent_def same_request_def)
    have st: "bx_status box' = (if bx_status box = BUS_SEND_UNDEFINED then BUS_SEND_REQUEST_COMPLETE else bx_status box)"
      using EXPECT_events(3) [OF e] by simp
    show ?thesis
    proof (cases ok)
      case True
      then show ?thesis using m r st EXPECT_events(1,2) [OF e] fully_sent [OF assms(1) \<open>_ = 0\<close>]
        by (simp add: write_effect_def)
    next
      case False
      then show ?thesis using m r EXPECT_events(1,2) [OF e] HandleFailure_events [of box']
        by (auto simp: write_effect_def same_request_def send_failure_def)
    qed
  qed
qed

lemma HandleWrite_effect:
  assumes "msg_ok box" "SendHelper_HandleWrite box r pool = Some (res, box', evs)"
  shows "write_effect box res box' evs"
proof -
  from assms(2) obtain n where n: "(if bx_ssl box = None then write_plain box (sr_plain r) else write_ssl box (sr_ssl r)) = Some n"
    by (auto simp: SendHelper_HandleWrite_def bind_Some_iff split: if_splits)
  show ?thesis
  proof (cases "n = -1")
    case True
    then show ?thesis using assms n HandleFailure_events [of box BUS_SEND_TX_FAILURE pool]
      by (auto simp: SendHelper_HandleWrite_def bind_Some_iff write_effect_def same_request_def send_failure_def)
  next
    case False
    then have b: "0 \<le> n" "nat n \<le> unat (bx_out_msg_size box - bx_out_sent_size box)"
      using write_bounds [OF n] by auto
    define box1 where "box1 = box\<lparr>bx_out_sent_size := bx_out_sent_size box + of_int n\<rparr>"
    note adv = advance_sent [OF assms(1) b, folded box1_def]
    have "(if n = 0 then box else box1) = box1" by (simp add: box1_def)
    then obtain evs1 where w: "after_write box1 r pool = Some (res, box', evs1)"
      and evs: "evs = SE_Write (take (nat n) (unsent box)) # evs1"
      using assms(2) False
      by (auto simp: SendHelper_HandleWrite_def n bind_Some_iff unsent_def simp flip: box1_def split: if_splits)
    have "same_request box b = same_request box1 b" "bx_status box1 = bx_status box" for b
      by (simp_all add: box1_def same_request_def)
    then show ?thesis using after_write_effect [OF adv(1) w] adv(2)
      by (cases res) (simp_all add: write_effect_def evs)
  qed
qed

section \<open>The whole send\<close>

text \<open>A finished send: part of the message is written, and the box went to exactly one taker, to the
  listener only with the whole message written.\<close>

definition sent_result :: "boxed_msg \<Rightarrow> send_event list \<Rightarrow> bool" where
  "sent_result box evs \<longleftrightarrow> (\<exists>rest b. unsent box = written evs @ rest \<and> same_request box b \<and>
     (handovers evs = [SE_Expect b] \<and> rest = [] \<and> bx_status b = BUS_SEND_REQUEST_COMPLETE \<or>
      handovers evs = [SE_Deliver b] \<and> send_failure (bx_status b)))"

lemma sent_resultI_failure:
  assumes "Send_HandleFailure box st pool = Some evs" "send_failure st"
  shows "sent_result box evs"
  unfolding sent_result_def using HandleFailure_events [OF assms(1)] assms(2)
  by (intro exI [of _ "unsent box"] exI [of _ "box\<lparr>bx_status := st, bx_response := None\<rparr>"]) (simp add: same_request_def)

lemma send_failure_simps [simp]:
  "send_failure BUS_SEND_TX_TIMEOUT" "send_failure BUS_SEND_TX_FAILURE" "send_failure BUS_SEND_UNREGISTERED_SOCKET"
  by (simp_all add: send_failure_def)

lemma sent_result_poll: "sent_result box evs \<Longrightarrow> sent_result box (SE_Poll t # evs)"
  by (simp add: sent_result_def)

lemma sent_result_more:
  assumes "write_effect box SHHW_OK box' evs" "sent_result box' evs'"
  shows "sent_result box (evs @ evs')"
proof -
  have "same_request box b = same_request box' b" for b
    using assms(1) by (auto simp: write_effect_def same_request_def)
  then show ?thesis using assms by (auto simp: sent_result_def write_effect_def)
qed

lemma send_loop_result:
  assumes "msg_ok box" "bx_status box = BUS_SEND_UNDEFINED" "send_loop t s pool rs rem box = Some evs"
  shows "sent_result box evs"
  using assms
proof (induction rs arbitrary: rem box evs)
  case Nil
  then show ?case by (auto simp: send_loop.simps [of t s pool "[]"] split: if_splits intro: sent_resultI_failure)
next
  case (Cons r rs)
  note loop = Cons.prems(3) [unfolded send_loop.simps [of t s pool "r # rs"] list.case]
  show ?case
  proof (cases "\<not> rem > 0 \<or> sr_now r = None")
    case True
    then show ?thesis using loop by (auto simp: Util_Timestamp_def split: if_splits intro: sent_resultI_failure)
  next
    case False
    then obtain now where now: "sr_now r = Some now" "rem > 0" by auto
    define m where "m = remaining_msec t s now"
    note loop = loop [unfolded Util_Timestamp_def now if_False not_not if_True option.case Let_def m_def [symmetric]]
    show ?thesis
    proof (cases "sr_poll r")
      case (SP_Error e)
      then show ?thesis using loop now(2) Cons.IH [OF Cons.prems(1,2)]
        by (auto split: if_splits intro!: sent_result_poll intro: sent_resultI_failure)
    next
      case SP_Timeout
      then show ?thesis using loop now(2) by (auto intro!: sent_result_poll intro: sent_resultI_failure)
    next
      case (SP_Ready ev)
      show ?thesis
      proof (cases "W_POLLNVAL ev \<or> W_POLLERR ev \<or> W_POLLHUP ev")
        case True
        then show ?thesis using loop now(2) SP_Ready
          by (auto split: if_splits intro!: sent_result_poll intro: sent_resultI_failure)
      next
        case False
        then obtain res box' evs1 where w: "SendHelper_HandleWrite box r pool = Some (res, box', evs1)"
          and l: "map_option ((#) (SE_Poll m)) (case res of
              SHHW_OK \<Rightarrow> map_option ((@) evs1) (send_loop t s pool rs m box') | _ \<Rightarrow> Some evs1) = Some evs"
          using loop now(2) SP_Ready
          by (auto split: if_splits option.splits prod.splits SendHelper_HandleWrite_res.splits)
        note eff = HandleWrite_effect [OF Cons.prems(1) w]
        show ?thesis
        proof (cases res)
          case SHHW_OK
          then show ?thesis using l eff Cons.IH [of box' m] Cons.prems(2)
            by (auto simp: write_effect_def intro!: sent_result_poll sent_result_more)
        next
          case SHHW_DONE
          then show ?thesis using l eff Cons.prems(2) by (auto simp: write_effect_def sent_result_def)
        next
          case SHHW_ERROR
          then show ?thesis using l eff by (auto simp: write_effect_def sent_result_def)
        qed
      qed
    qed
  qed
qed

section \<open>The deadline\<close>

lemma ucast_of_int_32: "(ucast (of_int x :: size_t) :: 32 word) = of_int x"
  by (rule bit_word_eqI) (simp add: bit_simps)

lemma sint_of_int_32: "- (2 ^ 31) \<le> x \<Longrightarrow> x < 2 ^ 31 \<Longrightarrow> sint (of_int x :: 32 word) = x"
  by (simp add: sint_sbintrunc' signed_take_bit_int_eq_self)

lemma of_int_div_1000: "0 \<le> x \<Longrightarrow> x < 2 ^ 63 \<Longrightarrow> (of_int x :: size_t) div 1000 = of_int (x div 1000)"
  by (simp add: word_div_def unsigned_of_int take_bit_int_eq_self)

definition elapsed_usec :: "timeval \<Rightarrow> timeval \<Rightarrow> int" where
  "elapsed_usec start now = (tv_sec now - tv_sec start) * 1000000 + (tv_usec now - tv_usec start)"

lemma remaining_msec_eq:
  assumes "0 \<le> elapsed_usec s now" "elapsed_usec s now < 1000 * 2 ^ 31" "0 \<le> t" "t < 2 ^ 31"
  shows "remaining_msec t s now = t - elapsed_usec s now div 1000"
proof -
  let ?k = "elapsed_usec s now div 1000"
  have k: "0 \<le> ?k" "?k < 2 ^ 31" using assms(1,2) by auto
  have "remaining_msec t s now = sint (ucast (of_int (t - ?k) :: size_t) :: 32 word)"
    unfolding remaining_msec_def elapsed_usec_def [symmetric] Let_def
    using assms(1,2) by (simp add: of_int_div_1000)
  also have "\<dots> = t - ?k" unfolding ucast_of_int_32 by (rule sint_of_int_32) (use k assms(3,4) in auto)
  finally show ?thesis .
qed

text \<open>What a turn of the loop needs so that it ends: the poll answers with a known event, a
  write is decided within the listed answers, and the listener answers each EXPECT.\<close>

definition plain_answers :: "plain_write list \<Rightarrow> bool" where
  "plain_answers ws \<longleftrightarrow> list_ex (\<lambda>w. case w of PW_Wrote k \<Rightarrow> True | PW_Error e \<Rightarrow> \<not> Util_IsResumableIOError e) ws"

definition ssl_answers :: "ssl_write list \<Rightarrow> bool" where
  "ssl_answers ws \<longleftrightarrow> SW_Want_read \<notin> set ws \<and>
     list_ex (\<lambda>w. case w of SW_Zero \<Rightarrow> False | SW_Syscall e \<Rightarrow> \<not> Util_IsResumableIOError e | _ \<Rightarrow> True) ws"

definition round_answers :: "send_round \<Rightarrow> bool" where
  "round_answers r \<longleftrightarrow>
     (case sr_poll r of SP_Ready ev \<Rightarrow> W_POLLNVAL ev \<or> W_POLLERR ev \<or> W_POLLHUP ev \<or> W_POLLOUT ev | _ \<Rightarrow> True) \<and>
     plain_answers (sr_plain r) \<and> ssl_answers (sr_ssl r) \<and> SEND_NOTIFY_LISTENER_RETRIES \<le> length (sr_expect r)"

lemma write_plain_returns: "plain_answers ws \<Longrightarrow> \<exists>n. write_plain box ws = Some n"
  unfolding plain_answers_def by (induction box ws rule: write_plain.induct) (auto simp: Let_def)

lemma write_ssl_returns:
  assumes "ssl_answers ws" "msg_ok box" "unat (bx_out_msg_size box) < 2 ^ 63"
  shows "\<exists>n. write_ssl box ws = Some n"
proof -
  let ?rem = "bx_out_msg_size box - bx_out_sent_size box"
  have "unat ?rem < 2 ^ 63" using assms(2,3) by (simp add: msg_ok_def unat_sub_le)
  then have "sint ?rem \<ge> 0" using sint_eq_uint_small_64 [of ?rem] by simp
  moreover have "\<exists>n. ssl_write_loop rem ws = Some n" for rem
    using assms(1) unfolding ssl_answers_def by (induction rem ws rule: ssl_write_loop.induct) auto
  ultimately show ?thesis by (simp add: write_ssl_def Let_def)
qed

lemma expect_retries_returns: "n \<le> length as \<Longrightarrow> \<exists>x. expect_retries box n as = Some x"
  by (induction box n as rule: expect_retries.induct) auto

lemma hold_retries_returns:
  assumes "\<exists>x. BusPoll_OnCompletion as = Some x"
  shows "n \<le> length hs \<Longrightarrow> \<exists>x. hold_retries fd sid t n hs as = Some x"
  using assms by (induction fd sid t n hs as rule: hold_retries.induct) auto

lemma after_write_returns:
  assumes "round_answers r" "(True, bp) \<in> set pool"
  shows "\<exists>x. after_write box r pool = Some x"
proof -
  note f = handle_failure_returns [OF assms(2)]
  have "\<exists>x. enqueue_EXPECT_message_to_listener b (sr_expect r) = Some x" for b
  proof -
    have n: "SEND_NOTIFY_LISTENER_RETRIES \<le> length (sr_expect r)" using assms(1) by (simp add: round_answers_def)
    obtain x where x: "expect_retries b SEND_NOTIFY_LISTENER_RETRIES (sr_expect r) = Some (x b)" for b
      using expect_retries_returns [OF n] by metis
    show ?thesis by (simp add: enqueue_EXPECT_message_to_listener_def Let_def x split: prod.splits)
  qed
  then obtain e where e: "enqueue_EXPECT_message_to_listener b (sr_expect r) = Some (e b)" for b by metis
  obtain g where g: "Send_HandleFailure b BUS_SEND_TX_TIMEOUT_NOTIFYING_LISTENER pool = Some (g b)" for b
    using f [of BUS_SEND_TX_TIMEOUT_NOTIFYING_LISTENER] by simp metis
  obtain h where h: "Send_HandleFailure b BUS_SEND_TIMESTAMP_ERROR pool = Some (h b)" for b
    using f [of BUS_SEND_TIMESTAMP_ERROR] by simp metis
  show ?thesis by (simp add: after_write_def e g h Let_def split: option.splits prod.splits)
qed

lemma HandleWrite_returns:
  assumes "round_answers r" "(True, bp) \<in> set pool" "msg_ok box" "unat (bx_out_msg_size box) < 2 ^ 63"
  shows "\<exists>x. SendHelper_HandleWrite box r pool = Some x"
proof -
  have "\<exists>n. (if bx_ssl box = None then write_plain box (sr_plain r) else write_ssl box (sr_ssl r)) = Some n"
    using write_plain_returns [of "sr_plain r" box] write_ssl_returns [OF _ assms(3,4), of "sr_ssl r"] assms(1)
    by (auto simp: round_answers_def)
  then obtain n where n: "(if bx_ssl box = None then write_plain box (sr_plain r) else write_ssl box (sr_ssl r)) = Some n" ..
  obtain f where f: "Send_HandleFailure box BUS_SEND_TX_FAILURE pool = Some f"
    using handle_failure_returns [OF assms(2)] by blast
  obtain a where a: "after_write b r pool = Some (a b)" for b
    using after_write_returns [OF assms(1,2)] by metis
  show ?thesis by (simp add: SendHelper_HandleWrite_def n f a split: prod.splits)
qed

text \<open>The loop returns once the clock fails or a turn finds no time left.\<close>

lemma send_loop_returns:
  assumes "(True, bp) \<in> set pool" "\<forall>r \<in> set rs. round_answers r" "msg_ok box" "unat (bx_out_msg_size box) < 2 ^ 63"
    "\<exists>r \<in> set rs. \<forall>now. sr_now r = Some now \<longrightarrow> remaining_msec t s now \<le> 0"
  shows "\<exists>evs. send_loop t s pool rs rem box = Some evs"
  using assms(2-5)
proof (induction rs arbitrary: rem box)
  case (Cons r rs)
  have f: "\<exists>evs. Send_HandleFailure b st pool = Some evs" if "send_failure st" for b st
    using handle_failure_returns [OF assms(1)] that by (auto simp: send_failure_def)
  have next_turn: "\<exists>evs. send_loop t s pool rs m b = Some evs"
    if "msg_ok b" "bx_out_msg_size b = bx_out_msg_size box" "m = remaining_msec t s now" "sr_now r = Some now" for m b now
  proof (cases "m > 0")
    case True
    then have "\<exists>r \<in> set rs. \<forall>now. sr_now r = Some now \<longrightarrow> remaining_msec t s now \<le> 0"
      using Cons.prems(4) that(3,4) by auto
    then show ?thesis using Cons.IH [of b m] Cons.prems(1,3) that by auto
  next
    case False
    then show ?thesis using f [of BUS_SEND_TX_TIMEOUT b] by (simp add: send_loop.simps [of t s pool rs])
  qed
  show ?case
  proof (cases "rem > 0 \<and> sr_now r \<noteq> None")
    case False
    then show ?thesis using f [of BUS_SEND_TX_TIMEOUT box] f [of BUS_SEND_TX_FAILURE box]
      by (auto simp: send_loop.simps [of t s pool "r # rs"] Util_Timestamp_def)
  next
    case True
    then obtain now where now: "sr_now r = Some now" by auto
    have ra: "round_answers r" using Cons.prems(1) by simp
    obtain res box' evs where w: "SendHelper_HandleWrite box r pool = Some (res, box', evs)"
      using HandleWrite_returns [OF ra assms(1) Cons.prems(2,3)] by auto
    have w': "msg_ok box'" "bx_out_msg_size box' = bx_out_msg_size box"
      using HandleWrite_effect [OF Cons.prems(2) w] by (auto simp: write_effect_def same_request_def)
    show ?thesis
    proof (cases "sr_poll r")
      case (SP_Ready ev)
      then show ?thesis
        using True now ra f [of _ box] next_turn [OF w' refl now] w
        by (cases res) (auto simp: send_loop.simps [of t s pool "r # rs"] Util_Timestamp_def round_answers_def Let_def)
    qed (use True now f [of _ box] next_turn [OF Cons.prems(2) refl refl now] in
        \<open>auto simp: send_loop.simps [of t s pool "r # rs"] Util_Timestamp_def Let_def\<close>)
  qed
qed simp

section \<open>Properties\<close>

lemma DoBlockingSend_effect:
  assumes "bx_status box = BUS_SEND_UNDEFINED" "length (bx_out_msg box) = unat (bx_out_msg_size box)"
    "Send_DoBlockingSend box start_ts holds notice rounds pool = Some (ok, evs)"
  shows "if ok then
      (\<exists>t. SE_Hold (bx_fd box) (bx_out_seq_id box) t True \<in> set evs) \<and>
      (\<exists>rest b. bx_out_msg box = written evs @ rest \<and> same_request box b \<and>
         (handovers evs = [SE_Expect b] \<and> rest = [] \<and> bx_status b = BUS_SEND_REQUEST_COMPLETE \<or>
          handovers evs = [SE_Deliver b] \<and> send_failure (bx_status b)))
    else written evs = [] \<and> handovers evs = []"
proof (cases start_ts)
  case None
  then show ?thesis using assms(3) by (simp add: Send_DoBlockingSend_def Util_Timestamp_def)
next
  case (Some s)
  let ?box = "box\<lparr>bx_tv_send_start := s\<rparr>" and ?t = "sint (of_int (bx_timeout_sec box * 1000) :: 32 word)"
  from assms(3) Some obtain held evs0 where h: "hold_retries (bx_fd box) (bx_out_seq_id box)
      (sint (of_int (bx_timeout_sec box + 5) :: 16 word)) SEND_NOTIFY_LISTENER_RETRIES holds notice = Some (held, evs0)"
    and r: "if held then ok \<and> bx_out_sent_size box = 0 \<and>
        (\<exists>evs1. send_loop ?t s pool rounds ?t ?box = Some evs1 \<and> evs = evs0 @ evs1)
      else \<not> ok \<and> evs = evs0"
    by (auto simp: Send_DoBlockingSend_def Util_Timestamp_def attempt_to_enqueue_HOLD_message_to_listener_def
        Let_def bind_Some_iff split: if_splits)
  note h = hold_retries_events [OF h]
  show ?thesis
  proof (cases held)
    case False
    then show ?thesis using r h by auto
  next
    case True
    with r obtain evs1 where e: "ok" "bx_out_sent_size box = 0" "send_loop ?t s pool rounds ?t ?box = Some evs1" "evs = evs0 @ evs1"
      by auto
    have "sent_result ?box evs1"
      by (rule send_loop_result [OF _ _ e(3)]) (use assms(1,2) e(2) in \<open>simp_all add: msg_ok_def\<close>)
    then show ?thesis using e h True by (auto simp: sent_result_def unsent_def same_request_def)
  qed
qed

text \<open>C5: a blocking send gives its box away exactly once. When it returns true, the listener
  had acknowledged the HOLD, a prefix of the message was written, and there was one
  handover: to the listener with the whole message written and status
  \<^verbatim>\<open>BUS_SEND_REQUEST_COMPLETE\<close>, or to the thread pool with a failure status; the box keeps its
  descriptor, sequence number, message, timeout and callback. When it returns false, nothing
  was written and nobody else has the box, so the caller may free it.\<close>
theorem blocking_send_hands_over_once:
  assumes "bx_status box = BUS_SEND_UNDEFINED" "length (bx_out_msg box) = unat (bx_out_msg_size box)"
    "Send_DoBlockingSend box start_ts holds notice rounds pool = Some (ok, evs)"
  shows "if ok then
      (\<exists>t. SE_Hold (bx_fd box) (bx_out_seq_id box) t True \<in> set evs) \<and>
      (\<exists>rest b. bx_out_msg box = written evs @ rest \<and> same_request box b \<and>
         (handovers evs = [SE_Expect b] \<and> rest = [] \<and> bx_status b = BUS_SEND_REQUEST_COMPLETE \<or>
          handovers evs = [SE_Deliver b] \<and> send_failure (bx_status b)))
    else written evs = [] \<and> handovers evs = []"
  by (rule DoBlockingSend_effect [OF assms])

text \<open>A request of three bytes, and a socket that takes them in two writes.\<close>

definition ex_req :: boxed_msg where
  "ex_req = \<lparr>bx_status = BUS_SEND_UNDEFINED, bx_response = None, bx_timeout_sec = 10, bx_udata = 1,
     bx_tv_send_start = \<lparr>tv_sec = 0, tv_usec = 0\<rparr>, bx_tv_send_done = \<lparr>tv_sec = 0, tv_usec = 0\<rparr>,
     bx_fd = 5, bx_ssl = None, bx_out_seq_id = 7, bx_out_msg = [1, 2, 3], bx_out_msg_size = 3, bx_out_sent_size = 0\<rparr>"

definition ex_round :: "int \<Rightarrow> nat \<Rightarrow> send_round" where
  "ex_round now k = \<lparr>sr_now = Some \<lparr>tv_sec = now, tv_usec = 0\<rparr>,
     sr_poll = SP_Ready \<lparr>W_POLLNVAL = False, W_POLLERR = False, W_POLLHUP = False, W_POLLOUT = True\<rparr>,
     sr_plain = [PW_Error EINTR, PW_Wrote k], sr_ssl = [SW_Other], sr_done = Some \<lparr>tv_sec = now, tv_usec = 9\<rparr>,
     sr_expect = replicate 10 (True, 0)\<rparr>"

abbreviation ex_start :: "timeval option" where "ex_start \<equiv> Some \<lparr>tv_sec = 100, tv_usec = 0\<rparr>"

lemma ex_send: "Send_DoBlockingSend ex_req ex_start [False, True] [PA_Bytes [0x15, 0, 0]] [ex_round 100 2, ex_round 101 9] [] =
  Some (True, [SE_Sleep 5, SE_Hold 5 7 15 True, SE_Poll 10000, SE_Write [1, 2], SE_Poll 9000, SE_Write [3],
    SE_Expect (ex_req\<lparr>bx_status := BUS_SEND_REQUEST_COMPLETE, bx_tv_send_start := \<lparr>tv_sec = 100, tv_usec = 0\<rparr>,
      bx_tv_send_done := \<lparr>tv_sec = 101, tv_usec = 9\<rparr>, bx_out_sent_size := 3\<rparr>)])"
  by code_simp

lemma blocking_send_hands_over_once_witness:
  "\<exists>evs. Send_DoBlockingSend ex_req ex_start [False, True] [PA_Bytes [0x15, 0, 0]] [ex_round 100 2, ex_round 101 9] [] =
       Some (True, evs) \<and> (\<exists>t. SE_Hold 5 7 t True \<in> set evs) \<and>
     (\<exists>rest b. [1, 2, 3] = written evs @ rest \<and> same_request ex_req b \<and>
         (handovers evs = [SE_Expect b] \<and> rest = [] \<and> bx_status b = BUS_SEND_REQUEST_COMPLETE \<or>
          handovers evs = [SE_Deliver b] \<and> send_failure (bx_status b)))"
  using blocking_send_hands_over_once [OF _ _ ex_send] ex_send by (simp add: ex_req_def)



text \<open>past the deadline the socket is polled without a timeout. The remaining time is
  recomputed after the loop's test and goes to \<^verbatim>\<open>poll\<close> even when it is negative, which
  \<^verbatim>\<open>poll\<close> takes as "wait for ever", so a send can outlast its timeout without bound.\<close>
theorem late_poll_has_no_deadline:
  assumes "0 < t" "t < 2 ^ 31" "sr_now r = Some now" "t * 1000 + 1000 \<le> elapsed_usec start now"
    "elapsed_usec start now < 1000 * 2 ^ 31" "send_loop t start pool (r # rounds) t box = Some evs"
  shows "\<exists>ms evs'. evs = SE_Poll ms # evs' \<and> ms < 0"
proof -
  have "remaining_msec t start now = t - elapsed_usec start now div 1000"
    by (rule remaining_msec_eq) (use assms in auto)
  then have "remaining_msec t start now < 0" using assms(4) by auto
  then show ?thesis using assms(1,3,6)
    by (auto simp: send_loop.simps [of t start pool "r # rounds"] Util_Timestamp_def Let_def)
qed

lemma late_poll_has_no_deadline_witness:
  "\<exists>ms evs' evs. send_loop 10000 \<lparr>tv_sec = 100, tv_usec = 0\<rparr> [] [ex_round 115 9] 10000 ex_req = Some evs \<and>
     evs = SE_Poll ms # evs' \<and> ms < 0"
proof -
  have "send_loop 10000 \<lparr>tv_sec = 100, tv_usec = 0\<rparr> [] [ex_round 115 9] 10000 ex_req \<noteq> None"
    by code_simp
  then obtain evs where "send_loop 10000 \<lparr>tv_sec = 100, tv_usec = 0\<rparr> [] [ex_round 115 9] 10000 ex_req = Some evs" by auto
  then show ?thesis
    using late_poll_has_no_deadline [of 10000 "ex_round 115 9" "\<lparr>tv_sec = 115, tv_usec = 0\<rparr>" "\<lparr>tv_sec = 100, tv_usec = 0\<rparr>"]
    by (simp add: ex_round_def elapsed_usec_def)
qed

end
