(* ===== verification/Bus.thy ===== *)
theory Bus
  imports Yacht Send
begin

text \<open>
  The message bus as its clients see it: \<^verbatim>\<open>bus.c\<close> without construction. The bus keeps a hash
  table from descriptors to connection records; the records live in a store of their own
  (\<open>b_cis\<close>, by address) because the table, the listener and the client threads share them by
  pointer. A freed address has no record, and reading it is an error (\<open>None\<close>). What
  the listeners, the SSL library and the allocator answer are arguments.
\<close>

section \<open>State\<close>

datatype shutdown_state = SHUTDOWN_STATE_RUNNING | SHUTDOWN_STATE_SHUTTING_DOWN | SHUTDOWN_STATE_HALTED

record 'u bus =
  b_listener_count :: u8
  b_joined :: "bool list"
  b_shutdown_state :: shutdown_state
  b_fd_set :: "nat yacht option"
  b_cis :: "nat \<Rightarrow> 'u connection_info option"

definition BUS_DEFAULT_TIMEOUT_SEC :: int where "BUS_DEFAULT_TIMEOUT_SEC = 10"

text \<open>What the bus does to the listeners and to the connection records.\<close>

datatype bus_event =
    BE_Add nat int
  | BE_Remove nat int
  | BE_Shutdown nat
  | BE_Joined nat
  | BE_Freed_ci nat
  | BE_Freed_box
  | BE_Sleep int
  | BE_Send send_event

text \<open>The answers to one command: whether it is queued, and what the notification pipe does.\<close>

type_synonym cmd_answer = "bool \<times> pipe_answer list"

section \<open>Sockets and listeners\<close>

text \<open>C's remainder; a negative index or a zero divisor is undefined.\<close>

definition listener_id_of_socket :: "'u bus \<Rightarrow> int \<Rightarrow> nat option" where
  "listener_id_of_socket b fd =
     (let n = int (unat (b_listener_count b)) in
      if n = 0 \<or> (fd < 0 \<and> fd mod n \<noteq> 0) then None else Some (nat (fd mod n)))"

section \<open>Sending\<close>

definition read_ci :: "'u bus \<Rightarrow> nat \<Rightarrow> 'u connection_info option" where
  "read_ci b p = b_cis b p"

text \<open>The box for a request on a registered socket.\<close>

definition new_box :: "bus_user_msg \<Rightarrow> nat option \<Rightarrow> boxed_msg" where
  "new_box msg ssl =
     (let t = int (unat (um_timeout_sec msg)) in
      \<lparr>bx_status = BUS_SEND_UNDEFINED, bx_response = None,
       bx_timeout_sec = (if t = 0 then BUS_DEFAULT_TIMEOUT_SEC else t),
       bx_udata = um_udata msg, bx_tv_send_start = \<lparr>tv_sec = 0, tv_usec = 0\<rparr>,
       bx_tv_send_done = \<lparr>tv_sec = 0, tv_usec = 0\<rparr>, bx_fd = um_fd msg, bx_ssl = ssl,
       bx_out_seq_id = um_seq_id msg, bx_out_msg = um_msg msg,
       bx_out_msg_size = um_msg_size msg, bx_out_sent_size = 0\<rparr>)"

definition box_msg :: "'u bus \<Rightarrow> bus_user_msg \<Rightarrow> bool \<Rightarrow> (boxed_msg option \<times> 'u bus) option" where
  "box_msg b msg calloc_ok =
     (if \<not> calloc_ok then Some (None, b)
      else do {
        c_assert (um_fd msg \<noteq> 0);
        fds \<leftarrow> b_fd_set b;
        value \<leftarrow> Yacht_Get fds (um_fd msg);
        (case value of
           Found (Some p) \<Rightarrow>
             do { ci \<leftarrow> read_ci b p;
                  if um_seq_id msg \<le> ci_largest_wr_seq_id_seen ci \<and> ci_largest_wr_seq_id_seen ci \<noteq> BUS_NO_SEQ_ID
                  then Some (None, b)
                  else Some (Some (new_box msg (ci_ssl ci)),
                         b\<lparr>b_cis := (b_cis b)(p \<mapsto> ci\<lparr>ci_largest_wr_seq_id_seen := um_seq_id msg\<rparr>)\<rparr>) }
         | _ \<Rightarrow> Some (None, b)) })"

text \<open>The inputs of a send: see \<open>Send_DoBlockingSend\<close>.\<close>

record send_input =
  in_start :: "timeval option"
  in_holds :: "bool list"
  in_notice :: "pipe_answer list"
  in_rounds :: "send_round list"
  in_pool :: "(bool \<times> size_t) list"

definition Bus_SendRequest ::
  "'u bus option \<Rightarrow> bus_user_msg option \<Rightarrow> bool \<Rightarrow> send_input \<Rightarrow> (bool \<times> bus_event list \<times> 'u bus option) option" where
  "Bus_SendRequest bo mo calloc_ok inp =
     (case (bo, mo) of
        (Some b, Some msg) \<Rightarrow>
          if um_fd msg = -1 then Some (False, [], Some b)
          else do {
            (boxo, b1) \<leftarrow> box_msg b msg calloc_ok;
            (case boxo of
               None \<Rightarrow> Some (False, [], Some b1)
             | Some box \<Rightarrow>
                 do { c_assert (in_start inp = None \<or> listener_id_of_socket b1 (um_fd msg) \<noteq> None);
                      (res, evs) \<leftarrow> Send_DoBlockingSend box (in_start inp) (in_holds inp) (in_notice inp)
                        (in_rounds inp) (in_pool inp);
                      Some (res, map BE_Send evs @ (if res then [] else [BE_Freed_box]), Some b1) }) }
      | _ \<Rightarrow> Some (False, [], bo))"

section \<open>Registering and releasing sockets\<close>

definition free_ci :: "nat \<Rightarrow> 'u bus \<Rightarrow> 'u bus" where
  "free_ci p b = b\<lparr>b_cis := (b_cis b)(p := None)\<rparr>"

definition new_ci :: "int \<Rightarrow> bus_socket_type \<Rightarrow> 'u \<Rightarrow> nat option \<Rightarrow> 'u connection_info" where
  "new_ci fd typ udata ssl =
     \<lparr>ci_fd = fd, ci_type = typ, ci_udata = udata, ci_ssl = (if typ = BUS_SOCKET_SSL then ssl else None),
      ci_largest_wr_seq_id_seen = BUS_NO_SEQ_ID, ci_error = RX_ERROR_NONE, ci_to_read_size = 0\<rparr>"

text \<open>\<open>p\<close> is the address of the new record, if \<^verbatim>\<open>calloc\<close> gives one; \<open>ssl\<close> is the result of
  \<^verbatim>\<open>BusSSL_Connect\<close>.\<close>

definition Bus_RegisterSocket ::
  "'u bus \<Rightarrow> bus_socket_type \<Rightarrow> int \<Rightarrow> 'u \<Rightarrow> nat option \<Rightarrow> nat option \<Rightarrow> (size_t \<Rightarrow> bool \<times> bool) \<Rightarrow> cmd_answer \<Rightarrow>
   (bool \<times> bus_event list \<times> 'u bus) option" where
  "Bus_RegisterSocket b typ fd udata po ssl alloc ans =
     do { l_id \<leftarrow> listener_id_of_socket b fd;
          (case po of
             None \<Rightarrow> Some (False, [], b)
           | Some p \<Rightarrow>
               if typ = BUS_SOCKET_SSL \<and> ssl = None then Some (False, [BE_Freed_ci p], b)
               else do {
                 let b1 = b\<lparr>b_cis := (b_cis b)(p \<mapsto> new_ci fd typ udata ssl)\<rparr>;
                 fds \<leftarrow> b_fd_set b1;
                 (fds', old, set_ok) \<leftarrow> Yacht_Set alloc fds fd (Some p);
                 let b2 = b1\<lparr>b_fd_set := Some fds'\<rparr>;
                 if \<not> set_ok then Some (False, [BE_Freed_ci p], free_ci p b2)
                 else do {
                   c_assert (old = None \<or> old = Some None);
                   if \<not> fst ans then Some (False, [BE_Freed_ci p], free_ci p b2)
                   else do {
                     (completed, delays) \<leftarrow> BusPoll_OnCompletion (snd ans);
                     if completed then Some (True, BE_Add l_id fd # map BE_Sleep delays, b2)
                     else Some (False, [BE_Add l_id fd, BE_Freed_ci p], free_ci p b2) } } }) }"

text \<open>\<open>disc\<close> is the result of \<^verbatim>\<open>BusSSL_Disconnect\<close>; the second component of the result is what is
  stored through \<^verbatim>\<open>socket_udata_out\<close>.\<close>

definition Bus_ReleaseSocket ::
  "'u bus \<Rightarrow> int \<Rightarrow> bool \<Rightarrow> cmd_answer \<Rightarrow> (bool \<times> 'u option \<times> bus_event list \<times> 'u bus) option" where
  "Bus_ReleaseSocket b fd disc ans =
     do { l_id \<leftarrow> listener_id_of_socket b fd;
          if \<not> fst ans then Some (False, None, [], b)
          else do {
            (completed, delays) \<leftarrow> BusPoll_OnCompletion (snd ans);
            let evs = BE_Remove l_id fd # map BE_Sleep delays;
            if \<not> completed then Some (False, None, evs, b)
            else do {
              fds \<leftarrow> b_fd_set b;
              (fds', old) \<leftarrow> Yacht_Remove fds fd True;
              let b1 = b\<lparr>b_fd_set := Some fds'\<rparr>;
              (case old of
                 Missing \<Rightarrow> Some (False, None, evs, b1)
               | Found None \<Rightarrow> None
               | Found (Some p) \<Rightarrow>
                   do { ci \<leftarrow> read_ci b1 p;
                        Some (ci_ssl ci = None \<or> disc, Some (ci_udata ci), evs @ [BE_Freed_ci p], free_ci p b1) }) } } }"

section \<open>Shutting down\<close>

text \<open>\<open>ans\<close> gives the answers to the removal of each connection record.\<close>

definition free_connection_cb ::
  "(nat \<Rightarrow> cmd_answer) \<Rightarrow> nat option \<Rightarrow> (bus_event list \<times> 'u bus) option \<Rightarrow> (bus_event list \<times> 'u bus) option" where
  "free_connection_cb ans val st =
     do { (evs, b) \<leftarrow> st;
          p \<leftarrow> val;
          ci \<leftarrow> read_ci b p;
          l_id \<leftarrow> listener_id_of_socket b (ci_fd ci);
          if \<not> fst (ans p) then Some (evs, b)
          else do {
            (completed, delays) \<leftarrow> BusPoll_OnCompletion (snd (ans p));
            let evs' = evs @ BE_Remove l_id (ci_fd ci) # map BE_Sleep delays;
            if completed then Some (evs' @ [BE_Freed_ci p], free_ci p b) else Some (evs', b) } }"

text \<open>The loop over the listeners from number \<open>i\<close> on; \<open>ans\<close> also says whether the join succeeds.\<close>

fun shutdown_listeners ::
  "(nat \<Rightarrow> cmd_answer \<times> bool) \<Rightarrow> nat \<Rightarrow> nat \<Rightarrow> 'u bus \<Rightarrow> (bool \<times> bus_event list \<times> 'u bus) option" where
  "shutdown_listeners ans i 0 b = Some (True, [], b)"
| "shutdown_listeners ans i (Suc n) b =
     (if i \<ge> length (b_joined b) then None
      else if b_joined b ! i then shutdown_listeners ans (Suc i) n b
      else
        let ((queued, pipe), join_ok) = ans i; stop = b\<lparr>b_shutdown_state := SHUTDOWN_STATE_RUNNING\<rparr> in
        if \<not> queued then Some (False, [], stop)
        else do {
          (completed, delays) \<leftarrow> BusPoll_OnCompletion pipe;
          let evs = BE_Shutdown i # map BE_Sleep delays;
          if \<not> completed \<or> \<not> join_ok then Some (False, evs, stop)
          else do {
            (ok, evs', b') \<leftarrow> shutdown_listeners ans (Suc i) n (b\<lparr>b_joined := (b_joined b)[i := True]\<rparr>);
            Some (ok, evs @ BE_Joined i # evs', b') } })"

definition Bus_Shutdown ::
  "'u bus \<Rightarrow> (nat \<Rightarrow> cmd_answer) \<Rightarrow> (nat \<Rightarrow> cmd_answer \<times> bool) \<Rightarrow> (bool \<times> bus_event list \<times> 'u bus) option" where
  "Bus_Shutdown b cis ls =
     (if b_shutdown_state b \<noteq> SHUTDOWN_STATE_RUNNING then Some (False, [], b)
      else do {
        let b1 = b\<lparr>b_shutdown_state := SHUTDOWN_STATE_SHUTTING_DOWN\<rparr>;
        (evs, b2) \<leftarrow> (case b_fd_set b1 of
            None \<Rightarrow> Some ([], b1)
          | Some fds \<Rightarrow> Yacht_Free (Some (free_connection_cb cis)) fds (Some ([], b1)));
        let b3 = b2\<lparr>b_fd_set := None\<rparr>;
        (ok, evs', b4) \<leftarrow> shutdown_listeners ls 0 (unat (b_listener_count b3)) b3;
        Some (ok, evs @ evs', if ok then b4\<lparr>b_shutdown_state := SHUTDOWN_STATE_HALTED\<rparr> else b4) })"

text \<open>\<^verbatim>\<open>Bus_Free\<close> first shuts the bus down, retrying every 10 ms; one element of the list for
  each attempt.\<close>

fun free_shutdown_loop ::
  "((nat \<Rightarrow> cmd_answer) \<times> (nat \<Rightarrow> cmd_answer \<times> bool)) list \<Rightarrow> 'u bus \<Rightarrow> (bus_event list \<times> 'u bus) option" where
  "free_shutdown_loop as b =
     (if b_shutdown_state b = SHUTDOWN_STATE_HALTED then Some ([], b)
      else case as of
        [] \<Rightarrow> None
      | (cis, ls) # as' \<Rightarrow>
          do { (ok, evs, b1) \<leftarrow> Bus_Shutdown b cis ls;
               if ok then Some (evs, b1)
               else do { (evs', b2) \<leftarrow> free_shutdown_loop as' b1; Some (evs @ BE_Sleep 10 # evs', b2) } })"

declare free_shutdown_loop.simps [simp del]

section \<open>Sequence numbers\<close>

text \<open>A run of requests, one after the other, and the boxes that are sent.\<close>

fun box_all :: "'u bus \<Rightarrow> bus_user_msg list \<Rightarrow> (boxed_msg list \<times> 'u bus) option" where
  "box_all b [] = Some ([], b)"
| "box_all b (m # ms) =
     do { (boxo, b1) \<leftarrow> box_msg b m True;
          (boxes, b2) \<leftarrow> box_all b1 ms;
          Some ((case boxo of None \<Rightarrow> boxes | Some box \<Rightarrow> box # boxes), b2) }"

definition conn_of :: "'u bus \<Rightarrow> int \<Rightarrow> nat option" where
  "conn_of b fd = (case b_fd_set b of None \<Rightarrow> None
     | Some fds \<Rightarrow> (case Yacht_Get fds fd of Some (Found (Some p)) \<Rightarrow> Some p | _ \<Rightarrow> None))"

definition largest :: "'u bus \<Rightarrow> nat \<Rightarrow> int option" where
  "largest b p = map_option ci_largest_wr_seq_id_seen (b_cis b p)"

lemma new_box_simps [simp]:
  "bx_status (new_box m ssl) = BUS_SEND_UNDEFINED" "bx_fd (new_box m ssl) = um_fd m"
  "bx_out_seq_id (new_box m ssl) = um_seq_id m" "bx_out_msg (new_box m ssl) = um_msg m"
  "bx_out_msg_size (new_box m ssl) = um_msg_size m" "bx_out_sent_size (new_box m ssl) = 0"
  "bx_ssl (new_box m ssl) = ssl" "bx_udata (new_box m ssl) = um_udata m"
  by (simp_all add: new_box_def Let_def)

lemma box_msg_cases:
  assumes "box_msg b m calloc_ok = Some (boxo, b')"
  obtains (rejected) "boxo = None" "b' = b"
  | (boxed) p ci where "boxo = Some (new_box m (ci_ssl ci))" "conn_of b (um_fd m) = Some p" "b_cis b p = Some ci"
       "ci_largest_wr_seq_id_seen ci = BUS_NO_SEQ_ID \<or> ci_largest_wr_seq_id_seen ci < um_seq_id m"
       "b' = b\<lparr>b_cis := (b_cis b)(p \<mapsto> ci\<lparr>ci_largest_wr_seq_id_seen := um_seq_id m\<rparr>)\<rparr>"
proof (cases "boxo = None \<and> b' = b")
  case True
  then show ?thesis using rejected by blast
next
  case False
  with assms obtain fds v where f: "b_fd_set b = Some fds" "Yacht_Get fds (um_fd m) = Some v"
    and v: "(case v of Found (Some p) \<Rightarrow>
             do { ci \<leftarrow> read_ci b p;
                  if um_seq_id m \<le> ci_largest_wr_seq_id_seen ci \<and> ci_largest_wr_seq_id_seen ci \<noteq> BUS_NO_SEQ_ID
                  then Some (None, b)
                  else Some (Some (new_box m (ci_ssl ci)),
                         b\<lparr>b_cis := (b_cis b)(p \<mapsto> ci\<lparr>ci_largest_wr_seq_id_seen := um_seq_id m\<rparr>)\<rparr>) }
         | _ \<Rightarrow> Some (None, b)) = Some (boxo, b')"
    by (cases "b_fd_set b"; cases "Yacht_Get (the (b_fd_set b)) (um_fd m)") (auto simp: box_msg_def split: if_splits)
  then obtain p where p: "v = Found (Some p)" using False by (simp split: lookup.splits option.splits)
  with v obtain ci where ci: "b_cis b p = Some ci" by (auto simp: read_ci_def bind_Some_iff)
  then show ?thesis using v False f p boxed [of ci p]
    by (simp add: read_ci_def conn_of_def split: if_splits) linarith
qed

lemma box_msg_frame:
  assumes "box_msg b m c = Some (boxo, b')"
  shows "conn_of b' = conn_of b"
    "largest b p = Some n \<Longrightarrow> 0 \<le> n \<Longrightarrow> 0 \<le> um_seq_id m \<Longrightarrow> \<exists>n'. largest b' p = Some n' \<and> n \<le> n'"
  by (cases rule: box_msg_cases [OF assms]; simp add: conn_of_def fun_eq_iff)
    (cases rule: box_msg_cases [OF assms]; auto simp: largest_def BUS_NO_SEQ_ID_def)

text \<open>Once a number has been used on a socket, later boxes on it have larger ones.\<close>

lemma box_all_above:
  assumes "\<forall>m \<in> set ms. 0 \<le> um_seq_id m" "box_all b ms = Some (boxes, b')"
    "conn_of b fd = Some p" "largest b p = Some n" "0 \<le> n"
  shows "\<forall>box \<in> set boxes. bx_fd box = fd \<longrightarrow> n < bx_out_seq_id box"
  using assms
proof (induction ms arbitrary: b n boxes)
  case (Cons m ms)
  from Cons.prems(2) obtain boxo b1 boxes1 where b1: "box_msg b m True = Some (boxo, b1)"
    and r: "box_all b1 ms = Some (boxes1, b')" and boxes: "boxes = (case boxo of None \<Rightarrow> boxes1 | Some box \<Rightarrow> box # boxes1)"
    by (auto simp: bind_Some_iff)
  obtain n1 where n1: "largest b1 p = Some n1" "n \<le> n1"
    using box_msg_frame(2) [OF b1 Cons.prems(4,5)] Cons.prems(1) by auto
  have "conn_of b1 fd = Some p" using box_msg_frame(1) [OF b1] Cons.prems(3) by simp
  then have tl: "\<forall>box \<in> set boxes1. bx_fd box = fd \<longrightarrow> n1 < bx_out_seq_id box"
    using Cons.IH [OF _ r _ n1(1)] n1(2) Cons.prems(1,5) by auto
  have "\<forall>box. boxo = Some box \<and> bx_fd box = fd \<longrightarrow> n < bx_out_seq_id box"
    using b1 Cons.prems(3-5) by (elim box_msg_cases) (auto simp: largest_def BUS_NO_SEQ_ID_def)
  then show ?case using tl n1(2) boxes by (cases boxo) auto
qed simp

lemma box_all_sorted:
  assumes "\<forall>m \<in> set ms. 0 \<le> um_seq_id m" "box_all b ms = Some (boxes, b')"
  shows "sorted_wrt (<) (map bx_out_seq_id (filter (\<lambda>box. bx_fd box = fd) boxes))"
  using assms
proof (induction ms arbitrary: b boxes)
  case (Cons m ms)
  from Cons.prems(2) obtain boxo b1 boxes1 where b1: "box_msg b m True = Some (boxo, b1)"
    and r: "box_all b1 ms = Some (boxes1, b')" and boxes: "boxes = (case boxo of None \<Rightarrow> boxes1 | Some box \<Rightarrow> box # boxes1)"
    by (auto simp: bind_Some_iff)
  have ih: "sorted_wrt (<) (map bx_out_seq_id (filter (\<lambda>box. bx_fd box = fd) boxes1))"
    using Cons.IH [OF _ r] Cons.prems(1) by simp
  show ?case
  proof (cases boxo)
    case None
    then show ?thesis using ih boxes by simp
  next
    case (Some box)
    then obtain p where "conn_of b (um_fd m) = Some p" "largest b1 p = Some (bx_out_seq_id box)"
      "bx_fd box = um_fd m" "bx_out_seq_id box = um_seq_id m"
      using b1 by (elim box_msg_cases) (auto simp: largest_def)
    then have "\<forall>x \<in> set boxes1. bx_fd x = bx_fd box \<longrightarrow> bx_out_seq_id box < bx_out_seq_id x"
      using box_all_above [OF _ r, of "bx_fd box" p "bx_out_seq_id box"] box_msg_frame(1) [OF b1] Cons.prems(1) by simp
    then show ?thesis using ih boxes Some by auto
  qed
qed simp

section \<open>Registration\<close>

text \<open>A bus whose table is in order.\<close>

definition bus_ok :: "'u bus \<Rightarrow> bool" where
  "bus_ok b \<longleftrightarrow> 0 < unat (b_listener_count b) \<and> length (b_joined b) = unat (b_listener_count b) \<and>
     (case b_fd_set b of None \<Rightarrow> True | Some fds \<Rightarrow> yacht_inv fds)"

lemma listener_id_nonneg:
  assumes "bus_ok b" "0 \<le> fd"
  shows "\<exists>i. listener_id_of_socket b fd = Some i \<and> i < unat (b_listener_count b)"
proof -
  have n: "0 < int (unat (b_listener_count b))" using assms(1) unfolding bus_ok_def by linarith
  then have "nat (fd mod int (unat (b_listener_count b))) < unat (b_listener_count b)"
    using pos_mod_bound [OF n, of fd] by linarith
  then show ?thesis using n assms(2) unfolding listener_id_of_socket_def Let_def by auto
qed

lemma fd_not_free: "0 \<le> fd \<Longrightarrow> \<not> free_bucket fd"
  by (auto simp: yacht_consts)

text \<open>The outcomes of a registration by how far it gets.\<close>

lemma RegisterSocket_cases:
  assumes "bus_ok b" "0 \<le> fd" "Bus_RegisterSocket b typ fd udata po ssl (bounded_alloc alloc) ans = Some (ok, evs, b')"
  obtains (early) "\<not> ok" "conn_of b' fd = conn_of b fd"
  | (dangling) p where "\<not> ok" "BE_Freed_ci p \<in> set evs" "conn_of b' fd = Some p" "b_cis b' p = None"
      "fst ans \<longrightarrow> (\<exists>ds. BusPoll_OnCompletion (snd ans) = Some (False, ds))"
  | (registered) p ci where "ok" "conn_of b' fd = Some p" "b_cis b' p = Some ci" "ci_fd ci = fd" "ci_udata ci = udata"
      "ci_ssl ci = (if typ = BUS_SOCKET_SSL then ssl else None)" "ci_largest_wr_seq_id_seen ci = BUS_NO_SEQ_ID" "bus_ok b'"
      "\<forall>x. 0 \<le> x \<and> x \<noteq> fd \<longrightarrow> conn_of b' x = conn_of b x" "po = Some p" "b_cis b' = (b_cis b)(p \<mapsto> ci)"
proof -
  obtain l_id where lid: "listener_id_of_socket b fd = Some l_id" using listener_id_nonneg [OF assms(1,2)] by blast
  note nf = fd_not_free [OF assms(2)]
  show ?thesis
  proof (cases "po = None \<or> (typ = BUS_SOCKET_SSL \<and> ssl = None)")
    case True
    then show ?thesis using assms(3) lid by (intro early) (auto simp: Bus_RegisterSocket_def split: option.splits)
  next
    case False
    then obtain p where po: "po = Some p" by auto
    from assms(3) lid po False obtain fds fds' old set_ok where
      f: "b_fd_set b = Some fds" "Yacht_Set (bounded_alloc alloc) fds fd (Some p) = Some (fds', old, set_ok)"
      by (auto simp: Bus_RegisterSocket_def bind_Some_iff split: if_splits)
    define ci where "ci = new_ci fd typ udata ssl"
    define b2 where "b2 = b\<lparr>b_cis := (b_cis b)(p \<mapsto> ci), b_fd_set := Some fds'\<rparr>"
    have inv: "yacht_inv fds" using assms(1) f(1) by (simp add: bus_ok_def)
    have g: "Yacht_Get fds' x = (if set_ok \<and> x = fd then Some (Found (Some p)) else Yacht_Get fds x)" if "0 \<le> x" for x
      by (rule yacht.get_set [OF inv nf fd_not_free [OF that] f(2)])
    have b2: "conn_of b2 fd = (if set_ok then Some p else conn_of b fd)" "bus_ok b2"
      "\<forall>x. 0 \<le> x \<and> x \<noteq> fd \<longrightarrow> conn_of b2 x = conn_of b x"
      using g assms(1,2) f(1) yacht.set_invar [OF inv nf f(2)] by (simp_all add: conn_of_def b2_def bus_ok_def)
    have fr: "conn_of (free_ci p b2) fd = conn_of b2 fd" "b_cis (free_ci p b2) p = None"
      by (simp_all add: free_ci_def conn_of_def)
    have r: "(if \<not> set_ok then Some (False, [BE_Freed_ci p], free_ci p b2)
       else do {
         c_assert (old = None \<or> old = Some None);
         if \<not> fst ans then Some (False, [BE_Freed_ci p], free_ci p b2)
         else do {
           (completed, delays) \<leftarrow> BusPoll_OnCompletion (snd ans);
           if completed then Some (True, BE_Add l_id fd # map BE_Sleep delays, b2)
           else Some (False, [BE_Add l_id fd, BE_Freed_ci p], free_ci p b2) } }) = Some (ok, evs, b')"
      using assms(3) False f unfolding Bus_RegisterSocket_def lid po Let_def ci_def b2_def by auto
    consider "\<not> set_ok" | "set_ok" "\<not> fst ans"
      | ds where "set_ok" "fst ans" "BusPoll_OnCompletion (snd ans) = Some (False, ds)"
      | ds where "set_ok" "fst ans" "BusPoll_OnCompletion (snd ans) = Some (True, ds)"
      using r by (cases "BusPoll_OnCompletion (snd ans)") (auto split: if_splits)
    then show ?thesis
    proof cases
      case 1
      then show ?thesis using r fr b2 by (intro early) auto
    next
      case 2
      then show ?thesis using r fr b2 by (intro dangling) (auto split: if_splits)
    next
      case 3
      then show ?thesis using r fr b2 by (intro dangling) (auto split: if_splits)
    next
      case 4
      then show ?thesis using r b2 po
        by (intro registered [of p ci]) (auto simp: b2_def ci_def new_ci_def split: if_splits)
    qed
  qed
qed

section \<open>Shutdown\<close>

lemma shutdown_listeners_effect:
  assumes "shutdown_listeners ans i n b = Some (ok, evs, b')" "i + n \<le> length (b_joined b)"
  shows "b_fd_set b' = b_fd_set b \<and> b_cis b' = b_cis b \<and> length (b_joined b') = length (b_joined b) \<and>
     b_listener_count b' = b_listener_count b \<and> (\<forall>j. b_joined b ! j \<longrightarrow> b_joined b' ! j) \<and>
     (ok \<longrightarrow> (\<forall>j. i \<le> j \<and> j < i + n \<longrightarrow> b_joined b' ! j) \<and>
        filter (\<lambda>e. \<exists>j. e = BE_Joined j) evs = map BE_Joined (filter (\<lambda>j. \<not> b_joined b ! j) [i..<i + n])) \<and>
     (\<not> ok \<longrightarrow> b_shutdown_state b' = SHUTDOWN_STATE_RUNNING)"
  using assms
proof (induction n arbitrary: i b ok evs b')
  case (Suc n)
  have i: "i < length (b_joined b)" using Suc.prems(2) by simp
  have up: "[i..<Suc (i + n)] = i # [Suc i..<Suc (i + n)]" by (simp add: upt_conv_Cons del: upt_Suc)
  show ?case
  proof (cases "b_joined b ! i")
    case True
    then have *: "shutdown_listeners ans (Suc i) n b = Some (ok, evs, b')" using Suc.prems(1) i by simp
    note ih = Suc.IH [OF *]
    have "b_joined b' ! j" if ok "i \<le> j" "j < i + Suc n" for j
      using ih that True Suc.prems(2) by (cases "j = i") auto
    then show ?thesis using ih True Suc.prems(2) by (simp add: up del: upt_Suc)
  next
    case False
    obtain queued pipe join_ok where a: "ans i = ((queued, pipe), join_ok)" by (metis surj_pair)
    show ?thesis
    proof (cases "ok")
      case False
      then consider "b' = b\<lparr>b_shutdown_state := SHUTDOWN_STATE_RUNNING\<rparr>"
        | evs' where "shutdown_listeners ans (Suc i) n (b\<lparr>b_joined := (b_joined b)[i := True]\<rparr>) = Some (False, evs', b')"
        using Suc.prems(1) i \<open>\<not> b_joined b ! i\<close> a by (auto simp: bind_Some_iff Let_def split: if_splits)
      then show ?thesis
      proof cases
        case 2
        then show ?thesis using Suc.IH [OF 2] Suc.prems(2) False \<open>\<not> b_joined b ! i\<close>
          by (simp add: nth_list_update split: if_splits)
      qed (use False in simp)
    next
      case True
      then obtain ds evs' where 1: "shutdown_listeners ans (Suc i) n (b\<lparr>b_joined := (b_joined b)[i := True]\<rparr>) = Some (True, evs', b')"
        and evs: "evs = BE_Shutdown i # map BE_Sleep ds @ BE_Joined i # evs'"
        using Suc.prems(1) i \<open>\<not> b_joined b ! i\<close> a by (auto simp: bind_Some_iff Let_def split: if_splits)
      note ih = Suc.IH [OF 1]
      have sl: "filter (\<lambda>e. \<exists>j. e = BE_Joined j) (map BE_Sleep ds) = []" by (induction ds) auto
      have flt: "filter (\<lambda>j. \<not> (b_joined b)[i := True] ! j) [Suc i..<Suc (i + n)] = filter (\<lambda>j. \<not> b_joined b ! j) [Suc i..<Suc (i + n)]"
        by (rule filter_cong) auto
      have j': "b_joined b' ! j" if "i \<le> j" "j < i + Suc n" for j
        using ih that True Suc.prems(2) i by (cases "j = i") (auto simp: nth_list_update)
      have j'': "b_joined b' ! j" if "b_joined b ! j" for j
        using ih that Suc.prems(2) \<open>\<not> b_joined b ! i\<close> by (cases "j = i") auto
      show ?thesis using ih True Suc.prems(2) \<open>\<not> b_joined b ! i\<close> j' j''
        by (simp add: up evs sl flt del: upt_Suc)
    qed
  qed
qed auto

text \<open>Answers with which a command completes.\<close>

definition completes :: "cmd_answer \<Rightarrow> bool" where
  "completes a \<longleftrightarrow> fst a \<and> (\<exists>ds. BusPoll_OnCompletion (snd a) = Some (True, ds))"

lemma shutdown_listeners_all:
  assumes "\<forall>j. completes (fst (ans j)) \<and> snd (ans j)" "i + n \<le> length (b_joined b)"
  shows "\<exists>evs b'. shutdown_listeners ans i n b = Some (True, evs, b')"
  using assms(2)
proof (induction n arbitrary: i b)
  case (Suc n)
  obtain pipe ds where "ans i = ((True, pipe), True)" "BusPoll_OnCompletion pipe = Some (True, ds)"
    using assms(1) by (metis completes_def prod.collapse)
  then show ?case
    using Suc.IH [of "Suc i" b] Suc.IH [of "Suc i" "b\<lparr>b_joined := (b_joined b)[i := True]\<rparr>"] Suc.prems
    by (auto simp: Let_def)
qed simp

definition live_entries :: "'v yacht \<Rightarrow> 'v option list" where
  "live_entries y = map snd (filter (\<lambda>(key, v). \<not> free_bucket key) (zip (y_buckets y) (y_values y)))"

lemma Yacht_Free_fold: "Yacht_Free (Some f) y st = fold f (live_entries y) st"
proof -
  have "fold (\<lambda>(key, v) s. if key \<noteq> YACHT_NO_KEY \<and> key \<noteq> YACHT_DELETED then f v s else s) kvs st =
      fold f (map snd (filter (\<lambda>(key, v). \<not> free_bucket key) kvs)) st" for kvs st
    by (induction kvs arbitrary: st) auto
  then show ?thesis by (simp add: Yacht_Free_def live_entries_def)
qed

abbreviation freed :: "bus_event list \<Rightarrow> bus_event list" where
  "freed \<equiv> filter (\<lambda>e. \<exists>p. e = BE_Freed_ci p)"

lemma freed_sleeps [simp]: "freed (map BE_Sleep ds) = []"
  by (induction ds) auto

lemma free_connections:
  assumes "\<forall>p. completes (ans p)" "distinct ps" "bus_ok b"
    "\<forall>p \<in> set ps. \<exists>ci. b_cis b p = Some ci \<and> 0 \<le> ci_fd ci"
  shows "\<exists>evs' cis. fold (free_connection_cb ans) (map Some ps) (Some (evs, b)) = Some (evs @ evs', b\<lparr>b_cis := cis\<rparr>) \<and>
     freed evs' = map BE_Freed_ci ps \<and> cis = (\<lambda>p. if p \<in> set ps then None else b_cis b p)"
  using assms(2-4)
proof (induction ps arbitrary: evs b)
  case Nil
  then show ?case by (intro exI [of _ "[]"]) simp
next
  case (Cons p ps)
  obtain ci where ci: "b_cis b p = Some ci" "0 \<le> ci_fd ci" using Cons.prems(3) by auto
  obtain l_id where l: "listener_id_of_socket b (ci_fd ci) = Some l_id"
    using listener_id_nonneg [OF Cons.prems(2) ci(2)] by blast
  obtain ds where ds: "fst (ans p)" "BusPoll_OnCompletion (snd (ans p)) = Some (True, ds)"
    using assms(1) by (auto simp: completes_def)
  let ?evs = "evs @ BE_Remove l_id (ci_fd ci) # map BE_Sleep ds @ [BE_Freed_ci p]" and ?b = "free_ci p b"
  have step: "free_connection_cb ans (Some p) (Some (evs, b)) = Some (?evs, ?b)"
    by (simp add: free_connection_cb_def read_ci_def ci l ds)
  have b: "bus_ok ?b" "\<forall>q \<in> set ps. \<exists>ci. b_cis ?b q = Some ci \<and> 0 \<le> ci_fd ci"
    using Cons.prems by (auto simp: bus_ok_def free_ci_def)
  obtain evs' cis where "fold (free_connection_cb ans) (map Some ps) (Some (?evs, ?b)) = Some (?evs @ evs', ?b\<lparr>b_cis := cis\<rparr>)"
    "freed evs' = map BE_Freed_ci ps" "cis = (\<lambda>q. if q \<in> set ps then None else b_cis ?b q)"
    using Cons.IH [OF _ b, of ?evs] Cons.prems(1) by auto
  then show ?case
    by (intro exI [of _ "BE_Remove l_id (ci_fd ci) # map BE_Sleep ds @ BE_Freed_ci p # evs'"] exI [of _ cis])
      (auto simp: step free_ci_def)
qed

lemma shutdown_listeners_freed:
  "shutdown_listeners ans i n b = Some (ok, evs, b') \<Longrightarrow> freed evs = []"
proof (induction n arbitrary: i b ok evs b')
  case (Suc n)
  show ?case
  proof (cases "b_joined b ! i")
    case True
    then show ?thesis using Suc by (auto split: if_splits)
  next
    case False
    obtain queued pipe join_ok where a: "ans i = ((queued, pipe), join_ok)" by (metis surj_pair)
    show ?thesis using Suc.prems False Suc.IH by (auto simp: a Let_def bind_Some_iff split: if_splits)
  qed
qed simp

section \<open>Properties\<close>


text \<open>An empty bus with two listeners, and requests on socket 5.\<close>

definition ex_bus :: "nat bus" where
  "ex_bus = \<lparr>b_listener_count = 2, b_joined = [False, False], b_shutdown_state = SHUTDOWN_STATE_RUNNING,
     b_fd_set = Some ex_yacht, b_cis = Map.empty\<rparr>"

definition ex_msg :: "int \<Rightarrow> bus_user_msg" where
  "ex_msg sid = \<lparr>um_fd = 5, um_type = BUS_SOCKET_PLAIN, um_seq_id = sid, um_msg = [1, 2, 3], um_msg_size = 3,
     um_timeout_sec = 0, um_udata = 1\<rparr>"

abbreviation ex_notice :: cmd_answer where "ex_notice \<equiv> (True, [PA_Zero, PA_Bytes [0x15, 4, 0]])"

abbreviation ex_register :: "(bool \<times> bus_event list \<times> nat bus) option" where
  "ex_register \<equiv> Bus_RegisterSocket ex_bus BUS_SOCKET_PLAIN 5 99 (Some 1000) None (bounded_alloc (\<lambda>_. (True, True))) ex_notice"

lemma ex_bus_ok: "bus_ok ex_bus"
  using ex_yacht_inv by (simp add: bus_ok_def ex_bus_def)

lemma ex_register_run:
  "map_option (\<lambda>(ok, evs, b). (ok, evs, map_option (\<lambda>(boxes, _). map bx_out_seq_id boxes) (box_all b [ex_msg 3, ex_msg 2, ex_msg 7])))
     ex_register = Some (True, [BE_Add 1 5, BE_Sleep 4], Some [3, 7])"
  by code_simp


text \<open>a registered socket can send. After a successful registration every request on the
  descriptor gets a box, on a new connection whatever its sequence number, with the
  socket's SSL handle and its own timeout or the default of ten seconds; other descriptors
  keep their connection, and the bus stays in order.\<close>
theorem registered_socket_accepts_requests:
  assumes "bus_ok b" "0 < fd" "um_fd m = fd"
    "Bus_RegisterSocket b typ fd udata po ssl (bounded_alloc alloc) ans = Some (True, evs, b')"
  shows "bus_ok b' \<and> (\<forall>x. 0 \<le> x \<and> x \<noteq> fd \<longrightarrow> conn_of b' x = conn_of b x) \<and>
     (\<exists>box b''. box_msg b' m True = Some (Some box, b'') \<and> bx_fd box = fd \<and>
        bx_ssl box = (if typ = BUS_SOCKET_SSL then ssl else None) \<and> bx_out_seq_id box = um_seq_id m \<and>
        bx_timeout_sec box = (if um_timeout_sec m = 0 then 10 else int (unat (um_timeout_sec m))))"
proof -
  have "0 \<le> fd" using assms(2) by simp
  from assms(1) this assms(4) show ?thesis
  proof (cases rule: RegisterSocket_cases)
    case (registered p ci)
    then obtain fds where "b_fd_set b' = Some fds" "Yacht_Get fds fd = Some (Found (Some p))"
      by (auto simp: conn_of_def split: option.splits lookup.splits)
    then have "box_msg b' m True = Some (Some (new_box m (ci_ssl ci)),
        b'\<lparr>b_cis := (b_cis b')(p \<mapsto> ci\<lparr>ci_largest_wr_seq_id_seen := um_seq_id m\<rparr>)\<rparr>)"
      using registered assms(2,3) by (simp add: box_msg_def read_ci_def)
    moreover have "bx_timeout_sec (new_box m (ci_ssl ci)) = (if um_timeout_sec m = 0 then 10 else int (unat (um_timeout_sec m)))"
      by (simp add: new_box_def Let_def BUS_DEFAULT_TIMEOUT_SEC_def uint_0_iff)
    ultimately show ?thesis using registered assms(3) by simp
  qed auto
qed

lemma registered_socket_accepts_requests_witness:
  "\<exists>evs b' box b''. ex_register = Some (True, evs, b') \<and> bus_ok b' \<and> box_msg b' (ex_msg 3) True = Some (Some box, b'') \<and>
     bx_fd box = 5 \<and> bx_timeout_sec box = 10"
proof -
  obtain evs b' where r: "ex_register = Some (True, evs, b')" using ex_register_run by (auto simp del: box_all.simps)
  then show ?thesis using registered_socket_accepts_requests [OF ex_bus_ok _ _ r, of "ex_msg 3"] by (auto simp: ex_msg_def)
qed

text \<open>a failed registration can poison its descriptor. If the listener refuses the new socket
  or its notice is lost after the table entry was made, the connection record is freed but
  stays in the table, and the next request on the descriptor reads freed memory.\<close>
theorem failed_registration_leaves_freed_record:
  assumes "bus_ok b" "0 < fd" "um_fd m = fd" "b_fd_set b = Some fds"
    "Yacht_Set (bounded_alloc alloc) fds fd (Some p) = Some (fds', None, True)"
  shows "\<exists>b'. Bus_RegisterSocket b BUS_SOCKET_PLAIN fd udata (Some p) ssl (bounded_alloc alloc) (False, as) =
       Some (False, [BE_Freed_ci p], b') \<and> conn_of b' fd = Some p \<and> b_cis b' p = None \<and> box_msg b' m True = None"
proof -
  obtain l_id where l: "listener_id_of_socket b fd = Some l_id" using listener_id_nonneg [OF assms(1), of fd] assms(2) by auto
  have nf: "\<not> free_bucket fd" using fd_not_free assms(2) by simp
  have inv: "yacht_inv fds" using assms(1,4) by (simp add: bus_ok_def)
  have "Yacht_Get fds' fd = Some (Found (Some p))" using yacht.get_set [OF inv nf nf assms(5)] by simp
  then show ?thesis using assms(2-5) l
    by (simp add: Bus_RegisterSocket_def free_ci_def conn_of_def box_msg_def read_ci_def)
qed

lemma failed_registration_leaves_freed_record_witness:
  "\<exists>b'. Bus_RegisterSocket ex_bus BUS_SOCKET_PLAIN 5 99 (Some 1000) None (bounded_alloc (\<lambda>_. (True, True))) (False, []) =
       Some (False, [BE_Freed_ci 1000], b') \<and> box_msg b' (ex_msg 3) True = None"
proof -
  have "map_option (\<lambda>(y, old, ok). old = None \<and> ok) (Yacht_Set (bounded_alloc (\<lambda>_. (True, True))) ex_yacht 5 (Some 1000)) = Some True"
    by code_simp
  then obtain y where y: "Yacht_Set (bounded_alloc (\<lambda>_. (True, True))) ex_yacht 5 (Some 1000) = Some (y, None, True)" by auto
  show ?thesis using failed_registration_leaves_freed_record [OF ex_bus_ok _ _ _ y, of "ex_msg 3" 99 None "[]"]
    by (auto simp: ex_msg_def ex_bus_def)
qed

text \<open>C23: a request's box is freed or given away, never both. When \<^verbatim>\<open>Bus_SendRequest\<close> returns
  true, exactly one of listener and thread pool has got the box and the bus does not free it;
  when it returns false, neither has it, nothing was written, and the bus has freed it if it was
  made.\<close>
theorem send_request_box_fate:
  assumes "length (um_msg m) = unat (um_msg_size m)" "Bus_SendRequest (Some b) (Some m) calloc_ok inp = Some (res, evs, bo)"
  shows "\<exists>sent. evs = map BE_Send sent @ (if res \<or> box_msg b m calloc_ok = Some (None, b) \<or> um_fd m = -1 then [] else [BE_Freed_box]) \<and>
     length (handovers sent) = (if res then 1 else 0) \<and> (\<not> res \<longrightarrow> written sent = [])"
proof (cases "um_fd m = -1 \<or> box_msg b m calloc_ok = Some (None, b)")
  case True
  then show ?thesis using assms(2) by (intro exI [of _ "[]"]) (auto simp: Bus_SendRequest_def split: if_splits)
next
  case False
  then obtain boxo b1 where b1: "box_msg b m calloc_ok = Some (boxo, b1)"
    using assms(2) by (auto simp: Bus_SendRequest_def bind_Some_iff)
  with False obtain ssl where box: "boxo = Some (new_box m ssl)" by (auto elim: box_msg_cases)
  then obtain sent where s: "Send_DoBlockingSend (new_box m ssl) (in_start inp) (in_holds inp) (in_notice inp)
      (in_rounds inp) (in_pool inp) = Some (res, sent)" "evs = map BE_Send sent @ (if res then [] else [BE_Freed_box])"
    using assms(2) False b1 by (auto simp: Bus_SendRequest_def bind_Some_iff split: if_splits)
  show ?thesis using DoBlockingSend_effect [OF _ _ s(1)] assms(1) s(2) False
    by (intro exI [of _ sent]) (auto split: if_splits)
qed

lemma send_request_box_fate_witness:
  "\<exists>(b :: nat bus) evs bo sent. Bus_SendRequest (Some b) (Some (ex_msg 7)) True
       \<lparr>in_start = ex_start, in_holds = [False, True], in_notice = [PA_Bytes [0x15, 0, 0]],
        in_rounds = [ex_round 100 2, ex_round 101 9], in_pool = []\<rparr> = Some (True, evs, bo) \<and>
     evs = map BE_Send sent \<and> length (handovers sent) = 1"
proof -
  have "Option.bind ex_register (\<lambda>(ok, evs, b). map_option (\<lambda>(res, _, _). res) (Bus_SendRequest (Some b) (Some (ex_msg 7)) True
       \<lparr>in_start = ex_start, in_holds = [False, True], in_notice = [PA_Bytes [0x15, 0, 0]],
        in_rounds = [ex_round 100 2, ex_round 101 9], in_pool = []\<rparr>)) = Some True" by code_simp
  then have "\<exists>(b :: nat bus) evs bo. Bus_SendRequest (Some b) (Some (ex_msg 7)) True
       \<lparr>in_start = ex_start, in_holds = [False, True], in_notice = [PA_Bytes [0x15, 0, 0]],
        in_rounds = [ex_round 100 2, ex_round 101 9], in_pool = []\<rparr> = Some (True, evs, bo)"
    by (auto simp: bind_Some_iff) blast
  then obtain b :: "nat bus" and evs bo where s: "Bus_SendRequest (Some b) (Some (ex_msg 7)) True
       \<lparr>in_start = ex_start, in_holds = [False, True], in_notice = [PA_Bytes [0x15, 0, 0]],
        in_rounds = [ex_round 100 2, ex_round 101 9], in_pool = []\<rparr> = Some (True, evs, bo)" by blast
  show ?thesis using send_request_box_fate [OF _ s] s by (auto simp: ex_msg_def)
qed

text \<open>C25: shutting down releases everything once. With a running bus whose table holds distinct
  live connections and whose listeners answer, \<^verbatim>\<open>Bus_Shutdown\<close> returns true, frees the records
  of exactly the connections in the table, each once, joins each listener that is not joined yet,
  in order, and leaves the bus halted, after which a further call does nothing.\<close>
theorem shutdown_releases_everything:
  assumes "bus_ok b" "b_shutdown_state b = SHUTDOWN_STATE_RUNNING" "b_fd_set b = Some fds"
    "live_entries fds = map Some ps" "distinct ps" "\<forall>p \<in> set ps. \<exists>ci. b_cis b p = Some ci \<and> 0 \<le> ci_fd ci"
    "\<forall>p. completes (cis p)" "\<forall>j. completes (fst (ls j)) \<and> snd (ls j)"
  shows "\<exists>evs b'. Bus_Shutdown b cis ls = Some (True, evs, b') \<and> b_shutdown_state b' = SHUTDOWN_STATE_HALTED \<and>
     b_fd_set b' = None \<and> b_cis b' = (\<lambda>p. if p \<in> set ps then None else b_cis b p) \<and>
     freed evs = map BE_Freed_ci ps \<and>
     (\<forall>j < unat (b_listener_count b). b_joined b' ! j) \<and>
     Bus_Shutdown b' cis ls = Some (False, [], b')"
proof -
  let ?b1 = "b\<lparr>b_shutdown_state := SHUTDOWN_STATE_SHUTTING_DOWN\<rparr>"
  let ?cis = "\<lambda>p. if p \<in> set ps then None else b_cis b p"
  have ok1: "bus_ok ?b1" using assms(1) by (simp add: bus_ok_def)
  obtain evs where f: "fold (free_connection_cb cis) (map Some ps) (Some ([], ?b1)) = Some (evs, ?b1\<lparr>b_cis := ?cis\<rparr>)"
    "freed evs = map BE_Freed_ci ps"
    using free_connections [OF assms(7,5) ok1, of "[]"] assms(6) by (auto cong: if_cong)
  let ?b3 = "?b1\<lparr>b_cis := ?cis, b_fd_set := None\<rparr>"
  have len: "0 + unat (b_listener_count b) \<le> length (b_joined ?b3)" using assms(1) by (simp add: bus_ok_def)
  obtain evs' b4 where s: "shutdown_listeners ls 0 (unat (b_listener_count b)) ?b3 = Some (True, evs', b4)"
    using shutdown_listeners_all [OF assms(8) len] by blast
  note e = shutdown_listeners_effect [OF s len]
  have "freed evs' = []" by (rule shutdown_listeners_freed [OF s])
  then show ?thesis using f s e assms(2,3,4)
    by (simp add: Bus_Shutdown_def Let_def Yacht_Free_fold)
qed

lemma shutdown_releases_everything_witness:
  "\<exists>evs b'. Bus_Shutdown (ex_bus\<lparr>b_fd_set := Some (ex_yacht\<lparr>y_buckets := [-1, 5], y_values := [None, Some 1000]\<rparr>),
       b_cis := [1000 \<mapsto> new_ci 5 BUS_SOCKET_PLAIN 99 None]\<rparr>) (\<lambda>p. ex_notice) (\<lambda>j. (ex_notice, True)) = Some (True, evs, b') \<and>
     b_shutdown_state b' = SHUTDOWN_STATE_HALTED \<and> b_cis b' 1000 = None \<and> freed evs = [BE_Freed_ci 1000]"
proof -
  let ?y = "ex_yacht\<lparr>y_buckets := [-1, 5], y_values := [None, Some 1000]\<rparr>"
  let ?b = "ex_bus\<lparr>b_fd_set := Some ?y, b_cis := [1000 \<mapsto> new_ci 5 BUS_SOCKET_PLAIN 99 None]\<rparr>"
  have "Yacht_Set (bounded_alloc (\<lambda>_. (True, True))) ex_yacht 5 (Some 1000) = Some (?y, None, True)" by code_simp
  then have "yacht_inv ?y" using yacht.set_invar [OF ex_yacht_inv, of 5 "\<lambda>_. (True, True)" "Some 1000"] by (simp add: yacht_consts)
  then have "bus_ok ?b" by (simp add: bus_ok_def ex_bus_def)
  moreover have "live_entries ?y = map Some [1000]" by (simp add: live_entries_def yacht_consts)
  moreover have "completes ex_notice" by (simp add: completes_def LISTENER_MSG_TAG_def Let_def)
  ultimately show ?thesis
    using shutdown_releases_everything [of ?b ?y "[1000]" "\<lambda>p. ex_notice" "\<lambda>j. (ex_notice, True)"]
    by (auto simp: ex_bus_def new_ci_def)
qed

end
