(* ===== verification/Bus_Setup.thy ===== *)
theory Bus_Setup
  imports Bus Listener
begin

text \<open>
  Construction of the bus (\<^verbatim>\<open>Bus_Init\<close> in \<^verbatim>\<open>bus.c\<close>): defaults, the checks of the configuration, the
  resources acquired in order, and the clean-up path that frees them again. The outcome of each
  allocation or system call is an input. \<open>None\<close>: an assertion fails.
\<close>

section \<open>Configuration\<close>

text \<open>Of the callbacks only whether they are present matters here.\<close>

record bus_config =
  cfg_listener_count :: int
  cfg_sink_cb :: bool
  cfg_unpack_cb :: bool
  cfg_error_cb :: bool
  cfg_log_cb :: bool
  cfg_log_level :: int

datatype Bus_Init_res =
    BUS_INIT_SUCCESS | BUS_INIT_ERROR_NULL | BUS_INIT_ERROR_MISSING_SINK_CB
  | BUS_INIT_ERROR_MISSING_UNPACK_CB | BUS_INIT_ERROR_ALLOC_FAIL | BUS_INIT_ERROR_SENDER_INIT_FAIL
  | BUS_INIT_ERROR_LISTENER_INIT_FAIL | BUS_INIT_ERROR_THREADPOOL_INIT_FAIL
  | BUS_INIT_ERROR_PTHREAD_INIT_FAIL | BUS_INIT_ERROR_MUTEX_INIT_FAIL

definition set_defaults :: "bus_config \<Rightarrow> bus_config" where
  "set_defaults cfg = (if cfg_listener_count cfg = 0 then cfg\<lparr>cfg_listener_count := 1\<rparr> else cfg)"

definition DEF_FD_SET_SIZE2 :: u8 where "DEF_FD_SET_SIZE2 = 4"

datatype log_event =
    LOG_INITIALIZATION | LOG_NEW_CLIENT | LOG_SOCKET_REGISTERED | LOG_SENDING_REQUEST
  | LOG_SHUTDOWN | LOG_SENDER | LOG_LISTENER | LOG_MEMORY | LOG_ASSERT | LOG_EVENT_TYPE_COUNT

fun Bus_LogEventStr :: "log_event \<Rightarrow> string" where
  "Bus_LogEventStr LOG_INITIALIZATION = ''INITIALIZATION''"
| "Bus_LogEventStr LOG_NEW_CLIENT = ''NEW_CLIENT''"
| "Bus_LogEventStr LOG_SOCKET_REGISTERED = ''SOCKET_REGISTERED''"
| "Bus_LogEventStr LOG_SENDING_REQUEST = ''SEND_REQUEST''"
| "Bus_LogEventStr LOG_SHUTDOWN = ''SHUTDOWN''"
| "Bus_LogEventStr LOG_SENDER = ''SENDER''"
| "Bus_LogEventStr LOG_LISTENER = ''LISTENER''"
| "Bus_LogEventStr LOG_MEMORY = ''MEMORY''"
| "Bus_LogEventStr e = ''UNKNOWN''"

text \<open>The descriptor limit after the attempt to raise it to 1024, and whether it returns true:
  \<open>lim\<close> is what \<^verbatim>\<open>getrlimit\<close> gives, \<open>set_ok\<close> whether \<^verbatim>\<open>setrlimit\<close> succeeds.\<close>

definition attempt_to_increase_resource_limits ::
  "(nat \<times> nat) option \<Rightarrow> bool \<Rightarrow> bool \<times> (nat \<times> nat) option" where
  "attempt_to_increase_resource_limits lim set_ok =
     (case lim of
        None \<Rightarrow> (False, None)
      | Some (cur, mx) \<Rightarrow>
          if cur < 1024 \<and> mx > 1024 then (if set_ok then (True, Some (1024, mx)) else (False, lim))
          else (True, lim))"

section \<open>Construction\<close>

text \<open>What the outside answers, in the order of the calls. A listener's entry holds the
  arguments of \<open>Listener_Init\<close>.\<close>

record init_input =
  ii_bus :: bool
  ii_ssl :: bool
  ii_mutex :: bool
  ii_ls :: bool
  ii_listener :: "nat \<Rightarrow> bool \<times> (int \<times> int) option \<times> (int \<times> int) option list"
  ii_threadpool :: bool
  ii_joined :: bool
  ii_threads :: bool
  ii_yacht :: "bool \<times> bool \<times> bool"
  ii_create :: "nat \<Rightarrow> bool"

text \<open>Creates listeners from number \<open>i\<close> on, until one cannot be created.\<close>

fun init_listeners ::
  "(nat \<Rightarrow> bool \<times> (int \<times> int) option \<times> (int \<times> int) option list) \<Rightarrow> nat \<Rightarrow> nat \<Rightarrow> bool \<times> 'u listener list" where
  "init_listeners f i 0 = (True, [])"
| "init_listeners f i (Suc n) =
     (let (c, p, ps) = f i in
      case Listener_Init c p ps of
        None \<Rightarrow> (False, [])
      | Some l \<Rightarrow> (let (ok, ls) = init_listeners f (Suc i) n in (ok, l # ls)))"

text \<open>The clean-up path frees the listeners made so far; \<open>cp\<close> gives their command pipes.\<close>

fun free_listeners :: "('u, 'm) env \<Rightarrow> (nat \<Rightarrow> int) \<Rightarrow> nat \<Rightarrow> 'u listener list \<Rightarrow> unit option" where
  "free_listeners env cp i [] = Some ()"
| "free_listeners env cp i (l # ls) =
     do { Listener_Free env (cp i) l; free_listeners env cp (Suc i) ls }"

definition init_cleanup ::
  "('u, 'm) env \<Rightarrow> (nat \<Rightarrow> int) \<Rightarrow> 'u listener list \<Rightarrow> Bus_Init_res \<Rightarrow> (Bus_Init_res \<times> ('u listener list \<times> 'u bus) option) option" where
  "init_cleanup env cp ls res = do { free_listeners env cp 0 ls; Some (res, None) }"

text \<open>The listener count of the bus is a \<^verbatim>\<open>uint8_t\<close>; a thread for each of that many listeners is created.\<close>

definition Bus_Init ::
  "('u, 'm) env \<Rightarrow> (nat \<Rightarrow> int) \<Rightarrow> bus_config option \<Rightarrow> init_input \<Rightarrow>
   (Bus_Init_res \<times> ('u listener list \<times> 'u bus) option) option" where
  "Bus_Init env cp config inp =
     (case config of
        None \<Rightarrow> Some (BUS_INIT_ERROR_NULL, None)
      | Some cfg0 \<Rightarrow>
          (let cfg = set_defaults cfg0; n = cfg_listener_count cfg in
           if \<not> cfg_sink_cb cfg then Some (BUS_INIT_ERROR_MISSING_SINK_CB, None)
           else if \<not> cfg_unpack_cb cfg then Some (BUS_INIT_ERROR_MISSING_UNPACK_CB, None)
           else if \<not> ii_bus inp \<or> \<not> ii_ssl inp then Some (BUS_INIT_ERROR_ALLOC_FAIL, None)
           else if \<not> ii_mutex inp then Some (BUS_INIT_ERROR_MUTEX_INIT_FAIL, None)
           else if \<not> ii_ls inp \<or> n < 0 then Some (BUS_INIT_ERROR_ALLOC_FAIL, None)
           else
             (let (ok, ls) = init_listeners (ii_listener inp) 0 (nat n) in
              if \<not> ok then init_cleanup env cp ls BUS_INIT_ERROR_LISTENER_INIT_FAIL
              else if \<not> ii_threadpool inp then init_cleanup env cp ls BUS_INIT_ERROR_THREADPOOL_INIT_FAIL
              else if \<not> ii_joined inp \<or> \<not> ii_threads inp then init_cleanup env cp ls BUS_INIT_ERROR_ALLOC_FAIL
              else (case Yacht_Init (ii_yacht inp) DEF_FD_SET_SIZE2 of
                      None \<Rightarrow> init_cleanup env cp ls BUS_INIT_ERROR_ALLOC_FAIL
                    | Some fds \<Rightarrow>
                        (let count = (of_int n :: u8) in
                         if \<exists>i < unat count. \<not> ii_create inp i then init_cleanup env cp ls BUS_INIT_ERROR_PTHREAD_INIT_FAIL
                         else Some (BUS_INIT_SUCCESS, Some (ls,
                           \<lparr>b_listener_count = count, b_joined = replicate (nat n) False,
                            b_shutdown_state = SHUTDOWN_STATE_RUNNING, b_fd_set = Some fds, b_cis = Map.empty\<rparr>)))))))"

section \<open>Lemmas\<close>

lemma Yacht_Init_inv:
  assumes "Yacht_Init allocs DEF_FD_SET_SIZE2 = Some y"
  shows "yacht_inv y" "\<forall>x. \<not> free_bucket x \<longrightarrow> Yacht_Get y x = Some Missing"
proof -
  have y: "y = \<lparr>y_size = 16, y_mask = 15, y_buckets = replicate 16 YACHT_NO_KEY, y_values = replicate 16 None\<rparr>"
    using assms by (auto simp: Yacht_Init_def DEF_FD_SET_SIZE2_def Let_def split: if_splits)
  have "yacht_ok 4 y" by (simp add: y yacht_ok_def mask_eq_exp_minus_1)
  moreover have "probe_inv 4 (y_buckets y)" by (simp add: y probe_inv_def)
  ultimately show inv: "yacht_inv y" unfolding yacht_inv_def by blast
  show "\<forall>x. \<not> free_bucket x \<longrightarrow> Yacht_Get y x = Some Missing"
  proof (intro allI impI)
    fix x assume x: "\<not> free_bucket x"
    have "find (\<lambda>j. y_buckets y ! j = x) [0..<length (y_buckets y)] = None"
      using x by (auto simp: y find_None_iff)
    then have "yacht_map y x = None" by (simp add: table_map_def)
    then show "Yacht_Get y x = Some Missing" using yacht.get_abs [OF inv x] by simp
  qed
qed

lemma init_listeners_length:
  "init_listeners f i n = (True, ls) \<Longrightarrow> length ls = n"
  by (induction n arbitrary: i ls) (auto split: option.splits prod.splits)

lemma init_listeners_fresh:
  "init_listeners f i n = (ok, ls) \<Longrightarrow> l \<in> set ls \<Longrightarrow> \<exists>c p ps. Listener_Init c p ps = Some l"
proof (induction n arbitrary: i ok ls)
  case (Suc n)
  obtain c p ps where f: "f i = (c, p, ps)" by (metis surj_pair)
  show ?case
  proof (cases "Listener_Init c p ps = Some l")
    case False
    then obtain ls' where "init_listeners f (Suc i) n = (ok, ls')" "l \<in> set ls'"
      using Suc.prems f by (auto split: option.splits prod.splits)
    then show ?thesis by (rule Suc.IH)
  qed blast
qed simp

lemma cleanup_aborts:
  assumes "init_listeners f 0 n = (ok, ls)" "ls \<noteq> []"
  shows "init_cleanup env cp ls res = None"
proof -
  obtain l ls' where ls: "ls = l # ls'" using assms(2) by (cases ls) auto
  then obtain c p ps where "Listener_Init c p ps = Some l" using init_listeners_fresh [OF assms(1), of l] by fastforce
  then show ?thesis using Listener_Free_unstarted [of c p ps l env "cp 0"] by (simp add: init_cleanup_def ls)
qed

text \<open>a bus that comes up is in order. When \<^verbatim>\<open>Bus_Init\<close> succeeds with at most 255
  listeners, the bus is running with that many fresh listeners (one if none were asked for), none
  of them joined, and an empty descriptor table whose lookups work.\<close>
theorem initialised_bus_is_ok:
  assumes "Bus_Init env cp (Some cfg) inp = Some (BUS_INIT_SUCCESS, Some (ls, b))" "cfg_listener_count cfg < 256"
  shows "bus_ok b \<and> b_shutdown_state b = SHUTDOWN_STATE_RUNNING \<and> (\<forall>j. \<not> (j < length (b_joined b) \<and> b_joined b ! j)) \<and>
     int (unat (b_listener_count b)) = (if cfg_listener_count cfg = 0 then 1 else cfg_listener_count cfg) \<and>
     length ls = unat (b_listener_count b) \<and> (\<forall>fd. 0 \<le> fd \<longrightarrow> conn_of b fd = None)"
proof -
  let ?n = "if cfg_listener_count cfg = 0 then 1 else cfg_listener_count cfg"
  have n: "cfg_listener_count (set_defaults cfg) = ?n" by (simp add: set_defaults_def)
  from assms(1) obtain fds where f: "0 \<le> ?n" "init_listeners (ii_listener inp) 0 (nat ?n) = (True, ls)"
    "Yacht_Init (ii_yacht inp) DEF_FD_SET_SIZE2 = Some fds"
    and b: "b = \<lparr>b_listener_count = of_int ?n, b_joined = replicate (nat ?n) False,
       b_shutdown_state = SHUTDOWN_STATE_RUNNING, b_fd_set = Some fds, b_cis = Map.empty\<rparr>"
    by (auto simp: Bus_Init_def Let_def n init_cleanup_def bind_Some_iff split: if_splits option.splits prod.splits)
  have "unat (of_nat (nat ?n) :: u8) = nat ?n" using assms(2) f(1) by (intro unat_of_nat_small) auto
  then have c: "unat (b_listener_count b) = nat ?n" using f(1) by (simp add: b split: if_splits)
  have pos: "0 < ?n" using f(1) by (auto split: if_splits)
  have "bus_ok b" using Yacht_Init_inv(1) [OF f(3)] c pos by (simp add: bus_ok_def b)
  moreover have "conn_of b fd = None" if "0 \<le> fd" for fd
    using Yacht_Init_inv(2) [OF f(3)] fd_not_free [OF that] by (simp add: conn_of_def b)
  moreover have "int (unat (b_listener_count b)) = ?n" unfolding c using f(1) by linarith
  ultimately show ?thesis using init_listeners_length [OF f(2)] c f(1) by (simp add: b split: if_splits)
qed

text \<open>a failing construction ends the process. Once the first listener exists, every later
  failure of \<^verbatim>\<open>Bus_Init\<close> (another listener, the thread pool, an allocation, a thread) goes
  through the clean-up path, which destroys listeners that were never shut down and so fails
  the assertion in \<^verbatim>\<open>Listener_Free\<close>: no error status is ever returned for them.\<close>
theorem failing_init_aborts:
  fixes l :: "'u listener" and env :: "('u, 'm) env"
  assumes "ii_listener inp 0 = (c, p, ps)" "Listener_Init c p ps = Some l" "0 \<le> cfg_listener_count cfg"
    "cfg_sink_cb cfg" "cfg_unpack_cb cfg" "ii_bus inp" "ii_ssl inp" "ii_mutex inp" "ii_ls inp"
  shows "((\<exists>ls b. Bus_Init env cp (Some cfg) inp = Some (BUS_INIT_SUCCESS, Some (ls, b))) \<or>
      Bus_Init env cp (Some cfg) inp = None) \<and>
     (\<not> ii_threadpool inp \<longrightarrow> Bus_Init env cp (Some cfg) inp = None)"
proof -
  define n where "n = cfg_listener_count (set_defaults cfg)"
  have n: "0 \<le> n" "cfg_sink_cb (set_defaults cfg)" "cfg_unpack_cb (set_defaults cfg)"
    using assms(3-5) by (auto simp: n_def set_defaults_def)
  obtain k where k: "nat n = Suc k"
    using assms(3) by (cases "nat n") (auto simp: n_def set_defaults_def split: if_splits)
  obtain ok and ls :: "'u listener list" where ls: "init_listeners (ii_listener inp) 0 (nat n) = (ok, ls)"
    by (metis surj_pair)
  have "ls \<noteq> []" using ls assms(1,2) unfolding k by (auto split: prod.splits)
  then have abort: "init_cleanup env cp ls r = None" for r using cleanup_aborts [OF ls] by blast
  have "(\<exists>ls b. Bus_Init env cp (Some cfg) inp = Some (BUS_INIT_SUCCESS, Some (ls, b))) \<or>
     Bus_Init env cp (Some cfg) inp = None"
    using assms n ls abort
    by (auto simp: Bus_Init_def Let_def n_def [symmetric] split: if_splits option.splits)
  moreover have "Bus_Init env cp (Some cfg) inp = None" if "\<not> ii_threadpool inp"
    using assms n ls abort that by (simp add: Bus_Init_def Let_def n_def [symmetric])
  ultimately show ?thesis by blast
qed

text \<open>A configuration with one listener, and outcomes in which only the thread pool may fail.\<close>

definition ex_cfg :: bus_config where
  "ex_cfg = \<lparr>cfg_listener_count = 0, cfg_sink_cb = True, cfg_unpack_cb = True, cfg_error_cb = False,
     cfg_log_cb = False, cfg_log_level = 0\<rparr>"

definition ex_input :: "bool \<Rightarrow> init_input" where
  "ex_input tp = \<lparr>ii_bus = True, ii_ssl = True, ii_mutex = True, ii_ls = True,
     ii_listener = (\<lambda>_. (True, Some (3, 4), map Some (map (\<lambda>i. (10 + 2 * int i, 11 + 2 * int i)) [0..<MAX_QUEUE_MESSAGES]))),
     ii_threadpool = tp, ii_joined = True, ii_threads = True, ii_yacht = (True, True, True), ii_create = (\<lambda>_. True)\<rparr>"

lemma failing_init_aborts_witness: "Bus_Init ex_env (\<lambda>_. 4) (Some ex_cfg) (ex_input False) = None"
  by (rule failing_init_aborts [OF _ ex_listener_eq, THEN conjunct2, THEN mp]) (simp_all add: ex_cfg_def ex_input_def)

lemma ex_bus_init:
  "\<exists>b. Bus_Init ex_env (\<lambda>_. 4) (Some ex_cfg) (ex_input True) = Some (BUS_INIT_SUCCESS, Some ([ex_listener], b))"
proof -
  have "nat (cfg_listener_count (set_defaults ex_cfg)) = Suc 0" by (simp add: set_defaults_def ex_cfg_def)
  moreover have "set_defaults ex_cfg = ex_cfg\<lparr>cfg_listener_count := 1\<rparr>" by (simp add: set_defaults_def ex_cfg_def)
  ultimately show ?thesis
    using ex_listener_eq by (simp add: Bus_Init_def ex_cfg_def ex_input_def Yacht_Init_def Let_def)
qed

lemma initialised_bus_is_ok_witness:
  "\<exists>b. Bus_Init ex_env (\<lambda>_. 4) (Some ex_cfg) (ex_input True) = Some (BUS_INIT_SUCCESS, Some ([ex_listener], b)) \<and>
     bus_ok b \<and> unat (b_listener_count b) = 1"
proof -
  obtain b where b: "Bus_Init ex_env (\<lambda>_. 4) (Some ex_cfg) (ex_input True) = Some (BUS_INIT_SUCCESS, Some ([ex_listener], b))"
    using ex_bus_init by blast
  then show ?thesis using initialised_bus_is_ok [OF b] by (auto simp: ex_cfg_def)
qed

end
