(* ===== verification/Threadpool.thy ===== *)
theory Threadpool
  imports Prelude
begin

text \<open>
  The thread pool (\<^verbatim>\<open>src/lib/threadpool/threadpool.c\<close>): a ring buffer of tasks with four
  counters, reserve, commit, request and release, and worker threads woken through pipes.
  This theory has the operations as one thread runs them without interference and shows that
  the ring buffer then is a bounded queue; \<^verbatim>\<open>Threadpool_Conc\<close> lets the atomic
  actions of many threads interleave. A failed assertion, the exit in
  \<^verbatim>\<open>err()\<close> and an access outside the buffer are \<open>None\<close>.
\<close>

section \<open>State\<close>

datatype thread_status =
    STATUS_NONE | STATUS_ASLEEP | STATUS_AWAKE | STATUS_SHUTDOWN | STATUS_JOINED

fun status_code :: "thread_status \<Rightarrow> nat" where
  "status_code STATUS_NONE = 0"
| "status_code STATUS_ASLEEP = 1"
| "status_code STATUS_AWAKE = 2"
| "status_code STATUS_SHUTDOWN = 3"
| "status_code STATUS_JOINED = 4"

record thread_info =
  ti_parent_fd :: int
  ti_child_fd :: int
  ti_status :: thread_status

text \<open>Function pointers are numbers, \<^verbatim>\<open>NULL\<close> is \<open>None\<close>.\<close>

record threadpool_task =
  tk_task :: "nat option"
  tk_cleanup :: "nat option"
  tk_udata :: nat

record marked_task =
  mt_task :: threadpool_task
  mt_mark :: size_t

record threadpool =
  t_reserve :: size_t
  t_commit :: size_t
  t_request :: size_t
  t_release :: size_t
  t_tasks :: "marked_task list"
  t_size :: size_t
  t_mask :: size_t
  t_size2 :: u8
  t_shutting_down :: bool
  t_live_threads :: u8
  t_max_threads :: u8
  t_threads :: "thread_info list"

record threadpool_config =
  tc_task_ringbuf_size2 :: u8
  tc_max_delay :: size_t
  tc_max_threads :: u8

definition THREADPOOL_MAX_RINGBUF_SIZE2 :: u8 where "THREADPOOL_MAX_RINGBUF_SIZE2 = 30"
definition DEFAULT_TASK_RINGBUF_SIZE2 :: u8 where "DEFAULT_TASK_RINGBUF_SIZE2 = 8"
definition DEFAULT_MAX_THREADS :: u8 where "DEFAULT_MAX_THREADS = 8"

section \<open>Construction\<close>

definition tp_set_defaults :: "threadpool_config \<Rightarrow> threadpool_config" where
  "tp_set_defaults cfg =
     (let cfg1 = (if tc_task_ringbuf_size2 cfg = 0 then cfg\<lparr>tc_task_ringbuf_size2 := DEFAULT_TASK_RINGBUF_SIZE2\<rparr> else cfg)
      in if tc_max_threads cfg1 = 0 then cfg1\<lparr>tc_max_threads := DEFAULT_MAX_THREADS\<rparr> else cfg1)"

definition no_task :: threadpool_task where
  "no_task = \<lparr>tk_task = None, tk_cleanup = None, tk_udata = 0\<rparr>"

text \<open>The task array is filled with \<open>0xFF\<close> bytes: every mark is the largest \<^verbatim>\<open>size_t\<close>; the other
  fields are never read before they are written.\<close>

definition Threadpool_Init :: "threadpool_config \<Rightarrow> bool \<times> bool \<times> bool \<Rightarrow> threadpool option" where
  "Threadpool_Init config allocs =
     (let cfg = tp_set_defaults config in
      if tc_task_ringbuf_size2 cfg > THREADPOOL_MAX_RINGBUF_SIZE2 then None
      else if tc_max_threads cfg < 1 then None
      else if \<not> (fst allocs \<and> fst (snd allocs) \<and> snd (snd allocs)) then None
      else
        let sz = (2 ^ unat (tc_task_ringbuf_size2 cfg) :: size_t) in
        Some \<lparr>t_reserve = 0, t_commit = 0, t_request = 0, t_release = 0,
           t_tasks = replicate (unat sz) \<lparr>mt_task = no_task, mt_mark = - 1\<rparr>,
           t_size = sz, t_mask = sz - 1, t_size2 = tc_task_ringbuf_size2 cfg, t_shutting_down = False,
           t_live_threads = 0, t_max_threads = tc_max_threads cfg,
           t_threads = replicate (unat (tc_max_threads cfg)) \<lparr>ti_parent_fd = 0, ti_child_fd = 0, ti_status = STATUS_NONE\<rparr>\<rparr>)"

section \<open>The ring buffer\<close>

definition slot_of :: "threadpool \<Rightarrow> size_t \<Rightarrow> nat" where
  "slot_of t w = unat (w AND t_mask t)"

definition mark_at :: "threadpool \<Rightarrow> size_t \<Rightarrow> size_t" where
  "mark_at t w = mt_mark (t_tasks t ! slot_of t w)"

definition task_at :: "threadpool \<Rightarrow> size_t \<Rightarrow> threadpool_task" where
  "task_at t w = mt_task (t_tasks t ! slot_of t w)"

definition put_slot :: "size_t \<Rightarrow> marked_task \<Rightarrow> threadpool \<Rightarrow> threadpool" where
  "put_slot w m t = t\<lparr>t_tasks := (t_tasks t)[slot_of t w := m]\<rparr>"

text \<open>Whether a reservation is refused, for the counters read; and the reservation itself.\<close>

definition full :: "threadpool \<Rightarrow> size_t \<Rightarrow> size_t \<Rightarrow> bool" where
  "full t wh rh \<longleftrightarrow> wh - rh \<ge> t_size t - 1 - 1"

definition reserve_slot :: "threadpool \<Rightarrow> threadpool option" where
  "reserve_slot t =
     (let t' = t\<lparr>t_reserve := t_reserve t + 1\<rparr> in
      do { c_assert (t_reserve t' - t_release t' < t_size t - 1); Some t' })"

definition write_slot :: "size_t \<Rightarrow> threadpool_task \<Rightarrow> threadpool \<Rightarrow> threadpool" where
  "write_slot wh tk t = put_slot wh \<lparr>mt_task = tk, mt_mark = wh\<rparr> t"

text \<open>One turn of the loop in \<^verbatim>\<open>commit_current_task\<close>, when the mark matches.\<close>

definition commit_one :: "threadpool \<Rightarrow> threadpool option" where
  "commit_one t =
     do { c_assert (t_commit t < t_reserve t);
          let t' = t\<lparr>t_commit := t_commit t + 1\<rparr>;
          c_assert (t_request t' \<le> t_commit t');
          Some t' }"

function commit_loop :: "threadpool \<Rightarrow> threadpool option" where
  "commit_loop t =
     (if mark_at t (t_commit t) \<noteq> t_commit t then Some t
      else case commit_one t of None \<Rightarrow> None | Some t' \<Rightarrow> commit_loop t')"
  by auto

lemma commit_one_eq: "commit_one t = Some t' \<Longrightarrow> t_commit t < t_reserve t \<and> t' = t\<lparr>t_commit := t_commit t + 1\<rparr>"
  by (auto simp: commit_one_def split: if_splits)

lemma word_succ_less:
  fixes a b :: size_t
  assumes "a < b"
  shows "unat (a + 1) = Suc (unat a)"
proof -
  have "unat a + 1 \<le> unat b" using assms by (simp add: word_less_nat_alt)
  then have "unat a + unat (1 :: size_t) < 2 ^ LENGTH(64)" using unat_lt_64 [of b] by simp
  then have "unat (a + 1) = unat a + unat (1 :: size_t)" by (rule unat_add_no_wrap)
  then show ?thesis by simp
qed

termination commit_loop
proof (relation "measure (\<lambda>t. unat (t_reserve t) - unat (t_commit t))")
  fix t t' assume "commit_one t = Some t'"
  then have *: "t_commit t < t_reserve t" "t' = t\<lparr>t_commit := t_commit t + 1\<rparr>" using commit_one_eq by blast+
  then show "(t', t) \<in> measure (\<lambda>t. unat (t_reserve t) - unat (t_commit t))"
    using word_succ_less [OF *(1)] by (simp add: word_less_nat_alt)
qed simp

declare commit_loop.simps [simp del]

definition commit_current_task :: "threadpool \<Rightarrow> threadpool option" where
  "commit_current_task t = commit_loop t"

text \<open>The loop in \<^verbatim>\<open>release_current_task\<close>, likewise.\<close>

definition release_one :: "threadpool \<Rightarrow> threadpool option" where
  "release_one t =
     do { c_assert (t_release t < t_commit t); Some (t\<lparr>t_release := t_release t + 1\<rparr>) }"

function release_loop :: "threadpool \<Rightarrow> threadpool option" where
  "release_loop t =
     (if mark_at t (t_release t) \<noteq> NOT (t_release t) then Some t
      else case release_one t of None \<Rightarrow> None | Some t' \<Rightarrow> release_loop t')"
  by auto

termination release_loop
proof (relation "measure (\<lambda>t. unat (t_commit t) - unat (t_release t))")
  fix t t' assume "release_one t = Some t'"
  then have *: "t_release t < t_commit t" "t' = t\<lparr>t_release := t_release t + 1\<rparr>"
    by (auto simp: release_one_def split: if_splits)
  then show "(t', t) \<in> measure (\<lambda>t. unat (t_commit t) - unat (t_release t))"
    using word_succ_less [OF *(1)] by (simp add: word_less_nat_alt)
qed simp

declare release_loop.simps [simp del]

definition mark_released :: "size_t \<Rightarrow> threadpool \<Rightarrow> threadpool" where
  "mark_released rh t = put_slot rh ((t_tasks t ! slot_of t rh)\<lparr>mt_mark := NOT rh\<rparr>) t"

definition release_current_task :: "size_t \<Rightarrow> threadpool \<Rightarrow> threadpool option" where
  "release_current_task rh t = release_loop (mark_released rh t)"

section \<open>Waking and spawning workers\<close>

datatype wake = WAKE_OK | WAKE_ERROR | WAKE_SHORT

text \<open>\<open>spawned\<close> is the outcome of allocating a context, opening a pipe and creating a thread.\<close>

datatype spawned = SPAWN_OK int int | SPAWN_NO_MEM | SPAWN_NO_PIPE | SPAWN_EAGAIN | SPAWN_ERROR

definition spawn :: "spawned \<Rightarrow> threadpool \<Rightarrow> (bool \<times> threadpool) option" where
  "spawn r t =
     (let id = unat (t_live_threads t) in
      if t_live_threads t \<ge> t_max_threads t then Some (False, t)
      else case r of
        SPAWN_OK child parent \<Rightarrow>
          Some (True, t\<lparr>t_threads := (t_threads t)[id := \<lparr>ti_parent_fd = parent, ti_child_fd = child, ti_status = STATUS_AWAKE\<rparr>]\<rparr>)
      | SPAWN_ERROR \<Rightarrow> None
      | _ \<Rightarrow> Some (False, t))"

text \<open>Wakes the first sleeping thread that takes the byte (\<open>True\<close>: one was woken).\<close>

fun wake_first :: "(nat \<Rightarrow> wake) \<Rightarrow> nat \<Rightarrow> thread_info list \<Rightarrow> bool option" where
  "wake_first w i [] = Some False"
| "wake_first w i (ti # tis) =
     (if ti_status ti = STATUS_ASLEEP then
        (case w i of WAKE_OK \<Rightarrow> Some True | WAKE_ERROR \<Rightarrow> None | WAKE_SHORT \<Rightarrow> wake_first w (Suc i) tis)
      else wake_first w (Suc i) tis)"

definition notify_new_task :: "(nat \<Rightarrow> wake) \<Rightarrow> spawned \<Rightarrow> threadpool \<Rightarrow> threadpool option" where
  "notify_new_task w r t =
     do { woken \<leftarrow> wake_first w 0 (take (unat (t_live_threads t)) (t_threads t));
          if woken then Some t
          else if t_live_threads t < t_max_threads t then
            do { (ok, t1) \<leftarrow> spawn r t;
                 Some (if ok then t1\<lparr>t_live_threads := t_live_threads t1 + 1\<rparr> else t1) }
          else Some t }"

section \<open>Scheduling\<close>

text \<open>The result is whether the task was taken, and the pushback if it is stored.\<close>

definition Threadpool_Schedule ::
  "threadpool option \<Rightarrow> threadpool_task option \<Rightarrow> (nat \<Rightarrow> wake) \<Rightarrow> spawned \<Rightarrow>
   (bool \<times> size_t option \<times> threadpool option) option" where
  "Threadpool_Schedule tp task w r =
     (case (tp, task) of
        (Some t, Some tk) \<Rightarrow>
          if tk_task tk = None then Some (False, None, tp)
          else if t_shutting_down t then Some (False, None, tp)
          else
            let wh = t_reserve t; rh = t_release t in
            if full t wh rh then Some (False, Some (wh - rh), tp)
            else do {
              t1 \<leftarrow> reserve_slot t;
              t2 \<leftarrow> commit_current_task (write_slot wh tk t1);
              t3 \<leftarrow> notify_new_task w r t2;
              Some (True, Some (wh - rh), Some t3) }
      | _ \<Rightarrow> Some (False, None, tp))"

section \<open>The worker\<close>

text \<open>What a sleeping worker's poll gives: a hangup or error, a readable pipe (with the outcome of
  the read), or nothing (interrupted).\<close>

datatype worker_poll = WP_HUP | WP_IN bool | WP_NOTHING

definition set_status :: "nat \<Rightarrow> thread_status \<Rightarrow> threadpool \<Rightarrow> threadpool" where
  "set_status i st t = t\<lparr>t_threads := (t_threads t)[i := (t_threads t ! i)\<lparr>ti_status := st\<rparr>]\<rparr>"

definition worker_wait :: "nat \<Rightarrow> worker_poll \<Rightarrow> threadpool \<Rightarrow> threadpool option" where
  "worker_wait i p t =
     (if t_request t = t_commit t then
        let t1 = (if ti_status (t_threads t ! i) = STATUS_AWAKE then set_status i STATUS_ASLEEP t else t) in
        case p of
          WP_HUP \<Rightarrow> Some (set_status i STATUS_SHUTDOWN t1)
        | WP_IN ok \<Rightarrow>
            do { c_assert ok;
                 Some (if ti_status (t_threads t1 ! i) = STATUS_ASLEEP then set_status i STATUS_AWAKE t1 else t1) }
        | WP_NOTHING \<Rightarrow> Some t1
      else Some t)"

text \<open>The test of the inner loop, on the counters read: the subtraction is on \<^verbatim>\<open>size_t\<close>.\<close>

definition nothing_to_do :: "size_t \<Rightarrow> size_t \<Rightarrow> bool" where
  "nothing_to_do ch rh \<longleftrightarrow> rh > ch - 1"

text \<open>Claims and releases the oldest task; the task is then run.\<close>

definition worker_take :: "threadpool \<Rightarrow> (threadpool_task option \<times> threadpool) option" where
  "worker_take t =
     (let ch = t_commit t; rh = t_request t in
      if nothing_to_do ch rh then Some (None, t)
      else do {
        let t1 = t\<lparr>t_request := rh + 1\<rparr>;
        c_assert (mark_at t1 rh = rh);
        let tk = task_at t1 rh;
        t2 \<leftarrow> release_current_task rh t1;
        Some (Some tk, t2) })"

text \<open>One turn of the outer loop of \<^verbatim>\<open>thread_task\<close>.\<close>

definition thread_task_turn :: "nat \<Rightarrow> worker_poll \<Rightarrow> threadpool \<Rightarrow> (threadpool_task option \<times> threadpool) option" where
  "thread_task_turn i p t =
     (if status_code (ti_status (t_threads t ! i)) \<ge> status_code STATUS_SHUTDOWN then Some (None, t)
      else do {
        t1 \<leftarrow> worker_wait i p t;
        if status_code (ti_status (t_threads t1 ! i)) < status_code STATUS_SHUTDOWN then worker_take t1
        else Some (None, t1) })"

section \<open>Statistics and shutdown\<close>

record threadpool_info =
  tpi_active :: u8
  tpi_dormant :: u8
  tpi_backlog :: size_t

definition Threadpool_Stats :: "threadpool \<Rightarrow> threadpool_info" where
  "Threadpool_Stats t =
     (let at = of_nat (length (filter (\<lambda>ti. ti_status ti = STATUS_AWAKE) (take (unat (t_live_threads t)) (t_threads t))))
      in \<lparr>tpi_active = at, tpi_dormant = t_live_threads t - at, tpi_backlog = t_commit t - t_request t\<rparr>)"

text \<open>Joins threads that have shut down and closes the pipes of the others; \<open>join\<close> says whether a
  join succeeds, fails with \<^verbatim>\<open>ESRCH\<close> or otherwise. Result: how many are joined.\<close>

datatype join_res = JOIN_OK | JOIN_ESRCH | JOIN_ERROR

fun notify_shutdown_loop :: "(nat \<Rightarrow> join_res) \<Rightarrow> nat \<Rightarrow> thread_info list \<Rightarrow> (nat \<times> thread_info list) option" where
  "notify_shutdown_loop j i [] = Some (0, [])"
| "notify_shutdown_loop j i (ti # tis) =
     do { (d, ti') \<leftarrow> (case ti_status ti of
            STATUS_JOINED \<Rightarrow> Some (1, ti)
          | STATUS_SHUTDOWN \<Rightarrow>
              (case j i of JOIN_OK \<Rightarrow> Some (1, ti\<lparr>ti_status := STATUS_JOINED\<rparr>)
                 | JOIN_ESRCH \<Rightarrow> Some (0, ti) | JOIN_ERROR \<Rightarrow> None)
          | _ \<Rightarrow> Some (0, ti));
          (ds, tis') \<leftarrow> notify_shutdown_loop j (Suc i) tis;
          Some (d + ds, ti' # tis') }"

definition notify_shutdown :: "(nat \<Rightarrow> join_res) \<Rightarrow> threadpool \<Rightarrow> (bool \<times> threadpool) option" where
  "notify_shutdown j t =
     (let n = unat (t_live_threads t) in
      do { (done, tis) \<leftarrow> notify_shutdown_loop j 0 (take n (t_threads t));
           Some (done = n, t\<lparr>t_threads := tis @ drop n (t_threads t)\<rparr>) })"

text \<open>Cancels every live thread that is not shutting down; \<open>c\<close> says whether cancelling thread
  \<open>i\<close> succeeds or fails with \<^verbatim>\<open>ESRCH\<close>.\<close>

fun kill_threads :: "(nat \<Rightarrow> bool) \<Rightarrow> nat \<Rightarrow> thread_info list \<Rightarrow> thread_info list option" where
  "kill_threads c i [] = Some []"
| "kill_threads c i (ti # tis) =
     do { ti' \<leftarrow> (if status_code (ti_status ti) < status_code STATUS_SHUTDOWN
                 then do { c_assert (c i); Some (ti\<lparr>ti_status := STATUS_SHUTDOWN\<rparr>) } else Some ti);
          tis' \<leftarrow> kill_threads c (Suc i) tis;
          Some (ti' # tis') }"

text \<open>Drops the tasks that are not yet claimed; the result lists the user data cleaned up.\<close>

function drain :: "threadpool \<Rightarrow> nat list \<times> threadpool" where
  "drain t =
     (if t_commit t > t_request t then
        let rh = t_request t;
            m = t_tasks t ! slot_of t rh;
            t1 = t\<lparr>t_request := rh + 1\<rparr>;
            (us, t2) = (if tk_cleanup (mt_task m) \<noteq> None
                        then ([tk_udata (mt_task m)], put_slot rh (m\<lparr>mt_task := (mt_task m)\<lparr>tk_udata := 0\<rparr>\<rparr>) t1)
                        else ([], t1));
            (us', t3) = drain (t2\<lparr>t_release := t_release t2 + 1\<rparr>)
        in (us @ us', t3)
      else ([], t))"
  by auto
termination drain
proof (relation "measure (\<lambda>t. unat (t_commit t) - unat (t_request t))")
  fix t rh m t1 x us t2
  assume a: "t_commit t > t_request t" "rh = t_request t" "t1 = t\<lparr>t_request := rh + 1\<rparr>"
    "x = (if tk_cleanup (mt_task m) \<noteq> None
            then ([tk_udata (mt_task m)], put_slot rh (m\<lparr>mt_task := (mt_task m)\<lparr>tk_udata := 0\<rparr>\<rparr>) t1)
            else ([], t1))" "(us, t2) = x"
  have "t_commit t2 = t_commit t" "t_request t2 = t_request t + 1" using a by (auto simp: put_slot_def split: if_splits)
  then show "(t2\<lparr>t_release := t_release t2 + 1\<rparr>, t) \<in> measure (\<lambda>t. unat (t_commit t) - unat (t_request t))"
    using word_succ_less [OF a(1)] a(1) by (simp add: word_less_nat_alt)
qed simp

declare drain.simps [simp del]

definition Threadpool_Shutdown ::
  "threadpool \<Rightarrow> bool \<Rightarrow> (nat \<Rightarrow> bool) \<Rightarrow> (nat \<Rightarrow> join_res) \<Rightarrow> (nat \<Rightarrow> join_res) \<Rightarrow> (bool \<times> nat list \<times> threadpool) option" where
  "Threadpool_Shutdown t kill_all c j j' =
     do { let t1 = t\<lparr>t_shutting_down := True\<rparr>;
          let n = unat (t_live_threads t1);
          t2 \<leftarrow> (if kill_all
                then do { tis \<leftarrow> kill_threads c 0 (take n (t_threads t1));
                          Some (t1\<lparr>t_threads := tis @ drop n (t_threads t1)\<rparr>) }
                else Some t1);
          (_, t3) \<leftarrow> notify_shutdown j t2;
          let (us, t4) = drain t3;
          (ok, t5) \<leftarrow> notify_shutdown j' t4;
          Some (ok, us, t5) }"

end
