(* ===== verification/Threadpool_Ring.thy ===== *)
theory Threadpool_Ring
  imports Threadpool
begin

text \<open>
  The invariant of the thread pool's ring buffer and its preservation by the atomic actions of
  the threads. \<open>W\<close> holds the positions that a scheduling thread has reserved but not written
  yet, \<open>C\<close> those that a worker has claimed but not released yet, and \<open>log\<close> is the list of all tasks
  ever scheduled, by position. Positions are numbers; position \<open>i\<close> lives in slot
  \<open>i mod 2 ^ k\<close>. Counters stay below \<open>2 ^ 63\<close>.
\<close>

definition mk :: "nat \<Rightarrow> threadpool \<Rightarrow> nat \<Rightarrow> nat" where
  "mk k t i = unat (mt_mark (t_tasks t ! (i mod 2 ^ k)))"

definition tk :: "nat \<Rightarrow> threadpool \<Rightarrow> nat \<Rightarrow> threadpool_task" where
  "tk k t i = mt_task (t_tasks t ! (i mod 2 ^ k))"

abbreviation MAXW :: nat where "MAXW \<equiv> 2 ^ 64 - 1"

abbreviation res :: "threadpool \<Rightarrow> nat" where "res t \<equiv> unat (t_reserve t)"
abbreviation com :: "threadpool \<Rightarrow> nat" where "com t \<equiv> unat (t_commit t)"
abbreviation req :: "threadpool \<Rightarrow> nat" where "req t \<equiv> unat (t_request t)"
abbreviation rel :: "threadpool \<Rightarrow> nat" where "rel t \<equiv> unat (t_release t)"

text \<open>The mark of a slot that holds nothing: as initialised, or left by a released task.\<close>

definition stale :: "nat \<Rightarrow> nat \<Rightarrow> bool" where
  "stale r m \<longleftrightarrow> m = MAXW \<or> (\<exists>j < r. m = MAXW - j)"

definition ring_shape :: "nat \<Rightarrow> threadpool \<Rightarrow> bool" where
  "ring_shape k t \<longleftrightarrow> 1 \<le> k \<and> k \<le> 30 \<and> t_size t = 2 ^ k \<and> t_mask t = mask k \<and> length (t_tasks t) = 2 ^ k"

definition heads_ok :: "nat \<Rightarrow> threadpool \<Rightarrow> bool" where
  "heads_ok k t \<longleftrightarrow> rel t \<le> req t \<and> req t \<le> com t \<and> com t \<le> res t \<and> res t < 2 ^ 63 \<and> res t + 2 \<le> rel t + 2 ^ k"

text \<open>What the mark of each position in the window says.\<close>

definition marks_ok :: "nat \<Rightarrow> threadpool \<Rightarrow> nat set \<Rightarrow> nat set \<Rightarrow> bool" where
  "marks_ok k t W C \<longleftrightarrow> W \<subseteq> {com t..<res t} \<and> C \<subseteq> {rel t..<req t} \<and>
     (\<forall>i. rel t \<le> i \<and> i < rel t + 2 ^ k \<longrightarrow>
        (if i < req t \<and> i \<notin> C then mk k t i = MAXW - i
         else if i < res t \<and> i \<notin> W then mk k t i = i
         else stale (rel t) (mk k t i)))"

definition log_ok :: "nat \<Rightarrow> threadpool \<Rightarrow> nat set \<Rightarrow> nat set \<Rightarrow> threadpool_task list \<Rightarrow> bool" where
  "log_ok k t W C log \<longleftrightarrow> length log = res t \<and>
     (\<forall>i. (i \<in> C \<or> (req t \<le> i \<and> i < res t \<and> i \<notin> W)) \<longrightarrow> tk k t i = log ! i)"

definition ring :: "nat \<Rightarrow> threadpool \<Rightarrow> nat set \<Rightarrow> nat set \<Rightarrow> threadpool_task list \<Rightarrow> bool" where
  "ring k t W C log \<longleftrightarrow> ring_shape k t \<and> heads_ok k t \<and> marks_ok k t W C \<and> log_ok k t W C log"

lemmas ring_defs = ring_def ring_shape_def heads_ok_def marks_ok_def log_ok_def

section \<open>Slots\<close>

lemma slot_of_mod: "ring_shape k t \<Longrightarrow> slot_of t w = unat w mod 2 ^ k"
  by (simp add: slot_of_def ring_shape_def unat_and_mask)

lemma mark_at_mk: "ring_shape k t \<Longrightarrow> unat (mark_at t w) = mk k t (unat w)"
  by (simp add: mark_at_def mk_def slot_of_mod)

lemma task_at_tk: "ring_shape k t \<Longrightarrow> task_at t w = tk k t (unat w)"
  by (simp add: task_at_def tk_def slot_of_mod)

lemma slot_lt: "ring_shape k t \<Longrightarrow> i mod 2 ^ k < length (t_tasks t)"
  by (simp add: ring_shape_def)

lemma same_slot:
  fixes i j r n :: nat
  assumes "r \<le> i" "i < r + n" "r \<le> j" "j < r + n"
  shows "i mod n = j mod n \<longleftrightarrow> i = j"
proof
  assume "i mod n = j mod n"
  show "i = j"
  proof (rule ccontr)
    assume "i \<noteq> j"
    then consider "i < j" | "j < i" by linarith
    then show False
    proof cases
      case 1
      then have "n dvd j - i" using \<open>i mod n = j mod n\<close> by (metis less_imp_le mod_eq_dvd_iff_nat)
      then show False using 1 assms by (auto dest: dvd_imp_le)
    next
      case 2
      then have "n dvd i - j" using \<open>i mod n = j mod n\<close> by (metis less_imp_le mod_eq_dvd_iff_nat)
      then show False using 2 assms by (auto dest: dvd_imp_le)
    qed
  qed
qed simp

lemma mk_put_slot:
  assumes "ring_shape k t"
  shows "mk k (put_slot w m t) i = (if i mod 2 ^ k = unat w mod 2 ^ k then unat (mt_mark m) else mk k t i)"
    "tk k (put_slot w m t) i = (if i mod 2 ^ k = unat w mod 2 ^ k then mt_task m else tk k t i)"
  using slot_lt [OF assms] by (simp_all add: mk_def tk_def put_slot_def slot_of_mod [OF assms] nth_list_update)

lemma put_slot_heads [simp]:
  "t_reserve (put_slot w m t) = t_reserve t" "t_commit (put_slot w m t) = t_commit t"
  "t_request (put_slot w m t) = t_request t" "t_release (put_slot w m t) = t_release t"
  "ring_shape k (put_slot w m t) = ring_shape k t"
  by (simp_all add: put_slot_def ring_shape_def)

lemma counter_updates [simp]:
  "mk k (t\<lparr>t_reserve := w\<rparr>) = mk k t" "mk k (t\<lparr>t_commit := w\<rparr>) = mk k t"
  "mk k (t\<lparr>t_request := w\<rparr>) = mk k t" "mk k (t\<lparr>t_release := w\<rparr>) = mk k t"
  "tk k (t\<lparr>t_reserve := w\<rparr>) = tk k t" "tk k (t\<lparr>t_commit := w\<rparr>) = tk k t"
  "tk k (t\<lparr>t_request := w\<rparr>) = tk k t" "tk k (t\<lparr>t_release := w\<rparr>) = tk k t"
  "ring_shape k (t\<lparr>t_reserve := w\<rparr>) = ring_shape k t" "ring_shape k (t\<lparr>t_commit := w\<rparr>) = ring_shape k t"
  "ring_shape k (t\<lparr>t_request := w\<rparr>) = ring_shape k t" "ring_shape k (t\<lparr>t_release := w\<rparr>) = ring_shape k t"
  by (simp_all add: fun_eq_iff mk_def tk_def ring_shape_def)

lemma unat_succ: "unat (w :: size_t) < 2 ^ 63 \<Longrightarrow> unat (w + 1) = Suc (unat w)"
  using unat_add_no_wrap [of w 1] by simp

lemma unat_not: "unat (NOT (w :: size_t)) = MAXW - unat w"
proof -
  have "NOT w = - 1 - w" by (simp add: not_eq_complement)
  moreover have "w \<le> - 1" by simp
  ultimately have "unat (NOT w) = unat (- 1 :: size_t) - unat w" by (simp add: unat_sub_le)
  then show ?thesis by (simp add: unsigned_minus_1_eq_mask mask_eq_exp_minus_1)
qed

lemma NOT_eq_iff: "w = NOT (v :: size_t) \<longleftrightarrow> unat w = MAXW - unat v"
  by (metis unat_not word_unat_eq_iff)

lemma ring_lt: "ring k t W C log \<Longrightarrow> com t < 2 ^ 63 \<and> req t < 2 ^ 63 \<and> rel t < 2 ^ 63 \<and> res t < 2 ^ 63"
  by (auto simp: ring_def heads_ok_def)

lemma stale_large: "stale r m \<Longrightarrow> r \<le> 2 ^ 63 \<Longrightarrow> 2 ^ 63 \<le> m"
  by (auto simp: stale_def)

lemma stale_mono: "stale r m \<Longrightarrow> r \<le> r' \<Longrightarrow> stale r' m"
  unfolding stale_def by (auto intro: less_le_trans)

section \<open>The actions\<close>

text \<open>A reservation goes through if the counters read show room, even when the release counter
  was read earlier; the assertion after it holds.\<close>

lemma not_full_room:
  assumes "ring k t W C log" "\<not> full t (t_reserve t) r" "unat r \<le> rel t"
  shows "res t + 2 < rel t + 2 ^ k"
proof -
  have sz: "t_size t = 2 ^ k" "1 \<le> k" "k \<le> 30" using assms(1) by (simp_all add: ring_def ring_shape_def)
  have p: "unat (2 ^ k :: size_t) = 2 ^ k" using sz(3) by (intro unat_pow2) simp
  have two: "(2 :: nat) \<le> 2 ^ k" using power_increasing [of 1 k "2 :: nat"] sz(2) by simp
  have one: "unat (2 ^ k - 1 :: size_t) = 2 ^ k - 1"
    using unat_sub_le [of 1 "2 ^ k :: size_t"] p two by (simp add: word_le_nat_alt)
  then have "unat (t_size t - 1 - 1) = 2 ^ k - 1 - 1"
    unfolding sz(1) using unat_sub_le [of 1 "2 ^ k - 1 :: size_t"] two by (simp add: word_le_nat_alt)
  moreover have "r \<le> t_reserve t" using assms(1,3) by (auto simp: ring_def heads_ok_def word_le_nat_alt)
  ultimately have "res t - unat r < 2 ^ k - 1 - 1"
    using assms(2) by (simp add: full_def not_le word_less_nat_alt unat_sub_le)
  then show ?thesis using assms(3) by linarith
qed

lemma ring_reserve:
  assumes "ring k t W C log" "res t + 2 < rel t + 2 ^ k" "res t + 1 < 2 ^ 63"
  shows "\<exists>t'. reserve_slot t = Some t' \<and> t' = t\<lparr>t_reserve := t_reserve t + 1\<rparr> \<and> ring k t' (insert (res t) W) C (log @ [x])"
proof -
  let ?t = "t\<lparr>t_reserve := t_reserve t + 1\<rparr>"
  have r: "res ?t = Suc (res t)" using unat_succ [of "t_reserve t"] assms(3) by simp
  have sh: "ring_shape k t" and sz: "t_size t = 2 ^ k" "1 \<le> k" "k \<le> 30"
    using assms(1) by (simp_all add: ring_def ring_shape_def)
  have "unat (t_size t - 1) = 2 ^ k - 1"
    unfolding sz(1) using unat_sub_le [of 1 "2 ^ k :: size_t"] unat_pow2 [of k] sz(3) by (simp add: word_le_nat_alt)
  moreover have "unat (t_reserve ?t - t_release ?t) = Suc (res t) - rel t"
    using assms(1) r by (subst unat_sub_le) (auto simp: word_le_nat_alt ring_def heads_ok_def)
  moreover have "rel t \<le> res t" using assms(1) by (auto simp: ring_def heads_ok_def)
  then have "Suc (res t) - rel t < 2 ^ k - 1" using assms(2) by linarith
  ultimately have "t_reserve ?t - t_release ?t < t_size t - 1" by (simp only: word_less_nat_alt)
  then have 1: "reserve_slot t = Some ?t" by (simp add: reserve_slot_def)
  have h: "heads_ok k ?t" using assms r by (auto simp: ring_def heads_ok_def)
  have "marks_ok k ?t (insert (res t) W) C"
    unfolding marks_ok_def
  proof (intro conjI allI impI)
    show "insert (res t) W \<subseteq> {com ?t..<res ?t}" "C \<subseteq> {rel ?t..<req ?t}"
      using assms(1) r by (auto simp: ring_def marks_ok_def heads_ok_def)
    fix i assume i: "rel ?t \<le> i \<and> i < rel ?t + 2 ^ k"
    then have old: "if i < req t \<and> i \<notin> C then mk k t i = MAXW - i
         else if i < res t \<and> i \<notin> W then mk k t i = i else stale (rel t) (mk k t i)"
      using assms(1) by (simp add: ring_def marks_ok_def)
    have "req t \<le> res t" using assms(1) by (auto simp: ring_def heads_ok_def)
    then show "if i < req ?t \<and> i \<notin> C then mk k ?t i = MAXW - i
         else if i < res ?t \<and> i \<notin> insert (res t) W then mk k ?t i = i else stale (rel ?t) (mk k ?t i)"
      using old r by (cases "i = res t") (simp_all split: if_splits)
  qed
  moreover have "log_ok k ?t (insert (res t) W) C (log @ [x])"
    using assms(1) r by (auto simp: ring_def log_ok_def marks_ok_def heads_ok_def nth_append less_Suc_eq)
  ultimately show ?thesis using 1 h sh by (simp add: ring_def)
qed

lemma ring_write:
  assumes "ring k t W C log" "i \<in> W" "unat w = i" "log ! i = x"
  shows "ring k (write_slot w x t) (W - {i}) C log"
proof -
  let ?t = "write_slot w x t"
  have sh: "ring_shape k t" using assms(1) by (simp add: ring_def)
  note put = mk_put_slot [OF sh, of w "\<lparr>mt_task = x, mt_mark = w\<rparr>"]
  have hd: "com t \<le> i" "i < res t" "req t \<le> com t" "rel t \<le> req t" "res t + 2 \<le> rel t + 2 ^ k" "C \<subseteq> {rel t..<req t}"
    using assms(1,2) by (auto simp: ring_def marks_ok_def heads_ok_def)
  have same: "j mod 2 ^ k = i mod 2 ^ k \<longleftrightarrow> j = i" if "rel t \<le> j" "j < rel t + 2 ^ k" for j
    by (rule same_slot [OF that]) (use hd in auto)
  have "marks_ok k ?t (W - {i}) C"
    unfolding marks_ok_def
  proof (intro conjI allI impI)
    show "W - {i} \<subseteq> {com ?t..<res ?t}" "C \<subseteq> {rel ?t..<req ?t}"
      using assms(1) by (auto simp: ring_def marks_ok_def write_slot_def)
    fix j assume j: "rel ?t \<le> j \<and> j < rel ?t + 2 ^ k"
    then have old: "if j < req t \<and> j \<notin> C then mk k t j = MAXW - j
         else if j < res t \<and> j \<notin> W then mk k t j = j else stale (rel t) (mk k t j)"
      using assms(1) by (simp add: ring_def marks_ok_def write_slot_def)
    show "if j < req ?t \<and> j \<notin> C then mk k ?t j = MAXW - j
         else if j < res ?t \<and> j \<notin> W - {i} then mk k ?t j = j else stale (rel ?t) (mk k ?t j)"
      using old same [of j] j hd assms(3) by (cases "j = i") (auto simp: write_slot_def put split: if_splits)
  qed
  moreover have "log_ok k ?t (W - {i}) C log"
    unfolding log_ok_def
  proof (intro conjI allI impI)
    show "length log = res ?t" using assms(1) by (simp add: ring_def log_ok_def write_slot_def)
    fix j assume j: "j \<in> C \<or> (req ?t \<le> j \<and> j < res ?t \<and> j \<notin> W - {i})"
    then have "rel t \<le> j" "j < rel t + 2 ^ k" using hd by (auto simp: write_slot_def)
    note s = same [OF this]
    have "j \<noteq> i \<Longrightarrow> tk k t j = log ! j" using assms(1) j by (auto simp: ring_def log_ok_def write_slot_def)
    then show "tk k ?t j = log ! j" using s assms(3,4) by (cases "j = i") (simp_all add: write_slot_def put)
  qed
  ultimately show ?thesis using assms(1) by (simp add: ring_def heads_ok_def write_slot_def)
qed

text \<open>The commit counter advances only over written positions, and its assertions hold.\<close>

lemma ring_commit:
  assumes "ring k t W C log" "mark_at t (t_commit t) = t_commit t"
  shows "com t < res t" "com t \<notin> W" "commit_one t = Some (t\<lparr>t_commit := t_commit t + 1\<rparr>)"
    "ring k (t\<lparr>t_commit := t_commit t + 1\<rparr>) W C log"
proof -
  let ?t = "t\<lparr>t_commit := t_commit t + 1\<rparr>"
  have sh: "ring_shape k t" using assms(1) by (simp add: ring_def)
  note lt = ring_lt [OF assms(1)]
  have hd: "rel t \<le> req t" "req t \<le> com t" "com t \<le> res t" "res t + 2 \<le> rel t + 2 ^ k"
    using assms(1) by (auto simp: ring_def heads_ok_def)
  have "mk k t (com t) = com t" using mark_at_mk [OF sh, of "t_commit t"] assms(2) by simp
  moreover have "if com t < req t \<and> com t \<notin> C then mk k t (com t) = MAXW - com t
         else if com t < res t \<and> com t \<notin> W then mk k t (com t) = com t else stale (rel t) (mk k t (com t))"
    using assms(1) hd unfolding ring_def marks_ok_def by simp
  ultimately show c: "com t < res t" "com t \<notin> W"
    using hd stale_large [of "rel t" "com t"] lt by (auto split: if_splits)
  have s: "com ?t = Suc (com t)" using unat_succ lt by simp
  then show "commit_one t = Some ?t"
    using c hd by (simp add: commit_one_def word_less_nat_alt word_le_nat_alt)
  have "Suc (com t) \<le> i" if "i \<in> W" for i
    using c(2) that assms(1) by (cases "i = com t") (auto simp: ring_def marks_ok_def)
  then have "W \<subseteq> {com ?t..<res ?t}" using assms(1) s by (auto simp: ring_def marks_ok_def)
  then have "marks_ok k ?t W C" using assms(1) by (simp add: ring_def marks_ok_def)
  then show "ring k ?t W C log"
    using assms(1) s c(1) hd by (simp add: ring_def heads_ok_def log_ok_def)
qed

text \<open>A claim takes the oldest committed position, whose slot holds the task scheduled there.\<close>

lemma ring_claim:
  assumes "ring k t W C log" "req t < com t"
  shows "mark_at t (t_request t) = t_request t" "task_at t (t_request t) = log ! req t"
    "ring k (t\<lparr>t_request := t_request t + 1\<rparr>) W (insert (req t) C) log"
proof -
  let ?t = "t\<lparr>t_request := t_request t + 1\<rparr>"
  have sh: "ring_shape k t" using assms(1) by (simp add: ring_def)
  have hd: "rel t \<le> req t" "req t \<le> com t" "com t \<le> res t" "res t + 2 \<le> rel t + 2 ^ k" "req t \<notin> W" "req t \<notin> C"
    using assms by (auto simp: ring_def heads_ok_def marks_ok_def)
  have "if req t < req t \<and> req t \<notin> C then mk k t (req t) = MAXW - req t
         else if req t < res t \<and> req t \<notin> W then mk k t (req t) = req t else stale (rel t) (mk k t (req t))"
    using assms(1) hd unfolding ring_def marks_ok_def by simp
  then have m: "mk k t (req t) = req t" using assms(2) hd by simp
  then show "mark_at t (t_request t) = t_request t" using mark_at_mk [OF sh, of "t_request t"] by (simp add: word_unat_eq_iff)
  show "task_at t (t_request t) = log ! req t"
    using assms hd task_at_tk [OF sh] by (simp add: ring_def log_ok_def)
  have s: "req ?t = Suc (req t)" using unat_succ ring_lt [OF assms(1)] by simp
  have "marks_ok k ?t W (insert (req t) C)"
    unfolding marks_ok_def
  proof (intro conjI allI impI)
    show "W \<subseteq> {com ?t..<res ?t}" "insert (req t) C \<subseteq> {rel ?t..<req ?t}"
      using assms(1) s hd by (auto simp: ring_def marks_ok_def)
    fix i assume i: "rel ?t \<le> i \<and> i < rel ?t + 2 ^ k"
    then have old: "if i < req t \<and> i \<notin> C then mk k t i = MAXW - i
         else if i < res t \<and> i \<notin> W then mk k t i = i else stale (rel t) (mk k t i)"
      using assms(1) by (simp add: ring_def marks_ok_def)
    show "if i < req ?t \<and> i \<notin> insert (req t) C then mk k ?t i = MAXW - i
         else if i < res ?t \<and> i \<notin> W then mk k ?t i = i else stale (rel ?t) (mk k ?t i)"
      using old s m hd assms(2) by (cases "i = req t") (simp_all split: if_splits)
  qed
  moreover have "log_ok k ?t W (insert (req t) C) log"
    using assms hd s unfolding ring_def log_ok_def by auto
  ultimately show "ring k ?t W (insert (req t) C) log"
    using assms s by (simp add: ring_def heads_ok_def)
qed

lemma ring_mark_released:
  assumes "ring k t W C log" "i \<in> C" "unat w = i"
  shows "ring k (mark_released w t) W (C - {i}) log"
proof -
  let ?t = "mark_released w t"
  have sh: "ring_shape k t" using assms(1) by (simp add: ring_def)
  note put = mk_put_slot [OF sh, of w "(t_tasks t ! slot_of t w)\<lparr>mt_mark := NOT w\<rparr>"]
  have hd: "rel t \<le> i" "i < req t" "req t \<le> com t" "com t \<le> res t" "res t + 2 \<le> rel t + 2 ^ k" "C \<subseteq> {rel t..<req t}"
    using assms(1,2) by (auto simp: ring_def marks_ok_def heads_ok_def)
  have same: "j mod 2 ^ k = i mod 2 ^ k \<longleftrightarrow> j = i" if "rel t \<le> j" "j < rel t + 2 ^ k" for j
    by (rule same_slot [OF that]) (use hd in auto)
  have "marks_ok k ?t W (C - {i})"
    unfolding marks_ok_def
  proof (intro conjI allI impI)
    show "W \<subseteq> {com ?t..<res ?t}" "C - {i} \<subseteq> {rel ?t..<req ?t}"
      using assms(1) by (auto simp: ring_def marks_ok_def mark_released_def)
    fix j assume j: "rel ?t \<le> j \<and> j < rel ?t + 2 ^ k"
    then have old: "if j < req t \<and> j \<notin> C then mk k t j = MAXW - j
         else if j < res t \<and> j \<notin> W then mk k t j = j else stale (rel t) (mk k t j)"
      using assms(1) by (simp add: ring_def marks_ok_def mark_released_def)
    show "if j < req ?t \<and> j \<notin> C - {i} then mk k ?t j = MAXW - j
         else if j < res ?t \<and> j \<notin> W then mk k ?t j = j else stale (rel ?t) (mk k ?t j)"
      using old same [of j] j hd assms(3) by (cases "j = i") (auto simp: mark_released_def put unat_not split: if_splits)
  qed
  moreover have "log_ok k ?t W (C - {i}) log"
    unfolding log_ok_def
  proof (intro conjI allI impI)
    show "length log = res ?t" using assms(1) by (simp add: ring_def log_ok_def mark_released_def)
    fix j assume j: "j \<in> C - {i} \<or> (req ?t \<le> j \<and> j < res ?t \<and> j \<notin> W)"
    then have "rel t \<le> j" "j < rel t + 2 ^ k" "j \<noteq> i" using hd by (auto simp: mark_released_def)
    moreover have "tk k t j = log ! j" using assms(1) j by (auto simp: ring_def log_ok_def mark_released_def)
    ultimately show "tk k ?t j = log ! j" using same [of j] assms(3) by (simp add: mark_released_def put)
  qed
  ultimately show ?thesis using assms(1) by (simp add: ring_def heads_ok_def mark_released_def)
qed

text \<open>The release counter advances only over released positions, once a task has been claimed.\<close>

lemma ring_release:
  assumes "ring k t W C log" "mark_at t (t_release t) = NOT (t_release t)" "0 < req t"
  shows "rel t < req t" "rel t \<notin> C" "release_one t = Some (t\<lparr>t_release := t_release t + 1\<rparr>)"
    "ring k (t\<lparr>t_release := t_release t + 1\<rparr>) W C log"
proof -
  let ?t = "t\<lparr>t_release := t_release t + 1\<rparr>"
  have sh: "ring_shape k t" using assms(1) by (simp add: ring_def)
  note lt = ring_lt [OF assms(1)]
  have hd: "rel t \<le> req t" "req t \<le> com t" "com t \<le> res t" "res t + 2 \<le> rel t + 2 ^ k" "C \<subseteq> {rel t..<req t}" "W \<subseteq> {com t..<res t}"
    using assms(1) by (auto simp: ring_def heads_ok_def marks_ok_def)
  have m: "mk k t (rel t) = MAXW - rel t"
    using mark_at_mk [OF sh, of "t_release t"] assms(2) by (simp add: unat_not)
  have old: "if i < req t \<and> i \<notin> C then mk k t i = MAXW - i
         else if i < res t \<and> i \<notin> W then mk k t i = i else stale (rel t) (mk k t i)"
    if "rel t \<le> i" "i < rel t + 2 ^ k" for i
    using assms(1) that unfolding ring_def marks_ok_def by simp
  have ns: "\<not> stale (rel t) (MAXW - rel t)" if "0 < rel t" using that lt by (auto simp: stale_def)
  show r: "rel t < req t" "rel t \<notin> C"
  proof -
    have "rel t < req t \<and> rel t \<notin> C"
    proof (rule ccontr)
      assume n: "\<not> (rel t < req t \<and> rel t \<notin> C)"
      then have "stale (rel t) (MAXW - rel t)" using old [of "rel t"] m lt hd by (auto split: if_splits)
      then have "rel t = 0" using ns by blast
      then show False using n assms(3) old [of "rel t"] m hd by (auto split: if_splits)
    qed
    then show "rel t < req t" "rel t \<notin> C" by blast+
  qed
  have s: "rel ?t = Suc (rel t)" using unat_succ lt by simp
  show "release_one t = Some ?t" using r hd by (simp add: release_one_def word_less_nat_alt)
  have "marks_ok k ?t W C"
    unfolding marks_ok_def
  proof (intro conjI allI impI)
    show "W \<subseteq> {com ?t..<res ?t}" using assms(1) by (simp add: ring_def marks_ok_def)
    show "C \<subseteq> {rel ?t..<req ?t}" using hd(5) r(2) s by (auto simp: Suc_le_eq order.order_iff_strict)
    fix i assume i: "rel ?t \<le> i \<and> i < rel ?t + 2 ^ k"
    show "if i < req ?t \<and> i \<notin> C then mk k ?t i = MAXW - i
         else if i < res ?t \<and> i \<notin> W then mk k ?t i = i else stale (rel ?t) (mk k ?t i)"
    proof (cases "i = rel t + 2 ^ k")
      case True
      then have "mk k t i = MAXW - rel t" using m by (simp add: mk_def)
      moreover have "stale (rel ?t) (MAXW - rel t)" unfolding stale_def s by auto
      ultimately show ?thesis using True hd s by simp
    next
      case False
      then show ?thesis using old [of i] i s stale_mono [of "rel t" _ "rel ?t"] by (simp split: if_splits)
    qed
  qed
  then show "ring k ?t W C log" using assms(1) r(1) s by (simp add: ring_def heads_ok_def log_ok_def)
qed

end
