(* ===== verification/Threadpool_Conc.thy ===== *)
theory Threadpool_Conc
  imports Threadpool_Ring
begin

text \<open>
  The thread pool under concurrency. The atomic actions of scheduling threads and workers
  interleave arbitrarily: an action is one successful compare-and-swap or one write to a slot
  that its thread owns, and a counter that a thread read earlier may be out of date when its
  swap succeeds. A check followed by a successful swap of the same counter is one action: the
  checked slot belongs to that counter value and cannot change before the swap. A
  failing swap changes nothing. The ghost fields \<open>s_log\<close> and \<open>s_taken\<close> record the tasks in the
  order of their reservation and the positions taken by workers.
\<close>

record pool_sys =
  s_pool :: threadpool
  s_writing :: "nat \<Rightarrow> threadpool_task option"
  s_claimed :: "nat set"
  s_log :: "threadpool_task list"
  s_taken :: "(nat \<times> threadpool_task) list"

text \<open>Fewer than \<open>2 ^ 63\<close> tasks are scheduled in the life of a pool. In \<open>claim\<close>, \<open>ch\<close> is the commit counter
  as read; the case \<open>ch = 0\<close>, where the code's test wraps around, is excluded here and
  treated separately below. Only a thread that has claimed a task runs the release loop.\<close>

inductive tp_step :: "pool_sys \<Rightarrow> pool_sys \<Rightarrow> bool" where
  reserve: "s_pool s = t \<Longrightarrow> unat r \<le> rel t \<Longrightarrow> \<not> full t (t_reserve t) r \<Longrightarrow> res t + 1 < 2 ^ 63 \<Longrightarrow>
    reserve_slot t = Some t' \<Longrightarrow>
    tp_step s (s\<lparr>s_pool := t', s_writing := (s_writing s)(res t \<mapsto> x), s_log := s_log s @ [x]\<rparr>)"
| fill: "s_writing s i = Some x \<Longrightarrow> unat w = i \<Longrightarrow>
    tp_step s (s\<lparr>s_pool := write_slot w x (s_pool s), s_writing := (s_writing s)(i := None)\<rparr>)"
| commit: "mark_at t (t_commit t) = t_commit t \<Longrightarrow> s_pool s = t \<Longrightarrow> commit_one t = Some t' \<Longrightarrow>
    tp_step s (s\<lparr>s_pool := t'\<rparr>)"
| claim: "s_pool s = t \<Longrightarrow> unat ch \<le> com t \<Longrightarrow> ch \<noteq> 0 \<Longrightarrow> \<not> nothing_to_do ch (t_request t) \<Longrightarrow>
    tp_step s (s\<lparr>s_pool := t\<lparr>t_request := t_request t + 1\<rparr>, s_claimed := insert (req t) (s_claimed s)\<rparr>)"
| take: "i \<in> s_claimed s \<Longrightarrow> unat w = i \<Longrightarrow> mark_at (s_pool s) w = w \<Longrightarrow>
    tp_step s (s\<lparr>s_pool := mark_released w (s_pool s), s_claimed := s_claimed s - {i},
       s_taken := s_taken s @ [(i, task_at (s_pool s) w)]\<rparr>)"
| release: "s_pool s = t \<Longrightarrow> 0 < req t \<Longrightarrow> mark_at t (t_release t) = NOT (t_release t) \<Longrightarrow>
    release_one t = Some t' \<Longrightarrow> tp_step s (s\<lparr>s_pool := t'\<rparr>)"

inductive_cases tp_stepE: "tp_step s s'"

inductive tp_reach :: "pool_sys \<Rightarrow> bool" where
  start: "Threadpool_Init cfg allocs = Some t \<Longrightarrow>
    tp_reach \<lparr>s_pool = t, s_writing = Map.empty, s_claimed = {}, s_log = [], s_taken = []\<rparr>"
| step: "tp_reach s \<Longrightarrow> tp_step s s' \<Longrightarrow> tp_reach s'"

section \<open>Invariant\<close>

text \<open>Every position below the request counter is claimed or taken, none twice, and what was taken
  is what was scheduled there.\<close>

definition sys_ok :: "nat \<Rightarrow> pool_sys \<Rightarrow> bool" where
  "sys_ok k s \<longleftrightarrow> ring k (s_pool s) (dom (s_writing s)) (s_claimed s) (s_log s) \<and>
     (\<forall>i x. s_writing s i = Some x \<longrightarrow> s_log s ! i = x) \<and>
     distinct (map fst (s_taken s)) \<and> fst ` set (s_taken s) \<inter> s_claimed s = {} \<and>
     fst ` set (s_taken s) \<union> s_claimed s = {..<req (s_pool s)} \<and>
     (\<forall>(i, x) \<in> set (s_taken s). i < length (s_log s) \<and> s_log s ! i = x)"

lemma Threadpool_Init_ring:
  assumes "Threadpool_Init cfg allocs = Some t"
  shows "\<exists>k. ring k t {} {} []"
proof -
  let ?c = "tp_set_defaults cfg"
  define k where "k = unat (tc_task_ringbuf_size2 ?c)"
  have t: "tc_task_ringbuf_size2 ?c \<le> THREADPOOL_MAX_RINGBUF_SIZE2"
    "t_tasks t = replicate (unat (2 ^ k :: size_t)) \<lparr>mt_task = no_task, mt_mark = - 1\<rparr>"
    "t_size t = 2 ^ k" "t_mask t = 2 ^ k - 1" "res t = 0" "com t = 0" "req t = 0" "rel t = 0"
    using assms by (auto simp: Threadpool_Init_def Let_def k_def split: if_splits)
  have k30: "k \<le> 30" using t(1) by (simp add: k_def THREADPOOL_MAX_RINGBUF_SIZE2_def word_le_nat_alt)
  have "tc_task_ringbuf_size2 ?c \<noteq> 0" by (auto simp: tp_set_defaults_def Let_def DEFAULT_TASK_RINGBUF_SIZE2_def)
  then have k1: "1 \<le> k" by (simp add: k_def Suc_le_eq unat_gt_0)
  have p: "unat (2 ^ k :: size_t) = 2 ^ k" using k30 by (intro unat_pow2) simp
  have "ring_shape k t" using k1 k30 p t by (simp add: ring_shape_def mask_eq_exp_minus_1)
  moreover have "heads_ok k t" using t k1 power_increasing [of 1 k "2 :: nat"] by (simp add: heads_ok_def)
  moreover have "mk k t i = MAXW" for i
    using t(2) p by (simp add: mk_def unsigned_minus_1_eq_mask mask_eq_exp_minus_1)
  ultimately have "ring k t {} {} []" using t(5-8) by (simp add: ring_def marks_ok_def log_ok_def stale_def)
  then show ?thesis by blast
qed

text \<open>With a commit counter read as positive, the worker's test finds a committed position.\<close>

lemma claim_guard:
  assumes "ch \<noteq> 0" "unat ch \<le> com t" "\<not> nothing_to_do ch (t_request t)"
  shows "req t < com t"
proof -
  have "1 \<le> ch" using assms(1) by (simp add: word_le_nat_alt Suc_le_eq unat_gt_0)
  then have "unat (ch - 1) = unat ch - 1" by (simp add: unat_sub_le)
  then have "req t \<le> unat ch - 1" using assms(3) by (simp add: nothing_to_do_def not_less word_le_nat_alt)
  moreover have "0 < unat ch" using assms(1) by (simp add: unat_gt_0)
  ultimately show ?thesis using assms(2) by linarith
qed

lemma tp_step_ok:
  assumes "tp_step s s'" "sys_ok k s"
  shows "sys_ok k s'"
  using assms
proof (cases rule: tp_step.cases)
  case (reserve t r t' x)
  let ?W = "dom (s_writing s)"
  have r: "ring k t ?W (s_claimed s) (s_log s)" using assms(2) reserve by (simp add: sys_ok_def)
  have len: "length (s_log s) = res t" using r by (simp add: ring_def log_ok_def)
  have "res t + 2 < rel t + 2 ^ k" by (rule not_full_room [OF r]) (use reserve in auto)
  then have "ring k t' (insert (res t) ?W) (s_claimed s) (s_log s @ [x])" "t' = t\<lparr>t_reserve := t_reserve t + 1\<rparr>"
    using ring_reserve [OF r] reserve by auto
  moreover have "res t \<notin> ?W" "i < res t" if "i \<in> ?W" for i using r that by (auto simp: ring_def marks_ok_def)
  ultimately show ?thesis
    using assms(2) reserve(1,2) len by (fastforce simp: sys_ok_def nth_append)
next
  case (fill i x w)
  have r: "ring k (s_pool s) (dom (s_writing s)) (s_claimed s) (s_log s)" using assms(2) by (simp add: sys_ok_def)
  have "ring k (write_slot w x (s_pool s)) (dom (s_writing s) - {i}) (s_claimed s) (s_log s)"
    by (rule ring_write [OF r]) (use fill assms(2) in \<open>auto simp: sys_ok_def\<close>)
  then show ?thesis using assms(2) fill(1) by (simp add: sys_ok_def write_slot_def)
next
  case (commit t t')
  then have r: "ring k t (dom (s_writing s)) (s_claimed s) (s_log s)" using assms(2) by (simp add: sys_ok_def)
  show ?thesis using ring_commit [OF r commit(2)] assms(2) commit by (simp add: sys_ok_def)
next
  case (claim t ch)
  then have r: "ring k t (dom (s_writing s)) (s_claimed s) (s_log s)" using assms(2) by (simp add: sys_ok_def)
  have lt: "req t < com t" by (rule claim_guard [OF claim(4,3,5)])
  have "unat (t_request t + 1) = Suc (req t)" using unat_succ ring_lt [OF r] by simp
  then show ?thesis using ring_claim(3) [OF r lt] assms(2) claim(1,2)
    by (auto simp: sys_ok_def lessThan_Suc)
next
  case (take i w)
  have r: "ring k (s_pool s) (dom (s_writing s)) (s_claimed s) (s_log s)" using assms(2) by (simp add: sys_ok_def)
  have sh: "ring_shape k (s_pool s)" using r by (simp add: ring_def)
  have t: "task_at (s_pool s) w = s_log s ! i" "i < length (s_log s)"
    using r take(2,3) task_at_tk [OF sh, of w] by (auto simp: ring_def log_ok_def marks_ok_def heads_ok_def)
  then show ?thesis using ring_mark_released [OF r take(2,3)] assms(2) take(1,2)
    by (auto simp: sys_ok_def mark_released_def)
next
  case (release t t')
  then have r: "ring k t (dom (s_writing s)) (s_claimed s) (s_log s)" using assms(2) by (simp add: sys_ok_def)
  show ?thesis using ring_release [OF r release(4,3)] assms(2) release by (simp add: sys_ok_def)
qed

lemma tp_reach_ok: "tp_reach s \<Longrightarrow> \<exists>k. sys_ok k s"
proof (induction rule: tp_reach.induct)
  case (start cfg allocs t)
  then obtain k where "ring k t {} {} []" using Threadpool_Init_ring by blast
  moreover from this have "req t = 0" by (auto simp: ring_def log_ok_def heads_ok_def)
  ultimately show ?case by (auto simp: sys_ok_def intro!: exI [of _ k])
next
  case (step s s')
  then show ?case using tp_step_ok by blast
qed

section \<open>Properties\<close>


text \<open>A pool of eight slots, two tasks reserved by two threads, and only the second one written: its
  commit loop ends at once because the first is not marked, but its thread wakes a worker.\<close>

definition ex_pool :: threadpool where
  "ex_pool = the (Threadpool_Init \<lparr>tc_task_ringbuf_size2 = 3, tc_max_delay = 0, tc_max_threads = 2\<rparr> (True, True, True))"

definition ex_task :: "nat \<Rightarrow> threadpool_task" where
  "ex_task n = \<lparr>tk_task = Some n, tk_cleanup = None, tk_udata = n\<rparr>"

definition ex_sys :: "pool_sys" where
  "ex_sys = \<lparr>s_pool = write_slot 1 (ex_task 2) (ex_pool\<lparr>t_reserve := 2\<rparr>), s_writing = [0 \<mapsto> ex_task 1],
     s_claimed = {}, s_log = [ex_task 1, ex_task 2], s_taken = []\<rparr>"

lemma ex_pool_eq:
  "Threadpool_Init \<lparr>tc_task_ringbuf_size2 = 3, tc_max_delay = 0, tc_max_threads = 2\<rparr> (True, True, True) = Some ex_pool"
  by (simp add: ex_pool_def Threadpool_Init_def tp_set_defaults_def THREADPOOL_MAX_RINGBUF_SIZE2_def Let_def)

lemma ex_pool_heads [simp]:
  "t_reserve ex_pool = 0" "t_commit ex_pool = 0" "t_request ex_pool = 0" "t_release ex_pool = 0" "t_size ex_pool = 8"
  by (simp_all add: ex_pool_def Threadpool_Init_def tp_set_defaults_def THREADPOOL_MAX_RINGBUF_SIZE2_def Let_def)

lemma ex_sys_reachable: "tp_reach ex_sys"
proof -
  let ?s0 = "\<lparr>s_pool = ex_pool, s_writing = Map.empty, s_claimed = {}, s_log = [], s_taken = []\<rparr>"
  let ?s1 = "?s0\<lparr>s_pool := ex_pool\<lparr>t_reserve := 1\<rparr>, s_writing := [0 \<mapsto> ex_task 1], s_log := [ex_task 1]\<rparr>"
  let ?s2 = "?s1\<lparr>s_pool := ex_pool\<lparr>t_reserve := 2\<rparr>, s_writing := [0 \<mapsto> ex_task 1, 1 \<mapsto> ex_task 2], s_log := [ex_task 1, ex_task 2]\<rparr>"
  have "tp_step ?s0 ?s1"
    using tp_step.reserve [of ?s0 ex_pool 0 "ex_pool\<lparr>t_reserve := 1\<rparr>" "ex_task 1"] by (simp add: full_def reserve_slot_def)
  moreover have "tp_step ?s1 ?s2"
    using tp_step.reserve [of ?s1 "ex_pool\<lparr>t_reserve := 1\<rparr>" 0 "ex_pool\<lparr>t_reserve := 2\<rparr>" "ex_task 2"]
    by (simp add: full_def reserve_slot_def word_le_nat_alt)
  moreover have "tp_step ?s2 ex_sys"
    using tp_step.fill [of ?s2 1 "ex_task 2" 1] by (simp add: ex_sys_def fun_upd_twist)
  ultimately show ?thesis using tp_reach.start [OF ex_pool_eq] tp_reach.step by metis
qed


text \<open>a worker that wakes before the first commit ends the process. While the commit counter is
  still 0, the test \<^verbatim>\<open>rh > ch - 1\<close> compares with the largest \<^verbatim>\<open>size_t\<close> and lets the worker claim
  position 0; if that task is not written yet (another thread has reserved it), the
  assertion on its mark fails.\<close>
theorem early_worker_aborts:
  assumes "tp_reach s" "com (s_pool s) = 0" "0 \<in> dom (s_writing s) \<or> res (s_pool s) = 0"
  shows "\<not> nothing_to_do (t_commit (s_pool s)) (t_request (s_pool s)) \<and> worker_take (s_pool s) = None"
proof -
  let ?t = "s_pool s"
  obtain k where "sys_ok k s" using tp_reach_ok [OF assms(1)] by blast
  then have r: "ring k ?t (dom (s_writing s)) (s_claimed s) (s_log s)" by (simp add: sys_ok_def)
  then have sh: "ring_shape k ?t" by (simp add: ring_def)
  have z: "req ?t = 0" "rel ?t = 0" using r assms(2) by (auto simp: ring_def heads_ok_def)
  then have zero: "t_commit ?t = 0" "t_request ?t = 0" using assms(2) by (simp_all add: unat_eq_0)
  have "if 0 < req ?t \<and> 0 \<notin> s_claimed s then mk k ?t 0 = MAXW - 0
         else if 0 < res ?t \<and> 0 \<notin> dom (s_writing s) then mk k ?t 0 = 0 else stale (rel ?t) (mk k ?t 0)"
  proof -
    have "rel ?t \<le> 0 \<and> 0 < rel ?t + 2 ^ k" using z(2) by simp
    then show ?thesis using r unfolding ring_def marks_ok_def by blast
  qed
  then have "mk k ?t 0 = MAXW" using z assms(3) by (auto simp: stale_def split: if_splits)
  then have "mark_at ?t 0 \<noteq> 0" using mark_at_mk [OF sh, of 0] by auto
  then show ?thesis
    using zero by (simp add: nothing_to_do_def worker_take_def Let_def mark_at_def slot_of_def)
qed

lemma early_worker_aborts_witness: "tp_reach ex_sys \<and> worker_take (s_pool ex_sys) = None"
  using early_worker_aborts [OF ex_sys_reachable] ex_sys_reachable by (simp add: ex_sys_def write_slot_def)

end
