(* ===== verification/Threadpool_Queue.thy ===== *)
theory Threadpool_Queue
  imports Threadpool_Conc
begin

text \<open>
  The thread pool between operations is a bounded queue: scheduling appends a task and is
  refused exactly when \<open>size - 2\<close> tasks are pending, a worker takes the oldest task, and shutting
  down cleans up the pending ones in order.
\<close>

section \<open>What a client relies on\<close>

fun take_n :: "('s \<Rightarrow> ('a \<times> 's) option) \<Rightarrow> nat \<Rightarrow> 's \<Rightarrow> ('a list \<times> 's) option" where
  "take_n get 0 s = Some ([], s)"
| "take_n get (Suc n) s =
     do { (x, s1) \<leftarrow> get s; (xs, s2) \<leftarrow> take_n get n s1; Some (x # xs, s2) }"

locale task_queue =
  fixes inv :: "'s \<Rightarrow> bool" and pending :: "'s \<Rightarrow> 'a list" and put :: "'a \<Rightarrow> 's \<Rightarrow> 's option"
    and get :: "'s \<Rightarrow> ('a \<times> 's) option"
  assumes put_appends: "inv s \<Longrightarrow> put x s = Some s' \<Longrightarrow> inv s' \<and> pending s' = pending s @ [x]"
    and get_takes: "inv s \<Longrightarrow> pending s = x # xs \<Longrightarrow> \<exists>s'. get s = Some (x, s') \<and> inv s' \<and> pending s' = xs"
begin

lemma take_all:
  assumes "inv s" "pending s = xs @ ys"
  shows "\<exists>s'. take_n get (length xs) s = Some (xs, s') \<and> inv s' \<and> pending s' = ys"
  using assms
proof (induction xs arbitrary: s)
  case (Cons x xs)
  obtain s1 where s1: "get s = Some (x, s1)" "inv s1" "pending s1 = xs @ ys"
    using get_takes [OF Cons.prems(1), of x "xs @ ys"] Cons.prems(2) by auto
  obtain s2 where "take_n get (length xs) s1 = Some (xs, s2)" "inv s2" "pending s2 = ys"
    using Cons.IH [OF s1(2,3)] by blast
  then show ?case using s1(1) by simp
qed auto

lemma put_then_take:
  assumes "inv s" "put x s = Some s'"
  shows "\<exists>s''. take_n get (Suc (length (pending s))) s' = Some (pending s @ [x], s'') \<and> inv s'' \<and> pending s'' = []"
proof -
  have p: "inv s'" "pending s' = (pending s @ [x]) @ []" using put_appends [OF assms] by simp_all
  show ?thesis using take_all [OF p] by (simp del: take_n.simps)
qed

end

section \<open>The pool between operations\<close>

definition queued :: "threadpool \<Rightarrow> threadpool_task list" where
  "queued t = map (\<lambda>i. mt_task (t_tasks t ! (i mod length (t_tasks t)))) [req t..<com t]"

definition quiet :: "nat \<Rightarrow> threadpool \<Rightarrow> threadpool_task list \<Rightarrow> bool" where
  "quiet k t log \<longleftrightarrow> ring k t {} {} log \<and> com t = res t \<and> rel t = req t"

definition pool_ok :: "threadpool \<Rightarrow> bool" where
  "pool_ok t \<longleftrightarrow> (\<exists>k log. quiet k t log)"

lemma queued_log: "quiet k t log \<Longrightarrow> queued t = drop (req t) log"
proof -
  assume q: "quiet k t log"
  then have l: "length (t_tasks t) = 2 ^ k" "length log = com t" "\<forall>i. req t \<le> i \<and> i < com t \<longrightarrow> tk k t i = log ! i"
    by (auto simp: quiet_def ring_def ring_shape_def log_ok_def)
  have "queued t = map (\<lambda>i. log ! i) [req t..<com t]"
    unfolding queued_def by (rule map_cong) (use l in \<open>auto simp: tk_def\<close>)
  also have "\<dots> = drop (req t) log" by (rule nth_equalityI) (use l(2) in auto)
  finally show ?thesis .
qed

lemma commit_loop_stops: "ring k t W C log \<Longrightarrow> com t = res t \<Longrightarrow> commit_loop t = Some t"
  using ring_commit(1) by (subst commit_loop.simps) fastforce

lemma release_loop_stops: "ring k t W C log \<Longrightarrow> rel t = req t \<Longrightarrow> 0 < req t \<Longrightarrow> release_loop t = Some t"
  using ring_release(1) by (subst release_loop.simps) fastforce

definition same_ring :: "threadpool \<Rightarrow> threadpool \<Rightarrow> bool" where
  "same_ring t t' \<longleftrightarrow> t_reserve t' = t_reserve t \<and> t_commit t' = t_commit t \<and> t_request t' = t_request t \<and>
     t_release t' = t_release t \<and> t_tasks t' = t_tasks t \<and> t_size t' = t_size t \<and> t_mask t' = t_mask t \<and>
     t_shutting_down t' = t_shutting_down t"

lemma notify_keeps_ring:
  assumes "\<And>i. w i \<noteq> WAKE_ERROR" "r \<noteq> SPAWN_ERROR"
  shows "\<exists>t'. notify_new_task w r t = Some t' \<and> same_ring t t'"
proof -
  have "\<exists>b. wake_first w i tis = Some b" for i tis
    by (induction tis arbitrary: i) (use assms(1) in \<open>auto split: wake.splits\<close>)
  then obtain b where b: "wake_first w 0 (take (unat (t_live_threads t)) (t_threads t)) = Some b" by blast
  show ?thesis
  proof (cases "b \<or> \<not> t_live_threads t < t_max_threads t")
    case True
    then show ?thesis using b by (auto simp: notify_new_task_def same_ring_def)
  next
    case False
    then show ?thesis using b assms(2)
      by (cases r) (auto simp: notify_new_task_def spawn_def Let_def same_ring_def)
  qed
qed

lemma notify_same_ring: "notify_new_task w r t = Some t' \<Longrightarrow> same_ring t t'"
  by (auto simp: notify_new_task_def spawn_def Let_def same_ring_def bind_Some_iff split: if_splits spawned.splits)

lemma same_ring_ring: "same_ring t t' \<Longrightarrow> ring k t' W C log = ring k t W C log"
  by (simp add: same_ring_def ring_defs mk_def tk_def)

lemma same_ring_quiet: "same_ring t t' \<Longrightarrow> quiet k t' log = quiet k t log"
  using same_ring_ring [of t t'] by (simp add: quiet_def same_ring_def)

text \<open>Scheduling on a quiet pool, up to the wake-up.\<close>

lemma quiet_schedule:
  assumes "quiet k t log" "\<not> full t (t_reserve t) (t_release t)" "res t + 1 < 2 ^ 63"
  shows "\<exists>t1 t2. reserve_slot t = Some t1 \<and> commit_current_task (write_slot (t_reserve t) x t1) = Some t2 \<and>
     quiet k t2 (log @ [x]) \<and> req t2 = req t \<and> t_shutting_down t2 = t_shutting_down t"
proof -
  have r: "ring k t {} {} log" "com t = res t" "rel t = req t" using assms(1) by (simp_all add: quiet_def)
  have len: "length log = res t" using r(1) by (simp add: ring_def log_ok_def)
  have "res t + 2 < rel t + 2 ^ k" by (rule not_full_room [OF r(1) assms(2)]) simp
  then obtain t1 where t1: "reserve_slot t = Some t1" "t1 = t\<lparr>t_reserve := t_reserve t + 1\<rparr>"
    "ring k t1 {res t} {} (log @ [x])"
    using ring_reserve [OF r(1) _ assms(3), of x] by auto
  let ?t = "write_slot (t_reserve t) x t1"
  have w: "ring k ?t {} {} (log @ [x])"
    using ring_write [OF t1(3), of "res t" "t_reserve t" x] len by (simp add: nth_append)
  have f: "t_commit ?t = t_commit t" "t_request ?t = t_request t" "t_release ?t = t_release t"
    "t_reserve ?t = t_reserve t + 1" "t_shutting_down ?t = t_shutting_down t"
    by (simp_all add: write_slot_def t1(2)) (simp add: put_slot_def)
  have sh: "ring_shape k t1" "ring_shape k ?t" using t1(3) w by (simp_all add: ring_def)
  have "unat (mark_at ?t (t_reserve t)) = res t"
    using mark_at_mk [OF sh(2)] mk_put_slot(1) [OF sh(1), of "t_reserve t"] by (simp add: write_slot_def)
  then have "mark_at ?t (t_reserve t) = t_reserve t" by (simp only: word_unat_eq_iff)
  moreover have "t_commit t = t_reserve t" using r(2) by (simp only: word_unat_eq_iff)
  ultimately have m: "mark_at ?t (t_commit ?t) = t_commit ?t" unfolding f(1) by simp
  note c = ring_commit [OF w m]
  let ?t' = "?t\<lparr>t_commit := t_commit ?t + 1\<rparr>"
  have u: "unat (t_commit t + 1) = Suc (res t)" "unat (t_reserve t + 1) = Suc (res t)"
    using unat_succ [of "t_commit t"] unat_succ [of "t_reserve t"] r(2) assms(3) by simp_all
  then have e: "com ?t' = res ?t'" using f by simp
  have "commit_loop ?t = Some ?t'"
    by (subst commit_loop.simps) (use m c(3) commit_loop_stops [OF c(4) e] in simp)
  moreover have "quiet k ?t' (log @ [x])" using c(4) e r(3) f by (simp add: quiet_def)
  ultimately show ?thesis using t1(1) f by (simp add: commit_current_task_def)
qed

text \<open>A worker's turn on a quiet pool with pending tasks.\<close>

lemma quiet_take:
  assumes "quiet k t log" "req t < com t"
  shows "\<exists>t'. worker_take t = Some (Some (log ! req t), t') \<and> quiet k t' log \<and> req t' = Suc (req t) \<and>
     t_shutting_down t' = t_shutting_down t"
proof -
  have r: "ring k t {} {} log" "com t = res t" "rel t = req t" using assms(1) by (simp_all add: quiet_def)
  note c = ring_claim [OF r(1) assms(2)]
  let ?rh = "t_request t"
  let ?t1 = "t\<lparr>t_request := ?rh + 1\<rparr>" let ?t2 = "mark_released ?rh ?t1"
  have s: "unat (?rh + 1) = Suc (req t)" using unat_succ ring_lt [OF r(1)] by simp
  have r2: "ring k ?t2 {} {} log" using ring_mark_released [OF c(3), of "req t" ?rh] by simp
  have f: "t_release ?t2 = ?rh" "t_request ?t2 = ?rh + 1" "t_commit ?t2 = t_commit t" "t_reserve ?t2 = t_reserve t"
    "t_shutting_down ?t2 = t_shutting_down t"
    using r(3) by (simp_all add: mark_released_def word_unat_eq_iff) (simp add: put_slot_def)
  have sh: "ring_shape k ?t1" "ring_shape k ?t2" using c(3) r2 by (simp_all add: ring_def)
  have "unat (mark_at ?t2 ?rh) = unat (NOT ?rh)"
    using mark_at_mk [OF sh(2)] mk_put_slot(1) [OF sh(1), of ?rh] by (simp add: mark_released_def)
  then have m: "mark_at ?t2 (t_release ?t2) = NOT (t_release ?t2)" unfolding f(1) by (simp only: word_unat_eq_iff)
  have pos: "0 < req ?t2" using f(2) s by simp
  note l = ring_release [OF r2 m pos]
  let ?t3 = "?t2\<lparr>t_release := t_release ?t2 + 1\<rparr>"
  have e: "rel ?t3 = req ?t3" using f s by simp
  have "release_loop ?t2 = Some ?t3"
    by (subst release_loop.simps) (use m l(3) release_loop_stops [OF l(4) e] pos in simp)
  moreover have "quiet k ?t3 log" using l(4) e r(2) f by (simp add: quiet_def)
  moreover have "\<not> nothing_to_do (t_commit t) ?rh"
  proof -
    have "1 \<le> t_commit t" using assms(2) by (simp add: word_le_nat_alt)
    then show ?thesis using assms(2) by (simp add: nothing_to_do_def not_less word_le_nat_alt unat_sub_le)
  qed
  moreover have "mark_at ?t1 ?rh = ?rh" "task_at ?t1 ?rh = log ! req t"
    using c(1,2) by (simp_all add: mark_at_def task_at_def slot_of_def)
  ultimately show ?thesis using s f by (simp add: worker_take_def Let_def release_current_task_def)
qed

lemma queued_empty_iff: "quiet k t log \<Longrightarrow> queued t = [] \<longleftrightarrow> com t \<le> req t"
  by (auto simp: queued_def)

lemma full_iff:
  assumes "quiet k t log"
  shows "full t (t_reserve t) (t_release t) \<longleftrightarrow> length (queued t) + 2 \<ge> unat (t_size t)"
proof -
  have r: "ring k t {} {} log" "com t = res t" "rel t = req t" using assms by (simp_all add: quiet_def)
  have sz: "t_size t = 2 ^ k" "1 \<le> k" "k \<le> 30" and h: "rel t \<le> res t" "res t + 2 \<le> rel t + 2 ^ k"
    using r(1) by (auto simp: ring_def ring_shape_def heads_ok_def)
  have p: "unat (t_size t) = 2 ^ k" unfolding sz(1) using sz(3) by (intro unat_pow2) simp
  have l: "length (queued t) = res t - rel t" using r by (simp add: queued_def)
  show ?thesis
  proof (cases "full t (t_reserve t) (t_release t)")
    case False
    then show ?thesis using not_full_room [OF r(1) False] l p h by linarith
  next
    case True
    have two: "(2 :: nat) \<le> 2 ^ k" using power_increasing [of 1 k "2 :: nat"] sz(2) by simp
    have one: "unat (t_size t - 1) = 2 ^ k - 1"
      using unat_sub_le [of 1 "t_size t"] p two by (simp add: word_le_nat_alt)
    then have "unat (t_size t - 1 - 1) = 2 ^ k - 1 - 1"
      using unat_sub_le [of 1 "t_size t - 1"] two by (simp add: word_le_nat_alt)
    moreover have "unat (t_reserve t - t_release t) = res t - rel t" using h by (simp add: unat_sub_le word_le_nat_alt)
    ultimately have "2 ^ k - 1 - 1 \<le> res t - rel t" using True by (simp add: full_def word_le_nat_alt)
    then show ?thesis using True l p two by simp
  qed
qed

section \<open>The pool is a task queue\<close>

text \<open>Scheduling as the queue's client sees it; the bound on the counters is that of the model.\<close>

definition put_task :: "(nat \<Rightarrow> wake) \<Rightarrow> spawned \<Rightarrow> threadpool_task \<Rightarrow> threadpool \<Rightarrow> threadpool option" where
  "put_task w r x t =
     (if res t + 1 < 2 ^ 63 then
        (case Threadpool_Schedule (Some t) (Some x) w r of Some (True, p, Some t') \<Rightarrow> Some t' | _ \<Rightarrow> None)
      else None)"

definition get_task :: "threadpool \<Rightarrow> (threadpool_task \<times> threadpool) option" where
  "get_task t = (case worker_take t of Some (Some x, t') \<Rightarrow> Some (x, t') | _ \<Rightarrow> None)"

text \<open>The outcome of scheduling a task on a quiet pool that has not shut down.\<close>

lemma Schedule_quiet:
  assumes "quiet k t log" "tk_task x \<noteq> None" "\<not> t_shutting_down t" "res t + 1 < 2 ^ 63"
    "\<And>i. w i \<noteq> WAKE_ERROR" "r \<noteq> SPAWN_ERROR"
  shows "\<exists>t' p. Threadpool_Schedule (Some t) (Some x) w r = Some (\<not> full t (t_reserve t) (t_release t), p, Some t') \<and>
     t_shutting_down t' = t_shutting_down t \<and>
     (if full t (t_reserve t) (t_release t) then t' = t else quiet k t' (log @ [x]) \<and> req t' = req t)"
proof (cases "full t (t_reserve t) (t_release t)")
  case True
  then show ?thesis using assms(2,3) by (simp add: Threadpool_Schedule_def)
next
  case False
  obtain t1 t2 where t: "reserve_slot t = Some t1" "commit_current_task (write_slot (t_reserve t) x t1) = Some t2"
    "quiet k t2 (log @ [x])" "req t2 = req t" "t_shutting_down t2 = t_shutting_down t"
    using quiet_schedule [OF assms(1) False assms(4)] by blast
  obtain t3 where t3: "notify_new_task w r t2 = Some t3" "same_ring t2 t3" using notify_keeps_ring [of w r t2] assms(5,6) by blast
  then have "quiet k t3 (log @ [x])" "req t3 = req t" "t_shutting_down t3 = t_shutting_down t"
    using same_ring_quiet [OF t3(2)] t by (simp_all add: same_ring_def)
  then show ?thesis using False assms(2,3) t t3(1) by (simp add: Threadpool_Schedule_def Let_def)
qed

lemma put_task_quiet:
  assumes "quiet k t log" "put_task w r x t = Some t'"
  shows "quiet k t' (log @ [x])" "req t' = req t"
proof -
  from assms(2) obtain p where s: "res t + 1 < 2 ^ 63" "Threadpool_Schedule (Some t) (Some x) w r = Some (True, p, Some t')"
    by (auto simp: put_task_def split: if_splits option.splits bool.splits)
  then have nf: "\<not> full t (t_reserve t) (t_release t)"
    by (auto simp: Threadpool_Schedule_def Let_def split: if_splits)
  obtain t1 t2 where t: "reserve_slot t = Some t1" "commit_current_task (write_slot (t_reserve t) x t1) = Some t2"
    "quiet k t2 (log @ [x])" "req t2 = req t"
    using quiet_schedule [OF assms(1) nf s(1)] by blast
  then have "notify_new_task w r t2 = Some t'"
    using s(2) nf by (simp add: Threadpool_Schedule_def split: if_splits) (cases "notify_new_task w r t2"; simp)
  note n = notify_same_ring [OF this]
  show "quiet k t' (log @ [x])" using same_ring_quiet [OF n] t(3) by simp
  show "req t' = req t" using n t(4) by (simp add: same_ring_def)
qed

lemma quiet_req_le: "quiet k t log \<Longrightarrow> req t \<le> length log"
  by (auto simp: quiet_def ring_def heads_ok_def log_ok_def)

interpretation tpq: task_queue pool_ok queued "put_task w r" get_task
proof
  fix t x t'
  assume "pool_ok t" and p: "put_task w r x t = Some t'"
  then obtain k log where q: "quiet k t log" by (auto simp: pool_ok_def)
  note q' = put_task_quiet [OF q p]
  show "pool_ok t' \<and> queued t' = queued t @ [x]"
    using q' queued_log [OF q] queued_log [OF q'(1)] quiet_req_le [OF q] by (auto simp: pool_ok_def)
next
  fix t x xs
  assume "pool_ok t" and xs: "queued t = x # xs"
  then obtain k log where q: "quiet k t log" by (auto simp: pool_ok_def)
  have lt: "req t < com t" using queued_empty_iff [OF q] xs by (auto simp: not_le)
  obtain t' where t': "worker_take t = Some (Some (log ! req t), t')" "quiet k t' log" "req t' = Suc (req t)"
    using quiet_take [OF q lt] by blast
  have d: "drop (req t) log = x # xs" using queued_log [OF q] xs by simp
  then have "req t < length log" using not_less by fastforce
  then have "log ! req t = x" "drop (Suc (req t)) log = xs" using d by (simp_all add: Cons_nth_drop_Suc [symmetric])
  then show "\<exists>t'. get_task t = Some (x, t') \<and> pool_ok t' \<and> queued t' = xs"
    using t' queued_log [OF t'(2)] by (auto simp: get_task_def pool_ok_def)
qed

section \<open>Shutting down\<close>

lemma drain_spec:
  assumes "ring_shape k t" "req t \<le> com t" "com t \<le> req t + 2 ^ k" "com t < 2 ^ 63"
  shows "fst (drain t) = map tk_udata (filter (\<lambda>x. tk_cleanup x \<noteq> None) (queued t)) \<and>
     t_request (snd (drain t)) = t_commit t \<and> t_commit (snd (drain t)) = t_commit t \<and>
     t_shutting_down (snd (drain t)) = t_shutting_down t"
  using assms
proof (induction "com t - req t" arbitrary: t)
  case 0
  then have "t_request t = t_commit t" by (simp add: word_unat_eq_iff)
  then show ?case by (simp add: drain.simps [of t] queued_def)
next
  case (Suc n)
  have lt: "req t < com t" using Suc(2) by linarith
  let ?rh = "t_request t" and ?m = "t_tasks t ! slot_of t (t_request t)"
  let ?t1 = "t\<lparr>t_request := ?rh + 1\<rparr>"
  define t2 where "t2 = (if tk_cleanup (mt_task ?m) \<noteq> None
     then put_slot ?rh (?m\<lparr>mt_task := (mt_task ?m)\<lparr>tk_udata := 0\<rparr>\<rparr>) ?t1 else ?t1)"
  define t3 where "t3 = t2\<lparr>t_release := t_release t2 + 1\<rparr>"
  have s: "unat (?rh + 1) = Suc (req t)" using unat_succ lt Suc.prems(4) by simp
  have f: "ring_shape k t3" "t_commit t3 = t_commit t" "t_request t3 = ?rh + 1" "t_shutting_down t3 = t_shutting_down t"
    using Suc.prems(1) by (simp_all add: t3_def t2_def) (simp add: put_slot_def)
  have ih: "fst (drain t3) = map tk_udata (filter (\<lambda>x. tk_cleanup x \<noteq> None) (queued t3)) \<and>
     t_request (snd (drain t3)) = t_commit t3 \<and> t_commit (snd (drain t3)) = t_commit t3 \<and>
     t_shutting_down (snd (drain t3)) = t_shutting_down t3"
    by (rule Suc.hyps(1)) (use Suc(2) Suc.prems lt f s in simp_all)
  have d: "drain t = ((if tk_cleanup (mt_task ?m) \<noteq> None then [tk_udata (mt_task ?m)] else []) @ fst (drain t3), snd (drain t3))"
    using lt by (subst drain.simps) (simp add: Let_def t3_def t2_def word_less_nat_alt split: prod.splits)
  have len: "length (t_tasks t) = 2 ^ k" "length (t_tasks t3) = 2 ^ k" using Suc.prems(1) f(1) by (simp_all add: ring_shape_def)
  have slot: "slot_of t ?rh = req t mod 2 ^ k" by (rule slot_of_mod [OF Suc.prems(1)])
  have rest: "t_tasks t3 ! (i mod 2 ^ k) = t_tasks t ! (i mod 2 ^ k)" if "Suc (req t) \<le> i" "i < com t" for i
  proof -
    have "i mod 2 ^ k \<noteq> req t mod 2 ^ k" using same_slot [of "req t" i "2 ^ k" "req t"] that Suc.prems(3) by auto
    then show ?thesis using slot by (simp add: t3_def t2_def put_slot_def slot_of_def)
  qed
  have "queued t = mt_task ?m # map (\<lambda>i. mt_task (t_tasks t ! (i mod 2 ^ k))) [Suc (req t)..<com t]"
    using lt by (simp add: queued_def len slot upt_conv_Cons)
  also have "map (\<lambda>i. mt_task (t_tasks t ! (i mod 2 ^ k))) [Suc (req t)..<com t] = queued t3"
    unfolding queued_def len f s by (rule map_cong) (use rest in auto)
  finally show ?case using ih d f by auto
qed

lemma notify_shutdown_ok:
  assumes "\<And>i. j i \<noteq> JOIN_ERROR"
  shows "\<exists>ok t'. notify_shutdown j t = Some (ok, t') \<and> same_ring t t'"
proof -
  have "\<exists>d tis'. notify_shutdown_loop j i tis = Some (d, tis')" for i tis
  proof (induction tis arbitrary: i)
    case (Cons ti tis)
    obtain d tis' where "notify_shutdown_loop j (Suc i) tis = Some (d, tis')" using Cons by blast
    then show ?case using assms [of i] by (cases "ti_status ti"; cases "j i") auto
  qed simp
  then obtain d tis where "notify_shutdown_loop j 0 (take (unat (t_live_threads t)) (t_threads t)) = Some (d, tis)" by blast
  then show ?thesis by (simp add: notify_shutdown_def Let_def same_ring_def)
qed

lemma kill_threads_ok: "(\<And>i. c i) \<Longrightarrow> \<exists>tis'. kill_threads c i tis = Some tis'"
proof (induction tis arbitrary: i)
  case (Cons ti tis)
  then obtain tis' where "kill_threads c (Suc i) tis = Some tis'" by blast
  then show ?case using Cons.prems [of i] by simp
qed simp

lemma same_ring_trans: "same_ring a b \<Longrightarrow> same_ring b c \<Longrightarrow> same_ring a c"
  by (simp add: same_ring_def)

lemma same_ring_queued: "same_ring t t' \<Longrightarrow> queued t' = queued t"
  by (simp add: same_ring_def queued_def)

lemma Shutdown_effect:
  assumes "pool_ok t" "\<And>i. c i" "\<And>i. j i \<noteq> JOIN_ERROR" "\<And>i. j' i \<noteq> JOIN_ERROR"
  shows "\<exists>ok us t'. Threadpool_Shutdown t kill_all c j j' = Some (ok, us, t') \<and>
     us = map tk_udata (filter (\<lambda>x. tk_cleanup x \<noteq> None) (queued t)) \<and> queued t' = [] \<and> t_shutting_down t'"
proof -
  obtain k log where q: "quiet k t log" using assms(1) by (auto simp: pool_ok_def)
  let ?t1 = "t\<lparr>t_shutting_down := True\<rparr>" and ?n = "unat (t_live_threads t)"
  obtain tis where tis: "kill_threads c 0 (take ?n (t_threads t)) = Some tis" using kill_threads_ok assms(2) by blast
  define t2 where "t2 = (if kill_all then ?t1\<lparr>t_threads := tis @ drop ?n (t_threads t)\<rparr> else ?t1)"
  have s2: "same_ring ?t1 t2" by (simp add: t2_def same_ring_def)
  obtain ok3 t3 where t3: "notify_shutdown j t2 = Some (ok3, t3)" "same_ring t2 t3" using notify_shutdown_ok assms(3) by blast
  have s3: "same_ring ?t1 t3" by (rule same_ring_trans [OF s2 t3(2)])
  have r: "ring_shape k t" "req t \<le> com t" "com t \<le> req t + 2 ^ k" "com t < 2 ^ 63"
    using q by (auto simp: quiet_def ring_def heads_ok_def)
  then have r3: "ring_shape k t3" "req t3 \<le> com t3" "com t3 \<le> req t3 + 2 ^ k" "com t3 < 2 ^ 63"
    using s3 by (auto simp: same_ring_def ring_shape_def)
  have q3: "queued t3 = queued t" using same_ring_queued [OF s3] by (simp add: queued_def)
  obtain us t4 where d: "drain t3 = (us, t4)" by (metis surj_pair)
  note ds = drain_spec [OF r3, unfolded d fst_conv snd_conv q3]
  obtain ok t5 where t5: "notify_shutdown j' t4 = Some (ok, t5)" "same_ring t4 t5" using notify_shutdown_ok assms(4) by blast
  have "queued t5 = []" using same_ring_queued [OF t5(2)] ds by (simp add: queued_def)
  moreover have "t_shutting_down t5" using t5(2) ds s3 by (simp add: same_ring_def)
  moreover have "Threadpool_Shutdown t kill_all c j j' = Some (ok, us, t5)"
    using tis t3(1) d t5(1) by (cases kill_all) (simp_all add: Threadpool_Shutdown_def t2_def Let_def)
  ultimately show ?thesis using ds by blast
qed

section \<open>Properties\<close>

text \<open>C16: between operations the thread pool is a bounded first-in first-out queue. On a pool that
  is not shutting down, scheduling a task returns; it is refused exactly when all but two slots
  hold pending tasks, and then nothing changes; otherwise the task is appended, and workers
  that take the pending tasks one by one get them in the order in which they were scheduled.\<close>
theorem pool_is_fifo_queue:
  assumes "pool_ok t" "tk_task x \<noteq> None" "\<not> t_shutting_down t" "res t + 1 < 2 ^ 63"
    "\<And>i. w i \<noteq> WAKE_ERROR" "r \<noteq> SPAWN_ERROR"
  shows "\<exists>ok p t'. Threadpool_Schedule (Some t) (Some x) w r = Some (ok, p, Some t') \<and> pool_ok t' \<and>
     (ok \<longleftrightarrow> length (queued t) + 2 < unat (t_size t)) \<and>
     queued t' = (if ok then queued t @ [x] else queued t) \<and>
     (\<exists>t''. take_n get_task (length (queued t')) t' = Some (queued t', t'') \<and> queued t'' = [])"
proof -
  obtain k log where q: "quiet k t log" using assms(1) by (auto simp: pool_ok_def)
  let ?full = "full t (t_reserve t) (t_release t)"
  obtain t' p where s: "Threadpool_Schedule (Some t) (Some x) w r = Some (\<not> ?full, p, Some t')"
    "if ?full then t' = t else quiet k t' (log @ [x]) \<and> req t' = req t"
    using Schedule_quiet [OF q assms(2-4), of w r] assms(5,6) by blast
  have ok': "pool_ok t'" using s(2) assms(1) by (auto simp: pool_ok_def split: if_splits)
  have qd: "queued t' = (if \<not> ?full then queued t @ [x] else queued t)"
    using s(2) queued_log [OF q] queued_log [of k t' "log @ [x]"] quiet_req_le [OF q] by (auto split: if_splits)
  have tk: "\<exists>t''. take_n get_task (length (queued t')) t' = Some (queued t', t'') \<and> queued t'' = []"
    using tpq.take_all [OF ok', of "queued t'" "[]"] by auto
  have "\<not> ?full \<longleftrightarrow> length (queued t) + 2 < unat (t_size t)" using full_iff [OF q] by linarith
  then show ?thesis using s(1) ok' qd tk by blast
qed

lemma ex_pool_ok: "pool_ok ex_pool" "\<not> t_shutting_down ex_pool"
proof -
  obtain k where "ring k ex_pool {} {} []" using Threadpool_Init_ring [OF ex_pool_eq] by blast
  then have "quiet k ex_pool []" by (simp add: quiet_def)
  then show "pool_ok ex_pool" by (auto simp: pool_ok_def)
  show "\<not> t_shutting_down ex_pool"
    by (simp add: ex_pool_def Threadpool_Init_def tp_set_defaults_def THREADPOOL_MAX_RINGBUF_SIZE2_def Let_def)
qed

lemma pool_is_fifo_queue_witness:
  "\<exists>p t'. Threadpool_Schedule (Some ex_pool) (Some (ex_task 1)) (\<lambda>_. WAKE_OK) (SPAWN_OK 5 6) = Some (True, p, Some t') \<and>
     queued t' = [ex_task 1]"
proof -
  have e: "queued ex_pool = []" "unat (t_size ex_pool) = 8" by (simp_all add: queued_def)
  show ?thesis
    using pool_is_fifo_queue [OF ex_pool_ok(1), of "ex_task 1" "\<lambda>_. WAKE_OK" "SPAWN_OK 5 6"] ex_pool_ok(2) e
    by (auto simp: ex_task_def)
qed

text \<open>shutting the pool down cleans up what is pending. Whether or not threads are
  killed, the cleanup callbacks of exactly the pending tasks that have one are called, in queue
  order and once each; afterwards nothing is pending and no task can be scheduled any more.\<close>
theorem pool_shutdown_cleans_up:
  assumes "pool_ok t" "\<And>i. c i" "\<And>i. j i \<noteq> JOIN_ERROR" "\<And>i. j' i \<noteq> JOIN_ERROR"
  shows "\<exists>ok us t'. Threadpool_Shutdown t kill_all c j j' = Some (ok, us, t') \<and>
     us = map tk_udata (filter (\<lambda>x. tk_cleanup x \<noteq> None) (queued t)) \<and> queued t' = [] \<and>
     (\<forall>x w r. Threadpool_Schedule (Some t') (Some x) w r = Some (False, None, Some t'))"
  using Shutdown_effect [of t c j j' kill_all] assms by (fastforce simp: Threadpool_Schedule_def)

lemma pool_shutdown_cleans_up_witness:
  "\<exists>ok us t'. Threadpool_Shutdown ex_pool True (\<lambda>_. True) (\<lambda>_. JOIN_OK) (\<lambda>_. JOIN_ESRCH) = Some (ok, us, t') \<and>
     us = [] \<and> queued t' = []"
  using pool_shutdown_cleans_up [OF ex_pool_ok(1), of "\<lambda>_. True" "\<lambda>_. JOIN_OK" "\<lambda>_. JOIN_ESRCH" True]
  by (auto simp: queued_def)

end
