(* ===== verification/Msg_Freelist.thy ===== *)
theory Msg_Freelist
  imports Bus_Types
begin

text \<open>
  The lock-free list of free command messages under concurrency: the compare-and-swap loops of
  \<^verbatim>\<open>ListenerHelper_GetFreeMsg\<close> and \<^verbatim>\<open>ListenerTask_ReleaseMsg\<close>, one step for each access to shared
  memory. Messages are named by their index; a message is handed from one thread to another through the
  listener's command pipe.
\<close>

section \<open>Threads and shared state\<close>

text \<open>\<open>Got_Head\<close>: the list head was read; \<open>Got_Next\<close>: its successor too, the swap is next. \<open>Linked\<close>: the
  message to release points at the head that was read.\<close>

datatype fl_pc = Idle | Got_Head nat | Got_Next nat "nat option" | Linked nat "nat option"

record fl_state =
  fl_head :: "nat option"
  fl_next :: "nat \<Rightarrow> nat option"
  fl_pc :: "nat \<Rightarrow> fl_pc"
  fl_owned :: "nat \<Rightarrow> nat set"

definition goto :: "nat \<Rightarrow> fl_pc \<Rightarrow> fl_state \<Rightarrow> fl_state" where
  "goto t p s = s\<lparr>fl_pc := (fl_pc s)(t := p)\<rparr>"

text \<open>\<open>single\<close>: only thread 0 asks for messages, as when one thread sends all requests.\<close>

inductive fl_step :: "bool \<Rightarrow> fl_state \<Rightarrow> fl_state \<Rightarrow> bool" for single where
  read_head: "fl_pc s t = Idle \<Longrightarrow> fl_head s = Some h \<Longrightarrow> single \<longrightarrow> t = 0 \<Longrightarrow> fl_step single s (goto t (Got_Head h) s)"
| read_next: "fl_pc s t = Got_Head h \<Longrightarrow> fl_step single s (goto t (Got_Next h (fl_next s h)) s)"
| pop: "fl_pc s t = Got_Next h n \<Longrightarrow> fl_head s = Some h \<Longrightarrow>
    fl_step single s (goto t Idle (s\<lparr>fl_head := n, fl_owned := (fl_owned s)(t := insert h (fl_owned s t))\<rparr>))"
| pop_again: "fl_pc s t = Got_Next h n \<Longrightarrow> fl_head s \<noteq> Some h \<Longrightarrow> fl_step single s (goto t Idle s)"
| hand_over: "m \<in> fl_owned s t \<Longrightarrow> fl_pc s t = Idle \<Longrightarrow> t' \<noteq> t \<Longrightarrow>
    fl_step single s (s\<lparr>fl_owned := (fl_owned s)(t := fl_owned s t - {m}, t' := insert m (fl_owned s t'))\<rparr>)"
| link: "m \<in> fl_owned s t \<Longrightarrow> fl_pc s t = Idle \<Longrightarrow>
    fl_step single s (goto t (Linked m (fl_head s)) (s\<lparr>fl_next := (fl_next s)(m := fl_head s)\<rparr>))"
| push: "fl_pc s t = Linked m f \<Longrightarrow> fl_head s = f \<Longrightarrow>
    fl_step single s (goto t Idle (s\<lparr>fl_head := Some m, fl_owned := (fl_owned s)(t := fl_owned s t - {m})\<rparr>))"
| push_again: "fl_pc s t = Linked m f \<Longrightarrow> fl_head s \<noteq> f \<Longrightarrow> fl_step single s (goto t Idle s)"

text \<open>The pool as \<^verbatim>\<open>Listener_Init\<close> links it, with \<open>cap\<close> messages.\<close>

definition fl_init :: "nat \<Rightarrow> fl_state" where
  "fl_init cap = \<lparr>fl_head = (if 0 < cap then Some (cap - 1) else None), fl_next = (\<lambda>i. if 0 < i then Some (i - 1) else None),
     fl_pc = (\<lambda>_. Idle), fl_owned = (\<lambda>_. {})\<rparr>"

inductive fl_reach :: "bool \<Rightarrow> nat \<Rightarrow> fl_state \<Rightarrow> bool" for single cap where
  init: "fl_reach single cap (fl_init cap)"
| step: "fl_reach single cap s \<Longrightarrow> fl_step single s s' \<Longrightarrow> fl_reach single cap s'"

section \<open>One thread asking for messages\<close>

definition fl_free :: "nat \<Rightarrow> fl_state \<Rightarrow> nat set" where
  "fl_free cap s = {..<cap} - (\<Union>t. fl_owned s t)"

definition pc_ok :: "nat \<Rightarrow> fl_state \<Rightarrow> nat \<Rightarrow> bool" where
  "pc_ok cap s t = (case fl_pc s t of
     Idle \<Rightarrow> True
   | Got_Head h \<Rightarrow> t = 0 \<and> h \<in> fl_free cap s
   | Got_Next h n \<Rightarrow> t = 0 \<and> h \<in> fl_free cap s \<and> fl_next s h = n
   | Linked m f \<Rightarrow> m \<in> fl_owned s t \<and> fl_next s m = f)"

definition fl_inv :: "nat \<Rightarrow> fl_state \<Rightarrow> bool" where
  "fl_inv cap s \<longleftrightarrow> chain_ok (fl_next s) (fl_head s) (fl_free cap s) \<and> (\<forall>t. fl_owned s t \<subseteq> {..<cap}) \<and>
     (\<forall>t t'. t \<noteq> t' \<longrightarrow> fl_owned s t \<inter> fl_owned s t' = {}) \<and> (\<forall>t. pc_ok cap s t)"

lemma goto_simps [simp]:
  "fl_head (goto t p s) = fl_head s" "fl_next (goto t p s) = fl_next s" "fl_owned (goto t p s) = fl_owned s"
  "fl_pc (goto t p s) = (fl_pc s)(t := p)" "fl_free cap (goto t p s) = fl_free cap s"
  by (simp_all add: goto_def fl_free_def)

lemma fl_inv_goto:
  assumes "fl_inv cap s" "pc_ok cap (goto t p s) t"
  shows "fl_inv cap (goto t p s)"
  using assms by (auto simp: fl_inv_def pc_ok_def split: fl_pc.splits)

lemma fl_linked_down: "linked (\<lambda>i. if 0 < i then Some (i - 1) else None) (if 0 < cap then Some (cap - 1) else None) (rev [0..<cap])"
  by (induction cap) auto

lemma fl_init_inv: "fl_inv cap (fl_init cap)"
proof -
  have "chain_ok (fl_next (fl_init cap)) (fl_head (fl_init cap)) {..<cap}"
    unfolding chain_ok_def using fl_linked_down [of cap] by (intro exI [of _ "rev [0..<cap]"]) (auto simp: fl_init_def)
  then show ?thesis by (simp add: fl_inv_def fl_free_def pc_ok_def fl_init_def)
qed

lemma fl_step_inv:
  assumes "fl_step True s s'" "fl_inv cap s"
  shows "fl_inv cap s'"
proof -
  have ch: "chain_ok (fl_next s) (fl_head s) (fl_free cap s)" and ow: "\<And>t. fl_owned s t \<subseteq> {..<cap}"
    and dj: "\<And>t t'. t \<noteq> t' \<Longrightarrow> fl_owned s t \<inter> fl_owned s t' = {}" and pc: "\<And>t. pc_ok cap s t"
    using assms(2) by (auto simp: fl_inv_def)
  from assms(1) show ?thesis
  proof cases
    case (read_head t h)
    then show ?thesis using assms(2) ch chain_ok_head by (auto intro!: fl_inv_goto simp: pc_ok_def)
  next
    case (read_next t h)
    then show ?thesis using assms(2) pc [of t] by (auto intro!: fl_inv_goto simp: pc_ok_def)
  next
    case (pop t h n)
    let ?s = "s\<lparr>fl_head := n, fl_owned := (fl_owned s)(t := insert h (fl_owned s t))\<rparr>"
    have t: "t = 0" "h \<in> fl_free cap s" "fl_next s h = n" using pc [of t] pop(2) by (auto simp: pc_ok_def)
    have fr: "fl_free cap ?s = fl_free cap s - {h}" by (auto simp: fl_free_def split: if_splits)
    have "chain_ok (fl_next s) n (fl_free cap s - {h})" using chain_ok_pop [of "fl_next s" h] ch pop(3) t(3) by simp
    moreover have "pc_ok cap (goto t Idle ?s) t'" for t'
      using pc [of t'] t(1) by (auto simp: pc_ok_def fr split: fl_pc.splits)
    ultimately show ?thesis unfolding pop(1) fl_inv_def goto_simps fr
      using ow dj t(2) by (auto simp: fl_free_def)
  next
    case (pop_again t h n)
    then show ?thesis using assms(2) by (auto intro!: fl_inv_goto simp: pc_ok_def)
  next
    case (hand_over m t t')
    have "(\<Union>u. fl_owned s' u) = (\<Union>u. fl_owned s u)"
      using hand_over(2,4) unfolding hand_over(1) by (auto split: if_splits)
    then have fr: "fl_free cap s' = fl_free cap s" by (simp add: fl_free_def)
    have s': "fl_pc s' = fl_pc s" "fl_next s' = fl_next s" "\<And>u. u \<noteq> t \<Longrightarrow> fl_owned s u \<subseteq> fl_owned s' u"
      unfolding hand_over(1) by auto
    have "pc_ok cap s' u" for u
      using pc [of u] hand_over(3) s'(3) [of u] by (cases "u = t") (auto simp: pc_ok_def fr s'(1,2) split: fl_pc.splits)
    moreover have "fl_owned s' u \<subseteq> {..<cap}" for u
      using ow [of u] ow [of t] hand_over(2) unfolding hand_over(1) by (auto split: if_splits)
    moreover have "fl_owned s' u \<inter> fl_owned s' v = {}" if "u \<noteq> v" for u v
      using dj [of u v] dj [of t u] dj [of t v] hand_over(2,4) that unfolding hand_over(1) by (auto split: if_splits)
    ultimately show ?thesis using ch fr by (simp add: fl_inv_def hand_over(1))
  next
    case (link m t)
    have m: "m \<notin> fl_free cap s" using link(2) by (auto simp: fl_free_def)
    then have "chain_ok ((fl_next s)(m := fl_head s)) (fl_head s) (fl_free cap s)" by (auto intro: chain_ok_cong [OF ch])
    moreover have "pc_ok cap s' u" for u
    proof (cases "u = t")
      case False
      then have "m \<notin> fl_owned s u" using dj [of u t] link(2) by auto
      then show ?thesis using pc [of u] False m by (auto simp: pc_ok_def link(1) fl_free_def split: fl_pc.splits)
    qed (use link(2) in \<open>simp add: pc_ok_def link(1)\<close>)
    ultimately show ?thesis using ow dj by (auto simp: fl_inv_def link(1) fl_free_def)
  next
    case (push t m f)
    let ?s = "s\<lparr>fl_head := Some m, fl_owned := (fl_owned s)(t := fl_owned s t - {m})\<rparr>"
    have m: "m \<in> fl_owned s t" "fl_next s m = f" using pc [of t] push(2) by (auto simp: pc_ok_def)
    have "m \<notin> fl_owned s u" if "u \<noteq> t" for u using dj [of u t] that m(1) by auto
    then have "fl_owned ?s = (\<lambda>u. fl_owned s u - {m})" by (auto simp: fun_eq_iff)
    then have fr: "fl_free cap ?s = insert m (fl_free cap s)" using m(1) ow [of t] by (auto simp: fl_free_def)
    have "m \<notin> fl_free cap s" using m(1) by (auto simp: fl_free_def)
    then have "chain_ok (fl_next s) (Some m) (insert m (fl_free cap s))" using chain_ok_push [OF ch, of m "fl_next s"] m(2) push(3) by simp
    moreover have "pc_ok cap (goto t Idle ?s) u" for u
      using pc [of u] by (auto simp: pc_ok_def fr split: fl_pc.splits)
    moreover have "fl_owned ?s u \<inter> fl_owned ?s v = {}" if "u \<noteq> v" for u v using dj [OF that] by auto
    moreover have "fl_owned ?s u \<subseteq> {..<cap}" for u using ow [of u] by auto
    ultimately show ?thesis unfolding push(1) fl_inv_def goto_simps fr by auto
  next
    case (push_again t m f)
    then show ?thesis using assms(2) by (auto intro!: fl_inv_goto simp: pc_ok_def)
  qed
qed

lemma fl_reach_inv:
  assumes "fl_reach True cap s"
  shows "fl_inv cap s"
  using assms by induction (auto intro: fl_init_inv fl_step_inv)

text \<open>C19: As long as one thread takes command messages from the free list, while any number of
  threads give messages back, every message is free or has exactly one owner, and the free list links
  exactly the free messages: the lock-free list loses none and hands none out twice.\<close>

theorem single_taker_owns_messages:
  assumes "fl_reach True cap s"
  shows "chain_ok (fl_next s) (fl_head s) ({..<cap} - (\<Union>t. fl_owned s t)) \<and>
     (\<forall>t t'. t \<noteq> t' \<longrightarrow> fl_owned s t \<inter> fl_owned s t' = {})"
  using fl_reach_inv [OF assms] by (auto simp: fl_inv_def fl_free_def)

section \<open>Two threads asking for messages\<close>

text \<open>A run as a list of steps, each the transition of one thread.\<close>

datatype fl_move = Read nat | Swap nat | Hand nat nat nat | Release nat nat

fun do_move :: "fl_move \<Rightarrow> fl_state \<Rightarrow> fl_state" where
  "do_move (Read t) s = (case fl_pc s t of
     Idle \<Rightarrow> (case fl_head s of Some h \<Rightarrow> goto t (Got_Head h) s | None \<Rightarrow> s)
   | Got_Head h \<Rightarrow> goto t (Got_Next h (fl_next s h)) s
   | _ \<Rightarrow> s)"
| "do_move (Swap t) s = (case fl_pc s t of
     Got_Next h n \<Rightarrow> if fl_head s = Some h
       then goto t Idle (s\<lparr>fl_head := n, fl_owned := (fl_owned s)(t := insert h (fl_owned s t))\<rparr>) else goto t Idle s
   | Linked m f \<Rightarrow> if fl_head s = f
       then goto t Idle (s\<lparr>fl_head := Some m, fl_owned := (fl_owned s)(t := fl_owned s t - {m})\<rparr>) else goto t Idle s
   | _ \<Rightarrow> s)"
| "do_move (Hand m t t') s = (if m \<in> fl_owned s t \<and> fl_pc s t = Idle \<and> t' \<noteq> t
     then s\<lparr>fl_owned := (fl_owned s)(t := fl_owned s t - {m}, t' := insert m (fl_owned s t'))\<rparr> else s)"
| "do_move (Release m t) s = (if m \<in> fl_owned s t \<and> fl_pc s t = Idle
     then goto t (Linked m (fl_head s)) (s\<lparr>fl_next := (fl_next s)(m := fl_head s)\<rparr>) else s)"

lemma fl_move_reach:
  assumes "fl_reach single cap s" "\<And>t. mv = Read t \<Longrightarrow> single \<Longrightarrow> t = 0"
  shows "fl_reach single cap (do_move mv s)"
proof -
  have "fl_step single s (do_move mv s) \<or> do_move mv s = s"
    using assms(2) by (cases mv) (auto split: fl_pc.splits option.splits intro: fl_step.intros)
  then show ?thesis using assms(1) step by metis
qed

lemma fl_moves_reach:
  assumes "fl_reach False cap s"
  shows "fl_reach False cap (fold do_move mvs s)"
  using assms by (induction mvs arbitrary: s) (auto intro: fl_move_reach)

text \<open>Thread 1 is stopped between reading the head and its successor and the swap; meanwhile thread 2
  takes two messages, and the first of them comes back.\<close>

definition aba_run :: "fl_move list" where
  "aba_run = [Read 1, Read 1, Read 2, Read 2, Swap 2, Hand 2 2 3, Read 2, Read 2, Swap 2, Release 2 3, Swap 3,
     Swap 1, Read 4, Read 4, Swap 4]"

text \<open>C17: With two threads asking for messages the compare-and-swap in \<^verbatim>\<open>ListenerHelper_GetFreeMsg\<close> can
  succeed on a head that was taken and given back in between (the ABA problem): a message in use is
  put at the head of the free list again, and then two threads own the same message.\<close>

theorem freelist_hands_message_out_twice:
  "\<exists>s. fl_reach False 3 s \<and> 1 \<in> fl_owned s 2 \<and> 1 \<in> fl_owned s 4"
proof -
  have "fl_reach False 3 (fold do_move aba_run (fl_init 3))" by (rule fl_moves_reach [OF init])
  moreover have "1 \<in> fl_owned (fold do_move aba_run (fl_init 3)) 2 \<and> 1 \<in> fl_owned (fold do_move aba_run (fl_init 3)) 4"
    by (simp add: aba_run_def fl_init_def goto_def)
  ultimately show ?thesis by blast
qed

definition take_once :: fl_state where
  "take_once = do_move (Swap 0) (do_move (Read 0) (do_move (Read 0) (fl_init 2)))"

theorem single_taker_owns_messages_witness:
  "chain_ok (fl_next take_once) (Some 0) ({..<2} - (\<Union>t. fl_owned take_once t)) \<and> 1 \<in> fl_owned take_once 0"
proof -
  have "fl_reach True 2 take_once" unfolding take_once_def by (intro fl_move_reach init) simp_all
  moreover have "fl_head take_once = Some 0" "1 \<in> fl_owned take_once 0" by (simp_all add: take_once_def fl_init_def goto_def)
  ultimately show ?thesis using single_taker_owns_messages [of 2 take_once] by metis
qed

end
