(* ===== verification/Kinetic_Types.thy ===== *)
theory Kinetic_Types
  imports Byte_Array Bus_Types
begin

text \<open>
  Public and internal data types of the client library (\<^verbatim>\<open>kinetic_types.h\<close>,
  \<^verbatim>\<open>kinetic_types_internal.h\<close>, the protobuf structures of \<^verbatim>\<open>kinetic.pb-c.h\<close> the library reads and
  writes) and the conversions of \<^verbatim>\<open>kinetic_types.c\<close> and \<^verbatim>\<open>kinetic_types_internal.c\<close>. A value an
  enumeration does not name, which a peer can send, is an extra constructor with its number. A
  pointer to a structure is an \<open>option\<close>; protobuf binary data has the shape of a byte array.
\<close>

section \<open>Statuses\<close>

datatype KineticStatus =
    KINETIC_STATUS_INVALID | KINETIC_STATUS_NOT_ATTEMPTED | KINETIC_STATUS_SUCCESS | KINETIC_STATUS_SESSION_EMPTY
  | KINETIC_STATUS_SESSION_INVALID | KINETIC_STATUS_HOST_EMPTY | KINETIC_STATUS_HMAC_REQUIRED
  | KINETIC_STATUS_NO_PDUS_AVAILABLE | KINETIC_STATUS_DEVICE_BUSY | KINETIC_STATUS_CONNECTION_ERROR
  | KINETIC_STATUS_INVALID_REQUEST | KINETIC_STATUS_OPERATION_INVALID | KINETIC_STATUS_OPERATION_FAILED
  | KINETIC_STATUS_OPERATION_TIMEDOUT | KINETIC_STATUS_CLUSTER_MISMATCH | KINETIC_STATUS_VERSION_MISMATCH
  | KINETIC_STATUS_DATA_ERROR | KINETIC_STATUS_NOT_FOUND | KINETIC_STATUS_BUFFER_OVERRUN | KINETIC_STATUS_MEMORY_ERROR
  | KINETIC_STATUS_SOCKET_TIMEOUT | KINETIC_STATUS_SOCKET_ERROR | KINETIC_STATUS_MISSING_KEY
  | KINETIC_STATUS_MISSING_VALUE_BUFFER | KINETIC_STATUS_MISSING_PIN | KINETIC_STATUS_SSL_REQUIRED
  | KINETIC_STATUS_DEVICE_LOCKED | KINETIC_STATUS_ACL_ERROR | KINETIC_STATUS_NOT_AUTHORIZED
  | KINETIC_STATUS_INVALID_FILE | KINETIC_STATUS_REQUEST_REJECTED | KINETIC_STATUS_DEVICE_NAME_REQUIRED
  | KINETIC_STATUS_INVALID_LOG_TYPE | KINETIC_STATUS_HMAC_FAILURE | KINETIC_STATUS_SESSION_TERMINATED

text \<open>All but \<^verbatim>\<open>KINETIC_STATUS_INVALID\<close> (-1), in the order of the enumeration from 0 on.\<close>

definition all_statuses :: "KineticStatus list" where
  "all_statuses =
     [KINETIC_STATUS_NOT_ATTEMPTED, KINETIC_STATUS_SUCCESS, KINETIC_STATUS_SESSION_EMPTY,
      KINETIC_STATUS_SESSION_INVALID, KINETIC_STATUS_HOST_EMPTY, KINETIC_STATUS_HMAC_REQUIRED,
      KINETIC_STATUS_NO_PDUS_AVAILABLE, KINETIC_STATUS_DEVICE_BUSY, KINETIC_STATUS_CONNECTION_ERROR,
      KINETIC_STATUS_INVALID_REQUEST, KINETIC_STATUS_OPERATION_INVALID, KINETIC_STATUS_OPERATION_FAILED,
      KINETIC_STATUS_OPERATION_TIMEDOUT, KINETIC_STATUS_CLUSTER_MISMATCH, KINETIC_STATUS_VERSION_MISMATCH,
      KINETIC_STATUS_DATA_ERROR, KINETIC_STATUS_NOT_FOUND, KINETIC_STATUS_BUFFER_OVERRUN, KINETIC_STATUS_MEMORY_ERROR,
      KINETIC_STATUS_SOCKET_TIMEOUT, KINETIC_STATUS_SOCKET_ERROR, KINETIC_STATUS_MISSING_KEY,
      KINETIC_STATUS_MISSING_VALUE_BUFFER, KINETIC_STATUS_MISSING_PIN, KINETIC_STATUS_SSL_REQUIRED,
      KINETIC_STATUS_DEVICE_LOCKED, KINETIC_STATUS_ACL_ERROR, KINETIC_STATUS_NOT_AUTHORIZED,
      KINETIC_STATUS_INVALID_FILE, KINETIC_STATUS_REQUEST_REJECTED, KINETIC_STATUS_DEVICE_NAME_REQUIRED,
      KINETIC_STATUS_INVALID_LOG_TYPE, KINETIC_STATUS_HMAC_FAILURE, KINETIC_STATUS_SESSION_TERMINATED]"

definition KINETIC_STATUS_COUNT :: int where "KINETIC_STATUS_COUNT = 34"

definition KineticStatusInvalid :: string where "KineticStatusInvalid = ''INVALID_STATUS_CODE''"

definition KineticStatusDescriptor :: "string list" where
  "KineticStatusDescriptor =
     [''NOT_ATTEMPTED'', ''SUCCESS'', ''SESSION_EMPTY'', ''SESSION_INVALID'', ''HOST_EMPTY'', ''HMAC_REQUIRED'',
      ''NO_PDUS_AVAILABLE'', ''DEVICE_BUSY'', ''CONNECTION_ERROR'', ''INVALID_REQUEST'', ''OPERATION_INVALID'',
      ''OPERATION_FAILED'', ''OPERATION_TIMEDOUT'', ''CLUSTER_MISMATCH'', ''VERSION_MISMATCH'', ''DATA_ERROR'',
      ''NOT_FOUND'', ''BUFFER_OVERRUN'', ''MEMORY_ERROR'', ''SOCKET_TIMEOUT'', ''SOCKET_ERROR'', ''MISSING_KEY'',
      ''MISSING_VALUE_BUFFER'', ''MISSING_PIN'', ''SSL_REQUIRED'', ''DEVICE_LOCKED'', ''ACL_ERROR'',
      ''NOT_AUTHORIZED'', ''INVALID_FILE'', ''REQUEST_REJECTED'', ''DEVICE_NAME_REQUIRED'', ''INVALID_LOG_TYPE'',
      ''HMAC_FAILURE'', ''SESSION_TERMINATED'']"

text \<open>A read past the table is \<open>None\<close>.\<close>

definition Kinetic_GetStatusDescription :: "int \<Rightarrow> string option" where
  "Kinetic_GetStatusDescription status =
     (if status < 0 \<or> status \<ge> KINETIC_STATUS_COUNT then Some KineticStatusInvalid
      else if nat status < length KineticStatusDescriptor then Some (KineticStatusDescriptor ! nat status) else None)"

datatype StatusCode =
    STATUS_CODE_INVALID_STATUS_CODE | STATUS_CODE_NOT_ATTEMPTED | STATUS_CODE_SUCCESS | STATUS_CODE_HMAC_FAILURE
  | STATUS_CODE_NOT_AUTHORIZED | STATUS_CODE_VERSION_FAILURE | STATUS_CODE_INTERNAL_ERROR | STATUS_CODE_HEADER_REQUIRED
  | STATUS_CODE_NOT_FOUND | STATUS_CODE_VERSION_MISMATCH | STATUS_CODE_SERVICE_BUSY | STATUS_CODE_EXPIRED
  | STATUS_CODE_DATA_ERROR | STATUS_CODE_PERM_DATA_ERROR | STATUS_CODE_REMOTE_CONNECTION_ERROR | STATUS_CODE_NO_SPACE
  | STATUS_CODE_NO_SUCH_HMAC_ALGORITHM | STATUS_CODE_INVALID_REQUEST | STATUS_CODE_NESTED_OPERATION_ERRORS
  | STATUS_CODE_DEVICE_LOCKED | STATUS_CODE_DEVICE_ALREADY_UNLOCKED | STATUS_CODE_CONNECTION_TERMINATED
  | STATUS_CODE_OTHER int

fun KineticProtoStatusCode_to_KineticStatus :: "StatusCode \<Rightarrow> KineticStatus" where
  "KineticProtoStatusCode_to_KineticStatus STATUS_CODE_SUCCESS = KINETIC_STATUS_SUCCESS"
| "KineticProtoStatusCode_to_KineticStatus STATUS_CODE_REMOTE_CONNECTION_ERROR = KINETIC_STATUS_CONNECTION_ERROR"
| "KineticProtoStatusCode_to_KineticStatus STATUS_CODE_SERVICE_BUSY = KINETIC_STATUS_DEVICE_BUSY"
| "KineticProtoStatusCode_to_KineticStatus STATUS_CODE_VERSION_FAILURE = KINETIC_STATUS_CLUSTER_MISMATCH"
| "KineticProtoStatusCode_to_KineticStatus STATUS_CODE_VERSION_MISMATCH = KINETIC_STATUS_VERSION_MISMATCH"
| "KineticProtoStatusCode_to_KineticStatus STATUS_CODE_NOT_FOUND = KINETIC_STATUS_NOT_FOUND"
| "KineticProtoStatusCode_to_KineticStatus STATUS_CODE_HMAC_FAILURE = KINETIC_STATUS_HMAC_FAILURE"
| "KineticProtoStatusCode_to_KineticStatus STATUS_CODE_INVALID_REQUEST = KINETIC_STATUS_INVALID_REQUEST"
| "KineticProtoStatusCode_to_KineticStatus STATUS_CODE_NOT_ATTEMPTED = KINETIC_STATUS_INVALID_REQUEST"
| "KineticProtoStatusCode_to_KineticStatus STATUS_CODE_HEADER_REQUIRED = KINETIC_STATUS_INVALID_REQUEST"
| "KineticProtoStatusCode_to_KineticStatus STATUS_CODE_NO_SUCH_HMAC_ALGORITHM = KINETIC_STATUS_INVALID_REQUEST"
| "KineticProtoStatusCode_to_KineticStatus STATUS_CODE_DATA_ERROR = KINETIC_STATUS_DATA_ERROR"
| "KineticProtoStatusCode_to_KineticStatus STATUS_CODE_PERM_DATA_ERROR = KINETIC_STATUS_DATA_ERROR"
| "KineticProtoStatusCode_to_KineticStatus STATUS_CODE_INTERNAL_ERROR = KINETIC_STATUS_OPERATION_FAILED"
| "KineticProtoStatusCode_to_KineticStatus STATUS_CODE_EXPIRED = KINETIC_STATUS_OPERATION_FAILED"
| "KineticProtoStatusCode_to_KineticStatus STATUS_CODE_NO_SPACE = KINETIC_STATUS_OPERATION_FAILED"
| "KineticProtoStatusCode_to_KineticStatus STATUS_CODE_NESTED_OPERATION_ERRORS = KINETIC_STATUS_OPERATION_FAILED"
| "KineticProtoStatusCode_to_KineticStatus STATUS_CODE_NOT_AUTHORIZED = KINETIC_STATUS_NOT_AUTHORIZED"
| "KineticProtoStatusCode_to_KineticStatus STATUS_CODE_DEVICE_LOCKED = KINETIC_STATUS_DEVICE_LOCKED"
| "KineticProtoStatusCode_to_KineticStatus _ = KINETIC_STATUS_INVALID"

section \<open>Algorithms and synchronisation\<close>

text \<open>A caller may leave the zero of a cleared structure in either field.\<close>

datatype KineticAlgorithm =
    KINETIC_ALGORITHM_INVALID | KINETIC_ALGORITHM_SHA1 | KINETIC_ALGORITHM_SHA2 | KINETIC_ALGORITHM_SHA3
  | KINETIC_ALGORITHM_CRC32 | KINETIC_ALGORITHM_CRC64 | KINETIC_ALGORITHM_OTHER int

fun KineticAlgorithm_code :: "KineticAlgorithm \<Rightarrow> int" where
  "KineticAlgorithm_code KINETIC_ALGORITHM_INVALID = -1"
| "KineticAlgorithm_code KINETIC_ALGORITHM_SHA1 = 2"
| "KineticAlgorithm_code KINETIC_ALGORITHM_SHA2 = 3"
| "KineticAlgorithm_code KINETIC_ALGORITHM_SHA3 = 4"
| "KineticAlgorithm_code KINETIC_ALGORITHM_CRC32 = 5"
| "KineticAlgorithm_code KINETIC_ALGORITHM_CRC64 = 6"
| "KineticAlgorithm_code (KINETIC_ALGORITHM_OTHER n) = n"

datatype Algorithm =
    ALGORITHM_INVALID_ALGORITHM | ALGORITHM_SHA1 | ALGORITHM_SHA2 | ALGORITHM_SHA3 | ALGORITHM_CRC32
  | ALGORITHM_CRC64 | ALGORITHM_OTHER int

fun Algorithm_from_KineticAlgorithm :: "KineticAlgorithm \<Rightarrow> Algorithm" where
  "Algorithm_from_KineticAlgorithm KINETIC_ALGORITHM_SHA1 = ALGORITHM_SHA1"
| "Algorithm_from_KineticAlgorithm KINETIC_ALGORITHM_SHA2 = ALGORITHM_SHA2"
| "Algorithm_from_KineticAlgorithm KINETIC_ALGORITHM_SHA3 = ALGORITHM_SHA3"
| "Algorithm_from_KineticAlgorithm KINETIC_ALGORITHM_CRC32 = ALGORITHM_CRC32"
| "Algorithm_from_KineticAlgorithm KINETIC_ALGORITHM_CRC64 = ALGORITHM_CRC64"
| "Algorithm_from_KineticAlgorithm _ = ALGORITHM_INVALID_ALGORITHM"

fun KineticAlgorithm_from_Algorithm :: "Algorithm \<Rightarrow> KineticAlgorithm" where
  "KineticAlgorithm_from_Algorithm ALGORITHM_SHA1 = KINETIC_ALGORITHM_SHA1"
| "KineticAlgorithm_from_Algorithm ALGORITHM_SHA2 = KINETIC_ALGORITHM_SHA2"
| "KineticAlgorithm_from_Algorithm ALGORITHM_SHA3 = KINETIC_ALGORITHM_SHA3"
| "KineticAlgorithm_from_Algorithm ALGORITHM_CRC32 = KINETIC_ALGORITHM_CRC32"
| "KineticAlgorithm_from_Algorithm ALGORITHM_CRC64 = KINETIC_ALGORITHM_CRC64"
| "KineticAlgorithm_from_Algorithm _ = KINETIC_ALGORITHM_INVALID"

datatype KineticSynchronization =
    KINETIC_SYNCHRONIZATION_INVALID | KINETIC_SYNCHRONIZATION_WRITETHROUGH | KINETIC_SYNCHRONIZATION_WRITEBACK
  | KINETIC_SYNCHRONIZATION_FLUSH | KINETIC_SYNCHRONIZATION_OTHER int

fun KineticSynchronization_code :: "KineticSynchronization \<Rightarrow> int" where
  "KineticSynchronization_code KINETIC_SYNCHRONIZATION_INVALID = -1"
| "KineticSynchronization_code KINETIC_SYNCHRONIZATION_WRITETHROUGH = 1"
| "KineticSynchronization_code KINETIC_SYNCHRONIZATION_WRITEBACK = 2"
| "KineticSynchronization_code KINETIC_SYNCHRONIZATION_FLUSH = 3"
| "KineticSynchronization_code (KINETIC_SYNCHRONIZATION_OTHER n) = n"

datatype Synchronization =
    SYNCHRONIZATION_INVALID_SYNCHRONIZATION | SYNCHRONIZATION_WRITETHROUGH | SYNCHRONIZATION_WRITEBACK
  | SYNCHRONIZATION_FLUSH | SYNCHRONIZATION_OTHER int

fun Synchronization_from_KineticSynchronization :: "KineticSynchronization \<Rightarrow> Synchronization" where
  "Synchronization_from_KineticSynchronization KINETIC_SYNCHRONIZATION_WRITETHROUGH = SYNCHRONIZATION_WRITETHROUGH"
| "Synchronization_from_KineticSynchronization KINETIC_SYNCHRONIZATION_WRITEBACK = SYNCHRONIZATION_WRITEBACK"
| "Synchronization_from_KineticSynchronization KINETIC_SYNCHRONIZATION_FLUSH = SYNCHRONIZATION_FLUSH"
| "Synchronization_from_KineticSynchronization _ = SYNCHRONIZATION_INVALID_SYNCHRONIZATION"

fun KineticSynchronization_from_Synchronization :: "Synchronization \<Rightarrow> KineticSynchronization" where
  "KineticSynchronization_from_Synchronization SYNCHRONIZATION_WRITETHROUGH = KINETIC_SYNCHRONIZATION_WRITETHROUGH"
| "KineticSynchronization_from_Synchronization SYNCHRONIZATION_WRITEBACK = KINETIC_SYNCHRONIZATION_WRITEBACK"
| "KineticSynchronization_from_Synchronization SYNCHRONIZATION_FLUSH = KINETIC_SYNCHRONIZATION_FLUSH"
| "KineticSynchronization_from_Synchronization _ = KINETIC_SYNCHRONIZATION_INVALID"

section \<open>Times\<close>

definition Kinetic_TimevalZero :: timeval where
  "Kinetic_TimevalZero = \<lparr>tv_sec = 0, tv_usec = 0\<rparr>"

definition Kinetic_TimevalIsZero :: "timeval \<Rightarrow> bool" where
  "Kinetic_TimevalIsZero tv \<longleftrightarrow> tv_sec tv = 0 \<and> tv_usec tv = 0"

definition Kinetic_TimevalAdd :: "timeval \<Rightarrow> timeval \<Rightarrow> timeval" where
  "Kinetic_TimevalAdd a b =
     (let result = \<lparr>tv_sec = tv_sec a + tv_sec b, tv_usec = tv_usec a + tv_usec b\<rparr> in
      if tv_usec result \<ge> 1000000
      then result\<lparr>tv_sec := tv_sec result + 1, tv_usec := tv_usec result - 1000000\<rparr> else result)"

definition cmp_suseconds_t :: "int \<Rightarrow> int \<Rightarrow> int" where
  "cmp_suseconds_t a b = (if a = b then 0 else if a > b then 1 else -1)"

definition Kinetic_TimevalCmp :: "timeval \<Rightarrow> timeval \<Rightarrow> int" where
  "Kinetic_TimevalCmp a b =
     (if tv_sec a = tv_sec b then cmp_suseconds_t (tv_usec a) (tv_usec b)
      else if tv_sec a > tv_sec b then 1 else -1)"

section \<open>Message types\<close>

datatype KineticMessageType =
    KINETIC_MESSAGE_TYPE_INVALID | KINETIC_MESSAGE_TYPE_GET_RESPONSE | KINETIC_MESSAGE_TYPE_GET
    | KINETIC_MESSAGE_TYPE_PUT_RESPONSE | KINETIC_MESSAGE_TYPE_PUT | KINETIC_MESSAGE_TYPE_DELETE_RESPONSE
    | KINETIC_MESSAGE_TYPE_DELETE | KINETIC_MESSAGE_TYPE_GETNEXT_RESPONSE | KINETIC_MESSAGE_TYPE_GETNEXT
    | KINETIC_MESSAGE_TYPE_GETPREVIOUS_RESPONSE | KINETIC_MESSAGE_TYPE_GETPREVIOUS
    | KINETIC_MESSAGE_TYPE_GETKEYRANGE_RESPONSE | KINETIC_MESSAGE_TYPE_GETKEYRANGE
    | KINETIC_MESSAGE_TYPE_GETVERSION_RESPONSE | KINETIC_MESSAGE_TYPE_GETVERSION | KINETIC_MESSAGE_TYPE_SETUP_RESPONSE
    | KINETIC_MESSAGE_TYPE_SETUP | KINETIC_MESSAGE_TYPE_GETLOG_RESPONSE | KINETIC_MESSAGE_TYPE_GETLOG
    | KINETIC_MESSAGE_TYPE_SECURITY_RESPONSE | KINETIC_MESSAGE_TYPE_SECURITY
    | KINETIC_MESSAGE_TYPE_PEER2PEERPUSH_RESPONSE | KINETIC_MESSAGE_TYPE_PEER2PEERPUSH
    | KINETIC_MESSAGE_TYPE_NOOP_RESPONSE | KINETIC_MESSAGE_TYPE_NOOP | KINETIC_MESSAGE_TYPE_FLUSHALLDATA_RESPONSE
    | KINETIC_MESSAGE_TYPE_FLUSHALLDATA | KINETIC_MESSAGE_TYPE_PINOP_RESPONSE | KINETIC_MESSAGE_TYPE_PINOP
    | KINETIC_MESSAGE_TYPE_MEDIASCAN_RESPONSE | KINETIC_MESSAGE_TYPE_MEDIASCAN
    | KINETIC_MESSAGE_TYPE_MEDIAOPTIMIZE_RESPONSE | KINETIC_MESSAGE_TYPE_MEDIAOPTIMIZE
    | KINETIC_MESSAGE_TYPE_OTHER int

fun KineticMessageType_code :: "KineticMessageType \<Rightarrow> int" where
  "KineticMessageType_code KINETIC_MESSAGE_TYPE_INVALID = -1"
| "KineticMessageType_code KINETIC_MESSAGE_TYPE_GET_RESPONSE = 1"
| "KineticMessageType_code KINETIC_MESSAGE_TYPE_GET = 2"
| "KineticMessageType_code KINETIC_MESSAGE_TYPE_PUT_RESPONSE = 3"
| "KineticMessageType_code KINETIC_MESSAGE_TYPE_PUT = 4"
| "KineticMessageType_code KINETIC_MESSAGE_TYPE_DELETE_RESPONSE = 5"
| "KineticMessageType_code KINETIC_MESSAGE_TYPE_DELETE = 6"
| "KineticMessageType_code KINETIC_MESSAGE_TYPE_GETNEXT_RESPONSE = 7"
| "KineticMessageType_code KINETIC_MESSAGE_TYPE_GETNEXT = 8"
| "KineticMessageType_code KINETIC_MESSAGE_TYPE_GETPREVIOUS_RESPONSE = 9"
| "KineticMessageType_code KINETIC_MESSAGE_TYPE_GETPREVIOUS = 10"
| "KineticMessageType_code KINETIC_MESSAGE_TYPE_GETKEYRANGE_RESPONSE = 11"
| "KineticMessageType_code KINETIC_MESSAGE_TYPE_GETKEYRANGE = 12"
| "KineticMessageType_code KINETIC_MESSAGE_TYPE_GETVERSION_RESPONSE = 15"
| "KineticMessageType_code KINETIC_MESSAGE_TYPE_GETVERSION = 16"
| "KineticMessageType_code KINETIC_MESSAGE_TYPE_SETUP_RESPONSE = 21"
| "KineticMessageType_code KINETIC_MESSAGE_TYPE_SETUP = 22"
| "KineticMessageType_code KINETIC_MESSAGE_TYPE_GETLOG_RESPONSE = 23"
| "KineticMessageType_code KINETIC_MESSAGE_TYPE_GETLOG = 24"
| "KineticMessageType_code KINETIC_MESSAGE_TYPE_SECURITY_RESPONSE = 25"
| "KineticMessageType_code KINETIC_MESSAGE_TYPE_SECURITY = 26"
| "KineticMessageType_code KINETIC_MESSAGE_TYPE_PEER2PEERPUSH_RESPONSE = 27"
| "KineticMessageType_code KINETIC_MESSAGE_TYPE_PEER2PEERPUSH = 28"
| "KineticMessageType_code KINETIC_MESSAGE_TYPE_NOOP_RESPONSE = 29"
| "KineticMessageType_code KINETIC_MESSAGE_TYPE_NOOP = 30"
| "KineticMessageType_code KINETIC_MESSAGE_TYPE_FLUSHALLDATA_RESPONSE = 31"
| "KineticMessageType_code KINETIC_MESSAGE_TYPE_FLUSHALLDATA = 32"
| "KineticMessageType_code KINETIC_MESSAGE_TYPE_PINOP_RESPONSE = 35"
| "KineticMessageType_code KINETIC_MESSAGE_TYPE_PINOP = 36"
| "KineticMessageType_code KINETIC_MESSAGE_TYPE_MEDIASCAN_RESPONSE = 37"
| "KineticMessageType_code KINETIC_MESSAGE_TYPE_MEDIASCAN = 38"
| "KineticMessageType_code KINETIC_MESSAGE_TYPE_MEDIAOPTIMIZE_RESPONSE = 39"
| "KineticMessageType_code KINETIC_MESSAGE_TYPE_MEDIAOPTIMIZE = 40"
| "KineticMessageType_code (KINETIC_MESSAGE_TYPE_OTHER n) = n"

fun KineticMessageType_GetName :: "KineticMessageType \<Rightarrow> string" where
  "KineticMessageType_GetName KINETIC_MESSAGE_TYPE_GET_RESPONSE = ''GET_RESPONSE''"
| "KineticMessageType_GetName KINETIC_MESSAGE_TYPE_GET = ''GET''"
| "KineticMessageType_GetName KINETIC_MESSAGE_TYPE_PUT_RESPONSE = ''PUT_RESPONSE''"
| "KineticMessageType_GetName KINETIC_MESSAGE_TYPE_PUT = ''PUT''"
| "KineticMessageType_GetName KINETIC_MESSAGE_TYPE_DELETE_RESPONSE = ''DELETE_RESPONSE''"
| "KineticMessageType_GetName KINETIC_MESSAGE_TYPE_DELETE = ''DELETE''"
| "KineticMessageType_GetName KINETIC_MESSAGE_TYPE_GETNEXT_RESPONSE = ''GETNEXT_RESPONSE''"
| "KineticMessageType_GetName KINETIC_MESSAGE_TYPE_GETNEXT = ''GETNEXT''"
| "KineticMessageType_GetName KINETIC_MESSAGE_TYPE_GETPREVIOUS_RESPONSE = ''GETPREVIOUS_RESPONSE''"
| "KineticMessageType_GetName KINETIC_MESSAGE_TYPE_GETPREVIOUS = ''GETPREVIOUS''"
| "KineticMessageType_GetName KINETIC_MESSAGE_TYPE_GETKEYRANGE_RESPONSE = ''GETKEYRANGE_RESPONSE''"
| "KineticMessageType_GetName KINETIC_MESSAGE_TYPE_GETKEYRANGE = ''GETKEYRANGE''"
| "KineticMessageType_GetName KINETIC_MESSAGE_TYPE_GETVERSION_RESPONSE = ''GETVERSION_RESPONSE''"
| "KineticMessageType_GetName KINETIC_MESSAGE_TYPE_GETVERSION = ''GETVERSION''"
| "KineticMessageType_GetName KINETIC_MESSAGE_TYPE_SETUP_RESPONSE = ''SETUP_RESPONSE''"
| "KineticMessageType_GetName KINETIC_MESSAGE_TYPE_SETUP = ''SETUP''"
| "KineticMessageType_GetName KINETIC_MESSAGE_TYPE_GETLOG_RESPONSE = ''GETLOG_RESPONSE''"
| "KineticMessageType_GetName KINETIC_MESSAGE_TYPE_GETLOG = ''GETLOG''"
| "KineticMessageType_GetName KINETIC_MESSAGE_TYPE_SECURITY_RESPONSE = ''SECURITY_RESPONSE''"
| "KineticMessageType_GetName KINETIC_MESSAGE_TYPE_SECURITY = ''SECURITY''"
| "KineticMessageType_GetName KINETIC_MESSAGE_TYPE_PEER2PEERPUSH_RESPONSE = ''PEER2PEERPUSH_RESPONSE''"
| "KineticMessageType_GetName KINETIC_MESSAGE_TYPE_PEER2PEERPUSH = ''PEER2PEERPUSH''"
| "KineticMessageType_GetName KINETIC_MESSAGE_TYPE_NOOP_RESPONSE = ''NOOP_RESPONSE''"
| "KineticMessageType_GetName KINETIC_MESSAGE_TYPE_NOOP = ''NOOP''"
| "KineticMessageType_GetName KINETIC_MESSAGE_TYPE_FLUSHALLDATA_RESPONSE = ''FLUSHALLDATA_RESPONSE''"
| "KineticMessageType_GetName KINETIC_MESSAGE_TYPE_FLUSHALLDATA = ''FLUSHALLDATA''"
| "KineticMessageType_GetName KINETIC_MESSAGE_TYPE_PINOP_RESPONSE = ''PINOP_RESPONSE''"
| "KineticMessageType_GetName KINETIC_MESSAGE_TYPE_PINOP = ''PINOP''"
| "KineticMessageType_GetName KINETIC_MESSAGE_TYPE_MEDIASCAN_RESPONSE = ''MEDIASCAN_RESPONSE''"
| "KineticMessageType_GetName KINETIC_MESSAGE_TYPE_MEDIASCAN = ''MEDIASCAN''"
| "KineticMessageType_GetName KINETIC_MESSAGE_TYPE_MEDIAOPTIMIZE_RESPONSE = ''MEDIAOPTIMIZE_RESPONSE''"
| "KineticMessageType_GetName KINETIC_MESSAGE_TYPE_MEDIAOPTIMIZE = ''MEDIAOPTIMIZE''"
| "KineticMessageType_GetName _ = ''<UNKNOWN>''"

section \<open>Other enumerations of the protocol\<close>

datatype AuthType =
    AUTH_TYPE_INVALID_AUTH_TYPE | AUTH_TYPE_HMACAUTH | AUTH_TYPE_PINAUTH | AUTH_TYPE_UNSOLICITEDSTATUS | AUTH_TYPE_OTHER int

datatype Priority = PRIO_NORMAL | PRIO_LOWEST | PRIO_LOWER | PRIO_HIGHER | PRIO_HIGHEST | PRIO_OTHER int

datatype KineticCommand_Priority =
    PRIORITY_NORMAL | PRIORITY_LOWEST | PRIORITY_LOWER | PRIORITY_HIGHER | PRIORITY_HIGHEST | PRIORITY_OTHER int

datatype KineticLogInfo_Type =
    DEVICE_INFO_UTILIZATIONS | DEVICE_INFO_TEMPERATURES | DEVICE_INFO_CAPACITIES | DEVICE_INFO_CONFIGURATION
  | DEVICE_INFO_STATISTICS | DEVICE_INFO_MESSAGES | DEVICE_INFO_LIMITS | DEVICE_INFO_OTHER int

datatype GetLog_Type =
    GET_LOG_INVALID_TYPE | GET_LOG_UTILIZATIONS | GET_LOG_TEMPERATURES | GET_LOG_CAPACITIES | GET_LOG_CONFIGURATION
  | GET_LOG_STATISTICS | GET_LOG_MESSAGES | GET_LOG_LIMITS | GET_LOG_DEVICE

datatype PinOpType = PIN_OP_INVALID | PIN_OP_UNLOCK | PIN_OP_LOCK | PIN_OP_ERASE | PIN_OP_SECURE_ERASE | PIN_OP_OTHER int

fun KineticLogInfo_Type_to_GetLog_Type :: "KineticLogInfo_Type \<Rightarrow> GetLog_Type" where
  "KineticLogInfo_Type_to_GetLog_Type DEVICE_INFO_UTILIZATIONS = GET_LOG_UTILIZATIONS"
| "KineticLogInfo_Type_to_GetLog_Type DEVICE_INFO_TEMPERATURES = GET_LOG_TEMPERATURES"
| "KineticLogInfo_Type_to_GetLog_Type DEVICE_INFO_CAPACITIES = GET_LOG_CAPACITIES"
| "KineticLogInfo_Type_to_GetLog_Type DEVICE_INFO_CONFIGURATION = GET_LOG_CONFIGURATION"
| "KineticLogInfo_Type_to_GetLog_Type DEVICE_INFO_STATISTICS = GET_LOG_STATISTICS"
| "KineticLogInfo_Type_to_GetLog_Type DEVICE_INFO_MESSAGES = GET_LOG_MESSAGES"
| "KineticLogInfo_Type_to_GetLog_Type DEVICE_INFO_LIMITS = GET_LOG_LIMITS"
| "KineticLogInfo_Type_to_GetLog_Type (DEVICE_INFO_OTHER n) = GET_LOG_INVALID_TYPE"

end
