(* ===== verification/Kinetic_Entry.thy ===== *)
theory Kinetic_Entry
  imports Kinetic_Types
begin

text \<open>
  Entries on their way to and from the device: the key-value and key-range structures of a
  request (\<^verbatim>\<open>kinetic_message.c\<close>) and the copy of a response's fields into the buffers the
  client supplied (\<^verbatim>\<open>kinetic_types_internal.c\<close>).
\<close>

section \<open>Data\<close>

record KineticEntry =
  ke_key :: byte_buffer
  ke_value :: byte_buffer
  ke_dbVersion :: byte_buffer
  ke_tag :: byte_buffer
  ke_algorithm :: KineticAlgorithm
  ke_newVersion :: byte_buffer
  ke_metadataOnly :: bool
  ke_force :: bool
  ke_computeTag :: bool
  ke_synchronization :: KineticSynchronization

record KineticKeyRange =
  kr_startKey :: byte_buffer
  kr_endKey :: byte_buffer
  kr_startKeyInclusive :: bool
  kr_endKeyInclusive :: bool
  kr_maxReturned :: int
  kr_reverse :: bool

text \<open>The array and its length are a list; \<open>bba_used\<close> is set by the library.\<close>

record ByteBufferArray =
  bba_buffers :: "byte_buffer list"
  bba_used :: nat

record KeyValue =
  kv_has_newversion :: bool
  kv_newversion :: byte_array
  kv_has_force :: bool
  kv_force :: bool
  kv_has_key :: bool
  kv_key :: byte_array
  kv_has_dbversion :: bool
  kv_dbversion :: byte_array
  kv_has_tag :: bool
  kv_tag :: byte_array
  kv_has_algorithm :: bool
  kv_algorithm :: Algorithm
  kv_has_metadataonly :: bool
  kv_metadataonly :: bool
  kv_has_synchronization :: bool
  kv_synchronization :: Synchronization

record Range =
  rg_has_startkey :: bool
  rg_startkey :: byte_array
  rg_has_endkey :: bool
  rg_endkey :: byte_array
  rg_has_startkeyinclusive :: bool
  rg_startkeyinclusive :: bool
  rg_has_endkeyinclusive :: bool
  rg_endkeyinclusive :: bool
  rg_has_maxreturned :: bool
  rg_maxreturned :: int
  rg_has_reverse :: bool
  rg_reverse :: bool
  rg_keys :: "byte_array list"

section \<open>Requests\<close>

text \<open>\<^verbatim>\<open>CONFIG_FIELD_BYTE_BUFFER\<close>: the presence flag and the data of one field.\<close>

definition config_field :: "byte_buffer \<Rightarrow> byte_array \<Rightarrow> bool \<times> byte_array" where
  "config_field buf old =
     (if bb_data buf \<noteq> NULL \<and> bb_len buf > 0 \<and> bytesUsed buf > 0 \<and> bytesUsed buf \<le> bb_len buf
      then (True, \<lparr>ba_len = bytesUsed buf, ba_data = bb_data buf\<rparr>) else (False, old))"

definition configure_key_value :: "KeyValue \<Rightarrow> KineticEntry \<Rightarrow> KeyValue" where
  "configure_key_value kv entry =
     (let (has_key, key) = config_field (ke_key entry) (kv_key kv);
          (has_new, new) = config_field (ke_newVersion entry) (kv_newversion kv);
          (has_db, db) = config_field (ke_dbVersion entry) (kv_dbversion kv);
          (has_tag, tag) = config_field (ke_tag entry) (kv_tag kv);
          has_alg = KineticAlgorithm_code (ke_algorithm entry) > 0;
          has_sync = KineticSynchronization_code (ke_synchronization entry) > 0
      in kv\<lparr>kv_has_key := has_key, kv_key := key, kv_has_newversion := has_new, kv_newversion := new,
            kv_has_dbversion := has_db, kv_dbversion := db, kv_has_tag := has_tag, kv_tag := tag,
            kv_has_force := ke_force entry,
            kv_force := (if ke_force entry then ke_force entry else kv_force kv),
            kv_has_algorithm := has_alg,
            kv_algorithm := (if has_alg then Algorithm_from_KineticAlgorithm (ke_algorithm entry) else kv_algorithm kv),
            kv_has_metadataonly := ke_metadataOnly entry,
            kv_metadataonly := (if ke_metadataOnly entry then ke_metadataOnly entry else kv_metadataonly kv),
            kv_has_synchronization := has_sync,
            kv_synchronization := (if has_sync then Synchronization_from_KineticSynchronization (ke_synchronization entry)
                                   else kv_synchronization kv)\<rparr>)"

definition configure_key_range :: "Range \<Rightarrow> KineticKeyRange \<Rightarrow> Range option" where
  "configure_key_range rg rng =
     do { c_assert (bb_data (kr_startKey rng) \<noteq> NULL);
          c_assert (bb_len (kr_startKey rng) > 0);
          c_assert (bytesUsed (kr_startKey rng) > 0);
          c_assert (bytesUsed (kr_startKey rng) \<le> bb_len (kr_startKey rng));
          c_assert (kr_maxReturned rng > 0);
          let has_start = bb_data (kr_startKey rng) \<noteq> NULL;
          let has_end = bb_data (kr_endKey rng) \<noteq> NULL;
          Some (rg\<lparr>rg_has_startkey := has_start,
                  rg_startkey := (if has_start then \<lparr>ba_len = bytesUsed (kr_startKey rng), ba_data = bb_data (kr_startKey rng)\<rparr>
                                  else rg_startkey rg),
                  rg_has_endkey := has_end,
                  rg_endkey := (if has_end then \<lparr>ba_len = bytesUsed (kr_endKey rng), ba_data = bb_data (kr_endKey rng)\<rparr>
                                else rg_endkey rg),
                  rg_startkeyinclusive := (if kr_startKeyInclusive rng then True else rg_startkeyinclusive rg),
                  rg_has_startkeyinclusive := kr_startKeyInclusive rng,
                  rg_endkeyinclusive := (if kr_endKeyInclusive rng then True else rg_endkeyinclusive rg),
                  rg_has_endkeyinclusive := kr_endKeyInclusive rng,
                  rg_maxreturned := kr_maxReturned rng, rg_has_maxreturned := True,
                  rg_reverse := (if kr_reverse rng then True else rg_reverse rg),
                  rg_has_reverse := kr_reverse rng\<rparr>) }"

section \<open>Responses\<close>

definition ProtobufCBinaryData_to_ByteArray :: "byte_array \<Rightarrow> byte_array" where
  "ProtobufCBinaryData_to_ByteArray protoData = \<lparr>ba_len = ba_len protoData, ba_data = ba_data protoData\<rparr>"

text \<open>The destination is passed by value: its fill mark does not reach the caller.\<close>

definition Copy_ProtobufCBinaryData_to_ByteBuffer :: "heap \<Rightarrow> byte_buffer \<Rightarrow> byte_array \<Rightarrow> (heap \<times> bool) option" where
  "Copy_ProtobufCBinaryData_to_ByteBuffer h dest src =
     (if ba_data src = NULL \<or> ba_len src = 0 then Some (h, False)
      else if bb_data dest = NULL \<or> bb_len dest < ba_len src then Some (h, False)
      else do { h' \<leftarrow> memcpy h (bb_data dest) (ba_data src) (unat (ba_len src)); Some (h', True) })"

text \<open>One field of the response into one buffer of the entry; the flag says that it did not fit.\<close>

definition copy_field :: "heap \<Rightarrow> byte_buffer \<Rightarrow> bool \<Rightarrow> byte_array \<Rightarrow> (heap \<times> byte_buffer \<times> bool) option" where
  "copy_field h buf has src =
     (let buf0 = ByteBuffer_Reset buf in
      if has \<and> ba_len src > 0 then
        if bb_data buf0 = NULL \<or> bb_len buf0 < ba_len src
        then Some (h, buf0\<lparr>bytesUsed := ba_len src\<rparr>, True)
        else do { (h', buf', _) \<leftarrow> ByteBuffer_Append h buf0 (ba_data src) (ba_len src); Some (h', buf', False) }
      else Some (h, buf0, False))"

definition Copy_KeyValue_to_KineticEntry ::
  "heap \<Rightarrow> KeyValue option \<Rightarrow> KineticEntry option \<Rightarrow> (heap \<times> KineticEntry option \<times> bool) option" where
  "Copy_KeyValue_to_KineticEntry h kvo eo =
     (case (kvo, eo) of
        (Some kv, Some entry) \<Rightarrow>
          do { (h1, db, o1) \<leftarrow> copy_field h (ke_dbVersion entry) (kv_has_dbversion kv) (kv_dbversion kv);
               (h2, key, o2) \<leftarrow> copy_field h1 (ke_key entry) (kv_has_key kv) (kv_key kv);
               (h3, tag, o3) \<leftarrow> copy_field h2 (ke_tag entry) (kv_has_tag kv) (kv_tag kv);
               let alg = (if kv_has_algorithm kv then KineticAlgorithm_from_Algorithm (kv_algorithm kv) else ke_algorithm entry);
               Some (h3, Some (entry\<lparr>ke_dbVersion := db, ke_key := key, ke_tag := tag, ke_algorithm := alg\<rparr>),
                     \<not> (o1 \<or> o2 \<or> o3)) }
      | _ \<Rightarrow> Some (h, eo, True))"

fun copy_keys :: "heap \<Rightarrow> byte_buffer list \<Rightarrow> byte_array list \<Rightarrow> (heap \<times> byte_buffer list \<times> bool) option" where
  "copy_keys h [] ks = Some (h, [], False)"
| "copy_keys h bufs [] = Some (h, bufs, False)"
| "copy_keys h (buf # bufs) (k # ks) =
     do { (h1, buf', ok) \<leftarrow> ByteBuffer_Append h (ByteBuffer_Reset buf) (ba_data k) (ba_len k);
          (h2, bufs', overflow) \<leftarrow> copy_keys h1 bufs ks;
          Some (h2, buf' # bufs', \<not> ok \<or> overflow) }"

definition Copy_Range_to_ByteBufferArray ::
  "heap \<Rightarrow> Range option \<Rightarrow> ByteBufferArray \<Rightarrow> (heap \<times> ByteBufferArray \<times> bool) option" where
  "Copy_Range_to_ByteBufferArray h ro keys =
     (case ro of
        Some rng \<Rightarrow>
          if bba_buffers keys \<noteq> [] then
            do { (h', bufs, overflow) \<leftarrow> copy_keys h (bba_buffers keys) (rg_keys rng);
                 Some (h', keys\<lparr>bba_buffers := bufs, bba_used := length (rg_keys rng)\<rparr>, \<not> overflow) }
          else Some (h, keys, True)
      | None \<Rightarrow> Some (h, keys, True))"

text \<open>What the callback of a PUT does to the entry: the version written becomes the current one.\<close>

definition put_versions :: "heap \<Rightarrow> KineticEntry \<Rightarrow> (heap \<times> KineticEntry) option" where
  "put_versions h entry =
     (let new = ke_newVersion entry; db = ke_dbVersion entry in
      if bb_data new \<noteq> NULL \<and> bb_len new > 0 then
        if bb_data db \<noteq> NULL \<and> bb_len db > 0 then
          do { (h', db', _) \<leftarrow> ByteBuffer_Append h (ByteBuffer_Reset db) (bb_data new) (bytesUsed new);
               Some (h', entry\<lparr>ke_dbVersion := db', ke_newVersion := ByteBuffer_Reset new\<rparr>) }
        else Some (h, entry\<lparr>ke_dbVersion := new, ke_newVersion := BYTE_BUFFER_NONE\<rparr>)
      else Some (h, entry))"

section \<open>Separate buffers\<close>

definition block_of :: "byte_buffer \<Rightarrow> nat option" where
  "block_of b = (case bb_data b of NULL \<Rightarrow> None | Ptr blk _ \<Rightarrow> Some blk)"

definition src_block :: "byte_array \<Rightarrow> nat option" where
  "src_block a = (case ba_data a of NULL \<Rightarrow> None | Ptr blk _ \<Rightarrow> Some blk)"

text \<open>The bytes a field of a protobuf carries.\<close>

definition field_bytes :: "heap \<Rightarrow> bool \<Rightarrow> byte_array \<Rightarrow> u8 list option" where
  "field_bytes h has src = (if has then load_bytes h (ba_data src) (unat (ba_len src)) else Some [])"

definition only_block :: "heap \<Rightarrow> heap \<Rightarrow> byte_buffer \<Rightarrow> bool" where
  "only_block h h' b \<longleftrightarrow> (\<forall>c. block_of b \<noteq> Some c \<longrightarrow> h' c = h c)"

lemma only_block_refl [simp]: "only_block h h b"
  by (simp add: only_block_def)

lemma outside_only_block: "outside_unchanged h h' b \<Longrightarrow> only_block h h' b"
  by (auto simp: outside_unchanged_def only_block_def block_of_def split: ptr.splits)

lemma load_only_block:
  assumes "only_block h h' b" "src_block a = Some c" "block_of b \<noteq> Some c"
  shows "load_bytes h' (ba_data a) n = load_bytes h (ba_data a) n"
  using assms by (auto simp: only_block_def load_bytes_def src_block_def split: ptr.splits)

lemma buffer_only_block:
  assumes "only_block h h' b" "block_of x = Some c" "block_of b \<noteq> Some c"
  shows "buffer_ok h' x = buffer_ok h x" "contents h' x = contents h x"
  using assms by (auto simp: only_block_def buffer_ok_def contents_def load_bytes_def block_of_def split: ptr.splits)

lemma Reset_simps [simp]:
  "bb_array (ByteBuffer_Reset b) = bb_array b" "bytesUsed (ByteBuffer_Reset b) = 0" "block_of (ByteBuffer_Reset b) = block_of b"
  by (simp_all add: ByteBuffer_Reset_def block_of_def)

lemma Reset_ok: "buffer_ok h b \<Longrightarrow> buffer_ok h (ByteBuffer_Reset b)"
  by (auto simp: buffer_ok_def split: ptr.splits option.splits)

lemma contents_Reset: "buffer_ok h b \<Longrightarrow> contents h (ByteBuffer_Reset b) = []"
  by (auto simp: contents_def load_bytes_def elim: buffer_okE)

lemma append_to_empty:
  assumes "heap_ok h" "buffer_ok h b" "load_bytes h (ba_data src) (unat (ba_len src)) = Some xs"
    "block_of b \<noteq> src_block src"
  obtains h' b' where "ByteBuffer_Append h (ByteBuffer_Reset b) (ba_data src) (ba_len src) = Some (h', b', length xs \<le> unat (bb_len b))"
    "heap_ok h'" "buffer_ok h' b'" "bb_array b' = bb_array b" "only_block h h' b"
    "length xs \<le> unat (bb_len b) \<Longrightarrow> contents h' b' = xs"
    "\<not> length xs \<le> unat (bb_len b) \<Longrightarrow> h' = h \<and> b' = ByteBuffer_Reset b"
proof -
  have "raw_payload h (ByteBuffer_Reset b) (ba_data src, ba_len src) = Some xs"
    using assms(3,4) by (auto simp: raw_payload_def overlap_def block_of_def src_block_def split: ptr.splits)
  then have "append_outcome h (ByteBuffer_Reset b) xs (ByteBuffer_Append h (ByteBuffer_Reset b) (ba_data src) (ba_len src))"
    using raw.app_outcome [OF assms(1) Reset_ok [OF assms(2)], of "(ba_data src, ba_len src)"] by simp
  moreover have "room (ByteBuffer_Reset b) = unat (bb_len b)" by (simp add: room_def)
  ultimately show thesis
    using that contents_Reset [OF assms(2)] outside_only_block [of h _ "ByteBuffer_Reset b"]
    by (auto simp: append_outcome_def only_block_def)
qed

section \<open>Copying a response into an entry\<close>

text \<open>A client may leave a buffer out; then it holds nothing and takes nothing.\<close>

definition slot_ok :: "heap \<Rightarrow> byte_buffer \<Rightarrow> bool" where
  "slot_ok h b \<longleftrightarrow> bb_data b = NULL \<or> buffer_ok h b"

definition capacity :: "byte_buffer \<Rightarrow> nat" where
  "capacity b = (if bb_data b = NULL then 0 else unat (bb_len b))"

text \<open>The buffer \<open>b'\<close> after the bytes \<open>xs\<close> were copied into \<open>b\<close>: it holds them, or it says how many
  there were.\<close>

definition received :: "heap \<Rightarrow> byte_buffer \<Rightarrow> byte_buffer \<Rightarrow> u8 list \<Rightarrow> bool" where
  "received h' b b' xs \<longleftrightarrow> bb_array b' = bb_array b \<and>
     (if length xs \<le> capacity b then slot_ok h' b' \<and> contents h' b' = xs \<and> (bb_data b = NULL \<longrightarrow> bytesUsed b' = 0)
      else unat (bytesUsed b') = length xs)"

definition apart :: "byte_buffer \<Rightarrow> byte_buffer \<Rightarrow> bool" where
  "apart a b \<longleftrightarrow> block_of a = None \<or> block_of a \<noteq> block_of b"

definition src_apart :: "bool \<Rightarrow> byte_array \<Rightarrow> byte_buffer \<Rightarrow> bool" where
  "src_apart has src b \<longleftrightarrow> has \<longrightarrow> src_block src = None \<or> block_of b \<noteq> src_block src"

lemma block_of_array: "bb_array b' = bb_array b \<Longrightarrow> block_of b' = block_of b"
  by (simp add: block_of_def)

lemma copy_field_received:
  assumes "heap_ok h" "slot_ok h b" "field_bytes h has src = Some xs" "src_apart has src b"
  obtains h' b' where "copy_field h b has src = Some (h', b', capacity b < length xs)" "heap_ok h'" "only_block h h' b"
    "received h' b b' xs"
proof (cases "has \<and> ba_len src > 0")
  case False
  have "xs = []"
    using assms(3) False by (auto simp: field_bytes_def load_bytes_def not_less split: if_splits ptr.splits option.splits)
  moreover have "copy_field h b has src = Some (h, ByteBuffer_Reset b, False)" using False unfolding copy_field_def Let_def by auto
  moreover have "slot_ok h (ByteBuffer_Reset b)" "contents h (ByteBuffer_Reset b) = []"
    using assms(2) Reset_ok contents_Reset by (auto simp: slot_ok_def contents_def load_bytes_def)
  ultimately show thesis using that [of h "ByteBuffer_Reset b"] assms(1) by (simp add: received_def)
next
  case True
  then have ld: "load_bytes h (ba_data src) (unat (ba_len src)) = Some xs" using assms(3) by (simp add: field_bytes_def)
  then have lx: "length xs = unat (ba_len src)" by (rule load_bytes_length)
  show thesis
  proof (cases "capacity b < length xs")
    case over: True
    then have "bb_data b = NULL \<or> bb_len b < ba_len src" using lx by (auto simp: capacity_def word_less_nat_alt split: if_splits)
    then have "copy_field h b has src = Some (h, (ByteBuffer_Reset b)\<lparr>bytesUsed := ba_len src\<rparr>, True)"
      using True by (simp add: copy_field_def Let_def)
    then show thesis using that [of h "(ByteBuffer_Reset b)\<lparr>bytesUsed := ba_len src\<rparr>"] assms(1) over lx by (simp add: received_def)
  next
    case fits: False
    have "0 < unat (ba_len src)" using True by (simp add: word_less_nat_alt)
    then have nn: "bb_data b \<noteq> NULL" using fits lx by (auto simp: capacity_def)
    then have ok: "buffer_ok h b" and le: "length xs \<le> unat (bb_len b)" using assms(2) fits by (simp_all add: slot_ok_def capacity_def)
    have "src_block src \<noteq> None" using ld by (auto simp: src_block_def load_bytes_def split: ptr.splits)
    then have "block_of b \<noteq> src_block src" using assms(4) True unfolding src_apart_def by metis
    from append_to_empty [OF assms(1) ok ld this] obtain h' b' where
      a: "ByteBuffer_Append h (ByteBuffer_Reset b) (ba_data src) (ba_len src) = Some (h', b', True)"
      "heap_ok h'" "buffer_ok h' b'" "bb_array b' = bb_array b" "only_block h h' b" "contents h' b' = xs"
      using le by auto
    have "copy_field h b has src = Some (h', b', False)"
      using True nn le lx a(1) by (simp add: copy_field_def Let_def word_less_nat_alt)
    then show thesis using that [of h' b'] a(2-6) fits nn by (simp add: received_def slot_ok_def)
  qed
qed

lemma received_frame:
  assumes "received h b b' xs" "only_block h h' x" "apart b x"
  shows "received h' b b' xs"
proof -
  have b: "block_of b' = block_of b" using assms(1) by (intro block_of_array) (simp add: received_def)
  show ?thesis
  proof (cases "block_of b'")
    case None
    then have n: "bb_data b' = NULL" by (simp add: block_of_def split: ptr.splits)
    then have "slot_ok h' b' = slot_ok h b'" "contents h' b' = contents h b'"
      unfolding slot_ok_def contents_def load_bytes_def by simp_all
    then show ?thesis using assms(1) unfolding received_def by simp
  next
    case (Some c)
    then have "block_of x \<noteq> Some c" using assms(3) b by (simp add: apart_def)
    note f = buffer_only_block [OF assms(2) Some this]
    then have "slot_ok h' b' = slot_ok h b'" unfolding slot_ok_def by simp
    then show ?thesis using assms(1) f(2) unfolding received_def by simp
  qed
qed

lemma slot_frame:
  assumes "slot_ok h b" "only_block h h' x" "apart b x"
  shows "slot_ok h' b"
proof (cases "block_of b")
  case None
  then show ?thesis by (simp add: slot_ok_def block_of_def split: ptr.splits)
next
  case (Some c)
  then show ?thesis using assms buffer_only_block(1) [OF assms(2) Some] by (simp add: slot_ok_def apart_def)
qed

lemma field_frame:
  assumes "field_bytes h has src = Some xs" "only_block h h' x" "src_apart has src x"
  shows "field_bytes h' has src = Some xs"
proof (cases "has \<and> src_block src \<noteq> None")
  case True
  then obtain c where "src_block src = Some c" by auto
  with True assms show ?thesis by (simp add: field_bytes_def src_apart_def load_only_block)
qed (use assms in \<open>auto simp: field_bytes_def src_block_def load_bytes_def split: ptr.splits if_splits\<close>)

text \<open>A response's key-value structure is copied into the entry the client supplied field by
  field: each of version, key and tag either ends up in its buffer byte for byte, or, if it does not
  fit, the buffer's fill mark tells the size needed; the copy reports success exactly when all fit,
  and it aborts on no input whose buffers are valid and separate (a buffer may be missing).\<close>

theorem response_fields_reach_entry:
  assumes "heap_ok h" "slot_ok h (ke_dbVersion e)" "slot_ok h (ke_key e)" "slot_ok h (ke_tag e)"
    "apart (ke_dbVersion e) (ke_key e)" "apart (ke_dbVersion e) (ke_tag e)" "apart (ke_key e) (ke_tag e)"
    "apart (ke_key e) (ke_dbVersion e)" "apart (ke_tag e) (ke_dbVersion e)" "apart (ke_tag e) (ke_key e)"
    "\<forall>b \<in> {ke_dbVersion e, ke_key e, ke_tag e}. src_apart (kv_has_dbversion kv) (kv_dbversion kv) b \<and>
       src_apart (kv_has_key kv) (kv_key kv) b \<and> src_apart (kv_has_tag kv) (kv_tag kv) b"
    "field_bytes h (kv_has_dbversion kv) (kv_dbversion kv) = Some db"
    "field_bytes h (kv_has_key kv) (kv_key kv) = Some key"
    "field_bytes h (kv_has_tag kv) (kv_tag kv) = Some tag"
  shows "\<exists>h' e'. Copy_KeyValue_to_KineticEntry h (Some kv) (Some e) =
      Some (h', Some e', length db \<le> capacity (ke_dbVersion e) \<and> length key \<le> capacity (ke_key e) \<and> length tag \<le> capacity (ke_tag e)) \<and>
    received h' (ke_dbVersion e) (ke_dbVersion e') db \<and> received h' (ke_key e) (ke_key e') key \<and>
    received h' (ke_tag e) (ke_tag e') tag \<and> ke_value e' = ke_value e \<and>
    ke_algorithm e' = (if kv_has_algorithm kv then KineticAlgorithm_from_Algorithm (kv_algorithm kv) else ke_algorithm e)"
proof -
  from assms(11) have sa: "src_apart (kv_has_dbversion kv) (kv_dbversion kv) (ke_dbVersion e)"
    "src_apart (kv_has_key kv) (kv_key kv) (ke_dbVersion e)" "src_apart (kv_has_tag kv) (kv_tag kv) (ke_dbVersion e)"
    "src_apart (kv_has_key kv) (kv_key kv) (ke_key e)" "src_apart (kv_has_tag kv) (kv_tag kv) (ke_key e)"
    "src_apart (kv_has_tag kv) (kv_tag kv) (ke_tag e)" by simp_all
  obtain h1 b1 where c1: "copy_field h (ke_dbVersion e) (kv_has_dbversion kv) (kv_dbversion kv) = Some (h1, b1, capacity (ke_dbVersion e) < length db)"
    "heap_ok h1" "only_block h h1 (ke_dbVersion e)" "received h1 (ke_dbVersion e) b1 db"
    using copy_field_received [OF assms(1,2,12) sa(1)] .
  obtain h2 b2 where c2: "copy_field h1 (ke_key e) (kv_has_key kv) (kv_key kv) = Some (h2, b2, capacity (ke_key e) < length key)"
    "heap_ok h2" "only_block h1 h2 (ke_key e)" "received h2 (ke_key e) b2 key"
    using copy_field_received [OF c1(2) slot_frame [OF assms(3) c1(3) assms(8)] field_frame [OF assms(13) c1(3) sa(2)] sa(4)] .
  obtain h3 b3 where c3: "copy_field h2 (ke_tag e) (kv_has_tag kv) (kv_tag kv) = Some (h3, b3, capacity (ke_tag e) < length tag)"
    "only_block h2 h3 (ke_tag e)" "received h3 (ke_tag e) b3 tag"
    using copy_field_received [OF c2(2) slot_frame [OF slot_frame [OF assms(4) c1(3) assms(9)] c2(3) assms(10)]
      field_frame [OF field_frame [OF assms(14) c1(3) sa(3)] c2(3) sa(5)] sa(6)] .
  have r1: "received h3 (ke_dbVersion e) b1 db"
    using received_frame [OF received_frame [OF c1(4) c2(3) assms(5)] c3(2) assms(6)] .
  have r2: "received h3 (ke_key e) b2 key" using received_frame [OF c2(4) c3(2) assms(7)] .
  show ?thesis using c1(1) c2(1) c3(1,3) r1 r2 by (simp add: Copy_KeyValue_to_KineticEntry_def not_less)
qed

definition ex_entry_heap :: heap where
  "ex_entry_heap = (\<lambda>_. None)(0 \<mapsto> [0, 0], Suc 0 \<mapsto> [0, 0, 0], 2 \<mapsto> [7, 8, 9])"

definition ex_entry :: KineticEntry where
  "ex_entry = \<lparr>ke_key = \<lparr>bb_array = \<lparr>ba_len = 2, ba_data = Ptr 0 0\<rparr>, bytesUsed = 1\<rparr>, ke_value = BYTE_BUFFER_NONE,
     ke_dbVersion = \<lparr>bb_array = \<lparr>ba_len = 3, ba_data = Ptr (Suc 0) 0\<rparr>, bytesUsed = 0\<rparr>, ke_tag = BYTE_BUFFER_NONE,
     ke_algorithm = KINETIC_ALGORITHM_OTHER 0, ke_newVersion = BYTE_BUFFER_NONE, ke_metadataOnly = False,
     ke_force = False, ke_computeTag = False, ke_synchronization = KINETIC_SYNCHRONIZATION_OTHER 0\<rparr>"

definition ex_kv :: KeyValue where
  "ex_kv = \<lparr>kv_has_newversion = False, kv_newversion = BYTE_ARRAY_NONE, kv_has_force = False, kv_force = False,
     kv_has_key = True, kv_key = \<lparr>ba_len = 3, ba_data = Ptr 2 0\<rparr>, kv_has_dbversion = True,
     kv_dbversion = \<lparr>ba_len = 2, ba_data = Ptr 2 1\<rparr>, kv_has_tag = False, kv_tag = BYTE_ARRAY_NONE,
     kv_has_algorithm = True, kv_algorithm = ALGORITHM_SHA1, kv_has_metadataonly = False, kv_metadataonly = False,
     kv_has_synchronization = False, kv_synchronization = SYNCHRONIZATION_INVALID_SYNCHRONIZATION\<rparr>"

lemmas ex_entry_defs = ex_entry_heap_def ex_entry_def ex_kv_def BYTE_BUFFER_NONE_def BYTE_ARRAY_NONE_def

theorem response_fields_reach_entry_witness:
  "\<exists>h' e'. Copy_KeyValue_to_KineticEntry ex_entry_heap (Some ex_kv) (Some ex_entry) = Some (h', Some e', False) \<and>
     received h' (ke_dbVersion ex_entry) (ke_dbVersion e') [8, 9] \<and> received h' (ke_key ex_entry) (ke_key e') [7, 8, 9] \<and>
     received h' (ke_tag ex_entry) (ke_tag e') [] \<and> ke_algorithm e' = KINETIC_ALGORITHM_SHA1"
proof -
  have h: "heap_ok ex_entry_heap" by (auto simp: heap_ok_def ex_entry_heap_def)
  have s: "slot_ok ex_entry_heap (ke_dbVersion ex_entry)" "slot_ok ex_entry_heap (ke_key ex_entry)"
    "slot_ok ex_entry_heap (ke_tag ex_entry)"
    by (simp_all add: slot_ok_def buffer_ok_def ex_entry_defs)
  have a: "apart (ke_dbVersion ex_entry) (ke_key ex_entry)" "apart (ke_dbVersion ex_entry) (ke_tag ex_entry)"
    "apart (ke_key ex_entry) (ke_tag ex_entry)" "apart (ke_key ex_entry) (ke_dbVersion ex_entry)"
    "apart (ke_tag ex_entry) (ke_dbVersion ex_entry)" "apart (ke_tag ex_entry) (ke_key ex_entry)"
    by (simp_all add: apart_def block_of_def ex_entry_defs)
  have sa: "\<forall>b \<in> {ke_dbVersion ex_entry, ke_key ex_entry, ke_tag ex_entry}.
     src_apart (kv_has_dbversion ex_kv) (kv_dbversion ex_kv) b \<and> src_apart (kv_has_key ex_kv) (kv_key ex_kv) b \<and>
     src_apart (kv_has_tag ex_kv) (kv_tag ex_kv) b"
    by (simp add: src_apart_def block_of_def src_block_def ex_entry_defs)
  have f: "field_bytes ex_entry_heap (kv_has_dbversion ex_kv) (kv_dbversion ex_kv) = Some [8, 9]"
    "field_bytes ex_entry_heap (kv_has_key ex_kv) (kv_key ex_kv) = Some [7, 8, 9]"
    "field_bytes ex_entry_heap (kv_has_tag ex_kv) (kv_tag ex_kv) = Some []"
    by (simp_all add: field_bytes_def load_bytes_def ex_entry_defs)
  have c: "capacity (ke_dbVersion ex_entry) = 3" "capacity (ke_key ex_entry) = 2" "capacity (ke_tag ex_entry) = 0"
    by (simp_all add: capacity_def ex_entry_defs)
  have k: "kv_has_algorithm ex_kv" "kv_algorithm ex_kv = ALGORITHM_SHA1" by (simp_all add: ex_kv_def)
  show ?thesis using response_fields_reach_entry [OF h s a sa f] unfolding c by (auto simp: k)
qed

section \<open>Copying a key range\<close>

text \<open>The buffers are valid and in blocks of their own, and no key lies in one of them.\<close>

fun keys_apart :: "heap \<Rightarrow> byte_buffer list \<Rightarrow> byte_array list \<Rightarrow> bool" where
  "keys_apart h [] ks = True"
| "keys_apart h (b # bs) ks \<longleftrightarrow> buffer_ok h b \<and> (\<forall>c \<in> set bs. apart b c \<and> apart c b) \<and>
     (\<forall>k \<in> set ks. block_of b \<noteq> src_block k) \<and> keys_apart h bs ks"

lemma apart_other:
  assumes "buffer_ok h c" "apart c b"
  shows "\<exists>blk. block_of c = Some blk \<and> block_of b \<noteq> Some blk"
  using assms by (auto simp: apart_def block_of_def elim!: buffer_okE)

lemma keys_apart_frame:
  assumes "keys_apart h bs ks" "only_block h h' b" "\<forall>c \<in> set bs. apart c b"
  shows "keys_apart h' bs ks"
  using assms(1,3)
proof (induction bs)
  case (Cons c bs)
  then obtain blk where "block_of c = Some blk" "block_of b \<noteq> Some blk" using apart_other [of h c b] by auto
  then show ?case using Cons buffer_only_block(1) [OF assms(2), of c] by simp
qed simp

lemma keys_apart_tl: "keys_apart h bs (k # ks) \<Longrightarrow> keys_apart h bs ks"
  by (induction bs) auto

definition key_bytes :: "heap \<Rightarrow> byte_array \<Rightarrow> u8 list option" where
  "key_bytes h k = load_bytes h (ba_data k) (unat (ba_len k))"

text \<open>A buffer after the loop: the key if there is one and it fits, else empty; the buffers beyond the
  last key are untouched.\<close>

definition key_slot :: "heap \<Rightarrow> byte_buffer \<Rightarrow> byte_buffer \<Rightarrow> u8 list \<Rightarrow> bool" where
  "key_slot h' b b' xs \<longleftrightarrow> bb_array b' = bb_array b \<and> buffer_ok h' b' \<and>
     contents h' b' = (if length xs \<le> unat (bb_len b) then xs else [])"

lemma copy_keys_slots:
  assumes "heap_ok h" "keys_apart h bufs ks" "map (key_bytes h) ks = map Some xss"
  shows "\<exists>h' bufs'. copy_keys h bufs ks = Some (h', bufs', \<exists>(b, xs) \<in> set (zip bufs xss). unat (bb_len b) < length xs) \<and>
     length bufs' = length bufs \<and> drop (length xss) bufs' = drop (length xss) bufs \<and>
     (\<forall>c. (\<forall>b \<in> set bufs. block_of b \<noteq> Some c) \<longrightarrow> h' c = h c) \<and>
     (\<forall>i < min (length bufs) (length xss). key_slot h' (bufs ! i) (bufs' ! i) (xss ! i))"
  using assms
proof (induction bufs arbitrary: h ks xss)
  case Nil
  then show ?case by simp
next
  case (Cons b bufs)
  show ?case
  proof (cases ks)
    case Nil
    then show ?thesis using Cons.prems(3) by simp
  next
    case ks: (Cons k ks')
    then obtain xs xss' where xss: "xss = xs # xss'" "key_bytes h k = Some xs" "map (key_bytes h) ks' = map Some xss'"
      using Cons.prems(3) by (cases xss) auto
    have b: "buffer_ok h b" "\<forall>c \<in> set bufs. apart b c" "\<forall>c \<in> set bufs. apart c b" "keys_apart h bufs (k # ks')"
      "\<forall>k \<in> set (k # ks'). block_of b \<noteq> src_block k"
      using Cons.prems(2) ks by auto
    obtain h1 b1 where a: "ByteBuffer_Append h (ByteBuffer_Reset b) (ba_data k) (ba_len k) = Some (h1, b1, length xs \<le> unat (bb_len b))"
      "heap_ok h1" "buffer_ok h1 b1" "bb_array b1 = bb_array b" "only_block h h1 b"
      "contents h1 b1 = (if length xs \<le> unat (bb_len b) then xs else [])"
    proof (rule append_to_empty [OF Cons.prems(1) b(1) xss(2) [unfolded key_bytes_def]])
      show "block_of b \<noteq> src_block k" using b(5) by simp
    qed (use contents_Reset [OF b(1)] in auto)
    have "map (key_bytes h1) ks' = map (key_bytes h) ks'"
    proof (rule map_cong [OF refl])
      fix k' assume "k' \<in> set ks'"
      then have "block_of b \<noteq> src_block k'" using b(5) by simp
      then show "key_bytes h1 k' = key_bytes h k'"
        using a(5) by (auto simp: key_bytes_def only_block_def load_bytes_def src_block_def split: ptr.splits)
    qed
    then have m1: "map (key_bytes h1) ks' = map Some xss'" using xss(3) by simp
    have "keys_apart h1 bufs ks'" using keys_apart_frame [OF keys_apart_tl [OF b(4)] a(5) b(3)] .
    then obtain h2 bufs' where r: "copy_keys h1 bufs ks' = Some (h2, bufs', \<exists>(b, xs) \<in> set (zip bufs xss'). unat (bb_len b) < length xs)"
      "length bufs' = length bufs" "drop (length xss') bufs' = drop (length xss') bufs"
      "\<forall>c. (\<forall>b \<in> set bufs. block_of b \<noteq> Some c) \<longrightarrow> h2 c = h1 c"
      "\<forall>i < min (length bufs) (length xss'). key_slot h2 (bufs ! i) (bufs' ! i) (xss' ! i)"
      using Cons.IH [OF a(2) _ m1] by blast
    obtain blk where blk: "block_of b1 = Some blk" "block_of b = Some blk"
      using a(3,4) by (auto simp: block_of_def elim!: buffer_okE)
    have "\<forall>c \<in> set bufs. block_of c \<noteq> Some blk" using b(3) blk(2) by (auto simp: apart_def)
    then have "h2 blk = h1 blk" using r(4) by simp
    then have "buffer_ok h2 b1 = buffer_ok h1 b1" "contents h2 b1 = contents h1 b1"
      using blk(1) by (auto simp: buffer_ok_def contents_def load_bytes_def block_of_def split: ptr.splits)
    then have s0: "key_slot h2 b b1 xs" using a(3,4,6) by (simp add: key_slot_def)
    have "key_slot h2 ((b # bufs) ! i) ((b1 # bufs') ! i) (xss ! i)" if "i < min (length (b # bufs)) (length xss)" for i
      using that s0 r(5) by (cases i) (auto simp: xss(1))
    moreover have "h2 c = h c" if "\<forall>b \<in> set (b # bufs). block_of b \<noteq> Some c" for c
      using that r(4) a(5) by (simp add: only_block_def)
    moreover have "copy_keys h (b # bufs) ks = Some (h2, b1 # bufs', \<exists>(b, xs) \<in> set (zip (b # bufs) xss). unat (bb_len b) < length xs)"
      using a(1) r(1) by (simp add: ks xss(1)) linarith
    ultimately show ?thesis using r(2,3) xss(1) by (intro exI [of _ h2] exI [of _ "b1 # bufs'"]) simp
  qed
qed

text \<open>The keys of a range response are copied into the client's buffers in order, one key to a
  buffer; a key too long for its buffer leaves it empty and the copy reports failure, and the buffers
  beyond the last key keep what they had. The count of keys reported to the client is the number the device sent, which
  exceeds the number of buffers when the device sent more keys than the client has room for.\<close>

theorem key_range_reaches_buffers:
  assumes "heap_ok h" "bba_buffers keys \<noteq> []" "keys_apart h (bba_buffers keys) (rg_keys rng)"
    "map (key_bytes h) (rg_keys rng) = map Some xss"
  shows "\<exists>h' keys'. Copy_Range_to_ByteBufferArray h (Some rng) keys =
      Some (h', keys', \<forall>(b, xs) \<in> set (zip (bba_buffers keys) xss). length xs \<le> unat (bb_len b)) \<and>
    (\<forall>i < min (length (bba_buffers keys)) (length xss). key_slot h' (bba_buffers keys ! i) (bba_buffers keys' ! i) (xss ! i)) \<and>
    length (bba_buffers keys') = length (bba_buffers keys) \<and>
    drop (length xss) (bba_buffers keys') = drop (length xss) (bba_buffers keys) \<and>
    bba_used keys' = length xss \<and> (bba_used keys' \<le> length (bba_buffers keys') \<longleftrightarrow> length xss \<le> length (bba_buffers keys))"
proof -
  have "length (rg_keys rng) = length xss" using assms(4) by (metis length_map)
  moreover obtain h' bufs' where "copy_keys h (bba_buffers keys) (rg_keys rng) =
      Some (h', bufs', \<exists>(b, xs) \<in> set (zip (bba_buffers keys) xss). unat (bb_len b) < length xs)"
    "length bufs' = length (bba_buffers keys)" "drop (length xss) bufs' = drop (length xss) (bba_buffers keys)"
    "\<forall>i < min (length (bba_buffers keys)) (length xss). key_slot h' (bba_buffers keys ! i) (bufs' ! i) (xss ! i)"
    using copy_keys_slots [OF assms(1,3,4)] by blast
  moreover have "(\<not> (\<exists>(b, xs) \<in> set (zip (bba_buffers keys) xss). unat (bb_len b) < length xs)) =
      (\<forall>(b, xs) \<in> set (zip (bba_buffers keys) xss). length xs \<le> unat (bb_len b))"
    by (auto simp: not_less)
  ultimately show ?thesis using assms(2) by (simp add: Copy_Range_to_ByteBufferArray_def)
qed

definition ex_range :: Range where
  "ex_range = \<lparr>rg_has_startkey = False, rg_startkey = BYTE_ARRAY_NONE, rg_has_endkey = False, rg_endkey = BYTE_ARRAY_NONE,
     rg_has_startkeyinclusive = False, rg_startkeyinclusive = False, rg_has_endkeyinclusive = False, rg_endkeyinclusive = False,
     rg_has_maxreturned = False, rg_maxreturned = 0, rg_has_reverse = False, rg_reverse = False,
     rg_keys = [\<lparr>ba_len = 2, ba_data = Ptr 2 0\<rparr>, \<lparr>ba_len = 1, ba_data = Ptr 2 2\<rparr>]\<rparr>"

definition ex_keys :: ByteBufferArray where
  "ex_keys = \<lparr>bba_buffers = [\<lparr>bb_array = \<lparr>ba_len = 2, ba_data = Ptr 0 0\<rparr>, bytesUsed = 1\<rparr>], bba_used = 0\<rparr>"

theorem key_range_reaches_buffers_witness:
  "\<exists>h' keys'. Copy_Range_to_ByteBufferArray ex_entry_heap (Some ex_range) ex_keys = Some (h', keys', True) \<and>
     key_slot h' (bba_buffers ex_keys ! 0) (bba_buffers keys' ! 0) [7, 8] \<and>
     bba_used keys' = 2 \<and> length (bba_buffers keys') = 1"
proof -
  have h: "heap_ok ex_entry_heap" by (auto simp: heap_ok_def ex_entry_heap_def)
  have k: "bba_buffers ex_keys \<noteq> []" "keys_apart ex_entry_heap (bba_buffers ex_keys) (rg_keys ex_range)"
    by (simp_all add: ex_keys_def ex_range_def ex_entry_heap_def buffer_ok_def block_of_def src_block_def)
  have m: "map (key_bytes ex_entry_heap) (rg_keys ex_range) = map Some [[7, 8], [9]]"
    by (simp add: ex_range_def key_bytes_def load_bytes_def ex_entry_heap_def)
  have l: "length (bba_buffers ex_keys) = 1" "\<forall>(b, xs) \<in> set (zip (bba_buffers ex_keys) [[7, 8], [9 :: u8]]). length xs \<le> unat (bb_len b)"
    by (simp_all add: ex_keys_def)
  show ?thesis using key_range_reaches_buffers [OF h k m] l by auto
qed

end
