(* ===== verification/Pdu.thy ===== *)
theory Pdu
  imports Nbo Bus_Types
begin

text \<open>
  Framing of protocol data units: \<^verbatim>\<open>KineticRequest_PackMessage\<close> (\<^verbatim>\<open>kinetic_request.c\<close>) puts a
  nine-byte header, the protobuf and the value together; the bus callbacks \<^verbatim>\<open>sink_cb\<close> and
  \<^verbatim>\<open>unpack_cb\<close> (\<^verbatim>\<open>kinetic_bus.c\<close>) take the byte stream apart again. Packing and unpacking of
  protobuf messages is generated code and enters as parameters. An access outside a
  buffer, a null dereference or a failed assertion is \<open>None\<close>.
\<close>

section \<open>Data\<close>

record KineticPDUHeader =
  versionPrefix :: u8
  protobufLength :: u32
  valueLength :: u32

datatype unpack_error =
    UNPACK_ERROR_UNDEFINED | UNPACK_ERROR_SUCCESS | UNPACK_ERROR_INVALID_HEADER | UNPACK_ERROR_PAYLOAD_MALLOC_FAIL

fun unpack_error_code :: "unpack_error \<Rightarrow> nat" where
  "unpack_error_code UNPACK_ERROR_UNDEFINED = 0"
| "unpack_error_code UNPACK_ERROR_SUCCESS = 1"
| "unpack_error_code UNPACK_ERROR_INVALID_HEADER = 2"
| "unpack_error_code UNPACK_ERROR_PAYLOAD_MALLOC_FAIL = 3"

datatype socket_state = STATE_UNINIT | STATE_AWAITING_HEADER | STATE_AWAITING_BODY

record socket_info =
  si_state :: socket_state
  si_header :: KineticPDUHeader
  si_unpack_status :: unpack_error
  si_accumulated :: size_t
  si_buf :: "u8 list"

definition PDU_HEADER_LEN :: nat where "PDU_HEADER_LEN = 9"
definition PDU_PROTO_MAX_LEN :: nat where "PDU_PROTO_MAX_LEN = 1024 * 1024"

definition zero_header :: KineticPDUHeader where
  "zero_header = \<lparr>versionPrefix = 0, protobufLength = 0, valueLength = 0\<rparr>"

text \<open>A new record: \<^verbatim>\<open>calloc(1, sizeof(socket_info) + 2 * PDU_PROTO_MAX_LEN)\<close>.\<close>

definition new_socket_info :: socket_info where
  "new_socket_info = \<lparr>si_state = STATE_UNINIT, si_header = zero_header, si_unpack_status = UNPACK_ERROR_UNDEFINED,
     si_accumulated = 0, si_buf = replicate (2 * PDU_PROTO_MAX_LEN) 0\<rparr>"

text \<open>A 32-bit integer as the host reads it from memory.\<close>

definition load_u32 :: "bool \<Rightarrow> u8 list \<Rightarrow> u32" where
  "load_u32 little bs = of_nat (be_val (if little then rev bs else bs))"

section \<open>Packing\<close>

text \<open>\<open>proto\<close> is the protobuf as packed, \<open>psize\<close> what \<^verbatim>\<open>get_packed_size\<close> says.\<close>

definition KineticRequest_PackMessage :: "bool \<Rightarrow> u8 list \<Rightarrow> size_t \<Rightarrow> u8 list \<Rightarrow> bool \<Rightarrow> u8 list option option" where
  "KineticRequest_PackMessage little proto psize value malloc_ok =
     (let plen = (ucast psize :: u32);
          vlen = (of_nat (length value) :: u32);
          total = PDU_HEADER_LEN + unat plen + unat vlen
      in if \<not> malloc_ok then Some None
         else do {
           let hdr = 0x46 # host_bytes little 4 (unat (KineticNBO_FromHostU32 little plen))
                       @ host_bytes little 4 (unat (KineticNBO_FromHostU32 little vlen));
           c_assert (PDU_HEADER_LEN + length proto \<le> total);
           c_assert (length proto = unat plen);
           let msg = hdr @ proto @ (if vlen > 0 then value else []);
           c_assert (length msg = total);
           Some (Some msg) })"

section \<open>The sink\<close>

definition reset_transfer :: "socket_info \<Rightarrow> socket_info" where
  "reset_transfer si = si\<lparr>si_state := STATE_AWAITING_HEADER, si_accumulated := 0,
     si_unpack_status := UNPACK_ERROR_UNDEFINED, si_header := zero_header\<rparr>"

definition unpack_header :: "bool \<Rightarrow> u8 list \<Rightarrow> nat \<Rightarrow> KineticPDUHeader option" where
  "unpack_header little read_buf read_size =
     (if read_size \<noteq> PDU_HEADER_LEN then None
      else
        let plen = KineticNBO_ToHostU32 little (load_u32 little (take 4 (drop 1 read_buf)));
            vlen = KineticNBO_ToHostU32 little (load_u32 little (take 4 (drop 5 read_buf)))
        in if unat plen \<le> PDU_PROTO_MAX_LEN \<and> unat vlen \<le> PDU_PROTO_MAX_LEN
           then Some \<lparr>versionPrefix = read_buf ! 0, protobufLength = plen, valueLength = vlen\<rparr>
           else None)"

text \<open>Copies the bytes read behind those accumulated.\<close>

definition accumulate :: "socket_info \<Rightarrow> u8 list \<Rightarrow> socket_info option" where
  "accumulate si bs =
     (let a = unat (si_accumulated si) in
      if a + length bs \<le> length (si_buf si)
      then Some (si\<lparr>si_buf := splice_at (si_buf si) a bs, si_accumulated := si_accumulated si + of_nat (length bs)\<rparr>)
      else None)"

text \<open>Result: the new state, the size of the next read, and the record itself if it holds a
  full message. The amount still to read is a \<^verbatim>\<open>uint32_t\<close>.\<close>

definition sink_cb :: "bool \<Rightarrow> socket_info \<Rightarrow> u8 list \<Rightarrow> (socket_info \<times> size_t \<times> socket_info option) option" where
  "sink_cb little si bs =
     (case si_state si of
        STATE_UNINIT \<Rightarrow>
          do { c_assert (bs = []); Some (reset_transfer si, of_nat PDU_HEADER_LEN, None) }
      | STATE_AWAITING_HEADER \<Rightarrow>
          do { si1 \<leftarrow> accumulate si bs;
               let remaining = (ucast (of_nat PDU_HEADER_LEN - si_accumulated si1) :: u32);
               if remaining = 0 then
                 (case unpack_header little (si_buf si1) PDU_HEADER_LEN of
                    Some h \<Rightarrow>
                      let si2 = si1\<lparr>si_header := h, si_accumulated := 0, si_unpack_status := UNPACK_ERROR_SUCCESS,
                                    si_state := STATE_AWAITING_BODY\<rparr>
                      in Some (si2, ucast (protobufLength h + valueLength h), None)
                  | None \<Rightarrow>
                      let si2 = si1\<lparr>si_accumulated := 0, si_unpack_status := UNPACK_ERROR_INVALID_HEADER,
                                    si_state := STATE_AWAITING_HEADER\<rparr>
                      in Some (si2, of_nat PDU_HEADER_LEN, Some si2))
               else Some (si1, ucast remaining, None) }
      | STATE_AWAITING_BODY \<Rightarrow>
          do { si1 \<leftarrow> accumulate si bs;
               let h = si_header si1;
               let remaining = (ucast (ucast (protobufLength h + valueLength h) - si_accumulated si1 :: size_t) :: u32);
               if remaining = 0 then
                 let si2 = si1\<lparr>si_state := STATE_AWAITING_HEADER, si_accumulated := 0\<rparr>
                 in Some (si2, of_nat PDU_HEADER_LEN, Some si2)
               else Some (si1, ucast remaining, None) })"

section \<open>Header bytes\<close>

definition be4 :: "u32 \<Rightarrow> u8 list" where
  "be4 v = rev (le_bytes 4 (unat v))"

definition header_bytes :: "KineticPDUHeader \<Rightarrow> u8 list" where
  "header_bytes h = versionPrefix h # be4 (protobufLength h) @ be4 (valueLength h)"

lemma length_be4 [simp]: "length (be4 v) = 4"
  by (simp add: be4_def)

lemma length_header_bytes [simp]: "length (header_bytes h) = PDU_HEADER_LEN"
  by (simp add: header_bytes_def PDU_HEADER_LEN_def)

lemma FromHost_bytes: "host_bytes little 4 (unat (KineticNBO_FromHostU32 little v)) = be4 v"
  by (simp add: FromHost_val swapped_host_bytes be4_def)

lemma ToHost_load:
  assumes "length bs = 4"
  shows "unat (KineticNBO_ToHostU32 little (load_u32 little bs)) = be_val bs"
proof -
  let ?cs = "if little then rev bs else bs"
  have "be_val ?cs < 2 ^ 32" using be_val_less [of ?cs] assms by (cases little) simp_all
  then have u: "unat (load_u32 little bs) = be_val ?cs" by (simp add: load_u32_def unat_of_nat)
  have "le_bytes 4 (be_val ?cs) = rev ?cs" using le_bytes_be_val [of ?cs] assms by (cases little) simp_all
  then have "host_bytes little 4 (unat (load_u32 little bs)) = bs" unfolding u host_bytes_def by (cases little) simp_all
  then show ?thesis by (simp add: ToHost_FromHost FromHost_val)
qed

lemma ToHost_be4: "KineticNBO_ToHostU32 little (load_u32 little (be4 v)) = v"
proof -
  have "be_val (be4 v) = unat v" using unat_lt_32 [of v] by (simp add: be4_def be_val_rev_le_bytes)
  then show ?thesis using ToHost_load [of "be4 v" little] by (simp add: word_unat_eq_iff)
qed

definition header_ok :: "KineticPDUHeader \<Rightarrow> bool" where
  "header_ok h \<longleftrightarrow> unat (protobufLength h) \<le> PDU_PROTO_MAX_LEN \<and> unat (valueLength h) \<le> PDU_PROTO_MAX_LEN"

lemma unpack_header_bytes:
  assumes "take PDU_HEADER_LEN buf = header_bytes h"
  shows "unpack_header little buf PDU_HEADER_LEN = (if header_ok h then Some h else None)"
proof -
  obtain rest where buf: "buf = header_bytes h @ rest" using assms by (metis append_take_drop_id)
  have "take 4 (drop 1 buf) = be4 (protobufLength h)" "take 4 (drop 5 buf) = be4 (valueLength h)" "buf ! 0 = versionPrefix h"
    by (simp_all add: buf header_bytes_def)
  then show ?thesis by (simp add: unpack_header_def ToHost_be4 Let_def header_ok_def)
qed

section \<open>Streams\<close>

text \<open>A unit is a header with a body of the length it announces, which must not be empty.\<close>

type_synonym pdu = "KineticPDUHeader \<times> u8 list"

definition body_len :: "KineticPDUHeader \<Rightarrow> nat" where
  "body_len h = unat (protobufLength h) + unat (valueLength h)"

definition pdu_ok :: "pdu \<Rightarrow> bool" where
  "pdu_ok p \<longleftrightarrow> header_ok (fst p) \<and> length (snd p) = body_len (fst p) \<and> 0 < body_len (fst p)"

definition stream_of :: "pdu list \<Rightarrow> u8 list" where
  "stream_of ps = concat (map (\<lambda>(h, body). header_bytes h @ body) ps)"

lemma stream_of_simps [simp]: "stream_of [] = []" "stream_of ((h, body) # ps) = header_bytes h @ body @ stream_of ps"
  by (simp_all add: stream_of_def)

text \<open>The unit a full record holds: its header, its protobuf and its value.\<close>

definition unit_of :: "socket_info \<Rightarrow> KineticPDUHeader \<times> u8 list \<times> u8 list" where
  "unit_of si = (let h = si_header si; p = unat (protobufLength h) in
     (h, take p (si_buf si), take (unat (valueLength h)) (drop p (si_buf si))))"

text \<open>The listener's reads: each takes between one byte and the size asked for, as the socket has
  them; \<open>ks\<close> says how many the socket has at each read. Result: the units received.\<close>

fun run_sink ::
  "bool \<Rightarrow> nat list \<Rightarrow> socket_info \<Rightarrow> size_t \<Rightarrow> u8 list \<Rightarrow> ((KineticPDUHeader \<times> u8 list \<times> u8 list) list \<times> socket_info) option" where
  "run_sink little ks si next_read [] = Some ([], si)"
| "run_sink little [] si next_read (b # bs) = None"
| "run_sink little (k # ks) si next_read (b # bs) =
     (let n = min (Suc k) (unat next_read) in
      do { (si1, next1, full) \<leftarrow> sink_cb little si (take n (b # bs));
           (ms, si2) \<leftarrow> run_sink little ks si1 next1 (drop n (b # bs));
           Some ((if full = None then ms else unit_of si1 # ms), si2) })"

section \<open>Staying in step with the stream\<close>

definition sync :: "socket_info \<Rightarrow> size_t \<Rightarrow> pdu list \<Rightarrow> u8 list \<Rightarrow> bool" where
  "sync si next_read ps bs \<longleftrightarrow> length (si_buf si) = 2 * PDU_PROTO_MAX_LEN \<and> (\<forall>p \<in> set ps. pdu_ok p) \<and>
     (let a = unat (si_accumulated si) in
      si_state si = STATE_AWAITING_HEADER \<and> a + unat next_read = PDU_HEADER_LEN \<and> 0 < unat next_read \<and>
        take a (si_buf si) @ bs = stream_of ps \<or>
      si_state si = STATE_AWAITING_BODY \<and> si_unpack_status si = UNPACK_ERROR_SUCCESS \<and>
        (\<exists>body ps'. ps = (si_header si, body) # ps' \<and> a + unat next_read = body_len (si_header si) \<and>
           0 < unat next_read \<and> take a (si_buf si) @ bs = body @ stream_of ps'))"

lemma accumulate_prefix:
  assumes "length (si_buf si) = 2 * PDU_PROTO_MAX_LEN" "unat (si_accumulated si) + length bs \<le> 2 * PDU_PROTO_MAX_LEN"
  obtains si' where "accumulate si bs = Some si'" "unat (si_accumulated si') = unat (si_accumulated si) + length bs"
    "length (si_buf si') = 2 * PDU_PROTO_MAX_LEN"
    "take (unat (si_accumulated si) + length bs) (si_buf si') = take (unat (si_accumulated si)) (si_buf si) @ bs"
    "si_state si' = si_state si" "si_header si' = si_header si" "si_unpack_status si' = si_unpack_status si"
proof
  let ?a = "unat (si_accumulated si)"
  let ?si = "si\<lparr>si_buf := splice_at (si_buf si) ?a bs, si_accumulated := si_accumulated si + of_nat (length bs)\<rparr>"
  show "accumulate si bs = Some ?si" using assms by (simp add: accumulate_def Let_def)
  have "unat (of_nat (length bs) :: size_t) = length bs"
    by (rule unat_of_nat_small) (use assms(2) in \<open>simp add: PDU_PROTO_MAX_LEN_def\<close>)
  then show "unat (si_accumulated ?si) = ?a + length bs"
    using unat_add_no_wrap [of "si_accumulated si" "of_nat (length bs)"] assms(2) by (simp add: PDU_PROTO_MAX_LEN_def)
  show "take (?a + length bs) (si_buf ?si) = take ?a (si_buf si) @ bs"
    using take_drop_splice_prefix [of 0 ?a bs "si_buf si"] assms by simp
qed (use assms in simp_all)

lemma unat_ucast_u32_64: "unat (ucast (r :: u32) :: size_t) = unat r"
  using unat_lt_32 [of r] by (simp add: unsigned_ucast_eq take_bit_nat_eq_self)

lemma body_len_bound: "header_ok h \<Longrightarrow> body_len h \<le> 2 * PDU_PROTO_MAX_LEN"
  by (simp add: header_ok_def body_len_def)

lemma unat_body_len:
  assumes "header_ok h"
  shows "unat (protobufLength h + valueLength h) = body_len h"
  unfolding body_len_def
  by (rule unat_add_no_wrap) (use body_len_bound [OF assms] in \<open>simp add: body_len_def PDU_PROTO_MAX_LEN_def\<close>)

text \<open>The amount still to read, in the code's arithmetic.\<close>

lemma remaining_eq:
  assumes "unat a \<le> n" "n \<le> 2 * PDU_PROTO_MAX_LEN" "unat t = n"
  shows "unat (ucast (t - a :: size_t) :: u32) = n - unat a"
proof -
  have "unat (t - a) = n - unat a" using assms by (simp add: unat_sub_le word_le_nat_alt)
  then show ?thesis using assms(2) unat_ucast_32 [of "t - a"] by (simp add: PDU_PROTO_MAX_LEN_def)
qed

text \<open>One read keeps step, and completes the first outstanding unit exactly when its last byte
  arrives.\<close>

definition sink_step :: "socket_info \<Rightarrow> socket_info option \<Rightarrow> pdu list \<Rightarrow> pdu list \<Rightarrow> bool" where
  "sink_step si' full ps ps' \<longleftrightarrow> (full = None \<and> ps' = ps) \<or>
     (\<exists>h body. full = Some si' \<and> ps = (h, body) # ps' \<and> si_header si' = h \<and> si_unpack_status si' = UNPACK_ERROR_SUCCESS \<and>
        take (body_len h) (si_buf si') = body)"

lemma sink_header_step:
  assumes "sync si nr ps bs" "si_state si = STATE_AWAITING_HEADER" "xs \<noteq> []" "length xs \<le> unat nr" "bs = xs @ ys"
  shows "\<exists>si' nr'. sink_cb little si xs = Some (si', nr', None) \<and> sync si' nr' ps ys"
proof -
  let ?a = "unat (si_accumulated si)"
  have a: "?a + unat nr = PDU_HEADER_LEN" "take ?a (si_buf si) @ bs = stream_of ps" "length (si_buf si) = 2 * PDU_PROTO_MAX_LEN"
    and ok: "\<forall>p \<in> set ps. pdu_ok p"
    using assms(1,2) by (auto simp: sync_def Let_def)
  obtain si1 where s1: "accumulate si xs = Some si1" "unat (si_accumulated si1) = ?a + length xs"
    "length (si_buf si1) = 2 * PDU_PROTO_MAX_LEN" "take (?a + length xs) (si_buf si1) = take ?a (si_buf si) @ xs"
    "si_state si1 = si_state si"
    by (rule accumulate_prefix [OF a(3), of xs]) (use a(1) assms(4) in \<open>auto simp: PDU_HEADER_LEN_def PDU_PROTO_MAX_LEN_def\<close>)
  have st: "take (?a + length xs) (si_buf si1) @ ys = stream_of ps" using s1(4) a(2) assms(5) by simp
  have rem: "unat (ucast (of_nat PDU_HEADER_LEN - si_accumulated si1 :: size_t) :: u32) = PDU_HEADER_LEN - (?a + length xs)"
    unfolding s1(2) [symmetric]
    by (rule remaining_eq) (use s1(2) a(1) assms(4) in \<open>simp_all add: PDU_HEADER_LEN_def PDU_PROTO_MAX_LEN_def\<close>)
  show ?thesis
  proof (cases "?a + length xs = PDU_HEADER_LEN")
    case False
    then have "?a + length xs < PDU_HEADER_LEN" using a(1) assms(4) by linarith
    moreover have "unat (ucast (ucast (of_nat PDU_HEADER_LEN - si_accumulated si1 :: size_t) :: u32) :: size_t) = PDU_HEADER_LEN - (?a + length xs)"
      using rem by (simp only: unat_ucast_u32_64)
    moreover from calculation have "ucast (of_nat PDU_HEADER_LEN - si_accumulated si1 :: size_t) \<noteq> (0 :: u32)"
      using rem by auto
    ultimately show ?thesis using s1 assms(2) st ok by (simp add: sink_cb_def sync_def Let_def)
  next
    case True
    have "stream_of ps \<noteq> []" using st True s1(3) by (auto simp: PDU_HEADER_LEN_def PDU_PROTO_MAX_LEN_def)
    then obtain h body ps' where ps: "ps = (h, body) # ps'" by (cases ps) auto
    have "take PDU_HEADER_LEN (si_buf si1) = header_bytes h" "ys = body @ stream_of ps'"
    proof -
      have "take PDU_HEADER_LEN (si_buf si1) @ ys = header_bytes h @ body @ stream_of ps'" using st True ps by simp
      moreover have "length (take PDU_HEADER_LEN (si_buf si1)) = length (header_bytes h)"
        using s1(3) by (simp add: PDU_HEADER_LEN_def PDU_PROTO_MAX_LEN_def)
      ultimately show "take PDU_HEADER_LEN (si_buf si1) = header_bytes h" "ys = body @ stream_of ps'" by simp_all
    qed
    moreover have h: "header_ok h" "0 < body_len h" using ok ps by (auto simp: pdu_ok_def)
    ultimately have u: "unpack_header little (si_buf si1) PDU_HEADER_LEN = Some h" "ys = body @ stream_of ps'"
      using unpack_header_bytes by simp_all
    have "ucast (of_nat PDU_HEADER_LEN - si_accumulated si1 :: size_t) = (0 :: u32)"
      using rem True by (simp add: unat_eq_0)
    moreover have "unat (ucast (protobufLength h + valueLength h) :: size_t) = body_len h"
      using unat_body_len [OF h(1)] by (simp only: unat_ucast_u32_64)
    ultimately show ?thesis using s1 assms(2) u ok ps h(2) by (simp add: sink_cb_def sync_def Let_def)
  qed
qed

lemma sink_body_step:
  assumes "sync si nr ps bs" "si_state si = STATE_AWAITING_BODY" "xs \<noteq> []" "length xs \<le> unat nr" "bs = xs @ ys"
  shows "\<exists>si' nr' full ps'. sink_cb little si xs = Some (si', nr', full) \<and> sync si' nr' ps' ys \<and> sink_step si' full ps ps'"
proof -
  let ?a = "unat (si_accumulated si)" and ?h = "si_header si"
  obtain body ps' where ps: "ps = (?h, body) # ps'" and a: "?a + unat nr = body_len ?h" "take ?a (si_buf si) @ bs = body @ stream_of ps'"
    "length (si_buf si) = 2 * PDU_PROTO_MAX_LEN" and ok: "\<forall>p \<in> set ps. pdu_ok p" "si_unpack_status si = UNPACK_ERROR_SUCCESS"
    using assms(1,2) by (auto simp: sync_def Let_def)
  have h: "header_ok ?h" "length body = body_len ?h" using ok(1) ps by (auto simp: pdu_ok_def)
  note len = body_len_bound [OF h(1)]
  obtain si1 where s1: "accumulate si xs = Some si1" "unat (si_accumulated si1) = ?a + length xs"
    "length (si_buf si1) = 2 * PDU_PROTO_MAX_LEN" "take (?a + length xs) (si_buf si1) = take ?a (si_buf si) @ xs"
    "si_state si1 = si_state si" "si_header si1 = ?h" "si_unpack_status si1 = si_unpack_status si"
    by (rule accumulate_prefix [OF a(3), of xs]) (use a(1) assms(4) len in auto)
  have st: "take (?a + length xs) (si_buf si1) @ ys = body @ stream_of ps'" using s1(4) a(2) assms(5) by simp
  let ?rem = "ucast (ucast (protobufLength ?h + valueLength ?h) - si_accumulated si1 :: size_t) :: u32"
  have t: "unat (ucast (protobufLength ?h + valueLength ?h) :: size_t) = body_len ?h"
    using unat_body_len [OF h(1)] by (simp only: unat_ucast_u32_64)
  have rem: "unat ?rem = body_len ?h - (?a + length xs)"
    unfolding s1(2) [symmetric] by (rule remaining_eq [OF _ len t]) (use s1(2) a(1) assms(4) in simp)
  show ?thesis
  proof (cases "?a + length xs = body_len ?h")
    case False
    then have lt: "?a + length xs < body_len ?h" using a(1) assms(4) by linarith
    then have "?rem \<noteq> 0" using rem by auto
    moreover have "unat (ucast ?rem :: size_t) = body_len ?h - (?a + length xs)"
      using rem by (simp only: unat_ucast_u32_64)
    ultimately have "sink_cb little si xs = Some (si1, ucast ?rem, None)" "sync si1 (ucast ?rem) ps ys"
      using s1 assms(2) st ok ps lt by (simp_all add: sink_cb_def sync_def Let_def)
    then show ?thesis unfolding sink_step_def by blast
  next
    case True
    then have "?rem = 0" using rem by (simp add: unat_eq_0)
    moreover have "take (body_len ?h) (si_buf si1) = body" "ys = stream_of ps'"
    proof -
      have "length (take (body_len ?h) (si_buf si1)) = length body" using len s1(3) h(2) by simp
      then show "take (body_len ?h) (si_buf si1) = body" "ys = stream_of ps'" using st True by simp_all
    qed
    ultimately show ?thesis
      using s1 assms(2) ok ps
      by (intro exI [of _ "si1\<lparr>si_state := STATE_AWAITING_HEADER, si_accumulated := 0\<rparr>"] exI [of _ "of_nat PDU_HEADER_LEN"] exI)
        (auto simp: sink_cb_def sync_def Let_def sink_step_def PDU_HEADER_LEN_def)
  qed
qed

lemma sink_keeps_step:
  assumes "sync si nr ps bs" "xs \<noteq> []" "length xs \<le> unat nr" "bs = xs @ ys"
  shows "\<exists>si' nr' full ps'. sink_cb little si xs = Some (si', nr', full) \<and> sync si' nr' ps' ys \<and> sink_step si' full ps ps'"
proof (cases "si_state si")
  case STATE_AWAITING_HEADER
  then show ?thesis using sink_header_step [OF assms(1) _ assms(2-4), of little] by (auto simp: sink_step_def)
next
  case STATE_AWAITING_BODY
  then show ?thesis by (rule sink_body_step [OF assms(1) _ assms(2-4)])
qed (use assms(1) in \<open>auto simp: sync_def Let_def\<close>)

definition split_unit :: "pdu \<Rightarrow> KineticPDUHeader \<times> u8 list \<times> u8 list" where
  "split_unit p = (fst p, take (unat (protobufLength (fst p))) (snd p), drop (unat (protobufLength (fst p))) (snd p))"

lemma sync_all_read:
  assumes "sync si nr ps []"
  shows "ps = []"
proof (cases ps)
  case (Cons p ps')
  obtain h body where p: "p = (h, body)" by fastforce
  let ?a = "unat (si_accumulated si)"
  have l: "length (take ?a (si_buf si)) \<le> ?a" by simp
  from assms consider "?a < PDU_HEADER_LEN" "take ?a (si_buf si) = stream_of ps"
    | body' where "?a < body_len h" "length body' = body_len h" "take ?a (si_buf si) = body' @ stream_of ps'"
    using Cons p by (auto simp: sync_def Let_def pdu_ok_def)
  then show ?thesis
  proof cases
    case 1
    then show ?thesis using l Cons p by simp
  next
    case 2
    then show ?thesis using l by simp
  qed
qed

lemma unit_of_step:
  assumes "sink_step si' (Some m) ps ps'"
  shows "\<exists>p. ps = p # ps' \<and> unit_of si' = split_unit p"
proof -
  from assms obtain h body where s: "ps = (h, body) # ps'" "si_header si' = h" "take (body_len h) (si_buf si') = body"
    by (auto simp: sink_step_def)
  have "take (unat (protobufLength h)) (si_buf si') = take (unat (protobufLength h)) body"
    by (simp add: s(3) [symmetric] body_len_def min_def)
  moreover have "take (unat (valueLength h)) (drop (unat (protobufLength h)) (si_buf si')) = drop (unat (protobufLength h)) body"
    by (simp add: s(3) [symmetric] body_len_def drop_take)
  ultimately show ?thesis using s(1,2) by (simp add: unit_of_def split_unit_def Let_def)
qed

lemma run_sink_units:
  assumes "sync si nr ps bs" "length bs \<le> length ks"
  shows "\<exists>si'. run_sink little ks si nr bs = Some (map split_unit ps, si')"
  using assms
proof (induction ks arbitrary: si nr ps bs)
  case Nil
  then show ?case using sync_all_read [of si nr ps] by simp
next
  case (Cons k ks)
  show ?case
  proof (cases bs)
    case Nil
    then show ?thesis using sync_all_read [of si nr ps] Cons.prems(1) by simp
  next
    case bs: (Cons b bs')
    let ?n = "min (Suc k) (unat nr)"
    have n: "0 < ?n" using Cons.prems(1) by (auto simp: sync_def Let_def)
    then obtain m where m: "?n = Suc m" by (cases ?n) auto
    have "take ?n bs \<noteq> []" "length (take ?n bs) \<le> unat nr" using bs m by auto
    then obtain si' nr' full ps' where s: "sink_cb little si (take ?n bs) = Some (si', nr', full)" "sync si' nr' ps' (drop ?n bs)"
      "sink_step si' full ps ps'"
      using sink_keeps_step [OF Cons.prems(1), of "take ?n bs" "drop ?n bs" little] by auto
    have "length (drop ?n bs) \<le> length ks" using Cons.prems(2) bs m by simp
    then obtain si2 where r: "run_sink little ks si' nr' (drop ?n bs) = Some (map split_unit ps', si2)"
      using Cons.IH [OF s(2)] by blast
    have "map split_unit ps = (if full = None then map split_unit ps' else unit_of si' # map split_unit ps')"
    proof (cases full)
      case None
      then show ?thesis using s(3) by (simp add: sink_step_def)
    next
      case (Some m')
      then show ?thesis using unit_of_step [of si' m' ps ps'] s(3) by auto
    qed
    then show ?thesis using s(1) r unfolding bs by (simp add: Let_def del: take_Suc_Cons drop_Suc_Cons)
  qed
qed

section \<open>Packed messages\<close>

definition header_of :: "u8 list \<Rightarrow> u8 list \<Rightarrow> KineticPDUHeader" where
  "header_of proto value = \<lparr>versionPrefix = 0x46, protobufLength = of_nat (length proto), valueLength = of_nat (length value)\<rparr>"

definition message_fits :: "u8 list \<times> u8 list \<Rightarrow> bool" where
  "message_fits m \<longleftrightarrow> length (fst m) \<le> PDU_PROTO_MAX_LEN \<and> length (snd m) \<le> PDU_PROTO_MAX_LEN \<and> 0 < length (fst m) + length (snd m)"

lemma unat_small_length:
  assumes "n \<le> PDU_PROTO_MAX_LEN"
  shows "unat (of_nat n :: u32) = n" "ucast (of_nat n :: size_t) = (of_nat n :: u32)"
proof -
  have n: "n < 2 ^ 32" "n < 2 ^ 64" using assms by (simp_all add: PDU_PROTO_MAX_LEN_def)
  show u: "unat (of_nat n :: u32) = n" by (rule unat_of_nat_small) (use n(1) in simp)
  have "unat (of_nat n :: size_t) = n" by (rule unat_of_nat_small) (use n(2) in simp)
  then show "ucast (of_nat n :: size_t) = (of_nat n :: u32)"
    using n(1) u unat_ucast_32 [of "of_nat n :: size_t"] by (simp add: word_unat_eq_iff)
qed

lemma PackMessage_bytes:
  assumes "message_fits (proto, value)"
  shows "KineticRequest_PackMessage little proto (of_nat (length proto)) value True =
    Some (Some (header_bytes (header_of proto value) @ proto @ value))"
proof -
  have "unat (of_nat (length proto) :: u32) = length proto" "unat (of_nat (length value) :: u32) = length value"
    "ucast (of_nat (length proto) :: size_t) = (of_nat (length proto) :: u32)"
    using assms by (simp_all add: message_fits_def unat_small_length)
  moreover from this have "(of_nat (length value) :: u32) > 0 \<or> value = []" by (auto simp: word_less_nat_alt)
  ultimately show ?thesis
    by (auto simp: KineticRequest_PackMessage_def Let_def FromHost_bytes header_bytes_def header_of_def PDU_HEADER_LEN_def c_assert_def)
qed

definition pdu_of :: "u8 list \<times> u8 list \<Rightarrow> pdu" where
  "pdu_of m = (header_of (fst m) (snd m), fst m @ snd m)"

lemma pdu_of_ok:
  assumes "message_fits m"
  shows "pdu_ok (pdu_of m)" "split_unit (pdu_of m) = (header_of (fst m) (snd m), fst m, snd m)"
  using assms by (auto simp: message_fits_def pdu_ok_def pdu_of_def header_ok_def body_len_def header_of_def split_unit_def unat_small_length)

lemma init_sync:
  assumes "\<forall>p \<in> set ps. pdu_ok p"
  shows "sync (reset_transfer new_socket_info) (of_nat PDU_HEADER_LEN) ps (stream_of ps)"
  using assms by (simp add: sync_def reset_transfer_def new_socket_info_def Let_def PDU_HEADER_LEN_def)

text \<open>C14: Messages framed by \<^verbatim>\<open>KineticRequest_PackMessage\<close> and sent one after the other come out of
  the bus's sink callback as they went in: whatever the byte order of either machine and however
  the socket cuts the stream into reads, the receiver gets the same headers, protobufs and values
  in the same order, once each. Every protobuf and value is at most one megabyte, and no message is
  empty.\<close>

theorem packed_messages_survive_fragmentation:
  assumes "\<forall>m \<in> set ms. message_fits m"
  shows "\<exists>si msgs. sink_cb receiver new_socket_info [] = Some (si, of_nat PDU_HEADER_LEN, None) \<and>
    map (\<lambda>(proto, value). KineticRequest_PackMessage sender proto (of_nat (length proto)) value True) ms = map (Some \<circ> Some) msgs \<and>
    (\<forall>ks. length (concat msgs) \<le> length ks \<longrightarrow>
      (\<exists>si'. run_sink receiver ks si (of_nat PDU_HEADER_LEN) (concat msgs) =
         Some (map (\<lambda>(proto, value). (header_of proto value, proto, value)) ms, si')))"
proof -
  let ?ps = "map pdu_of ms"
  let ?msgs = "map (\<lambda>(proto, value). header_bytes (header_of proto value) @ proto @ value) ms"
  have "\<forall>p \<in> set ?ps. pdu_ok p" using assms pdu_of_ok by auto
  then have sy: "sync (reset_transfer new_socket_info) (of_nat PDU_HEADER_LEN) ?ps (stream_of ?ps)" by (rule init_sync)
  have c: "concat ?msgs = stream_of ?ps"
    by (simp add: stream_of_def pdu_of_def comp_def case_prod_unfold)
  have units: "map split_unit ?ps = map (\<lambda>(proto, value). (header_of proto value, proto, value)) ms"
    using assms pdu_of_ok by (auto simp: case_prod_unfold)
  have "map (\<lambda>(proto, value). KineticRequest_PackMessage sender proto (of_nat (length proto)) value True) ms = map (Some \<circ> Some) ?msgs"
    using assms by (auto simp: PackMessage_bytes)
  moreover have "sink_cb receiver new_socket_info [] = Some (reset_transfer new_socket_info, of_nat PDU_HEADER_LEN, None)"
    by (simp add: sink_cb_def new_socket_info_def c_assert_def)
  ultimately show ?thesis using run_sink_units [OF sy] unfolding c [symmetric] units by blast
qed

theorem packed_messages_survive_fragmentation_witness:
  "\<exists>si msgs. sink_cb True new_socket_info [] = Some (si, of_nat PDU_HEADER_LEN, None) \<and>
    map (\<lambda>(proto, value). KineticRequest_PackMessage False proto (of_nat (length proto)) value True) [([1, 2], [3]), ([4], [])]
      = map (Some \<circ> Some) msgs \<and>
    (\<exists>si'. run_sink True (replicate 22 0) si (of_nat PDU_HEADER_LEN) (concat msgs) =
         Some ([(header_of [1, 2] [3], [1, 2], [3]), (header_of [4] [], [4], [])], si'))"
proof -
  let ?ms = "[([1, 2], [3]), ([4], [])] :: (u8 list \<times> u8 list) list"
  have fits: "\<forall>m \<in> set ?ms. message_fits m" by (simp add: message_fits_def PDU_PROTO_MAX_LEN_def)
  from packed_messages_survive_fragmentation [OF fits, of True False] obtain si msgs where
    m: "sink_cb True new_socket_info [] = Some (si, of_nat PDU_HEADER_LEN, None)"
    "map (\<lambda>(proto, value). KineticRequest_PackMessage False proto (of_nat (length proto)) value True) ?ms = map (Some \<circ> Some) msgs"
    "\<forall>ks. length (concat msgs) \<le> length ks \<longrightarrow> (\<exists>si'. run_sink True ks si (of_nat PDU_HEADER_LEN) (concat msgs) =
       Some (map (\<lambda>(proto, value). (header_of proto value, proto, value)) ?ms, si'))"
    by blast
  have "msgs = [header_bytes (header_of [1, 2] [3]) @ [1, 2, 3], header_bytes (header_of [4] []) @ [4]]"
    using m(2) fits PackMessage_bytes [of "[1, 2]" "[3]" False] PackMessage_bytes [of "[4]" "[]" False] by auto
  then have "length (concat msgs) \<le> length (replicate 22 (0 :: nat))" by (simp add: PDU_HEADER_LEN_def)
  then have "\<exists>si'. run_sink True (replicate 22 0) si (of_nat PDU_HEADER_LEN) (concat msgs) =
     Some (map (\<lambda>(proto, value). (header_of proto value, proto, value)) ?ms, si')" using m(3) by blast
  then show ?thesis using m(1,2) by auto
qed

text \<open>A header whose lengths are both zero is accepted and asks for a read of zero bytes.\<close>

lemma empty_unit_next_read:
  assumes "length (si_buf si) = 2 * PDU_PROTO_MAX_LEN" "si_state si = STATE_AWAITING_HEADER" "si_accumulated si = 0"
    "protobufLength h = 0" "valueLength h = 0"
  shows "\<exists>si'. sink_cb little si (header_bytes h) = Some (si', 0, None) \<and> si_state si' = STATE_AWAITING_BODY"
proof -
  obtain si1 where s1: "accumulate si (header_bytes h) = Some si1" "unat (si_accumulated si1) = PDU_HEADER_LEN"
    "take PDU_HEADER_LEN (si_buf si1) = header_bytes h"
    using accumulate_prefix [OF assms(1), of "header_bytes h"] assms(3)
    by (auto simp: PDU_HEADER_LEN_def PDU_PROTO_MAX_LEN_def)
  have "si_accumulated si1 = of_nat PDU_HEADER_LEN" using s1(2) by (simp add: word_unat_eq_iff PDU_HEADER_LEN_def)
  then show ?thesis using s1 assms unpack_header_bytes [OF s1(3), of little]
    by (simp add: sink_cb_def Let_def header_ok_def)
qed

end
