(* ===== verification/Kinetic_Proto.thy ===== *)
theory Kinetic_Proto
  imports Kinetic_Entry Pdu
begin

text \<open>
  The protobuf messages of the Kinetic protocol as the library sees them (the structures of
  \<^verbatim>\<open>kinetic.pb-c.h\<close>), the request with its pre-allocated structures (\<^verbatim>\<open>kinetic_types_internal.h\<close>)
  and its initialisation (\<^verbatim>\<open>kinetic_types_internal.c\<close>). Byte strings the library itself allocates are
  lists, \<open>None\<close> for a null pointer; those of the caller stay pointers with a length. Log contents and ACL
  entries are opaque (\<open>'l\<close>, \<open>'a\<close>).
\<close>

section \<open>Messages\<close>

record HMACauth =
  ha_has_identity :: bool
  ha_identity :: int
  ha_has_hmac :: bool
  ha_hmac :: "u8 list option"

record PINauth =
  pa_has_pin :: bool
  pa_pin :: byte_array

record Message =
  ms_has_authtype :: bool
  ms_authtype :: AuthType
  ms_hmacauth :: "HMACauth option"
  ms_pinauth :: "PINauth option"
  ms_has_commandbytes :: bool
  ms_commandbytes :: "u8 list option"

record Header =
  hd_has_clusterversion :: bool
  hd_clusterversion :: int
  hd_has_connectionid :: bool
  hd_connectionid :: int
  hd_has_sequence :: bool
  hd_sequence :: int
  hd_has_acksequence :: bool
  hd_acksequence :: int
  hd_has_messagetype :: bool
  hd_messagetype :: KineticMessageType
  hd_has_timeout :: bool
  hd_timeout :: int
  hd_has_earlyexit :: bool
  hd_earlyexit :: bool
  hd_has_priority :: bool
  hd_priority :: Priority
  hd_has_timequanta :: bool
  hd_timequanta :: int

record Status =
  st_has_code :: bool
  st_code :: StatusCode
  st_statusmessage :: "string option"
  st_has_detailedmessage :: bool
  st_detailedmessage :: byte_array

record Setup =
  su_has_newclusterversion :: bool
  su_newclusterversion :: int
  su_has_firmwaredownload :: bool
  su_firmwaredownload :: bool

record 'a Security =
  sy_acl :: "'a list option"
  sy_has_oldlockpin :: bool
  sy_oldlockpin :: byte_array
  sy_has_newlockpin :: bool
  sy_newlockpin :: byte_array
  sy_has_olderasepin :: bool
  sy_olderasepin :: byte_array
  sy_has_newerasepin :: bool
  sy_newerasepin :: byte_array

record PinOperation =
  po_has_pinoptype :: bool
  po_pinoptype :: PinOpType

text \<open>Of a log structure a request fills the types and the device name; \<open>gl_contents\<close> is what a
  response carries.\<close>

record GetLog_Device =
  gd_has_name :: bool
  gd_name :: byte_array

record 'l GetLog =
  gl_types :: "GetLog_Type list"
  gl_device :: "GetLog_Device option"
  gl_contents :: "'l option"

section \<open>Peer-to-peer operations\<close>

record P2P_Peer =
  pp_hostname :: string
  pp_has_port :: bool
  pp_port :: int
  pp_has_tls :: bool
  pp_tls :: bool

text \<open>The data of one operation without the nested operation.\<close>

record P2P_OpData =
  pd_has_key :: bool
  pd_key :: byte_array
  pd_has_version :: bool
  pd_version :: byte_array
  pd_has_newkey :: bool
  pd_newkey :: byte_array
  pd_has_force :: bool
  pd_force :: bool
  pd_status :: "Status option"

datatype P2POperation = P2POperation P2P_Peer "(P2P_OpData \<times> P2POperation option) list"

section \<open>Commands\<close>

record ('l, 'a) Body =
  bd_keyvalue :: "KeyValue option"
  bd_range :: "Range option"
  bd_setup :: "Setup option"
  bd_p2poperation :: "P2POperation option"
  bd_getlog :: "'l GetLog option"
  bd_security :: "'a Security option"
  bd_pinop :: "PinOperation option"

record ('l, 'a) Command =
  cm_header :: "Header option"
  cm_body :: "('l, 'a) Body option"
  cm_status :: "Status option"

section \<open>Requests\<close>

text \<open>\<^verbatim>\<open>KineticMessage\<close> holds every structure a request may need; the pointers of the command and of its
  body either are null or point to these, so a flag stands for each. Only the peer-to-peer operation is
  allocated for itself.\<close>

record ('l, 'a) KineticMessage =
  mg_message :: Message
  mg_hmacData :: "u8 list"
  mg_header :: Header
  mg_status :: Status
  mg_security :: "'a Security"
  mg_keyValue :: KeyValue
  mg_keyRange :: Range
  mg_setup :: Setup
  mg_getLog :: "'l GetLog"
  mg_getLogType :: GetLog_Type
  mg_getLogDevice :: GetLog_Device
  mg_pinOp :: PinOperation
  mg_has_body :: bool
  mg_body_keyvalue :: bool
  mg_body_range :: bool
  mg_body_setup :: bool
  mg_body_getlog :: bool
  mg_body_security :: bool
  mg_body_pinop :: bool
  mg_body_p2p :: "P2POperation option"

record ('l, 'a) KineticRequest =
  rq_message :: "('l, 'a) KineticMessage"
  rq_pinAuth :: bool

text \<open>The command a message stands for, following its pointers.\<close>

definition command_of :: "('l, 'a) KineticMessage \<Rightarrow> ('l, 'a) Command" where
  "command_of m =
     \<lparr>cm_header = Some (mg_header m),
      cm_body = (if mg_has_body m then Some
        \<lparr>bd_keyvalue = (if mg_body_keyvalue m then Some (mg_keyValue m) else None),
         bd_range = (if mg_body_range m then Some (mg_keyRange m) else None),
         bd_setup = (if mg_body_setup m then Some (mg_setup m) else None),
         bd_p2poperation = mg_body_p2p m,
         bd_getlog = (if mg_body_getlog m then Some (mg_getLog m) else None),
         bd_security = (if mg_body_security m then Some (mg_security m) else None),
         bd_pinop = (if mg_body_pinop m then Some (mg_pinOp m) else None)\<rparr> else None),
      cm_status = None\<rparr>"

definition KINETIC_SEQUENCE_NOT_YET_BOUND :: int where "KINETIC_SEQUENCE_NOT_YET_BOUND = -2"
definition KINETIC_HMAC_MAX_LEN :: nat where "KINETIC_HMAC_MAX_LEN = 20"

definition init_message :: Message where
  "init_message = \<lparr>ms_has_authtype = False, ms_authtype = AUTH_TYPE_OTHER 0, ms_hmacauth = None,
     ms_pinauth = None, ms_has_commandbytes = False, ms_commandbytes = None\<rparr>"

definition init_hmacauth :: HMACauth where
  "init_hmacauth = \<lparr>ha_has_identity = False, ha_identity = 0, ha_has_hmac = False, ha_hmac = None\<rparr>"

definition init_header :: Header where
  "init_header = \<lparr>hd_has_clusterversion = False, hd_clusterversion = 0, hd_has_connectionid = False, hd_connectionid = 0,
     hd_has_sequence = False, hd_sequence = 0, hd_has_acksequence = False, hd_acksequence = 0,
     hd_has_messagetype = False, hd_messagetype = KINETIC_MESSAGE_TYPE_OTHER 0, hd_has_timeout = False, hd_timeout = 0,
     hd_has_earlyexit = False, hd_earlyexit = False, hd_has_priority = False, hd_priority = PRIO_OTHER 0,
     hd_has_timequanta = False, hd_timequanta = 0\<rparr>"

definition init_status :: Status where
  "init_status = \<lparr>st_has_code = False, st_code = STATUS_CODE_NOT_ATTEMPTED, st_statusmessage = None,
     st_has_detailedmessage = False, st_detailedmessage = BYTE_ARRAY_NONE\<rparr>"

definition init_key_value :: KeyValue where
  "init_key_value = \<lparr>kv_has_newversion = False, kv_newversion = BYTE_ARRAY_NONE, kv_has_force = False, kv_force = False,
     kv_has_key = False, kv_key = BYTE_ARRAY_NONE, kv_has_dbversion = False, kv_dbversion = BYTE_ARRAY_NONE,
     kv_has_tag = False, kv_tag = BYTE_ARRAY_NONE, kv_has_algorithm = False, kv_algorithm = ALGORITHM_OTHER 0,
     kv_has_metadataonly = False, kv_metadataonly = False,
     kv_has_synchronization = False, kv_synchronization = SYNCHRONIZATION_OTHER 0\<rparr>"

definition init_range :: Range where
  "init_range = \<lparr>rg_has_startkey = False, rg_startkey = BYTE_ARRAY_NONE, rg_has_endkey = False, rg_endkey = BYTE_ARRAY_NONE,
     rg_has_startkeyinclusive = False, rg_startkeyinclusive = False, rg_has_endkeyinclusive = False, rg_endkeyinclusive = False,
     rg_has_maxreturned = False, rg_maxreturned = 0, rg_has_reverse = False, rg_reverse = False, rg_keys = []\<rparr>"

definition init_security :: "'a Security" where
  "init_security = \<lparr>sy_acl = None, sy_has_oldlockpin = False, sy_oldlockpin = BYTE_ARRAY_NONE,
     sy_has_newlockpin = False, sy_newlockpin = BYTE_ARRAY_NONE, sy_has_olderasepin = False, sy_olderasepin = BYTE_ARRAY_NONE,
     sy_has_newerasepin = False, sy_newerasepin = BYTE_ARRAY_NONE\<rparr>"

definition KineticMessage_Init :: "('l, 'a) KineticMessage" where
  "KineticMessage_Init =
     \<lparr>mg_message = init_message, mg_hmacData = replicate KINETIC_HMAC_MAX_LEN 0, mg_header = init_header, mg_status = init_status,
      mg_security = init_security, mg_keyValue = init_key_value, mg_keyRange = init_range,
      mg_setup = \<lparr>su_has_newclusterversion = False, su_newclusterversion = 0, su_has_firmwaredownload = False,
                  su_firmwaredownload = False\<rparr>,
      mg_getLog = \<lparr>gl_types = [], gl_device = None, gl_contents = None\<rparr>, mg_getLogType = GET_LOG_UTILIZATIONS,
      mg_getLogDevice = \<lparr>gd_has_name = False, gd_name = BYTE_ARRAY_NONE\<rparr>,
      mg_pinOp = \<lparr>po_has_pinoptype = False, po_pinoptype = PIN_OP_OTHER 0\<rparr>,
      mg_has_body = False, mg_body_keyvalue = False, mg_body_range = False, mg_body_setup = False,
      mg_body_getlog = False, mg_body_security = False, mg_body_pinop = False, mg_body_p2p = None\<rparr>"

text \<open>The two values it takes from the session.\<close>

definition KineticMessage_HeaderInit :: "int \<Rightarrow> int \<Rightarrow> Header" where
  "KineticMessage_HeaderInit clusterVersion connectionID =
     \<lparr>hd_has_clusterversion = True, hd_clusterversion = clusterVersion, hd_has_connectionid = True, hd_connectionid = connectionID,
      hd_has_sequence = True, hd_sequence = KINETIC_SEQUENCE_NOT_YET_BOUND, hd_has_acksequence = False, hd_acksequence = 0,
      hd_has_messagetype = False, hd_messagetype = KINETIC_MESSAGE_TYPE_OTHER 0, hd_has_timeout = False, hd_timeout = 0,
      hd_has_earlyexit = False, hd_earlyexit = False, hd_has_priority = False, hd_priority = PRIO_OTHER 0,
      hd_has_timequanta = False, hd_timequanta = 0\<rparr>"

definition KineticRequest_Init :: "int \<Rightarrow> int \<Rightarrow> ('l, 'a) KineticRequest" where
  "KineticRequest_Init clusterVersion connectionID =
     \<lparr>rq_message = KineticMessage_Init\<lparr>mg_header := KineticMessage_HeaderInit clusterVersion connectionID\<rparr>, rq_pinAuth = False\<rparr>"

end
