(* ===== verification/Kinetic_Auth.thy ===== *)
theory Kinetic_Auth
  imports Kinetic_Proto
begin

text \<open>
  Authentication of requests: \<^verbatim>\<open>kinetic_hmac.c\<close> and \<^verbatim>\<open>kinetic_auth.c\<close>. The keyed hash is OpenSSL's
  HMAC-SHA1 and a parameter: \<open>hmac_sha1 key data\<close>. All the code relies on is that it yields 20 bytes.
\<close>

section \<open>Data\<close>

datatype HMACAlgorithm = INVALID_HMAC_ALGORITHM | HmacSHA1 | HMAC_OTHER int

record KineticHMAC =
  hm_algorithm :: HMACAlgorithm
  hm_len :: nat
  hm_data :: "u8 list"

definition KINETIC_HMAC_SHA1_LEN :: nat where "KINETIC_HMAC_SHA1_LEN = 20"
definition KINETIC_PIN_MAX_LEN :: nat where "KINETIC_PIN_MAX_LEN = 1024"

text \<open>The key is a list of bytes, \<open>None\<close> for a null pointer.\<close>

record KineticSessionConfig =
  sc_host :: string
  sc_port :: int
  sc_clusterVersion :: int
  sc_identity :: int
  sc_hmacKey :: "u8 list option"
  sc_useSsl :: bool
  sc_timeoutSeconds :: u16

section \<open>HMAC\<close>

definition KineticHMAC_Init :: "HMACAlgorithm \<Rightarrow> KineticHMAC" where
  "KineticHMAC_Init algorithm =
     (if algorithm = HmacSHA1
      then \<lparr>hm_algorithm = algorithm, hm_len = KINETIC_HMAC_MAX_LEN, hm_data = replicate KINETIC_HMAC_MAX_LEN 0\<rparr>
      else \<lparr>hm_algorithm = INVALID_HMAC_ALGORITHM, hm_len = 0, hm_data = replicate KINETIC_HMAC_MAX_LEN 0\<rparr>)"

text \<open>What is hashed: the length of the command as a 32-bit number in network byte order, then the
  command.\<close>

definition hmac_input :: "bool \<Rightarrow> u8 list \<Rightarrow> u8 list" where
  "hmac_input little cmd = host_bytes little 4 (unat (KineticNBO_FromHostU32 little (of_nat (length cmd)))) @ cmd"

definition KineticHMAC_Compute ::
  "(u8 list \<Rightarrow> u8 list \<Rightarrow> u8 list) \<Rightarrow> bool \<Rightarrow> KineticHMAC \<Rightarrow> Message \<Rightarrow> u8 list \<Rightarrow> KineticHMAC option" where
  "KineticHMAC_Compute hmac_sha1 little hmac msg key =
     do { c_assert (hm_len hmac > 0);
          c_assert (ms_has_commandbytes msg);
          cmd \<leftarrow> ms_commandbytes msg;
          c_assert (cmd \<noteq> []);
          let md = hmac_sha1 key (hmac_input little cmd);
          c_assert (length md \<le> length (hm_data hmac));
          Some (hmac\<lparr>hm_data := splice_at (hm_data hmac) 0 md, hm_len := length md\<rparr>) }"

text \<open>\<open>bufsz\<close> is the size of the buffer \<^verbatim>\<open>hmac.data\<close> points to.\<close>

definition KineticHMAC_Populate ::
  "(u8 list \<Rightarrow> u8 list \<Rightarrow> u8 list) \<Rightarrow> bool \<Rightarrow> nat \<Rightarrow> Message \<Rightarrow> u8 list \<Rightarrow> Message option" where
  "KineticHMAC_Populate hmac_sha1 little bufsz msg key =
     do { c_assert (key \<noteq> []);
          auth \<leftarrow> ms_hmacauth msg;
          c_assert (ha_hmac auth \<noteq> None);
          h \<leftarrow> KineticHMAC_Compute hmac_sha1 little (KineticHMAC_Init HmacSHA1) msg key;
          c_assert (hm_len h \<le> bufsz);
          Some (msg\<lparr>ms_hmacauth := Some (auth\<lparr>ha_hmac := Some (take (hm_len h) (hm_data h)), ha_has_hmac := True\<rparr>)\<rparr>) }"

text \<open>The loop that compares without an early exit.\<close>

fun compare_loop :: "u8 list \<Rightarrow> u8 list \<Rightarrow> u8 \<Rightarrow> u8" where
  "compare_loop (a # as) (b # bs) result = compare_loop as bs (result OR (a XOR b))"
| "compare_loop _ _ result = result"

definition KineticHMAC_Validate :: "(u8 list \<Rightarrow> u8 list \<Rightarrow> u8 list) \<Rightarrow> bool \<Rightarrow> Message \<Rightarrow> u8 list \<Rightarrow> bool option" where
  "KineticHMAC_Validate hmac_sha1 little msg key =
     do { c_assert (key \<noteq> []);
          (case ms_hmacauth msg of
             Some auth \<Rightarrow>
               (case ha_hmac auth of
                  Some mac \<Rightarrow>
                    if \<not> ms_has_authtype msg \<or> ms_authtype msg \<noteq> AUTH_TYPE_HMACAUTH \<or> \<not> ha_has_hmac auth \<or> mac = [] then Some False
                    else do {
                      t \<leftarrow> KineticHMAC_Compute hmac_sha1 little (KineticHMAC_Init HmacSHA1) msg key;
                      Some (length mac = hm_len t \<and> compare_loop mac (take (hm_len t) (hm_data t)) 0 = 0) }
                | None \<Rightarrow> Some False)
           | None \<Rightarrow> Some False) }"

section \<open>Authentication of a request\<close>

definition KineticAuth_EnsureSslEnabled :: "KineticSessionConfig \<Rightarrow> KineticStatus" where
  "KineticAuth_EnsureSslEnabled config = (if sc_useSsl config then KINETIC_STATUS_SUCCESS else KINETIC_STATUS_SSL_REQUIRED)"

definition KineticAuth_PopulateHmac ::
  "(u8 list \<Rightarrow> u8 list \<Rightarrow> u8 list) \<Rightarrow> bool \<Rightarrow> KineticSessionConfig \<Rightarrow> ('l, 'a) KineticRequest \<Rightarrow>
   (KineticStatus \<times> ('l, 'a) KineticRequest) option" where
  "KineticAuth_PopulateHmac hmac_sha1 little config pdu =
     (case sc_hmacKey config of
        None \<Rightarrow> Some (KINETIC_STATUS_HMAC_REQUIRED, pdu)
      | Some key \<Rightarrow>
          do { c_assert (length key \<le> KINETIC_HMAC_MAX_LEN);
               let m = rq_message pdu;
               let auth = init_hmacauth\<lparr>ha_hmac := Some (take KINETIC_HMAC_SHA1_LEN (mg_hmacData m)), ha_has_hmac := True,
                                        ha_identity := sc_identity config, ha_has_identity := True\<rparr>;
               let msg = (mg_message m)\<lparr>ms_hmacauth := Some auth, ms_pinauth := None,
                                        ms_authtype := AUTH_TYPE_HMACAUTH, ms_has_authtype := True\<rparr>;
               msg' \<leftarrow> KineticHMAC_Populate hmac_sha1 little (length (mg_hmacData m)) msg key;
               Some (KINETIC_STATUS_SUCCESS, pdu\<lparr>rq_message := m\<lparr>mg_message := msg'\<rparr>\<rparr>) })"

definition KineticAuth_PopulatePin ::
  "KineticSessionConfig \<Rightarrow> ('l, 'a) KineticRequest \<Rightarrow> byte_array \<Rightarrow> (KineticStatus \<times> ('l, 'a) KineticRequest) option" where
  "KineticAuth_PopulatePin config pdu pin =
     (if \<not> sc_useSsl config then Some (KINETIC_STATUS_SSL_REQUIRED, pdu)
      else do {
        c_assert (unat (ba_len pin) \<le> KINETIC_PIN_MAX_LEN);
        c_assert (ba_len pin > 0 \<longrightarrow> ba_data pin \<noteq> NULL);
        let m = rq_message pdu;
        let msg = (mg_message m)\<lparr>ms_pinauth := Some \<lparr>pa_has_pin = True, pa_pin = pin\<rparr>, ms_hmacauth := None,
                                 ms_authtype := AUTH_TYPE_PINAUTH, ms_has_authtype := True\<rparr>;
        Some (KINETIC_STATUS_SUCCESS, pdu\<lparr>rq_message := m\<lparr>mg_message := msg\<rparr>\<rparr>) })"

definition KineticAuth_PopulateTag :: KineticStatus where
  "KineticAuth_PopulateTag = KINETIC_STATUS_INVALID"

definition KineticRequest_PopulateAuthentication ::
  "(u8 list \<Rightarrow> u8 list \<Rightarrow> u8 list) \<Rightarrow> bool \<Rightarrow> KineticSessionConfig \<Rightarrow> ('l, 'a) KineticRequest \<Rightarrow> byte_array option \<Rightarrow>
   (KineticStatus \<times> ('l, 'a) KineticRequest) option" where
  "KineticRequest_PopulateAuthentication hmac_sha1 little config request pin =
     (case pin of Some p \<Rightarrow> KineticAuth_PopulatePin config request p
      | None \<Rightarrow> KineticAuth_PopulateHmac hmac_sha1 little config request)"

section \<open>The comparison\<close>

lemma or_eq_0: "(x OR y = 0) = (x = 0 \<and> y = (0 :: u8))"
  by (auto simp: bit_eq_iff bit_or_iff)

lemma xor_eq_0: "(x XOR y = 0) = (x = (y :: u8))"
  by (metis xor_self_eq xor.right_neutral xor.assoc xor.commute)

lemma compare_loop_eq:
  "length as = length bs \<Longrightarrow> compare_loop as bs r = 0 \<longleftrightarrow> r = 0 \<and> as = bs"
  by (induction as bs r rule: compare_loop.induct) (auto simp: or_eq_0 xor_eq_0)

text \<open>The hash a message must carry.\<close>

definition expected_mac :: "(u8 list \<Rightarrow> u8 list \<Rightarrow> u8 list) \<Rightarrow> u8 list \<Rightarrow> u8 list \<Rightarrow> u8 list" where
  "expected_mac hmac_sha1 key cmd = hmac_sha1 key (be4 (of_nat (length cmd)) @ cmd)"

definition sha1_sized :: "(u8 list \<Rightarrow> u8 list \<Rightarrow> u8 list) \<Rightarrow> bool" where
  "sha1_sized hmac_sha1 \<longleftrightarrow> (\<forall>k d. length (hmac_sha1 k d) = KINETIC_HMAC_SHA1_LEN)"

lemma Compute_expected:
  assumes "sha1_sized hmac_sha1" "ms_has_commandbytes msg" "ms_commandbytes msg = Some cmd" "cmd \<noteq> []"
  shows "KineticHMAC_Compute hmac_sha1 little (KineticHMAC_Init HmacSHA1) msg key =
    Some \<lparr>hm_algorithm = HmacSHA1, hm_len = KINETIC_HMAC_SHA1_LEN, hm_data = expected_mac hmac_sha1 key cmd\<rparr>"
  using assms
  by (simp add: KineticHMAC_Compute_def KineticHMAC_Init_def Let_def KINETIC_HMAC_MAX_LEN_def KINETIC_HMAC_SHA1_LEN_def
    sha1_sized_def splice_at_def expected_mac_def hmac_input_def FromHost_bytes)

text \<open>A message with a keyed hash in it, as a peer sends it.\<close>

definition signed_message :: "u8 list \<Rightarrow> u8 list \<Rightarrow> Message \<Rightarrow> bool" where
  "signed_message mac cmd msg \<longleftrightarrow> ms_has_authtype msg \<and> ms_authtype msg = AUTH_TYPE_HMACAUTH \<and>
     (\<exists>auth. ms_hmacauth msg = Some auth \<and> ha_has_hmac auth \<and> ha_hmac auth = Some mac) \<and>
     ms_has_commandbytes msg \<and> ms_commandbytes msg = Some cmd"

lemma validate_expected:
  assumes "sha1_sized hmac_sha1" "signed_message mac cmd msg" "cmd \<noteq> []" "key \<noteq> []"
  shows "KineticHMAC_Validate hmac_sha1 little msg key = Some (mac = expected_mac hmac_sha1 key cmd)"
proof -
  from assms(2) obtain auth where m: "ms_has_authtype msg" "ms_authtype msg = AUTH_TYPE_HMACAUTH" "ms_hmacauth msg = Some auth"
    "ha_has_hmac auth" "ha_hmac auth = Some mac" "ms_has_commandbytes msg" "ms_commandbytes msg = Some cmd"
    by (auto simp: signed_message_def)
  have len: "length (expected_mac hmac_sha1 key cmd) = KINETIC_HMAC_SHA1_LEN" using assms(1) by (simp add: sha1_sized_def expected_mac_def)
  have "(length mac = KINETIC_HMAC_SHA1_LEN \<and> compare_loop mac (expected_mac hmac_sha1 key cmd) 0 = 0) =
      (mac = expected_mac hmac_sha1 key cmd)"
    using compare_loop_eq [of mac "expected_mac hmac_sha1 key cmd" 0] len by auto
  moreover have "mac \<noteq> expected_mac hmac_sha1 key cmd" if "mac = []" using that len by (auto simp: KINETIC_HMAC_SHA1_LEN_def)
  ultimately show ?thesis
    using m assms(4) Compute_expected [OF assms(1) m(6,7) assms(3), of little key] len
    by (auto simp: KineticHMAC_Validate_def)
qed

text \<open>C32: The loop of \<^verbatim>\<open>KineticHMAC_Validate\<close>, which combines the differences of all bytes without an
  early exit, decides the same as comparing the carried hash with the expected one: on every message that
  carries a hash and a command the validation answers, and answers true exactly if the hash is the keyed hash
  of the command's length in network byte order and the command, whatever the byte order of the machine.\<close>

theorem validate_is_comparison:
  assumes "sha1_sized hmac_sha1" "signed_message mac cmd msg" "cmd \<noteq> []" "key \<noteq> []"
  shows "KineticHMAC_Validate hmac_sha1 little msg key = Some (mac = expected_mac hmac_sha1 key cmd)"
  by (rule validate_expected [OF assms])

text \<open>A hash of the right length for the examples.\<close>

definition sum_hash :: "u8 list \<Rightarrow> u8 list \<Rightarrow> u8 list" where
  "sum_hash key bytes = replicate 20 (sum_list key + sum_list bytes)"

lemma sum_hash_sized: "sha1_sized sum_hash"
  by (simp add: sha1_sized_def sum_hash_def KINETIC_HMAC_SHA1_LEN_def)

definition ex_signed :: "u8 \<Rightarrow> Message" where
  "ex_signed x = init_message\<lparr>ms_has_authtype := True, ms_authtype := AUTH_TYPE_HMACAUTH,
     ms_hmacauth := Some (init_hmacauth\<lparr>ha_has_hmac := True, ha_hmac := Some (replicate 20 x)\<rparr>),
     ms_has_commandbytes := True, ms_commandbytes := Some [3]\<rparr>"

theorem validate_is_comparison_witness:
  "KineticHMAC_Validate sum_hash True (ex_signed 9) [5] = Some True \<and>
   KineticHMAC_Validate sum_hash False (ex_signed 8) [5] = Some False"
proof -
  have s: "signed_message (replicate 20 x) [3] (ex_signed x)" for x by (simp add: signed_message_def ex_signed_def)
  have "le_bytes 0 x = []" for x by (simp add: le_bytes_def)
  then have "le_bytes (Suc (Suc (Suc (Suc 0)))) 1 = [1, 0, 0, 0]" by (simp add: le_bytes_Suc)
  moreover have "(4 :: nat) = Suc (Suc (Suc (Suc 0)))" by simp
  ultimately have "be4 1 = [0, 0, 0, 1]" by (simp only: be4_def unat_1) simp
  then have e: "expected_mac sum_hash [5] [3] = replicate 20 9" by (simp add: expected_mac_def sum_hash_def)
  show ?thesis
    using validate_is_comparison [OF sum_hash_sized s [of 9], of "[5]" True] validate_is_comparison [OF sum_hash_sized s [of 8], of "[5]" False]
    by (simp add: e)
qed

section \<open>Signing a request\<close>

definition packed_request :: "u8 list \<Rightarrow> ('l, 'a) KineticRequest \<Rightarrow> bool" where
  "packed_request cmd r \<longleftrightarrow> ms_has_commandbytes (mg_message (rq_message r)) \<and>
     ms_commandbytes (mg_message (rq_message r)) = Some cmd \<and> cmd \<noteq> [] \<and> length (mg_hmacData (rq_message r)) = KINETIC_HMAC_MAX_LEN"

lemma PopulateHmac_signs:
  assumes "sha1_sized hmac_sha1" "packed_request cmd r" "sc_hmacKey config = Some key" "key \<noteq> []" "length key \<le> KINETIC_HMAC_MAX_LEN"
  shows "\<exists>r'. KineticAuth_PopulateHmac hmac_sha1 little config r = Some (KINETIC_STATUS_SUCCESS, r') \<and>
    signed_message (expected_mac hmac_sha1 key cmd) cmd (mg_message (rq_message r')) \<and>
    command_of (rq_message r') = command_of (rq_message r)"
proof -
  let ?m = "rq_message r"
  let ?auth = "init_hmacauth\<lparr>ha_hmac := Some (take KINETIC_HMAC_SHA1_LEN (mg_hmacData ?m)), ha_has_hmac := True,
                 ha_identity := sc_identity config, ha_has_identity := True\<rparr>"
  let ?msg = "(mg_message ?m)\<lparr>ms_hmacauth := Some ?auth, ms_pinauth := None, ms_authtype := AUTH_TYPE_HMACAUTH, ms_has_authtype := True\<rparr>"
  have p: "ms_has_commandbytes ?msg" "ms_commandbytes ?msg = Some cmd" "cmd \<noteq> []" "length (mg_hmacData ?m) = KINETIC_HMAC_MAX_LEN"
    using assms(2) by (simp_all add: packed_request_def)
  have len: "length (expected_mac hmac_sha1 key cmd) = KINETIC_HMAC_SHA1_LEN" using assms(1) by (simp add: sha1_sized_def expected_mac_def)
  have "KineticHMAC_Populate hmac_sha1 little (length (mg_hmacData ?m)) ?msg key =
      Some (?msg\<lparr>ms_hmacauth := Some (?auth\<lparr>ha_hmac := Some (expected_mac hmac_sha1 key cmd), ha_has_hmac := True\<rparr>)\<rparr>)"
    using Compute_expected [OF assms(1) p(1-3), of little key] assms(4) p(4) len
    by (simp add: KineticHMAC_Populate_def KINETIC_HMAC_MAX_LEN_def KINETIC_HMAC_SHA1_LEN_def)
  then show ?thesis using assms(3,5) p by (simp add: KineticAuth_PopulateHmac_def Let_def signed_message_def command_of_def)
qed

text \<open>C28: A request signed by \<^verbatim>\<open>KineticAuth_PopulateHmac\<close> with a key of 1 to 20 bytes passes
  \<^verbatim>\<open>KineticHMAC_Validate\<close> with the same key on a machine of any byte order, and signing leaves the command
  as it was; with a key of more than 20 bytes, which a session accepts, signing aborts the process.\<close>

theorem signed_request_validates:
  assumes "sha1_sized hmac_sha1" "packed_request cmd r" "sc_hmacKey config = Some key" "key \<noteq> []"
  shows "if length key \<le> KINETIC_HMAC_MAX_LEN
    then \<exists>r'. KineticAuth_PopulateHmac hmac_sha1 little config r = Some (KINETIC_STATUS_SUCCESS, r') \<and>
      KineticHMAC_Validate hmac_sha1 little' (mg_message (rq_message r')) key = Some True \<and>
      command_of (rq_message r') = command_of (rq_message r)
    else KineticAuth_PopulateHmac hmac_sha1 little config r = None"
proof (cases "length key \<le> KINETIC_HMAC_MAX_LEN")
  case True
  from PopulateHmac_signs [OF assms True, of little] obtain r' where
    r': "KineticAuth_PopulateHmac hmac_sha1 little config r = Some (KINETIC_STATUS_SUCCESS, r')"
    "signed_message (expected_mac hmac_sha1 key cmd) cmd (mg_message (rq_message r'))"
    "command_of (rq_message r') = command_of (rq_message r)" by blast
  moreover have "cmd \<noteq> []" using assms(2) by (simp add: packed_request_def)
  ultimately show ?thesis using True validate_expected [OF assms(1) r'(2) _ assms(4), of little'] by auto
next
  case False
  then show ?thesis using assms(3) by (simp add: KineticAuth_PopulateHmac_def)
qed

definition ex_packed :: "(nat, nat) KineticRequest" where
  "ex_packed = (KineticRequest_Init 0 1)\<lparr>rq_message := (rq_message (KineticRequest_Init 0 1))\<lparr>mg_message :=
     init_message\<lparr>ms_has_commandbytes := True, ms_commandbytes := Some [3, 4]\<rparr>\<rparr>\<rparr>"

definition ex_config :: KineticSessionConfig where
  "ex_config = \<lparr>sc_host = ''localhost'', sc_port = 8123, sc_clusterVersion = 0, sc_identity = 1, sc_hmacKey = Some [97, 115],
     sc_useSsl = False, sc_timeoutSeconds = 10\<rparr>"

theorem signed_request_validates_witness:
  "\<exists>r'. KineticAuth_PopulateHmac sum_hash True ex_config ex_packed = Some (KINETIC_STATUS_SUCCESS, r') \<and>
     KineticHMAC_Validate sum_hash False (mg_message (rq_message r')) [97, 115] = Some True"
proof -
  have p: "packed_request [3, 4] ex_packed" by (simp add: packed_request_def ex_packed_def KineticRequest_Init_def KineticMessage_Init_def)
  have k: "sc_hmacKey ex_config = Some [97, 115]" by (simp add: ex_config_def)
  show ?thesis using signed_request_validates [OF sum_hash_sized p k, of True False]
    by (auto simp: KINETIC_HMAC_MAX_LEN_def)
qed

end
