(* ===== verification/Semaphores.thy ===== *)
theory Semaphores
  imports Prelude
begin

text \<open>
  The client library's own synchronisation objects: \<^verbatim>\<open>kinetic_countingsemaphore.c\<close>, which bounds
  the requests outstanding on a session, \<^verbatim>\<open>kinetic_resourcewaiter.c\<close>, which waits for the
  connection, and \<^verbatim>\<open>kinetic_semaphore.c\<close>. The code between locking and unlocking (or waiting
  on) a mutex is one step; a waiting thread gives up the mutex and goes on only after it was woken.
\<close>

section \<open>The counting semaphore\<close>

record KineticCountingSemaphore =
  cs_count :: u32
  cs_max :: u32
  cs_num_waiting :: u32

definition KineticCountingSemaphore_Create :: "u32 \<Rightarrow> bool \<Rightarrow> KineticCountingSemaphore option" where
  "KineticCountingSemaphore_Create counts calloc_ok =
     (if calloc_ok then Some \<lparr>cs_count = counts, cs_max = counts, cs_num_waiting = 0\<rparr> else None)"

text \<open>\<^verbatim>\<open>Take\<close>: entering, the test of the loop (\<open>None\<close>: wait), and leaving.\<close>

definition take_enter :: "KineticCountingSemaphore \<Rightarrow> KineticCountingSemaphore" where
  "take_enter sem = sem\<lparr>cs_num_waiting := cs_num_waiting sem + 1\<rparr>"

definition take_try :: "KineticCountingSemaphore \<Rightarrow> KineticCountingSemaphore option" where
  "take_try sem =
     (if cs_count sem = 0 then None
      else Some (sem\<lparr>cs_num_waiting := cs_num_waiting sem - 1, cs_count := cs_count sem - 1\<rparr>))"

text \<open>\<^verbatim>\<open>Give\<close>: whether it signals, the new state, and the assertion behind it.\<close>

definition KineticCountingSemaphore_Give :: "KineticCountingSemaphore \<Rightarrow> (bool \<times> KineticCountingSemaphore) option" where
  "KineticCountingSemaphore_Give sem =
     (let signal = (cs_count sem = 0 \<and> cs_num_waiting sem > 0);
          after = cs_count sem + 1
      in if cs_max sem \<ge> after then Some (signal, sem\<lparr>cs_count := after\<rparr>) else None)"

section \<open>Threads\<close>

text \<open>A thread is outside, asleep in \<^verbatim>\<open>pthread_cond_wait\<close>, or woken and about to test the count
  again. \<open>cc_held\<close> counts the slots taken and not given back.\<close>

datatype taker = Outside | Asleep | Woken

record sem_state =
  cc_sem :: KineticCountingSemaphore
  cc_takers :: "taker list"
  cc_held :: nat

definition after_try :: "sem_state \<Rightarrow> KineticCountingSemaphore \<Rightarrow> nat \<Rightarrow> sem_state" where
  "after_try s sem i =
     (case take_try sem of
        None \<Rightarrow> s\<lparr>cc_sem := sem, cc_takers := (cc_takers s)[i := Asleep]\<rparr>
      | Some sem' \<Rightarrow> s\<lparr>cc_sem := sem', cc_takers := (cc_takers s)[i := Outside], cc_held := cc_held s + 1\<rparr>)"

text \<open>\<open>serial\<close>: the callers of \<^verbatim>\<open>Take\<close> hold a mutex of their own, as \<^verbatim>\<open>send_request_in_lock\<close> does, so
  that one thread at a time is in it. A sleeping thread may also wake by itself.\<close>

inductive sem_step :: "bool \<Rightarrow> sem_state \<Rightarrow> sem_state \<Rightarrow> bool" for serial where
  enter: "i < length (cc_takers s) \<Longrightarrow> cc_takers s ! i = Outside \<Longrightarrow> (serial \<Longrightarrow> \<forall>t \<in> set (cc_takers s). t = Outside) \<Longrightarrow>
    sem_step serial s (after_try s (take_enter (cc_sem s)) i)"
| retry: "i < length (cc_takers s) \<Longrightarrow> cc_takers s ! i = Woken \<Longrightarrow> sem_step serial s (after_try s (cc_sem s) i)"
| spurious: "i < length (cc_takers s) \<Longrightarrow> cc_takers s ! i = Asleep \<Longrightarrow>
    sem_step serial s (s\<lparr>cc_takers := (cc_takers s)[i := Woken]\<rparr>)"
| give_signal: "0 < cc_held s \<Longrightarrow> KineticCountingSemaphore_Give (cc_sem s) = Some (True, sem') \<Longrightarrow>
    i < length (cc_takers s) \<Longrightarrow> cc_takers s ! i = Asleep \<Longrightarrow>
    sem_step serial s (s\<lparr>cc_sem := sem', cc_takers := (cc_takers s)[i := Woken], cc_held := cc_held s - 1\<rparr>)"
| give_silent: "0 < cc_held s \<Longrightarrow> KineticCountingSemaphore_Give (cc_sem s) = Some (b, sem') \<Longrightarrow>
    b \<longrightarrow> Asleep \<notin> set (cc_takers s) \<Longrightarrow>
    sem_step serial s (s\<lparr>cc_sem := sem', cc_held := cc_held s - 1\<rparr>)"

inductive_cases sem_stepE: "sem_step serial s s'"

inductive sem_reach :: "bool \<Rightarrow> u32 \<Rightarrow> nat \<Rightarrow> sem_state \<Rightarrow> bool" for serial counts threads where
  start: "KineticCountingSemaphore_Create counts True = Some sem \<Longrightarrow>
    sem_reach serial counts threads \<lparr>cc_sem = sem, cc_takers = replicate threads Outside, cc_held = 0\<rparr>"
| more: "sem_reach serial counts threads s \<Longrightarrow> sem_step serial s s' \<Longrightarrow> sem_reach serial counts threads s'"

definition in_take :: "taker list \<Rightarrow> nat" where
  "in_take ts = length (filter (\<lambda>t. t \<noteq> Outside) ts)"

definition sem_inv :: "u32 \<Rightarrow> nat \<Rightarrow> sem_state \<Rightarrow> bool" where
  "sem_inv counts threads s \<longleftrightarrow> cs_max (cc_sem s) = counts \<and> length (cc_takers s) = threads \<and>
     unat (cs_count (cc_sem s)) + cc_held s = unat counts \<and> unat (cs_num_waiting (cc_sem s)) = in_take (cc_takers s)"

lemma in_take_le: "in_take ts \<le> length ts"
  by (simp add: in_take_def)

lemma in_take_update:
  assumes "i < length ts"
  shows "in_take (ts[i := t]) + (if ts ! i \<noteq> Outside then 1 else 0) = in_take ts + (if t \<noteq> Outside then 1 else 0)"
  using assms
proof (induction ts arbitrary: i)
  case (Cons a ts)
  then show ?case by (cases i) (fastforce simp: in_take_def)+
qed simp

lemma after_try_inv:
  assumes i: "i < length (cc_takers s)" and len: "length (cc_takers s) = threads"
    and m: "cs_max sem = counts" and c: "unat (cs_count sem) + cc_held s = unat counts"
    and w: "unat (cs_num_waiting sem) = in_take ((cc_takers s)[i := Asleep])"
  shows "sem_inv counts threads (after_try s sem i)"
proof (cases "cs_count sem = 0")
  case True
  then show ?thesis using assms by (simp add: after_try_def take_try_def sem_inv_def)
next
  case False
  then have "unat (cs_count sem - 1) + 1 = unat (cs_count sem)"
    by (metis Suc_eq_plus1 Suc_pred' unat_gt_0 unat_minus_one)
  moreover have u: "in_take ((cc_takers s)[i := Asleep]) = in_take ((cc_takers s)[i := Outside]) + 1"
    using in_take_update [OF i, of Asleep] in_take_update [OF i, of Outside] by simp
  moreover have "unat (cs_num_waiting sem - 1) + 1 = unat (cs_num_waiting sem)"
    using w u by (metis Suc_eq_plus1 Suc_pred' unat_gt_0 unat_minus_one unat_eq_zero add_is_0 one_neq_zero)
  ultimately show ?thesis using False m c w len by (simp add: after_try_def take_try_def sem_inv_def)
qed

lemma give_inv:
  assumes "sem_inv counts threads s" "0 < cc_held s"
  shows "\<exists>b sem'. KineticCountingSemaphore_Give (cc_sem s) = Some (b, sem') \<and> cs_max sem' = counts \<and>
     unat (cs_count sem') + (cc_held s - 1) = unat counts \<and> cs_num_waiting sem' = cs_num_waiting (cc_sem s) \<and>
     (b \<longleftrightarrow> cs_count (cc_sem s) = 0 \<and> 0 < in_take (cc_takers s)) \<and> 0 < cs_count sem'"
proof -
  have "unat (cs_count (cc_sem s)) + 1 \<le> unat counts" using assms by (simp add: sem_inv_def)
  then have u: "unat (cs_count (cc_sem s) + 1) = unat (cs_count (cc_sem s)) + 1"
    using unat_add_no_wrap [of "cs_count (cc_sem s)" 1] unat_lt_32 [of counts] by simp
  have "cs_count (cc_sem s) + 1 \<le> counts" using u assms by (simp add: word_le_nat_alt sem_inv_def)
  moreover have "cs_num_waiting (cc_sem s) > 0 \<longleftrightarrow> 0 < in_take (cc_takers s)"
    using assms(1) by (simp add: sem_inv_def word_less_nat_alt)
  moreover have "0 < cs_count (cc_sem s) + 1" using u by (simp add: word_less_nat_alt)
  ultimately show ?thesis using assms u by (simp add: KineticCountingSemaphore_Give_def Let_def sem_inv_def)
qed

lemma in_take_Woken:
  assumes "i < length ts" "ts ! i = Asleep"
  shows "in_take (ts[i := Woken]) = in_take ts"
  using in_take_update [OF assms(1), of Woken] assms(2) by simp

lemma sem_step_inv:
  assumes "sem_step serial s s'" "sem_inv counts threads s" "threads < 2 ^ 32"
  shows "sem_inv counts threads s'"
  using assms(1)
proof cases
  case (enter i)
  let ?ts = "cc_takers s"
  have "in_take (?ts[i := Asleep]) = in_take ?ts + 1" using in_take_update [OF enter(2), of Asleep] enter(3) by simp
  moreover have "in_take (?ts[i := Asleep]) \<le> threads" using in_take_le [of "?ts[i := Asleep]"] assms(2) by (simp add: sem_inv_def)
  ultimately have "unat (cs_num_waiting (cc_sem s) + 1) = in_take (?ts[i := Asleep])"
    using unat_add_no_wrap [of "cs_num_waiting (cc_sem s)" 1] assms(2,3) by (simp add: sem_inv_def)
  then show ?thesis unfolding enter(1) using assms(2) enter(2)
    by (intro after_try_inv) (simp_all add: take_enter_def sem_inv_def)
next
  case (retry i)
  have "in_take ((cc_takers s)[i := Asleep]) = in_take (cc_takers s)"
    using in_take_update [OF retry(2), of Asleep] retry(3) by simp
  then show ?thesis unfolding retry(1) using assms(2) retry(2)
    by (intro after_try_inv) (simp_all add: sem_inv_def)
next
  case (spurious i)
  then show ?thesis using assms(2) in_take_Woken [OF spurious(2,3)] by (simp add: sem_inv_def)
next
  case (give_signal sem' i)
  then show ?thesis using assms(2) give_inv [OF assms(2) give_signal(2)] in_take_Woken [OF give_signal(4,5)]
    by (auto simp: sem_inv_def)
next
  case (give_silent b sem')
  then show ?thesis using assms(2) give_inv [OF assms(2) give_silent(2)] by (auto simp: sem_inv_def)
qed

lemma sem_reach_inv:
  assumes "sem_reach serial counts threads s" "threads < 2 ^ 32"
  shows "sem_inv counts threads s"
  using assms(1)
proof induction
  case (start sem)
  then show ?case by (auto simp: KineticCountingSemaphore_Create_def sem_inv_def in_take_def)
next
  case (more s s')
  then show ?case using sem_step_inv assms(2) by blast
qed

text \<open>C29: However many threads take and give, and whenever they are woken, never more slots of the
  counting semaphore are held than it was created with, its counters neither overflow nor underflow,
  and giving back a held slot never trips the assertion in \<^verbatim>\<open>Give\<close>.\<close>

theorem semaphore_bounds_holders:
  assumes "sem_reach serial counts threads s" "threads < 2 ^ 32"
  shows "cc_held s \<le> unat counts \<and> unat (cs_count (cc_sem s)) = unat counts - cc_held s \<and>
     unat (cs_num_waiting (cc_sem s)) = in_take (cc_takers s) \<and>
     (0 < cc_held s \<longrightarrow> KineticCountingSemaphore_Give (cc_sem s) \<noteq> None)"
proof -
  note inv = sem_reach_inv [OF assms]
  have "KineticCountingSemaphore_Give (cc_sem s) \<noteq> None" if "0 < cc_held s" using give_inv [OF inv that] by auto
  moreover have "unat (cs_count (cc_sem s)) + cc_held s = unat counts" using inv by (simp add: sem_inv_def)
  ultimately show ?thesis using inv by (simp add: sem_inv_def)
qed

text \<open>Two runs for the witnesses: with the send mutex a second request waits; without it two threads wait.\<close>

definition sem_at :: "u32 \<Rightarrow> u32 \<Rightarrow> u32 \<Rightarrow> taker list \<Rightarrow> nat \<Rightarrow> sem_state" where
  "sem_at m c w ts k = \<lparr>cc_sem = \<lparr>cs_count = c, cs_max = m, cs_num_waiting = w\<rparr>, cc_takers = ts, cc_held = k\<rparr>"

lemma sem_at_start: "sem_reach serial c n (sem_at c c 0 (replicate n Outside) 0)"
  unfolding sem_at_def by (rule start) (simp add: KineticCountingSemaphore_Create_def)

lemma sem_at_enter:
  assumes "sem_reach serial counts n (sem_at m c w ts k)" "i < length ts" "ts ! i = Outside" "serial \<Longrightarrow> \<forall>t \<in> set ts. t = Outside"
  shows "sem_reach serial counts n (if c = 0 then sem_at m c (w + 1) (ts[i := Asleep]) k else sem_at m (c - 1) w ts (k + 1))"
proof -
  have "ts[i := Outside] = ts" using assms(3) by (metis list_update_id)
  then have "after_try (sem_at m c w ts k) (take_enter (cc_sem (sem_at m c w ts k))) i =
      (if c = 0 then sem_at m c (w + 1) (ts[i := Asleep]) k else sem_at m (c - 1) w ts (k + 1))"
    by (simp add: after_try_def take_enter_def take_try_def sem_at_def)
  moreover have "sem_step serial (sem_at m c w ts k) (after_try (sem_at m c w ts k) (take_enter (cc_sem (sem_at m c w ts k))) i)"
    by (rule enter) (use assms(2-4) in \<open>simp_all add: sem_at_def\<close>)
  ultimately show ?thesis using more [OF assms(1)] by simp
qed

lemma sem_at_retry:
  assumes "sem_reach serial counts n (sem_at m c w ts k)" "i < length ts" "ts ! i = Woken" "c \<noteq> 0"
  shows "sem_reach serial counts n (sem_at m (c - 1) (w - 1) (ts[i := Outside]) (k + 1))"
proof -
  have "sem_step serial (sem_at m c w ts k) (after_try (sem_at m c w ts k) (cc_sem (sem_at m c w ts k)) i)"
    by (rule retry) (use assms(2-4) in \<open>simp_all add: sem_at_def\<close>)
  then have "sem_step serial (sem_at m c w ts k) (sem_at m (c - 1) (w - 1) (ts[i := Outside]) (k + 1))"
    using assms(4) by (simp add: after_try_def take_try_def sem_at_def)
  then show ?thesis by (rule more [OF assms(1)])
qed

lemma sem_at_give_signal:
  assumes "sem_reach serial counts n (sem_at m c w ts k)" "c = 0" "0 < w" "c + 1 \<le> m" "0 < k" "i < length ts" "ts ! i = Asleep"
  shows "sem_reach serial counts n (sem_at m (c + 1) w (ts[i := Woken]) (k - 1))"
proof -
  have "sem_step serial (sem_at m c w ts k) ((sem_at m c w ts k)\<lparr>cc_sem := \<lparr>cs_count = c + 1, cs_max = m, cs_num_waiting = w\<rparr>,
      cc_takers := (cc_takers (sem_at m c w ts k))[i := Woken], cc_held := cc_held (sem_at m c w ts k) - 1\<rparr>)"
    by (rule give_signal) (use assms(2-7) in \<open>simp_all add: sem_at_def KineticCountingSemaphore_Give_def\<close>)
  then show ?thesis using more [OF assms(1)] by (simp add: sem_at_def)
qed

lemma sem_at_give_silent:
  assumes "sem_reach serial counts n (sem_at m c w ts k)" "c \<noteq> 0" "c + 1 \<le> m" "0 < k"
  shows "sem_reach serial counts n (sem_at m (c + 1) w ts (k - 1))"
proof -
  have "sem_step serial (sem_at m c w ts k) ((sem_at m c w ts k)\<lparr>cc_sem := \<lparr>cs_count = c + 1, cs_max = m, cs_num_waiting = w\<rparr>,
      cc_held := cc_held (sem_at m c w ts k) - 1\<rparr>)"
    by (rule give_silent [where b = False]) (use assms(2-4) in \<open>simp_all add: sem_at_def KineticCountingSemaphore_Give_def\<close>)
  then show ?thesis using more [OF assms(1)] by (simp add: sem_at_def)
qed

lemma serial_example: "sem_reach True 1 2 (sem_at 1 0 1 [Outside, Asleep] 1)"
proof -
  have 0: "sem_reach True 1 2 (sem_at 1 1 0 [Outside, Outside] 0)" using sem_at_start [of True 1 2] by (simp add: numeral_2_eq_2)
  have 1: "sem_reach True 1 2 (sem_at 1 0 0 [Outside, Outside] 1)" using sem_at_enter [OF 0, of 0] by simp
  show ?thesis using sem_at_enter [OF 1, of 1] by simp
qed

theorem semaphore_bounds_holders_witness:
  "cc_held (sem_at 1 0 1 [Outside, Asleep] 1) \<le> unat (1 :: u32) \<and>
   KineticCountingSemaphore_Give (cc_sem (sem_at 1 0 1 [Outside, Asleep] 1)) \<noteq> None"
proof -
  have "0 < cc_held (sem_at 1 0 1 [Outside, Asleep] 1)" by (simp add: sem_at_def)
  then show ?thesis using semaphore_bounds_holders [OF serial_example] by simp
qed

section \<open>Wake-ups\<close>

definition serial_inv :: "sem_state \<Rightarrow> bool" where
  "serial_inv s \<longleftrightarrow> in_take (cc_takers s) \<le> 1 \<and> (Asleep \<in> set (cc_takers s) \<longrightarrow> cs_count (cc_sem s) = 0)"

lemma in_take_pos: "t \<in> set ts \<Longrightarrow> t \<noteq> Outside \<Longrightarrow> 0 < in_take ts"
  by (auto simp: in_take_def filter_empty_conv)

lemma in_take_0: "in_take ts = 0 \<longleftrightarrow> (\<forall>t \<in> set ts. t = Outside)"
  by (auto simp: in_take_def filter_empty_conv)

lemma single_taker:
  assumes "in_take ts \<le> 1" "i < length ts" "ts ! i \<noteq> Outside" "t \<noteq> Asleep"
  shows "Asleep \<notin> set (ts[i := t])"
proof
  assume a: "Asleep \<in> set (ts[i := t])"
  have "in_take (ts[i := Outside]) = 0" using in_take_update [OF assms(2), of Outside] assms(1,3) by simp
  then have o: "\<forall>t \<in> set (ts[i := Outside]). t = Outside" by (simp add: in_take_0)
  from a obtain j where "j < length ts" "ts[i := t] ! j = Asleep" by (auto simp: in_set_conv_nth)
  moreover have "j \<noteq> i" using calculation assms(2,4) by auto
  ultimately have "ts[i := Outside] ! j = Asleep" "j < length (ts[i := Outside])" by simp_all
  with o show False by (metis nth_mem taker.distinct(1))
qed

lemma after_try_serial:
  assumes "i < length (cc_takers s)" "in_take ((cc_takers s)[i := Asleep]) \<le> 1"
  shows "serial_inv (after_try s sem i)"
proof (cases "cs_count sem = 0")
  case True
  then show ?thesis using assms by (simp add: after_try_def take_try_def serial_inv_def)
next
  case False
  have "in_take ((cc_takers s)[i := Outside]) = 0"
    using in_take_update [OF assms(1), of Asleep] in_take_update [OF assms(1), of Outside] assms(2) by simp
  then have "in_take ((cc_takers s)[i := Outside]) = 0" "Asleep \<notin> set ((cc_takers s)[i := Outside])"
    using in_take_0 by blast+
  then show ?thesis using False by (simp add: after_try_def take_try_def serial_inv_def)
qed

lemma sem_step_serial:
  assumes "sem_step True s s'" "sem_inv counts threads s" "serial_inv s"
  shows "serial_inv s'"
  using assms(1)
proof cases
  case (enter i)
  have "in_take (cc_takers s) = 0" using enter(4) by (simp add: in_take_0)
  then have "in_take ((cc_takers s)[i := Asleep]) \<le> 1" using in_take_update [OF enter(2), of Asleep] enter(3) by simp
  then show ?thesis unfolding enter(1) by (rule after_try_serial [OF enter(2)])
next
  case (retry i)
  have "in_take ((cc_takers s)[i := Asleep]) \<le> 1"
    using in_take_update [OF retry(2), of Asleep] retry(3) assms(3) by (simp add: serial_inv_def)
  then show ?thesis unfolding retry(1) by (rule after_try_serial [OF retry(2)])
next
  case (spurious i)
  then show ?thesis
    using assms(3) in_take_Woken [OF spurious(2,3)] single_taker [of "cc_takers s" i Woken] by (simp add: serial_inv_def)
next
  case (give_signal sem' i)
  then show ?thesis
    using assms(3) in_take_Woken [OF give_signal(4,5)] single_taker [of "cc_takers s" i Woken] by (simp add: serial_inv_def)
next
  case (give_silent b sem')
  have "Asleep \<notin> set (cc_takers s)"
  proof
    assume a: "Asleep \<in> set (cc_takers s)"
    then have "cs_count (cc_sem s) = 0" "0 < in_take (cc_takers s)" using assms(3) in_take_pos by (auto simp: serial_inv_def)
    then have b using give_inv [OF assms(2) give_silent(2)] give_silent(3) by auto
    then show False using give_silent(4) a by simp
  qed
  then show ?thesis using assms(3) give_silent(1) by (simp add: serial_inv_def)
qed

lemma sem_reach_serial:
  assumes "sem_reach True counts threads s" "threads < 2 ^ 32"
  shows "serial_inv s"
  using assms(1)
proof induction
  case (start sem)
  then show ?case by (auto simp: serial_inv_def in_take_def)
next
  case (more s s')
  then show ?case using sem_step_serial sem_reach_inv [OF more(1) assms(2)] by blast
qed

text \<open>C18: Used as the library uses it, with the session's send mutex held around \<^verbatim>\<open>Take\<close>, the counting
  semaphore loses no wake-up: a thread asleep in \<^verbatim>\<open>Take\<close> means that every slot is held, and whichever
  step gives one back wakes that thread, which then finds a slot free.\<close>

theorem no_lost_wakeup_under_send_mutex:
  assumes "sem_reach True counts threads s" "threads < 2 ^ 32" "i < length (cc_takers s)" "cc_takers s ! i = Asleep"
  shows "cs_count (cc_sem s) = 0 \<and> cc_held s = unat counts \<and>
    (\<forall>s'. sem_step True s s' \<longrightarrow> cc_held s' < cc_held s \<longrightarrow> cc_takers s' ! i = Woken \<and> take_try (cc_sem s') \<noteq> None)"
proof -
  note inv = sem_reach_inv [OF assms(1,2)] and ser = sem_reach_serial [OF assms(1,2)]
  have a: "Asleep \<in> set (cc_takers s)" using assms(3,4) nth_mem by metis
  then have c: "cs_count (cc_sem s) = 0" using ser by (simp add: serial_inv_def)
  have "cc_takers s' ! i = Woken \<and> take_try (cc_sem s') \<noteq> None" if st: "sem_step True s s'" and l: "cc_held s' < cc_held s" for s'
    using st
  proof cases
    case (enter j)
    then show ?thesis using l by (auto simp: after_try_def split: option.splits)
  next
    case (retry j)
    then show ?thesis using l by (auto simp: after_try_def split: option.splits)
  next
    case (spurious j)
    then show ?thesis using l by simp
  next
    case (give_signal sem' j)
    have "Asleep \<notin> set ((cc_takers s)[j := Woken])"
      using single_taker [OF _ give_signal(4), of Woken] give_signal(5) ser by (simp add: serial_inv_def)
    then have "i = j" using assms(3,4) by (metis length_list_update nth_list_update_neq nth_mem)
    moreover have "0 < cs_count sem'" using give_inv [OF inv give_signal(2)] give_signal(3) by auto
    ultimately show ?thesis using give_signal(1,4) by (auto simp: take_try_def)
  next
    case (give_silent b sem')
    have "b" using give_inv [OF inv give_silent(2)] give_silent(3) c in_take_pos [OF a] by auto
    then show ?thesis using give_silent(4) a by simp
  qed
  then show ?thesis using c inv by (simp add: sem_inv_def)
qed

theorem no_lost_wakeup_under_send_mutex_witness:
  "cs_count (cc_sem (sem_at 1 0 1 [Outside, Asleep] 1)) = 0 \<and> cc_held (sem_at 1 0 1 [Outside, Asleep] 1) = unat (1 :: u32)"
proof -
  have "1 < length (cc_takers (sem_at 1 0 1 [Outside, Asleep] 1))" "cc_takers (sem_at 1 0 1 [Outside, Asleep] 1) ! 1 = Asleep"
    by (simp_all add: sem_at_def)
  then show ?thesis using no_lost_wakeup_under_send_mutex [OF serial_example] by simp
qed

text \<open>Without such a mutex \<^verbatim>\<open>Give\<close> loses wake-ups, because it signals only when the count was zero:
  with two slots and two sleeping threads, two threads giving back one after the other wake only one, and when that one is done
  too, both slots are free, none is held, and a thread sleeps on with nobody left to wake it.\<close>

theorem wakeup_lost_without_mutex:
  "\<exists>s. sem_reach False 2 2 s \<and> cs_count (cc_sem s) = cs_max (cc_sem s) \<and> cc_held s = 0 \<and>
     Asleep \<in> set (cc_takers s) \<and> Woken \<notin> set (cc_takers s)"
proof -
  have 0: "sem_reach False 2 2 (sem_at 2 2 0 [Outside, Outside] 0)" using sem_at_start [of False 2 2] by (simp add: numeral_2_eq_2)
  have 1: "sem_reach False 2 2 (sem_at 2 1 0 [Outside, Outside] 1)" using sem_at_enter [OF 0, of 0] by simp
  have 2: "sem_reach False 2 2 (sem_at 2 0 0 [Outside, Outside] 2)" using sem_at_enter [OF 1, of 0] by (simp add: numeral_2_eq_2)
  have 3: "sem_reach False 2 2 (sem_at 2 0 1 [Asleep, Outside] 2)" using sem_at_enter [OF 2, of 0] by simp
  have 4: "sem_reach False 2 2 (sem_at 2 0 2 [Asleep, Asleep] 2)" using sem_at_enter [OF 3, of 1] by simp
  have 5: "sem_reach False 2 2 (sem_at 2 1 2 [Woken, Asleep] 1)" using sem_at_give_signal [OF 4, of 0] by simp
  have 6: "sem_reach False 2 2 (sem_at 2 2 2 [Woken, Asleep] 0)" using sem_at_give_silent [OF 5] by simp
  have 7: "sem_reach False 2 2 (sem_at 2 1 1 [Outside, Asleep] 1)" using sem_at_retry [OF 6, of 0] by simp
  have 8: "sem_reach False 2 2 (sem_at 2 2 1 [Outside, Asleep] 0)" using sem_at_give_silent [OF 7] by simp
  then show ?thesis by (intro exI [of _ "sem_at 2 2 1 [Outside, Asleep] 0"]) (simp add: sem_at_def)
qed

section \<open>Waiting for a resource\<close>

record KineticResourceWaiter =
  rw_ready :: bool
  rw_num_waiting :: u32

definition KineticResourceWaiter_Init :: KineticResourceWaiter where
  "KineticResourceWaiter_Init = \<lparr>rw_ready = False, rw_num_waiting = 0\<rparr>"

text \<open>Result: whether the condition is signalled, and the new state.\<close>

definition KineticResourceWaiter_SetAvailable :: "KineticResourceWaiter \<Rightarrow> bool \<times> KineticResourceWaiter" where
  "KineticResourceWaiter_SetAvailable w = (rw_num_waiting w > 0, w\<lparr>rw_ready := True\<rparr>)"

text \<open>Each timed wait gives its result code, and the state as the other threads left it; \<open>None\<close>
  when the list of waits is used up.\<close>

fun wait_loop :: "bool \<Rightarrow> int \<Rightarrow> (int \<times> bool) list \<Rightarrow> (int \<times> bool) option" where
  "wait_loop ready rc waits =
     (if ready \<or> rc \<noteq> 0 then Some (rc, ready)
      else case waits of [] \<Rightarrow> None | (rc', ready') # ws \<Rightarrow> wait_loop ready' rc' ws)"

declare wait_loop.simps [simp del]

definition KineticResourceWaiter_WaitTilAvailable :: "KineticResourceWaiter \<Rightarrow> (int \<times> bool) list \<Rightarrow> (bool \<times> KineticResourceWaiter) option" where
  "KineticResourceWaiter_WaitTilAvailable w waits =
     do { (rc, ready) \<leftarrow> wait_loop (rw_ready w) 0 waits;
          Some (rc = 0, w\<lparr>rw_ready := ready\<rparr>) }"

lemma wait_loop_ready: "wait_loop ready rc waits = Some (0, ready') \<Longrightarrow> ready'"
proof (induction ready rc waits rule: wait_loop.induct)
  case (1 ready rc waits)
  then show ?case by (subst (asm) wait_loop.simps) (auto split: if_splits list.splits)
qed

lemma wait_loop_ends:
  assumes "\<exists>w \<in> set waits. fst w \<noteq> 0 \<or> snd w"
  shows "\<exists>r. wait_loop ready rc waits = Some r"
  using assms
proof (induction waits arbitrary: ready rc)
  case (Cons w ws)
  obtain rc' ready' where w: "w = (rc', ready')" by fastforce
  show ?case
  proof (cases "rc' \<noteq> 0 \<or> ready'")
    case True
    then have "wait_loop ready' rc' ws = Some (rc', ready')" by (subst wait_loop.simps) auto
    then show ?thesis by (subst wait_loop.simps) (simp add: w)
  next
    case False
    then show ?thesis using Cons by (subst wait_loop.simps) (simp add: w)
  qed
qed simp

section \<open>The signal semaphore\<close>

text \<open>\<open>None\<close> after it was freed.\<close>

type_synonym signal_sem = "bool option"

definition KineticSemaphore_Create :: "bool \<Rightarrow> signal_sem" where
  "KineticSemaphore_Create calloc_ok = (if calloc_ok then Some False else None)"

definition KineticSemaphore_Signal :: "signal_sem \<Rightarrow> signal_sem option" where
  "KineticSemaphore_Signal sem = (case sem of None \<Rightarrow> None | Some _ \<Rightarrow> Some (Some True))"

definition KineticSemaphore_CheckSignaled :: "signal_sem \<Rightarrow> bool option" where
  "KineticSemaphore_CheckSignaled sem = sem"

definition KineticSemaphore_DestroyIfSignaled :: "signal_sem \<Rightarrow> (bool \<times> signal_sem) option" where
  "KineticSemaphore_DestroyIfSignaled sem =
     (case sem of None \<Rightarrow> None | Some signaled \<Rightarrow> Some (if signaled then (True, None) else (False, sem)))"

text \<open>The wait is one call, not a loop; \<open>woken\<close> is the flag when \<^verbatim>\<open>pthread_cond_wait\<close> returns.\<close>

definition KineticSemaphore_WaitForSignalAndDestroy :: "signal_sem \<Rightarrow> bool \<Rightarrow> (bool \<times> signal_sem) option" where
  "KineticSemaphore_WaitForSignalAndDestroy sem woken =
     (case sem of None \<Rightarrow> None | Some signaled \<Rightarrow> Some (signaled \<or> woken, None))"

text \<open>A wait that wakes by itself returns before the signal, which then finds the object freed.\<close>

lemma spurious_wakeup_frees_early:
  "do { (signaled, sem) \<leftarrow> KineticSemaphore_WaitForSignalAndDestroy (KineticSemaphore_Create True) False;
        KineticSemaphore_Signal sem } = None"
  by (simp add: KineticSemaphore_WaitForSignalAndDestroy_def KineticSemaphore_Create_def KineticSemaphore_Signal_def)

end
