(* ===== verification/Kinetic_Session.thy ===== *)
theory Kinetic_Session
  imports Kinetic_Auth Semaphores
begin

text \<open>
  Responses and sessions: unpacking of a received unit (\<^verbatim>\<open>unpack_cb\<close> in \<^verbatim>\<open>kinetic_bus.c\<close>), the accessors of
  \<^verbatim>\<open>kinetic_response.c\<close>, unsolicited messages (\<^verbatim>\<open>KineticController_HandleUnexpectedResponse\<close>), and
  \<^verbatim>\<open>kinetic_session.c\<close>. What the calls into the socket, the bus and the allocator give are inputs;
  what a session does to the outside is a list of events.
\<close>

section \<open>Responses\<close>

record ('l, 'a) KineticResponse =
  rs_header :: KineticPDUHeader
  rs_proto :: "Message option"
  rs_command :: "('l, 'a) Command option"
  rs_value :: "u8 list"

definition KineticResponse_GetProtobufLength :: "('l, 'a) KineticResponse \<Rightarrow> u32" where
  "KineticResponse_GetProtobufLength r = protobufLength (rs_header r)"

definition KineticResponse_GetValueLength :: "('l, 'a) KineticResponse \<Rightarrow> u32" where
  "KineticResponse_GetValueLength r = valueLength (rs_header r)"

definition KineticResponse_GetStatus :: "('l, 'a) KineticResponse option \<Rightarrow> KineticStatus" where
  "KineticResponse_GetStatus ro =
     (case Option.bind (Option.bind ro rs_command) cm_status of
        Some st \<Rightarrow> if st_has_code st then KineticProtoStatusCode_to_KineticStatus (st_code st) else KINETIC_STATUS_INVALID
      | None \<Rightarrow> KINETIC_STATUS_INVALID)"

definition KineticResponse_GetConnectionID :: "('l, 'a) KineticResponse \<Rightarrow> int option" where
  "KineticResponse_GetConnectionID r =
     do { proto \<leftarrow> rs_proto r;
          Some (if ms_authtype proto = AUTH_TYPE_UNSOLICITEDSTATUS then
                  (case Option.bind (rs_command r) cm_header of
                     Some h \<Rightarrow> if hd_has_connectionid h then hd_connectionid h else 0
                   | None \<Rightarrow> 0)
                else 0) }"

definition KineticResponse_GetKeyValue :: "('l, 'a) KineticResponse option \<Rightarrow> KeyValue option" where
  "KineticResponse_GetKeyValue ro = Option.bind (Option.bind (Option.bind ro rs_command) cm_body) bd_keyvalue"

definition KineticResponse_GetKeyRange :: "('l, 'a) KineticResponse option \<Rightarrow> Range option" where
  "KineticResponse_GetKeyRange ro =
     (case ro of Some r \<Rightarrow> if rs_proto r = None then None else Option.bind (Option.bind (rs_command r) cm_body) bd_range
      | None \<Rightarrow> None)"

section \<open>Unpacking\<close>

datatype ('l, 'a) unpack_result = Unpack_Error unpack_error | Unpack_Success int "('l, 'a) KineticResponse"

text \<open>\<open>unpack_message\<close> and \<open>unpack_command\<close> are the generated protobuf decoders; \<open>None\<close> is a null result.\<close>

definition unpack_cb ::
  "(u8 list \<Rightarrow> Message option) \<Rightarrow> (u8 list \<Rightarrow> ('l, 'a) Command option) \<Rightarrow> int \<Rightarrow> bool \<Rightarrow> socket_info \<Rightarrow> ('l, 'a) unpack_result option" where
  "unpack_cb unpack_message unpack_command connectionID alloc_ok si =
     (if si_unpack_status si \<noteq> UNPACK_ERROR_SUCCESS then Some (Unpack_Error (si_unpack_status si))
      else if \<not> alloc_ok then Some (Unpack_Error UNPACK_ERROR_PAYLOAD_MALLOC_FAIL)
      else do {
        let h = si_header si;
        proto \<leftarrow> unpack_message (take (unat (protobufLength h)) (si_buf si));
        let command = (case ms_commandbytes proto of
            Some bytes \<Rightarrow> if ms_has_commandbytes proto \<and> bytes \<noteq> [] then unpack_command bytes else None
          | None \<Rightarrow> None);
        let value = (if valueLength h > 0 then take (unat (valueLength h)) (drop (unat (protobufLength h)) (si_buf si)) else []);
        let seq_id = (case Option.bind command cm_header of
            Some ch \<Rightarrow> if ms_has_authtype proto \<and> ms_authtype proto = AUTH_TYPE_UNSOLICITEDSTATUS \<and> connectionID = 0
                       then BUS_NO_SEQ_ID else hd_acksequence ch
          | None \<Rightarrow> BUS_NO_SEQ_ID);
        Some (Unpack_Success seq_id \<lparr>rs_header = h, rs_proto = Some proto, rs_command = command, rs_value = value\<rparr>) })"

section \<open>Sessions\<close>

definition KINETIC_SOCKET_INVALID :: int where "KINETIC_SOCKET_INVALID = -1"
definition KINETIC_MAX_OUTSTANDING_OPERATIONS_PER_SESSION :: u32 where "KINETIC_MAX_OUTSTANDING_OPERATIONS_PER_SESSION = 10"

record KineticSession =
  ss_config :: KineticSessionConfig
  ss_connected :: bool
  ss_terminationStatus :: KineticStatus
  ss_socket :: int
  ss_connectionID :: int
  ss_sequence :: "64 word"
  ss_si :: "socket_info option"
  ss_sendMutex :: bool
  ss_connectionReady :: KineticResourceWaiter
  ss_outstandingOperations :: "KineticCountingSemaphore option"
  ss_timeoutSeconds :: u16

datatype session_event = Ses_Opened int | Ses_Registered int | Ses_Closed int | Ses_Released int | Ses_Freed_si

definition KINETIC_MAX_KEY_LEN :: nat where "KINETIC_MAX_KEY_LEN = 4096"

text \<open>The key is copied into an array of 4096 bytes; a longer one is written past it.\<close>

definition KineticAllocator_NewSession :: "KineticSessionConfig \<Rightarrow> bool \<Rightarrow> KineticSession option option" where
  "KineticAllocator_NewSession config calloc_ok =
     (if \<not> calloc_ok then Some None
      else do {
        key \<leftarrow> sc_hmacKey config;
        c_assert (length key \<le> KINETIC_MAX_KEY_LEN);
        Some (Some \<lparr>ss_config = config, ss_connected = False, ss_terminationStatus = KINETIC_STATUS_SUCCESS,
          ss_socket = KINETIC_SOCKET_INVALID, ss_connectionID = 0, ss_sequence = 0, ss_si = None, ss_sendMutex = False,
          ss_connectionReady = KineticResourceWaiter_Init, ss_outstandingOperations = None,
          ss_timeoutSeconds = sc_timeoutSeconds config\<rparr>) })"

definition KineticSession_Create :: "KineticSession option \<Rightarrow> bool \<Rightarrow> bool \<Rightarrow> bool \<Rightarrow> KineticStatus \<times> KineticSession option" where
  "KineticSession_Create so client_ok mutex_ok sem_ok =
     (case so of
        None \<Rightarrow> (KINETIC_STATUS_SESSION_EMPTY, so)
      | Some s \<Rightarrow>
          if \<not> client_ok then (KINETIC_STATUS_SESSION_EMPTY, so)
          else
            let s1 = s\<lparr>ss_connected := False, ss_socket := KINETIC_SOCKET_INVALID\<rparr> in
            if \<not> mutex_ok then (KINETIC_STATUS_MEMORY_ERROR, Some s1)
            else
              let sem = KineticCountingSemaphore_Create KINETIC_MAX_OUTSTANDING_OPERATIONS_PER_SESSION sem_ok;
                  s2 = s1\<lparr>ss_sendMutex := True, ss_outstandingOperations := sem\<rparr>
              in (if sem = None then KINETIC_STATUS_MEMORY_ERROR else KINETIC_STATUS_SUCCESS, Some s2))"

definition KineticSession_GetTerminationStatus :: "KineticSession option \<Rightarrow> KineticStatus" where
  "KineticSession_GetTerminationStatus so = (case so of None \<Rightarrow> KINETIC_STATUS_SESSION_INVALID | Some s \<Rightarrow> ss_terminationStatus s)"

definition KineticSession_SetTerminationStatus :: "KineticStatus \<Rightarrow> KineticSession \<Rightarrow> KineticSession" where
  "KineticSession_SetTerminationStatus status s = s\<lparr>ss_terminationStatus := status\<rparr>"

definition KineticSession_GetNextSequenceCount :: "KineticSession \<Rightarrow> int \<times> KineticSession" where
  "KineticSession_GetNextSequenceCount s = (sint (ss_sequence s), s\<lparr>ss_sequence := ss_sequence s + 1\<rparr>)"

definition KineticSession_GetClusterVersion :: "KineticSession \<Rightarrow> int" where
  "KineticSession_GetClusterVersion s = sc_clusterVersion (ss_config s)"

definition KineticSession_SetClusterVersion :: "int \<Rightarrow> KineticSession \<Rightarrow> KineticSession" where
  "KineticSession_SetClusterVersion v s = s\<lparr>ss_config := (ss_config s)\<lparr>sc_clusterVersion := v\<rparr>\<rparr>"

definition KineticSession_GetConnectionID :: "KineticSession \<Rightarrow> int" where
  "KineticSession_GetConnectionID s = ss_connectionID s"

definition KineticSession_SetConnectionID :: "int \<Rightarrow> KineticSession \<Rightarrow> KineticSession" where
  "KineticSession_SetConnectionID i s = s\<lparr>ss_connectionID := i\<rparr>"

section \<open>Unsolicited messages\<close>

definition KineticController_HandleUnexpectedResponse :: "('l, 'a) KineticResponse \<Rightarrow> KineticSession \<Rightarrow> KineticSession option" where
  "KineticController_HandleUnexpectedResponse r s =
     do { proto \<leftarrow> rs_proto r;
          if ms_authtype proto = AUTH_TYPE_UNSOLICITEDSTATUS then
            do { connectionID \<leftarrow> KineticResponse_GetConnectionID r;
                 if connectionID \<noteq> 0 then
                   let s1 = KineticSession_SetConnectionID connectionID s
                   in Some (s1\<lparr>ss_connectionReady := snd (KineticResourceWaiter_SetAvailable (ss_connectionReady s1))\<rparr>)
                 else Some (KineticSession_SetTerminationStatus (KineticResponse_GetStatus (Some r)) s) }
          else Some s }"

section \<open>Connecting\<close>

text \<open>While the connecting thread waits, the listener's thread hands over messages.\<close>

fun handle_all :: "('l, 'a) KineticResponse list \<Rightarrow> KineticSession \<Rightarrow> KineticSession option" where
  "handle_all [] s = Some s"
| "handle_all (r # rs) s = do { s' \<leftarrow> KineticController_HandleUnexpectedResponse r s; handle_all rs s' }"

fun wait_connection ::
  "KineticSession \<Rightarrow> int \<Rightarrow> (int \<times> ('l, 'a) KineticResponse list) list \<Rightarrow> (int \<times> KineticSession) option" where
  "wait_connection s rc waits =
     (if rw_ready (ss_connectionReady s) \<or> rc \<noteq> 0 then Some (rc, s)
      else case waits of
        [] \<Rightarrow> None
      | (rc', rs) # ws \<Rightarrow> do { s' \<leftarrow> handle_all rs s; wait_connection s' rc' ws })"

declare wait_connection.simps [simp del]

text \<open>The descriptor \<^verbatim>\<open>KineticSocket_Connect\<close> gives, whether memory and the bus accept, and the waits.\<close>

record ('l, 'a) connect_input =
  ci_socket :: int
  ci_calloc :: bool
  ci_register :: bool
  ci_waits :: "(int \<times> ('l, 'a) KineticResponse list) list"

definition connection_error_cleanup :: "KineticSession \<Rightarrow> session_event list \<times> KineticSession" where
  "connection_error_cleanup s =
     ((if ss_si s = None then [] else [Ses_Freed_si]) @
      (if ss_socket s = KINETIC_SOCKET_INVALID then [] else [Ses_Closed (ss_socket s)]),
      s\<lparr>ss_si := None, ss_socket := KINETIC_SOCKET_INVALID, ss_connected := False\<rparr>)"

definition KineticSession_Connect ::
  "KineticSession option \<Rightarrow> ('l, 'a) connect_input \<Rightarrow> (KineticStatus \<times> session_event list \<times> KineticSession option) option" where
  "KineticSession_Connect so inp =
     (case so of
        None \<Rightarrow> Some (KINETIC_STATUS_SESSION_EMPTY, [], None)
      | Some s \<Rightarrow>
          do { c_assert (sc_host (ss_config s) \<noteq> []);
               let s1 = s\<lparr>ss_socket := ci_socket inp\<rparr>;
               if ss_socket s1 = KINETIC_SOCKET_INVALID
               then Some (KINETIC_STATUS_CONNECTION_ERROR, [], Some (s1\<lparr>ss_connected := False\<rparr>))
               else do {
                 let s2 = s1\<lparr>ss_connected := True, ss_si := (if ci_calloc inp then Some new_socket_info else None)\<rparr>;
                 let opened = Ses_Opened (ss_socket s2);
                 if ss_si s2 = None then Some (KINETIC_STATUS_MEMORY_ERROR, [opened], Some s2)
                 else if \<not> ci_register inp then
                   (let (evs, s3) = connection_error_cleanup s2 in Some (KINETIC_STATUS_CONNECTION_ERROR, opened # evs, Some s3))
                 else do {
                   (rc, s3) \<leftarrow> wait_connection s2 0 (ci_waits inp);
                   if rc = 0 then Some (KINETIC_STATUS_SUCCESS, [opened, Ses_Registered (ss_socket s3)], Some s3)
                   else (let (evs, s4) = connection_error_cleanup s3
                         in Some (KINETIC_STATUS_CONNECTION_ERROR, [opened, Ses_Registered (ss_socket s3)] @ evs, Some s4)) } } })"

definition KineticSession_Disconnect :: "KineticSession option \<Rightarrow> KineticStatus \<times> session_event list \<times> KineticSession option" where
  "KineticSession_Disconnect so =
     (case so of
        None \<Rightarrow> (KINETIC_STATUS_SESSION_EMPTY, [], None)
      | Some s \<Rightarrow>
          if \<not> ss_connected s \<or> ss_socket s < 0 then (KINETIC_STATUS_CONNECTION_ERROR, [], so)
          else (KINETIC_STATUS_SUCCESS, [Ses_Closed (ss_socket s), Ses_Released (ss_socket s), Ses_Freed_si],
                Some (s\<lparr>ss_si := None, ss_socket := KINETIC_SOCKET_INVALID, ss_connected := False, ss_sendMutex := False\<rparr>)))"

section \<open>Outcome of connecting\<close>

text \<open>What a message from the listener can change of a session, and that readiness brings a connection id.\<close>

definition keeps :: "KineticSession \<Rightarrow> KineticSession \<Rightarrow> bool" where
  "keeps s s' \<longleftrightarrow> ss_config s' = ss_config s \<and> ss_connected s' = ss_connected s \<and> ss_socket s' = ss_socket s \<and> ss_si s' = ss_si s \<and>
     ss_sequence s' = ss_sequence s \<and> ss_outstandingOperations s' = ss_outstandingOperations s"

definition ready_inv :: "KineticSession \<Rightarrow> bool" where
  "ready_inv s \<longleftrightarrow> rw_ready (ss_connectionReady s) \<longrightarrow> ss_connectionID s \<noteq> 0"

lemma keeps_refl: "keeps s s"
  by (simp add: keeps_def)

lemma keeps_trans: "keeps s t \<Longrightarrow> keeps t u \<Longrightarrow> keeps s u"
  by (simp add: keeps_def)

lemma Unexpected_cases:
  assumes "KineticController_HandleUnexpectedResponse r s = Some s'"
  obtains (ignored) "s' = s"
  | (connected) c where "c \<noteq> 0" "s' = s\<lparr>ss_connectionID := c, ss_connectionReady := (ss_connectionReady s)\<lparr>rw_ready := True\<rparr>\<rparr>"
  | (terminated) "s' = s\<lparr>ss_terminationStatus := KineticResponse_GetStatus (Some r)\<rparr>"
proof -
  from assms obtain proto where p: "rs_proto r = Some proto" by (auto simp: KineticController_HandleUnexpectedResponse_def bind_Some_iff)
  show thesis
  proof (cases "ms_authtype proto = AUTH_TYPE_UNSOLICITEDSTATUS")
    case True
    with p obtain c where "KineticResponse_GetConnectionID r = Some c" by (auto simp: KineticResponse_GetConnectionID_def)
    with assms p True show thesis using connected [of c] terminated
      by (cases "c = 0") (simp_all add: KineticController_HandleUnexpectedResponse_def KineticSession_SetConnectionID_def
        KineticSession_SetTerminationStatus_def KineticResourceWaiter_SetAvailable_def)
  next
    case False
    with assms p show thesis using ignored by (simp add: KineticController_HandleUnexpectedResponse_def)
  qed
qed

lemma Unexpected_keeps:
  assumes "KineticController_HandleUnexpectedResponse r s = Some s'"
  shows "keeps s s'" "ready_inv s \<Longrightarrow> ready_inv s'"
  using assms by (cases rule: Unexpected_cases; simp add: keeps_def ready_inv_def)+

lemma Unexpected_returns:
  assumes "rs_proto r \<noteq> None"
  shows "\<exists>s'. KineticController_HandleUnexpectedResponse r s = Some s'"
  using assms by (auto simp: KineticController_HandleUnexpectedResponse_def KineticResponse_GetConnectionID_def Let_def)

lemma handle_all_keeps:
  assumes "handle_all rs s = Some s'"
  shows "keeps s s' \<and> (ready_inv s \<longrightarrow> ready_inv s')"
  using assms
proof (induction rs arbitrary: s)
  case (Cons r rs)
  then obtain s1 where "KineticController_HandleUnexpectedResponse r s = Some s1" "handle_all rs s1 = Some s'" by (auto simp: bind_Some_iff)
  then show ?case using Cons.IH Unexpected_keeps keeps_trans by blast
qed (simp add: keeps_refl)

lemma handle_all_returns:
  assumes "\<forall>r \<in> set rs. rs_proto r \<noteq> None"
  shows "\<exists>s'. handle_all rs s = Some s'"
  using assms
proof (induction rs arbitrary: s)
  case (Cons r rs)
  then obtain s1 where "KineticController_HandleUnexpectedResponse r s = Some s1" using Unexpected_returns [of r s] by auto
  then show ?case using Cons by simp
qed simp

lemma wait_connection_outcome:
  assumes "wait_connection s rc waits = Some (rc', s')" "ready_inv s"
  shows "keeps s s' \<and> ready_inv s' \<and> (rc' = 0 \<longrightarrow> rw_ready (ss_connectionReady s'))"
  using assms
proof (induction waits arbitrary: s rc)
  case Nil
  then show ?case by (subst (asm) wait_connection.simps) (auto simp: keeps_refl split: if_splits)
next
  case (Cons w ws)
  obtain c rs where w: "w = (c, rs)" by fastforce
  show ?case
  proof (cases "rw_ready (ss_connectionReady s) \<or> rc \<noteq> 0")
    case True
    then show ?thesis using Cons.prems by (subst (asm) wait_connection.simps) (auto simp: keeps_refl)
  next
    case False
    then obtain s1 where "handle_all rs s = Some s1" "wait_connection s1 c ws = Some (rc', s')"
      using Cons.prems(1) by (subst (asm) wait_connection.simps) (auto simp: w bind_Some_iff)
    then show ?thesis using Cons.IH [of s1 c] handle_all_keeps [of rs s s1] Cons.prems(2) keeps_trans by blast
  qed
qed

lemma wait_connection_returns:
  assumes "\<forall>(c, rs) \<in> set waits. \<forall>r \<in> set rs. rs_proto r \<noteq> None" "\<exists>(c, rs) \<in> set waits. c \<noteq> 0"
  shows "\<exists>rc' s'. wait_connection s rc waits = Some (rc', s')"
  using assms
proof (induction waits arbitrary: s rc)
  case (Cons w ws)
  obtain c rs where w: "w = (c, rs)" by fastforce
  show ?case
  proof (cases "rw_ready (ss_connectionReady s) \<or> rc \<noteq> 0")
    case True
    then show ?thesis by (subst wait_connection.simps) auto
  next
    case False
    obtain s1 where s1: "handle_all rs s = Some s1" using handle_all_returns [of rs s] Cons.prems(1) w by auto
    have "\<exists>rc' s'. wait_connection s1 c ws = Some (rc', s')"
    proof (cases "c \<noteq> 0")
      case True
      then show ?thesis by (subst wait_connection.simps) auto
    next
      case f: False
      then show ?thesis using Cons w by auto
    qed
    then show ?thesis using False s1 by (subst wait_connection.simps) (auto simp: w)
  qed
qed simp

text \<open>What a successful connect leaves of a session.\<close>

lemma Connect_success:
  assumes "KineticSession_Connect (Some s) inp = Some (KINETIC_STATUS_SUCCESS, evs, so)" "\<not> rw_ready (ss_connectionReady s)"
  obtains s' where "so = Some s'" "ss_socket s' = ci_socket inp" "ss_sequence s' = ss_sequence s"
    "ss_outstandingOperations s' = ss_outstandingOperations s"
proof -
  let ?s2 = "s\<lparr>ss_socket := ci_socket inp, ss_connected := True, ss_si := Some new_socket_info\<rparr>"
  from assms(1) obtain s3 where w: "wait_connection ?s2 0 (ci_waits inp) = Some (0, s3)" "so = Some s3"
    by (auto simp: KineticSession_Connect_def Let_def bind_Some_iff connection_error_cleanup_def split: if_splits)
  have "ready_inv ?s2" using assms(2) by (simp add: ready_inv_def)
  from wait_connection_outcome [OF w(1) this] have "keeps ?s2 s3" by blast
  then show thesis using that w(2) by (simp add: keeps_def)
qed

text \<open>C26: Connecting a new session returns, once every wait for the connection id ends and no malformed message is
  delivered: on success the session is connected, registered and has a non-zero connection id; on
  a connection error the descriptor that was opened is closed and the session has none. Two of the code's paths
  break this bookkeeping: when memory runs out the session is left connected with its socket open, and
  when the wait times out the socket is closed but stays registered with the bus, whose receive state was
  freed.\<close>

theorem connect_outcomes:
  assumes "sc_host (ss_config s) \<noteq> []" "\<not> rw_ready (ss_connectionReady s)"
    "\<forall>(c, rs) \<in> set (ci_waits inp). \<forall>r \<in> set rs. rs_proto r \<noteq> None" "\<exists>(c, rs) \<in> set (ci_waits inp). c \<noteq> 0"
  shows "\<exists>st evs s'. KineticSession_Connect (Some s) inp = Some (st, evs, Some s') \<and>
    (st = KINETIC_STATUS_SUCCESS \<longrightarrow> ss_connected s' \<and> ss_socket s' = ci_socket inp \<and> ci_socket inp \<noteq> KINETIC_SOCKET_INVALID \<and>
       ss_si s' \<noteq> None \<and> ss_connectionID s' \<noteq> 0 \<and> evs = [Ses_Opened (ci_socket inp), Ses_Registered (ci_socket inp)]) \<and>
    (st = KINETIC_STATUS_CONNECTION_ERROR \<longrightarrow> \<not> ss_connected s' \<and> ss_socket s' = KINETIC_SOCKET_INVALID \<and>
       (\<forall>fd. Ses_Opened fd \<in> set evs \<longleftrightarrow> Ses_Closed fd \<in> set evs) \<and> (\<forall>fd. Ses_Released fd \<notin> set evs) \<and>
       (ci_socket inp \<noteq> KINETIC_SOCKET_INVALID \<and> ci_register inp \<longrightarrow> Ses_Registered (ci_socket inp) \<in> set evs \<and> Ses_Freed_si \<in> set evs)) \<and>
    (st = KINETIC_STATUS_MEMORY_ERROR \<longrightarrow> ss_connected s' \<and> evs = [Ses_Opened (ci_socket inp)]) \<and>
    st \<in> {KINETIC_STATUS_SUCCESS, KINETIC_STATUS_CONNECTION_ERROR, KINETIC_STATUS_MEMORY_ERROR}"
proof -
  let ?s2 = "s\<lparr>ss_socket := ci_socket inp, ss_connected := True, ss_si := Some new_socket_info\<rparr>"
  obtain rc s3 where w: "wait_connection ?s2 0 (ci_waits inp) = Some (rc, s3)" using wait_connection_returns [OF assms(3,4)] by blast
  have "ready_inv ?s2" using assms(2) by (simp add: ready_inv_def)
  from wait_connection_outcome [OF w this] have o: "ss_connected s3" "ss_socket s3 = ci_socket inp" "ss_si s3 = Some new_socket_info"
    "rc = 0 \<Longrightarrow> ss_connectionID s3 \<noteq> 0" by (auto simp: keeps_def ready_inv_def)
  show ?thesis
    using assms(1) w o
    by (cases "ci_socket inp = KINETIC_SOCKET_INVALID"; cases "ci_calloc inp"; cases "ci_register inp"; cases "rc = 0")
      (auto simp: KineticSession_Connect_def connection_error_cleanup_def Let_def)
qed

definition ex_status_message :: "(nat, nat) KineticResponse" where
  "ex_status_message = \<lparr>rs_header = zero_header,
     rs_proto = Some (init_message\<lparr>ms_has_authtype := True, ms_authtype := AUTH_TYPE_UNSOLICITEDSTATUS\<rparr>),
     rs_command = Some \<lparr>cm_header = Some (init_header\<lparr>hd_has_connectionid := True, hd_connectionid := 7\<rparr>), cm_body = None, cm_status = None\<rparr>,
     rs_value = []\<rparr>"

definition ex_session :: KineticSession where
  "ex_session = the (the (KineticAllocator_NewSession ex_config True))"

definition ex_connect :: "(nat, nat) connect_input" where
  "ex_connect = \<lparr>ci_socket = 5, ci_calloc = True, ci_register = True, ci_waits = [(0, [ex_status_message]), (110, [])]\<rparr>"

lemma ex_session_simps:
  "sc_host (ss_config ex_session) \<noteq> []" "\<not> rw_ready (ss_connectionReady ex_session)"
  by (simp_all add: ex_session_def KineticAllocator_NewSession_def ex_config_def KineticResourceWaiter_Init_def KINETIC_MAX_KEY_LEN_def)

theorem connect_outcomes_witness:
  "\<exists>s'. KineticSession_Connect (Some ex_session) ex_connect =
      Some (KINETIC_STATUS_SUCCESS, [Ses_Opened 5, Ses_Registered 5], Some s') \<and> ss_connected s' \<and> ss_connectionID s' \<noteq> 0"
proof -
  have i: "\<forall>(c, rs) \<in> set (ci_waits ex_connect). \<forall>r \<in> set rs. rs_proto r \<noteq> None" "\<exists>(c, rs) \<in> set (ci_waits ex_connect). c \<noteq> 0"
    by (simp_all add: ex_connect_def ex_status_message_def)
  let ?s2 = "ex_session\<lparr>ss_socket := 5, ss_connected := True, ss_si := Some new_socket_info\<rparr>"
  let ?s3 = "?s2\<lparr>ss_connectionID := 7, ss_connectionReady := (ss_connectionReady ex_session)\<lparr>rw_ready := True\<rparr>\<rparr>"
  have "handle_all [ex_status_message] ?s2 = Some ?s3"
    by (simp add: KineticController_HandleUnexpectedResponse_def ex_status_message_def KineticResponse_GetConnectionID_def
      KineticSession_SetConnectionID_def KineticResourceWaiter_SetAvailable_def)
  moreover have "wait_connection ?s3 0 [(110, [])] = Some (0, ?s3)" for s by (subst wait_connection.simps) simp
  ultimately have "wait_connection ?s2 0 (ci_waits ex_connect) = Some (0, ?s3)"
    using ex_session_simps(2) by (subst wait_connection.simps) (simp add: ex_connect_def)
  then have "\<exists>evs s'. KineticSession_Connect (Some ex_session) ex_connect = Some (KINETIC_STATUS_SUCCESS, evs, s')"
    using ex_session_simps(1) by (simp add: KineticSession_Connect_def ex_connect_def KINETIC_SOCKET_INVALID_def)
  then show ?thesis using connect_outcomes [OF ex_session_simps i] by (auto simp: ex_connect_def)
qed

end
