(* ===== verification/Kinetic_P2P.thy ===== *)
theory Kinetic_P2P
  imports Kinetic_Proto
begin

text \<open>
  Peer-to-peer operations: building the protobuf from the caller's tree (\<^verbatim>\<open>build_p2pOp\<close> in
  \<^verbatim>\<open>kinetic_builder.c\<close>), writing the results back (\<^verbatim>\<open>populateP2PStatusCodes\<close> in
  \<^verbatim>\<open>kinetic_callbacks.c\<close>) and freeing the protobuf (\<^verbatim>\<open>kinetic_allocator.c\<close>). The caller's tree is finite: the
  nesting of its pointers is a datatype.
\<close>

section \<open>Data\<close>

record KineticP2P_Peer =
  peer_hostname :: string
  peer_port :: int
  peer_tls :: bool

record P2P_Data =
  od_key :: byte_buffer
  od_version :: byte_buffer
  od_newKey :: byte_buffer
  od_resultStatus :: KineticStatus

datatype KineticP2P_Operation = KineticP2P_Operation KineticP2P_Peer "(P2P_Data \<times> KineticP2P_Operation option) list"

definition KINETIC_P2P_MAX_NESTING :: nat where "KINETIC_P2P_MAX_NESTING = 1000"
definition KINETIC_P2P_OPERATION_LIMIT :: nat where "KINETIC_P2P_OPERATION_LIMIT = 100000"

definition numOperations :: "KineticP2P_Operation \<Rightarrow> nat" where
  "numOperations p = (case p of KineticP2P_Operation _ ops \<Rightarrow> length ops)"

section \<open>Building\<close>

definition build_peer :: "KineticP2P_Peer \<Rightarrow> P2P_Peer" where
  "build_peer p = \<lparr>pp_hostname = peer_hostname p, pp_has_port = True, pp_port = peer_port p, pp_has_tls = True, pp_tls = peer_tls p\<rparr>"

definition build_data :: "P2P_Data \<Rightarrow> P2P_OpData" where
  "build_data d =
     \<lparr>pd_has_key = True, pd_key = \<lparr>ba_len = bytesUsed (od_key d), ba_data = bb_data (od_key d)\<rparr>,
      pd_has_version = (\<not> ByteBuffer_IsNull (od_version d)),
      pd_version = \<lparr>ba_len = bytesUsed (od_version d), ba_data = bb_data (od_version d)\<rparr>,
      pd_has_newkey = (\<not> ByteBuffer_IsNull (od_newKey d)),
      pd_newkey = \<lparr>ba_len = bytesUsed (od_newKey d), ba_data = bb_data (od_newKey d)\<rparr>,
      pd_has_force = ByteBuffer_IsNull (od_version d), pd_force = ByteBuffer_IsNull (od_version d), pd_status = None\<rparr>"

text \<open>The allocations in the order the code makes them: the first element of the list tells whether the next one
  succeeds. \<open>None\<close>: an assertion failed (a null key) or the list is used up; \<open>Some (None, \<dots>)\<close>: a null result. The
  last component counts the structures that stay allocated although the result is null.\<close>

definition next_alloc :: "bool list \<Rightarrow> (bool \<times> bool list) option" where
  "next_alloc as = (case as of [] \<Rightarrow> None | a # as' \<Rightarrow> Some (a, as'))"

fun build_p2pOp :: "nat \<Rightarrow> bool list \<Rightarrow> KineticP2P_Operation \<Rightarrow> (P2POperation option \<times> bool list \<times> nat) option"
  and build_ops :: "nat \<Rightarrow> bool list \<Rightarrow> (P2P_Data \<times> KineticP2P_Operation option) list \<Rightarrow>
    ((P2P_OpData \<times> P2POperation option) list option \<times> bool list \<times> nat) option" where
  "build_p2pOp nestingLevel as (KineticP2P_Operation peer ops) =
     (if nestingLevel \<ge> KINETIC_P2P_MAX_NESTING then Some (None, as, 0)
      else do {
        (ok1, as1) \<leftarrow> next_alloc as;
        if \<not> ok1 then Some (None, as1, 0)
        else do {
          (ok2, as2) \<leftarrow> next_alloc as1;
          if \<not> ok2 then Some (None, as2, 0)
          else do {
            (ok3, as3) \<leftarrow> next_alloc as2;
            if \<not> ok3 then Some (None, as3, 0)
            else do {
              (r, as4, leaked) \<leftarrow> build_ops nestingLevel as3 ops;
              Some (map_option (P2POperation (build_peer peer)) r, as4, leaked) } } } })"
| "build_ops nestingLevel as [] = Some (Some [], as, 0)"
| "build_ops nestingLevel as ((d, chained) # ops) =
     do { c_assert (\<not> ByteBuffer_IsNull (od_key d));
          (ok, as1) \<leftarrow> next_alloc as;
          if \<not> ok then Some (None, as1, 0)
          else (case chained of
            None \<Rightarrow>
              do { (r, as2, leaked) \<leftarrow> build_ops nestingLevel as1 ops;
                   Some (map_option (Cons (build_data d, None)) r, as2, leaked) }
          | Some c \<Rightarrow>
              do { (nested, as2, leaked) \<leftarrow> build_p2pOp (nestingLevel + 1) as1 c;
                   (case nested of
                      None \<Rightarrow> Some (None, as2, leaked + 1)
                    | Some n \<Rightarrow>
                        do { (r, as3, leaked') \<leftarrow> build_ops nestingLevel as2 ops;
                             Some (map_option (Cons (build_data d, Some n)) r, as3, leaked + leaked') }) }) }"

text \<open>\<^verbatim>\<open>KineticAllocator_FreeP2PProtobuf\<close>: the number of structures freed (the operation, its peer, the array and
  the members).\<close>

fun FreeP2PProtobuf :: "P2POperation \<Rightarrow> nat" and free_ops :: "(P2P_OpData \<times> P2POperation option) list \<Rightarrow> nat" where
  "FreeP2PProtobuf (P2POperation peer ops) = 3 + free_ops ops"
| "free_ops [] = 0"
| "free_ops ((d, nested) # ops) =
     (case nested of None \<Rightarrow> 0 | Some n \<Rightarrow> FreeP2PProtobuf n) + (if pd_status d = None then 0 else 1) + 1 + free_ops ops"

section \<open>Results\<close>

definition op_result :: "P2P_OpData \<Rightarrow> KineticStatus" where
  "op_result d = (case pd_status d of
     Some st \<Rightarrow> if st_has_code st then KineticProtoStatusCode_to_KineticStatus (st_code st) else KINETIC_STATUS_INVALID
   | None \<Rightarrow> KINETIC_STATUS_INVALID)"

fun populateP2PStatusCodes :: "KineticP2P_Operation \<Rightarrow> P2POperation option \<Rightarrow> KineticP2P_Operation"
  and populate_ops :: "(P2P_Data \<times> KineticP2P_Operation option) list \<Rightarrow> (P2P_OpData \<times> P2POperation option) list \<Rightarrow>
    (P2P_Data \<times> KineticP2P_Operation option) list" where
  "populateP2PStatusCodes p None = p"
| "populateP2PStatusCodes (KineticP2P_Operation peer ops) (Some (P2POperation _ rs)) = KineticP2P_Operation peer (populate_ops ops rs)"
| "populate_ops [] rs = []"
| "populate_ops ((d, chained) # ops) [] = (d\<lparr>od_resultStatus := KINETIC_STATUS_INVALID\<rparr>, chained) # populate_ops ops []"
| "populate_ops ((d, chained) # ops) ((r, nested) # rs) =
     (d\<lparr>od_resultStatus := op_result r\<rparr>,
      (case chained of Some c \<Rightarrow> Some (populateP2PStatusCodes c nested) | None \<Rightarrow> None)) # populate_ops ops rs"

section \<open>The tree and its protobuf\<close>

fun proto_of :: "KineticP2P_Operation \<Rightarrow> P2POperation"
  and proto_ops :: "(P2P_Data \<times> KineticP2P_Operation option) list \<Rightarrow> (P2P_OpData \<times> P2POperation option) list" where
  "proto_of (KineticP2P_Operation peer ops) = P2POperation (build_peer peer) (proto_ops ops)"
| "proto_ops [] = []"
| "proto_ops ((d, None) # ops) = (build_data d, None) # proto_ops ops"
| "proto_ops ((d, Some c) # ops) = (build_data d, Some (proto_of c)) # proto_ops ops"

text \<open>How deep the tree is, how many allocations it takes, and whether every operation has a key.\<close>

fun depth :: "KineticP2P_Operation \<Rightarrow> nat" and depth_ops :: "(P2P_Data \<times> KineticP2P_Operation option) list \<Rightarrow> nat" where
  "depth (KineticP2P_Operation peer ops) = 1 + depth_ops ops"
| "depth_ops [] = 0"
| "depth_ops ((d, None) # ops) = depth_ops ops"
| "depth_ops ((d, Some c) # ops) = max (depth c) (depth_ops ops)"

fun allocs :: "KineticP2P_Operation \<Rightarrow> nat" and allocs_ops :: "(P2P_Data \<times> KineticP2P_Operation option) list \<Rightarrow> nat" where
  "allocs (KineticP2P_Operation peer ops) = 3 + allocs_ops ops"
| "allocs_ops [] = 0"
| "allocs_ops ((d, None) # ops) = 1 + allocs_ops ops"
| "allocs_ops ((d, Some c) # ops) = 1 + allocs c + allocs_ops ops"

fun keyed :: "KineticP2P_Operation \<Rightarrow> bool" and keyed_ops :: "(P2P_Data \<times> KineticP2P_Operation option) list \<Rightarrow> bool" where
  "keyed (KineticP2P_Operation peer ops) = keyed_ops ops"
| "keyed_ops [] = True"
| "keyed_ops ((d, None) # ops) \<longleftrightarrow> \<not> ByteBuffer_IsNull (od_key d) \<and> keyed_ops ops"
| "keyed_ops ((d, Some c) # ops) \<longleftrightarrow> \<not> ByteBuffer_IsNull (od_key d) \<and> keyed c \<and> keyed_ops ops"

lemma next_alloc_replicate [simp]: "next_alloc (replicate (Suc n) True) = Some (True, replicate n True)"
  by (simp add: next_alloc_def)

lemma depth_pos: "0 < depth p"
  by (cases p) simp

text \<open>With enough memory, a tree within the limit is built as it is and uses exactly its allocations.\<close>

lemma build_fits:
  "keyed p \<Longrightarrow> level + depth p \<le> KINETIC_P2P_MAX_NESTING \<Longrightarrow>
     build_p2pOp level (replicate (allocs p + n) True) p = Some (Some (proto_of p), replicate n True, 0)"
  "keyed_ops ops \<Longrightarrow> level + 1 + depth_ops ops \<le> KINETIC_P2P_MAX_NESTING \<Longrightarrow>
     build_ops level (replicate (allocs_ops ops + n) True) ops = Some (Some (proto_ops ops), replicate n True, 0)"
proof (induction p and ops arbitrary: level n and level n rule: proto_of_proto_ops.induct)
  case (1 peer ops)
  have a: "allocs (KineticP2P_Operation peer ops) + n = Suc (Suc (Suc (allocs_ops ops + n)))" by simp
  show ?case unfolding a using 1 by (simp del: replicate_Suc)
next
  case (3 d ops)
  have a: "allocs_ops ((d, None) # ops) + n = Suc (allocs_ops ops + n)" by simp
  show ?case unfolding a using 3 by (simp del: replicate_Suc)
next
  case (4 d c ops)
  have a: "allocs_ops ((d, Some c) # ops) + n = Suc (allocs c + (allocs_ops ops + n))" by simp
  show ?case unfolding a using 4 by (simp del: replicate_Suc)
qed simp

text \<open>A tree beyond the limit is refused, and then structures stay allocated.\<close>

lemma build_refuses:
  "keyed p \<Longrightarrow> KINETIC_P2P_MAX_NESTING < level + depth p \<Longrightarrow>
     \<exists>as leaked. build_p2pOp level (replicate (allocs p + n) True) p = Some (None, as, leaked) \<and> (level < KINETIC_P2P_MAX_NESTING \<longrightarrow> 0 < leaked)"
  "keyed_ops ops \<Longrightarrow> KINETIC_P2P_MAX_NESTING < level + 1 + depth_ops ops \<Longrightarrow> level < KINETIC_P2P_MAX_NESTING \<Longrightarrow>
     \<exists>as leaked. build_ops level (replicate (allocs_ops ops + n) True) ops = Some (None, as, leaked) \<and> 0 < leaked"
proof (induction p and ops arbitrary: level n and level n rule: proto_of_proto_ops.induct)
  case (1 peer ops)
  have a: "allocs (KineticP2P_Operation peer ops) + n = Suc (Suc (Suc (allocs_ops ops + n)))" by simp
  show ?case
  proof (cases "level < KINETIC_P2P_MAX_NESTING")
    case True
    then obtain as leaked where "build_ops level (replicate (allocs_ops ops + n) True) ops = Some (None, as, leaked)" "0 < leaked"
      using 1(1) [of level n] 1(2,3) by auto
    then show ?thesis unfolding a using True by (simp del: replicate_Suc)
  qed simp
next
  case (3 d ops)
  have a: "allocs_ops ((d, None) # ops) + n = Suc (allocs_ops ops + n)" by simp
  obtain as leaked where "build_ops level (replicate (allocs_ops ops + n) True) ops = Some (None, as, leaked)" "0 < leaked"
    using 3(1) [of level n] 3(2-4) by auto
  then show ?case unfolding a using 3(2) by (simp del: replicate_Suc)
next
  case (4 d c ops)
  have a: "allocs_ops ((d, Some c) # ops) + n = Suc (allocs c + (allocs_ops ops + n))" by simp
  show ?case
  proof (cases "KINETIC_P2P_MAX_NESTING < level + 1 + depth c")
    case True
    then obtain as leaked where "build_p2pOp (level + 1) (replicate (allocs c + (allocs_ops ops + n)) True) c = Some (None, as, leaked)"
      using 4(1) [of "level + 1" "allocs_ops ops + n"] 4(3) by auto
    then show ?thesis unfolding a using 4(3) by (simp del: replicate_Suc)
  next
    case False
    then have "build_p2pOp (level + 1) (replicate (allocs c + (allocs_ops ops + n)) True) c =
        Some (Some (proto_of c), replicate (allocs_ops ops + n) True, 0)"
      using 4(3) build_fits(1) [of c "level + 1"] by simp
    moreover obtain as leaked where "build_ops level (replicate (allocs_ops ops + n) True) ops = Some (None, as, leaked)" "0 < leaked"
      using 4(2) [of level n] 4(3-5) False by (auto simp: max_def split: if_splits)
    ultimately show ?thesis unfolding a using 4(3) by (simp del: replicate_Suc)
  qed
qed simp


section \<open>Results in order\<close>

fun same_shape :: "KineticP2P_Operation \<Rightarrow> P2POperation \<Rightarrow> bool"
  and same_ops :: "(P2P_Data \<times> KineticP2P_Operation option) list \<Rightarrow> (P2P_OpData \<times> P2POperation option) list \<Rightarrow> bool" where
  "same_shape (KineticP2P_Operation _ ops) (P2POperation _ rs) = same_ops ops rs"
| "same_ops [] rs = (rs = [])"
| "same_ops ((d, c) # ops) [] = False"
| "same_ops ((d, None) # ops) ((r, n) # rs) = (n = None \<and> same_ops ops rs)"
| "same_ops ((d, Some c) # ops) ((r, n) # rs) = ((case n of Some q \<Rightarrow> same_shape c q | None \<Rightarrow> False) \<and> same_ops ops rs)"

text \<open>The results of a tree, and the statuses of a response, each in the order of a walk through the tree.\<close>

fun results :: "KineticP2P_Operation \<Rightarrow> KineticStatus list" and results_ops :: "(P2P_Data \<times> KineticP2P_Operation option) list \<Rightarrow> KineticStatus list" where
  "results (KineticP2P_Operation _ ops) = results_ops ops"
| "results_ops [] = []"
| "results_ops ((d, None) # ops) = od_resultStatus d # results_ops ops"
| "results_ops ((d, Some c) # ops) = od_resultStatus d # results c @ results_ops ops"

fun statuses :: "P2POperation \<Rightarrow> KineticStatus list" and statuses_ops :: "(P2P_OpData \<times> P2POperation option) list \<Rightarrow> KineticStatus list" where
  "statuses (P2POperation _ rs) = statuses_ops rs"
| "statuses_ops [] = []"
| "statuses_ops ((r, None) # rs) = op_result r # statuses_ops rs"
| "statuses_ops ((r, Some n) # rs) = op_result r # statuses n @ statuses_ops rs"

lemma populate_results:
  "same_shape p q \<Longrightarrow> results (populateP2PStatusCodes p (Some q)) = statuses q"
  "same_ops ops rs \<Longrightarrow> results_ops (populate_ops ops rs) = statuses_ops rs"
  by (induction p q and ops rs rule: same_shape_same_ops.induct) (auto split: option.splits)

lemma proto_same_shape: "same_shape p (proto_of p)" "same_ops ops (proto_ops ops)"
  by (induction p and ops rule: proto_of_proto_ops.induct) simp_all

text \<open>When the device answers a peer-to-peer request with the operations it was asked to do, the caller's
  tree gets exactly the statuses of the answer, each at the operation it belongs to (in the order of a
  walk through both trees).\<close>

theorem p2p_results_match_operations:
  assumes "same_shape p q"
  shows "results (populateP2PStatusCodes p (Some q)) = statuses q"
  by (rule populate_results(1) [OF assms])

definition ex_p2p :: KineticP2P_Operation where
  "ex_p2p = KineticP2P_Operation \<lparr>peer_hostname = ''a'', peer_port = 1, peer_tls = False\<rparr>
     [(\<lparr>od_key = ex_buffer, od_version = BYTE_BUFFER_NONE, od_newKey = BYTE_BUFFER_NONE, od_resultStatus = KINETIC_STATUS_INVALID\<rparr>, None)]"


theorem p2p_results_match_operations_witness:
  "results (populateP2PStatusCodes ex_p2p (Some (proto_of ex_p2p))) = [KINETIC_STATUS_INVALID]"
  using p2p_results_match_operations [OF proto_same_shape(1) [of ex_p2p]]
  by (simp add: ex_p2p_def op_result_def build_data_def)

end
