(* ===== verification/Kinetic_Builder.thy ===== *)
theory Kinetic_Builder
  imports Kinetic_Session Kinetic_P2P
begin

text \<open>
  Operations and the building of their requests: \<^verbatim>\<open>struct _KineticOperation\<close>, its allocation
  (\<^verbatim>\<open>kinetic_allocator.c\<close>), \<^verbatim>\<open>kinetic_message.c\<close> and \<^verbatim>\<open>kinetic_builder.c\<close>. The session an operation belongs to
  is passed beside it. \<open>None\<close> is a failed assertion or a null dereference.
\<close>

section \<open>Operations\<close>

datatype KineticOperationCallback =
    Callbacks_Basic | Callbacks_Put | Callbacks_Get | Callbacks_Delete | Callbacks_GetKeyRange | Callbacks_P2POperation
  | Callbacks_GetLog | Callbacks_SetClusterVersion | Callbacks_SetACL | Callbacks_UpdateFirmware

text \<open>A closure is the library's own callback for synchronous calls, or the client's with its data.\<close>

datatype completion = DefaultCallback | ClientCallback nat

record ('l, 'a) KineticOperation =
  op_request :: "('l, 'a) KineticRequest option"
  op_response :: "('l, 'a) KineticResponse option"
  op_timeoutSeconds :: u16
  op_pendingClusterVersion :: int
  op_pin :: "byte_array option"
  op_entry :: "KineticEntry option"
  op_buffers :: "ByteBufferArray option"
  op_deviceInfo :: "'l option option"
  op_p2pOp :: "KineticP2P_Operation option"
  op_opCallback :: "KineticOperationCallback option"
  op_closure :: "completion option"
  op_value :: byte_array

definition KineticAllocator_NewOperation :: "KineticSession \<Rightarrow> bool \<Rightarrow> bool \<Rightarrow> ('l, 'a) KineticOperation option" where
  "KineticAllocator_NewOperation s op_ok request_ok =
     (if \<not> op_ok \<or> \<not> request_ok then None
      else Some \<lparr>op_request = Some (KineticRequest_Init (sc_clusterVersion (ss_config s)) (ss_connectionID s)), op_response = None,
        op_timeoutSeconds = ss_timeoutSeconds s, op_pendingClusterVersion = 0, op_pin = None, op_entry = None, op_buffers = None,
        op_deviceInfo = None, op_p2pOp = None, op_opCallback = None, op_closure = None, op_value = BYTE_ARRAY_NONE\<rparr>)"

definition KineticOperation_ValidateOperation :: "('l, 'a) KineticOperation \<Rightarrow> unit option" where
  "KineticOperation_ValidateOperation op =
     do { r \<leftarrow> op_request op; c_assert (hd_has_sequence (mg_header (rq_message r))) }"

definition upd_message :: "(('l, 'a) KineticMessage \<Rightarrow> ('l, 'a) KineticMessage) \<Rightarrow> ('l, 'a) KineticOperation \<Rightarrow> ('l, 'a) KineticOperation" where
  "upd_message f op = op\<lparr>op_request := map_option (\<lambda>r. r\<lparr>rq_message := f (rq_message r)\<rparr>) (op_request op)\<rparr>"

definition set_pinAuth :: "bool \<Rightarrow> ('l, 'a) KineticOperation \<Rightarrow> ('l, 'a) KineticOperation" where
  "set_pinAuth b op = op\<lparr>op_request := map_option (\<lambda>r. r\<lparr>rq_pinAuth := b\<rparr>) (op_request op)\<rparr>"

definition set_messagetype :: "KineticMessageType \<Rightarrow> ('l, 'a) KineticMessage \<Rightarrow> ('l, 'a) KineticMessage" where
  "set_messagetype t m = m\<lparr>mg_header := (mg_header m)\<lparr>hd_messagetype := t, hd_has_messagetype := True\<rparr>\<rparr>"

definition KineticMessage_ConfigureKeyValue :: "('l, 'a) KineticMessage \<Rightarrow> KineticEntry \<Rightarrow> ('l, 'a) KineticMessage" where
  "KineticMessage_ConfigureKeyValue m entry =
     m\<lparr>mg_has_body := True, mg_body_keyvalue := True, mg_keyValue := configure_key_value (mg_keyValue m) entry\<rparr>"

definition KineticMessage_ConfigureKeyRange :: "('l, 'a) KineticMessage \<Rightarrow> KineticKeyRange \<Rightarrow> ('l, 'a) KineticMessage option" where
  "KineticMessage_ConfigureKeyRange m rng =
     do { rg \<leftarrow> configure_key_range (mg_keyRange m) rng;
          Some (m\<lparr>mg_has_body := True, mg_body_range := True, mg_keyRange := rg\<rparr>) }"

definition KineticOperation_TimeoutSetACL :: u16 where "KineticOperation_TimeoutSetACL = 30"
definition KineticOperation_TimeoutMediaScan :: u16 where "KineticOperation_TimeoutMediaScan = 30"
definition KineticOperation_TimeoutMediaOptimize :: u16 where "KineticOperation_TimeoutMediaOptimize = 30"
definition KineticOperation_TimeoutSetPin :: u16 where "KineticOperation_TimeoutSetPin = 30"
definition KineticOperation_TimeoutLockUnlock :: u16 where "KineticOperation_TimeoutLockUnlock = 30"
definition KineticOperation_TimeoutErase :: u16 where "KineticOperation_TimeoutErase = 180"

definition KINETIC_OBJ_SIZE :: nat where "KINETIC_OBJ_SIZE = 1024 * 1024"

section \<open>Entries\<close>

definition KineticBuilder_BuildNoop :: "('l, 'a) KineticOperation \<Rightarrow> (KineticStatus \<times> ('l, 'a) KineticOperation) option" where
  "KineticBuilder_BuildNoop op =
     do { KineticOperation_ValidateOperation op;
          Some (KINETIC_STATUS_SUCCESS,
            (upd_message (set_messagetype KINETIC_MESSAGE_TYPE_NOOP) op)\<lparr>op_opCallback := Some Callbacks_Basic\<rparr>) }"

definition KineticBuilder_BuildPut ::
  "('l, 'a) KineticOperation \<Rightarrow> KineticEntry \<Rightarrow> (KineticStatus \<times> ('l, 'a) KineticOperation) option" where
  "KineticBuilder_BuildPut op entry =
     do { KineticOperation_ValidateOperation op;
          if unat (bytesUsed (ke_value entry)) > KINETIC_OBJ_SIZE then Some (KINETIC_STATUS_BUFFER_OVERRUN, op)
          else Some (KINETIC_STATUS_SUCCESS,
            (upd_message (\<lambda>m. KineticMessage_ConfigureKeyValue (set_messagetype KINETIC_MESSAGE_TYPE_PUT m) entry) op)
              \<lparr>op_entry := Some entry, op_value := \<lparr>ba_len = bytesUsed (ke_value entry), ba_data = bb_data (ke_value entry)\<rparr>,
               op_opCallback := Some Callbacks_Put\<rparr>) }"

text \<open>GET and DELETE empty the value buffer, if there is one, after the message was configured.\<close>

definition attach_entry :: "KineticEntry \<Rightarrow> ('l, 'a) KineticOperation \<Rightarrow> ('l, 'a) KineticOperation" where
  "attach_entry entry op =
     (if bb_data (ke_value entry) \<noteq> NULL then
        let v = ByteBuffer_Reset (ke_value entry)
        in op\<lparr>op_entry := Some (entry\<lparr>ke_value := v\<rparr>), op_value := \<lparr>ba_len = bytesUsed v, ba_data = bb_data v\<rparr>\<rparr>
      else op\<lparr>op_entry := Some entry\<rparr>)"

definition build_get_command ::
  "('l, 'a) KineticOperation \<Rightarrow> KineticEntry \<Rightarrow> KineticOperationCallback \<Rightarrow> KineticMessageType \<Rightarrow> ('l, 'a) KineticOperation option" where
  "build_get_command op entry cb command_id =
     do { KineticOperation_ValidateOperation op;
          Some ((attach_entry entry (upd_message (\<lambda>m. KineticMessage_ConfigureKeyValue (set_messagetype command_id m) entry) op))
            \<lparr>op_opCallback := Some cb\<rparr>) }"

definition KineticBuilder_BuildGet :: "('l, 'a) KineticOperation \<Rightarrow> KineticEntry \<Rightarrow> (KineticStatus \<times> ('l, 'a) KineticOperation) option" where
  "KineticBuilder_BuildGet op entry =
     do { op' \<leftarrow> build_get_command op entry Callbacks_Get KINETIC_MESSAGE_TYPE_GET; Some (KINETIC_STATUS_SUCCESS, op') }"

definition KineticBuilder_BuildGetPrevious ::
  "('l, 'a) KineticOperation \<Rightarrow> KineticEntry \<Rightarrow> (KineticStatus \<times> ('l, 'a) KineticOperation) option" where
  "KineticBuilder_BuildGetPrevious op entry =
     do { op' \<leftarrow> build_get_command op entry Callbacks_Get KINETIC_MESSAGE_TYPE_GETPREVIOUS; Some (KINETIC_STATUS_SUCCESS, op') }"

definition KineticBuilder_BuildGetNext ::
  "('l, 'a) KineticOperation \<Rightarrow> KineticEntry \<Rightarrow> (KineticStatus \<times> ('l, 'a) KineticOperation) option" where
  "KineticBuilder_BuildGetNext op entry =
     do { op' \<leftarrow> build_get_command op entry Callbacks_Get KINETIC_MESSAGE_TYPE_GETNEXT; Some (KINETIC_STATUS_SUCCESS, op') }"

definition KineticBuilder_BuildFlush :: "('l, 'a) KineticOperation \<Rightarrow> (KineticStatus \<times> ('l, 'a) KineticOperation) option" where
  "KineticBuilder_BuildFlush op =
     do { KineticOperation_ValidateOperation op;
          Some (KINETIC_STATUS_SUCCESS,
            (upd_message (set_messagetype KINETIC_MESSAGE_TYPE_FLUSHALLDATA) op)\<lparr>op_opCallback := Some Callbacks_Basic\<rparr>) }"

definition KineticBuilder_BuildDelete ::
  "('l, 'a) KineticOperation \<Rightarrow> KineticEntry \<Rightarrow> (KineticStatus \<times> ('l, 'a) KineticOperation) option" where
  "KineticBuilder_BuildDelete op entry =
     do { KineticOperation_ValidateOperation op;
          Some (KINETIC_STATUS_SUCCESS,
            (attach_entry entry (upd_message (\<lambda>m. KineticMessage_ConfigureKeyValue (set_messagetype KINETIC_MESSAGE_TYPE_DELETE m) entry) op))
              \<lparr>op_opCallback := Some Callbacks_Delete\<rparr>) }"

definition KineticBuilder_BuildGetKeyRange ::
  "('l, 'a) KineticOperation \<Rightarrow> KineticKeyRange \<Rightarrow> ByteBufferArray \<Rightarrow> (KineticStatus \<times> ('l, 'a) KineticOperation) option" where
  "KineticBuilder_BuildGetKeyRange op rng buffers =
     do { KineticOperation_ValidateOperation op;
          r \<leftarrow> op_request op;
          m \<leftarrow> KineticMessage_ConfigureKeyRange (set_messagetype KINETIC_MESSAGE_TYPE_GETKEYRANGE (rq_message r)) rng;
          Some (KINETIC_STATUS_SUCCESS,
            (upd_message (\<lambda>_. m) op)\<lparr>op_buffers := Some buffers, op_opCallback := Some Callbacks_GetKeyRange\<rparr>) }"

text \<open>The protobuf of the operations is attached before the limit on their number is checked.\<close>

definition KineticBuilder_BuildP2POperation ::
  "('l, 'a) KineticOperation \<Rightarrow> KineticP2P_Operation \<Rightarrow> bool list \<Rightarrow> (KineticStatus \<times> ('l, 'a) KineticOperation) option" where
  "KineticBuilder_BuildP2POperation op p2pOp as =
     do { KineticOperation_ValidateOperation op;
          (proto, _, _) \<leftarrow> build_p2pOp 0 as p2pOp;
          let op1 = (upd_message (\<lambda>m. (set_messagetype KINETIC_MESSAGE_TYPE_PEER2PEERPUSH m)\<lparr>mg_has_body := True, mg_body_p2p := proto\<rparr>) op)
                      \<lparr>op_p2pOp := Some p2pOp, op_opCallback := Some Callbacks_P2POperation\<rparr>;
          if proto = None then Some (KINETIC_STATUS_OPERATION_INVALID, op1)
          else if numOperations p2pOp \<ge> KINETIC_P2P_OPERATION_LIMIT then Some (KINETIC_STATUS_BUFFER_OVERRUN, op1)
          else Some (KINETIC_STATUS_SUCCESS, op1) }"

section \<open>Administration\<close>

definition KineticBuilder_BuildGetLog ::
  "('l, 'a) KineticOperation \<Rightarrow> GetLog_Type \<Rightarrow> byte_array \<Rightarrow> 'l option \<Rightarrow> (KineticStatus \<times> ('l, 'a) KineticOperation) option" where
  "KineticBuilder_BuildGetLog op type name info =
     do { KineticOperation_ValidateOperation op;
          let op1 = upd_message (\<lambda>m. (set_messagetype KINETIC_MESSAGE_TYPE_GETLOG m)
            \<lparr>mg_has_body := True, mg_body_getlog := True, mg_getLogType := type, mg_getLog := (mg_getLog m)\<lparr>gl_types := [type]\<rparr>\<rparr>) op;
          if type = GET_LOG_DEVICE \<and> (ba_data name = NULL \<or> ba_len name = 0) then Some (KINETIC_STATUS_DEVICE_NAME_REQUIRED, op1)
          else
            let op2 = (if type = GET_LOG_DEVICE then
                  let dev = \<lparr>gd_has_name = True, gd_name = name\<rparr>
                  in upd_message (\<lambda>m. m\<lparr>mg_getLogDevice := dev, mg_getLog := (mg_getLog m)\<lparr>gl_device := Some dev\<rparr>\<rparr>) op1 else op1)
            in Some (KINETIC_STATUS_SUCCESS, op2\<lparr>op_deviceInfo := Some info, op_opCallback := Some Callbacks_GetLog\<rparr>) }"

definition with_security :: "('a Security \<Rightarrow> 'a Security) \<Rightarrow> ('l, 'a) KineticMessage \<Rightarrow> ('l, 'a) KineticMessage" where
  "with_security f m = (set_messagetype KINETIC_MESSAGE_TYPE_SECURITY m)
     \<lparr>mg_has_body := True, mg_body_security := True, mg_security := f (mg_security m)\<rparr>"

definition KineticBuilder_BuildSetPin ::
  "('l, 'a) KineticOperation \<Rightarrow> byte_array \<Rightarrow> byte_array \<Rightarrow> bool \<Rightarrow> (KineticStatus \<times> ('l, 'a) KineticOperation) option" where
  "KineticBuilder_BuildSetPin op old_pin new_pin lock =
     do { KineticOperation_ValidateOperation op;
          let f = (\<lambda>s. if lock then s\<lparr>sy_oldlockpin := old_pin, sy_has_oldlockpin := True, sy_newlockpin := new_pin, sy_has_newlockpin := True\<rparr>
                       else s\<lparr>sy_olderasepin := old_pin, sy_has_olderasepin := True, sy_newerasepin := new_pin, sy_has_newerasepin := True\<rparr>);
          Some (KINETIC_STATUS_SUCCESS,
            (set_pinAuth False (upd_message (with_security f) op))
              \<lparr>op_opCallback := Some Callbacks_Basic, op_timeoutSeconds := KineticOperation_TimeoutSetPin\<rparr>) }"

definition with_pinop :: "PinOpType \<Rightarrow> ('l, 'a) KineticMessage \<Rightarrow> ('l, 'a) KineticMessage" where
  "with_pinop t m = (set_messagetype KINETIC_MESSAGE_TYPE_PINOP m)
     \<lparr>mg_has_body := True, mg_body_pinop := True, mg_pinOp := \<lparr>po_has_pinoptype = True, po_pinoptype = t\<rparr>\<rparr>"

definition KineticBuilder_BuildErase ::
  "('l, 'a) KineticOperation \<Rightarrow> bool \<Rightarrow> byte_array option \<Rightarrow> (KineticStatus \<times> ('l, 'a) KineticOperation) option" where
  "KineticBuilder_BuildErase op secure_erase pin =
     do { KineticOperation_ValidateOperation op;
          Some (KINETIC_STATUS_SUCCESS,
            (set_pinAuth True (upd_message (with_pinop (if secure_erase then PIN_OP_SECURE_ERASE else PIN_OP_ERASE)) op))
              \<lparr>op_pin := pin, op_opCallback := Some Callbacks_Basic, op_timeoutSeconds := KineticOperation_TimeoutErase\<rparr>) }"

definition KineticBuilder_BuildLockUnlock ::
  "('l, 'a) KineticOperation \<Rightarrow> bool \<Rightarrow> byte_array option \<Rightarrow> (KineticStatus \<times> ('l, 'a) KineticOperation) option" where
  "KineticBuilder_BuildLockUnlock op lock pin =
     do { KineticOperation_ValidateOperation op;
          Some (KINETIC_STATUS_SUCCESS,
            (set_pinAuth True (upd_message (with_pinop (if lock then PIN_OP_LOCK else PIN_OP_UNLOCK)) op))
              \<lparr>op_pin := pin, op_opCallback := Some Callbacks_Basic, op_timeoutSeconds := KineticOperation_TimeoutLockUnlock\<rparr>) }"

definition KineticBuilder_BuildSetClusterVersion ::
  "('l, 'a) KineticOperation \<Rightarrow> int \<Rightarrow> (KineticStatus \<times> ('l, 'a) KineticOperation) option" where
  "KineticBuilder_BuildSetClusterVersion op v =
     do { KineticOperation_ValidateOperation op;
          Some (KINETIC_STATUS_SUCCESS,
            (upd_message (\<lambda>m. (set_messagetype KINETIC_MESSAGE_TYPE_SETUP m)\<lparr>mg_has_body := True, mg_body_setup := True,
                mg_setup := (mg_setup m)\<lparr>su_newclusterversion := v, su_has_newclusterversion := True\<rparr>\<rparr>) op)
              \<lparr>op_opCallback := Some Callbacks_SetClusterVersion, op_pendingClusterVersion := v\<rparr>) }"

definition KineticBuilder_BuildSetACL ::
  "('l, 'a) KineticOperation \<Rightarrow> 'a list \<Rightarrow> (KineticStatus \<times> ('l, 'a) KineticOperation) option" where
  "KineticBuilder_BuildSetACL op ACLs =
     do { KineticOperation_ValidateOperation op;
          Some (KINETIC_STATUS_SUCCESS,
            (upd_message (with_security (\<lambda>s. s\<lparr>sy_acl := Some ACLs\<rparr>)) op)
              \<lparr>op_opCallback := Some Callbacks_SetACL, op_timeoutSeconds := KineticOperation_TimeoutSetACL\<rparr>) }"

text \<open>Scans: the keys are C strings, a null pointer stands for the empty one.\<close>

record KineticMedia_Operation =
  me_start_key :: "byte_array option"
  me_end_key :: "byte_array option"
  me_start_key_inclusive :: bool
  me_end_key_inclusive :: bool

fun priority_of :: "KineticCommand_Priority \<Rightarrow> Priority" where
  "priority_of PRIORITY_NORMAL = PRIO_NORMAL"
| "priority_of PRIORITY_LOWEST = PRIO_LOWEST"
| "priority_of PRIORITY_LOWER = PRIO_LOWER"
| "priority_of PRIORITY_HIGHER = PRIO_HIGHER"
| "priority_of PRIORITY_HIGHEST = PRIO_HIGHEST"
| "priority_of (PRIORITY_OTHER n) = PRIO_NORMAL"

definition initRangeAndPriority :: "KineticMedia_Operation \<Rightarrow> KineticCommand_Priority \<Rightarrow> ('l, 'a) KineticMessage \<Rightarrow> ('l, 'a) KineticMessage" where
  "initRangeAndPriority mo priority m =
     (let key = (\<lambda>k. case k of None \<Rightarrow> \<lparr>ba_len = 0, ba_data = Ptr 0 0\<rparr> | Some a \<Rightarrow> a)
      in m\<lparr>mg_header := (mg_header m)\<lparr>hd_has_messagetype := True, hd_priority := priority_of priority\<rparr>,
           mg_has_body := True, mg_body_security := True, mg_body_range := True,
           mg_keyRange := (mg_keyRange m)\<lparr>rg_has_startkey := True, rg_startkey := key (me_start_key mo),
             rg_has_endkey := True, rg_endkey := key (me_end_key mo),
             rg_startkeyinclusive := me_start_key_inclusive mo, rg_endkeyinclusive := me_end_key_inclusive mo,
             rg_has_startkeyinclusive := True, rg_has_endkeyinclusive := True\<rparr>\<rparr>)"

definition build_media ::
  "KineticMessageType \<Rightarrow> u16 \<Rightarrow> ('l, 'a) KineticOperation \<Rightarrow> KineticMedia_Operation \<Rightarrow> KineticCommand_Priority \<Rightarrow>
   (KineticStatus \<times> ('l, 'a) KineticOperation) option" where
  "build_media type timeout op mo priority =
     do { KineticOperation_ValidateOperation op;
          Some (KINETIC_STATUS_SUCCESS,
            (upd_message (\<lambda>m. initRangeAndPriority mo priority (m\<lparr>mg_header := (mg_header m)\<lparr>hd_messagetype := type\<rparr>\<rparr>)) op)
              \<lparr>op_timeoutSeconds := timeout\<rparr>) }"

definition KineticBuilder_BuildMediaScan ::
  "('l, 'a) KineticOperation \<Rightarrow> KineticMedia_Operation \<Rightarrow> KineticCommand_Priority \<Rightarrow> (KineticStatus \<times> ('l, 'a) KineticOperation) option" where
  "KineticBuilder_BuildMediaScan = build_media KINETIC_MESSAGE_TYPE_MEDIASCAN KineticOperation_TimeoutMediaScan"

definition KineticBuilder_BuildMediaOptimize ::
  "('l, 'a) KineticOperation \<Rightarrow> KineticMedia_Operation \<Rightarrow> KineticCommand_Priority \<Rightarrow> (KineticStatus \<times> ('l, 'a) KineticOperation) option" where
  "KineticBuilder_BuildMediaOptimize = build_media KINETIC_MESSAGE_TYPE_MEDIAOPTIMIZE KineticOperation_TimeoutMediaOptimize"

text \<open>The file, as the library reads it: \<open>fw_buf\<close> is the address of the buffer for the image.\<close>

record firmware_file =
  fw_path :: bool
  fw_open :: bool
  fw_seek_end :: bool
  fw_len :: int
  fw_seek_set :: bool
  fw_buf :: ptr
  fw_read :: int

definition KineticBuilder_BuildUpdateFirmware ::
  "('l, 'a) KineticOperation \<Rightarrow> firmware_file \<Rightarrow> (KineticStatus \<times> ('l, 'a) KineticOperation) option" where
  "KineticBuilder_BuildUpdateFirmware op f =
     do { KineticOperation_ValidateOperation op;
          if \<not> fw_path f \<or> \<not> fw_open f \<or> \<not> fw_seek_end f \<or> fw_len f < 1 \<or> \<not> fw_seek_set f then Some (KINETIC_STATUS_INVALID_FILE, op)
          else
            let op1 = op\<lparr>op_value := (op_value op)\<lparr>ba_data := fw_buf f\<rparr>\<rparr> in
            if fw_buf f = NULL then Some (KINETIC_STATUS_MEMORY_ERROR, op1)
            else if fw_read f \<noteq> fw_len f then Some (KINETIC_STATUS_INVALID_FILE, op1)
            else Some (KINETIC_STATUS_SUCCESS,
              (upd_message (\<lambda>m. (set_messagetype KINETIC_MESSAGE_TYPE_SETUP m)\<lparr>mg_has_body := True, mg_body_setup := True,
                  mg_setup := (mg_setup m)\<lparr>su_firmwaredownload := True, su_has_firmwaredownload := True\<rparr>\<rparr>) op1)
                \<lparr>op_value := \<lparr>ba_len = of_int (fw_len f), ba_data = fw_buf f\<rparr>, op_opCallback := Some Callbacks_UpdateFirmware\<rparr>) }"

end
