(* ===== verification/Kinetic_Callbacks.thy ===== *)
theory Kinetic_Callbacks
  imports Kinetic_Builder
begin

text \<open>
  What happens to an operation when its result arrives: the callbacks of \<^verbatim>\<open>kinetic_callbacks.c\<close>,
  \<^verbatim>\<open>KineticOperation_Complete\<close>, and \<^verbatim>\<open>KineticController_HandleResult\<close> with the translation of the bus's
  statuses. The state is the heap with the client's buffers, the operation and its session; memory
  given back and calls to the client are events. \<open>None\<close> is a failed assertion or a null dereference.
\<close>

section \<open>State\<close>

datatype op_event =
    OE_Freed_p2p nat
  | OE_Freed_ACLs nat
  | OE_Freed ptr
  | OE_Given bool
  | OE_Completed completion KineticStatus
  | OE_Freed_operation

record ('l, 'a) cb_state =
  cb_heap :: heap
  cb_op :: "('l, 'a) KineticOperation"
  cb_session :: KineticSession
  cb_events :: "op_event list"

definition emit :: "op_event list \<Rightarrow> ('l, 'a) cb_state \<Rightarrow> ('l, 'a) cb_state" where
  "emit evs st = st\<lparr>cb_events := cb_events st @ evs\<rparr>"

definition set_op :: "('l, 'a) KineticOperation \<Rightarrow> ('l, 'a) cb_state \<Rightarrow> ('l, 'a) cb_state" where
  "set_op op st = st\<lparr>cb_op := op\<rparr>"

section \<open>Callbacks\<close>

definition KineticCallbacks_Basic :: "('l, 'a) cb_state \<Rightarrow> KineticStatus \<Rightarrow> (KineticStatus \<times> ('l, 'a) cb_state) option" where
  "KineticCallbacks_Basic st status = Some (status, st)"

definition KineticCallbacks_Put :: "('l, 'a) cb_state \<Rightarrow> KineticStatus \<Rightarrow> (KineticStatus \<times> ('l, 'a) cb_state) option" where
  "KineticCallbacks_Put st status =
     do { entry \<leftarrow> op_entry (cb_op st);
          if status = KINETIC_STATUS_SUCCESS then
            do { c_assert (op_response (cb_op st) \<noteq> None);
                 (h', entry') \<leftarrow> put_versions (cb_heap st) entry;
                 Some (status, set_op ((cb_op st)\<lparr>op_entry := Some entry'\<rparr>) (st\<lparr>cb_heap := h'\<rparr>)) }
          else Some (status, st) }"

text \<open>\<open>vp\<close> is where the value lies in the response; what \<^verbatim>\<open>ByteBuffer_AppendArray\<close> returns is ignored.\<close>

definition KineticCallbacks_Get :: "ptr \<Rightarrow> ('l, 'a) cb_state \<Rightarrow> KineticStatus \<Rightarrow> (KineticStatus \<times> ('l, 'a) cb_state) option" where
  "KineticCallbacks_Get vp st status =
     do { entry \<leftarrow> op_entry (cb_op st);
          if status = KINETIC_STATUS_SUCCESS then
            do { r \<leftarrow> op_response (cb_op st);
                 (h1, entry1, fits) \<leftarrow> (case KineticResponse_GetKeyValue (Some r) of
                     None \<Rightarrow> Some (cb_heap st, entry, True)
                   | Some kv \<Rightarrow>
                       do { (h', eo, ok) \<leftarrow> Copy_KeyValue_to_KineticEntry (cb_heap st) (Some kv) (Some entry);
                            e \<leftarrow> eo;
                            Some (h', e, ok) });
                 let st1 = (\<lambda>h e. set_op ((cb_op st)\<lparr>op_entry := Some e\<rparr>) (st\<lparr>cb_heap := h\<rparr>));
                 if \<not> fits then Some (KINETIC_STATUS_BUFFER_OVERRUN, st1 h1 entry1)
                 else if \<not> ke_metadataOnly entry1 \<and> \<not> ByteBuffer_IsNull (ke_value entry1) then
                   do { (h2, v, _) \<leftarrow> ByteBuffer_AppendArray h1 (ke_value entry1) \<lparr>ba_len = ucast (valueLength (rs_header r)), ba_data = vp\<rparr>;
                        Some (status, st1 h2 (entry1\<lparr>ke_value := v\<rparr>)) }
                 else Some (status, st1 h1 entry1) }
          else Some (status, st) }"

definition KineticCallbacks_Delete :: "('l, 'a) cb_state \<Rightarrow> KineticStatus \<Rightarrow> (KineticStatus \<times> ('l, 'a) cb_state) option" where
  "KineticCallbacks_Delete st status = do { c_assert (op_entry (cb_op st) \<noteq> None); Some (status, st) }"

definition KineticCallbacks_GetKeyRange :: "('l, 'a) cb_state \<Rightarrow> KineticStatus \<Rightarrow> (KineticStatus \<times> ('l, 'a) cb_state) option" where
  "KineticCallbacks_GetKeyRange st status =
     do { buffers \<leftarrow> op_buffers (cb_op st);
          c_assert (length (bba_buffers buffers) > 0);
          if status = KINETIC_STATUS_SUCCESS then
            do { r \<leftarrow> op_response (cb_op st);
                 (case KineticResponse_GetKeyRange (Some r) of
                    None \<Rightarrow> Some (status, st)
                  | Some rg \<Rightarrow>
                      do { (h', buffers', ok) \<leftarrow> Copy_Range_to_ByteBufferArray (cb_heap st) (Some rg) buffers;
                           Some (if ok then status else KINETIC_STATUS_BUFFER_OVERRUN,
                                 set_op ((cb_op st)\<lparr>op_buffers := Some buffers'\<rparr>) (st\<lparr>cb_heap := h'\<rparr>)) }) }
          else Some (status, st) }"

definition KineticCallbacks_P2POperation :: "('l, 'a) cb_state \<Rightarrow> KineticStatus \<Rightarrow> (KineticStatus \<times> ('l, 'a) cb_state) option" where
  "KineticCallbacks_P2POperation st status =
     do { let op = cb_op st;
          op1 \<leftarrow> (case (if status = KINETIC_STATUS_SUCCESS
                       then Option.bind (Option.bind (Option.bind (op_response op) rs_command) cm_body) bd_p2poperation else None) of
              None \<Rightarrow> Some op
            | Some proto \<Rightarrow> do { p \<leftarrow> op_p2pOp op; Some (op\<lparr>op_p2pOp := Some (populateP2PStatusCodes p (Some proto))\<rparr>) });
          rq \<leftarrow> op_request op1;
          c_assert (mg_has_body (rq_message rq));
          Some (status, emit (case mg_body_p2p (rq_message rq) of None \<Rightarrow> [] | Some p \<Rightarrow> [OE_Freed_p2p (FreeP2PProtobuf p)]) (set_op op1 st)) }"

text \<open>\<open>log_create\<close> stands for \<^verbatim>\<open>KineticLogInfo_Create\<close>, which copies the log into a structure for the client.\<close>

definition KineticCallbacks_GetLog :: "('l GetLog \<Rightarrow> 'l option) \<Rightarrow> ('l, 'a) cb_state \<Rightarrow> KineticStatus \<Rightarrow> (KineticStatus \<times> ('l, 'a) cb_state) option" where
  "KineticCallbacks_GetLog log_create st status =
     do { c_assert (op_deviceInfo (cb_op st) \<noteq> None);
          if status = KINETIC_STATUS_SUCCESS then
            do { r \<leftarrow> op_response (cb_op st);
                 command \<leftarrow> rs_command r;
                 body \<leftarrow> cm_body command;
                 Some (case bd_getlog body of
                    None \<Rightarrow> (KINETIC_STATUS_OPERATION_FAILED, st)
                  | Some gl \<Rightarrow> (KINETIC_STATUS_SUCCESS, set_op ((cb_op st)\<lparr>op_deviceInfo := Some (log_create gl)\<rparr>) st)) }
          else Some (status, st) }"

definition KineticCallbacks_SetClusterVersion :: "('l, 'a) cb_state \<Rightarrow> KineticStatus \<Rightarrow> (KineticStatus \<times> ('l, 'a) cb_state) option" where
  "KineticCallbacks_SetClusterVersion st status =
     (if status = KINETIC_STATUS_SUCCESS then
        Some (status, (set_op ((cb_op st)\<lparr>op_pendingClusterVersion := -1\<rparr>) st)
          \<lparr>cb_session := KineticSession_SetClusterVersion (op_pendingClusterVersion (cb_op st)) (cb_session st)\<rparr>)
      else Some (status, st))"

text \<open>The result of \<^verbatim>\<open>calloc\<close> is used unchecked.\<close>

definition KineticCallbacks_SetACL :: "bool \<Rightarrow> ('l, 'a) cb_state \<Rightarrow> KineticStatus \<Rightarrow> (KineticStatus \<times> ('l, 'a) cb_state) option" where
  "KineticCallbacks_SetACL calloc_ok st status =
     (case op_request (cb_op st) of
        Some rq \<Rightarrow>
          if mg_has_body (rq_message rq) \<and> mg_body_security (rq_message rq) then
            (case sy_acl (mg_security (rq_message rq)) of
               Some acl \<Rightarrow> do { c_assert calloc_ok; Some (status, emit [OE_Freed_ACLs (length acl)] st) }
             | None \<Rightarrow> Some (status, st))
          else Some (status, st)
      | None \<Rightarrow> Some (status, st))"

definition KineticCallbacks_UpdateFirmware :: "('l, 'a) cb_state \<Rightarrow> KineticStatus \<Rightarrow> (KineticStatus \<times> ('l, 'a) cb_state) option" where
  "KineticCallbacks_UpdateFirmware st status =
     (let op = cb_op st in
      if ba_data (op_value op) \<noteq> NULL
      then Some (status, emit [OE_Freed (ba_data (op_value op))] (set_op (op\<lparr>op_value := BYTE_ARRAY_NONE\<rparr>) st))
      else Some (status, st))"

record 'l cb_input =
  cbi_value :: ptr
  cbi_log :: "'l GetLog \<Rightarrow> 'l option"
  cbi_calloc :: bool

fun run_callback :: "'l cb_input \<Rightarrow> KineticOperationCallback \<Rightarrow> ('l, 'a) cb_state \<Rightarrow> KineticStatus \<Rightarrow> (KineticStatus \<times> ('l, 'a) cb_state) option" where
  "run_callback inp Callbacks_Basic = KineticCallbacks_Basic"
| "run_callback inp Callbacks_Put = KineticCallbacks_Put"
| "run_callback inp Callbacks_Get = KineticCallbacks_Get (cbi_value inp)"
| "run_callback inp Callbacks_Delete = KineticCallbacks_Delete"
| "run_callback inp Callbacks_GetKeyRange = KineticCallbacks_GetKeyRange"
| "run_callback inp Callbacks_P2POperation = KineticCallbacks_P2POperation"
| "run_callback inp Callbacks_GetLog = KineticCallbacks_GetLog (cbi_log inp)"
| "run_callback inp Callbacks_SetClusterVersion = KineticCallbacks_SetClusterVersion"
| "run_callback inp Callbacks_SetACL = KineticCallbacks_SetACL (cbi_calloc inp)"
| "run_callback inp Callbacks_UpdateFirmware = KineticCallbacks_UpdateFirmware"

section \<open>Completion\<close>

definition KineticOperation_Complete :: "KineticStatus \<Rightarrow> ('l, 'a) cb_state \<Rightarrow> ('l, 'a) cb_state option" where
  "KineticOperation_Complete status st =
     do { sem \<leftarrow> ss_outstandingOperations (cb_session st);
          (signal, sem') \<leftarrow> KineticCountingSemaphore_Give sem;
          Some (emit (OE_Given signal # (case op_closure (cb_op st) of None \<Rightarrow> [] | Some c \<Rightarrow> [OE_Completed c status]) @ [OE_Freed_operation])
            (st\<lparr>cb_session := (cb_session st)\<lparr>ss_outstandingOperations := Some sem'\<rparr>\<rparr>)) }"

definition KineticOperation_GetStatus :: "('l, 'a) KineticOperation option \<Rightarrow> KineticStatus" where
  "KineticOperation_GetStatus opo = (case opo of None \<Rightarrow> KINETIC_STATUS_INVALID | Some op \<Rightarrow> KineticResponse_GetStatus (op_response op))"

section \<open>Results of the bus\<close>

fun bus_to_kinetic_status :: "bus_send_status \<Rightarrow> KineticStatus option" where
  "bus_to_kinetic_status BUS_SEND_SUCCESS = Some KINETIC_STATUS_SUCCESS"
| "bus_to_kinetic_status BUS_SEND_TX_TIMEOUT = Some KINETIC_STATUS_SOCKET_TIMEOUT"
| "bus_to_kinetic_status BUS_SEND_TX_FAILURE = Some KINETIC_STATUS_SOCKET_ERROR"
| "bus_to_kinetic_status BUS_SEND_RX_TIMEOUT = Some KINETIC_STATUS_OPERATION_TIMEDOUT"
| "bus_to_kinetic_status BUS_SEND_RX_FAILURE = Some KINETIC_STATUS_SOCKET_ERROR"
| "bus_to_kinetic_status BUS_SEND_BAD_RESPONSE = Some KINETIC_STATUS_SOCKET_ERROR"
| "bus_to_kinetic_status BUS_SEND_UNREGISTERED_SOCKET = Some KINETIC_STATUS_SOCKET_ERROR"
| "bus_to_kinetic_status BUS_SEND_RX_TIMEOUT_EXPECT = Some KINETIC_STATUS_OPERATION_TIMEDOUT"
| "bus_to_kinetic_status _ = None"

text \<open>The log line for a response reads the header of its command. A response is kept only when the
  operation has none yet.\<close>

definition store_response :: "('l, 'a) KineticResponse \<Rightarrow> ('l, 'a) KineticOperation \<Rightarrow> ('l, 'a) KineticOperation" where
  "store_response r op = (if op_response op = None then op\<lparr>op_response := Some r\<rparr> else op)"

definition receive_result ::
  "bus_send_status \<Rightarrow> ('l, 'a) KineticResponse option \<Rightarrow> ('l, 'a) cb_state \<Rightarrow> (KineticStatus \<times> ('l, 'a) cb_state) option" where
  "receive_result bstatus ro st =
     do { status \<leftarrow> bus_to_kinetic_status bstatus;
          if status = KINETIC_STATUS_SUCCESS then
            do { r \<leftarrow> ro;
                 command \<leftarrow> rs_command r;
                 c_assert (cm_header command \<noteq> None);
                 Some (KineticResponse_GetStatus (Some r), set_op (store_response r (cb_op st)) st) }
          else Some (status, st) }"

definition call_back :: "'l cb_input \<Rightarrow> ('l, 'a) cb_state \<Rightarrow> KineticStatus \<Rightarrow> (KineticStatus \<times> ('l, 'a) cb_state) option" where
  "call_back inp st status = (case op_opCallback (cb_op st) of Some cb \<Rightarrow> run_callback inp cb st status | None \<Rightarrow> Some (status, st))"

definition KineticController_HandleResult ::
  "'l cb_input \<Rightarrow> bus_send_status \<Rightarrow> ('l, 'a) KineticResponse option \<Rightarrow> ('l, 'a) cb_state \<Rightarrow> ('l, 'a) cb_state option" where
  "KineticController_HandleResult inp bstatus ro st =
     do { (status1, st1) \<leftarrow> receive_result bstatus ro st;
          (status2, st2) \<leftarrow> call_back inp st1 status1;
          KineticOperation_Complete status2 st2 }"

section \<open>What the builders leave for the callbacks\<close>

text \<open>The fields a callback asserts.\<close>

definition callback_ready :: "('l, 'a) KineticOperation \<Rightarrow> bool" where
  "callback_ready op \<longleftrightarrow> (case op_opCallback op of
      Some cb \<Rightarrow>
        (cb \<in> {Callbacks_Put, Callbacks_Get, Callbacks_Delete} \<longrightarrow> op_entry op \<noteq> None) \<and>
        (cb = Callbacks_GetKeyRange \<longrightarrow> (\<exists>b. op_buffers op = Some b \<and> bba_buffers b \<noteq> [])) \<and>
        (cb = Callbacks_GetLog \<longrightarrow> op_deviceInfo op \<noteq> None) \<and>
        (cb = Callbacks_P2POperation \<longrightarrow> op_p2pOp op \<noteq> None \<and> (\<exists>r. op_request op = Some r \<and> mg_has_body (rq_message r)))
    | None \<Rightarrow> True)"

definition header_of :: "('l, 'a) KineticOperation \<Rightarrow> Header option" where
  "header_of op = map_option (\<lambda>r. mg_header (rq_message r)) (op_request op)"

text \<open>A new operation after one of the builders has accepted its arguments; the client calls check that the
  array for the keys of a range is not empty.\<close>

inductive built :: "KineticSession \<Rightarrow> ('l, 'a) KineticOperation \<Rightarrow> bool" for s where
  noop: "KineticAllocator_NewOperation s True True = Some op \<Longrightarrow> KineticBuilder_BuildNoop op = Some (KINETIC_STATUS_SUCCESS, op') \<Longrightarrow> built s op'"
| put: "KineticAllocator_NewOperation s True True = Some op \<Longrightarrow> KineticBuilder_BuildPut op e = Some (KINETIC_STATUS_SUCCESS, op') \<Longrightarrow> built s op'"
| get: "KineticAllocator_NewOperation s True True = Some op \<Longrightarrow> KineticBuilder_BuildGet op e = Some (KINETIC_STATUS_SUCCESS, op') \<Longrightarrow> built s op'"
| get_previous: "KineticAllocator_NewOperation s True True = Some op \<Longrightarrow>
    KineticBuilder_BuildGetPrevious op e = Some (KINETIC_STATUS_SUCCESS, op') \<Longrightarrow> built s op'"
| get_next: "KineticAllocator_NewOperation s True True = Some op \<Longrightarrow>
    KineticBuilder_BuildGetNext op e = Some (KINETIC_STATUS_SUCCESS, op') \<Longrightarrow> built s op'"
| flush: "KineticAllocator_NewOperation s True True = Some op \<Longrightarrow> KineticBuilder_BuildFlush op = Some (KINETIC_STATUS_SUCCESS, op') \<Longrightarrow> built s op'"
| delete: "KineticAllocator_NewOperation s True True = Some op \<Longrightarrow> KineticBuilder_BuildDelete op e = Some (KINETIC_STATUS_SUCCESS, op') \<Longrightarrow> built s op'"
| key_range: "KineticAllocator_NewOperation s True True = Some op \<Longrightarrow> bba_buffers b \<noteq> [] \<Longrightarrow>
    KineticBuilder_BuildGetKeyRange op rng b = Some (KINETIC_STATUS_SUCCESS, op') \<Longrightarrow> built s op'"
| p2p: "KineticAllocator_NewOperation s True True = Some op \<Longrightarrow>
    KineticBuilder_BuildP2POperation op p as = Some (KINETIC_STATUS_SUCCESS, op') \<Longrightarrow> built s op'"
| get_log: "KineticAllocator_NewOperation s True True = Some op \<Longrightarrow>
    KineticBuilder_BuildGetLog op t n i = Some (KINETIC_STATUS_SUCCESS, op') \<Longrightarrow> built s op'"
| set_pin: "KineticAllocator_NewOperation s True True = Some op \<Longrightarrow>
    KineticBuilder_BuildSetPin op old new lock = Some (KINETIC_STATUS_SUCCESS, op') \<Longrightarrow> built s op'"
| erase: "KineticAllocator_NewOperation s True True = Some op \<Longrightarrow>
    KineticBuilder_BuildErase op secure pin = Some (KINETIC_STATUS_SUCCESS, op') \<Longrightarrow> built s op'"
| lock_unlock: "KineticAllocator_NewOperation s True True = Some op \<Longrightarrow>
    KineticBuilder_BuildLockUnlock op lock pin = Some (KINETIC_STATUS_SUCCESS, op') \<Longrightarrow> built s op'"
| cluster_version: "KineticAllocator_NewOperation s True True = Some op \<Longrightarrow>
    KineticBuilder_BuildSetClusterVersion op v = Some (KINETIC_STATUS_SUCCESS, op') \<Longrightarrow> built s op'"
| set_acl: "KineticAllocator_NewOperation s True True = Some op \<Longrightarrow>
    KineticBuilder_BuildSetACL op acls = Some (KINETIC_STATUS_SUCCESS, op') \<Longrightarrow> built s op'"
| media_scan: "KineticAllocator_NewOperation s True True = Some op \<Longrightarrow>
    KineticBuilder_BuildMediaScan op mo prio = Some (KINETIC_STATUS_SUCCESS, op') \<Longrightarrow> built s op'"
| media_optimize: "KineticAllocator_NewOperation s True True = Some op \<Longrightarrow>
    KineticBuilder_BuildMediaOptimize op mo prio = Some (KINETIC_STATUS_SUCCESS, op') \<Longrightarrow> built s op'"
| firmware: "KineticAllocator_NewOperation s True True = Some op \<Longrightarrow>
    KineticBuilder_BuildUpdateFirmware op f = Some (KINETIC_STATUS_SUCCESS, op') \<Longrightarrow> built s op'"

lemmas builder_defs =
  KineticBuilder_BuildNoop_def KineticBuilder_BuildPut_def KineticBuilder_BuildGet_def KineticBuilder_BuildGetPrevious_def
  KineticBuilder_BuildGetNext_def KineticBuilder_BuildFlush_def KineticBuilder_BuildDelete_def KineticBuilder_BuildGetKeyRange_def
  KineticBuilder_BuildP2POperation_def KineticBuilder_BuildGetLog_def KineticBuilder_BuildSetPin_def KineticBuilder_BuildErase_def
  KineticBuilder_BuildLockUnlock_def KineticBuilder_BuildSetClusterVersion_def KineticBuilder_BuildSetACL_def
  KineticBuilder_BuildMediaScan_def KineticBuilder_BuildMediaOptimize_def KineticBuilder_BuildUpdateFirmware_def

lemmas message_defs =
  build_media_def build_get_command_def attach_entry_def upd_message_def set_messagetype_def set_pinAuth_def with_security_def
  with_pinop_def initRangeAndPriority_def KineticMessage_ConfigureKeyValue_def KineticMessage_ConfigureKeyRange_def
  KineticOperation_ValidateOperation_def

text \<open>What every builder keeps of the header.\<close>

definition bound_to :: "KineticSession \<Rightarrow> ('l, 'a) KineticOperation \<Rightarrow> bool" where
  "bound_to s op \<longleftrightarrow> (\<exists>h. header_of op = Some h \<and> hd_has_sequence h \<and> hd_sequence h = KINETIC_SEQUENCE_NOT_YET_BOUND \<and>
     hd_has_messagetype h \<and> hd_clusterversion h = sc_clusterVersion (ss_config s) \<and> hd_connectionid h = ss_connectionID s \<and>
     \<not> hd_has_priority h) \<and> op_response op = None \<and> op_closure op = None"

lemma new_operation:
  assumes "KineticAllocator_NewOperation s True True = Some op"
  obtains r where "op_request op = Some r" "r = KineticRequest_Init (sc_clusterVersion (ss_config s)) (ss_connectionID s)"
    "op_response op = None" "op_closure op = None" "op_opCallback op = None" "op_timeoutSeconds op = ss_timeoutSeconds s"
  using assms by (auto simp: KineticAllocator_NewOperation_def)

lemma built_ready: "built s op \<Longrightarrow> bound_to s op \<and> callback_ready op"
  by (induction rule: built.induct; elim new_operation)
    (auto simp: builder_defs message_defs Let_def bound_to_def header_of_def callback_ready_def bind_Some_iff KineticRequest_Init_def
      KineticMessage_HeaderInit_def split: if_splits option.splits)

section \<open>Every result completes its operation once\<close>

lemmas callback_defs =
  KineticCallbacks_Basic_def KineticCallbacks_Put_def KineticCallbacks_Get_def KineticCallbacks_Delete_def KineticCallbacks_GetKeyRange_def
  KineticCallbacks_P2POperation_def KineticCallbacks_GetLog_def KineticCallbacks_SetClusterVersion_def KineticCallbacks_SetACL_def
  KineticCallbacks_UpdateFirmware_def

fun frees_memory :: "op_event \<Rightarrow> bool" where
  "frees_memory (OE_Freed_p2p n) = True"
| "frees_memory (OE_Freed_ACLs n) = True"
| "frees_memory (OE_Freed p) = True"
| "frees_memory _ = False"

text \<open>A callback frees memory at most, and leaves the closure and the slots alone.\<close>

definition cb_frame :: "('l, 'a) cb_state \<Rightarrow> ('l, 'a) cb_state \<Rightarrow> bool" where
  "cb_frame st st' \<longleftrightarrow> (\<exists>frees. cb_events st' = cb_events st @ frees \<and> list_all frees_memory frees) \<and>
     op_closure (cb_op st') = op_closure (cb_op st) \<and>
     ss_outstandingOperations (cb_session st') = ss_outstandingOperations (cb_session st) \<and>
     ss_sequence (cb_session st') = ss_sequence (cb_session st) \<and> ss_socket (cb_session st') = ss_socket (cb_session st)"

lemma cb_frame_refl: "cb_frame st st"
  by (simp add: cb_frame_def)

lemma run_callback_frame:
  assumes "run_callback inp cb st status = Some (status', st')"
  shows "cb_frame st st'"
  using assms
  by (cases cb)
    (auto simp: callback_defs cb_frame_def emit_def set_op_def Let_def bind_Some_iff KineticSession_SetClusterVersion_def
      split: if_splits option.splits)

lemma run_callback_failure:
  assumes "callback_ready op" "op_opCallback op = Some cb" "cb_op st = op" "cbi_calloc inp" "status \<noteq> KINETIC_STATUS_SUCCESS"
  shows "\<exists>st'. run_callback inp cb st status = Some (status, st') \<and> cb_heap st' = cb_heap st"
  using assms
  by (cases cb; cases "op_request op")
    (auto simp: callback_defs callback_ready_def emit_def set_op_def Let_def split: option.splits)

lemma Complete_effect:
  assumes "ss_outstandingOperations (cb_session st) = Some sem" "cs_count sem < cs_max sem"
  shows "KineticOperation_Complete status st = Some (emit (OE_Given (cs_count sem = 0 \<and> cs_num_waiting sem > 0) #
      (case op_closure (cb_op st) of None \<Rightarrow> [] | Some c \<Rightarrow> [OE_Completed c status]) @ [OE_Freed_operation])
    (st\<lparr>cb_session := (cb_session st)\<lparr>ss_outstandingOperations := Some (sem\<lparr>cs_count := cs_count sem + 1\<rparr>)\<rparr>\<rparr>))"
  using assms inc_le [of "cs_count sem" "cs_max sem"]
  by (simp add: KineticOperation_Complete_def KineticCountingSemaphore_Give_def)

definition finishes :: "KineticStatus \<Rightarrow> ('l, 'a) cb_state \<Rightarrow> ('l, 'a) cb_state \<Rightarrow> bool" where
  "finishes status st st' \<longleftrightarrow> (\<exists>frees sem signal.
     list_all frees_memory frees \<and> ss_outstandingOperations (cb_session st) = Some sem \<and>
     cb_events st' = cb_events st @ frees @ OE_Given signal #
       (case op_closure (cb_op st) of None \<Rightarrow> [] | Some c \<Rightarrow> [OE_Completed c status]) @ [OE_Freed_operation] \<and>
     ss_outstandingOperations (cb_session st') = Some (sem\<lparr>cs_count := cs_count sem + 1\<rparr>)) \<and>
   ss_sequence (cb_session st') = ss_sequence (cb_session st) \<and> ss_socket (cb_session st') = ss_socket (cb_session st)"

lemma Complete_finishes:
  assumes "cb_frame st st1" "KineticOperation_Complete status st1 = Some st'"
  shows "finishes status st st'"
proof -
  from assms(2) obtain sem signal sem' where sem: "ss_outstandingOperations (cb_session st1) = Some sem"
      "KineticCountingSemaphore_Give sem = Some (signal, sem')"
    and st': "st' = emit (OE_Given signal # (case op_closure (cb_op st1) of None \<Rightarrow> [] | Some c \<Rightarrow> [OE_Completed c status]) @ [OE_Freed_operation])
        (st1\<lparr>cb_session := (cb_session st1)\<lparr>ss_outstandingOperations := Some sem'\<rparr>\<rparr>)"
    by (auto simp: KineticOperation_Complete_def bind_Some_iff)
  from sem(2) have "sem' = sem\<lparr>cs_count := cs_count sem + 1\<rparr>"
    by (auto simp: KineticCountingSemaphore_Give_def Let_def split: if_splits)
  moreover from assms(1) obtain frees where "cb_events st1 = cb_events st @ frees" "list_all frees_memory frees"
    by (auto simp: cb_frame_def)
  ultimately show ?thesis using assms(1) sem(1) st' unfolding finishes_def
    by (intro conjI exI [of _ frees] exI [of _ sem] exI [of _ signal]) (simp_all add: cb_frame_def emit_def)
qed

lemma receive_result_frame:
  assumes "receive_result bstatus ro st = Some (status, st')"
  shows "cb_frame st st'"
  using assms by (auto simp: receive_result_def bind_Some_iff cb_frame_def set_op_def store_response_def split: if_splits)

lemma call_back_frame:
  assumes "call_back inp st status = Some (status', st')"
  shows "cb_frame st st'"
  using assms by (auto simp: call_back_def split: option.splits intro: run_callback_frame cb_frame_refl)

lemma call_back_failure:
  assumes "callback_ready (cb_op st)" "cbi_calloc inp" "status \<noteq> KINETIC_STATUS_SUCCESS"
  shows "\<exists>st'. call_back inp st status = Some (status, st') \<and> cb_heap st' = cb_heap st"
  using run_callback_failure [OF assms(1) _ refl assms(2,3)]
  by (cases "op_opCallback (cb_op st)") (auto simp: call_back_def)

lemma HandleResult_finishes:
  assumes "KineticController_HandleResult inp bstatus ro st = Some st'"
  shows "\<exists>status. finishes status st st'"
proof -
  from assms obtain status1 st1 status2 st2 where
    1: "receive_result bstatus ro st = Some (status1, st1)" and 2: "call_back inp st1 status1 = Some (status2, st2)" and
    3: "KineticOperation_Complete status2 st2 = Some st'"
    by (auto simp: KineticController_HandleResult_def bind_Some_iff)
  from receive_result_frame [OF 1] call_back_frame [OF 2] have "cb_frame st st2" by (auto simp: cb_frame_def)
  with 3 show ?thesis by (auto intro: Complete_finishes)
qed

text \<open>C9: When the result of an operation arrives, its slot is given back once, the client's closure is called
  once, and the operation is freed last. For a failure reported by the bus this happens, with the status the
  bus's status translates to and the client's buffers untouched, exactly when the translation knows the
  status; the four it does not know (among them the two that a send can end with) abort the process.\<close>

theorem result_completes_operation_once:
  assumes "callback_ready (cb_op st)" "cbi_calloc inp" "ss_outstandingOperations (cb_session st) = Some sem" "cs_count sem < cs_max sem"
  shows "(\<forall>st'. KineticController_HandleResult inp bstatus ro st = Some st' \<longrightarrow> (\<exists>status. finishes status st st')) \<and>
    (bstatus \<noteq> BUS_SEND_SUCCESS \<longrightarrow>
       (case KineticController_HandleResult inp bstatus ro st of
          Some st' \<Rightarrow> (\<exists>status. bus_to_kinetic_status bstatus = Some status \<and> status \<noteq> KINETIC_STATUS_SUCCESS \<and> finishes status st st') \<and> cb_heap st' = cb_heap st
        | None \<Rightarrow> bstatus \<in> {BUS_SEND_UNDEFINED, BUS_SEND_REQUEST_COMPLETE, BUS_SEND_TX_TIMEOUT_NOTIFYING_LISTENER, BUS_SEND_TIMESTAMP_ERROR}))"
proof (intro conjI impI)
  assume b: "bstatus \<noteq> BUS_SEND_SUCCESS"
  show "case KineticController_HandleResult inp bstatus ro st of
      Some st' \<Rightarrow> (\<exists>status. bus_to_kinetic_status bstatus = Some status \<and> status \<noteq> KINETIC_STATUS_SUCCESS \<and> finishes status st st') \<and> cb_heap st' = cb_heap st
    | None \<Rightarrow> bstatus \<in> {BUS_SEND_UNDEFINED, BUS_SEND_REQUEST_COMPLETE, BUS_SEND_TX_TIMEOUT_NOTIFYING_LISTENER, BUS_SEND_TIMESTAMP_ERROR}"
  proof (cases "bus_to_kinetic_status bstatus")
    case None
    with b show ?thesis by (cases bstatus) (simp_all add: KineticController_HandleResult_def receive_result_def)
  next
    case (Some status)
    with b have ne: "status \<noteq> KINETIC_STATUS_SUCCESS" by (cases bstatus) auto
    obtain st2 where st2: "call_back inp st status = Some (status, st2)" "cb_heap st2 = cb_heap st"
      using call_back_failure [OF assms(1,2) ne] by auto
    then have fr: "cb_frame st st2" by (intro call_back_frame)
    then have sem: "ss_outstandingOperations (cb_session st2) = Some sem" using assms(3) by (simp add: cb_frame_def)
    have run: "KineticController_HandleResult inp bstatus ro st = KineticOperation_Complete status st2"
      using Some ne st2(1) by (simp add: KineticController_HandleResult_def receive_result_def)
    obtain st' where st': "KineticOperation_Complete status st2 = Some st'" "cb_heap st' = cb_heap st2"
      using Complete_effect [OF sem assms(4)] by (simp add: emit_def)
    show ?thesis using run st' st2(2) Some ne Complete_finishes [OF fr st'(1)] by simp
  qed
qed (use HandleResult_finishes in blast)

definition ex_cb_session :: KineticSession where
  "ex_cb_session = ex_session\<lparr>ss_outstandingOperations := Some \<lparr>cs_count = 9, cs_max = 10, cs_num_waiting = 0\<rparr>\<rparr>"

definition ex_cb :: "(nat, nat) cb_state" where
  "ex_cb = \<lparr>cb_heap = Map.empty, cb_op = \<lparr>op_request = Some (KineticRequest_Init 0 7), op_response = None, op_timeoutSeconds = 10,
      op_pendingClusterVersion = 0, op_pin = None, op_entry = None, op_buffers = None, op_deviceInfo = None, op_p2pOp = None,
      op_opCallback = Some Callbacks_Basic, op_closure = Some (ClientCallback 5), op_value = BYTE_ARRAY_NONE\<rparr>,
    cb_session = ex_cb_session, cb_events = []\<rparr>"

text \<open>A request that timed out completes with that status.\<close>

lemma result_completes_operation_once_witness:
  "(\<exists>st'. KineticController_HandleResult \<lparr>cbi_value = NULL, cbi_log = (\<lambda>_. None), cbi_calloc = True\<rparr> BUS_SEND_RX_TIMEOUT None ex_cb = Some st' \<and>
      finishes KINETIC_STATUS_OPERATION_TIMEDOUT ex_cb st') \<and>
   callback_ready (cb_op ex_cb)"
proof -
  have r: "callback_ready (cb_op ex_cb)" by (simp add: callback_ready_def ex_cb_def)
  have sem: "ss_outstandingOperations (cb_session ex_cb) = Some \<lparr>cs_count = 9, cs_max = 10, cs_num_waiting = 0\<rparr>"
    by (simp add: ex_cb_def ex_cb_session_def)
  let ?inp = "\<lparr>cbi_value = NULL, cbi_log = (\<lambda>_. None), cbi_calloc = True\<rparr> :: nat cb_input"
  have "case KineticController_HandleResult ?inp BUS_SEND_RX_TIMEOUT None ex_cb of
      Some st' \<Rightarrow> (\<exists>status. bus_to_kinetic_status BUS_SEND_RX_TIMEOUT = Some status \<and> status \<noteq> KINETIC_STATUS_SUCCESS \<and> finishes status ex_cb st') \<and>
        cb_heap st' = cb_heap ex_cb
    | None \<Rightarrow> BUS_SEND_RX_TIMEOUT \<in> {BUS_SEND_UNDEFINED, BUS_SEND_REQUEST_COMPLETE, BUS_SEND_TX_TIMEOUT_NOTIFYING_LISTENER, BUS_SEND_TIMESTAMP_ERROR}"
    using result_completes_operation_once [OF r _ sem, of ?inp BUS_SEND_RX_TIMEOUT None] by simp
  with r show ?thesis by (auto split: option.splits)
qed

end
