(* ===== verification/Kinetic_Controller.thy ===== *)
theory Kinetic_Controller
  imports Kinetic_Callbacks Bus
begin

text \<open>
  Sending an operation: \<^verbatim>\<open>send_request_in_lock\<close> and \<^verbatim>\<open>KineticOperation_SendRequest\<close> in \<^verbatim>\<open>kinetic_operation.c\<close>, with the
  packing and submission of \<^verbatim>\<open>kinetic_request.c\<close>, and \<^verbatim>\<open>KineticController_ExecuteOperation\<close>. The session, the bus
  and the operation are one state here: a session's requests reach the bus through its counter of
  sequence numbers, its signing key and its semaphore of outstanding operations.
\<close>

section \<open>Packing and submitting\<close>

text \<open>\<open>pack_command\<close> is the generated encoder; the length it announces is the length of what it writes.\<close>

definition KineticRequest_PackCommand ::
  "(('l, 'a) Command \<Rightarrow> u8 list) \<Rightarrow> bool \<Rightarrow> ('l, 'a) KineticRequest \<Rightarrow> (bool \<times> ('l, 'a) KineticRequest)" where
  "KineticRequest_PackCommand pack_command malloc_ok rq =
     (if \<not> malloc_ok then (False, rq)
      else let m = rq_message rq
           in (True, rq\<lparr>rq_message := m\<lparr>mg_message := (mg_message m)\<lparr>ms_commandbytes := Some (pack_command (command_of m)),
                ms_has_commandbytes := True\<rparr>\<rparr>\<rparr>))"

definition bus_message :: "KineticSession \<Rightarrow> ('l, 'a) KineticOperation \<Rightarrow> ('l, 'a) KineticRequest \<Rightarrow> nat \<Rightarrow> u8 list \<Rightarrow> bus_user_msg" where
  "bus_message s op rq udata msg =
     \<lparr>um_fd = ss_socket s, um_type = BUS_SOCKET_PLAIN, um_seq_id = hd_sequence (mg_header (rq_message rq)), um_msg = msg,
      um_msg_size = of_nat (length msg), um_timeout_sec = op_timeoutSeconds op, um_udata = udata\<rparr>"

definition KineticRequest_SendRequest ::
  "'u bus option \<Rightarrow> KineticSession \<Rightarrow> ('l, 'a) KineticOperation \<Rightarrow> ('l, 'a) KineticRequest \<Rightarrow> nat \<Rightarrow> u8 list \<Rightarrow> bool \<Rightarrow> send_input \<Rightarrow>
   (bool \<times> bus_event list \<times> 'u bus option) option" where
  "KineticRequest_SendRequest bo s op rq udata msg calloc_ok inp =
     do { c_assert (msg \<noteq> []);
          Bus_SendRequest bo (Some (bus_message s op rq udata msg)) calloc_ok inp }"

text \<open>\<^verbatim>\<open>KineticCountingSemaphore_Take\<close> as its caller sees it: while it sleeps, other threads give back slots; \<open>gives\<close> says how
  many before each time it wakes.\<close>

fun give_n :: "nat \<Rightarrow> KineticCountingSemaphore \<Rightarrow> KineticCountingSemaphore option" where
  "give_n 0 sem = Some sem"
| "give_n (Suc n) sem = do { (_, sem') \<leftarrow> KineticCountingSemaphore_Give sem; give_n n sem' }"

fun take_loop :: "KineticCountingSemaphore \<Rightarrow> nat list \<Rightarrow> KineticCountingSemaphore option" where
  "take_loop sem [] = take_try sem"
| "take_loop sem (n # ns) = (case take_try sem of
      Some sem' \<Rightarrow> Some sem'
    | None \<Rightarrow> do { sem1 \<leftarrow> give_n n sem; take_loop sem1 ns })"

definition KineticCountingSemaphore_Take :: "KineticCountingSemaphore \<Rightarrow> nat list \<Rightarrow> KineticCountingSemaphore option" where
  "KineticCountingSemaphore_Take sem gives = take_loop (take_enter sem) gives"

section \<open>Sending under the lock\<close>

text \<open>The inputs of a send: the encoders and the hash, which are not part of the library's own code, the byte
  order, the results of the three allocations, the slots given back while waiting, and what the bus meets.\<close>

record ('l, 'a) request_env =
  re_pack_command :: "('l, 'a) Command \<Rightarrow> u8 list"
  re_pack_message :: "Message \<Rightarrow> u8 list"
  re_hmac :: "u8 list \<Rightarrow> u8 list \<Rightarrow> u8 list"
  re_little :: bool

record request_input =
  ri_udata :: nat
  ri_malloc_command :: bool
  ri_malloc_message :: bool
  ri_gives :: "nat list"
  ri_calloc_box :: bool
  ri_send :: send_input

record ('l, 'a, 'u) send_state =
  sd_heap :: heap
  sd_session :: KineticSession
  sd_op :: "('l, 'a) KineticOperation"
  sd_bus :: "'u bus option"
  sd_events :: "bus_event list"

text \<open>The value is read from the client's memory when the message is packed.\<close>

definition load_value :: "heap \<Rightarrow> byte_array \<Rightarrow> u8 list option" where
  "load_value h v = (if ba_len v = 0 then Some [] else load_bytes h (ba_data v) (unat (ba_len v)))"

definition bind_sequence :: "('l, 'a) KineticRequest \<Rightarrow> int \<Rightarrow> ('l, 'a) KineticRequest option" where
  "bind_sequence rq seq_id =
     do { c_assert (hd_sequence (mg_header (rq_message rq)) = KINETIC_SEQUENCE_NOT_YET_BOUND);
          let m = rq_message rq;
          Some (rq\<lparr>rq_message := m\<lparr>mg_header := (mg_header m)\<lparr>hd_sequence := seq_id\<rparr>\<rparr>\<rparr>) }"

text \<open>From taking a slot on: the message is packed.\<close>

definition submit ::
  "request_input \<Rightarrow> u8 list \<Rightarrow> ('l, 'a) KineticRequest \<Rightarrow> ('l, 'a, 'u) send_state \<Rightarrow> (KineticStatus \<times> ('l, 'a, 'u) send_state) option" where
  "submit ri msg rq st =
     do { let s = sd_session st;
          sem \<leftarrow> ss_outstandingOperations s;
          sem1 \<leftarrow> KineticCountingSemaphore_Take sem (ri_gives ri);
          let s1 = s\<lparr>ss_outstandingOperations := Some sem1\<rparr>;
          (ok, evs, bo) \<leftarrow> KineticRequest_SendRequest (sd_bus st) s1 (sd_op st) rq (ri_udata ri) msg (ri_calloc_box ri) (ri_send ri);
          let st1 = st\<lparr>sd_bus := bo, sd_events := sd_events st @ evs\<rparr>;
          if ok then Some (KINETIC_STATUS_SUCCESS, st1\<lparr>sd_session := s1\<rparr>)
          else do { (_, sem2) \<leftarrow> KineticCountingSemaphore_Give sem1;
                    Some (KINETIC_STATUS_REQUEST_REJECTED, st1\<lparr>sd_session := s1\<lparr>ss_outstandingOperations := Some sem2\<rparr>\<rparr>) } }"

definition send_request_in_lock ::
  "('l, 'a) request_env \<Rightarrow> request_input \<Rightarrow> ('l, 'a, 'u) send_state \<Rightarrow> (KineticStatus \<times> ('l, 'a, 'u) send_state) option" where
  "send_request_in_lock env ri st =
     do { rq \<leftarrow> op_request (sd_op st);
          let (seq_id, s1) = KineticSession_GetNextSequenceCount (sd_session st);
          rq1 \<leftarrow> bind_sequence rq seq_id;
          let (ok, rq2) = KineticRequest_PackCommand (re_pack_command env) (ri_malloc_command ri) rq1;
          let st2 = st\<lparr>sd_session := s1, sd_op := (sd_op st)\<lparr>op_request := Some rq2\<rparr>\<rparr>;
          if \<not> ok then Some (KINETIC_STATUS_MEMORY_ERROR, st2)
          else do {
            (status, rq3) \<leftarrow> KineticRequest_PopulateAuthentication (re_hmac env) (re_little env) (ss_config s1) rq2 (op_pin (sd_op st));
            let st3 = st2\<lparr>sd_op := (sd_op st)\<lparr>op_request := Some rq3\<rparr>\<rparr>;
            if status \<noteq> KINETIC_STATUS_SUCCESS then Some (status, st3)
            else do {
              value \<leftarrow> load_value (sd_heap st) (op_value (sd_op st));
              let proto = re_pack_message env (mg_message (rq_message rq3));
              mo \<leftarrow> KineticRequest_PackMessage (re_little env) proto (of_nat (length proto)) value (ri_malloc_message ri);
              (case mo of
                 None \<Rightarrow> Some (KINETIC_STATUS_MEMORY_ERROR, st3)
               | Some msg \<Rightarrow> submit ri msg rq3 st3) } } }"

text \<open>\<open>lock_ok\<close>: \<^verbatim>\<open>pthread_mutex_lock\<close> on the session's send mutex succeeded.\<close>

definition KineticOperation_SendRequest ::
  "('l, 'a) request_env \<Rightarrow> request_input \<Rightarrow> bool \<Rightarrow> ('l, 'a, 'u) send_state \<Rightarrow> (KineticStatus \<times> ('l, 'a, 'u) send_state) option" where
  "KineticOperation_SendRequest env ri lock_ok st =
     do { KineticOperation_ValidateOperation (sd_op st);
          if \<not> lock_ok then Some (KINETIC_STATUS_CONNECTION_ERROR, st)
          else send_request_in_lock env ri st }"

section \<open>Executing an operation\<close>

text \<open>Without a closure the call waits for the completion; \<open>reply\<close> is the status it gets and the session as
  the other threads have left it by then.\<close>

definition KineticController_ExecuteOperation ::
  "('l, 'a) request_env \<Rightarrow> request_input \<Rightarrow> bool \<Rightarrow> completion option \<Rightarrow> (KineticStatus \<times> KineticSession) \<Rightarrow> ('l, 'a, 'u) send_state \<Rightarrow>
   (KineticStatus \<times> session_event list \<times> ('l, 'a, 'u) send_state) option" where
  "KineticController_ExecuteOperation env ri lock_ok closure reply st =
     (if KineticSession_GetTerminationStatus (Some (sd_session st)) \<noteq> KINETIC_STATUS_SUCCESS
      then Some (KINETIC_STATUS_SESSION_TERMINATED, [], st)
      else case closure of
        Some c \<Rightarrow> do { (status, st1) \<leftarrow> KineticOperation_SendRequest env ri lock_ok (st\<lparr>sd_op := (sd_op st)\<lparr>op_closure := Some c\<rparr>\<rparr>);
                       Some (status, [], st1) }
      | None \<Rightarrow>
          do { (status0, st1) \<leftarrow> KineticOperation_SendRequest env ri lock_ok (st\<lparr>sd_op := (sd_op st)\<lparr>op_closure := Some DefaultCallback\<rparr>\<rparr>);
               let (status, st2) = (if status0 = KINETIC_STATUS_SUCCESS then (fst reply, st1\<lparr>sd_session := snd reply\<rparr>) else (status0, st1));
               if status \<noteq> KINETIC_STATUS_SUCCESS \<and> KineticSession_GetTerminationStatus (Some (sd_session st2)) \<noteq> KINETIC_STATUS_SUCCESS then
                 do { let (_, evs, so) = KineticSession_Disconnect (Some (sd_session st2));
                      s' \<leftarrow> so;
                      Some (if status = KINETIC_STATUS_SOCKET_ERROR then KINETIC_STATUS_SESSION_TERMINATED else status, evs, st2\<lparr>sd_session := s'\<rparr>) }
               else Some (status, [], st2) })"

section \<open>Effect of a send\<close>

lemma PopulateAuthentication_frame:
  assumes "KineticRequest_PopulateAuthentication hmac little config rq pin = Some (status, rq')"
  shows "mg_header (rq_message rq') = mg_header (rq_message rq) \<and> mg_has_body (rq_message rq') = mg_has_body (rq_message rq)"
  using assms
  by (auto simp: KineticRequest_PopulateAuthentication_def KineticAuth_PopulatePin_def KineticAuth_PopulateHmac_def Let_def bind_Some_iff
      split: option.splits if_splits)

lemma PackCommand_frame:
  "KineticRequest_PackCommand pc ok rq = (r, rq') \<Longrightarrow>
   r = ok \<and> mg_header (rq_message rq') = mg_header (rq_message rq) \<and> mg_has_body (rq_message rq') = mg_has_body (rq_message rq)"
  by (auto simp: KineticRequest_PackCommand_def Let_def split: if_splits)

lemma bind_sequence_Some:
  "bind_sequence rq n = Some rq' \<Longrightarrow>
   hd_sequence (mg_header (rq_message rq')) = n \<and> mg_has_body (rq_message rq') = mg_has_body (rq_message rq)"
  by (auto simp: bind_sequence_def Let_def split: if_splits)

text \<open>The path of a send: it ends before the slot is taken, or in \<open>submit\<close>.\<close>

lemma send_cases:
  assumes "send_request_in_lock env ri st = Some (status, st')"
  obtains (early) rq where "status \<noteq> KINETIC_STATUS_SUCCESS" "status \<noteq> KINETIC_STATUS_REQUEST_REJECTED"
      "st' = st\<lparr>sd_session := (sd_session st)\<lparr>ss_sequence := ss_sequence (sd_session st) + 1\<rparr>, sd_op := (sd_op st)\<lparr>op_request := Some rq\<rparr>\<rparr>"
  | (submitted) rq0 rq msg where "op_request (sd_op st) = Some rq0"
      "hd_sequence (mg_header (rq_message rq)) = sint (ss_sequence (sd_session st))"
      "mg_has_body (rq_message rq) = mg_has_body (rq_message rq0)"
      "submit ri msg rq (st\<lparr>sd_session := (sd_session st)\<lparr>ss_sequence := ss_sequence (sd_session st) + 1\<rparr>, sd_op := (sd_op st)\<lparr>op_request := Some rq\<rparr>\<rparr>) = Some (status, st')"
proof -
  let ?s1 = "(sd_session st)\<lparr>ss_sequence := ss_sequence (sd_session st) + 1\<rparr>"
  from assms obtain rq0 rq1 where 0: "op_request (sd_op st) = Some rq0" "bind_sequence rq0 (sint (ss_sequence (sd_session st))) = Some rq1"
    by (auto simp: send_request_in_lock_def KineticSession_GetNextSequenceCount_def bind_Some_iff)
  obtain ok rq2 where 2: "KineticRequest_PackCommand (re_pack_command env) (ri_malloc_command ri) rq1 = (ok, rq2)" by force
  note run = assms [unfolded send_request_in_lock_def KineticSession_GetNextSequenceCount_def Let_def 0 Option.bind.simps 2 split_conv]
  show thesis
  proof (cases ok)
    case False
    with run early [of rq2] show thesis by auto
  next
    case True
    with run obtain status1 rq3 where
      3: "KineticRequest_PopulateAuthentication (re_hmac env) (re_little env) (ss_config ?s1) rq2 (op_pin (sd_op st)) = Some (status1, rq3)"
      by (auto simp: bind_Some_iff)
    have h: "hd_sequence (mg_header (rq_message rq3)) = sint (ss_sequence (sd_session st))" "mg_has_body (rq_message rq3) = mg_has_body (rq_message rq0)"
      using bind_sequence_Some [OF 0(2)] PackCommand_frame [OF 2] PopulateAuthentication_frame [OF 3] by simp_all
    show thesis
    proof (cases "status1 = KINETIC_STATUS_SUCCESS")
      case False
      moreover from 3 False have "status1 \<noteq> KINETIC_STATUS_REQUEST_REJECTED"
        by (auto simp: KineticRequest_PopulateAuthentication_def KineticAuth_PopulatePin_def KineticAuth_PopulateHmac_def Let_def bind_Some_iff
          split: option.splits if_splits)
      ultimately show thesis using run True 3 early [of rq3] by auto
    next
      case ok1: True
      with run True 3 obtain mo where
        "(case mo of None \<Rightarrow> Some (KINETIC_STATUS_MEMORY_ERROR, st\<lparr>sd_session := ?s1, sd_op := (sd_op st)\<lparr>op_request := Some rq3\<rparr>\<rparr>)
          | Some msg \<Rightarrow> submit ri msg rq3 (st\<lparr>sd_session := ?s1, sd_op := (sd_op st)\<lparr>op_request := Some rq3\<rparr>\<rparr>)) = Some (status, st')"
        by (auto simp: bind_Some_iff)
      then show thesis using early [of rq3] submitted [OF 0(1) h] by (cases mo) auto
    qed
  qed
qed

lemma SendRequest_box:
  assumes "Bus_SendRequest (Some b) (Some m) calloc_ok inp = Some (res, evs, bo)" "um_fd m \<noteq> -1"
  obtains boxo b1 where "box_msg b m calloc_ok = Some (boxo, b1)" "bo = Some b1" "boxo = None \<longrightarrow> \<not> res"
    "boxo \<noteq> None \<and> \<not> res \<longrightarrow> BE_Freed_box \<in> set evs"
proof -
  from assms obtain boxo b1 where "box_msg b m calloc_ok = Some (boxo, b1)" by (auto simp: Bus_SendRequest_def bind_Some_iff)
  with assms that show thesis by (cases boxo) (auto simp: Bus_SendRequest_def bind_Some_iff split: if_splits)
qed

definition with_sem :: "KineticCountingSemaphore \<Rightarrow> KineticSession \<Rightarrow> KineticSession" where
  "with_sem sem s = s\<lparr>ss_outstandingOperations := Some sem\<rparr>"

lemma Take_free:
  assumes "KineticCountingSemaphore_Take sem [] = Some sem'"
  shows "cs_count sem \<noteq> 0" "sem' = sem\<lparr>cs_count := cs_count sem - 1\<rparr>"
  using assms by (auto simp: KineticCountingSemaphore_Take_def take_enter_def take_try_def split: if_splits)

lemma submit_cases:
  assumes "submit ri msg rq st = Some (status, st')" "ri_gives ri = []" "ss_outstandingOperations (sd_session st) = Some sem"
  obtains (accepted) evs where "cs_count sem \<noteq> 0" "status = KINETIC_STATUS_SUCCESS" "sd_op st' = sd_op st"
      "sd_session st' = with_sem (sem\<lparr>cs_count := cs_count sem - 1\<rparr>) (sd_session st)"
      "Bus_SendRequest (sd_bus st) (Some (bus_message (sd_session st) (sd_op st) rq (ri_udata ri) msg)) (ri_calloc_box ri) (ri_send ri) = Some (True, evs, sd_bus st')"
  | (rejected) evs where "cs_count sem \<noteq> 0" "status = KINETIC_STATUS_REQUEST_REJECTED" "sd_op st' = sd_op st"
      "sd_session st' = with_sem sem (sd_session st)" "sd_events st' = sd_events st @ evs"
      "Bus_SendRequest (sd_bus st) (Some (bus_message (sd_session st) (sd_op st) rq (ri_udata ri) msg)) (ri_calloc_box ri) (ri_send ri) = Some (False, evs, sd_bus st')"
proof -
  from assms obtain sem1 where t: "KineticCountingSemaphore_Take sem [] = Some sem1" by (auto simp: submit_def bind_Some_iff)
  note sem1 = Take_free [OF t]
  let ?s1 = "(sd_session st)\<lparr>ss_outstandingOperations := Some sem1\<rparr>"
  have m: "bus_message ?s1 op rq u msg = bus_message (sd_session st) op rq u msg" for op u by (simp add: bus_message_def)
  from assms t obtain ok evs bo where
    b: "Bus_SendRequest (sd_bus st) (Some (bus_message (sd_session st) (sd_op st) rq (ri_udata ri) msg)) (ri_calloc_box ri) (ri_send ri) = Some (ok, evs, bo)"
    and run: "(if ok then Some (KINETIC_STATUS_SUCCESS, st\<lparr>sd_bus := bo, sd_events := sd_events st @ evs, sd_session := ?s1\<rparr>)
          else do { (_, sem2) \<leftarrow> KineticCountingSemaphore_Give sem1;
                    Some (KINETIC_STATUS_REQUEST_REJECTED, st\<lparr>sd_bus := bo, sd_events := sd_events st @ evs,
                      sd_session := ?s1\<lparr>ss_outstandingOperations := Some sem2\<rparr>\<rparr>) }) = Some (status, st')"
    by (auto simp: submit_def Let_def bind_Some_iff KineticRequest_SendRequest_def m split: if_splits)
  show thesis
  proof (cases ok)
    case True
    with run b sem1 accepted [of evs] show thesis by (auto simp: with_sem_def)
  next
    case False
    with run sem1 have "st' = st\<lparr>sd_bus := bo, sd_events := sd_events st @ evs, sd_session := with_sem sem (sd_session st)\<rparr>"
        "status = KINETIC_STATUS_REQUEST_REJECTED"
      by (auto simp: KineticCountingSemaphore_Give_def Let_def with_sem_def split: if_splits)
    with b False sem1 rejected [of evs] show thesis by simp
  qed
qed

section \<open>A session's requests in order\<close>

text \<open>The number the bus has seen on the session's socket is below the session's counter.\<close>

definition seq_ok :: "'u bus \<Rightarrow> KineticSession \<Rightarrow> bool" where
  "seq_ok b s \<longleftrightarrow> 0 < ss_socket s \<and> unat (ss_sequence s) < 2 ^ 63 \<and>
     (\<exists>p ci. conn_of b (ss_socket s) = Some p \<and> b_cis b p = Some ci \<and>
        (ci_largest_wr_seq_id_seen ci = BUS_NO_SEQ_ID \<or> ci_largest_wr_seq_id_seen ci < sint (ss_sequence s)))"

lemma seq_next:
  fixes w :: "64 word"
  assumes "unat w < 2 ^ 63 - 1"
  shows "sint (w + 1) = sint w + 1" "unat (w + 1) < 2 ^ 63" "unat w < 2 ^ 63"
proof -
  have 1: "unat (w + 1) = unat w + 1" using assms by (subst unat_add_no_wrap) simp_all
  then show 2: "unat (w + 1) < 2 ^ 63" and 3: "unat w < 2 ^ 63" using assms by simp_all
  show "sint (w + 1) = sint w + 1"
    unfolding sint_eq_uint_small_64 [OF 2] sint_eq_uint_small_64 [OF 3] using 1 by (metis of_nat_1 of_nat_add uint_nat)
qed

lemma box_in_order:
  assumes "seq_ok b s" "um_fd m = ss_socket s" "um_seq_id m = sint (ss_sequence s)"
  shows "\<exists>box b'. box_msg b m True = Some (Some box, b')"
proof -
  from assms obtain p ci fds where "b_fd_set b = Some fds" "Yacht_Get fds (um_fd m) = Some (Found (Some p))" "b_cis b p = Some ci"
      "ci_largest_wr_seq_id_seen ci = BUS_NO_SEQ_ID \<or> ci_largest_wr_seq_id_seen ci < sint (ss_sequence s)"
    by (auto simp: seq_ok_def conn_of_def split: option.splits lookup.splits)
  then show ?thesis using assms by (auto simp: box_msg_def read_ci_def seq_ok_def)
qed

lemma seq_ok_after_box:
  assumes "seq_ok b s" "box_msg b m c = Some (boxo, b')" "um_fd m = ss_socket s" "um_seq_id m = sint (ss_sequence s)"
    "unat (ss_sequence s) < 2 ^ 63 - 1" "ss_socket s' = ss_socket s" "ss_sequence s' = ss_sequence s + 1"
  shows "seq_ok b' s'"
  using assms(2)
proof (cases rule: box_msg_cases)
  case rejected
  then show ?thesis using assms(1,6,7) seq_next [OF assms(5)] by (auto simp: seq_ok_def)
next
  case (boxed p ci)
  then have "conn_of b' (ss_socket s) = Some p" using box_msg_frame(1) [OF assms(2)] assms(3) by simp
  then show ?thesis using boxed(5) assms(1,4,6,7) seq_next [OF assms(5)] by (simp add: seq_ok_def)
qed

lemma send_keeps_order:
  assumes "seq_ok b (sd_session st)" "sd_bus st = Some b" "ri_gives ri = []" "unat (ss_sequence (sd_session st)) < 2 ^ 63 - 1"
    "ss_outstandingOperations (sd_session st) = Some sem" "send_request_in_lock env ri st = Some (status, st')"
  shows "\<exists>b'. sd_bus st' = Some b' \<and> seq_ok b' (sd_session st')"
    "status = KINETIC_STATUS_REQUEST_REJECTED \<and> ri_calloc_box ri \<Longrightarrow> BE_Freed_box \<in> set (sd_events st')"
proof -
  have fd: "0 < ss_socket (sd_session st)" using assms(1) by (simp add: seq_ok_def)
  have "(\<exists>b'. sd_bus st' = Some b' \<and> seq_ok b' (sd_session st')) \<and>
    (status = KINETIC_STATUS_REQUEST_REJECTED \<and> ri_calloc_box ri \<longrightarrow> BE_Freed_box \<in> set (sd_events st'))"
    using assms(6)
  proof (cases rule: send_cases)
    case (early rq)
    then show ?thesis using assms(1,2) seq_next [OF assms(4)] by (auto simp: seq_ok_def)
  next
    case (submitted rq0 rq msg)
    let ?m = "bus_message ((sd_session st)\<lparr>ss_sequence := ss_sequence (sd_session st) + 1\<rparr>) ((sd_op st)\<lparr>op_request := Some rq\<rparr>) rq (ri_udata ri) msg"
    have m: "um_fd ?m = ss_socket (sd_session st)" "um_seq_id ?m = sint (ss_sequence (sd_session st))" "um_fd ?m \<noteq> -1"
      using submitted(2) fd by (simp_all add: bus_message_def)
    have sem: "ss_outstandingOperations (sd_session (st\<lparr>sd_session := (sd_session st)\<lparr>ss_sequence := ss_sequence (sd_session st) + 1\<rparr>,
        sd_op := (sd_op st)\<lparr>op_request := Some rq\<rparr>\<rparr>)) = Some sem" using assms(5) by simp
    from submitted(4) assms(3) sem show ?thesis
    proof (cases rule: submit_cases)
      case (accepted evs)
      then have "Bus_SendRequest (Some b) (Some ?m) (ri_calloc_box ri) (ri_send ri) = Some (True, evs, sd_bus st')" using assms(2) by simp
      then obtain boxo b1 where "box_msg b ?m (ri_calloc_box ri) = Some (boxo, b1)" "sd_bus st' = Some b1"
        using m(3) by (rule SendRequest_box)
      with seq_ok_after_box [OF assms(1) _ m(1,2) assms(4)] accepted show ?thesis by (simp add: with_sem_def)
    next
      case (rejected evs)
      then have "Bus_SendRequest (Some b) (Some ?m) (ri_calloc_box ri) (ri_send ri) = Some (False, evs, sd_bus st')" using assms(2) by simp
      then obtain boxo b1 where b1: "box_msg b ?m (ri_calloc_box ri) = Some (boxo, b1)" "sd_bus st' = Some b1"
          "boxo \<noteq> None \<and> \<not> False \<longrightarrow> BE_Freed_box \<in> set evs"
        using m(3) by (rule SendRequest_box)
      with box_in_order [OF assms(1) m(1,2)] have "ri_calloc_box ri \<longrightarrow> boxo \<noteq> None" by auto
      with seq_ok_after_box [OF assms(1) b1(1) m(1,2) assms(4)] b1 rejected show ?thesis by (auto simp: with_sem_def)
    qed
  qed
  then show "\<exists>b'. sd_bus st' = Some b' \<and> seq_ok b' (sd_session st')"
    "status = KINETIC_STATUS_REQUEST_REJECTED \<and> ri_calloc_box ri \<Longrightarrow> BE_Freed_box \<in> set (sd_events st')" by blast+
qed

section \<open>The life of a session\<close>

text \<open>A session, the bus, and the operations that were accepted and have not completed. Requests of other
  sessions change the bus, but not the record of this session's socket. A request that finds no free slot
  waits, so its step happens once a completion has freed one; the counter of sequence numbers is followed up to
  its largest signed value.\<close>

record ('l, 'a, 'u) session_state =
  sn_session :: KineticSession
  sn_bus :: "'u bus"
  sn_ops :: "('l, 'a) KineticOperation list"

definition send_state_of :: "heap \<Rightarrow> ('l, 'a) KineticOperation \<Rightarrow> ('l, 'a, 'u) session_state \<Rightarrow> ('l, 'a, 'u) send_state" where
  "send_state_of h op x = \<lparr>sd_heap = h, sd_session = sn_session x, sd_op = op, sd_bus = Some (sn_bus x), sd_events = []\<rparr>"

definition cb_state_of :: "heap \<Rightarrow> ('l, 'a) KineticOperation \<Rightarrow> ('l, 'a, 'u) session_state \<Rightarrow> ('l, 'a) cb_state" where
  "cb_state_of h op x = \<lparr>cb_heap = h, cb_op = op, cb_session = sn_session x, cb_events = []\<rparr>"

inductive session_step :: "('l, 'a) request_env \<Rightarrow> ('l, 'a, 'u) session_state \<Rightarrow> ('l, 'a, 'u) session_state \<Rightarrow> bool" for env where
  send: "built s0 op \<Longrightarrow> unat (ss_sequence (sn_session x)) < 2 ^ 63 - 1 \<Longrightarrow> ri_gives ri = [] \<Longrightarrow>
    send_request_in_lock env ri (send_state_of h (op\<lparr>op_closure := Some c\<rparr>) x) = Some (status, st') \<Longrightarrow> sd_bus st' = Some b' \<Longrightarrow>
    session_step env x \<lparr>sn_session = sd_session st', sn_bus = b',
      sn_ops = (if status = KINETIC_STATUS_SUCCESS then sd_op st' # sn_ops x else sn_ops x)\<rparr>"
| result: "sn_ops x = before @ op # after \<Longrightarrow> KineticController_HandleResult inp bstatus ro (cb_state_of h op x) = Some st' \<Longrightarrow>
    session_step env x (x\<lparr>sn_session := cb_session st', sn_ops := before @ after\<rparr>)"
| unexpected: "KineticController_HandleUnexpectedResponse (r :: ('l, 'a) KineticResponse) (sn_session x) = Some s' \<Longrightarrow> session_step env x (x\<lparr>sn_session := s'\<rparr>)"
| others: "conn_of b' (ss_socket (sn_session x)) = conn_of (sn_bus x) (ss_socket (sn_session x)) \<Longrightarrow>
    (\<And>p. conn_of (sn_bus x) (ss_socket (sn_session x)) = Some p \<Longrightarrow> b_cis b' p = b_cis (sn_bus x) p) \<Longrightarrow>
    session_step env x (x\<lparr>sn_bus := b'\<rparr>)"

definition sequence_of :: "('l, 'a) KineticOperation \<Rightarrow> int option" where
  "sequence_of op = map_option hd_sequence (header_of op)"

definition op_in_flight :: "KineticSession \<Rightarrow> ('l, 'a) KineticOperation \<Rightarrow> bool" where
  "op_in_flight s op \<longleftrightarrow> callback_ready op \<and> op_closure op \<noteq> None \<and> op_response op = None \<and>
     (\<exists>n. sequence_of op = Some n \<and> 0 \<le> n \<and> n < sint (ss_sequence s))"

definition session_inv :: "nat \<Rightarrow> ('l, 'a, 'u) session_state \<Rightarrow> bool" where
  "session_inv slots x \<longleftrightarrow> seq_ok (sn_bus x) (sn_session x) \<and> distinct (map sequence_of (sn_ops x)) \<and>
     (\<forall>op \<in> set (sn_ops x). op_in_flight (sn_session x) op) \<and>
     (\<exists>sem. ss_outstandingOperations (sn_session x) = Some sem \<and> unat (cs_max sem) = slots \<and> unat (cs_count sem) + length (sn_ops x) = slots)"

lemma op_in_flight_mono:
  "op_in_flight s op \<Longrightarrow> sint (ss_sequence s) \<le> sint (ss_sequence s') \<Longrightarrow> op_in_flight s' op"
  by (auto simp: op_in_flight_def)

lemma callback_ready_request:
  assumes "callback_ready op" "op_request op = Some rq0" "mg_has_body (rq_message rq) = mg_has_body (rq_message rq0)"
  shows "callback_ready (op\<lparr>op_closure := c, op_request := Some rq\<rparr>)"
  using assms by (auto simp: callback_ready_def split: option.splits)

lemma send_slots:
  assumes "send_request_in_lock env ri st = Some (status, st')" "ri_gives ri = []" "ss_outstandingOperations (sd_session st) = Some sem"
  shows "ss_sequence (sd_session st') = ss_sequence (sd_session st) + 1"
    "status \<noteq> KINETIC_STATUS_SUCCESS \<Longrightarrow> ss_outstandingOperations (sd_session st') = Some sem"
    "status = KINETIC_STATUS_SUCCESS \<Longrightarrow> cs_count sem \<noteq> 0 \<and> ss_outstandingOperations (sd_session st') = Some (sem\<lparr>cs_count := cs_count sem - 1\<rparr>) \<and>
      (\<exists>rq0 rq. op_request (sd_op st) = Some rq0 \<and> sd_op st' = (sd_op st)\<lparr>op_request := Some rq\<rparr> \<and>
        hd_sequence (mg_header (rq_message rq)) = sint (ss_sequence (sd_session st)) \<and> mg_has_body (rq_message rq) = mg_has_body (rq_message rq0))"
proof -
  have "ss_sequence (sd_session st') = ss_sequence (sd_session st) + 1 \<and>
    (status \<noteq> KINETIC_STATUS_SUCCESS \<longrightarrow> ss_outstandingOperations (sd_session st') = Some sem) \<and>
    (status = KINETIC_STATUS_SUCCESS \<longrightarrow> cs_count sem \<noteq> 0 \<and> ss_outstandingOperations (sd_session st') = Some (sem\<lparr>cs_count := cs_count sem - 1\<rparr>) \<and>
      (\<exists>rq0 rq. op_request (sd_op st) = Some rq0 \<and> sd_op st' = (sd_op st)\<lparr>op_request := Some rq\<rparr> \<and>
        hd_sequence (mg_header (rq_message rq)) = sint (ss_sequence (sd_session st)) \<and> mg_has_body (rq_message rq) = mg_has_body (rq_message rq0)))"
    using assms(1)
  proof (cases rule: send_cases)
    case (early rq)
    then show ?thesis using assms(3) by simp
  next
    case (submitted rq0 rq msg)
    have sem: "ss_outstandingOperations (sd_session (st\<lparr>sd_session := (sd_session st)\<lparr>ss_sequence := ss_sequence (sd_session st) + 1\<rparr>,
        sd_op := (sd_op st)\<lparr>op_request := Some rq\<rparr>\<rparr>)) = Some sem" using assms(3) by simp
    from submitted(4) assms(2) sem show ?thesis using submitted(1-3) by (cases rule: submit_cases) (auto simp: with_sem_def)
  qed
  then show "ss_sequence (sd_session st') = ss_sequence (sd_session st) + 1"
    "status \<noteq> KINETIC_STATUS_SUCCESS \<Longrightarrow> ss_outstandingOperations (sd_session st') = Some sem"
    "status = KINETIC_STATUS_SUCCESS \<Longrightarrow> cs_count sem \<noteq> 0 \<and> ss_outstandingOperations (sd_session st') = Some (sem\<lparr>cs_count := cs_count sem - 1\<rparr>) \<and>
      (\<exists>rq0 rq. op_request (sd_op st) = Some rq0 \<and> sd_op st' = (sd_op st)\<lparr>op_request := Some rq\<rparr> \<and>
        hd_sequence (mg_header (rq_message rq)) = sint (ss_sequence (sd_session st)) \<and> mg_has_body (rq_message rq) = mg_has_body (rq_message rq0))"
    by blast+
qed

lemma send_inv:
  assumes "session_inv slots x" "built s0 op" "unat (ss_sequence (sn_session x)) < 2 ^ 63 - 1" "ri_gives ri = []"
    "send_request_in_lock env ri (send_state_of h (op\<lparr>op_closure := Some c\<rparr>) x) = Some (status, st')" "sd_bus st' = Some b'"
  shows "session_inv slots \<lparr>sn_session = sd_session st', sn_bus = b',
      sn_ops = (if status = KINETIC_STATUS_SUCCESS then sd_op st' # sn_ops x else sn_ops x)\<rparr>"
proof -
  let ?st = "send_state_of h (op\<lparr>op_closure := Some c\<rparr>) x"
  let ?n = "sint (ss_sequence (sn_session x))"
  from assms(1) obtain sem where sem: "ss_outstandingOperations (sn_session x) = Some sem" "unat (cs_max sem) = slots"
      "unat (cs_count sem) + length (sn_ops x) = slots" and so: "seq_ok (sn_bus x) (sn_session x)"
      and fl: "\<forall>op \<in> set (sn_ops x). op_in_flight (sn_session x) op" and di: "distinct (map sequence_of (sn_ops x))"
    by (auto simp: session_inv_def)
  have sem': "ss_outstandingOperations (sd_session ?st) = Some sem" and b: "sd_bus ?st = Some (sn_bus x)" and se: "sd_session ?st = sn_session x"
    using sem(1) by (simp_all add: send_state_of_def)
  note sl = send_slots [OF assms(5,4) sem', unfolded se]
  have seq: "sint (ss_sequence (sd_session st')) = ?n + 1" using sl(1) seq_next(1) [OF assms(3)] by simp
  have n0: "0 \<le> ?n" using sint_eq_uint_small_64 [OF seq_next(3) [OF assms(3)]] by simp
  have so': "seq_ok b' (sd_session st')"
    using send_keeps_order(1) [OF _ b assms(4) _ sem' assms(5)] so assms(3,6) by (simp add: se)
  have le: "?n \<le> sint (ss_sequence (sd_session st'))" unfolding seq by simp
  have fl': "\<forall>op \<in> set (sn_ops x). op_in_flight (sd_session st') op" using fl op_in_flight_mono [OF _ le] by blast
  show ?thesis
  proof (cases "status = KINETIC_STATUS_SUCCESS")
    case False
    then show ?thesis using sl(2) so' fl' di sem by (simp add: session_inv_def)
  next
    case True
    from sl(3) [OF True] obtain rq0 rq where rq: "op_request op = Some rq0" "sd_op st' = op\<lparr>op_closure := Some c, op_request := Some rq\<rparr>"
        "hd_sequence (mg_header (rq_message rq)) = ?n" "mg_has_body (rq_message rq) = mg_has_body (rq_message rq0)"
      by (auto simp: send_state_of_def)
    have bt: "bound_to s0 op" "callback_ready op" using built_ready [OF assms(2)] by auto
    have sq: "sequence_of (sd_op st') = Some ?n" using rq by (simp add: sequence_of_def header_of_def)
    have "op_in_flight (sd_session st') (sd_op st')"
      using callback_ready_request [OF bt(2) rq(1,4)] bt(1) rq(2) sq n0 seq by (simp add: op_in_flight_def bound_to_def)
    moreover have "sequence_of (sd_op st') \<notin> sequence_of ` set (sn_ops x)" using fl sq by (auto simp: op_in_flight_def)
    moreover have "unat (cs_count sem - 1) + Suc (length (sn_ops x)) = slots"
    proof -
      have "cs_count sem \<noteq> 0" using sl(3) [OF True] by blast
      then have "unat (cs_count sem - 1) = unat (cs_count sem) - 1" "0 < unat (cs_count sem)"
        by (simp_all add: unat_minus_one unat_gt_0)
      then show ?thesis using sem(3) by linarith
    qed
    ultimately show ?thesis using sl(3) [OF True] so' fl' di sem(2) True by (simp add: session_inv_def)
  qed
qed

lemma give_word:
  fixes a m :: u32
  assumes "unat a < unat m"
  shows "unat (a + 1) = unat a + 1" "a < m"
  using assms unat_lt_32 [of m] by (auto simp: word_less_nat_alt intro!: unat_add_no_wrap [where b = "1 :: u32", simplified])

lemma result_inv:
  assumes "session_inv slots x" "sn_ops x = before @ op # after"
    "KineticController_HandleResult inp bstatus ro (cb_state_of h op x) = Some st'"
  shows "session_inv slots (x\<lparr>sn_session := cb_session st', sn_ops := before @ after\<rparr>)"
proof -
  from HandleResult_finishes [OF assms(3)] obtain sem where f: "ss_outstandingOperations (sn_session x) = Some sem"
      "ss_outstandingOperations (cb_session st') = Some (sem\<lparr>cs_count := cs_count sem + 1\<rparr>)"
      "ss_sequence (cb_session st') = ss_sequence (sn_session x)" "ss_socket (cb_session st') = ss_socket (sn_session x)"
    by (auto simp: finishes_def cb_state_of_def)
  moreover have "unat (cs_count sem + 1) = unat (cs_count sem) + 1"
    using assms(1,2) f(1) by (intro give_word(1) [of _ "cs_max sem"]) (auto simp: session_inv_def)
  moreover have "op_in_flight (cb_session st') o' = op_in_flight (sn_session x) o'" for o' :: "('a, 'b) KineticOperation"
    using f(3) by (simp add: op_in_flight_def)
  moreover have "seq_ok (sn_bus x) (cb_session st') = seq_ok (sn_bus x) (sn_session x)" using f(3,4) by (simp add: seq_ok_def)
  ultimately show ?thesis using assms(1,2) by (auto simp: session_inv_def)
qed

lemma session_step_inv:
  assumes "session_step env x y" "session_inv slots x"
  shows "session_inv slots y"
  using assms
proof (induction rule: session_step.induct)
  case (send s0 op x ri h c status st' b')
  then show ?case using send_inv by blast
next
  case (result x before op after inp bstatus ro h st')
  then show ?case using result_inv by blast
next
  case (unexpected r x s')
  from unexpected(1) have "ss_sequence s' = ss_sequence (sn_session x) \<and> ss_socket s' = ss_socket (sn_session x) \<and>
      ss_outstandingOperations s' = ss_outstandingOperations (sn_session x)"
    by (cases rule: Unexpected_cases) simp_all
  then show ?case using unexpected(2) by (simp add: session_inv_def op_in_flight_def seq_ok_def)
next
  case (others b' x)
  then show ?case by (auto simp: session_inv_def seq_ok_def)
qed

lemma session_run_inv: "(session_step env)\<^sup>*\<^sup>* x y \<Longrightarrow> session_inv slots x \<Longrightarrow> session_inv slots y"
  by (induction rule: rtranclp_induct) (auto intro: session_step_inv)

text \<open>A session as \<^verbatim>\<open>KineticClient_CreateSession\<close> leaves it, and the bus after its socket was registered.\<close>

lemma connected_session_inv:
  assumes "KineticAllocator_NewSession config True = Some (Some s0)" "KineticSession_Create (Some s0) True True True = (KINETIC_STATUS_SUCCESS, Some s1)"
    "KineticSession_Connect (Some s1) inp = Some (KINETIC_STATUS_SUCCESS, evs, Some s)" "bus_ok b" "0 < ci_socket inp"
    "Bus_RegisterSocket b typ (ci_socket inp) udata po ssl (bounded_alloc alloc) ans = Some (True, bevs, b1)"
  shows "session_inv 10 \<lparr>sn_session = s, sn_bus = b1, sn_ops = []\<rparr>"
proof -
  have s1: "ss_sequence s1 = 0" "ss_outstandingOperations s1 = Some \<lparr>cs_count = 10, cs_max = 10, cs_num_waiting = 0\<rparr>"
      "\<not> rw_ready (ss_connectionReady s1)"
    using assms(1,2)
    by (auto simp: KineticAllocator_NewSession_def KineticSession_Create_def Let_def KineticCountingSemaphore_Create_def
      KINETIC_MAX_OUTSTANDING_OPERATIONS_PER_SESSION_def KineticResourceWaiter_Init_def bind_Some_iff split: if_splits)
  from Connect_success [OF assms(3) s1(3)] have s: "ss_socket s = ci_socket inp" "ss_sequence s = 0"
      "ss_outstandingOperations s = Some \<lparr>cs_count = 10, cs_max = 10, cs_num_waiting = 0\<rparr>" using s1 by auto
  have "0 \<le> ci_socket inp" using assms(5) by simp
  from assms(4) this assms(6) have "seq_ok b1 s"
    by (cases rule: RegisterSocket_cases) (use s assms(5) in \<open>auto simp: seq_ok_def\<close>)
  with s show ?thesis by (simp add: session_inv_def)
qed

lemma in_flight_completes:
  assumes "session_inv slots x" "op \<in> set (sn_ops x)" "cbi_calloc inp" "bstatus \<noteq> BUS_SEND_SUCCESS" "bus_to_kinetic_status bstatus = Some status"
  shows "\<exists>st'. KineticController_HandleResult inp bstatus ro (cb_state_of h op x) = Some st'"
proof -
  from assms(1) obtain sem where sem: "ss_outstandingOperations (sn_session x) = Some sem" "unat (cs_max sem) = slots"
      "unat (cs_count sem) + length (sn_ops x) = slots" by (auto simp: session_inv_def)
  from assms(2) have "0 < length (sn_ops x)" by (cases "sn_ops x") auto
  with sem have lt: "cs_count sem < cs_max sem" by (intro give_word(2)) linarith
  from assms(4,5) have ne: "status \<noteq> KINETIC_STATUS_SUCCESS" by (cases bstatus) auto
  have "callback_ready (cb_op (cb_state_of h op x))" using assms(1,2) by (simp add: session_inv_def op_in_flight_def cb_state_of_def)
  from call_back_failure [OF this assms(3) ne] obtain st2 where st2: "call_back inp (cb_state_of h op x) status = Some (status, st2)" by blast
  from call_back_frame [OF st2] have "ss_outstandingOperations (cb_session st2) = Some sem" using sem(1) by (simp add: cb_frame_def cb_state_of_def)
  from Complete_effect [OF this lt] st2 assms(5) ne show ?thesis
    by (simp add: KineticController_HandleResult_def receive_result_def)
qed

text \<open>C2: From the moment a session is connected and its socket registered, however its sends, its results, unsolicited
  messages and the requests of other sessions interleave: at most ten operations are outstanding, each holds one slot
  of the semaphore and has a sequence number of its own; a request that is refused although memory
  sufficed was refused by the send itself and never by the bus's check of the order of the numbers; and every
  outstanding operation can be completed with any failure the bus can report that the library translates.\<close>

theorem session_requests_in_order:
  assumes "KineticAllocator_NewSession config True = Some (Some s0)" "KineticSession_Create (Some s0) True True True = (KINETIC_STATUS_SUCCESS, Some s1)"
    "KineticSession_Connect (Some s1) inp = Some (KINETIC_STATUS_SUCCESS, evs, Some s)" "bus_ok b" "0 < ci_socket inp"
    "Bus_RegisterSocket b typ (ci_socket inp) udata po ssl (bounded_alloc alloc) ans = Some (True, bevs, b1)"
    "(session_step env)\<^sup>*\<^sup>* \<lparr>sn_session = s, sn_bus = b1, sn_ops = []\<rparr> x"
  shows "length (sn_ops x) \<le> 10 \<and>
    (\<exists>sem. ss_outstandingOperations (sn_session x) = Some sem \<and> unat (cs_count sem) = 10 - length (sn_ops x)) \<and>
    distinct (map sequence_of (sn_ops x)) \<and> (\<forall>op \<in> set (sn_ops x). \<exists>n. sequence_of op = Some n \<and> 0 \<le> n) \<and>
    (\<forall>ri h op status st'. ri_gives ri = [] \<and> ri_calloc_box ri \<and> unat (ss_sequence (sn_session x)) < 2 ^ 63 - 1 \<and>
       send_request_in_lock env ri (send_state_of h op x) = Some (status, st') \<and> status = KINETIC_STATUS_REQUEST_REJECTED \<longrightarrow>
       BE_Freed_box \<in> set (sd_events st')) \<and>
    (\<forall>op cin bstatus ro h. op \<in> set (sn_ops x) \<and> cbi_calloc cin \<and> bstatus \<noteq> BUS_SEND_SUCCESS \<and> bus_to_kinetic_status bstatus \<noteq> None \<longrightarrow>
       (\<exists>st'. KineticController_HandleResult cin bstatus ro (cb_state_of h op x) = Some st'))"
proof -
  have inv: "session_inv 10 x" by (rule session_run_inv [OF assms(7) connected_session_inv [OF assms(1-6)]])
  then obtain sem where sem: "ss_outstandingOperations (sn_session x) = Some sem" "unat (cs_count sem) + length (sn_ops x) = 10"
    and sq: "seq_ok (sn_bus x) (sn_session x)" and di: "distinct (map sequence_of (sn_ops x))"
    and fl: "\<forall>op \<in> set (sn_ops x). op_in_flight (sn_session x) op" by (auto simp: session_inv_def)
  have rej: "BE_Freed_box \<in> set (sd_events st')" if "ri_gives ri = []" "ri_calloc_box ri" "unat (ss_sequence (sn_session x)) < 2 ^ 63 - 1"
      "send_request_in_lock env ri (send_state_of h op x) = Some (status, st')" "status = KINETIC_STATUS_REQUEST_REJECTED" for ri h op status st'
    by (rule send_keeps_order(2) [OF _ _ that(1) _ _ that(4), of "sn_bus x" sem]) (use that sq sem(1) in \<open>simp_all add: send_state_of_def\<close>)
  have comp: "\<exists>st'. KineticController_HandleResult cin bstatus ro (cb_state_of h op x) = Some st'"
    if "op \<in> set (sn_ops x)" "cbi_calloc cin" "bstatus \<noteq> BUS_SEND_SUCCESS" "bus_to_kinetic_status bstatus \<noteq> None" for op cin bstatus ro h
    using in_flight_completes [OF inv that(1-3)] that(4) by blast
  show ?thesis
  proof (intro conjI)
    show "length (sn_ops x) \<le> 10" using sem(2) by simp
    show "\<exists>sem. ss_outstandingOperations (sn_session x) = Some sem \<and> unat (cs_count sem) = 10 - length (sn_ops x)" using sem by auto
    show "\<forall>op \<in> set (sn_ops x). \<exists>n. sequence_of op = Some n \<and> 0 \<le> n" using fl by (auto simp: op_in_flight_def)
  qed (use di rej comp in blast)+
qed

text \<open>A session on the example bus, and one NOOP on its way.\<close>

definition ex_request_env :: "(nat, nat) request_env" where
  "ex_request_env = \<lparr>re_pack_command = (\<lambda>_. [1]), re_pack_message = (\<lambda>_. [2]), re_hmac = (\<lambda>_ _. [7]), re_little = False\<rparr>"

definition ex_ri :: request_input where
  "ex_ri = \<lparr>ri_udata = 1, ri_malloc_command = True, ri_malloc_message = True, ri_gives = [], ri_calloc_box = True,
     ri_send = \<lparr>in_start = ex_start, in_holds = [False, True], in_notice = [PA_Bytes [0x15, 0, 0]],
        in_rounds = [ex_round 100 2, ex_round 101 9], in_pool = []\<rparr>\<rparr>"

definition ex_connected :: KineticSession where
  "ex_connected = ex_session\<lparr>ss_socket := 5, ss_connected := True, ss_si := Some new_socket_info, ss_connectionID := 7, ss_sendMutex := True,
     ss_outstandingOperations := Some \<lparr>cs_count = 10, cs_max = 10, cs_num_waiting = 0\<rparr>,
     ss_connectionReady := KineticResourceWaiter_Init\<lparr>rw_ready := True\<rparr>\<rparr>"

definition ex_noop :: "(nat, nat) KineticOperation" where
  "ex_noop = snd (the (KineticBuilder_BuildNoop (the (KineticAllocator_NewOperation ex_connected True True))))"

definition ex_packed_noop :: "(nat, nat) KineticRequest" where
  "ex_packed_noop = snd (KineticRequest_PackCommand (re_pack_command ex_request_env) True (the (bind_sequence (the (op_request ex_noop)) 0)))"

definition ex_signed_noop :: "(nat, nat) KineticRequest" where
  "ex_signed_noop = snd (the (KineticAuth_PopulateHmac (re_hmac ex_request_env) False (ss_config ex_connected) ex_packed_noop))"

lemma ex_auth: "KineticAuth_PopulateHmac (re_hmac ex_request_env) False (ss_config ex_connected) ex_packed_noop = Some (KINETIC_STATUS_SUCCESS, ex_signed_noop)"
  by (simp add: ex_signed_noop_def ex_packed_noop_def ex_request_env_def ex_connected_def ex_session_def ex_config_def ex_noop_def KineticAuth_PopulateHmac_def
    KineticAllocator_NewSession_def KineticHMAC_Populate_def KineticHMAC_Compute_def KineticHMAC_Init_def KineticRequest_PackCommand_def
    bind_sequence_def KineticAllocator_NewOperation_def KineticBuilder_BuildNoop_def message_defs KineticRequest_Init_def
    KineticMessage_HeaderInit_def KINETIC_HMAC_MAX_LEN_def KINETIC_MAX_KEY_LEN_def KineticMessage_Init_def init_message_def Let_def)

lemma ex_pack: "KineticRequest_PackMessage False [2] 1 [] True = Some (Some [0x46, 0, 0, 0, 1, 0, 0, 0, 0, 2])"
proof -
  have z: "le_bytes 0 0 = []" by (simp add: le_bytes_def)
  have "le_bytes (Suc (Suc (Suc (Suc 0)))) 1 = [1, 0, 0, 0]" "le_bytes (Suc (Suc (Suc (Suc 0)))) 0 = [0, 0, 0, 0]"
    by (simp_all only: le_bytes_Suc) (simp_all add: z)
  moreover have "(4 :: nat) = Suc (Suc (Suc (Suc 0)))" by simp
  ultimately have "be4 1 = [0, 0, 0, 1]" "be4 0 = [0, 0, 0, 0]" by (simp_all only: be4_def unat_1 unat_0) simp_all
  then show ?thesis by (simp add: KineticRequest_PackMessage_def FromHost_bytes PDU_HEADER_LEN_def)
qed

lemma ex_built: "built ex_connected ex_noop"
  by (rule built.noop [of _ "the (KineticAllocator_NewOperation ex_connected True True)"])
    (simp_all add: ex_noop_def KineticAllocator_NewOperation_def KineticBuilder_BuildNoop_def message_defs KineticRequest_Init_def
      KineticMessage_HeaderInit_def)

abbreviation ex_bus_message :: bus_user_msg where
  "ex_bus_message \<equiv> \<lparr>um_fd = 5, um_type = BUS_SOCKET_PLAIN, um_seq_id = 0, um_msg = [0x46, 0, 0, 0, 1, 0, 0, 0, 0, 2], um_msg_size = 10,
     um_timeout_sec = 10, um_udata = 1\<rparr>"

lemma ex_bus_send:
  "Option.bind ex_register (\<lambda>(ok, evs, b). if ok then map_option fst (Bus_SendRequest (Some b) (Some ex_bus_message) True (ri_send ex_ri)) else None) =
     Some True"
  by code_simp

definition ex_created :: KineticSession where
  "ex_created = ex_session\<lparr>ss_connected := False, ss_socket := KINETIC_SOCKET_INVALID, ss_sendMutex := True,
     ss_outstandingOperations := Some \<lparr>cs_count = 10, cs_max = 10, cs_num_waiting = 0\<rparr>\<rparr>"

lemma ex_new: "KineticAllocator_NewSession ex_config True = Some (Some ex_session)"
  by (simp add: ex_session_def KineticAllocator_NewSession_def ex_config_def KINETIC_MAX_KEY_LEN_def)

lemma ex_create: "KineticSession_Create (Some ex_session) True True True = (KINETIC_STATUS_SUCCESS, Some ex_created)"
  by (simp add: KineticSession_Create_def ex_created_def KineticCountingSemaphore_Create_def KINETIC_MAX_OUTSTANDING_OPERATIONS_PER_SESSION_def)

lemma ex_ready: "ss_connectionReady ex_session = KineticResourceWaiter_Init"
  by (simp add: ex_session_def KineticAllocator_NewSession_def ex_config_def KINETIC_MAX_KEY_LEN_def)

lemma ex_connect_run:
  "KineticSession_Connect (Some ex_created) ex_connect = Some (KINETIC_STATUS_SUCCESS, [Ses_Opened 5, Ses_Registered 5], Some ex_connected)"
proof -
  let ?s2 = "ex_created\<lparr>ss_socket := 5, ss_connected := True, ss_si := Some new_socket_info\<rparr>"
  have "handle_all [ex_status_message] ?s2 = Some ex_connected"
    by (simp add: KineticController_HandleUnexpectedResponse_def ex_status_message_def KineticResponse_GetConnectionID_def
      KineticSession_SetConnectionID_def KineticResourceWaiter_SetAvailable_def ex_created_def ex_connected_def ex_ready)
  moreover have "wait_connection ex_connected 0 [(110, [])] = Some (0, ex_connected)"
    by (subst wait_connection.simps) (simp add: ex_connected_def)
  ultimately have "wait_connection ?s2 0 (ci_waits ex_connect) = Some (0, ex_connected)"
    using ex_session_simps(2) by (subst wait_connection.simps) (simp add: ex_connect_def ex_created_def)
  then show ?thesis using ex_session_simps(1)
    by (simp add: KineticSession_Connect_def ex_connect_def KINETIC_SOCKET_INVALID_def ex_created_def ex_connected_def)
qed

lemma ex_send_run:
  assumes "Bus_SendRequest (Some b) (Some ex_bus_message) True (ri_send ex_ri) = Some (True, evs, bo)"
  shows "\<exists>st'. send_request_in_lock ex_request_env ex_ri (send_state_of Map.empty (ex_noop\<lparr>op_closure := Some DefaultCallback\<rparr>)
      \<lparr>sn_session = ex_connected, sn_bus = b, sn_ops = []\<rparr>) = Some (KINETIC_STATUS_SUCCESS, st') \<and> sd_bus st' = bo"
proof -
  obtain rq0 rq1 where rq0: "op_request ex_noop = Some rq0" and rq1: "bind_sequence rq0 0 = Some rq1"
    by (simp add: ex_noop_def KineticAllocator_NewOperation_def KineticBuilder_BuildNoop_def message_defs KineticRequest_Init_def
      KineticMessage_HeaderInit_def bind_sequence_def Let_def)
  have pk: "KineticRequest_PackCommand (re_pack_command ex_request_env) True rq1 = (True, ex_packed_noop)"
    by (simp add: ex_packed_noop_def rq0 rq1 KineticRequest_PackCommand_def Let_def)
  have fields: "op_pin ex_noop = None" "op_value ex_noop = BYTE_ARRAY_NONE" "op_timeoutSeconds ex_noop = 10" "ss_sequence ex_connected = 0"
      "ss_socket ex_connected = 5" "ss_outstandingOperations ex_connected = Some \<lparr>cs_count = 10, cs_max = 10, cs_num_waiting = 0\<rparr>"
    by (simp_all add: ex_noop_def KineticAllocator_NewOperation_def KineticBuilder_BuildNoop_def message_defs KineticRequest_Init_def
      KineticMessage_HeaderInit_def ex_connected_def ex_session_def KineticAllocator_NewSession_def ex_config_def KINETIC_MAX_KEY_LEN_def)
  have inputs: "re_little ex_request_env = False" "\<And>m. re_pack_message ex_request_env m = [2]" "ri_malloc_command ex_ri" "ri_malloc_message ex_ri" "ri_gives ex_ri = []"
      "ri_calloc_box ex_ri" "ri_udata ex_ri = 1"
    by (simp_all add: ex_request_env_def ex_ri_def)
  have sg: "hd_sequence (mg_header (rq_message ex_signed_noop)) = 0"
    using bind_sequence_Some [OF rq1] PackCommand_frame [OF pk]
      PopulateAuthentication_frame [of "re_hmac ex_request_env" False "ss_config ex_connected" ex_packed_noop None KINETIC_STATUS_SUCCESS ex_signed_noop] ex_auth
    by (simp add: KineticRequest_PopulateAuthentication_def)
  show ?thesis
    using assms rq1 pk ex_auth ex_pack sg
    by (simp add: send_request_in_lock_def send_state_of_def KineticSession_GetNextSequenceCount_def rq0 fields inputs Let_def
      KineticRequest_PopulateAuthentication_def load_value_def BYTE_ARRAY_NONE_def submit_def KineticCountingSemaphore_Take_def
      take_enter_def take_try_def KineticRequest_SendRequest_def bus_message_def)
qed

text \<open>The example session sends its NOOP: one operation is outstanding and nine slots are left.\<close>

lemma session_requests_in_order_witness:
  "\<exists>(b :: nat bus) (x :: (nat, nat, nat) session_state) sem. (session_step ex_request_env)\<^sup>*\<^sup>* \<lparr>sn_session = ex_connected, sn_bus = b, sn_ops = []\<rparr> x \<and>
     length (sn_ops x) = 1 \<and> ss_outstandingOperations (sn_session x) = Some sem \<and> unat (cs_count sem) = 9"
proof -
  have "ci_socket ex_connect = 5" by (simp add: ex_connect_def)
  from ex_bus_send obtain evs b1 where reg: "ex_register = Some (True, evs, b1)"
      and sent: "map_option fst (Bus_SendRequest (Some b1) (Some ex_bus_message) True (ri_send ex_ri)) = Some True"
    by (auto simp only: bind_Some_iff split_paired_Ex split_conv split: if_splits) auto
  from sent obtain sevs bo where send: "Bus_SendRequest (Some b1) (Some ex_bus_message) True (ri_send ex_ri) = Some (True, sevs, bo)" by auto
  then obtain b2 where bo: "bo = Some b2" by (elim SendRequest_box) simp_all
  let ?x0 = "\<lparr>sn_session = ex_connected, sn_bus = b1, sn_ops = []\<rparr> :: (nat, nat, nat) session_state"
  from ex_send_run [OF send] obtain st' where st': "send_request_in_lock ex_request_env ex_ri (send_state_of Map.empty (ex_noop\<lparr>op_closure := Some DefaultCallback\<rparr>) ?x0) =
      Some (KINETIC_STATUS_SUCCESS, st')" "sd_bus st' = Some b2" unfolding bo by blast
  define x where "x = \<lparr>sn_session = sd_session st', sn_bus = b2, sn_ops = [sd_op st']\<rparr>"
  have "unat (ss_sequence (sn_session ?x0)) < 2 ^ 63 - 1"
    by (simp add: ex_connected_def ex_session_def KineticAllocator_NewSession_def ex_config_def KINETIC_MAX_KEY_LEN_def)
  from session_step.send [OF ex_built this _ st'] have "session_step ex_request_env ?x0 x" by (simp add: x_def ex_ri_def)
  then have run: "(session_step ex_request_env)\<^sup>*\<^sup>* ?x0 x" by (rule r_into_rtranclp)
  have reg': "Bus_RegisterSocket ex_bus BUS_SOCKET_PLAIN (ci_socket ex_connect) 99 (Some 1000) None (bounded_alloc (\<lambda>_. (True, True))) ex_notice = Some (True, evs, b1)"
    using reg by (simp add: ex_connect_def)
  have pos: "0 < ci_socket ex_connect" by (simp add: ex_connect_def)
  have "length (sn_ops x) = 1" by (simp add: x_def)
  moreover from session_requests_in_order [OF ex_new ex_create ex_connect_run ex_bus_ok pos reg' run]
  obtain sem where "ss_outstandingOperations (sn_session x) = Some sem" "unat (cs_count sem) = 10 - length (sn_ops x)" by blast
  ultimately show ?thesis using run by auto
qed

end
