(* ===== verification/Kinetic_Client.thy ===== *)
theory Kinetic_Client
  imports Kinetic_Controller Bus_Setup
begin

text \<open>
  The library's interface, \<^verbatim>\<open>kinetic_client.c\<close> and \<^verbatim>\<open>kinetic_admin_client.c\<close>: starting and stopping a client, sessions, and
  the calls that build an operation and execute it. Each call checks its arguments, allocates an
  operation, builds its request and hands it to \<^verbatim>\<open>KineticController_ExecuteOperation\<close>; its result says what
  became of the operation.
\<close>

section \<open>Clients\<close>

record KineticClientConfig =
  kc_logLevel :: int
  kc_readerThreads :: u8
  kc_maxThreadpoolThreads :: u8

definition KINETIC_CLIENT_DEFAULT_READER_THREADS :: u8 where "KINETIC_CLIENT_DEFAULT_READER_THREADS = 4"
definition KINETIC_CLIENT_DEFAULT_MAX_THREADPOOL_THREADS :: u8 where "KINETIC_CLIENT_DEFAULT_MAX_THREADPOOL_THREADS = 8"

definition client_defaults :: "KineticClientConfig \<Rightarrow> KineticClientConfig" where
  "client_defaults config =
     (let c1 = (if kc_readerThreads config = 0 then config\<lparr>kc_readerThreads := KINETIC_CLIENT_DEFAULT_READER_THREADS\<rparr> else config)
      in if kc_maxThreadpoolThreads c1 = 0 then c1\<lparr>kc_maxThreadpoolThreads := KINETIC_CLIENT_DEFAULT_MAX_THREADPOOL_THREADS\<rparr> else c1)"

definition KineticBus_config :: "KineticClientConfig \<Rightarrow> bus_config" where
  "KineticBus_config config = \<lparr>cfg_listener_count = uint (kc_readerThreads config), cfg_sink_cb = True, cfg_unpack_cb = True, cfg_error_cb = False,
     cfg_log_cb = True, cfg_log_level = (if kc_logLevel config \<le> 1 then 0 else kc_logLevel config)\<rparr>"

definition KineticBus_Init ::
  "('u, 'm) env \<Rightarrow> (nat \<Rightarrow> int) \<Rightarrow> KineticClientConfig \<Rightarrow> init_input \<Rightarrow> ('u listener list \<times> 'u bus) option option" where
  "KineticBus_Init env cp config inp =
     do { (res, bo) \<leftarrow> Bus_Init env cp (Some (KineticBus_config config)) inp;
          Some (if res = BUS_INIT_SUCCESS then bo else None) }"

text \<open>The client, or null; the configuration is changed in place.\<close>

definition KineticClient_Init ::
  "('u, 'm) env \<Rightarrow> (nat \<Rightarrow> int) \<Rightarrow> KineticClientConfig \<Rightarrow> bool \<Rightarrow> init_input \<Rightarrow>
   (('u listener list \<times> 'u bus) option \<times> KineticClientConfig) option" where
  "KineticClient_Init env cp config calloc_ok inp =
     (if \<not> calloc_ok then Some (None, config)
      else let config' = client_defaults config in
           do { client \<leftarrow> KineticBus_Init env cp config' inp; Some (client, config') })"

text \<open>Shutting down: the bus is shut down and then freed, which retries until it has halted. The inputs are what the listeners and
  threads answer, for the first attempt and for the others.\<close>

definition KineticBus_Shutdown ::
  "'u bus \<Rightarrow> (nat \<Rightarrow> cmd_answer) \<Rightarrow> (nat \<Rightarrow> cmd_answer \<times> bool) \<Rightarrow> ((nat \<Rightarrow> cmd_answer) \<times> (nat \<Rightarrow> cmd_answer \<times> bool)) list \<Rightarrow>
   (bus_event list \<times> 'u bus) option" where
  "KineticBus_Shutdown b cis ls retries =
     do { (_, evs, b1) \<leftarrow> Bus_Shutdown b cis ls;
          (evs', b2) \<leftarrow> free_shutdown_loop retries b1;
          Some (evs @ evs', b2) }"

definition KineticClient_Shutdown ::
  "'u bus \<Rightarrow> (nat \<Rightarrow> cmd_answer) \<Rightarrow> (nat \<Rightarrow> cmd_answer \<times> bool) \<Rightarrow> ((nat \<Rightarrow> cmd_answer) \<times> (nat \<Rightarrow> cmd_answer \<times> bool)) list \<Rightarrow>
   bus_event list option" where
  "KineticClient_Shutdown b cis ls retries = map_option fst (KineticBus_Shutdown b cis ls retries)"

section \<open>Sessions\<close>

record ('l, 'a) create_input =
  cr_calloc :: bool
  cr_mutex :: bool
  cr_semaphore :: bool
  cr_connect :: "('l, 'a) connect_input"

text \<open>The session handed to the caller is \<open>None\<close> when there is none; the flag says that a session was made and freed again.\<close>

definition KineticClient_CreateSession ::
  "KineticSessionConfig option \<Rightarrow> bool \<Rightarrow> bool \<Rightarrow> ('l, 'a) create_input \<Rightarrow>
   (KineticStatus \<times> session_event list \<times> KineticSession option \<times> bool) option" where
  "KineticClient_CreateSession co client_ok session_ptr inp =
     (case co of
        None \<Rightarrow> Some (KINETIC_STATUS_SESSION_INVALID, [], None, False)
      | Some config \<Rightarrow>
          if \<not> session_ptr then Some (KINETIC_STATUS_SESSION_EMPTY, [], None, False)
          else if sc_host config = [] then Some (KINETIC_STATUS_HOST_EMPTY, [], None, False)
          else if sc_hmacKey config = None \<or> sc_hmacKey config = Some [] then Some (KINETIC_STATUS_HMAC_REQUIRED, [], None, False)
          else do {
            so \<leftarrow> KineticAllocator_NewSession config (cr_calloc inp);
            (case so of
               None \<Rightarrow> Some (KINETIC_STATUS_MEMORY_ERROR, [], None, False)
             | Some s \<Rightarrow>
                 (let (status, so1) = KineticSession_Create (Some s) client_ok (cr_mutex inp) (cr_semaphore inp) in
                  if status \<noteq> KINETIC_STATUS_SUCCESS then Some (status, [], None, True)
                  else do {
                    (status2, evs, so2) \<leftarrow> KineticSession_Connect so1 (cr_connect inp);
                    if status2 \<noteq> KINETIC_STATUS_SUCCESS then Some (status2, evs, None, True)
                    else Some (status2, evs, so2, False) })) })"

text \<open>\<^verbatim>\<open>KineticSession_Destroy\<close> frees the semaphore and the session.\<close>

definition KineticSession_Destroy :: "KineticSession option \<Rightarrow> KineticStatus" where
  "KineticSession_Destroy so = (if so = None then KINETIC_STATUS_SESSION_EMPTY else KINETIC_STATUS_SUCCESS)"

definition KineticClient_DestroySession :: "KineticSession option \<Rightarrow> KineticStatus \<times> session_event list" where
  "KineticClient_DestroySession so =
     (if so = None then (KINETIC_STATUS_SESSION_INVALID, [])
      else let (status, evs, _) = KineticSession_Disconnect so in (status, evs))"

definition KineticClient_GetTerminationStatus :: "KineticSession option \<Rightarrow> KineticStatus" where
  "KineticClient_GetTerminationStatus = KineticSession_GetTerminationStatus"

section \<open>Calls\<close>

record 'u client_ctx =
  cx_heap :: heap
  cx_session :: KineticSession
  cx_bus :: "'u bus option"

record ('l, 'a) call_input =
  ca_env :: "('l, 'a) request_env"
  ca_ri :: request_input
  ca_lock :: bool
  ca_alloc_op :: bool
  ca_alloc_request :: bool
  ca_reply :: "KineticStatus \<times> KineticSession"

text \<open>A call is refused before it has an operation; or drops the operation it could not build, freed or not; or
  executes it.\<close>

datatype ('l, 'a, 'u) call_result =
    Call_Refused KineticStatus
  | Call_Dropped KineticStatus bool
  | Call_Executed KineticStatus "session_event list" "('l, 'a, 'u) send_state"

definition with_operation ::
  "('l, 'a) call_input \<Rightarrow> 'u client_ctx \<Rightarrow> (('l, 'a) KineticOperation \<Rightarrow> ('l, 'a, 'u) call_result option) \<Rightarrow> ('l, 'a, 'u) call_result option" where
  "with_operation inp cx k =
     (case KineticAllocator_NewOperation (cx_session cx) (ca_alloc_op inp) (ca_alloc_request inp) of
        None \<Rightarrow> Some (Call_Refused KINETIC_STATUS_MEMORY_ERROR)
      | Some op \<Rightarrow> k op)"

definition execute ::
  "('l, 'a) call_input \<Rightarrow> 'u client_ctx \<Rightarrow> completion option \<Rightarrow> ('l, 'a) KineticOperation \<Rightarrow> ('l, 'a, 'u) call_result option" where
  "execute inp cx closure op =
     do { (status, evs, st) \<leftarrow> KineticController_ExecuteOperation (ca_env inp) (ca_ri inp) (ca_lock inp) closure (ca_reply inp)
            \<lparr>sd_heap = cx_heap cx, sd_session = cx_session cx, sd_op = op, sd_bus = cx_bus cx, sd_events = []\<rparr>;
          Some (Call_Executed status evs st) }"

text \<open>A builder whose status the call does not look at.\<close>

definition build_and_execute ::
  "('l, 'a) call_input \<Rightarrow> 'u client_ctx \<Rightarrow> completion option \<Rightarrow>
   (('l, 'a) KineticOperation \<Rightarrow> (KineticStatus \<times> ('l, 'a) KineticOperation) option) \<Rightarrow> ('l, 'a, 'u) call_result option" where
  "build_and_execute inp cx closure build =
     with_operation inp cx (\<lambda>op. do { (_, op1) \<leftarrow> build op; execute inp cx closure op1 })"

text \<open>A builder whose status is checked; \<open>frees\<close> says whether the operation is freed when it fails.\<close>

definition build_checked ::
  "bool \<Rightarrow> ('l, 'a) call_input \<Rightarrow> 'u client_ctx \<Rightarrow> completion option \<Rightarrow>
   (('l, 'a) KineticOperation \<Rightarrow> (KineticStatus \<times> ('l, 'a) KineticOperation) option) \<Rightarrow> ('l, 'a, 'u) call_result option" where
  "build_checked frees inp cx closure build =
     with_operation inp cx (\<lambda>op. do {
       (status, op1) \<leftarrow> build op;
       if status \<noteq> KINETIC_STATUS_SUCCESS then Some (Call_Dropped status frees) else execute inp cx closure op1 })"

definition KineticClient_NoOp :: "('l, 'a) call_input \<Rightarrow> 'u client_ctx \<Rightarrow> ('l, 'a, 'u) call_result option" where
  "KineticClient_NoOp inp cx = build_and_execute inp cx None KineticBuilder_BuildNoop"

definition KineticClient_Put ::
  "('l, 'a) call_input \<Rightarrow> 'u client_ctx \<Rightarrow> KineticEntry \<Rightarrow> completion option \<Rightarrow> ('l, 'a, 'u) call_result option" where
  "KineticClient_Put inp cx entry closure =
     do { c_assert (bb_len (ke_value entry) > 0 \<longrightarrow> bb_data (ke_value entry) \<noteq> NULL);
          build_checked True inp cx closure (\<lambda>op. KineticBuilder_BuildPut op entry) }"

definition KineticClient_Flush :: "('l, 'a) call_input \<Rightarrow> 'u client_ctx \<Rightarrow> completion option \<Rightarrow> ('l, 'a, 'u) call_result option" where
  "KineticClient_Flush inp cx closure = build_and_execute inp cx closure KineticBuilder_BuildFlush"

definition has_key :: "KineticEntry \<Rightarrow> bool" where "has_key entry \<longleftrightarrow> bb_data (ke_key entry) \<noteq> NULL"
definition has_value_buffer :: "KineticEntry \<Rightarrow> bool" where "has_value_buffer entry \<longleftrightarrow> bb_data (ke_value entry) \<noteq> NULL"

datatype GET_COMMAND = CMD_GET | CMD_GET_NEXT | CMD_GET_PREVIOUS

fun get_builder :: "GET_COMMAND \<Rightarrow> ('l, 'a) KineticOperation \<Rightarrow> KineticEntry \<Rightarrow> (KineticStatus \<times> ('l, 'a) KineticOperation) option" where
  "get_builder CMD_GET = KineticBuilder_BuildGet"
| "get_builder CMD_GET_NEXT = KineticBuilder_BuildGetNext"
| "get_builder CMD_GET_PREVIOUS = KineticBuilder_BuildGetPrevious"

definition handle_get_command ::
  "GET_COMMAND \<Rightarrow> ('l, 'a) call_input \<Rightarrow> 'u client_ctx \<Rightarrow> KineticEntry \<Rightarrow> completion option \<Rightarrow> ('l, 'a, 'u) call_result option" where
  "handle_get_command cmd inp cx entry closure =
     (if \<not> has_key entry then Some (Call_Refused KINETIC_STATUS_MISSING_KEY)
      else if \<not> has_value_buffer entry \<and> \<not> ke_metadataOnly entry then Some (Call_Refused KINETIC_STATUS_MISSING_VALUE_BUFFER)
      else build_and_execute inp cx closure (\<lambda>op. get_builder cmd op entry))"

definition KineticClient_Get :: "('l, 'a) call_input \<Rightarrow> 'u client_ctx \<Rightarrow> KineticEntry \<Rightarrow> completion option \<Rightarrow> ('l, 'a, 'u) call_result option" where
  "KineticClient_Get = handle_get_command CMD_GET"

definition KineticClient_GetPrevious :: "('l, 'a) call_input \<Rightarrow> 'u client_ctx \<Rightarrow> KineticEntry \<Rightarrow> completion option \<Rightarrow> ('l, 'a, 'u) call_result option" where
  "KineticClient_GetPrevious = handle_get_command CMD_GET_PREVIOUS"

definition KineticClient_GetNext :: "('l, 'a) call_input \<Rightarrow> 'u client_ctx \<Rightarrow> KineticEntry \<Rightarrow> completion option \<Rightarrow> ('l, 'a, 'u) call_result option" where
  "KineticClient_GetNext = handle_get_command CMD_GET_NEXT"

definition KineticClient_Delete :: "('l, 'a) call_input \<Rightarrow> 'u client_ctx \<Rightarrow> KineticEntry \<Rightarrow> completion option \<Rightarrow> ('l, 'a, 'u) call_result option" where
  "KineticClient_Delete inp cx entry closure = build_and_execute inp cx closure (\<lambda>op. KineticBuilder_BuildDelete op entry)"

definition KineticClient_GetKeyRange ::
  "('l, 'a) call_input \<Rightarrow> 'u client_ctx \<Rightarrow> KineticKeyRange \<Rightarrow> ByteBufferArray \<Rightarrow> completion option \<Rightarrow> ('l, 'a, 'u) call_result option" where
  "KineticClient_GetKeyRange inp cx rng keys closure =
     do { c_assert (bba_buffers keys \<noteq> []);
          build_and_execute inp cx closure (\<lambda>op. KineticBuilder_BuildGetKeyRange op rng keys) }"

definition KineticClient_P2POperation ::
  "('l, 'a) call_input \<Rightarrow> 'u client_ctx \<Rightarrow> KineticP2P_Operation \<Rightarrow> bool list \<Rightarrow> completion option \<Rightarrow> ('l, 'a, 'u) call_result option" where
  "KineticClient_P2POperation inp cx p2pOp as closure = build_checked False inp cx closure (\<lambda>op. KineticBuilder_BuildP2POperation op p2pOp as)"

section \<open>Administration\<close>

text \<open>The check the calls with a PIN make first.\<close>

definition pin_missing :: "byte_array \<Rightarrow> bool" where "pin_missing pin \<longleftrightarrow> ba_len pin > 0 \<and> ba_data pin = NULL"

definition pin_call ::
  "('l, 'a) call_input \<Rightarrow> 'u client_ctx \<Rightarrow> byte_array list \<Rightarrow>
   (('l, 'a) KineticOperation \<Rightarrow> (KineticStatus \<times> ('l, 'a) KineticOperation) option) \<Rightarrow> ('l, 'a, 'u) call_result option" where
  "pin_call inp cx pins build =
     (let status = KineticAuth_EnsureSslEnabled (ss_config (cx_session cx)) in
      if status \<noteq> KINETIC_STATUS_SUCCESS then Some (Call_Refused status)
      else if list_ex pin_missing pins then Some (Call_Refused KINETIC_STATUS_MISSING_PIN)
      else build_and_execute inp cx None build)"

definition KineticAdminClient_SetErasePin ::
  "('l, 'a) call_input \<Rightarrow> 'u client_ctx \<Rightarrow> byte_array \<Rightarrow> byte_array \<Rightarrow> ('l, 'a, 'u) call_result option" where
  "KineticAdminClient_SetErasePin inp cx old_pin new_pin =
     pin_call inp cx [old_pin, new_pin] (\<lambda>op. KineticBuilder_BuildSetPin op old_pin new_pin False)"

definition KineticAdminClient_SecureErase :: "('l, 'a) call_input \<Rightarrow> 'u client_ctx \<Rightarrow> byte_array \<Rightarrow> ('l, 'a, 'u) call_result option" where
  "KineticAdminClient_SecureErase inp cx pin = pin_call inp cx [pin] (\<lambda>op. KineticBuilder_BuildErase op True (Some pin))"

definition KineticAdminClient_InstantErase :: "('l, 'a) call_input \<Rightarrow> 'u client_ctx \<Rightarrow> byte_array \<Rightarrow> ('l, 'a, 'u) call_result option" where
  "KineticAdminClient_InstantErase inp cx pin = pin_call inp cx [pin] (\<lambda>op. KineticBuilder_BuildErase op False (Some pin))"

definition KineticAdminClient_SetLockPin ::
  "('l, 'a) call_input \<Rightarrow> 'u client_ctx \<Rightarrow> byte_array \<Rightarrow> byte_array \<Rightarrow> ('l, 'a, 'u) call_result option" where
  "KineticAdminClient_SetLockPin inp cx old_pin new_pin =
     pin_call inp cx [old_pin, new_pin] (\<lambda>op. KineticBuilder_BuildSetPin op old_pin new_pin True)"

definition KineticAdminClient_LockDevice :: "('l, 'a) call_input \<Rightarrow> 'u client_ctx \<Rightarrow> byte_array \<Rightarrow> ('l, 'a, 'u) call_result option" where
  "KineticAdminClient_LockDevice inp cx pin = pin_call inp cx [pin] (\<lambda>op. KineticBuilder_BuildLockUnlock op True (Some pin))"

definition KineticAdminClient_UnlockDevice :: "('l, 'a) call_input \<Rightarrow> 'u client_ctx \<Rightarrow> byte_array \<Rightarrow> ('l, 'a, 'u) call_result option" where
  "KineticAdminClient_UnlockDevice inp cx pin = pin_call inp cx [pin] (\<lambda>op. KineticBuilder_BuildLockUnlock op False (Some pin))"

definition KineticAdminClient_GetLog ::
  "('l, 'a) call_input \<Rightarrow> 'u client_ctx \<Rightarrow> KineticLogInfo_Type \<Rightarrow> 'l option \<Rightarrow> completion option \<Rightarrow> ('l, 'a, 'u) call_result option" where
  "KineticAdminClient_GetLog inp cx type info closure =
     (let protoType = KineticLogInfo_Type_to_GetLog_Type type in
      if protoType = GET_LOG_INVALID_TYPE then Some (Call_Refused KINETIC_STATUS_INVALID_LOG_TYPE)
      else build_and_execute inp cx closure (\<lambda>op. KineticBuilder_BuildGetLog op protoType BYTE_ARRAY_NONE info))"

definition KineticAdminClient_GetDeviceSpecificLog ::
  "('l, 'a) call_input \<Rightarrow> 'u client_ctx \<Rightarrow> byte_array \<Rightarrow> 'l option \<Rightarrow> completion option \<Rightarrow> ('l, 'a, 'u) call_result option" where
  "KineticAdminClient_GetDeviceSpecificLog inp cx name info closure =
     build_and_execute inp cx closure (\<lambda>op. KineticBuilder_BuildGetLog op GET_LOG_DEVICE name info)"

definition KineticAdminClient_SetClusterVersion :: "('l, 'a) call_input \<Rightarrow> 'u client_ctx \<Rightarrow> int \<Rightarrow> ('l, 'a, 'u) call_result option" where
  "KineticAdminClient_SetClusterVersion inp cx v = build_and_execute inp cx None (\<lambda>op. KineticBuilder_BuildSetClusterVersion op v)"

text \<open>\<open>path\<close>: a path was given; \<open>acls\<close>: what \<^verbatim>\<open>KineticACL_LoadFromFile\<close> made of the file.\<close>

definition KineticAdminClient_SetACL ::
  "('l, 'a) call_input \<Rightarrow> 'u client_ctx \<Rightarrow> bool \<Rightarrow> 'a list option \<Rightarrow> ('l, 'a, 'u) call_result option" where
  "KineticAdminClient_SetACL inp cx path acls =
     (if \<not> path then Some (Call_Refused KINETIC_STATUS_INVALID_REQUEST)
      else case acls of
        None \<Rightarrow> Some (Call_Refused KINETIC_STATUS_ACL_ERROR)
      | Some a \<Rightarrow> build_and_execute inp cx None (\<lambda>op. KineticBuilder_BuildSetACL op a))"

definition KineticAdminClient_UpdateFirmware :: "('l, 'a) call_input \<Rightarrow> 'u client_ctx \<Rightarrow> firmware_file \<Rightarrow> ('l, 'a, 'u) call_result option" where
  "KineticAdminClient_UpdateFirmware inp cx f = build_checked False inp cx None (\<lambda>op. KineticBuilder_BuildUpdateFirmware op f)"

definition KineticAdminClient_MediaScan ::
  "('l, 'a) call_input \<Rightarrow> 'u client_ctx \<Rightarrow> KineticMedia_Operation \<Rightarrow> KineticCommand_Priority \<Rightarrow> ('l, 'a, 'u) call_result option" where
  "KineticAdminClient_MediaScan inp cx mo priority = build_checked False inp cx None (\<lambda>op. KineticBuilder_BuildMediaScan op mo priority)"

definition KineticAdminClient_MediaOptimize ::
  "('l, 'a) call_input \<Rightarrow> 'u client_ctx \<Rightarrow> KineticMedia_Operation \<Rightarrow> KineticCommand_Priority \<Rightarrow> ('l, 'a, 'u) call_result option" where
  "KineticAdminClient_MediaOptimize inp cx mo priority = build_checked False inp cx None (\<lambda>op. KineticBuilder_BuildMediaOptimize op mo priority)"

section \<open>What a call sends\<close>

text \<open>All calls of the interface that execute an operation, a device log with a name among them.\<close>

inductive client_call :: "('l, 'a) call_input \<Rightarrow> 'u client_ctx \<Rightarrow> ('l, 'a, 'u) call_result \<Rightarrow> bool" for inp cx where
  "KineticClient_NoOp inp cx = Some r \<Longrightarrow> client_call inp cx r"
| "KineticClient_Put inp cx e c = Some r \<Longrightarrow> client_call inp cx r"
| "KineticClient_Flush inp cx c = Some r \<Longrightarrow> client_call inp cx r"
| "KineticClient_Get inp cx e c = Some r \<Longrightarrow> client_call inp cx r"
| "KineticClient_GetPrevious inp cx e c = Some r \<Longrightarrow> client_call inp cx r"
| "KineticClient_GetNext inp cx e c = Some r \<Longrightarrow> client_call inp cx r"
| "KineticClient_Delete inp cx e c = Some r \<Longrightarrow> client_call inp cx r"
| "KineticClient_GetKeyRange inp cx rng keys c = Some r \<Longrightarrow> client_call inp cx r"
| "KineticClient_P2POperation inp cx p as c = Some r \<Longrightarrow> client_call inp cx r"
| "KineticAdminClient_SetErasePin inp cx old new = Some r \<Longrightarrow> client_call inp cx r"
| "KineticAdminClient_SecureErase inp cx pin = Some r \<Longrightarrow> client_call inp cx r"
| "KineticAdminClient_InstantErase inp cx pin = Some r \<Longrightarrow> client_call inp cx r"
| "KineticAdminClient_SetLockPin inp cx old new = Some r \<Longrightarrow> client_call inp cx r"
| "KineticAdminClient_LockDevice inp cx pin = Some r \<Longrightarrow> client_call inp cx r"
| "KineticAdminClient_UnlockDevice inp cx pin = Some r \<Longrightarrow> client_call inp cx r"
| "KineticAdminClient_GetLog inp cx t i c = Some r \<Longrightarrow> client_call inp cx r"
| "KineticAdminClient_GetDeviceSpecificLog inp cx name i c = Some r \<Longrightarrow> ba_data name \<noteq> NULL \<Longrightarrow> ba_len name \<noteq> 0 \<Longrightarrow> client_call inp cx r"
| "KineticAdminClient_SetClusterVersion inp cx v = Some r \<Longrightarrow> client_call inp cx r"
| "KineticAdminClient_SetACL inp cx path acls = Some r \<Longrightarrow> client_call inp cx r"
| "KineticAdminClient_UpdateFirmware inp cx f = Some r \<Longrightarrow> client_call inp cx r"
| "KineticAdminClient_MediaScan inp cx mo prio = Some r \<Longrightarrow> client_call inp cx r"
| "KineticAdminClient_MediaOptimize inp cx mo prio = Some r \<Longrightarrow> client_call inp cx r"

text \<open>An operation is executed only when a builder accepted it, and then with the fields its callback needs.\<close>

fun call_ok :: "('l, 'a) call_input \<Rightarrow> 'u client_ctx \<Rightarrow> ('l, 'a, 'u) call_result \<Rightarrow> bool" where
  "call_ok inp cx (Call_Refused status) = (status \<noteq> KINETIC_STATUS_SUCCESS)"
| "call_ok inp cx (Call_Dropped status frees) = (status \<noteq> KINETIC_STATUS_SUCCESS)"
| "call_ok inp cx (Call_Executed status evs st) =
     (\<exists>op closure. built (cx_session cx) op \<and> execute inp cx closure op = Some (Call_Executed status evs st))"

lemma execute_ok:
  assumes "built (cx_session cx) op" "execute inp cx closure op = Some r"
  shows "call_ok inp cx r"
proof -
  from assms(2) obtain status evs st where "r = Call_Executed status evs st" by (auto simp: execute_def bind_Some_iff)
  with assms show ?thesis by auto
qed

lemma with_operation_ok:
  assumes "with_operation inp cx k = Some r"
    "\<And>op. KineticAllocator_NewOperation (cx_session cx) True True = Some op \<Longrightarrow> k op = Some r \<Longrightarrow> call_ok inp cx r"
  shows "call_ok inp cx r"
proof (cases "KineticAllocator_NewOperation (cx_session cx) (ca_alloc_op inp) (ca_alloc_request inp) :: ('a, 'b) KineticOperation option")
  case None
  then show ?thesis using assms(1) by (auto simp: with_operation_def)
next
  case (Some op)
  then have "ca_alloc_op inp" "ca_alloc_request inp" by (auto simp: KineticAllocator_NewOperation_def split: if_splits)
  then show ?thesis using assms Some by (simp add: with_operation_def)
qed

lemma build_and_execute_ok:
  assumes "build_and_execute inp cx closure build = Some r"
    "\<And>op st op1. KineticAllocator_NewOperation (cx_session cx) True True = Some op \<Longrightarrow> build op = Some (st, op1) \<Longrightarrow> built (cx_session cx) op1"
  shows "call_ok inp cx r"
  using assms(1) unfolding build_and_execute_def
  by (rule with_operation_ok) (auto simp: bind_Some_iff intro: execute_ok assms(2))

lemma build_checked_ok:
  assumes "build_checked frees inp cx closure build = Some r"
    "\<And>op op1. KineticAllocator_NewOperation (cx_session cx) True True = Some op \<Longrightarrow> build op = Some (KINETIC_STATUS_SUCCESS, op1) \<Longrightarrow>
       built (cx_session cx) op1"
  shows "call_ok inp cx r"
  using assms(1) unfolding build_checked_def
  by (rule with_operation_ok) (auto simp: bind_Some_iff intro: execute_ok assms(2) split: if_splits)

lemma pin_call_ok:
  assumes "pin_call inp cx pins build = Some r"
    "\<And>op st op1. KineticAllocator_NewOperation (cx_session cx) True True = Some op \<Longrightarrow> build op = Some (st, op1) \<Longrightarrow> built (cx_session cx) op1"
  shows "call_ok inp cx r"
  using assms(1) build_and_execute_ok [OF _ assms(2)] by (auto simp: pin_call_def Let_def split: if_splits)

text \<open>Builders that accept every operation.\<close>

lemma builder_succeeds:
  "KineticBuilder_BuildNoop op = Some (st, op') \<Longrightarrow> st = KINETIC_STATUS_SUCCESS"
  "KineticBuilder_BuildGet op e = Some (st, op') \<Longrightarrow> st = KINETIC_STATUS_SUCCESS"
  "KineticBuilder_BuildGetPrevious op e = Some (st, op') \<Longrightarrow> st = KINETIC_STATUS_SUCCESS"
  "KineticBuilder_BuildGetNext op e = Some (st, op') \<Longrightarrow> st = KINETIC_STATUS_SUCCESS"
  "KineticBuilder_BuildFlush op = Some (st, op') \<Longrightarrow> st = KINETIC_STATUS_SUCCESS"
  "KineticBuilder_BuildDelete op e = Some (st, op') \<Longrightarrow> st = KINETIC_STATUS_SUCCESS"
  "KineticBuilder_BuildGetKeyRange op rng keys = Some (st, op') \<Longrightarrow> st = KINETIC_STATUS_SUCCESS"
  "KineticBuilder_BuildSetPin op old new lock = Some (st, op') \<Longrightarrow> st = KINETIC_STATUS_SUCCESS"
  "KineticBuilder_BuildErase op secure pin = Some (st, op') \<Longrightarrow> st = KINETIC_STATUS_SUCCESS"
  "KineticBuilder_BuildLockUnlock op lock pin = Some (st, op') \<Longrightarrow> st = KINETIC_STATUS_SUCCESS"
  "KineticBuilder_BuildSetClusterVersion op v = Some (st, op') \<Longrightarrow> st = KINETIC_STATUS_SUCCESS"
  "KineticBuilder_BuildSetACL op acls = Some (st, op') \<Longrightarrow> st = KINETIC_STATUS_SUCCESS"
  "\<not> (t = GET_LOG_DEVICE \<and> (ba_data name = NULL \<or> ba_len name = 0)) \<Longrightarrow>
     KineticBuilder_BuildGetLog op t name i = Some (st, op') \<Longrightarrow> st = KINETIC_STATUS_SUCCESS"
  by (auto simp: builder_defs bind_Some_iff Let_def split: if_splits)

lemma log_type_not_device: "KineticLogInfo_Type_to_GetLog_Type t \<noteq> GET_LOG_DEVICE"
  by (cases t) simp_all

lemma client_call_ok: "client_call inp cx r \<Longrightarrow> call_ok inp cx r"
proof (induction rule: client_call.induct)
  case (1 r)
  then show ?case unfolding KineticClient_NoOp_def
    by (rule build_and_execute_ok) (use builder_succeeds(1) built.noop in blast)
next
  case (2 e c r)
  then have "build_checked True inp cx c (\<lambda>op. KineticBuilder_BuildPut op e) = Some r" by (auto simp: KineticClient_Put_def split: if_splits)
  then show ?case by (rule build_checked_ok) (rule built.put)
next
  case (3 c r)
  then show ?case unfolding KineticClient_Flush_def
    by (rule build_and_execute_ok) (use builder_succeeds(5) built.flush in blast)
next
  case (4 e c r)
  then show ?case unfolding KineticClient_Get_def handle_get_command_def
    by (auto split: if_splits elim!: build_and_execute_ok) (use builder_succeeds(2) built.get in blast)+
next
  case (5 e c r)
  then show ?case unfolding KineticClient_GetPrevious_def handle_get_command_def
    by (auto split: if_splits elim!: build_and_execute_ok) (use builder_succeeds(3) built.get_previous in blast)+
next
  case (6 e c r)
  then show ?case unfolding KineticClient_GetNext_def handle_get_command_def
    by (auto split: if_splits elim!: build_and_execute_ok) (use builder_succeeds(4) built.get_next in blast)+
next
  case (7 e c r)
  then show ?case unfolding KineticClient_Delete_def
    by (rule build_and_execute_ok) (use builder_succeeds(6) built.delete in blast)
next
  case (8 rng keys c r)
  then have "bba_buffers keys \<noteq> []" "build_and_execute inp cx c (\<lambda>op. KineticBuilder_BuildGetKeyRange op rng keys) = Some r"
    by (auto simp: KineticClient_GetKeyRange_def split: if_splits)
  then show ?case by (elim build_and_execute_ok) (use builder_succeeds(7) built.key_range in blast)
next
  case (9 p as c r)
  then show ?case unfolding KineticClient_P2POperation_def by (rule build_checked_ok) (rule built.p2p)
next
  case (10 old new r)
  then show ?case unfolding KineticAdminClient_SetErasePin_def by (rule pin_call_ok) (use builder_succeeds(8) built.set_pin in blast)
next
  case (11 pin r)
  then show ?case unfolding KineticAdminClient_SecureErase_def by (rule pin_call_ok) (use builder_succeeds(9) built.erase in blast)
next
  case (12 pin r)
  then show ?case unfolding KineticAdminClient_InstantErase_def by (rule pin_call_ok) (use builder_succeeds(9) built.erase in blast)
next
  case (13 old new r)
  then show ?case unfolding KineticAdminClient_SetLockPin_def by (rule pin_call_ok) (use builder_succeeds(8) built.set_pin in blast)
next
  case (14 pin r)
  then show ?case unfolding KineticAdminClient_LockDevice_def by (rule pin_call_ok) (use builder_succeeds(10) built.lock_unlock in blast)
next
  case (15 pin r)
  then show ?case unfolding KineticAdminClient_UnlockDevice_def by (rule pin_call_ok) (use builder_succeeds(10) built.lock_unlock in blast)
next
  case (16 t i c r)
  then show ?case unfolding KineticAdminClient_GetLog_def Let_def
    by (auto split: if_splits elim!: build_and_execute_ok) (use builder_succeeds(13) log_type_not_device built.get_log in blast)+
next
  case (17 name i c r)
  then show ?case unfolding KineticAdminClient_GetDeviceSpecificLog_def
    by (elim build_and_execute_ok) (use builder_succeeds(13) built.get_log in blast)
next
  case (18 v r)
  then show ?case unfolding KineticAdminClient_SetClusterVersion_def
    by (rule build_and_execute_ok) (use builder_succeeds(11) built.cluster_version in blast)
next
  case (19 path acls r)
  then show ?case unfolding KineticAdminClient_SetACL_def
    by (auto split: if_splits option.splits elim!: build_and_execute_ok) (use builder_succeeds(12) built.set_acl in blast)+
next
  case (20 f r)
  then show ?case unfolding KineticAdminClient_UpdateFirmware_def by (rule build_checked_ok) (rule built.firmware)
next
  case (21 mo prio r)
  then show ?case unfolding KineticAdminClient_MediaScan_def by (rule build_checked_ok) (rule built.media_scan)
next
  case (22 mo prio r)
  then show ?case unfolding KineticAdminClient_MediaOptimize_def by (rule build_checked_ok) (rule built.media_optimize)
qed

text \<open>C24: Every call of the interface either reports an error without sending, or executes an operation that one of the
  builders accepted: its request carries the session's cluster version and connection id, a message type and a sequence
  number still to be assigned, and the operation has the fields its callback asserts when the result arrives.\<close>

theorem calls_execute_built_operations:
  assumes "client_call inp cx r"
  shows "case r of
      Call_Refused status \<Rightarrow> status \<noteq> KINETIC_STATUS_SUCCESS
    | Call_Dropped status _ \<Rightarrow> status \<noteq> KINETIC_STATUS_SUCCESS
    | Call_Executed _ _ _ \<Rightarrow> \<exists>op closure. execute inp cx closure op = Some r \<and> callback_ready op \<and>
        (\<exists>h. header_of op = Some h \<and> hd_has_sequence h \<and> hd_sequence h = KINETIC_SEQUENCE_NOT_YET_BOUND \<and> hd_has_messagetype h \<and>
           hd_clusterversion h = sc_clusterVersion (ss_config (cx_session cx)) \<and> hd_connectionid h = ss_connectionID (cx_session cx))"
proof (cases r)
  case (Call_Executed status evs st)
  then obtain op closure where "built (cx_session cx) op" "execute inp cx closure op = Some r"
    using client_call_ok [OF assms] by auto
  then show ?thesis using built_ready [of "cx_session cx" op] Call_Executed unfolding bound_to_def by auto
qed (use client_call_ok [OF assms] in auto)

abbreviation ex_call :: "(nat, nat) call_input" where
  "ex_call \<equiv> \<lparr>ca_env = ex_request_env, ca_ri = ex_ri, ca_lock = True, ca_alloc_op = True, ca_alloc_request = True, ca_reply = (KINETIC_STATUS_SUCCESS, ex_connected)\<rparr>"

lemma ex_new_op: "KineticAllocator_NewOperation ex_connected True True = Some (the (KineticAllocator_NewOperation ex_connected True True))"
  by (simp add: KineticAllocator_NewOperation_def)

lemma ex_noop_built: "KineticBuilder_BuildNoop (the (KineticAllocator_NewOperation ex_connected True True)) = Some (KINETIC_STATUS_SUCCESS, ex_noop)"
  by (simp add: ex_noop_def KineticAllocator_NewOperation_def KineticBuilder_BuildNoop_def message_defs KineticRequest_Init_def
    KineticMessage_HeaderInit_def)

lemma ex_validate: "KineticOperation_ValidateOperation (ex_noop\<lparr>op_closure := c\<rparr>) = Some ()"
  by (simp add: ex_noop_def KineticAllocator_NewOperation_def KineticBuilder_BuildNoop_def message_defs KineticRequest_Init_def
    KineticMessage_HeaderInit_def c_assert_def)

lemma ex_terminated: "ss_terminationStatus ex_connected = KINETIC_STATUS_SUCCESS"
  by (simp add: ex_connected_def ex_session_def KineticAllocator_NewSession_def ex_config_def KINETIC_MAX_KEY_LEN_def)

text \<open>A NOOP that is sent and answered.\<close>

lemma calls_execute_built_operations_witness:
  "\<exists>(b :: nat bus) st. KineticClient_NoOp ex_call \<lparr>cx_heap = Map.empty, cx_session = ex_connected, cx_bus = Some b\<rparr> =
       Some (Call_Executed KINETIC_STATUS_SUCCESS [] st) \<and>
     (\<exists>op closure. execute ex_call \<lparr>cx_heap = Map.empty, cx_session = ex_connected, cx_bus = Some b\<rparr> closure op =
       Some (Call_Executed KINETIC_STATUS_SUCCESS [] st) \<and> callback_ready op)"
proof -
  from ex_bus_send obtain evs b1 where "ex_register = Some (True, evs, b1)" and "map_option fst (Bus_SendRequest (Some b1) (Some ex_bus_message) True (ri_send ex_ri)) = Some True"
    by (auto simp only: bind_Some_iff split_paired_Ex split_conv split: if_splits) auto
  from this(2) obtain sevs bo where "Bus_SendRequest (Some b1) (Some ex_bus_message) True (ri_send ex_ri) = Some (True, sevs, bo)" by auto
  from ex_send_run [OF this] obtain st' where st': "send_request_in_lock ex_request_env ex_ri (send_state_of Map.empty (ex_noop\<lparr>op_closure := Some DefaultCallback\<rparr>)
      \<lparr>sn_session = ex_connected, sn_bus = b1, sn_ops = []\<rparr>) = Some (KINETIC_STATUS_SUCCESS, st')" by blast
  let ?cx = "\<lparr>cx_heap = Map.empty, cx_session = ex_connected, cx_bus = Some b1\<rparr>"
  have e: "execute ex_call ?cx None ex_noop = Some (Call_Executed KINETIC_STATUS_SUCCESS [] (st'\<lparr>sd_session := ex_connected\<rparr>))"
    using st' unfolding execute_def KineticController_ExecuteOperation_def KineticOperation_SendRequest_def send_state_of_def
    by (simp add: KineticSession_GetTerminationStatus_def ex_terminated ex_validate)
  have nc: "KineticClient_NoOp ex_call ?cx = Some (Call_Executed KINETIC_STATUS_SUCCESS [] (st'\<lparr>sd_session := ex_connected\<rparr>))"
    unfolding KineticClient_NoOp_def build_and_execute_def with_operation_def using ex_new_op ex_noop_built e
    by (simp add: KineticAllocator_NewOperation_def)
  from calls_execute_built_operations [OF client_call.intros(1) [OF nc]]
  have "\<exists>op closure. execute ex_call ?cx closure op = Some (Call_Executed KINETIC_STATUS_SUCCESS [] (st'\<lparr>sd_session := ex_connected\<rparr>)) \<and> callback_ready op"
    unfolding call_result.case by blast
  with nc show ?thesis by blast
qed

section \<open>PINs\<close>

lemma pin_send_refused:
  assumes "op_pin (sd_op st) = Some p" "\<not> sc_useSsl (ss_config (sd_session st))" "send_request_in_lock env ri st = Some (status, st')"
  shows "status \<in> {KINETIC_STATUS_SSL_REQUIRED, KINETIC_STATUS_MEMORY_ERROR} \<and> sd_bus st' = sd_bus st \<and> sd_events st' = sd_events st"
  using assms
  by (auto simp: send_request_in_lock_def KineticSession_GetNextSequenceCount_def KineticRequest_PopulateAuthentication_def
    KineticAuth_PopulatePin_def KineticRequest_PackCommand_def Let_def bind_Some_iff split: if_splits prod.splits)

text \<open>C27: On a session without SSL no PIN leaves the client: the six calls that take one are refused before an operation
  exists, and an operation that carries a PIN is refused by the send before the bus hears of it.\<close>

theorem pins_need_ssl:
  assumes "\<not> sc_useSsl (ss_config (cx_session cx))"
  shows "KineticAdminClient_SetErasePin inp cx old new = Some (Call_Refused KINETIC_STATUS_SSL_REQUIRED) \<and>
    KineticAdminClient_SetLockPin inp cx old new = Some (Call_Refused KINETIC_STATUS_SSL_REQUIRED) \<and>
    KineticAdminClient_SecureErase inp cx pin = Some (Call_Refused KINETIC_STATUS_SSL_REQUIRED) \<and>
    KineticAdminClient_InstantErase inp cx pin = Some (Call_Refused KINETIC_STATUS_SSL_REQUIRED) \<and>
    KineticAdminClient_LockDevice inp cx pin = Some (Call_Refused KINETIC_STATUS_SSL_REQUIRED) \<and>
    KineticAdminClient_UnlockDevice inp cx pin = Some (Call_Refused KINETIC_STATUS_SSL_REQUIRED) \<and>
    (\<forall>st ri env status st'. sd_session st = cx_session cx \<and> op_pin (sd_op st) \<noteq> None \<and> send_request_in_lock env ri st = Some (status, st') \<longrightarrow>
       status \<noteq> KINETIC_STATUS_SUCCESS \<and> sd_bus st' = sd_bus st \<and> sd_events st' = sd_events st)"
proof -
  have sent: "status \<noteq> KINETIC_STATUS_SUCCESS \<and> sd_bus st' = sd_bus st \<and> sd_events st' = sd_events st"
    if "sd_session st = cx_session cx" "op_pin (sd_op st) \<noteq> None" "send_request_in_lock env ri st = Some (status, st')" for st ri env status st'
    using pin_send_refused [OF _ _ that(3)] that(1,2) assms by auto
  have call: "pin_call inp cx pins build = Some (Call_Refused KINETIC_STATUS_SSL_REQUIRED)" for pins build
    using assms by (simp add: pin_call_def KineticAuth_EnsureSslEnabled_def)
  show ?thesis
    unfolding KineticAdminClient_SetErasePin_def KineticAdminClient_SetLockPin_def KineticAdminClient_SecureErase_def
      KineticAdminClient_InstantErase_def KineticAdminClient_LockDevice_def KineticAdminClient_UnlockDevice_def
    by (intro conjI call) (use sent in blast)
qed

lemma pins_need_ssl_witness:
  "KineticAdminClient_SecureErase ex_call \<lparr>cx_heap = Map.empty, cx_session = ex_connected, cx_bus = None :: nat bus option\<rparr>
     \<lparr>ba_len = 4, ba_data = Ptr 0 0\<rparr> = Some (Call_Refused KINETIC_STATUS_SSL_REQUIRED)"
proof -
  have "\<not> sc_useSsl (ss_config (cx_session \<lparr>cx_heap = Map.empty, cx_session = ex_connected, cx_bus = None :: nat bus option\<rparr>))"
    by (simp add: ex_connected_def ex_session_def KineticAllocator_NewSession_def ex_config_def KINETIC_MAX_KEY_LEN_def)
  from pins_need_ssl [OF this] show ?thesis by blast
qed

end
