(* ===== verification/Kinetic_ACL.thy ===== *)
theory Kinetic_ACL
  imports Prelude
begin

text \<open>
  Access control lists: reading them from a JSON file and freeing them (\<^verbatim>\<open>kinetic_acl.c\<close>). The JSON library is not
  part of the repository; its calls are a record of functions over its objects, an object pointer being \<open>None\<close>
  for the null pointer, which is also how the library represents the JSON value null. \<open>None\<close> as a
  result is an access the C code must not make.
\<close>

section \<open>Permissions\<close>

datatype Permission =
    PERM_INVALID | PERM_READ | PERM_WRITE | PERM_DELETE | PERM_RANGE | PERM_SETUP | PERM_P2POP | PERM_GETLOG | PERM_SECURITY
  | PERM_OTHER int

definition permission_table :: "(Permission \<times> string) list" where
  "permission_table = [(PERM_INVALID, ''INVALID''), (PERM_READ, ''READ''), (PERM_WRITE, ''WRITE''), (PERM_DELETE, ''DELETE''),
     (PERM_RANGE, ''RANGE''), (PERM_SETUP, ''SETUP''), (PERM_P2POP, ''P2POP''), (PERM_GETLOG, ''GETLOG''), (PERM_SECURITY, ''SECURITY'')]"

fun find_permission :: "Permission \<Rightarrow> (Permission \<times> string) list \<Rightarrow> string" where
  "find_permission p [] = ''INVALID''"
| "find_permission p ((q, s) # rest) = (if q = p then s else find_permission p rest)"

definition str_of_permission :: "Permission \<Rightarrow> string" where
  "str_of_permission p = find_permission p permission_table"

fun find_string :: "string \<Rightarrow> (Permission \<times> string) list \<Rightarrow> Permission" where
  "find_string s [] = PERM_INVALID"
| "find_string s ((q, t) # rest) = (if s = t then q else find_string s rest)"

definition permission_of_str :: "string \<Rightarrow> Permission" where
  "permission_of_str s = find_string s permission_table"

section \<open>Lists of access rights\<close>

datatype KineticACLLoadResult =
    ACL_OK | ACL_END_OF_STREAM | ACL_ERROR_NULL | ACL_ERROR_MEMORY | ACL_ERROR_JSON_FILE | ACL_ERROR_BAD_JSON
  | ACL_ERROR_MISSING_FIELD | ACL_ERROR_INVALID_FIELD

definition ACL_MAX_PERMISSIONS :: nat where "ACL_MAX_PERMISSIONS = 8"

text \<open>\<open>cs_array\<close>: the array for the permissions was allocated.\<close>

record Scope =
  cs_offset :: "int option"
  cs_value :: "string option"
  cs_array :: bool
  cs_permission :: "Permission list"
  cs_tlsrequired :: "bool option"

text \<open>A pointer of the array of scopes may be null.\<close>

record ACL =
  ac_identity :: "int option"
  ac_key :: "string option"
  ac_hmacalgorithm :: bool
  ac_scope :: "Scope option list"

section \<open>The JSON library\<close>

datatype json_type = json_type_null | json_type_string | json_type_array | json_type_other

record 'j json_lib =
  jl_get_ex :: "'j option \<Rightarrow> string \<Rightarrow> 'j option option"
  jl_type :: "'j option \<Rightarrow> json_type"
  jl_string :: "'j option \<Rightarrow> string option"
  jl_int64 :: "'j option \<Rightarrow> int"
  jl_boolean :: "'j option \<Rightarrow> bool"
  jl_array :: "'j option \<Rightarrow> 'j option list"

text \<open>The result of \<^verbatim>\<open>json_tokener_parse_ex\<close>: an object and the characters consumed, the end of the input, or an error.\<close>

datatype 'j parsed = Parsed "'j" nat | Parse_Eof | Parse_Error

text \<open>The next allocation; past the end of the list they succeed.\<close>

fun alloc_next :: "bool list \<Rightarrow> bool \<times> bool list" where
  "alloc_next [] = (True, [])"
| "alloc_next (a # as) = (a, as)"

section \<open>Scopes\<close>

fun unpack_permissions ::
  "'j json_lib \<Rightarrow> 'j option list \<Rightarrow> Permission list \<Rightarrow> (KineticACLLoadResult + Permission list) option" where
  "unpack_permissions jl [] acc = Some (Inr acc)"
| "unpack_permissions jl (j # js) acc =
     do { s \<leftarrow> jl_string jl j;
          let p = permission_of_str s;
          if p = PERM_INVALID then Some (Inl ACL_ERROR_INVALID_FIELD)
          else do { c_assert (length acc < ACL_MAX_PERMISSIONS); unpack_permissions jl js (acc @ [p]) } }"

definition unpack_permission :: "'j json_lib \<Rightarrow> 'j option \<Rightarrow> (KineticACLLoadResult + Permission list) option" where
  "unpack_permission jl val =
     (if jl_type jl val = json_type_string then
        do { s \<leftarrow> jl_string jl val;
             Some (if permission_of_str s = PERM_INVALID then Inl ACL_ERROR_INVALID_FIELD else Inr [permission_of_str s]) }
      else if jl_type jl val = json_type_array then unpack_permissions jl (jl_array jl val) []
      else Some (Inl ACL_ERROR_INVALID_FIELD))"

text \<open>One scope; the list of booleans says which allocations succeed.\<close>

definition unpack_scope ::
  "'j json_lib \<Rightarrow> bool list \<Rightarrow> 'j option \<Rightarrow> ((KineticACLLoadResult + Scope) \<times> bool list) option" where
  "unpack_scope jl as cur =
     (let (a1, as1) = alloc_next as in
      if \<not> a1 then Some (Inl ACL_ERROR_MEMORY, as1)
      else
        let off = map_option (jl_int64 jl) (jl_get_ex jl cur ''offset'');
            str = Option.bind (jl_get_ex jl cur ''value'') (jl_string jl);
            (a2, as2) = (if str = None then (True, as1) else alloc_next as1);
            tls = map_option (jl_boolean jl) (jl_get_ex jl cur ''TlsRequired'')
        in
        if \<not> a2 then Some (Inl ACL_ERROR_MEMORY, as2)
        else case jl_get_ex jl cur ''permission'' of
            None \<Rightarrow> Some (Inr \<lparr>cs_offset = off, cs_value = str, cs_array = False, cs_permission = [], cs_tlsrequired = tls\<rparr>, as2)
          | Some val \<Rightarrow>
              (let (a3, as3) = alloc_next as2 in
               if \<not> a3 then Some (Inl ACL_ERROR_MEMORY, as3)
               else do {
                 r \<leftarrow> unpack_permission jl val;
                 Some (case r of Inl e \<Rightarrow> Inl e
                   | Inr ps \<Rightarrow> Inr \<lparr>cs_offset = off, cs_value = str, cs_array = True, cs_permission = ps, cs_tlsrequired = tls\<rparr>, as3) }))"

fun unpack_scope_list ::
  "'j json_lib \<Rightarrow> bool list \<Rightarrow> 'j option list \<Rightarrow> ((KineticACLLoadResult + Scope list) \<times> bool list) option" where
  "unpack_scope_list jl as [] = Some (Inr [], as)"
| "unpack_scope_list jl as (None # js) = unpack_scope_list jl as js"
| "unpack_scope_list jl as (Some j # js) =
     do { (r, as1) \<leftarrow> unpack_scope jl as (Some j);
          (case r of
             Inl e \<Rightarrow> Some (Inl e, as1)
           | Inr sc \<Rightarrow>
               do { (r', as2) \<leftarrow> unpack_scope_list jl as1 js;
                    Some (case r' of Inl e \<Rightarrow> Inl e | Inr scs \<Rightarrow> Inr (sc # scs), as2) }) }"

text \<open>The array has a place for every element of the JSON array; scopes are stored from its start, and its
  length is set to the number of elements at the end.\<close>

definition unpack_scopes ::
  "'j json_lib \<Rightarrow> bool list \<Rightarrow> 'j option list \<Rightarrow> ((KineticACLLoadResult + Scope option list) \<times> bool list) option" where
  "unpack_scopes jl as scopes =
     (let (a1, as1) = alloc_next as in
      if \<not> a1 then Some (Inl ACL_ERROR_MEMORY, as1)
      else do {
        (r, as2) \<leftarrow> unpack_scope_list jl as1 scopes;
        Some (case r of Inl e \<Rightarrow> Inl e | Inr scs \<Rightarrow> Inr (map Some scs @ replicate (length scopes - length scs) None), as2) })"

section \<open>Reading\<close>

text \<open>The member \<^verbatim>\<open>scope\<close> has to be an array: \<^verbatim>\<open>json_object_array_length\<close> is called on it without a test.\<close>

definition acl_key :: "'j json_lib \<Rightarrow> 'j \<Rightarrow> string option option" where
  "acl_key jl obj = (case jl_get_ex jl (Some obj) ''key'' of None \<Rightarrow> Some None | Some v \<Rightarrow> do { s \<leftarrow> jl_string jl v; Some (Some s) })"

definition acl_hmac_ok :: "'j json_lib \<Rightarrow> 'j \<Rightarrow> bool option" where
  "acl_hmac_ok jl obj = (case jl_get_ex jl (Some obj) ''HMACAlgorithm'' of None \<Rightarrow> Some True | Some v \<Rightarrow> do { s \<leftarrow> jl_string jl v; Some (s = ''HmacSHA1'') })"

definition fill_acl ::
  "'j json_lib \<Rightarrow> bool list \<Rightarrow> 'j \<Rightarrow> 'j option \<Rightarrow> nat \<Rightarrow> ((KineticACLLoadResult + ACL \<times> nat) \<times> bool list) option" where
  "fill_acl jl as obj scopes new_offset =
     do { key \<leftarrow> acl_key jl obj;
          let x = (if key = None then (True, as) else alloc_next as);
          if \<not> fst x then Some (Inl ACL_ERROR_MEMORY, snd x)
          else do {
            hmac_ok \<leftarrow> acl_hmac_ok jl obj;
            if \<not> hmac_ok then Some (Inl ACL_ERROR_INVALID_FIELD, snd x)
            else do {
              (r, as') \<leftarrow> unpack_scopes jl (snd x) (jl_array jl scopes);
              Some (case r of Inl e \<Rightarrow> Inl e
                | Inr scs \<Rightarrow> Inr (\<lparr>ac_identity = map_option (jl_int64 jl) (jl_get_ex jl (Some obj) ''identity''), ac_key = key,
                    ac_hmacalgorithm = (key \<noteq> None), ac_scope = scs\<rparr>, new_offset), as') } } }"

definition read_next_ACL ::
  "'j json_lib \<Rightarrow> bool list \<Rightarrow> 'j parsed \<Rightarrow> ((KineticACLLoadResult + ACL \<times> nat) \<times> bool list) option" where
  "read_next_ACL jl as p =
     (case p of
        Parse_Eof \<Rightarrow> Some (Inl ACL_END_OF_STREAM, as)
      | Parse_Error \<Rightarrow> Some (Inl ACL_ERROR_BAD_JSON, as)
      | Parsed obj new_offset \<Rightarrow>
          (case jl_get_ex jl (Some obj) ''scope'' of
             None \<Rightarrow> Some (Inl ACL_ERROR_MISSING_FIELD, as)
           | Some scopes \<Rightarrow>
               do { c_assert (jl_type jl scopes = json_type_array);
                    if \<not> fst (alloc_next as) then Some (Inl ACL_ERROR_MEMORY, snd (alloc_next as))
                    else fill_acl jl (snd (alloc_next as)) obj scopes new_offset }))"

text \<open>The loop over the objects in the file. \<open>parse\<close> is the tokener on the rest of the input; the array of lists
  grows by doubling, so an allocation is due whenever the number read is a power of two. \<open>fuel\<close> bounds the
  number of rounds.\<close>

fun read_all ::
  "'j json_lib \<Rightarrow> (string \<Rightarrow> 'j parsed) \<Rightarrow> nat \<Rightarrow> bool list \<Rightarrow> string \<Rightarrow> nat \<Rightarrow> nat \<Rightarrow> ACL list \<Rightarrow> KineticACLLoadResult \<Rightarrow>
   (KineticACLLoadResult \<times> ACL list) option" where
  "read_all jl parse fuel as buf offset ceil acls res =
     (if offset = length buf then Some (res, acls)
      else case fuel of
        0 \<Rightarrow> None
      | Suc n \<Rightarrow>
          do { (r, as1) \<leftarrow> read_next_ACL jl as (parse (drop offset buf));
               (case r of
                  Inl e \<Rightarrow> Some (e, acls)
                | Inr (acl, d) \<Rightarrow>
                    if length acls = ceil then
                      (if \<not> fst (alloc_next as1) then Some (ACL_OK, acls)
                       else read_all jl parse n (snd (alloc_next as1)) buf (offset + d) (2 * ceil) (acls @ [acl]) ACL_OK)
                    else read_all jl parse n as1 buf (offset + d) ceil (acls @ [acl]) ACL_OK) })"

declare read_all.simps [simp del]

definition acl_of_string ::
  "'j json_lib \<Rightarrow> (string \<Rightarrow> 'j parsed) \<Rightarrow> nat \<Rightarrow> bool list \<Rightarrow> string \<Rightarrow> (KineticACLLoadResult \<times> ACL list) option" where
  "acl_of_string jl parse fuel as buf =
     (let (a1, as1) = alloc_next as; (a2, as2) = alloc_next as1; (a3, as3) = alloc_next as2 in
      if \<not> a1 \<or> \<not> a2 \<or> \<not> a3 then Some (ACL_ERROR_MEMORY, [])
      else do {
        (res, acls) \<leftarrow> read_all jl parse fuel as3 buf 0 1 [] ACL_ERROR_MEMORY;
        Some (if res = ACL_END_OF_STREAM \<or> res = ACL_OK then (if acls = [] then (ACL_ERROR_BAD_JSON, []) else (ACL_OK, acls)) else (res, [])) })"

section \<open>Reading the file\<close>

text \<open>The buffer doubles when it is full. A failed \<^verbatim>\<open>realloc\<close> is ignored: the next \<^verbatim>\<open>read\<close> asks for no bytes, and its result 0 is
  taken for the end of the file. \<open>rest\<close> is what is left of the file; an element of \<open>reads\<close> is negative for an error, otherwise a
  bound on what that call gives, which is at least one byte when there is one; past the end calls give all they can.\<close>

definition read_result :: "int list \<Rightarrow> nat \<Rightarrow> int" where
  "read_result reads want = (case reads of [] \<Rightarrow> int want | r # _ \<Rightarrow> if r < 0 then r else min (int want) (max 1 r))"

definition grow_buffer :: "bool list \<Rightarrow> nat \<Rightarrow> nat \<Rightarrow> nat \<times> bool list" where
  "grow_buffer as buf_sz buf_used =
     (if buf_sz = buf_used then (if fst (alloc_next as) then 2 * buf_sz else buf_sz, snd (alloc_next as)) else (buf_sz, as))"

primrec read_file :: "nat \<Rightarrow> bool list \<Rightarrow> int list \<Rightarrow> nat \<Rightarrow> string \<Rightarrow> string \<Rightarrow> (KineticACLLoadResult + string) option" where
  "read_file 0 as reads buf_sz used rest = None"
| "read_file (Suc n) as reads buf_sz used rest =
     (let got = read_result reads (min (buf_sz - length used) (length rest)) in
      if got < 0 then Some (Inl ACL_ERROR_JSON_FILE)
      else if got = 0 then Some (Inr used)
      else
        let used' = used @ take (nat got) rest; g = grow_buffer as buf_sz (length used')
        in read_file n (snd g) (tl reads) (fst g) used' (drop (nat got) rest))"

definition BUF_START_SIZE :: nat where "BUF_START_SIZE = 256"

definition KineticACL_LoadFromFile ::
  "'j json_lib \<Rightarrow> (string \<Rightarrow> 'j parsed) \<Rightarrow> bool \<Rightarrow> bool \<Rightarrow> bool \<Rightarrow> bool list \<Rightarrow> bool list \<Rightarrow> int list \<Rightarrow> string \<Rightarrow>
   (KineticACLLoadResult \<times> ACL list) option" where
  "KineticACL_LoadFromFile jl parse args_ok open_ok calloc_ok reallocs allocs reads content =
     (if \<not> args_ok then Some (ACL_ERROR_NULL, [])
      else if \<not> open_ok then Some (ACL_ERROR_BAD_JSON, [])
      else if \<not> calloc_ok then Some (ACL_ERROR_MEMORY, [])
      else do {
        r \<leftarrow> read_file (length content + 2) reallocs reads BUF_START_SIZE [] content;
        (case r of
           Inl e \<Rightarrow> Some (e, [])
         | Inr buf \<Rightarrow> acl_of_string jl parse (length buf) allocs buf) })"

section \<open>Freeing\<close>

text \<open>The number of blocks freed: a scope's value, its permissions unless there are none, the scope; the array of scopes, the
  key and the list. A null pointer in the array of scopes is dereferenced.\<close>

definition free_scope :: "Scope \<Rightarrow> nat" where
  "free_scope sc = (if cs_value sc = None then 0 else 1) + (if cs_permission sc = [] then 0 else 1) + 1"

fun free_scopes :: "Scope option list \<Rightarrow> nat option" where
  "free_scopes [] = Some 0"
| "free_scopes (None # scs) = None"
| "free_scopes (Some sc # scs) = do { n \<leftarrow> free_scopes scs; Some (free_scope sc + n) }"

fun free_acls :: "ACL list \<Rightarrow> nat option" where
  "free_acls [] = Some 0"
| "free_acls (a # as) =
     do { n \<leftarrow> free_scopes (ac_scope a);
          m \<leftarrow> free_acls as;
          Some (n + 1 + (if ac_key a = None then 0 else 1) + 1 + m) }"

definition KineticACL_Free :: "ACL list \<Rightarrow> nat option" where
  "KineticACL_Free acls = do { n \<leftarrow> free_acls acls; Some (n + 2) }"

section \<open>Names of permissions\<close>

lemma permission_names:
  "permission_of_str (str_of_permission p) = (case p of PERM_OTHER n \<Rightarrow> PERM_INVALID | _ \<Rightarrow> p)"
  "permission_of_str s \<noteq> PERM_INVALID \<Longrightarrow> str_of_permission (permission_of_str s) = s"
  by (cases p) (auto simp: permission_of_str_def str_of_permission_def permission_table_def split: if_splits)

section \<open>The file is read whole\<close>

lemma read_file_total:
  assumes "length rest + 1 < fuel" "length used < sz" "\<forall>r \<in> set reads. 0 \<le> r" "\<forall>a \<in> set as. a"
  shows "read_file fuel as reads sz used rest = Some (Inr (used @ rest))"
  using assms
proof (induction fuel arbitrary: as reads sz used rest)
  case (Suc n)
  define got where "got = read_result reads (min (sz - length used) (length rest))"
  have got: "0 \<le> got" "got \<le> int (min (sz - length used) (length rest))" "got = 0 \<longleftrightarrow> rest = []"
    using Suc.prems(2,3) by (auto simp: got_def read_result_def min_def max_def split: list.splits if_splits)
  show ?case
  proof (cases "rest = []")
    case True
    then show ?thesis using got(3) unfolding got_def by (simp add: Let_def)
  next
    case False
    then have g0: "0 < nat got" "nat got \<le> length rest" "length used + nat got \<le> sz" using got by auto
    let ?u = "used @ take (nat got) rest"
    define g where "g = grow_buffer as sz (length ?u)"
    have al: "fst (alloc_next as)" "\<forall>a \<in> set (snd (alloc_next as)). a" using Suc.prems(4) by (cases as; simp)+
    have "length ?u < fst g" "\<forall>a \<in> set (snd g). a"
      using g0 Suc.prems(2,4) al by (auto simp: g_def grow_buffer_def)
    moreover have "length (drop (nat got) rest) + 1 < n" using g0 Suc.prems(1) by simp
    moreover have "\<forall>r \<in> set (tl reads). 0 \<le> r" using Suc.prems(3) by (cases reads) auto
    ultimately have "read_file n (snd g) (tl reads) (fst g) ?u (drop (nat got) rest) = Some (Inr (?u @ drop (nat got) rest))"
      by (intro Suc.IH)
    moreover have "min (length rest) (nat got) = nat got" using g0(2) by simp
    ultimately show ?thesis using False got by (simp add: got_def [symmetric] g_def Let_def)
  qed
qed simp

lemma read_file_error: "read_file fuel as reads sz used rest = Some (Inl e) \<Longrightarrow> e = ACL_ERROR_JSON_FILE"
proof (induction fuel arbitrary: as reads sz used rest)
  case (Suc n)
  then show ?case by (auto simp: Let_def split: if_splits)
qed simp

section \<open>What was loaded\<close>

lemma case_Inr_iff: "(case x of Inl e \<Rightarrow> Inl e | Inr y \<Rightarrow> Inr (f y)) = Inr z \<longleftrightarrow> (\<exists>y. x = Inr y \<and> f y = z)"
  by (cases x) auto

definition scope_ok :: "Scope \<Rightarrow> bool" where
  "scope_ok sc \<longleftrightarrow> length (cs_permission sc) \<le> ACL_MAX_PERMISSIONS \<and> PERM_INVALID \<notin> set (cs_permission sc) \<and> (cs_permission sc \<noteq> [] \<longrightarrow> cs_array sc)"

definition acl_wf :: "ACL \<Rightarrow> bool" where
  "acl_wf a \<longleftrightarrow> (\<forall>sc. Some sc \<in> set (ac_scope a) \<longrightarrow> scope_ok sc)"

lemma unpack_permissions_ok:
  assumes "unpack_permissions jl js acc = Some (Inr ps)" "length acc \<le> ACL_MAX_PERMISSIONS" "PERM_INVALID \<notin> set acc"
  shows "length ps \<le> ACL_MAX_PERMISSIONS \<and> PERM_INVALID \<notin> set ps \<and> length ps = length acc + length js"
  using assms
proof (induction js arbitrary: acc)
  case (Cons j js)
  then obtain s where s: "jl_string jl j = Some s" "permission_of_str s \<noteq> PERM_INVALID" "length acc < ACL_MAX_PERMISSIONS"
      "unpack_permissions jl js (acc @ [permission_of_str s]) = Some (Inr ps)"
    by (auto simp: bind_Some_iff Let_def split: if_splits)
  then show ?case using Cons.IH [OF s(4)] Cons.prems(3) by auto
qed simp

lemma unpack_permission_ok:
  assumes "unpack_permission jl v = Some (Inr ps)"
  shows "length ps \<le> ACL_MAX_PERMISSIONS \<and> PERM_INVALID \<notin> set ps"
  using assms unpack_permissions_ok [of jl "jl_array jl v" "[]" ps]
  by (auto simp: unpack_permission_def bind_Some_iff ACL_MAX_PERMISSIONS_def split: if_splits)

lemma unpack_scope_ok:
  assumes "unpack_scope jl as cur = Some (Inr sc, as')"
  shows "scope_ok sc"
  using assms unpack_permission_ok [of jl]
  by (auto simp: unpack_scope_def Let_def scope_ok_def bind_Some_iff case_Inr_iff split: if_splits prod.splits option.splits)

lemma unpack_scope_list_ok:
  assumes "unpack_scope_list jl as js = Some (Inr scs, as')"
  shows "(\<forall>sc \<in> set scs. scope_ok sc) \<and> length scs \<le> length js \<and> (length scs = length js \<longleftrightarrow> None \<notin> set js)"
  using assms
proof (induction jl as js arbitrary: scs as' rule: unpack_scope_list.induct)
  case (2 jl as js)
  then show ?case by fastforce
next
  case (3 jl as j js)
  from 3(2) obtain x as1 where x: "unpack_scope jl as (Some j) = Some (x, as1)" by (auto simp: bind_Some_iff)
  with 3(2) obtain sc where sc: "x = Inr sc" by (cases x) auto
  with x 3(2) obtain scs' where r: "unpack_scope jl as (Some j) = Some (Inr sc, as1)" "unpack_scope_list jl as1 js = Some (Inr scs', as')" "scs = sc # scs'"
    by (auto simp: bind_Some_iff case_Inr_iff)
  from 3(1) [OF r(1) refl refl r(2)] r unpack_scope_ok [OF r(1)] show ?case by auto
qed simp

lemma unpack_scopes_ok:
  assumes "unpack_scopes jl as js = Some (Inr arr, as')"
  shows "(\<forall>sc. Some sc \<in> set arr \<longrightarrow> scope_ok sc) \<and> length arr = length js \<and> (None \<in> set arr \<longleftrightarrow> None \<in> set js)"
proof -
  from assms obtain as1 scs where r: "unpack_scope_list jl as1 js = Some (Inr scs, as')" "arr = map Some scs @ replicate (length js - length scs) None"
    by (auto simp: unpack_scopes_def Let_def bind_Some_iff case_Inr_iff split: if_splits prod.splits)
  with unpack_scope_list_ok [OF r(1)] show ?thesis by auto
qed

lemma read_next_ok:
  assumes "read_next_ACL jl as p = Some (Inr (a, d), as')"
  shows "acl_wf a \<and> (\<exists>obj scopes. p = Parsed obj d \<and> jl_get_ex jl (Some obj) ''scope'' = Some scopes \<and>
     length (ac_scope a) = length (jl_array jl scopes) \<and> (None \<in> set (ac_scope a) \<longleftrightarrow> None \<in> set (jl_array jl scopes)))"
proof -
  from assms obtain obj d' where p: "p = Parsed obj d'" by (cases p) (auto simp: read_next_ACL_def)
  with assms obtain scopes where sc: "jl_get_ex jl (Some obj) ''scope'' = Some scopes"
    by (cases "jl_get_ex jl (Some obj) ''scope''") (auto simp: read_next_ACL_def)
  from assms p sc obtain as1 where "fill_acl jl as1 obj scopes d' = Some (Inr (a, d), as')"
    by (auto simp: read_next_ACL_def split: if_splits)
  then obtain as2 arr where "unpack_scopes jl as2 (jl_array jl scopes) = Some (Inr arr, as')" "ac_scope a = arr" "d' = d"
    by (auto simp: fill_acl_def Let_def bind_Some_iff case_Inr_iff split: if_splits)
  with p sc unpack_scopes_ok [OF this(1)] show ?thesis by (auto simp: acl_wf_def)
qed

lemma read_all_ok:
  assumes "read_all jl parse fuel as buf offset ceil acls res = Some (res', acls')" "\<forall>a \<in> set acls. acl_wf a"
  shows "\<forall>a \<in> set acls'. acl_wf a"
  using assms
proof (induction fuel arbitrary: as offset ceil acls res)
  case 0
  then show ?case by (subst (asm) read_all.simps) (auto split: if_splits)
next
  case (Suc n)
  show ?case
  proof (cases "offset = length buf")
    case True
    then show ?thesis using Suc.prems by (subst (asm) read_all.simps) auto
  next
    case False
    then obtain r as1 where r: "read_next_ACL jl as (parse (drop offset buf)) = Some (r, as1)"
      using Suc.prems(1) by (subst (asm) read_all.simps) (auto simp: bind_Some_iff)
    show ?thesis
    proof (cases r)
      case (Inl e)
      then show ?thesis using False r Suc.prems by (subst (asm) read_all.simps) auto
    next
      case (Inr p)
      then obtain a d where p: "r = Inr (a, d)" by (cases p) auto
      with r have "acl_wf a" using read_next_ok by blast
      then have wf: "\<forall>x \<in> set (acls @ [a]). acl_wf x" using Suc.prems(2) by simp
      have "(if length acls = ceil then
               (if \<not> fst (alloc_next as1) then Some (ACL_OK, acls)
                else read_all jl parse n (snd (alloc_next as1)) buf (offset + d) (2 * ceil) (acls @ [a]) ACL_OK)
             else read_all jl parse n as1 buf (offset + d) ceil (acls @ [a]) ACL_OK) = Some (res', acls')"
        using Suc.prems(1) False r p by (subst (asm) read_all.simps) simp
      then show ?thesis using Suc.IH [OF _ wf] Suc.prems(2) by (auto split: if_splits)
    qed
  qed
qed

section \<open>What freeing gives back\<close>

definition scope_blocks :: "Scope \<Rightarrow> nat" where
  "scope_blocks sc = 1 + (if cs_value sc = None then 0 else 1) + (if cs_array sc then 1 else 0)"

definition scope_blocks_kept :: "Scope \<Rightarrow> nat" where
  "scope_blocks_kept sc = (if cs_array sc \<and> cs_permission sc = [] then 1 else 0)"

text \<open>The blocks of a loaded group, and those that \<^verbatim>\<open>KineticACL_Free\<close> forgets.\<close>

definition acl_sum :: "(Scope \<Rightarrow> nat) \<Rightarrow> ACL \<Rightarrow> nat" where
  "acl_sum f a = sum_list (map (\<lambda>sc. case sc of None \<Rightarrow> 0 | Some s \<Rightarrow> f s) (ac_scope a))"

definition blocks :: "ACL list \<Rightarrow> nat" where
  "blocks acls = 2 + sum_list (map (\<lambda>a. 2 + (if ac_key a = None then 0 else 1) + acl_sum scope_blocks a) acls)"

definition blocks_kept :: "ACL list \<Rightarrow> nat" where
  "blocks_kept acls = sum_list (map (acl_sum scope_blocks_kept) acls)"

lemma free_scopes_sum:
  assumes "\<forall>sc. Some sc \<in> set scs \<longrightarrow> scope_ok sc"
  shows "(free_scopes scs = None \<longleftrightarrow> None \<in> set scs) \<and>
    (\<forall>n. free_scopes scs = Some n \<longrightarrow> n + sum_list (map (\<lambda>sc. case sc of None \<Rightarrow> 0 | Some s \<Rightarrow> scope_blocks_kept s) scs) =
       sum_list (map (\<lambda>sc. case sc of None \<Rightarrow> 0 | Some s \<Rightarrow> scope_blocks s) scs))"
  using assms
proof (induction scs rule: free_scopes.induct)
  case (3 sc scs)
  have "scope_ok sc" using 3(2) by simp
  then have "free_scope sc + scope_blocks_kept sc = scope_blocks sc"
    by (cases "cs_permission sc = []"; cases "cs_array sc") (simp_all add: free_scope_def scope_blocks_kept_def scope_blocks_def scope_ok_def)
  moreover have "\<forall>sc. Some sc \<in> set scs \<longrightarrow> scope_ok sc" using 3(2) by simp
  note IH = 3(1) [OF this]
  ultimately show ?case
  proof (cases "free_scopes scs")
    case None
    with IH show ?thesis by simp
  next
    case (Some n)
    with IH have "None \<notin> set scs" "n + sum_list (map (\<lambda>sc. case sc of None \<Rightarrow> 0 | Some s \<Rightarrow> scope_blocks_kept s) scs) =
       sum_list (map (\<lambda>sc. case sc of None \<Rightarrow> 0 | Some s \<Rightarrow> scope_blocks s) scs)" by auto
    with Some \<open>free_scope sc + scope_blocks_kept sc = scope_blocks sc\<close> show ?thesis by simp
  qed
qed simp_all

lemma free_acls_sum:
  assumes "\<forall>a \<in> set acls. acl_wf a"
  shows "(free_acls acls = None \<longleftrightarrow> (\<exists>a \<in> set acls. None \<in> set (ac_scope a))) \<and>
    (\<forall>n. free_acls acls = Some n \<longrightarrow> n + blocks_kept acls + 2 = blocks acls)"
  using assms
proof (induction acls)
  case (Cons a acls)
  have s: "\<forall>sc. Some sc \<in> set (ac_scope a) \<longrightarrow> scope_ok sc" using Cons.prems by (simp add: acl_wf_def)
  show ?case
  proof (cases "free_scopes (ac_scope a)")
    case None
    then show ?thesis using free_scopes_sum [OF s] by simp
  next
    case (Some n)
    then show ?thesis using free_scopes_sum [OF s] Cons
      by (cases "free_acls acls") (auto simp: blocks_def blocks_kept_def acl_sum_def)
  qed
qed (simp add: blocks_def blocks_kept_def)


text \<open>A JSON library over a small type of values, and a list with two scopes, the second without permissions.\<close>

datatype ex_json = ExString string | ExArray "ex_json option list" | ExObject "(string \<times> ex_json option) list"

definition ex_lib :: "ex_json json_lib" where
  "ex_lib = \<lparr>jl_get_ex = (\<lambda>j k. case j of Some (ExObject ms) \<Rightarrow> map_of ms k | _ \<Rightarrow> None),
     jl_type = (\<lambda>j. case j of None \<Rightarrow> json_type_null | Some (ExString s) \<Rightarrow> json_type_string | Some (ExArray js) \<Rightarrow> json_type_array | _ \<Rightarrow> json_type_other),
     jl_string = (\<lambda>j. case j of Some (ExString s) \<Rightarrow> Some s | _ \<Rightarrow> None), jl_int64 = (\<lambda>_. 0), jl_boolean = (\<lambda>_. True),
     jl_array = (\<lambda>j. case j of Some (ExArray js) \<Rightarrow> js | _ \<Rightarrow> [])\<rparr>"

definition ex_doc :: ex_json where
  "ex_doc = ExObject [(''key'', Some (ExString ''asdf'')), (''scope'', Some (ExArray
     [Some (ExObject [(''permission'', Some (ExArray [Some (ExString ''READ''), Some (ExString ''WRITE'')]))]),
      Some (ExObject [(''permission'', Some (ExArray []))])]))]"

definition ex_acls :: "ACL list" where
  "ex_acls = [\<lparr>ac_identity = None, ac_key = Some ''asdf'', ac_hmacalgorithm = True, ac_scope =
     [Some \<lparr>cs_offset = None, cs_value = None, cs_array = True, cs_permission = [PERM_READ, PERM_WRITE], cs_tlsrequired = None\<rparr>,
      Some \<lparr>cs_offset = None, cs_value = None, cs_array = True, cs_permission = [], cs_tlsrequired = None\<rparr>]\<rparr>]"

lemma ex_load:
  "KineticACL_LoadFromFile ex_lib (\<lambda>s. Parsed ex_doc (length s)) True True True [] [] [] ''{}'' = Some (ACL_OK, ex_acls)"
proof -
  have "read_file (length ''{}'' + 2) [] [] BUF_START_SIZE [] ''{}'' = Some (Inr ''{}'')"
    using read_file_total [of "''{}''" "length ''{}'' + 2" "[]" BUF_START_SIZE "[]" "[]"] by (simp add: BUF_START_SIZE_def)
  moreover have "acl_of_string ex_lib (\<lambda>s. Parsed ex_doc (length s)) (length ''{}'') [] ''{}'' = Some (ACL_OK, ex_acls)"
    by code_simp
  ultimately show ?thesis by (simp add: KineticACL_LoadFromFile_def del: read_file.simps)
qed


end
