(* ===== verification/Memory_Blocks.thy ===== *)
theory Memory_Blocks
  imports Prelude "HOL-Library.Multiset"
begin

text \<open>
  A ledger of heap blocks for the code whose correctness is a matter of ownership: \<^verbatim>\<open>calloc\<close> may
  fail at any call, \<^verbatim>\<open>free\<close> of a block that is not live is undefined behaviour (\<open>None\<close>). A block is named by
  the number of the call that made it, so that no block is made twice. A pointer that owns a block carries
  the contents with it. \<open>grown m m' B\<close> says that between two states exactly the blocks \<open>B\<close> came into being and are
  still live. Functions that fill a structure field by field and leave it half filled on failure are
  lists of steps; a locale gives the contract of one owned field once for every structure.
\<close>

section \<open>The allocator\<close>

record mem =
  mem_next :: nat
  mem_live :: "nat set"

type_synonym 'a cell = "(nat \<times> 'a) option"

definition mem_ok :: "mem \<Rightarrow> bool" where
  "mem_ok m \<longleftrightarrow> (\<forall>b \<in> mem_live m. b < mem_next m)"

definition c_calloc :: "(nat \<Rightarrow> bool) \<Rightarrow> mem \<Rightarrow> nat option \<times> mem" where
  "c_calloc ok m =
     (if ok (mem_next m)
      then (Some (mem_next m), \<lparr>mem_next = Suc (mem_next m), mem_live = insert (mem_next m) (mem_live m)\<rparr>)
      else (None, m\<lparr>mem_next := Suc (mem_next m)\<rparr>))"

definition c_free :: "nat option \<Rightarrow> mem \<Rightarrow> mem option" where
  "c_free p m =
     (case p of None \<Rightarrow> Some m
      | Some b \<Rightarrow> if b \<in> mem_live m then Some (m\<lparr>mem_live := mem_live m - {b}\<rparr>) else None)"

primrec free_all :: "nat option list \<Rightarrow> mem \<Rightarrow> mem option" where
  "free_all [] m = Some m"
| "free_all (p # ps) m = do { m' \<leftarrow> c_free p m; free_all ps m' }"

definition blk :: "'a cell \<Rightarrow> nat option" where
  "blk = map_option fst"

text \<open>The contents of a cell, with the block's name forgotten.\<close>

definition cell0 :: "'a option \<Rightarrow> 'a cell" where
  "cell0 = map_option (Pair 0)"

definition strip_cell :: "'a cell \<Rightarrow> 'a cell" where
  "strip_cell c = cell0 (map_option snd c)"

definition opt_block :: "nat option \<Rightarrow> nat multiset" where
  "opt_block p = (case p of None \<Rightarrow> {#} | Some b \<Rightarrow> {#b#})"

definition opt_blocks :: "nat option list \<Rightarrow> nat multiset" where
  "opt_blocks ps = sum_list (map opt_block ps)"

abbreviation cell_blocks :: "'a cell \<Rightarrow> nat multiset" where
  "cell_blocks c \<equiv> opt_block (blk c)"

lemma cell_simps [simp]:
  "blk None = None" "blk (Some (b, x)) = Some b" "strip_cell None = None" "strip_cell (Some (b, x)) = Some (0, x)"
  "cell0 None = None" "cell0 (Some x) = Some (0, x)"
  "opt_block None = {#}" "opt_block (Some b) = {#b#}" "opt_blocks [] = {#}" "opt_blocks (p # ps) = opt_block p + opt_blocks ps"
  by (simp_all add: blk_def strip_cell_def cell0_def opt_block_def opt_blocks_def)

lemma strip_cell_None [simp]: "strip_cell c = None \<longleftrightarrow> c = None" "cell0 x = None \<longleftrightarrow> x = None" "blk c = None \<longleftrightarrow> c = None"
  by (auto simp: strip_cell_def cell0_def blk_def)

lemma opt_blocks_append [simp]: "opt_blocks (ps @ qs) = opt_blocks ps + opt_blocks qs"
  by (simp add: opt_blocks_def)

section \<open>What a function leaves on the heap\<close>

definition grown :: "mem \<Rightarrow> mem \<Rightarrow> nat multiset \<Rightarrow> bool" where
  "grown m m' B \<longleftrightarrow> mem_ok m \<and> mem_next m \<le> mem_next m' \<and>
     (\<forall>b \<in># B. mem_next m \<le> b \<and> b < mem_next m' \<and> count B b = 1) \<and> mem_live m' = mem_live m \<union> set_mset B"

lemma grown_refl [intro]: "mem_ok m \<Longrightarrow> grown m m {#}"
  by (simp add: grown_def)

lemma grown_mem_ok: "grown m m' B \<Longrightarrow> mem_ok m'"
  by (auto simp: grown_def mem_ok_def intro: less_le_trans)

lemma grown_trans:
  assumes "grown m m1 A" "grown m1 m2 B"
  shows "grown m m2 (A + B)"
proof -
  have "count B b = 0" if "b \<in># A" for b
    using assms that by (auto simp: grown_def not_in_iff [symmetric] dest!: bspec)
  moreover have "count A b = 0" if "b \<in># B" for b
    using assms that by (auto simp: grown_def not_in_iff [symmetric] dest!: bspec)
  ultimately show ?thesis using assms by (auto simp: grown_def intro: less_le_trans order_trans)
qed

lemma calloc_grown: "mem_ok m \<Longrightarrow> c_calloc ok m = (p, m') \<Longrightarrow> grown m m' (opt_block p)"
  by (auto simp: c_calloc_def grown_def split: if_splits)

lemma calloc_all_ok: "\<forall>n. ok n \<Longrightarrow> c_calloc ok m = (p, m') \<Longrightarrow> p \<noteq> None"
  by (auto simp: c_calloc_def split: if_splits)

lemma free_grown:
  assumes "grown m m' (add_mset b B)"
  shows "\<exists>m''. c_free (Some b) m' = Some m'' \<and> grown m m'' B"
proof -
  have c: "count (add_mset b B) b = 1" using assms by (simp add: grown_def)
  then have nb: "b \<notin># B" by (simp add: not_in_iff)
  from assms have ge: "mem_next m \<le> b" and ok: "mem_ok m" by (auto simp: grown_def)
  then have "b \<notin> mem_live m" by (auto simp: mem_ok_def)
  moreover have "count B x = 1" if "x \<in># B" for x
    using assms that nb by (auto simp: grown_def dest!: bspec [of _ _ x] split: if_splits)
  ultimately show ?thesis using assms nb by (auto simp: grown_def c_free_def)
qed

lemma free_opt_grown: "grown m m' (opt_block p + B) \<Longrightarrow> \<exists>m''. c_free p m' = Some m'' \<and> grown m m'' B"
  using free_grown by (cases p) (auto simp: c_free_def)

lemma free_all_grown: "grown m m' (opt_blocks ps + B) \<Longrightarrow> \<exists>m''. free_all ps m' = Some m'' \<and> grown m m'' B"
proof (induction ps arbitrary: m')
  case (Cons p ps)
  then have "grown m m' (opt_block p + (opt_blocks ps + B))" by (simp add: ac_simps)
  from free_opt_grown [OF this] Cons.IH show ?case by auto
qed simp

lemma grown_empty: "grown m m' {#} \<Longrightarrow> mem_live m' = mem_live m"
  by (simp add: grown_def)

lemma grown_card:
  assumes "grown m m' B"
  shows "card (mem_live m' - mem_live m) = size B"
proof -
  have "mem_live m' - mem_live m = set_mset B" using assms by (fastforce simp: grown_def mem_ok_def)
  moreover have "size B = (\<Sum>b \<in> set_mset B. 1)" unfolding size_multiset_overloaded_eq using assms by (intro sum.cong) (auto simp: grown_def)
  ultimately show ?thesis by simp
qed

lemma free_all_append: "free_all (ps @ qs) m = Option.bind (free_all ps m) (free_all qs)"
  by (induction ps arbitrary: m) (auto simp: Option.bind_assoc)

section \<open>Filling a structure\<close>

type_synonym 'c step = "'c \<Rightarrow> mem \<Rightarrow> (bool \<times> 'c \<times> mem) option"

primrec run_steps :: "'c step list \<Rightarrow> 'c step" where
  "run_steps [] c m = Some (True, c, m)"
| "run_steps (s # ss) c m =
     do { (ok, c', m') \<leftarrow> s c m;
          if ok then run_steps ss c' m' else Some (False, c', m') }"

lemma run_steps_append:
  "run_steps (xs @ ys) c m =
     do { (ok, c', m') \<leftarrow> run_steps xs c m; if ok then run_steps ys c' m' else Some (False, c', m') }"
proof (induction xs arbitrary: c m)
  case (Cons x xs)
  then show ?case by (cases "x c m") (auto split: prod.splits)
qed simp

text \<open>A step, started on a structure with contents \<open>v\<close> that owns what the heap has grown by, ends in such a
  state. It succeeds only if \<open>need\<close> holds, and then the contents are \<open>w\<close>; if no allocation fails it succeeds exactly
  when \<open>need\<close> holds.\<close>

definition outcome :: "(nat \<Rightarrow> bool) \<Rightarrow> bool \<Rightarrow> bool \<Rightarrow> bool" where
  "outcome ok r need \<longleftrightarrow> (r \<longrightarrow> need) \<and> ((\<forall>n. ok n) \<longrightarrow> r = need)"

definition fills ::
  "('c \<Rightarrow> nat multiset) \<Rightarrow> ('c \<Rightarrow> 'v) \<Rightarrow> (nat \<Rightarrow> bool) \<Rightarrow> mem \<Rightarrow> bool \<Rightarrow> 'v \<Rightarrow> 'c step \<Rightarrow> 'v \<Rightarrow> bool" where
  "fills own view ok m0 need v s w \<longleftrightarrow>
     (\<forall>c m. grown m0 m (own c) \<and> view c = v \<longrightarrow>
        (\<exists>r c' m'. s c m = Some (r, c', m') \<and> grown m0 m' (own c') \<and> (r \<longrightarrow> view c' = w) \<and>
           outcome ok r need))"

lemma fills_Nil: "fills own view ok m0 True v (run_steps []) v"
  unfolding fills_def outcome_def by simp blast

lemma fills_Cons:
  assumes "fills own view ok m0 need v s w" "fills own view ok m0 needs w (run_steps ss) x"
  shows "fills own view ok m0 (need \<and> needs) v (run_steps (s # ss)) x"
  unfolding fills_def
proof (intro allI impI)
  fix c m
  assume c: "grown m0 m (own c) \<and> view c = v"
  with assms(1) obtain r c' m' where s: "s c m = Some (r, c', m')" "grown m0 m' (own c')" "r \<longrightarrow> view c' = w"
    and n: "outcome ok r need"
    unfolding fills_def by blast
  show "\<exists>r c' m'. run_steps (s # ss) c m = Some (r, c', m') \<and> grown m0 m' (own c') \<and> (r \<longrightarrow> view c' = x) \<and>
      outcome ok r (need \<and> needs)"
  proof (cases r)
    case True
    with s assms(2) have "\<exists>r d m''. run_steps ss c' m' = Some (r, d, m'') \<and> grown m0 m'' (own d) \<and> (r \<longrightarrow> view d = x) \<and>
      outcome ok r needs"
      unfolding fills_def by blast
    with s n True show ?thesis by (auto simp: outcome_def)
  qed (use s n in \<open>auto simp: outcome_def\<close>)
qed

lemma fillsD:
  assumes "fills own view ok m0 need v s w" "grown m0 m (own c)" "view c = v"
  obtains r c' m' where "s c m = Some (r, c', m')" "grown m0 m' (own c')" "r \<Longrightarrow> view c' = w" "outcome ok r need"
  using assms unfolding fills_def by blast

lemma fills_conv: "fills own view ok m0 need v s w \<Longrightarrow> need = need' \<Longrightarrow> w = w' \<Longrightarrow> fills own view ok m0 need' v s w'"
  by simp

text \<open>An invariant of the structure that every step keeps, whether or not it succeeds.\<close>

definition step_keeps :: "('c \<Rightarrow> bool) \<Rightarrow> 'c step \<Rightarrow> bool" where
  "step_keeps J s \<longleftrightarrow> (\<forall>c m r c' m'. J c \<longrightarrow> s c m = Some (r, c', m') \<longrightarrow> J c')"

lemma run_steps_keep: "\<forall>s \<in> set ss. step_keeps J s \<Longrightarrow> step_keeps J (run_steps ss)"
proof (induction ss)
  case (Cons s ss)
  then have s: "step_keeps J s" and ss: "step_keeps J (run_steps ss)" by auto
  show ?case unfolding step_keeps_def
  proof (intro allI impI)
    fix c m r c' m'
    assume c: "J c" and run: "run_steps (s # ss) c m = Some (r, c', m')"
    from run obtain q d n where d: "s c m = Some (q, d, n)" by (auto simp: bind_Some_iff)
    with s c have "J d" unfolding step_keeps_def by blast
    with run d ss show "J c'" unfolding step_keeps_def by (cases q) (simp_all, blast)
  qed
qed (simp add: step_keeps_def)

text \<open>The contract of a field: what the structure owns is what its fields own, and forgetting names commutes
  with writing it. The field may be written only while it is empty.\<close>

locale owned_field =
  fixes own :: "'c \<Rightarrow> nat multiset" and view :: "'c \<Rightarrow> 'c"
    and get :: "'c \<Rightarrow> 'a" and put :: "'a \<Rightarrow> 'c \<Rightarrow> 'c"
    and fown :: "'a \<Rightarrow> nat multiset" and fview :: "'a \<Rightarrow> 'a" and null :: 'a
  assumes own_put: "get c = null \<Longrightarrow> own (put x c) = own c + fown x"
    and view_put: "view (put x c) = put (fview x) (view c)"
    and get_view: "get (view c) = fview (get c)"
    and view_null: "fview x = null \<Longrightarrow> x = null"
begin

lemma field_fills:
  assumes step: "\<And>c m. mem_ok m \<Longrightarrow> \<exists>r x m'. s c m = Some (r, put x c, m') \<and> grown m m' (fown x) \<and> (r \<longrightarrow> fview x = y) \<and>
      outcome ok r need"
    and null: "get v = null"
  shows "fills own view ok m0 need v s (put y v)"
  unfolding fills_def
proof (intro allI impI)
  fix c m
  assume c: "grown m0 m (own c) \<and> view c = v"
  then have g: "get c = null" using null view_null get_view by metis
  from step [OF grown_mem_ok, of m0 m "own c" c] c obtain r x m' where
    s: "s c m = Some (r, put x c, m')" "grown m m' (fown x)" "r \<longrightarrow> fview x = y" "outcome ok r need" by blast
  moreover from c s(2) have "grown m0 m' (own (put x c))" unfolding own_put [OF g] by (blast intro: grown_trans)
  ultimately show "\<exists>r c' m'. s c m = Some (r, c', m') \<and> grown m0 m' (own c') \<and> (r \<longrightarrow> view c' = put y v) \<and>
      outcome ok r need"
    using c view_put by metis
qed

end

end
