(* ===== verification/Kinetic_Device_Info.thy ===== *)
theory Kinetic_Device_Info
  imports Memory_Blocks Kinetic_Types
begin

text \<open>
  Device logs (\<^verbatim>\<open>kinetic_device_info.c\<close>): \<^verbatim>\<open>KineticLogInfo_Create\<close> copies the log of a response into a tree of
  blocks for the client, \<^verbatim>\<open>KineticLogInfo_Free\<close> gives the tree back. Every allocation may fail (\<open>ok\<close> says which call
  succeeds), and a pointer names its block. A \<^verbatim>\<open>float\<close> is copied, never computed with: it is its 32 bits.
\<close>

section \<open>The log of a response\<close>

record Proto_Utilization =
  gu_name :: "string option"
  gu_value :: u32

record Proto_Temperature =
  gt_name :: "string option"
  gt_current :: u32
  gt_minimum :: u32
  gt_maximum :: u32
  gt_target :: u32

record Proto_Capacity =
  gc_nominalcapacityinbytes :: u64
  gc_portionfull :: u32

record Proto_Interface =
  gi_name :: "string option"
  gi_mac :: "u8 list option"
  gi_ipv4address :: "u8 list option"
  gi_ipv6address :: "u8 list option"

record Proto_Configuration =
  gf_vendor :: "string option"
  gf_model :: "string option"
  gf_serialnumber :: "u8 list option"
  gf_worldwidename :: "u8 list option"
  gf_version :: "string option"
  gf_compilationdate :: "string option"
  gf_sourcehash :: "string option"
  gf_protocolversion :: "string option"
  gf_protocolcompilationdate :: "string option"
  gf_protocolsourcehash :: "string option"
  gf_interface :: "Proto_Interface list"
  gf_port :: "int option"
  gf_tlsport :: "int option"

record Proto_Statistics =
  gs_messagetype :: KineticMessageType
  gs_count :: "u64 option"
  gs_bytes :: "u64 option"

record Proto_Limits =
  gl_maxkeysize :: u32
  gl_maxvaluesize :: u32
  gl_maxversionsize :: u32
  gl_maxtagsize :: u32
  gl_maxconnections :: u32
  gl_maxoutstandingreadrequests :: u32
  gl_maxoutstandingwriterequests :: u32
  gl_maxmessagesize :: u32
  gl_maxkeyrangecount :: u32
  gl_maxidentitycount :: u32
  gl_maxpinsize :: u32

text \<open>\<open>gl_device\<close> is the device message with its optional name. The bytes of \<open>gl_messages\<close> are empty when the field is absent.\<close>

record Proto_GetLog =
  gl_utilizations :: "Proto_Utilization list"
  gl_temperatures :: "Proto_Temperature list"
  gl_capacity :: "Proto_Capacity option"
  gl_configuration :: "Proto_Configuration option"
  gl_statistics :: "Proto_Statistics list"
  gl_messages :: "u8 list"
  gl_limits :: "Proto_Limits option"
  gl_device :: "u8 list option option"

section \<open>The structure for the client\<close>

record log_bytes =
  lb_data :: "u8 list cell"
  lb_len :: nat

record KineticLogInfo_Utilization =
  lu_name :: "string cell"
  lu_value :: u32

record KineticLogInfo_Temperature =
  lt_name :: "string cell"
  lt_current :: u32
  lt_minimum :: u32
  lt_maximum :: u32
  lt_target :: u32

record KineticLogInfo_Capacity =
  nominalCapacityInBytes :: u64
  portionFull :: u32

record KineticLogInfo_Interface =
  inf_name :: "string cell"
  inf_MAC :: log_bytes
  inf_ipv4Address :: log_bytes
  inf_ipv6Address :: log_bytes

record KineticLogInfo_Configuration =
  cfg_vendor :: "string cell"
  cfg_model :: "string cell"
  cfg_serialNumber :: log_bytes
  cfg_worldWideName :: log_bytes
  cfg_version :: "string cell"
  cfg_compilationDate :: "string cell"
  cfg_sourceHash :: "string cell"
  cfg_protocolVersion :: "string cell"
  cfg_protocolCompilationDate :: "string cell"
  cfg_protocolSourceHash :: "string cell"
  cfg_interfaces :: "KineticLogInfo_Interface list cell"
  cfg_numInterfaces :: nat
  cfg_port :: int
  cfg_tlsPort :: int

record KineticLogInfo_Statistics =
  ls_messageType :: KineticMessageType
  ls_count :: u64
  ls_bytes :: u64

record KineticLogInfo_Limits =
  maxKeySize :: u32
  maxValueSize :: u32
  maxVersionSize :: u32
  maxTagSize :: u32
  maxConnections :: u32
  maxOutstandingReadRequests :: u32
  maxOutstandingWriteRequests :: u32
  maxMessageSize :: u32
  maxKeyRangeCount :: u32
  maxIdentityCount :: u32
  maxPinSize :: u32

record KineticLogInfo_Device =
  ld_name :: log_bytes

record KineticLogInfo =
  li_utilizations :: "KineticLogInfo_Utilization list cell"
  li_numUtilizations :: nat
  li_temperatures :: "KineticLogInfo_Temperature list cell"
  li_numTemperatures :: nat
  li_capacity :: "KineticLogInfo_Capacity cell"
  li_configuration :: "KineticLogInfo_Configuration cell"
  li_statistics :: "KineticLogInfo_Statistics list cell"
  li_numStatistics :: nat
  li_messages :: log_bytes
  li_limits :: "KineticLogInfo_Limits cell"
  li_device :: "KineticLogInfo_Device cell"

section \<open>Copying\<close>

definition copy_str :: "(nat \<Rightarrow> bool) \<Rightarrow> string option \<Rightarrow> mem \<Rightarrow> string cell \<times> mem" where
  "copy_str ok s m =
     (case s of None \<Rightarrow> (None, m)
      | Some cs \<Rightarrow> (case c_calloc ok m of (p, m') \<Rightarrow> (map_option (\<lambda>b. (b, cs)) p, m')))"

definition copy_to_byte_array :: "(nat \<Rightarrow> bool) \<Rightarrow> u8 list \<Rightarrow> mem \<Rightarrow> log_bytes \<times> mem" where
  "copy_to_byte_array ok bs m =
     (case c_calloc ok m of (p, m') \<Rightarrow> (\<lparr>lb_data = map_option (\<lambda>b. (b, bs)) p, lb_len = length bs\<rparr>, m'))"

definition no_bytes :: log_bytes where "no_bytes = \<lparr>lb_data = None, lb_len = 0\<rparr>"

abbreviation bytes_blk :: "log_bytes \<Rightarrow> nat option" where "bytes_blk ba \<equiv> blk (lb_data ba)"

definition free_byte_array :: "log_bytes \<Rightarrow> mem \<Rightarrow> mem option" where
  "free_byte_array ba = c_free (bytes_blk ba)"

text \<open>The loop over the utilizations stops at the first name that is not copied.\<close>

primrec copy_utilizations ::
  "(nat \<Rightarrow> bool) \<Rightarrow> Proto_Utilization list \<Rightarrow> mem \<Rightarrow> bool \<times> KineticLogInfo_Utilization list \<times> mem" where
  "copy_utilizations ok [] m = (True, [], m)"
| "copy_utilizations ok (u # us) m =
     (case copy_str ok (gu_name u) m of (p, m1) \<Rightarrow>
        if p = None then (False, [], m1)
        else case copy_utilizations ok us m1 of (r, xs, m2) \<Rightarrow> (r, \<lparr>lu_name = p, lu_value = gu_value u\<rparr> # xs, m2))"

definition KineticLogInfo_GetUtilizations ::
  "(nat \<Rightarrow> bool) \<Rightarrow> Proto_GetLog \<Rightarrow> mem \<Rightarrow> (KineticLogInfo_Utilization list cell \<times> nat \<times> mem) option" where
  "KineticLogInfo_GetUtilizations ok g m =
     (case c_calloc ok m of
        (None, m1) \<Rightarrow> Some (None, 0, m1)
      | (Some b, m1) \<Rightarrow>
          (case copy_utilizations ok (gl_utilizations g) m1 of
             (True, xs, m2) \<Rightarrow> Some (Some (b, xs), length (gl_utilizations g), m2)
           | (False, xs, m2) \<Rightarrow>
               do { m3 \<leftarrow> free_all (map (\<lambda>x. blk (lu_name x)) xs) m2;
                    m4 \<leftarrow> c_free (Some b) m3;
                    Some (None, length (gl_utilizations g), m4) }))"

primrec copy_temperatures ::
  "(nat \<Rightarrow> bool) \<Rightarrow> Proto_Temperature list \<Rightarrow> mem \<Rightarrow> KineticLogInfo_Temperature list \<times> mem" where
  "copy_temperatures ok [] m = ([], m)"
| "copy_temperatures ok (t # ts) m =
     (case copy_str ok (gt_name t) m of (p, m1) \<Rightarrow>
      case copy_temperatures ok ts m1 of (xs, m2) \<Rightarrow>
        (\<lparr>lt_name = p, lt_current = gt_current t, lt_minimum = gt_minimum t, lt_maximum = gt_maximum t,
          lt_target = gt_target t\<rparr> # xs, m2))"

definition KineticLogInfo_GetTemperatures ::
  "(nat \<Rightarrow> bool) \<Rightarrow> Proto_GetLog \<Rightarrow> mem \<Rightarrow> KineticLogInfo_Temperature list cell \<times> nat \<times> mem" where
  "KineticLogInfo_GetTemperatures ok g m =
     (case c_calloc ok m of
        (None, m1) \<Rightarrow> (None, 0, m1)
      | (Some b, m1) \<Rightarrow>
          (case copy_temperatures ok (gl_temperatures g) m1 of (xs, m2) \<Rightarrow> (Some (b, xs), length (gl_temperatures g), m2)))"

definition capacity_of :: "Proto_GetLog \<Rightarrow> KineticLogInfo_Capacity" where
  "capacity_of g =
     (case gl_capacity g of
        None \<Rightarrow> \<lparr>nominalCapacityInBytes = 0, portionFull = 0\<rparr>
      | Some c \<Rightarrow> \<lparr>nominalCapacityInBytes = gc_nominalcapacityinbytes c, portionFull = gc_portionfull c\<rparr>)"

definition KineticLogInfo_GetCapacity ::
  "(nat \<Rightarrow> bool) \<Rightarrow> Proto_GetLog \<Rightarrow> mem \<Rightarrow> KineticLogInfo_Capacity cell \<times> mem" where
  "KineticLogInfo_GetCapacity ok g m =
     (case c_calloc ok m of (p, m1) \<Rightarrow> (map_option (\<lambda>b. (b, capacity_of g)) p, m1))"

text \<open>Steps that fill a field with a copied string, or with bytes when the message has them. Where the source has no
  \<^verbatim>\<open>else\<close> for absent bytes the field is zero already.\<close>

definition str_step :: "(nat \<Rightarrow> bool) \<Rightarrow> (string cell \<Rightarrow> 'c \<Rightarrow> 'c) \<Rightarrow> string option \<Rightarrow> 'c step" where
  "str_step ok put s c m = (case copy_str ok s m of (p, m') \<Rightarrow> Some (p \<noteq> None, put p c, m'))"

definition bytes_step :: "(nat \<Rightarrow> bool) \<Rightarrow> (log_bytes \<Rightarrow> 'c \<Rightarrow> 'c) \<Rightarrow> u8 list option \<Rightarrow> 'c step" where
  "bytes_step ok put s c m =
     (case s of None \<Rightarrow> Some (True, put no_bytes c, m)
      | Some bs \<Rightarrow> (case copy_to_byte_array ok bs m of (ba, m') \<Rightarrow> Some (lb_data ba \<noteq> None, put ba c, m')))"

definition no_interface :: KineticLogInfo_Interface where
  "no_interface = \<lparr>inf_name = None, inf_MAC = no_bytes, inf_ipv4Address = no_bytes, inf_ipv6Address = no_bytes\<rparr>"

definition fill_interface :: "(nat \<Rightarrow> bool) \<Rightarrow> Proto_Interface \<Rightarrow> KineticLogInfo_Interface step" where
  "fill_interface ok g = run_steps
     [str_step ok (\<lambda>x. inf_name_update (\<lambda>_. x)) (gi_name g),
      bytes_step ok (\<lambda>x. inf_MAC_update (\<lambda>_. x)) (gi_mac g),
      bytes_step ok (\<lambda>x. inf_ipv4Address_update (\<lambda>_. x)) (gi_ipv4address g),
      bytes_step ok (\<lambda>x. inf_ipv6Address_update (\<lambda>_. x)) (gi_ipv6address g)]"

text \<open>The loop fills the zeroed array in place; behind a failure the rest of it stays zero.\<close>

fun fill_interfaces :: "(nat \<Rightarrow> bool) \<Rightarrow> Proto_Interface list \<Rightarrow> KineticLogInfo_Interface list \<Rightarrow> mem \<Rightarrow>
    (bool \<times> KineticLogInfo_Interface list \<times> mem) option" where
  "fill_interfaces ok (g # gs) (i # infs) m =
     do { (r, i', m1) \<leftarrow> fill_interface ok g i m;
          if r then do { (r', infs', m2) \<leftarrow> fill_interfaces ok gs infs m1; Some (r', i' # infs', m2) }
          else Some (False, i' # infs, m1) }"
| "fill_interfaces ok gs infs m = Some (True, infs, m)"

definition interfaces_step :: "(nat \<Rightarrow> bool) \<Rightarrow> Proto_Interface list \<Rightarrow> KineticLogInfo_Configuration step" where
  "interfaces_step ok gs c m =
     (let c1 = c\<lparr>cfg_numInterfaces := length gs\<rparr> in
      case c_calloc ok m of
        (None, m1) \<Rightarrow> Some (False, c1\<lparr>cfg_interfaces := None\<rparr>, m1)
      | (Some b, m1) \<Rightarrow>
          do { (r, infs, m2) \<leftarrow> fill_interfaces ok gs (replicate (length gs) no_interface) m1;
               Some (r, c1\<lparr>cfg_interfaces := Some (b, infs)\<rparr>, m2) })"

definition no_configuration :: KineticLogInfo_Configuration where
  "no_configuration = \<lparr>cfg_vendor = None, cfg_model = None, cfg_serialNumber = no_bytes, cfg_worldWideName = no_bytes,
     cfg_version = None, cfg_compilationDate = None, cfg_sourceHash = None, cfg_protocolVersion = None,
     cfg_protocolCompilationDate = None, cfg_protocolSourceHash = None, cfg_interfaces = None, cfg_numInterfaces = 0,
     cfg_port = 0, cfg_tlsPort = 0\<rparr>"

definition ports_step :: "Proto_Configuration \<Rightarrow> KineticLogInfo_Configuration step" where
  "ports_step g c m =
     (let c1 = (case gf_port g of None \<Rightarrow> c | Some p \<Rightarrow> c\<lparr>cfg_port := p\<rparr>);
          c2 = (case gf_tlsport g of None \<Rightarrow> c1 | Some p \<Rightarrow> c1\<lparr>cfg_tlsPort := p\<rparr>)
      in Some (True, c2, m))"

definition fill_configuration :: "(nat \<Rightarrow> bool) \<Rightarrow> Proto_Configuration \<Rightarrow> KineticLogInfo_Configuration step" where
  "fill_configuration ok g = run_steps
     [bytes_step ok (\<lambda>x. cfg_serialNumber_update (\<lambda>_. x)) (gf_serialnumber g),
      bytes_step ok (\<lambda>x. cfg_worldWideName_update (\<lambda>_. x)) (gf_worldwidename g),
      str_step ok (\<lambda>x. cfg_vendor_update (\<lambda>_. x)) (gf_vendor g),
      str_step ok (\<lambda>x. cfg_model_update (\<lambda>_. x)) (gf_model g),
      str_step ok (\<lambda>x. cfg_version_update (\<lambda>_. x)) (gf_version g),
      str_step ok (\<lambda>x. cfg_compilationDate_update (\<lambda>_. x)) (gf_compilationdate g),
      str_step ok (\<lambda>x. cfg_sourceHash_update (\<lambda>_. x)) (gf_sourcehash g),
      str_step ok (\<lambda>x. cfg_protocolVersion_update (\<lambda>_. x)) (gf_protocolversion g),
      str_step ok (\<lambda>x. cfg_protocolCompilationDate_update (\<lambda>_. x)) (gf_protocolcompilationdate g),
      str_step ok (\<lambda>x. cfg_protocolSourceHash_update (\<lambda>_. x)) (gf_protocolsourcehash g),
      ports_step g,
      interfaces_step ok (gf_interface g)]"

text \<open>The loops that free an array run to the count kept beside it; past the array they would be out of bounds.\<close>

definition interface_ptrs :: "KineticLogInfo_Interface \<Rightarrow> nat option list" where
  "interface_ptrs i = [blk (inf_name i), bytes_blk (inf_MAC i), bytes_blk (inf_ipv4Address i), bytes_blk (inf_ipv6Address i)]"

definition free_array :: "('a \<Rightarrow> nat option list) \<Rightarrow> 'a list cell \<Rightarrow> nat \<Rightarrow> mem \<Rightarrow> mem option" where
  "free_array ptrs arr n m =
     (case arr of None \<Rightarrow> Some m
      | Some (b, xs) \<Rightarrow>
          do { c_assert (n \<le> length xs);
               m1 \<leftarrow> free_all (concat (map ptrs (take n xs))) m;
               c_free (Some b) m1 })"

definition configuration_cleanup :: "nat \<Rightarrow> KineticLogInfo_Configuration \<Rightarrow> mem \<Rightarrow> mem option" where
  "configuration_cleanup b cfg m =
     do { m1 \<leftarrow> free_byte_array (cfg_serialNumber cfg) m;
          m2 \<leftarrow> free_byte_array (cfg_worldWideName cfg) m1;
          m3 \<leftarrow> free_all [blk (cfg_vendor cfg), blk (cfg_model cfg), blk (cfg_version cfg), blk (cfg_compilationDate cfg),
                  blk (cfg_sourceHash cfg), blk (cfg_protocolVersion cfg), blk (cfg_protocolCompilationDate cfg),
                  blk (cfg_protocolSourceHash cfg)] m2;
          m4 \<leftarrow> free_array interface_ptrs (cfg_interfaces cfg) (cfg_numInterfaces cfg) m3;
          c_free (Some b) m4 }"

definition KineticLogInfo_GetConfiguration ::
  "(nat \<Rightarrow> bool) \<Rightarrow> Proto_Configuration \<Rightarrow> mem \<Rightarrow> (KineticLogInfo_Configuration cell \<times> mem) option" where
  "KineticLogInfo_GetConfiguration ok g m =
     (case c_calloc ok m of
        (None, m1) \<Rightarrow> Some (None, m1)
      | (Some b, m1) \<Rightarrow>
          do { (r, cfg, m2) \<leftarrow> fill_configuration ok g no_configuration m1;
               if r then Some (Some (b, cfg), m2)
               else do { m3 \<leftarrow> configuration_cleanup b cfg m2; Some (None, m3) } })"

definition statistics_of :: "Proto_Statistics \<Rightarrow> KineticLogInfo_Statistics" where
  "statistics_of s = \<lparr>ls_messageType = gs_messagetype s, ls_count = (case gs_count s of None \<Rightarrow> 0 | Some n \<Rightarrow> n),
     ls_bytes = (case gs_bytes s of None \<Rightarrow> 0 | Some n \<Rightarrow> n)\<rparr>"

definition KineticLogInfo_GetStatistics ::
  "(nat \<Rightarrow> bool) \<Rightarrow> Proto_GetLog \<Rightarrow> mem \<Rightarrow> KineticLogInfo_Statistics list cell \<times> nat \<times> mem" where
  "KineticLogInfo_GetStatistics ok g m =
     (case c_calloc ok m of
        (None, m1) \<Rightarrow> (None, 0, m1)
      | (Some b, m1) \<Rightarrow> (Some (b, map statistics_of (gl_statistics g)), length (gl_statistics g), m1))"

definition KineticLogInfo_GetMessages :: "(nat \<Rightarrow> bool) \<Rightarrow> Proto_GetLog \<Rightarrow> mem \<Rightarrow> log_bytes \<times> mem" where
  "KineticLogInfo_GetMessages ok g = copy_to_byte_array ok (gl_messages g)"

definition limits_of :: "Proto_Limits \<Rightarrow> KineticLogInfo_Limits" where
  "limits_of l = \<lparr>maxKeySize = gl_maxkeysize l, maxValueSize = gl_maxvaluesize l, maxVersionSize = gl_maxversionsize l,
     maxTagSize = gl_maxtagsize l, maxConnections = gl_maxconnections l,
     maxOutstandingReadRequests = gl_maxoutstandingreadrequests l, maxOutstandingWriteRequests = gl_maxoutstandingwriterequests l,
     maxMessageSize = gl_maxmessagesize l, maxKeyRangeCount = gl_maxkeyrangecount l,
     maxIdentityCount = gl_maxidentitycount l, maxPinSize = gl_maxpinsize l\<rparr>"

definition KineticLogInfo_GetLimits ::
  "(nat \<Rightarrow> bool) \<Rightarrow> Proto_Limits \<Rightarrow> mem \<Rightarrow> KineticLogInfo_Limits cell \<times> mem" where
  "KineticLogInfo_GetLimits ok l m = (case c_calloc ok m of (p, m1) \<Rightarrow> (map_option (\<lambda>b. (b, limits_of l)) p, m1))"

text \<open>That the copy of the name failed is not looked at.\<close>

definition KineticLogInfo_GetDevice :: "(nat \<Rightarrow> bool) \<Rightarrow> Proto_GetLog \<Rightarrow> mem \<Rightarrow> KineticLogInfo_Device cell \<times> mem" where
  "KineticLogInfo_GetDevice ok g m =
     (case c_calloc ok m of
        (None, m1) \<Rightarrow> (None, m1)
      | (Some b, m1) \<Rightarrow>
          (case gl_device g of
             Some (Some bs) \<Rightarrow> (case copy_to_byte_array ok bs m1 of (ba, m2) \<Rightarrow> (Some (b, \<lparr>ld_name = ba\<rparr>), m2))
           | _ \<Rightarrow> (Some (b, \<lparr>ld_name = no_bytes\<rparr>), m1)))"

section \<open>Creating and freeing\<close>

text \<open>The local pointers of \<^verbatim>\<open>KineticLogInfo_Create\<close>, with the counts it writes to \<^verbatim>\<open>info\<close>, form the structure they are
  moved to at the end. The local \<^verbatim>\<open>messages\<close> has no initialiser that runs when a \<^verbatim>\<open>goto\<close> jumps over its declaration:
  \<open>lv_messages_set\<close> says whether it was assigned.\<close>

record log_locals =
  lv_log :: KineticLogInfo
  lv_messages_set :: bool

definition no_log :: KineticLogInfo where
  "no_log = \<lparr>li_utilizations = None, li_numUtilizations = 0, li_temperatures = None, li_numTemperatures = 0,
     li_capacity = None, li_configuration = None, li_statistics = None, li_numStatistics = 0, li_messages = no_bytes,
     li_limits = None, li_device = None\<rparr>"

definition put_utilizations :: "KineticLogInfo_Utilization list cell \<times> nat \<Rightarrow> log_locals \<Rightarrow> log_locals" where
  "put_utilizations x v = v\<lparr>lv_log := (lv_log v)\<lparr>li_utilizations := fst x, li_numUtilizations := snd x\<rparr>\<rparr>"

definition put_temperatures :: "KineticLogInfo_Temperature list cell \<times> nat \<Rightarrow> log_locals \<Rightarrow> log_locals" where
  "put_temperatures x v = v\<lparr>lv_log := (lv_log v)\<lparr>li_temperatures := fst x, li_numTemperatures := snd x\<rparr>\<rparr>"

definition put_statistics :: "KineticLogInfo_Statistics list cell \<times> nat \<Rightarrow> log_locals \<Rightarrow> log_locals" where
  "put_statistics x v = v\<lparr>lv_log := (lv_log v)\<lparr>li_statistics := fst x, li_numStatistics := snd x\<rparr>\<rparr>"

definition put_capacity :: "KineticLogInfo_Capacity cell \<Rightarrow> log_locals \<Rightarrow> log_locals" where
  "put_capacity x v = v\<lparr>lv_log := (lv_log v)\<lparr>li_capacity := x\<rparr>\<rparr>"

definition put_configuration :: "KineticLogInfo_Configuration cell \<Rightarrow> log_locals \<Rightarrow> log_locals" where
  "put_configuration x v = v\<lparr>lv_log := (lv_log v)\<lparr>li_configuration := x\<rparr>\<rparr>"

definition put_messages :: "log_bytes \<Rightarrow> log_locals \<Rightarrow> log_locals" where
  "put_messages x v = v\<lparr>lv_log := (lv_log v)\<lparr>li_messages := x\<rparr>, lv_messages_set := True\<rparr>"

definition put_limits :: "KineticLogInfo_Limits cell \<Rightarrow> log_locals \<Rightarrow> log_locals" where
  "put_limits x v = v\<lparr>lv_log := (lv_log v)\<lparr>li_limits := x\<rparr>\<rparr>"

definition put_device :: "KineticLogInfo_Device cell \<Rightarrow> log_locals \<Rightarrow> log_locals" where
  "put_device x v = v\<lparr>lv_log := (lv_log v)\<lparr>li_device := x\<rparr>\<rparr>"

definition utilizations_step :: "(nat \<Rightarrow> bool) \<Rightarrow> Proto_GetLog \<Rightarrow> log_locals step" where
  "utilizations_step ok g v m =
     do { (p, n, m') \<leftarrow> KineticLogInfo_GetUtilizations ok g m; Some (p \<noteq> None, put_utilizations (p, n) v, m') }"

definition capacity_step :: "(nat \<Rightarrow> bool) \<Rightarrow> Proto_GetLog \<Rightarrow> log_locals step" where
  "capacity_step ok g v m = (case KineticLogInfo_GetCapacity ok g m of (p, m') \<Rightarrow> Some (p \<noteq> None, put_capacity p v, m'))"

definition temperatures_step :: "(nat \<Rightarrow> bool) \<Rightarrow> Proto_GetLog \<Rightarrow> log_locals step" where
  "temperatures_step ok g v m =
     (case KineticLogInfo_GetTemperatures ok g m of (p, n, m') \<Rightarrow> Some (p \<noteq> None, put_temperatures (p, n) v, m'))"

definition configuration_step :: "(nat \<Rightarrow> bool) \<Rightarrow> Proto_GetLog \<Rightarrow> log_locals step" where
  "configuration_step ok g v m =
     (case gl_configuration g of
        None \<Rightarrow> Some (True, put_configuration None v, m)
      | Some gcfg \<Rightarrow>
          do { (p, m') \<leftarrow> KineticLogInfo_GetConfiguration ok gcfg m; Some (p \<noteq> None, put_configuration p v, m') })"

definition statistics_step :: "(nat \<Rightarrow> bool) \<Rightarrow> Proto_GetLog \<Rightarrow> log_locals step" where
  "statistics_step ok g v m =
     (case KineticLogInfo_GetStatistics ok g m of (p, n, m') \<Rightarrow> Some (p \<noteq> None, put_statistics (p, n) v, m'))"

definition messages_step :: "(nat \<Rightarrow> bool) \<Rightarrow> Proto_GetLog \<Rightarrow> log_locals step" where
  "messages_step ok g v m =
     (case KineticLogInfo_GetMessages ok g m of (ba, m') \<Rightarrow> Some (lb_data ba \<noteq> None, put_messages ba v, m'))"

definition limits_step :: "(nat \<Rightarrow> bool) \<Rightarrow> Proto_GetLog \<Rightarrow> log_locals step" where
  "limits_step ok g v m =
     (case gl_limits g of
        None \<Rightarrow> Some (True, put_limits None v, m)
      | Some l \<Rightarrow> (case KineticLogInfo_GetLimits ok l m of (p, m') \<Rightarrow> Some (p \<noteq> None, put_limits p v, m')))"

definition device_step :: "(nat \<Rightarrow> bool) \<Rightarrow> Proto_GetLog \<Rightarrow> log_locals step" where
  "device_step ok g v m = (case KineticLogInfo_GetDevice ok g m of (p, m') \<Rightarrow> Some (p \<noteq> None, put_device p v, m'))"

text \<open>The cleanup frees the outer blocks only, and reads \<^verbatim>\<open>messages.data\<close>.\<close>

definition log_cleanup :: "nat \<Rightarrow> log_locals \<Rightarrow> mem \<Rightarrow> mem option" where
  "log_cleanup b v m =
     do { let l = lv_log v;
          m1 \<leftarrow> free_all [Some b, blk (li_utilizations l), blk (li_temperatures l), blk (li_capacity l),
                  blk (li_configuration l), blk (li_statistics l), blk (li_limits l), blk (li_device l)] m;
          c_assert (lv_messages_set v);
          c_free (bytes_blk (li_messages l)) m1 }"

definition log_steps :: "(nat \<Rightarrow> bool) \<Rightarrow> Proto_GetLog \<Rightarrow> log_locals step list" where
  "log_steps ok g = [utilizations_step ok g, capacity_step ok g, temperatures_step ok g, configuration_step ok g,
     statistics_step ok g, messages_step ok g, limits_step ok g, device_step ok g]"

definition KineticLogInfo_Create ::
  "(nat \<Rightarrow> bool) \<Rightarrow> Proto_GetLog option \<Rightarrow> mem \<Rightarrow> (KineticLogInfo cell \<times> mem) option" where
  "KineticLogInfo_Create ok getLog m =
     do { g \<leftarrow> getLog;
          (case c_calloc ok m of
             (None, m1) \<Rightarrow> Some (None, m1)
           | (Some b, m1) \<Rightarrow>
               do { (r, v, m2) \<leftarrow> run_steps (log_steps ok g) \<lparr>lv_log = no_log, lv_messages_set = False\<rparr> m1;
                    if r then Some (Some (b, lv_log v), m2)
                    else do { m3 \<leftarrow> log_cleanup b v m2; Some (None, m3) } }) }"

definition free_configuration :: "KineticLogInfo_Configuration cell \<Rightarrow> mem \<Rightarrow> mem option" where
  "free_configuration cell m =
     (case cell of None \<Rightarrow> Some m
      | Some (b, cfg) \<Rightarrow>
          do { m1 \<leftarrow> free_all [blk (cfg_vendor cfg), blk (cfg_model cfg), blk (cfg_version cfg), blk (cfg_compilationDate cfg),
                  blk (cfg_sourceHash cfg), blk (cfg_protocolVersion cfg), blk (cfg_protocolCompilationDate cfg),
                  blk (cfg_protocolSourceHash cfg), bytes_blk (cfg_serialNumber cfg), bytes_blk (cfg_worldWideName cfg)] m;
               m2 \<leftarrow> free_array interface_ptrs (cfg_interfaces cfg) (cfg_numInterfaces cfg) m1;
               c_free (Some b) m2 })"

definition free_device :: "KineticLogInfo_Device cell \<Rightarrow> mem \<Rightarrow> mem option" where
  "free_device cell m =
     (case cell of None \<Rightarrow> Some m
      | Some (b, d) \<Rightarrow> free_all [bytes_blk (ld_name d), Some b] m)"

definition utilization_ptrs :: "KineticLogInfo_Utilization \<Rightarrow> nat option list" where
  "utilization_ptrs u = [blk (lu_name u)]"

definition temperature_ptrs :: "KineticLogInfo_Temperature \<Rightarrow> nat option list" where
  "temperature_ptrs t = [blk (lt_name t)]"

definition KineticLogInfo_Free :: "KineticLogInfo cell \<Rightarrow> mem \<Rightarrow> mem option" where
  "KineticLogInfo_Free kdi m =
     (case kdi of None \<Rightarrow> Some m
      | Some (b, l) \<Rightarrow>
          do { m1 \<leftarrow> free_array utilization_ptrs (li_utilizations l) (li_numUtilizations l) m;
               m2 \<leftarrow> free_array temperature_ptrs (li_temperatures l) (li_numTemperatures l) m1;
               m3 \<leftarrow> c_free (blk (li_capacity l)) m2;
               m4 \<leftarrow> free_configuration (li_configuration l) m3;
               m5 \<leftarrow> free_all [blk (li_statistics l), blk (li_limits l)] m4;
               m6 \<leftarrow> free_device (li_device l) m5;
               free_all [bytes_blk (li_messages l), Some b] m6 })"

end
