(* ===== verification/Device_Log_Ownership.thy ===== *)
theory Device_Log_Ownership
  imports Kinetic_Device_Info
begin

text \<open>
  The ownership of a device log: what the structures of \<^verbatim>\<open>KineticLogInfo\<close> own and hold, that each step of the copy fills its field
  and owns what it allocated, and the two properties of the component. The locales for string and byte fields are interpreted once for every
  field of the structures.
\<close>

section \<open>What the structures own and hold\<close>

definition array_own :: "('a \<Rightarrow> nat option list) \<Rightarrow> 'a list cell \<Rightarrow> nat multiset" where
  "array_own ptrs arr =
     (case arr of None \<Rightarrow> {#} | Some (b, xs) \<Rightarrow> add_mset b (opt_blocks (concat (map ptrs xs))))"

definition cfg_own :: "KineticLogInfo_Configuration \<Rightarrow> nat multiset" where
  "cfg_own c = opt_blocks [bytes_blk (cfg_serialNumber c), bytes_blk (cfg_worldWideName c), blk (cfg_vendor c), blk (cfg_model c),
     blk (cfg_version c), blk (cfg_compilationDate c), blk (cfg_sourceHash c), blk (cfg_protocolVersion c),
     blk (cfg_protocolCompilationDate c), blk (cfg_protocolSourceHash c)] + array_own interface_ptrs (cfg_interfaces c)"

definition inner :: "('a \<Rightarrow> nat multiset) \<Rightarrow> 'a cell \<Rightarrow> nat multiset" where
  "inner own p = (case p of None \<Rightarrow> {#} | Some (b, x) \<Rightarrow> own x)"

definition array_inner :: "('a \<Rightarrow> nat option list) \<Rightarrow> 'a list cell \<Rightarrow> nat multiset" where
  "array_inner ptrs = inner (\<lambda>xs. opt_blocks (concat (map ptrs xs)))"

definition device_own :: "KineticLogInfo_Device \<Rightarrow> nat multiset" where
  "device_own d = opt_block (bytes_blk (ld_name d))"

definition log_outer :: "KineticLogInfo \<Rightarrow> nat multiset" where
  "log_outer l = opt_blocks [blk (li_utilizations l), blk (li_temperatures l), blk (li_capacity l), blk (li_configuration l),
     blk (li_statistics l), blk (li_limits l), blk (li_device l), bytes_blk (li_messages l)]"

text \<open>The blocks below the outer ones: names, the strings and interfaces of the configuration, the device's name.\<close>

definition log_inner :: "KineticLogInfo \<Rightarrow> nat multiset" where
  "log_inner l = array_inner utilization_ptrs (li_utilizations l) + array_inner temperature_ptrs (li_temperatures l) +
     inner cfg_own (li_configuration l) + inner device_own (li_device l)"

definition log_own :: "KineticLogInfo \<Rightarrow> nat multiset" where
  "log_own l = log_outer l + log_inner l"

text \<open>The contents of a structure are the structure with the names of blocks forgotten. With \<open>exact = False\<close> the two
  names whose copies may silently be missing are left out as well.\<close>

definition strip_bytes :: "log_bytes \<Rightarrow> log_bytes" where
  "strip_bytes ba = ba\<lparr>lb_data := strip_cell (lb_data ba)\<rparr>"

definition strip_as :: "('a \<Rightarrow> 'b) \<Rightarrow> 'a cell \<Rightarrow> 'b cell" where
  "strip_as f p = cell0 (map_option (\<lambda>(b, x). f x) p)"

definition strip_interface :: "KineticLogInfo_Interface \<Rightarrow> KineticLogInfo_Interface" where
  "strip_interface i = \<lparr>inf_name = strip_cell (inf_name i), inf_MAC = strip_bytes (inf_MAC i),
     inf_ipv4Address = strip_bytes (inf_ipv4Address i), inf_ipv6Address = strip_bytes (inf_ipv6Address i)\<rparr>"

definition strip_configuration :: "KineticLogInfo_Configuration \<Rightarrow> KineticLogInfo_Configuration" where
  "strip_configuration c = \<lparr>cfg_vendor = strip_cell (cfg_vendor c), cfg_model = strip_cell (cfg_model c),
     cfg_serialNumber = strip_bytes (cfg_serialNumber c), cfg_worldWideName = strip_bytes (cfg_worldWideName c),
     cfg_version = strip_cell (cfg_version c), cfg_compilationDate = strip_cell (cfg_compilationDate c),
     cfg_sourceHash = strip_cell (cfg_sourceHash c), cfg_protocolVersion = strip_cell (cfg_protocolVersion c),
     cfg_protocolCompilationDate = strip_cell (cfg_protocolCompilationDate c),
     cfg_protocolSourceHash = strip_cell (cfg_protocolSourceHash c),
     cfg_interfaces = strip_as (map strip_interface) (cfg_interfaces c), cfg_numInterfaces = cfg_numInterfaces c,
     cfg_port = cfg_port c, cfg_tlsPort = cfg_tlsPort c\<rparr>"

definition strip_utilization :: "KineticLogInfo_Utilization \<Rightarrow> KineticLogInfo_Utilization" where
  "strip_utilization u = u\<lparr>lu_name := strip_cell (lu_name u)\<rparr>"

definition strip_temperature :: "bool \<Rightarrow> KineticLogInfo_Temperature \<Rightarrow> KineticLogInfo_Temperature" where
  "strip_temperature exact t = t\<lparr>lt_name := (if exact then strip_cell (lt_name t) else None)\<rparr>"

definition strip_device :: "bool \<Rightarrow> KineticLogInfo_Device \<Rightarrow> KineticLogInfo_Device" where
  "strip_device exact d = d\<lparr>ld_name := (ld_name d)\<lparr>lb_data := (if exact then strip_cell (lb_data (ld_name d)) else None)\<rparr>\<rparr>"

definition strip_log :: "bool \<Rightarrow> KineticLogInfo \<Rightarrow> KineticLogInfo" where
  "strip_log exact l = \<lparr>li_utilizations = strip_as (map strip_utilization) (li_utilizations l),
     li_numUtilizations = li_numUtilizations l,
     li_temperatures = strip_as (map (strip_temperature exact)) (li_temperatures l),
     li_numTemperatures = li_numTemperatures l, li_capacity = strip_cell (li_capacity l),
     li_configuration = strip_as strip_configuration (li_configuration l),
     li_statistics = strip_cell (li_statistics l), li_numStatistics = li_numStatistics l,
     li_messages = strip_bytes (li_messages l), li_limits = strip_cell (li_limits l),
     li_device = strip_as (strip_device exact) (li_device l)\<rparr>"

text \<open>What the client is to find, given the log of the response.\<close>

definition bytes_copy :: "u8 list option \<Rightarrow> log_bytes" where
  "bytes_copy s = (case s of None \<Rightarrow> no_bytes | Some bs \<Rightarrow> \<lparr>lb_data = Some (0, bs), lb_len = length bs\<rparr>)"

definition interface_copy :: "Proto_Interface \<Rightarrow> KineticLogInfo_Interface" where
  "interface_copy g = \<lparr>inf_name = cell0 (gi_name g), inf_MAC = bytes_copy (gi_mac g),
     inf_ipv4Address = bytes_copy (gi_ipv4address g), inf_ipv6Address = bytes_copy (gi_ipv6address g)\<rparr>"

definition configuration_copy :: "Proto_Configuration \<Rightarrow> KineticLogInfo_Configuration" where
  "configuration_copy g = \<lparr>cfg_vendor = cell0 (gf_vendor g), cfg_model = cell0 (gf_model g),
     cfg_serialNumber = bytes_copy (gf_serialnumber g), cfg_worldWideName = bytes_copy (gf_worldwidename g),
     cfg_version = cell0 (gf_version g), cfg_compilationDate = cell0 (gf_compilationdate g),
     cfg_sourceHash = cell0 (gf_sourcehash g), cfg_protocolVersion = cell0 (gf_protocolversion g),
     cfg_protocolCompilationDate = cell0 (gf_protocolcompilationdate g),
     cfg_protocolSourceHash = cell0 (gf_protocolsourcehash g),
     cfg_interfaces = Some (0, map interface_copy (gf_interface g)), cfg_numInterfaces = length (gf_interface g),
     cfg_port = (case gf_port g of None \<Rightarrow> 0 | Some p \<Rightarrow> p), cfg_tlsPort = (case gf_tlsport g of None \<Rightarrow> 0 | Some p \<Rightarrow> p)\<rparr>"

definition utilization_copy :: "Proto_Utilization \<Rightarrow> KineticLogInfo_Utilization" where
  "utilization_copy u = \<lparr>lu_name = cell0 (gu_name u), lu_value = gu_value u\<rparr>"

definition temperature_copy :: "bool \<Rightarrow> Proto_Temperature \<Rightarrow> KineticLogInfo_Temperature" where
  "temperature_copy exact t = \<lparr>lt_name = (if exact then cell0 (gt_name t) else None), lt_current = gt_current t,
     lt_minimum = gt_minimum t, lt_maximum = gt_maximum t, lt_target = gt_target t\<rparr>"

definition device_copy :: "bool \<Rightarrow> Proto_GetLog \<Rightarrow> KineticLogInfo_Device" where
  "device_copy exact g = \<lparr>ld_name =
     (case gl_device g of
        Some (Some bs) \<Rightarrow> \<lparr>lb_data = (if exact then Some (0, bs) else None), lb_len = length bs\<rparr>
      | _ \<Rightarrow> no_bytes)\<rparr>"

definition log_copy :: "bool \<Rightarrow> Proto_GetLog \<Rightarrow> KineticLogInfo" where
  "log_copy exact g = \<lparr>li_utilizations = Some (0, map utilization_copy (gl_utilizations g)),
     li_numUtilizations = length (gl_utilizations g),
     li_temperatures = Some (0, map (temperature_copy exact) (gl_temperatures g)),
     li_numTemperatures = length (gl_temperatures g), li_capacity = Some (0, capacity_of g),
     li_configuration = cell0 (map_option configuration_copy (gl_configuration g)),
     li_statistics = Some (0, map statistics_of (gl_statistics g)), li_numStatistics = length (gl_statistics g),
     li_messages = bytes_copy (Some (gl_messages g)), li_limits = cell0 (map_option limits_of (gl_limits g)),
     li_device = Some (0, device_copy exact g)\<rparr>"

text \<open>The strings that must be there for the log to be copied at all.\<close>

definition configuration_complete :: "Proto_Configuration \<Rightarrow> bool" where
  "configuration_complete g \<longleftrightarrow>
     None \<notin> set [gf_vendor g, gf_model g, gf_version g, gf_compilationdate g, gf_sourcehash g, gf_protocolversion g,
       gf_protocolcompilationdate g, gf_protocolsourcehash g] \<and> (\<forall>i \<in> set (gf_interface g). gi_name i \<noteq> None)"

definition log_complete :: "Proto_GetLog \<Rightarrow> bool" where
  "log_complete g \<longleftrightarrow> (\<forall>u \<in> set (gl_utilizations g). gu_name u \<noteq> None) \<and>
     (case gl_configuration g of None \<Rightarrow> True | Some c \<Rightarrow> configuration_complete c)"

lemmas own_simps = cfg_own_def array_own_def inner_def array_inner_def device_own_def log_outer_def log_inner_def log_own_def
lemmas strip_simps = strip_bytes_def strip_as_def strip_interface_def strip_configuration_def strip_utilization_def
  strip_temperature_def strip_device_def strip_log_def
lemmas copy_simps = bytes_copy_def interface_copy_def configuration_copy_def utilization_copy_def temperature_copy_def
  device_copy_def log_copy_def

section \<open>Copies\<close>

declare outcome_def [simp]

lemma copy_str_spec:
  assumes "mem_ok m" "copy_str ok s m = (p, m')"
  shows "grown m m' (cell_blocks p)" "p \<noteq> None \<Longrightarrow> strip_cell p = cell0 s" "outcome ok (p \<noteq> None) (s \<noteq> None)"
  using assms calloc_all_ok
  by (auto simp: copy_str_def blk_def option.map_comp option.map_ident o_def intro!: calloc_grown grown_refl split: option.splits prod.splits)

lemma copy_bytes_spec:
  assumes "mem_ok m" "copy_to_byte_array ok bs m = (ba, m')"
  shows "grown m m' (opt_block (bytes_blk ba))" "lb_data ba \<noteq> None \<Longrightarrow> strip_bytes ba = bytes_copy (Some bs)"
    "\<forall>n. ok n \<Longrightarrow> lb_data ba \<noteq> None" "lb_len ba = length bs"
  using assms calloc_all_ok
  by (auto simp: copy_to_byte_array_def blk_def option.map_comp option.map_ident o_def strip_simps copy_simps
      intro!: calloc_grown split: prod.splits)

lemma no_bytes_simps [simp]: "bytes_blk no_bytes = None" "strip_bytes no_bytes = no_bytes"
  by (simp_all add: no_bytes_def strip_bytes_def)

lemma strip_bytes_null: "strip_bytes x = no_bytes \<Longrightarrow> x = no_bytes"
  by (cases x) (auto simp: strip_bytes_def no_bytes_def)

text \<open>Fields that hold a string, and fields that hold bytes.\<close>

locale str_field = owned_field own view get put cell_blocks strip_cell None
  for own :: "'c \<Rightarrow> nat multiset" and view :: "'c \<Rightarrow> 'c" and get :: "'c \<Rightarrow> string cell" and put :: "string cell \<Rightarrow> 'c \<Rightarrow> 'c"
begin

lemma str_step_fills:
  assumes "get v = None"
  shows "fills own view ok m0 (s \<noteq> None) v (str_step ok put s) (put (cell0 s) v)"
proof (rule field_fills [OF _ assms])
  fix c m
  assume m: "mem_ok m"
  obtain p m' where c: "copy_str ok s m = (p, m')" by fastforce
  show "\<exists>r x m'. str_step ok put s c m = Some (r, put x c, m') \<and> grown m m' (cell_blocks x) \<and>
      (r \<longrightarrow> strip_cell x = cell0 s) \<and> outcome ok r (s \<noteq> None)"
    using copy_str_spec [OF m c] c by (intro exI [of _ "p \<noteq> None"] exI [of _ p] exI [of _ m']) (auto simp: str_step_def)
qed

end

locale bytes_field = owned_field own view get put "\<lambda>ba. opt_block (bytes_blk ba)" strip_bytes no_bytes
  for own :: "'c \<Rightarrow> nat multiset" and view :: "'c \<Rightarrow> 'c" and get :: "'c \<Rightarrow> log_bytes" and put :: "log_bytes \<Rightarrow> 'c \<Rightarrow> 'c"
begin

lemma bytes_step_fills:
  assumes "get v = no_bytes"
  shows "fills own view ok m0 True v (bytes_step ok put s) (put (bytes_copy s) v)"
proof (rule field_fills [OF _ assms])
  fix c m
  assume m: "mem_ok m"
  show "\<exists>r x m'. bytes_step ok put s c m = Some (r, put x c, m') \<and> grown m m' (opt_block (bytes_blk x)) \<and>
      (r \<longrightarrow> strip_bytes x = bytes_copy s) \<and> outcome ok r True"
  proof (cases s)
    case None
    then show ?thesis using m
      by (intro exI [of _ True] exI [of _ no_bytes] exI [of _ m]) (auto simp: bytes_step_def bytes_copy_def)
  next
    case (Some bs)
    obtain ba m' where c: "copy_to_byte_array ok bs m = (ba, m')" by fastforce
    show ?thesis using copy_bytes_spec [OF m c] c Some
      by (intro exI [of _ "lb_data ba \<noteq> None"] exI [of _ ba] exI [of _ m']) (auto simp: bytes_step_def)
  qed
qed

end

section \<open>The configuration\<close>

definition interface_own :: "KineticLogInfo_Interface \<Rightarrow> nat multiset" where
  "interface_own i = opt_blocks (interface_ptrs i)"

lemmas interface_laws = interface_own_def interface_ptrs_def strip_interface_def
lemmas cfg_laws = cfg_own_def strip_configuration_def

interpretation inf_name: str_field interface_own strip_interface inf_name "\<lambda>x. inf_name_update (\<lambda>_. x)"
  by unfold_locales (auto simp: interface_laws)
interpretation inf_MAC: bytes_field interface_own strip_interface inf_MAC "\<lambda>x. inf_MAC_update (\<lambda>_. x)"
  by unfold_locales (auto simp: interface_laws dest: strip_bytes_null)
interpretation inf_ipv4: bytes_field interface_own strip_interface inf_ipv4Address "\<lambda>x. inf_ipv4Address_update (\<lambda>_. x)"
  by unfold_locales (auto simp: interface_laws dest: strip_bytes_null)
interpretation inf_ipv6: bytes_field interface_own strip_interface inf_ipv6Address "\<lambda>x. inf_ipv6Address_update (\<lambda>_. x)"
  by unfold_locales (auto simp: interface_laws dest: strip_bytes_null)

lemma fill_interface_fills:
  "fills interface_own strip_interface ok m0 (gi_name g \<noteq> None) no_interface (fill_interface ok g) (interface_copy g)"
  unfolding fill_interface_def
  by (rule fills_conv [OF fills_Cons [OF inf_name.str_step_fills fills_Cons [OF inf_MAC.bytes_step_fills
        fills_Cons [OF inf_ipv4.bytes_step_fills fills_Cons [OF inf_ipv6.bytes_step_fills fills_Nil]]]]])
    (simp_all add: no_interface_def interface_copy_def)

lemma no_interface_simps [simp]: "interface_own no_interface = {#}" "strip_interface no_interface = no_interface"
  by (simp_all add: interface_laws no_interface_def)

lemma fill_interfaces_spec:
  assumes "mem_ok m"
  shows "\<exists>r infs m'. fill_interfaces ok gs (replicate (length gs) no_interface) m = Some (r, infs, m') \<and>
    grown m m' (opt_blocks (concat (map interface_ptrs infs))) \<and> length infs = length gs \<and>
    (r \<longrightarrow> map strip_interface infs = map interface_copy gs) \<and>
    outcome ok r (\<forall>g \<in> set gs. gi_name g \<noteq> None)"
  using assms
proof (induction gs arbitrary: m)
  case Nil
  then show ?case by auto
next
  case (Cons g gs)
  have "grown m m (interface_own no_interface)" using Cons.prems by auto
  from fillsD [OF fill_interface_fills [of ok m g] this no_interface_simps(2)]
  obtain r i m1 where f: "fill_interface ok g no_interface m = Some (r, i, m1)" "grown m m1 (interface_own i)"
    and i: "r \<Longrightarrow> strip_interface i = interface_copy g" "outcome ok r (gi_name g \<noteq> None)" by metis
  show ?case
  proof (cases r)
    case False
    have "opt_blocks (concat (map interface_ptrs (replicate n no_interface))) = {#}" for n
      by (induction n) (simp_all add: interface_own_def [symmetric])
    with False f i show ?thesis by (auto simp: interface_own_def)
  next
    case True
    from Cons.IH [OF grown_mem_ok [OF f(2)]] obtain r' infs m' where
      "fill_interfaces ok gs (replicate (length gs) no_interface) m1 = Some (r', infs, m')"
      "grown m1 m' (opt_blocks (concat (map interface_ptrs infs)))" "length infs = length gs"
      "r' \<longrightarrow> map strip_interface infs = map interface_copy gs" "outcome ok r' (\<forall>g \<in> set gs. gi_name g \<noteq> None)" by blast
    with True f i grown_trans [OF f(2)] show ?thesis by (auto simp: interface_own_def)
  qed
qed

interpretation cfg_serialNumber: bytes_field cfg_own strip_configuration cfg_serialNumber "\<lambda>x. cfg_serialNumber_update (\<lambda>_. x)"
  by unfold_locales (auto simp: cfg_laws dest: strip_bytes_null)
interpretation cfg_worldWideName: bytes_field cfg_own strip_configuration cfg_worldWideName "\<lambda>x. cfg_worldWideName_update (\<lambda>_. x)"
  by unfold_locales (auto simp: cfg_laws dest: strip_bytes_null)
interpretation cfg_vendor: str_field cfg_own strip_configuration cfg_vendor "\<lambda>x. cfg_vendor_update (\<lambda>_. x)"
  by unfold_locales (auto simp: cfg_laws)
interpretation cfg_model: str_field cfg_own strip_configuration cfg_model "\<lambda>x. cfg_model_update (\<lambda>_. x)"
  by unfold_locales (auto simp: cfg_laws)
interpretation cfg_version: str_field cfg_own strip_configuration cfg_version "\<lambda>x. cfg_version_update (\<lambda>_. x)"
  by unfold_locales (auto simp: cfg_laws)
interpretation cfg_compilationDate: str_field cfg_own strip_configuration cfg_compilationDate "\<lambda>x. cfg_compilationDate_update (\<lambda>_. x)"
  by unfold_locales (auto simp: cfg_laws)
interpretation cfg_sourceHash: str_field cfg_own strip_configuration cfg_sourceHash "\<lambda>x. cfg_sourceHash_update (\<lambda>_. x)"
  by unfold_locales (auto simp: cfg_laws)
interpretation cfg_protocolVersion: str_field cfg_own strip_configuration cfg_protocolVersion "\<lambda>x. cfg_protocolVersion_update (\<lambda>_. x)"
  by unfold_locales (auto simp: cfg_laws)
interpretation cfg_protocolCompilationDate: str_field cfg_own strip_configuration cfg_protocolCompilationDate
    "\<lambda>x. cfg_protocolCompilationDate_update (\<lambda>_. x)"
  by unfold_locales (auto simp: cfg_laws)
interpretation cfg_protocolSourceHash: str_field cfg_own strip_configuration cfg_protocolSourceHash
    "\<lambda>x. cfg_protocolSourceHash_update (\<lambda>_. x)"
  by unfold_locales (auto simp: cfg_laws)

definition put_interfaces :: "KineticLogInfo_Interface list cell \<times> nat \<Rightarrow> KineticLogInfo_Configuration \<Rightarrow> KineticLogInfo_Configuration" where
  "put_interfaces x c = c\<lparr>cfg_interfaces := fst x, cfg_numInterfaces := snd x\<rparr>"

lemma strip_as_simps [simp]: "strip_as f None = None" "strip_as f (Some (b, x)) = Some (0, f x)" "strip_as f p = None \<longleftrightarrow> p = None"
  by (auto simp: strip_as_def)

interpretation cfg_interfaces: owned_field cfg_own strip_configuration "\<lambda>c. (cfg_interfaces c, cfg_numInterfaces c)" put_interfaces
    "\<lambda>x. array_own interface_ptrs (fst x)" "\<lambda>x. (strip_as (map strip_interface) (fst x), snd x)" "(None, 0)"
  by unfold_locales (auto simp: cfg_laws put_interfaces_def array_own_def)

lemma interfaces_step_fills:
  assumes "cfg_interfaces v = None" "cfg_numInterfaces v = 0"
  shows "fills cfg_own strip_configuration ok m0 (\<forall>g \<in> set gs. gi_name g \<noteq> None) v (interfaces_step ok gs)
    (put_interfaces (Some (0, map interface_copy gs), length gs) v)"
proof (rule cfg_interfaces.field_fills)
  fix c m
  assume m: "mem_ok m"
  obtain p m1 where p: "c_calloc ok m = (p, m1)" by fastforce
  note g = calloc_grown [OF m p]
  show "\<exists>r x m'. interfaces_step ok gs c m = Some (r, put_interfaces x c, m') \<and>
      grown m m' (array_own interface_ptrs (fst x)) \<and>
      (r \<longrightarrow> (strip_as (map strip_interface) (fst x), snd x) = (Some (0, map interface_copy gs), length gs)) \<and>
      outcome ok r (\<forall>g \<in> set gs. gi_name g \<noteq> None)"
  proof (cases p)
    case None
    then show ?thesis using p g calloc_all_ok [OF _ p]
      by (intro exI [of _ False] exI [of _ "(None, length gs)"] exI [of _ m1])
        (auto simp: interfaces_step_def put_interfaces_def array_own_def)
  next
    case (Some b)
    obtain r infs m' where "fill_interfaces ok gs (replicate (length gs) no_interface) m1 = Some (r, infs, m')"
      "grown m1 m' (opt_blocks (concat (map interface_ptrs infs)))" "length infs = length gs"
      "r \<longrightarrow> map strip_interface infs = map interface_copy gs" "outcome ok r (\<forall>g \<in> set gs. gi_name g \<noteq> None)"
      using fill_interfaces_spec [OF grown_mem_ok [OF g], of ok gs] by blast
    then show ?thesis using p g Some grown_trans [OF g]
      by (intro exI [of _ r] exI [of _ "(Some (b, infs), length gs)"] exI [of _ m'])
        (auto simp: interfaces_step_def put_interfaces_def array_own_def)
  qed
qed (simp add: assms)

definition put_ports :: "Proto_Configuration \<Rightarrow> KineticLogInfo_Configuration \<Rightarrow> KineticLogInfo_Configuration" where
  "put_ports g c = c\<lparr>cfg_port := (case gf_port g of None \<Rightarrow> cfg_port c | Some p \<Rightarrow> p),
     cfg_tlsPort := (case gf_tlsport g of None \<Rightarrow> cfg_tlsPort c | Some p \<Rightarrow> p)\<rparr>"

lemma ports_step_eq: "ports_step g c m = Some (True, put_ports g c, m)"
  by (auto simp: ports_step_def put_ports_def split: option.split)

lemma ports_step_fills: "fills cfg_own strip_configuration ok m0 True v (ports_step g) (put_ports g v)"
proof -
  have "cfg_own (put_ports g c) = cfg_own c" "strip_configuration (put_ports g c) = put_ports g (strip_configuration c)" for c
    by (simp_all add: put_ports_def cfg_laws split: option.split)
  then show ?thesis unfolding fills_def ports_step_eq by simp blast
qed

lemma fill_configuration_fills:
  "fills cfg_own strip_configuration ok m0 (configuration_complete g) no_configuration (fill_configuration ok g) (configuration_copy g)"
  unfolding fill_configuration_def
  by (rule fills_conv [OF fills_Cons [OF cfg_serialNumber.bytes_step_fills fills_Cons [OF cfg_worldWideName.bytes_step_fills
        fills_Cons [OF cfg_vendor.str_step_fills fills_Cons [OF cfg_model.str_step_fills fills_Cons [OF cfg_version.str_step_fills
        fills_Cons [OF cfg_compilationDate.str_step_fills fills_Cons [OF cfg_sourceHash.str_step_fills
        fills_Cons [OF cfg_protocolVersion.str_step_fills fills_Cons [OF cfg_protocolCompilationDate.str_step_fills
        fills_Cons [OF cfg_protocolSourceHash.str_step_fills fills_Cons [OF ports_step_fills
        fills_Cons [OF interfaces_step_fills fills_Nil]]]]]]]]]]]]])
    (simp_all add: no_configuration_def configuration_copy_def configuration_complete_def put_ports_def put_interfaces_def
      eq_commute [of None] split: option.split)

definition cfg_counts :: "KineticLogInfo_Configuration \<Rightarrow> bool" where
  "cfg_counts c \<longleftrightarrow> (case cfg_interfaces c of None \<Rightarrow> True | Some (b, xs) \<Rightarrow> length xs = cfg_numInterfaces c)"

lemma cfg_countsD: "cfg_counts c \<Longrightarrow> \<forall>b xs. cfg_interfaces c = Some (b, xs) \<longrightarrow> length xs = cfg_numInterfaces c"
  by (auto simp: cfg_counts_def)

lemma fill_interfaces_length: "fill_interfaces ok gs infs m = Some (r, infs', m') \<Longrightarrow> length infs' = length infs"
  by (induction ok gs infs m arbitrary: r infs' m' rule: fill_interfaces.induct) (auto simp: bind_Some_iff split: if_splits)

lemma fill_configuration_counts: "step_keeps cfg_counts (fill_configuration ok g)"
proof -
  have "step_keeps cfg_counts (interfaces_step ok gs)" for gs
    by (auto simp: step_keeps_def cfg_counts_def interfaces_step_def Let_def bind_Some_iff dest: fill_interfaces_length
        split: option.splits prod.splits)
  then show ?thesis unfolding fill_configuration_def
    by (intro run_steps_keep)
      (auto simp: step_keeps_def cfg_counts_def str_step_def bytes_step_def ports_step_eq put_ports_def split: option.splits prod.splits)
qed

lemma free_array_grown:
  assumes "grown m0 m (array_own ptrs arr + B)" "\<forall>b xs. arr = Some (b, xs) \<longrightarrow> length xs = n"
  shows "\<exists>m'. free_array ptrs arr n m = Some m' \<and> grown m0 m' B"
proof (cases arr)
  case None
  with assms(1) show ?thesis by (simp add: free_array_def array_own_def)
next
  case (Some a)
  then obtain b xs where arr: "arr = Some (b, xs)" by (cases a) auto
  with assms have "grown m0 m (opt_blocks (concat (map ptrs xs)) + add_mset b B)" by (simp add: array_own_def)
  from free_all_grown [OF this] obtain m1 where "free_all (concat (map ptrs xs)) m = Some m1" "grown m0 m1 (add_mset b B)" by blast
  with free_grown [OF this(2)] arr assms(2) show ?thesis by (auto simp: free_array_def)
qed

lemma configuration_cleanup_grown:
  assumes "grown m0 m (add_mset b (cfg_own c + B))" "cfg_counts c"
  shows "\<exists>m'. configuration_cleanup b c m = Some m' \<and> grown m0 m' B"
proof -
  let ?strs = "[blk (cfg_vendor c), blk (cfg_model c), blk (cfg_version c), blk (cfg_compilationDate c),
    blk (cfg_sourceHash c), blk (cfg_protocolVersion c), blk (cfg_protocolCompilationDate c), blk (cfg_protocolSourceHash c)]"
  from assms(1) have "grown m0 m (opt_block (bytes_blk (cfg_serialNumber c)) + (opt_block (bytes_blk (cfg_worldWideName c)) +
      (opt_blocks ?strs + (array_own interface_ptrs (cfg_interfaces c) + add_mset b B))))"
    by (simp add: cfg_own_def ac_simps)
  from free_opt_grown [OF this] obtain m1 where 1: "c_free (bytes_blk (cfg_serialNumber c)) m = Some m1"
    "grown m0 m1 (opt_block (bytes_blk (cfg_worldWideName c)) + (opt_blocks ?strs + (array_own interface_ptrs (cfg_interfaces c) + add_mset b B)))"
    by blast
  from free_opt_grown [OF 1(2)] obtain m2 where 2: "c_free (bytes_blk (cfg_worldWideName c)) m1 = Some m2"
    "grown m0 m2 (opt_blocks ?strs + (array_own interface_ptrs (cfg_interfaces c) + add_mset b B))" by blast
  from free_all_grown [OF 2(2)] obtain m3 where 3: "free_all ?strs m2 = Some m3"
    "grown m0 m3 (array_own interface_ptrs (cfg_interfaces c) + add_mset b B)" by blast
  from free_array_grown [OF 3(2) cfg_countsD [OF assms(2)]] obtain m4 where
    4: "free_array interface_ptrs (cfg_interfaces c) (cfg_numInterfaces c) m3 = Some m4" "grown m0 m4 (add_mset b B)" by blast
  from free_grown [OF 4(2)] 1(1) 2(1) 3(1) 4(1) show ?thesis
    unfolding configuration_cleanup_def free_byte_array_def by (simp del: free_all.simps)
qed

lemma free_configuration_grown:
  assumes "grown m0 m (cell_blocks p + inner cfg_own p + B)" "\<And>b c. p = Some (b, c) \<Longrightarrow> cfg_counts c"
  shows "\<exists>m'. free_configuration p m = Some m' \<and> grown m0 m' B"
proof (cases p)
  case None
  with assms(1) show ?thesis by (simp add: free_configuration_def inner_def)
next
  case (Some a)
  then obtain b c where p: "p = Some (b, c)" by (cases a) auto
  let ?strs = "[blk (cfg_vendor c), blk (cfg_model c), blk (cfg_version c), blk (cfg_compilationDate c),
    blk (cfg_sourceHash c), blk (cfg_protocolVersion c), blk (cfg_protocolCompilationDate c), blk (cfg_protocolSourceHash c),
    bytes_blk (cfg_serialNumber c), bytes_blk (cfg_worldWideName c)]"
  from assms(1) p have "grown m0 m (opt_blocks ?strs + (array_own interface_ptrs (cfg_interfaces c) + add_mset b B))"
    by (simp add: cfg_own_def inner_def ac_simps)
  from free_all_grown [OF this] obtain m3 where 3: "free_all ?strs m = Some m3"
    "grown m0 m3 (array_own interface_ptrs (cfg_interfaces c) + add_mset b B)" by blast
  from free_array_grown [OF 3(2) cfg_countsD [OF assms(2) [OF p]]] obtain m4 where
    4: "free_array interface_ptrs (cfg_interfaces c) (cfg_numInterfaces c) m3 = Some m4" "grown m0 m4 (add_mset b B)" by blast
  from free_grown [OF 4(2)] 3(1) 4(1) p show ?thesis by (simp add: free_configuration_def del: free_all.simps)
qed

lemma no_configuration_simps: "cfg_own no_configuration = {#}" "strip_configuration no_configuration = no_configuration"
    "cfg_counts no_configuration"
  by (simp_all add: cfg_laws array_own_def no_configuration_def cfg_counts_def)

lemma GetConfiguration_spec:
  assumes "mem_ok m"
  shows "\<exists>p m'. KineticLogInfo_GetConfiguration ok g m = Some (p, m') \<and> grown m m' (cell_blocks p + inner cfg_own p) \<and>
    (p \<noteq> None \<longrightarrow> strip_as strip_configuration p = Some (0, configuration_copy g)) \<and>
    outcome ok (p \<noteq> None) (configuration_complete g)"
proof -
  obtain q m1 where q: "c_calloc ok m = (q, m1)" by fastforce
  note g1 = calloc_grown [OF assms q]
  show ?thesis
  proof (cases q)
    case None
    then show ?thesis using q g1 calloc_all_ok [OF _ q] by (auto simp: KineticLogInfo_GetConfiguration_def inner_def)
  next
    case (Some b)
    have "grown m1 m1 (cfg_own no_configuration)" using grown_mem_ok [OF g1] by (auto simp: no_configuration_simps)
    from fillsD [OF fill_configuration_fills [of ok m1 g] this no_configuration_simps(2)]
    obtain r c m2 where c: "fill_configuration ok g no_configuration m1 = Some (r, c, m2)" "grown m1 m2 (cfg_own c)"
      and v: "r \<Longrightarrow> strip_configuration c = configuration_copy g" "outcome ok r (configuration_complete g)" by metis
    have counts: "cfg_counts c"
      using fill_configuration_counts c(1) no_configuration_simps(3) unfolding step_keeps_def by blast
    have g2: "grown m m2 (add_mset b (cfg_own c))" using grown_trans [OF g1 c(2)] Some by simp
    show ?thesis
    proof (cases r)
      case True
      then show ?thesis using q Some c v g2
        by (intro exI [of _ "Some (b, c)"] exI [of _ m2]) (auto simp: KineticLogInfo_GetConfiguration_def inner_def)
    next
      case False
      from configuration_cleanup_grown [of m m2 b c "{#}"] g2 counts obtain m3 where
        "configuration_cleanup b c m2 = Some m3" "grown m m3 {#}" by auto
      then show ?thesis using q Some c v False
        by (intro exI [of _ None] exI [of _ m3]) (auto simp: KineticLogInfo_GetConfiguration_def inner_def)
    qed
  qed
qed

section \<open>The other parts of a log\<close>

lemma copy_utilizations_spec:
  assumes "mem_ok m" "copy_utilizations ok us m = (r, xs, m')"
  shows "grown m m' (opt_blocks (concat (map utilization_ptrs xs))) \<and>
    (r \<longrightarrow> map strip_utilization xs = map utilization_copy us) \<and>
    outcome ok r (\<forall>u \<in> set us. gu_name u \<noteq> None)"
  using assms
proof (induction us arbitrary: m r xs m')
  case Nil
  then show ?case by auto
next
  case (Cons u us)
  obtain p m1 where p: "copy_str ok (gu_name u) m = (p, m1)" by fastforce
  note s = copy_str_spec [OF Cons.prems(1) p]
  obtain r' xs' m2 where t: "copy_utilizations ok us m1 = (r', xs', m2)" by (metis prod_cases3)
  show ?case
  proof (cases "p = None")
    case True
    then show ?thesis using Cons.prems(2) p s by auto
  next
    case False
    with Cons.IH [OF grown_mem_ok [OF s(1)] t] Cons.prems(2) p t s grown_trans [OF s(1)] show ?thesis
      by (auto simp: utilization_ptrs_def strip_utilization_def utilization_copy_def)
  qed
qed

lemma GetUtilizations_spec:
  assumes "mem_ok m"
  shows "\<exists>p n m'. KineticLogInfo_GetUtilizations ok g m = Some (p, n, m') \<and>
    grown m m' (cell_blocks p + array_inner utilization_ptrs p) \<and>
    (p \<noteq> None \<longrightarrow> (strip_as (map strip_utilization) p, n) = (Some (0, map utilization_copy (gl_utilizations g)), length (gl_utilizations g))) \<and>
    outcome ok (p \<noteq> None) (\<forall>u \<in> set (gl_utilizations g). gu_name u \<noteq> None)"
proof -
  obtain q m1 where q: "c_calloc ok m = (q, m1)" by fastforce
  note g1 = calloc_grown [OF assms q]
  obtain r xs m2 where c: "copy_utilizations ok (gl_utilizations g) m1 = (r, xs, m2)" by (metis prod_cases3)
  note s = copy_utilizations_spec [OF grown_mem_ok [OF g1] c]
  have ptrs: "map (\<lambda>x. blk (lu_name x)) xs = concat (map utilization_ptrs xs)" by (induction xs) (simp_all add: utilization_ptrs_def)
  show ?thesis
  proof (cases q)
    case None
    then show ?thesis using q g1 calloc_all_ok [OF _ q] by (auto simp: KineticLogInfo_GetUtilizations_def array_inner_def inner_def)
  next
    case (Some b)
    have g2: "grown m m2 (opt_blocks (concat (map utilization_ptrs xs)) + {#b#})"
      using grown_trans [OF g1, of m2] s Some by (simp add: ac_simps)
    show ?thesis
    proof (cases r)
      case True
      then show ?thesis using q c Some s g2
        by (intro exI [of _ "Some (b, xs)"] exI [of _ "length (gl_utilizations g)"] exI [of _ m2])
          (auto simp: KineticLogInfo_GetUtilizations_def array_inner_def inner_def)
    next
      case False
      from free_all_grown [OF g2] obtain m3 where 3: "free_all (concat (map utilization_ptrs xs)) m2 = Some m3" "grown m m3 {#b#}" by blast
      from free_grown [of m m3 b "{#}"] 3(2) obtain m4 where "c_free (Some b) m3 = Some m4" "grown m m4 {#}" by auto
      then show ?thesis using q c Some s False 3(1)
        by (intro exI [of _ None] exI [of _ "length (gl_utilizations g)"] exI [of _ m4])
          (auto simp: KineticLogInfo_GetUtilizations_def array_inner_def inner_def ptrs)
    qed
  qed
qed

lemma copy_temperatures_spec:
  assumes "mem_ok m" "copy_temperatures ok ts m = (xs, m')" "exact \<longrightarrow> (\<forall>n. ok n)"
  shows "grown m m' (opt_blocks (concat (map temperature_ptrs xs))) \<and>
    map (strip_temperature exact) xs = map (temperature_copy exact) ts"
  using assms(1,2)
proof (induction ts arbitrary: m xs m')
  case Nil
  then show ?case by auto
next
  case (Cons t ts)
  obtain p m1 where p: "copy_str ok (gt_name t) m = (p, m1)" by fastforce
  note s = copy_str_spec [OF Cons.prems(1) p]
  obtain xs' m2 where t: "copy_temperatures ok ts m1 = (xs', m2)" by fastforce
  have "exact \<longrightarrow> strip_cell p = cell0 (gt_name t)" using s(2,3) assms(3) by (cases p) auto
  with Cons.IH [OF grown_mem_ok [OF s(1)] t] Cons.prems(2) p t s grown_trans [OF s(1)] show ?case
    by (auto simp: temperature_ptrs_def strip_temperature_def temperature_copy_def)
qed

lemma GetTemperatures_spec:
  assumes "mem_ok m" "KineticLogInfo_GetTemperatures ok g m = (p, n, m')" "exact \<longrightarrow> (\<forall>n. ok n)"
  shows "grown m m' (cell_blocks p + array_inner temperature_ptrs p) \<and>
    (p \<noteq> None \<longrightarrow> (strip_as (map (strip_temperature exact)) p, n) =
       (Some (0, map (temperature_copy exact) (gl_temperatures g)), length (gl_temperatures g))) \<and>
    ((\<forall>n. ok n) \<longrightarrow> p \<noteq> None)"
proof -
  obtain q m1 where q: "c_calloc ok m = (q, m1)" by fastforce
  note g1 = calloc_grown [OF assms(1) q]
  obtain xs m2 where c: "copy_temperatures ok (gl_temperatures g) m1 = (xs, m2)" by fastforce
  note s = copy_temperatures_spec [OF grown_mem_ok [OF g1] c assms(3)]
  then have "grown m m2 (opt_block q + opt_blocks (concat (map temperature_ptrs xs)))" using grown_trans [OF g1] by blast
  with assms(2) q c s g1 calloc_all_ok [OF _ q] show ?thesis
    by (cases q) (auto simp: KineticLogInfo_GetTemperatures_def array_inner_def inner_def)
qed

lemma GetDevice_spec:
  assumes "mem_ok m" "KineticLogInfo_GetDevice ok g m = (p, m')" "exact \<longrightarrow> (\<forall>n. ok n)"
  shows "grown m m' (cell_blocks p + inner device_own p) \<and>
    (p \<noteq> None \<longrightarrow> strip_as (strip_device exact) p = Some (0, device_copy exact g)) \<and> ((\<forall>n. ok n) \<longrightarrow> p \<noteq> None)"
proof -
  obtain q m1 where q: "c_calloc ok m = (q, m1)" by fastforce
  note g1 = calloc_grown [OF assms(1) q]
  show ?thesis
  proof (cases "q = None \<or> gl_device g = None \<or> gl_device g = Some None")
    case True
    then show ?thesis using assms(2) q g1 calloc_all_ok [OF _ q]
      by (auto simp: KineticLogInfo_GetDevice_def inner_def device_own_def strip_device_def device_copy_def no_bytes_def split: option.splits)
  next
    case False
    then obtain b bs where b: "q = Some b" "gl_device g = Some (Some bs)" by auto
    obtain ba m2 where c: "copy_to_byte_array ok bs m1 = (ba, m2)" by fastforce
    note s = copy_bytes_spec [OF grown_mem_ok [OF g1] c]
    have "grown m m2 (opt_block q + opt_block (bytes_blk ba))" using grown_trans [OF g1 s(1)] .
    moreover have "exact \<longrightarrow> strip_cell (lb_data ba) = Some (0, bs)"
      using s(2,3) assms(3) by (cases ba) (auto simp: strip_bytes_def bytes_copy_def)
    moreover have "ba = \<lparr>lb_data = lb_data ba, lb_len = length bs\<rparr>" using s(4) by (cases ba) simp
    ultimately show ?thesis using assms(2) b q c
      by (cases ba) (auto simp: KineticLogInfo_GetDevice_def inner_def device_own_def strip_device_def device_copy_def)
  qed
qed

section \<open>The whole log\<close>

definition locals_own :: "log_locals \<Rightarrow> nat multiset" where
  "locals_own v = log_own (lv_log v)"

definition strip_locals :: "bool \<Rightarrow> log_locals \<Rightarrow> log_locals" where
  "strip_locals exact v = v\<lparr>lv_log := strip_log exact (lv_log v)\<rparr>"

lemmas locals_laws = locals_own_def strip_locals_def log_own_def log_outer_def log_inner_def strip_log_def array_inner_def inner_def

interpretation f_util: owned_field locals_own "strip_locals exact"
    "\<lambda>v. (li_utilizations (lv_log v), li_numUtilizations (lv_log v))" put_utilizations
    "\<lambda>x. cell_blocks (fst x) + array_inner utilization_ptrs (fst x)" "\<lambda>x. (strip_as (map strip_utilization) (fst x), snd x)" "(None, 0)"
  for exact by unfold_locales (auto simp: locals_laws put_utilizations_def ac_simps)
interpretation f_temp: owned_field locals_own "strip_locals exact"
    "\<lambda>v. (li_temperatures (lv_log v), li_numTemperatures (lv_log v))" put_temperatures
    "\<lambda>x. cell_blocks (fst x) + array_inner temperature_ptrs (fst x)" "\<lambda>x. (strip_as (map (strip_temperature exact)) (fst x), snd x)" "(None, 0)"
  for exact by unfold_locales (auto simp: locals_laws put_temperatures_def ac_simps)
interpretation f_stat: owned_field locals_own "strip_locals exact"
    "\<lambda>v. (li_statistics (lv_log v), li_numStatistics (lv_log v))" put_statistics
    "\<lambda>x. cell_blocks (fst x)" "\<lambda>x. (strip_cell (fst x), snd x)" "(None, 0)"
  for exact by unfold_locales (auto simp: locals_laws put_statistics_def ac_simps)
interpretation f_cap: owned_field locals_own "strip_locals exact" "\<lambda>v. li_capacity (lv_log v)" put_capacity cell_blocks strip_cell None
  for exact by unfold_locales (auto simp: locals_laws put_capacity_def ac_simps)
interpretation f_lim: owned_field locals_own "strip_locals exact" "\<lambda>v. li_limits (lv_log v)" put_limits cell_blocks strip_cell None
  for exact by unfold_locales (auto simp: locals_laws put_limits_def ac_simps)
interpretation f_conf: owned_field locals_own "strip_locals exact" "\<lambda>v. li_configuration (lv_log v)" put_configuration
    "\<lambda>p. cell_blocks p + inner cfg_own p" "strip_as strip_configuration" None
  for exact by unfold_locales (auto simp: locals_laws put_configuration_def ac_simps)
interpretation f_dev: owned_field locals_own "strip_locals exact" "\<lambda>v. li_device (lv_log v)" put_device
    "\<lambda>p. cell_blocks p + inner device_own p" "strip_as (strip_device exact)" None
  for exact by unfold_locales (auto simp: locals_laws put_device_def ac_simps)
interpretation f_msg: owned_field locals_own "strip_locals exact" "\<lambda>v. li_messages (lv_log v)" put_messages
    "\<lambda>ba. opt_block (bytes_blk ba)" strip_bytes no_bytes
  for exact by unfold_locales (auto simp: locals_laws put_messages_def ac_simps dest: strip_bytes_null)

lemma utilizations_step_fills:
  assumes "li_utilizations (lv_log v) = None" "li_numUtilizations (lv_log v) = 0"
  shows "fills locals_own (strip_locals exact) ok m0 (\<forall>u \<in> set (gl_utilizations g). gu_name u \<noteq> None) v (utilizations_step ok g)
    (put_utilizations (Some (0, map utilization_copy (gl_utilizations g)), length (gl_utilizations g)) v)"
proof (rule f_util.field_fills)
  fix c m
  assume m: "mem_ok m"
  from GetUtilizations_spec [OF m, of ok g] obtain p n m' where "KineticLogInfo_GetUtilizations ok g m = Some (p, n, m')"
    "grown m m' (cell_blocks p + array_inner utilization_ptrs p)"
    "p \<noteq> None \<longrightarrow> (strip_as (map strip_utilization) p, n) = (Some (0, map utilization_copy (gl_utilizations g)), length (gl_utilizations g))"
    "outcome ok (p \<noteq> None) (\<forall>u \<in> set (gl_utilizations g). gu_name u \<noteq> None)" by blast
  then show "\<exists>r x m'. utilizations_step ok g c m = Some (r, put_utilizations x c, m') \<and>
      grown m m' (cell_blocks (fst x) + array_inner utilization_ptrs (fst x)) \<and>
      (r \<longrightarrow> (strip_as (map strip_utilization) (fst x), snd x) =
         (Some (0, map utilization_copy (gl_utilizations g)), length (gl_utilizations g))) \<and>
      outcome ok r (\<forall>u \<in> set (gl_utilizations g). gu_name u \<noteq> None)"
    by (intro exI [of _ "p \<noteq> None"] exI [of _ "(p, n)"] exI [of _ m']) (auto simp: utilizations_step_def)
qed (use assms in simp)

lemma temperatures_step_fills:
  assumes "li_temperatures (lv_log v) = None" "li_numTemperatures (lv_log v) = 0" "exact \<longrightarrow> (\<forall>n. ok n)"
  shows "fills locals_own (strip_locals exact) ok m0 True v (temperatures_step ok g)
    (put_temperatures (Some (0, map (temperature_copy exact) (gl_temperatures g)), length (gl_temperatures g)) v)"
proof (rule f_temp.field_fills)
  fix c m
  assume m: "mem_ok m"
  obtain p n m' where p: "KineticLogInfo_GetTemperatures ok g m = (p, n, m')" by (metis prod_cases3)
  with GetTemperatures_spec [OF m p assms(3)]
  show "\<exists>r x m'. temperatures_step ok g c m = Some (r, put_temperatures x c, m') \<and>
      grown m m' (cell_blocks (fst x) + array_inner temperature_ptrs (fst x)) \<and>
      (r \<longrightarrow> (strip_as (map (strip_temperature exact)) (fst x), snd x) =
         (Some (0, map (temperature_copy exact) (gl_temperatures g)), length (gl_temperatures g))) \<and>
      outcome ok r True"
    by (intro exI [of _ "p \<noteq> None"] exI [of _ "(p, n)"] exI [of _ m']) (auto simp: temperatures_step_def)
qed (use assms in simp)

lemma calloc_cell:
  assumes "mem_ok m" "c_calloc ok m = (p, m')"
  shows "grown m m' (cell_blocks (map_option (\<lambda>b. (b, x)) p))" "p \<noteq> None \<Longrightarrow> strip_cell (map_option (\<lambda>b. (b, x)) p) = Some (0, x)"
  using calloc_grown [OF assms] by (cases p; simp)+

lemma capacity_step_fills:
  assumes "li_capacity (lv_log v) = None"
  shows "fills locals_own (strip_locals exact) ok m0 True v (capacity_step ok g) (put_capacity (Some (0, capacity_of g)) v)"
proof (rule f_cap.field_fills)
  fix c m
  assume m: "mem_ok m"
  obtain p m' where p: "c_calloc ok m = (p, m')" by fastforce
  with calloc_cell [OF m p] calloc_all_ok [OF _ p]
  show "\<exists>r x m'. capacity_step ok g c m = Some (r, put_capacity x c, m') \<and> grown m m' (cell_blocks x) \<and>
      (r \<longrightarrow> strip_cell x = Some (0, capacity_of g)) \<and> outcome ok r True"
    by (intro exI [of _ "p \<noteq> None"] exI [of _ "map_option (\<lambda>b. (b, capacity_of g)) p"] exI [of _ m'])
      (auto simp: capacity_step_def KineticLogInfo_GetCapacity_def)
qed (use assms in simp)

lemma statistics_step_fills:
  assumes "li_statistics (lv_log v) = None" "li_numStatistics (lv_log v) = 0"
  shows "fills locals_own (strip_locals exact) ok m0 True v (statistics_step ok g)
    (put_statistics (Some (0, map statistics_of (gl_statistics g)), length (gl_statistics g)) v)"
proof (rule f_stat.field_fills)
  fix c m
  assume m: "mem_ok m"
  obtain p m' where p: "c_calloc ok m = (p, m')" by fastforce
  with calloc_grown [OF m p] calloc_all_ok [OF _ p]
  show "\<exists>r x m'. statistics_step ok g c m = Some (r, put_statistics x c, m') \<and> grown m m' (cell_blocks (fst x)) \<and>
      (r \<longrightarrow> (strip_cell (fst x), snd x) = (Some (0, map statistics_of (gl_statistics g)), length (gl_statistics g))) \<and>
      outcome ok r True"
    by (intro exI [of _ "p \<noteq> None"] exI [of _ "(map_option (\<lambda>b. (b, map statistics_of (gl_statistics g))) p,
          if p = None then 0 else length (gl_statistics g))"] exI [of _ m'])
      (cases p; auto simp: statistics_step_def KineticLogInfo_GetStatistics_def)
qed (use assms in simp)

lemma limits_step_fills:
  assumes "li_limits (lv_log v) = None"
  shows "fills locals_own (strip_locals exact) ok m0 True v (limits_step ok g) (put_limits (cell0 (map_option limits_of (gl_limits g))) v)"
proof (rule f_lim.field_fills)
  fix c m
  assume m: "mem_ok m"
  obtain p m' where p: "c_calloc ok m = (p, m')" by fastforce
  show "\<exists>r x m'. limits_step ok g c m = Some (r, put_limits x c, m') \<and> grown m m' (cell_blocks x) \<and>
      (r \<longrightarrow> strip_cell x = cell0 (map_option limits_of (gl_limits g))) \<and> outcome ok r True"
  proof (cases "gl_limits g")
    case None
    then show ?thesis using m by (intro exI [of _ True] exI [of _ None] exI [of _ m]) (auto simp: limits_step_def)
  next
    case (Some l)
    with p calloc_cell [OF m p] calloc_all_ok [OF _ p] show ?thesis
      by (intro exI [of _ "p \<noteq> None"] exI [of _ "map_option (\<lambda>b. (b, limits_of l)) p"] exI [of _ m'])
        (auto simp: limits_step_def KineticLogInfo_GetLimits_def)
  qed
qed (use assms in simp)

lemma configuration_step_fills:
  assumes "li_configuration (lv_log v) = None"
  shows "fills locals_own (strip_locals exact) ok m0 (case gl_configuration g of None \<Rightarrow> True | Some c \<Rightarrow> configuration_complete c) v
    (configuration_step ok g) (put_configuration (cell0 (map_option configuration_copy (gl_configuration g))) v)"
proof (rule f_conf.field_fills)
  fix c m
  assume m: "mem_ok m"
  show "\<exists>r x m'. configuration_step ok g c m = Some (r, put_configuration x c, m') \<and> grown m m' (cell_blocks x + inner cfg_own x) \<and>
      (r \<longrightarrow> strip_as strip_configuration x = cell0 (map_option configuration_copy (gl_configuration g))) \<and>
      outcome ok r (case gl_configuration g of None \<Rightarrow> True | Some c \<Rightarrow> configuration_complete c)"
  proof (cases "gl_configuration g")
    case None
    then show ?thesis using m by (intro exI [of _ True] exI [of _ None] exI [of _ m]) (auto simp: configuration_step_def inner_def)
  next
    case (Some gc)
    from GetConfiguration_spec [OF m, of ok gc] obtain p m' where
      "KineticLogInfo_GetConfiguration ok gc m = Some (p, m')" "grown m m' (cell_blocks p + inner cfg_own p)"
      "p \<noteq> None \<longrightarrow> strip_as strip_configuration p = Some (0, configuration_copy gc)"
      "outcome ok (p \<noteq> None) (configuration_complete gc)" by blast
    with Some show ?thesis
      by (intro exI [of _ "p \<noteq> None"] exI [of _ p] exI [of _ m']) (auto simp: configuration_step_def)
  qed
qed (use assms in simp)

lemma messages_step_fills:
  assumes "li_messages (lv_log v) = no_bytes"
  shows "fills locals_own (strip_locals exact) ok m0 True v (messages_step ok g) (put_messages (bytes_copy (Some (gl_messages g))) v)"
proof (rule f_msg.field_fills)
  fix c m
  assume m: "mem_ok m"
  obtain ba m' where p: "copy_to_byte_array ok (gl_messages g) m = (ba, m')" by fastforce
  with copy_bytes_spec [OF m p]
  show "\<exists>r x m'. messages_step ok g c m = Some (r, put_messages x c, m') \<and> grown m m' (opt_block (bytes_blk x)) \<and>
      (r \<longrightarrow> strip_bytes x = bytes_copy (Some (gl_messages g))) \<and> outcome ok r True"
    by (intro exI [of _ "lb_data ba \<noteq> None"] exI [of _ ba] exI [of _ m']) (auto simp: messages_step_def KineticLogInfo_GetMessages_def)
qed (use assms in simp)

lemma device_step_fills:
  assumes "li_device (lv_log v) = None" "exact \<longrightarrow> (\<forall>n. ok n)"
  shows "fills locals_own (strip_locals exact) ok m0 True v (device_step ok g) (put_device (Some (0, device_copy exact g)) v)"
proof (rule f_dev.field_fills)
  fix c m
  assume m: "mem_ok m"
  obtain p m' where p: "KineticLogInfo_GetDevice ok g m = (p, m')" by fastforce
  with GetDevice_spec [OF m p assms(2)]
  show "\<exists>r x m'. device_step ok g c m = Some (r, put_device x c, m') \<and> grown m m' (cell_blocks x + inner device_own x) \<and>
      (r \<longrightarrow> strip_as (strip_device exact) x = Some (0, device_copy exact g)) \<and> outcome ok r True"
    by (intro exI [of _ "p \<noteq> None"] exI [of _ p] exI [of _ m']) (auto simp: device_step_def)
qed (use assms in simp)

definition no_locals :: log_locals where "no_locals = \<lparr>lv_log = no_log, lv_messages_set = False\<rparr>"

lemmas put_defs = put_utilizations_def put_capacity_def put_temperatures_def put_configuration_def put_statistics_def
  put_messages_def put_limits_def put_device_def

text \<open>The steps before and from the assignment of \<^verbatim>\<open>messages\<close>.\<close>

definition early_steps :: "(nat \<Rightarrow> bool) \<Rightarrow> Proto_GetLog \<Rightarrow> log_locals step list" where
  "early_steps ok g = [utilizations_step ok g, capacity_step ok g, temperatures_step ok g, configuration_step ok g, statistics_step ok g]"

definition late_steps :: "(nat \<Rightarrow> bool) \<Rightarrow> Proto_GetLog \<Rightarrow> log_locals step list" where
  "late_steps ok g = [messages_step ok g, limits_step ok g, device_step ok g]"

lemma log_steps_split: "log_steps ok g = early_steps ok g @ late_steps ok g"
  by (simp add: log_steps_def early_steps_def late_steps_def)

definition early_copy :: "bool \<Rightarrow> Proto_GetLog \<Rightarrow> log_locals" where
  "early_copy exact g = \<lparr>lv_log = (log_copy exact g)\<lparr>li_messages := no_bytes, li_limits := None, li_device := None\<rparr>,
     lv_messages_set = False\<rparr>"

lemma early_steps_fill:
  assumes "exact \<longrightarrow> (\<forall>n. ok n)"
  shows "fills locals_own (strip_locals exact) ok m0 (log_complete g) no_locals (run_steps (early_steps ok g)) (early_copy exact g)"
  unfolding early_steps_def
  by (rule fills_conv [OF fills_Cons [OF utilizations_step_fills fills_Cons [OF capacity_step_fills
        fills_Cons [OF temperatures_step_fills [OF _ _ assms] fills_Cons [OF configuration_step_fills
        fills_Cons [OF statistics_step_fills fills_Nil]]]]]])
    (simp_all add: no_locals_def no_log_def log_complete_def early_copy_def log_copy_def put_defs)

lemma late_steps_fill:
  assumes "exact \<longrightarrow> (\<forall>n. ok n)"
  shows "fills locals_own (strip_locals exact) ok m0 True (early_copy exact g) (run_steps (late_steps ok g))
    \<lparr>lv_log = log_copy exact g, lv_messages_set = True\<rparr>"
  unfolding late_steps_def
  by (rule fills_conv [OF fills_Cons [OF messages_step_fills fills_Cons [OF limits_step_fills
        fills_Cons [OF device_step_fills [OF _ assms] fills_Nil]]]])
    (simp_all add: early_copy_def log_copy_def put_defs)

lemma early_steps_unset: "step_keeps (\<lambda>v. \<not> lv_messages_set v) (run_steps (early_steps ok g))"
  by (rule run_steps_keep)
    (auto simp: early_steps_def step_keeps_def utilizations_step_def capacity_step_def temperatures_step_def configuration_step_def
      statistics_step_def put_defs bind_Some_iff split: option.splits prod.splits)

lemma late_steps_set:
  "run_steps (late_steps ok g) v m = Some (r, v', m') \<Longrightarrow> lv_messages_set v' \<and>
     li_utilizations (lv_log v') = li_utilizations (lv_log v) \<and> li_configuration (lv_log v') = li_configuration (lv_log v)"
  by (auto simp: late_steps_def messages_step_def limits_step_def device_step_def put_defs
      split: option.splits prod.splits if_splits)

section \<open>Freeing\<close>

lemma log_cleanup_grown:
  assumes "grown m0 m (add_mset b (locals_own v))" "lv_messages_set v"
  shows "\<exists>m'. log_cleanup b v m = Some m' \<and> grown m0 m' (log_inner (lv_log v))"
proof -
  let ?l = "lv_log v"
  let ?ps = "[Some b, blk (li_utilizations ?l), blk (li_temperatures ?l), blk (li_capacity ?l),
    blk (li_configuration ?l), blk (li_statistics ?l), blk (li_limits ?l), blk (li_device ?l)]"
  from assms(1) have "grown m0 m (opt_blocks ?ps + (opt_block (bytes_blk (li_messages ?l)) + log_inner ?l))"
    by (simp add: locals_own_def log_own_def log_outer_def ac_simps)
  from free_all_grown [OF this] obtain m1 where 1: "free_all ?ps m = Some m1"
    "grown m0 m1 (opt_block (bytes_blk (li_messages ?l)) + log_inner ?l)" by blast
  from free_opt_grown [OF 1(2)] 1(1) assms(2) show ?thesis by (simp add: log_cleanup_def Let_def del: free_all.simps)
qed

definition log_counts :: "KineticLogInfo \<Rightarrow> bool" where
  "log_counts l \<longleftrightarrow> (\<forall>b xs. li_utilizations l = Some (b, xs) \<longrightarrow> length xs = li_numUtilizations l) \<and>
     (\<forall>b xs. li_temperatures l = Some (b, xs) \<longrightarrow> length xs = li_numTemperatures l) \<and>
     (\<forall>b c. li_configuration l = Some (b, c) \<longrightarrow> cfg_counts c)"

lemma strip_as_eq: "strip_as f p = Some (0, y) \<longleftrightarrow> (\<exists>b x. p = Some (b, x) \<and> f x = y)"
  by (cases p) (auto simp: strip_as_def)

lemma strip_configuration_counts:
  assumes "strip_configuration c = configuration_copy g"
  shows "cfg_counts c"
proof -
  from assms have "strip_as (map strip_interface) (cfg_interfaces c) = Some (0, map interface_copy (gf_interface g))"
      "cfg_numInterfaces c = length (gf_interface g)"
    by (simp_all add: strip_configuration_def configuration_copy_def)
  then show ?thesis by (auto simp: strip_as_eq cfg_counts_def dest: map_eq_imp_length_eq)
qed

lemma strip_log_counts:
  assumes "strip_log exact l = log_copy exact g"
  shows "log_counts l"
proof -
  from assms have "strip_as (map strip_utilization) (li_utilizations l) = Some (0, map utilization_copy (gl_utilizations g))"
      "li_numUtilizations l = length (gl_utilizations g)"
      "strip_as (map (strip_temperature exact)) (li_temperatures l) = Some (0, map (temperature_copy exact) (gl_temperatures g))"
      "li_numTemperatures l = length (gl_temperatures g)"
      and c: "strip_as strip_configuration (li_configuration l) = cell0 (map_option configuration_copy (gl_configuration g))"
    by (simp_all add: strip_log_def log_copy_def)
  moreover have "cfg_counts c" if "li_configuration l = Some (b, c)" for b c
    using c that strip_configuration_counts by (cases "gl_configuration g") auto
  ultimately show ?thesis by (auto simp: strip_as_eq log_counts_def dest: map_eq_imp_length_eq)
qed

lemma array_own_inner: "array_own ptrs p = cell_blocks p + array_inner ptrs p"
  by (cases p) (auto simp: array_own_def array_inner_def inner_def)

lemma free_device_eq: "free_device p m = free_all (case p of None \<Rightarrow> [] | Some (b, d) \<Rightarrow> [bytes_blk (ld_name d), Some b]) m"
  by (simp add: free_device_def split: option.split)

lemma log_free_grown:
  assumes "grown m0 m (add_mset b (log_own l))" "log_counts l"
  shows "\<exists>m'. KineticLogInfo_Free (Some (b, l)) m = Some m' \<and> grown m0 m' {#}"
proof -
  let ?d = "case li_device l of None \<Rightarrow> [] | Some (b, d) \<Rightarrow> [bytes_blk (ld_name d), Some b]"
  let ?R7 = "opt_blocks [bytes_blk (li_messages l), Some b] + {#}"
  let ?R6 = "opt_blocks ?d + ?R7"
  let ?R5 = "opt_blocks [blk (li_statistics l), blk (li_limits l)] + ?R6"
  let ?R4 = "cell_blocks (li_configuration l) + inner cfg_own (li_configuration l) + ?R5"
  let ?R3 = "cell_blocks (li_capacity l) + ?R4"
  let ?R2 = "array_own temperature_ptrs (li_temperatures l) + ?R3"
  have "opt_blocks ?d = cell_blocks (li_device l) + inner device_own (li_device l)"
    by (cases "li_device l") (auto simp: inner_def device_own_def)
  then have "grown m0 m (array_own utilization_ptrs (li_utilizations l) + ?R2)"
    using assms(1) by (simp add: log_own_def log_outer_def log_inner_def array_own_inner ac_simps)
  from free_array_grown [OF this, of "li_numUtilizations l"] assms(2) obtain m1 where
    1: "free_array utilization_ptrs (li_utilizations l) (li_numUtilizations l) m = Some m1" "grown m0 m1 ?R2"
    unfolding log_counts_def by blast
  from free_array_grown [OF 1(2), of "li_numTemperatures l"] assms(2) obtain m2 where
    2: "free_array temperature_ptrs (li_temperatures l) (li_numTemperatures l) m1 = Some m2" "grown m0 m2 ?R3"
    unfolding log_counts_def by blast
  from free_opt_grown [OF 2(2)] obtain m3 where 3: "c_free (blk (li_capacity l)) m2 = Some m3" "grown m0 m3 ?R4" by blast
  from free_configuration_grown [OF 3(2)] assms(2) obtain m4 where
    4: "free_configuration (li_configuration l) m3 = Some m4" "grown m0 m4 ?R5" unfolding log_counts_def by blast
  from free_all_grown [OF 4(2)] obtain m5 where
    5: "free_all [blk (li_statistics l), blk (li_limits l)] m4 = Some m5" "grown m0 m5 ?R6" by blast
  from free_all_grown [OF 5(2)] obtain m6 where 6: "free_device (li_device l) m5 = Some m6" "grown m0 m6 ?R7"
    unfolding free_device_eq by blast
  from free_all_grown [OF 6(2)] 1(1) 2(1) 3(1) 4(1) 5(1) 6(1) show ?thesis
    by (simp add: KineticLogInfo_Free_def del: free_all.simps)
qed

section \<open>Properties\<close>

lemma no_locals_simps: "locals_own no_locals = {#}" "strip_locals exact no_locals = no_locals"
  by (simp_all add: locals_laws no_locals_def no_log_def)

text \<open>The run of the steps, seen from the state after the allocation of the structure.\<close>

lemma create_run:
  assumes "mem_ok m1" "exact \<longrightarrow> (\<forall>n. ok n)"
  obtains (early) v m2 where "run_steps (log_steps ok g) no_locals m1 = Some (False, v, m2)" "\<not> lv_messages_set v"
      "(\<forall>n. ok n) \<longrightarrow> \<not> log_complete g"
    | (late) r v v' m2 where "run_steps (log_steps ok g) no_locals m1 = Some (r, v', m2)" "grown m1 m2 (locals_own v')" "lv_messages_set v'"
      "strip_locals exact v = early_copy exact g" "log_complete g" "(\<forall>n. ok n) \<longrightarrow> r"
      "li_utilizations (lv_log v') = li_utilizations (lv_log v)" "li_configuration (lv_log v') = li_configuration (lv_log v)"
      "r \<longrightarrow> strip_log exact (lv_log v') = log_copy exact g"
proof -
  have "grown m1 m1 (locals_own no_locals)" using assms(1) by (auto simp: no_locals_simps)
  from fillsD [OF early_steps_fill [OF assms(2), of m1 g] this no_locals_simps(2)]
  obtain r v m2 where v: "run_steps (early_steps ok g) no_locals m1 = Some (r, v, m2)" "grown m1 m2 (locals_own v)"
    "r \<Longrightarrow> strip_locals exact v = early_copy exact g" "outcome ok r (log_complete g)" by metis
  show thesis
  proof (cases r)
    case False
    have "\<not> lv_messages_set no_locals" by (simp add: no_locals_def)
    with early_steps_unset v(1) have "\<not> lv_messages_set v" unfolding step_keeps_def by blast
    with v False show thesis by (intro early [of v m2]) (simp_all add: log_steps_split run_steps_append)
  next
    case True
    from fillsD [OF late_steps_fill [OF assms(2), of m1 g] v(2) v(3) [OF True]]
    obtain r' v' m3 where w: "run_steps (late_steps ok g) v m2 = Some (r', v', m3)" "grown m1 m3 (locals_own v')"
      "r' \<Longrightarrow> strip_locals exact v' = \<lparr>lv_log = log_copy exact g, lv_messages_set = True\<rparr>" "outcome ok r' True" by metis
    have "r' \<longrightarrow> strip_log exact (lv_log v') = log_copy exact g" using w(3) by (cases v') (simp add: strip_locals_def)
    with v w True late_steps_set [OF w(1)] show thesis
      by (intro late [of r' v' m3 v]) (simp_all add: log_steps_split run_steps_append)
  qed
qed

lemma create_eq:
  assumes "c_calloc ok m = (Some b, m1)"
  shows "KineticLogInfo_Create ok (Some g) m =
    do { (r, v, m2) \<leftarrow> run_steps (log_steps ok g) no_locals m1;
         if r then Some (Some (b, lv_log v), m2) else do { m3 \<leftarrow> log_cleanup b v m2; Some (None, m3) } }"
  using assms by (simp add: KineticLogInfo_Create_def no_locals_def)

lemma create_success:
  assumes "mem_ok m" "KineticLogInfo_Create ok (Some g) m = Some (Some (b, l), m')" "exact \<longrightarrow> (\<forall>n. ok n)"
  shows "grown m m' (add_mset b (log_own l)) \<and> log_complete g \<and> strip_log exact l = log_copy exact g"
proof -
  obtain q m1 where q: "c_calloc ok m = (q, m1)" by fastforce
  with assms(2) obtain b' where b': "q = Some b'" by (cases q) (auto simp: KineticLogInfo_Create_def)
  note g1 = calloc_grown [OF assms(1) q]
  from grown_mem_ok [OF g1] assms(3) show ?thesis
  proof (cases rule: create_run [of m1 exact ok g])
    case (early v m2)
    with assms(2) create_eq [OF q [unfolded b']] show ?thesis by (simp add: bind_Some_iff)
  next
    case (late r v v' m2)
    with assms(2) create_eq [OF q [unfolded b']] have "r" "b' = b" "l = lv_log v'" "m' = m2"
      by (auto simp: bind_Some_iff split: if_splits)
    with late grown_trans [OF g1 late(2)] b' show ?thesis by (simp add: locals_own_def)
  qed
qed

text \<open>C22: A log that \<^verbatim>\<open>KineticLogInfo_Create\<close> returns is a faithful copy of the response's log: every count, value, string and
  byte array, each array with its length. Only two kinds of names may be missing, the names of temperatures and the name of the
  device, whose copies are not checked; when no allocation fails they are there too. \<^verbatim>\<open>KineticLogInfo_Free\<close> then frees each block of
  the tree exactly once and leaves the heap as it was before.\<close>

theorem log_copied_and_freed:
  assumes "mem_ok m" "KineticLogInfo_Create ok (Some g) m = Some (Some (b, l), m')"
  shows "strip_log False l = log_copy False g \<and> ((\<forall>n. ok n) \<longrightarrow> strip_log True l = log_copy True g) \<and>
    (\<exists>m''. KineticLogInfo_Free (Some (b, l)) m' = Some m'' \<and> mem_live m'' = mem_live m)"
proof -
  from create_success [OF assms, of False] have "grown m m' (add_mset b (log_own l))" "strip_log False l = log_copy False g" by auto
  moreover from log_free_grown [OF this(1) strip_log_counts [OF this(2)]]
  have "\<exists>m''. KineticLogInfo_Free (Some (b, l)) m' = Some m'' \<and> mem_live m'' = mem_live m" by (auto dest: grown_empty)
  moreover have "(\<forall>n. ok n) \<longrightarrow> strip_log True l = log_copy True g" using create_success [OF assms, of True] by auto
  ultimately show ?thesis by blast
qed

text \<open>A log with one utilization, one temperature and a configuration with one interface.\<close>

definition ex_getlog :: Proto_GetLog where
  "ex_getlog = \<lparr>gl_utilizations = [\<lparr>gu_name = Some ''HDA'', gu_value = 1\<rparr>],
     gl_temperatures = [\<lparr>gt_name = Some ''HDA'', gt_current = 4, gt_minimum = 2, gt_maximum = 5, gt_target = 3\<rparr>], gl_capacity = None,
     gl_configuration = Some \<lparr>gf_vendor = Some ''Seagate'', gf_model = Some ''Simulator'', gf_serialnumber = None, gf_worldwidename = None,
       gf_version = Some ''1'', gf_compilationdate = Some ''d'', gf_sourcehash = Some ''h'', gf_protocolversion = Some ''3'',
       gf_protocolcompilationdate = Some ''e'', gf_protocolsourcehash = Some ''i'',
       gf_interface = [\<lparr>gi_name = Some ''eth0'', gi_mac = Some [1, 2], gi_ipv4address = None, gi_ipv6address = None\<rparr>],
       gf_port = Some 8123, gf_tlsport = None\<rparr>,
     gl_statistics = [], gl_messages = [], gl_limits = None, gl_device = None\<rparr>"

definition ex_mem :: mem where "ex_mem = \<lparr>mem_next = 0, mem_live = {}\<rparr>"

lemma ex_mem_ok: "mem_ok ex_mem" by (simp add: mem_ok_def ex_mem_def)

lemma ex_creates: "map_option (\<lambda>r. fst r = None) (KineticLogInfo_Create (\<lambda>_. True) (Some ex_getlog) ex_mem) = Some False"
  by code_simp

theorem log_copied_and_freed_witness:
  "\<exists>b l m' m''. KineticLogInfo_Create (\<lambda>_. True) (Some ex_getlog) ex_mem = Some (Some (b, l), m') \<and>
     strip_log True l = log_copy True ex_getlog \<and> KineticLogInfo_Free (Some (b, l)) m' = Some m'' \<and> mem_live m'' = {}"
proof -
  from ex_creates obtain b l m' where c: "KineticLogInfo_Create (\<lambda>_. True) (Some ex_getlog) ex_mem = Some (Some (b, l), m')" by auto
  with log_copied_and_freed [OF ex_mem_ok c] show ?thesis by (auto simp: ex_mem_def)
qed

lemma utilization_leak:
  assumes "map strip_utilization xs = map utilization_copy us" "\<forall>u \<in> set us. gu_name u \<noteq> None"
  shows "size (opt_blocks (concat (map utilization_ptrs xs))) = length us"
  using assms
proof (induction us arbitrary: xs)
  case (Cons u us)
  then obtain x xs' where x: "xs = x # xs'" "strip_utilization x = utilization_copy u" "map strip_utilization xs' = map utilization_copy us"
    by (auto simp: map_eq_Cons_conv)
  from x(2) Cons.prems(2) obtain b s where "lu_name x = Some (b, s)"
    by (cases x; cases "lu_name x") (auto simp: strip_utilization_def utilization_copy_def)
  with x Cons show ?case by (simp add: utilization_ptrs_def)
qed simp

lemma configuration_leak:
  assumes "strip_configuration c = configuration_copy g" "configuration_complete g"
  shows "9 \<le> size (cfg_own c)"
proof -
  have str: "strip_cell p = cell0 s \<Longrightarrow> s \<noteq> None \<Longrightarrow> size (cell_blocks p) = 1" for p :: "string cell" and s
    by (cases p) auto
  have "Suc 0 \<le> size (array_own interface_ptrs (cfg_interfaces c))"
    using assms(1) by (auto simp: strip_configuration_def configuration_copy_def strip_as_eq array_own_def)
  with assms str show ?thesis
    by (simp add: strip_configuration_def configuration_copy_def configuration_complete_def cfg_own_def eq_commute [of None])
qed

text \<open>C30: How a failed copy ends. Suppose the structure itself is allocated. If no further allocation fails, the log is copied exactly when all
  utilizations are named, and the configuration, if there is one, has its eight strings and named interfaces; these strings
  are optional in the protocol, and without them the clean-up reads the pointer \<^verbatim>\<open>messages.data\<close> before it is set, as it does on every failure
  before the messages are copied. When \<^verbatim>\<open>KineticLogInfo_Create\<close> does return null, the names of all utilizations and the strings
  of the configuration are lost: at least that many blocks stay allocated.\<close>

theorem log_create_failures:
  assumes "mem_ok m" "ok (mem_next m)"
  shows "((\<forall>n. ok n) \<longrightarrow> (if log_complete g then \<exists>b l m'. KineticLogInfo_Create ok (Some g) m = Some (Some (b, l), m')
       else KineticLogInfo_Create ok (Some g) m = None)) \<and>
     (\<forall>m'. KineticLogInfo_Create ok (Some g) m = Some (None, m') \<longrightarrow> log_complete g \<and>
       length (gl_utilizations g) + (if gl_configuration g = None then 0 else 9) \<le> card (mem_live m' - mem_live m))"
proof -
  obtain b m1 where q: "c_calloc ok m = (Some b, m1)" using assms(2) by (simp add: c_calloc_def)
  note g1 = calloc_grown [OF assms(1) q]
  have "False \<longrightarrow> (\<forall>n. ok n)" by simp
  with grown_mem_ok [OF g1] show ?thesis
  proof (cases rule: create_run [of m1 False ok g])
    case (early v m2)
    then show ?thesis using create_eq [OF q] by (auto simp: log_cleanup_def)
  next
    case (late r v v' m2)
    have g2: "grown m m2 (add_mset b (locals_own v'))" using grown_trans [OF g1 late(2)] by simp
    from log_cleanup_grown [OF this late(3)] obtain m3 where
      m3: "log_cleanup b v' m2 = Some m3" "grown m m3 (log_inner (lv_log v'))" by blast
    from late(4) have u: "strip_as (map strip_utilization) (li_utilizations (lv_log v)) = Some (0, map utilization_copy (gl_utilizations g))"
      and c: "strip_as strip_configuration (li_configuration (lv_log v)) = cell0 (map_option configuration_copy (gl_configuration g))"
      by (cases v; simp add: strip_locals_def early_copy_def strip_log_def log_copy_def)+
    from u have "size (array_inner utilization_ptrs (li_utilizations (lv_log v))) = length (gl_utilizations g)"
      using utilization_leak late(5) by (auto simp: strip_as_eq array_inner_def inner_def log_complete_def)
    moreover have "(if gl_configuration g = None then 0 else 9) \<le> size (inner cfg_own (li_configuration (lv_log v)))"
      using c configuration_leak late(5) by (cases "gl_configuration g") (auto simp: strip_as_eq inner_def log_complete_def)
    ultimately have "length (gl_utilizations g) + (if gl_configuration g = None then 0 else 9) \<le> size (log_inner (lv_log v'))"
      using late(7,8) by (simp add: log_inner_def)
    with late m3(1) grown_card [OF m3(2)] create_eq [OF q] show ?thesis by auto
  qed
qed

text \<open>The same log, with the last allocation, that of the device, failing.\<close>

lemma ex_fails: "map_option (\<lambda>r. fst r = None) (KineticLogInfo_Create (\<lambda>n. n \<noteq> 20) (Some ex_getlog) ex_mem) = Some True"
  by code_simp

theorem log_create_failures_witness:
  "\<exists>m'. KineticLogInfo_Create (\<lambda>n. n \<noteq> 20) (Some ex_getlog) ex_mem = Some (None, m') \<and> 10 \<le> card (mem_live m')"
proof -
  from ex_fails obtain m' where c: "KineticLogInfo_Create (\<lambda>n. n \<noteq> 20) (Some ex_getlog) ex_mem = Some (None, m')" by auto
  have "((\<lambda>n. n \<noteq> 20) :: nat \<Rightarrow> bool) (mem_next ex_mem)" by (simp add: ex_mem_def)
  from log_create_failures [of ex_mem "\<lambda>n. n \<noteq> 20" ex_getlog, OF ex_mem_ok this] c
  have "length (gl_utilizations ex_getlog) + (if gl_configuration ex_getlog = None then 0 else 9) \<le> card (mem_live m' - mem_live ex_mem)"
    by blast
  with c show ?thesis by (auto simp: ex_getlog_def ex_mem_def)
qed

end
