(* ===== verification/Bus_Ssl.thy ===== *)
theory Bus_Ssl
  imports Bus_Poll
begin

text \<open>
  TLS connections (\<^verbatim>\<open>bus_ssl.c\<close>): the context of the bus, the blocking handshake and the life of a handle. OpenSSL is not
  part of the repository: what its calls answer are inputs. The handshake recurses on the list of answers of the outside
  world, one per round of its loop; a run that has not ended when the answers end is \<open>HS_Running\<close>.
\<close>

section \<open>The context\<close>

definition CIPHER_LIST_CFG :: string where
  "CIPHER_LIST_CFG = ''ECDH+AESGCM:DH+AESGCM:ECDH+AES256:DH+AES256:ECDH+AES128:DH+AES:'' @
     ''ECDH+3DES:DH+3DES:RSA+AESGCM:RSA+AES:RSA+3DES:!aNULL:!MD5:!DSS''"

text \<open>The stack of compression methods is emptied from the top, once per element it had at the start.\<close>

primrec pop_methods :: "nat \<Rightarrow> 'c list \<Rightarrow> 'c list" where
  "pop_methods 0 cs = cs"
| "pop_methods (Suc n) cs = pop_methods n (butlast cs)"

definition disable_SSL_compression :: "'c list \<Rightarrow> 'c list" where
  "disable_SSL_compression cs = pop_methods (length cs) cs"

record 'c ssl_library =
  sl_init :: bool \<comment> \<open>\<^verbatim>\<open>SSL_library_init\<close>\<close>
  sl_method :: bool \<comment> \<open>the TLS method exists\<close>
  sl_ctx_new :: "nat option" \<comment> \<open>\<^verbatim>\<open>SSL_CTX_new\<close>\<close>
  sl_set_ciphers :: "string \<Rightarrow> int" \<comment> \<open>\<^verbatim>\<open>SSL_CTX_set_cipher_list\<close>\<close>
  sl_compression :: "'c list" \<comment> \<open>the library's compression methods\<close>

definition disable_known_bad_ciphers :: "'c ssl_library \<Rightarrow> unit option" where
  "disable_known_bad_ciphers lib = c_assert (sl_set_ciphers lib CIPHER_LIST_CFG = 1)"

text \<open>The result: whether there is a context, the context, and the compression methods left.\<close>

definition init_client_SSL_CTX :: "'c ssl_library \<Rightarrow> (bool \<times> nat option \<times> 'c list) option" where
  "init_client_SSL_CTX lib =
     do { c_assert (sl_method lib);
          (case sl_ctx_new lib of
             None \<Rightarrow> Some (False, None, sl_compression lib)
           | Some ctx \<Rightarrow>
               do { let cs = disable_SSL_compression (sl_compression lib);
                    disable_known_bad_ciphers lib;
                    Some (True, Some ctx, cs) }) }"

text \<open>\<open>bctx\<close> is the field \<^verbatim>\<open>ssl_ctx\<close> of the bus, before and after.\<close>

definition BusSSL_Init :: "'c ssl_library \<Rightarrow> nat option \<Rightarrow> (bool \<times> nat option \<times> 'c list) option" where
  "BusSSL_Init lib bctx =
     (if \<not> sl_init lib then Some (False, bctx, sl_compression lib)
      else do { (ok, ctx, cs) \<leftarrow> init_client_SSL_CTX lib;
                if ok then Some (True, ctx, cs) else Some (False, bctx, cs) })"

text \<open>The context to free, if any, and the field afterwards; \<open>b\<close> is null or the bus's field.\<close>

definition BusSSL_CtxFree :: "nat option option \<Rightarrow> nat list \<times> nat option option" where
  "BusSSL_CtxFree b =
     (case b of Some (Some ctx) \<Rightarrow> ([ctx], Some None) | _ \<Rightarrow> ([], b))"

section \<open>The handshake\<close>

definition TIMEOUT_MSEC :: nat where "TIMEOUT_MSEC = 100"
definition MAX_TIMEOUT :: nat where "MAX_TIMEOUT = 10000"

datatype ssl_error = SSL_ERROR_WANT_WRITE | SSL_ERROR_WANT_READ | SSL_ERROR_SYSCALL errno | SSL_ERROR_OTHER int

text \<open>\<^verbatim>\<open>SSL_connect\<close> returns 1, 0, or a negative value, for which \<^verbatim>\<open>SSL_get_error\<close> is asked; \<open>SSL_ERROR_SYSCALL\<close> carries \<^verbatim>\<open>errno\<close>.\<close>

datatype ssl_connect = SC_One | SC_Zero | SC_Negative ssl_error

datatype ssl_round =
    SR_PollError errno
  | SR_Timeout
  | SR_Events bool bool bool ssl_connect
    \<comment> \<open>\<^verbatim>\<open>POLLIN\<close> or \<^verbatim>\<open>POLLOUT\<close>, \<^verbatim>\<open>POLLHUP\<close>, \<^verbatim>\<open>POLLERR\<close>, and what \<^verbatim>\<open>SSL_connect\<close> would return\<close>

text \<open>The events asked for: reading, writing.\<close>

type_synonym events = "bool \<times> bool"

datatype handshake = HS_Done bool | HS_Abort | HS_Running nat events

text \<open>What a round does to the events asked for; \<open>None\<close> is the failing assertion.\<close>

fun connect_events :: "ssl_error \<Rightarrow> events \<Rightarrow> events option" where
  "connect_events SSL_ERROR_WANT_WRITE ev = Some (False, True)"
| "connect_events SSL_ERROR_WANT_READ ev = Some (True, False)"
| "connect_events (SSL_ERROR_SYSCALL e) ev = (if Util_IsResumableIOError e then Some ev else Some ev)"
| "connect_events (SSL_ERROR_OTHER n) ev = None"

fun connection_loop :: "ssl_round list \<Rightarrow> nat \<Rightarrow> events \<Rightarrow> handshake" where
  "connection_loop [] elapsed ev = HS_Running elapsed ev"
| "connection_loop (SR_PollError e # rs) elapsed ev =
     (if Util_IsResumableIOError e then connection_loop rs elapsed ev else HS_Abort)"
| "connection_loop (SR_Timeout # rs) elapsed ev =
     (let elapsed' = elapsed + TIMEOUT_MSEC
      in if elapsed' > MAX_TIMEOUT then HS_Done False else connection_loop rs elapsed' ev)"
| "connection_loop (SR_Events io hup err res # rs) elapsed ev =
     (if io then
        (case res of
           SC_One \<Rightarrow> HS_Done True
         | SC_Negative reason \<Rightarrow>
             (case connect_events reason ev of None \<Rightarrow> HS_Abort | Some ev' \<Rightarrow> connection_loop rs elapsed ev')
         | SC_Zero \<Rightarrow> connection_loop rs elapsed (True, True))
      else if hup then HS_Done False
      else if err then HS_Done False
      else connection_loop rs elapsed ev)"

definition do_blocking_connection :: "ssl_round list \<Rightarrow> handshake" where
  "do_blocking_connection rounds = connection_loop rounds 0 (False, True)"

section \<open>Handles\<close>

text \<open>\<open>new\<close> is the handle \<^verbatim>\<open>SSL_new\<close> gives, \<open>live\<close> the handles not freed. The result is the handle returned and the handles then live, \<open>Inl\<close> when
  the handshake does not end.\<close>

definition BusSSL_Connect :: "nat option \<Rightarrow> bool \<Rightarrow> ssl_round list \<Rightarrow> nat set \<Rightarrow> handshake + (nat option \<times> nat set)" where
  "BusSSL_Connect new set_fd rounds live =
     (case new of
        None \<Rightarrow> Inr (None, live)
      | Some ssl \<Rightarrow>
          let live1 = insert ssl live in
          if \<not> set_fd then Inr (None, live1)
          else (case do_blocking_connection rounds of
                  HS_Done connected \<Rightarrow> if connected then Inr (Some ssl, live1) else Inr (None, live1 - {ssl})
                | hs \<Rightarrow> Inl hs))"

definition BusSSL_Disconnect :: "nat \<Rightarrow> nat set \<Rightarrow> bool \<times> nat set" where
  "BusSSL_Disconnect ssl live = (True, live - {ssl})"

section \<open>Properties\<close>

lemma compression_disabled: "disable_SSL_compression cs = []"
proof -
  have "length (pop_methods n xs) = length xs - n" for n and xs :: "'a list"
    by (induction n arbitrary: xs) auto
  then show ?thesis by (metis diff_self_eq_0 disable_SSL_compression_def length_0_conv)
qed

text \<open>An initialised context has been restricted: no compression is left, and the library accepted the cipher list.\<close>

lemma init_restricts:
  "BusSSL_Init lib bctx = Some (True, ctx, cs) \<Longrightarrow> ctx = sl_ctx_new lib \<and> ctx \<noteq> None \<and> cs = [] \<and> sl_set_ciphers lib CIPHER_LIST_CFG = 1"
  by (cases "sl_ctx_new lib") (auto simp: BusSSL_Init_def init_client_SSL_CTX_def disable_known_bad_ciphers_def compression_disabled
      Let_def c_assert_def bind_Some_iff dest: sym split: if_splits)

text \<open>A round that leaves the loop running and how it adds to the time.\<close>

definition idle_round :: "ssl_round \<Rightarrow> bool" where
  "idle_round r =
     (case r of
        SR_PollError e \<Rightarrow> Util_IsResumableIOError e
      | SR_Timeout \<Rightarrow> True
      | SR_Events io hup err res \<Rightarrow>
          if io then (case res of SC_One \<Rightarrow> False | SC_Zero \<Rightarrow> True | SC_Negative (SSL_ERROR_OTHER n) \<Rightarrow> False | _ \<Rightarrow> True)
          else \<not> hup \<and> \<not> err)"

definition timeouts :: "ssl_round list \<Rightarrow> nat" where
  "timeouts rs = length (filter (\<lambda>r. r = SR_Timeout) rs)"

lemma timeouts_simps [simp]: "timeouts [] = 0" "timeouts (SR_Timeout # rs) = Suc (timeouts rs)"
    "r \<noteq> SR_Timeout \<Longrightarrow> timeouts (r # rs) = timeouts rs"
  by (simp_all add: timeouts_def)

text \<open>The result of the round that ends the loop.\<close>

fun round_result :: "ssl_round \<Rightarrow> handshake" where
  "round_result (SR_PollError e) = HS_Abort"
| "round_result SR_Timeout = HS_Done False"
| "round_result (SR_Events io hup err res) = (if io then (if res = SC_One then HS_Done True else HS_Abort) else HS_Done False)"

lemma connection_loop_idle:
  assumes "\<forall>r \<in> set rs. idle_round r" "elapsed + timeouts rs * TIMEOUT_MSEC \<le> MAX_TIMEOUT"
  shows "\<exists>ev'. connection_loop (rs @ rest) elapsed ev = connection_loop rest (elapsed + timeouts rs * TIMEOUT_MSEC) ev'"
  using assms
proof (induction rs arbitrary: elapsed ev)
  case (Cons r rs)
  have next_round: "\<exists>ev1. connection_loop ((r # rs) @ rest) elapsed ev =
      connection_loop (rs @ rest) (elapsed + (if r = SR_Timeout then TIMEOUT_MSEC else 0)) ev1"
  proof (cases r)
    case (SR_Events io hup err res)
    with Cons.prems(1) show ?thesis
      by (cases res; cases ev) (auto simp: idle_round_def split: ssl_error.splits if_splits)
  qed (use Cons.prems in \<open>cases ev; auto simp: idle_round_def Let_def\<close>)+
  have "elapsed + (if r = SR_Timeout then TIMEOUT_MSEC else 0) + timeouts rs * TIMEOUT_MSEC = elapsed + timeouts (r # rs) * TIMEOUT_MSEC"
    by simp
  with next_round Cons.IH [of "elapsed + (if r = SR_Timeout then TIMEOUT_MSEC else 0)"] Cons.prems show ?case by fastforce
qed auto

lemma connection_loop_ends:
  assumes "\<not> idle_round r \<or> r = SR_Timeout \<and> elapsed + TIMEOUT_MSEC > MAX_TIMEOUT"
  shows "connection_loop (r # rest) elapsed ev = round_result r"
  using assms by (cases r) (auto simp: idle_round_def Let_def split: ssl_connect.splits ssl_error.splits if_splits)

lemma rounds_cases:
  obtains "\<forall>r \<in> set rounds. idle_round r" "timeouts rounds \<le> n"
  | rs r rest where "rounds = rs @ r # rest" "\<forall>r \<in> set rs. idle_round r" "timeouts rs \<le> n"
      "\<not> idle_round r \<or> r = SR_Timeout \<and> timeouts rs = n"
proof -
  have "(\<forall>r \<in> set rounds. idle_round r) \<and> timeouts rounds \<le> n \<or>
      (\<exists>rs r rest. rounds = rs @ r # rest \<and> (\<forall>r \<in> set rs. idle_round r) \<and> timeouts rs \<le> n \<and>
         (\<not> idle_round r \<or> r = SR_Timeout \<and> timeouts rs = n))"
  proof (induction rounds rule: rev_induct)
    case (snoc r rounds)
    show ?case
    proof (cases "(\<forall>r \<in> set rounds. idle_round r) \<and> timeouts rounds \<le> n")
      case True
      have "timeouts (rounds @ [r]) = timeouts rounds + (if r = SR_Timeout then 1 else 0)" by (simp add: timeouts_def)
      with True show ?thesis by (cases "idle_round r \<and> (r = SR_Timeout \<longrightarrow> timeouts rounds < n)") fastforce+
    next
      case False
      with snoc.IH show ?thesis by fastforce
    qed
  qed simp
  with that show thesis by blast
qed

lemma failed_connection_spins:
  "\<exists>ev. do_blocking_connection (replicate n (SR_Events True hup err (SC_Negative (SSL_ERROR_SYSCALL EOTHER)))) = HS_Running 0 ev"
proof -
  let ?rs = "replicate n (SR_Events True hup err (SC_Negative (SSL_ERROR_SYSCALL EOTHER)))"
  have "timeouts ?rs = 0" by (induction n) simp_all
  then show ?thesis using connection_loop_idle [of ?rs 0 "[]" "(False, True)"]
    by (auto simp: do_blocking_connection_def idle_round_def TIMEOUT_MSEC_def MAX_TIMEOUT_def)
qed

lemma handshake_fate:
  "(\<exists>ev. (\<forall>r \<in> set rounds. idle_round r) \<and> timeouts rounds \<le> 100 \<and>
      do_blocking_connection rounds = HS_Running (100 * timeouts rounds) ev) \<or>
   (\<exists>rs r rest. rounds = rs @ r # rest \<and> (\<forall>r \<in> set rs. idle_round r) \<and> timeouts rs \<le> 100 \<and>
      (\<not> idle_round r \<or> r = SR_Timeout \<and> timeouts rs = 100) \<and> do_blocking_connection rounds = round_result r)"
proof (cases rule: rounds_cases [of rounds 100])
  case 1
  with connection_loop_idle [of rounds 0 "[]" "(False, True)"] show ?thesis
    by (auto simp: do_blocking_connection_def TIMEOUT_MSEC_def MAX_TIMEOUT_def)
next
  case (2 rs r rest)
  from connection_loop_idle [of rs 0 "r # rest" "(False, True)"] 2 obtain ev where
    "do_blocking_connection rounds = connection_loop (r # rest) (timeouts rs * 100) ev"
    by (auto simp: do_blocking_connection_def TIMEOUT_MSEC_def MAX_TIMEOUT_def)
  moreover have "connection_loop (r # rest) (timeouts rs * 100) ev = round_result r"
    using 2(4) by (intro connection_loop_ends) (auto simp: TIMEOUT_MSEC_def MAX_TIMEOUT_def)
  ultimately have "do_blocking_connection rounds = round_result r" by simp
  with 2 show ?thesis by blast
qed

text \<open>C20: How the blocking TLS handshake ends. It runs on through rounds in which nothing is decided, for as long as no more than
  a hundred polls time out; the first decisive round, or the 101st time-out, gives the result: connected when \<^verbatim>\<open>SSL_connect\<close> returns 1, refused on a hang-up,
  an error event or the time-out, and an aborted process when \<^verbatim>\<open>poll\<close> fails for good or OpenSSL reports a protocol error. Every list of
  rounds is of one of the two forms. In particular a handshake on a connection that has failed (\<^verbatim>\<open>SSL_ERROR_SYSCALL\<close> with an error that is not resumable)
  never returns, however long it is given.\<close>

theorem handshake_outcome:
  "((\<exists>ev. (\<forall>r \<in> set rounds. idle_round r) \<and> timeouts rounds \<le> 100 \<and>
      do_blocking_connection rounds = HS_Running (100 * timeouts rounds) ev) \<or>
   (\<exists>rs r rest. rounds = rs @ r # rest \<and> (\<forall>r \<in> set rs. idle_round r) \<and> timeouts rs \<le> 100 \<and>
      (\<not> idle_round r \<or> r = SR_Timeout \<and> timeouts rs = 100) \<and> do_blocking_connection rounds = round_result r)) \<and>
   (\<exists>ev. do_blocking_connection (replicate n (SR_Events True hup err (SC_Negative (SSL_ERROR_SYSCALL EOTHER)))) = HS_Running 0 ev)"
  by (rule conjI [OF handshake_fate failed_connection_spins])

text \<open>Two undecided rounds and a time-out, then the connection.\<close>

definition ex_rounds :: "ssl_round list" where
  "ex_rounds = [SR_Events True False False (SC_Negative SSL_ERROR_WANT_READ), SR_Timeout, SR_Events True False False SC_Zero,
     SR_Events True False False SC_One]"

theorem handshake_outcome_witness:
  "\<exists>rs r rest. ex_rounds = rs @ r # rest \<and> (\<forall>r \<in> set rs. idle_round r) \<and> timeouts rs \<le> 100 \<and> round_result r = HS_Done True"
proof -
  have "do_blocking_connection ex_rounds = HS_Done True" by code_simp
  with handshake_outcome [of ex_rounds 0 False False] show ?thesis by (metis handshake.distinct(3))
qed

text \<open>Handles: the one returned is the only one added, and disconnecting it restores the rest; a refused handshake frees its handle. Only
  a failed \<^verbatim>\<open>SSL_set_fd\<close> leaves a handle behind.\<close>

lemma connect_handles:
  assumes "BusSSL_Connect new set_fd rounds live = Inr (h, live')" "\<forall>x. new = Some x \<longrightarrow> x \<notin> live"
  shows "(\<forall>x. h = Some x \<longrightarrow> new = Some x \<and> live' = insert x live \<and> snd (BusSSL_Disconnect x live') = live)"
    "h = None \<Longrightarrow> set_fd \<or> new = None \<Longrightarrow> live' = live"
    "h = None \<Longrightarrow> \<not> set_fd \<Longrightarrow> new = Some x \<Longrightarrow> live' = insert x live"
  using assms by (auto simp: BusSSL_Connect_def BusSSL_Disconnect_def Let_def split: option.splits if_splits handshake.splits)

end
