(* ===== verification/Kinetic_Socket.thy ===== *)
theory Kinetic_Socket
  imports Prelude
begin

text \<open>
  Plain sockets (\<^verbatim>\<open>kinetic_socket.c\<close>) on a Linux target, where \<^verbatim>\<open>SO_NOSIGPIPE\<close> does not exist and \<^verbatim>\<open>TCP_CORK\<close> does. What the
  operating system and the \<^verbatim>\<open>socket99\<close> library answer are inputs; the system calls made are events, from which the open
  descriptors follow.
\<close>

definition KINETIC_SOCKET_DESCRIPTOR_INVALID :: int where "KINETIC_SOCKET_DESCRIPTOR_INVALID = -1"
text \<open>The size of an object, \<^verbatim>\<open>KINETIC_OBJ_SIZE\<close>.\<close>

definition SOCKET_BUFFER_SIZE :: int where "SOCKET_BUFFER_SIZE = 1024 * 1024"

datatype sock_event =
    Sock_Open int
  | Sock_Close int
  | Sock_NoDelay int
  | Sock_Sndbuf int int
  | Sock_Rcvbuf int int
  | Sock_Cork int bool
  | Sock_FreeAddrinfo

fun open_after :: "sock_event list \<Rightarrow> int set \<Rightarrow> int set" where
  "open_after [] fds = fds"
| "open_after (Sock_Open fd # evs) fds = open_after evs (insert fd fds)"
| "open_after (Sock_Close fd # evs) fds = open_after evs (fds - {fd})"
| "open_after (_ # evs) fds = open_after evs fds"

definition KineticSocket_EnableTCPNoDelay :: "int \<Rightarrow> sock_event list" where
  "KineticSocket_EnableTCPNoDelay fd = [Sock_NoDelay fd]"

text \<open>The loop over the addresses: each pair says whether setting the send and the receive buffer succeeds. The
  result is whether the loop left before the end of the list.\<close>

fun set_buffers :: "int \<Rightarrow> (bool \<times> bool) list \<Rightarrow> bool \<times> sock_event list" where
  "set_buffers fd [] = (False, [])"
| "set_buffers fd ((snd_ok, rcv_ok) # ais) =
     (if \<not> snd_ok then (case set_buffers fd ais of (found, evs) \<Rightarrow> (found, Sock_Sndbuf fd SOCKET_BUFFER_SIZE # evs))
      else if \<not> rcv_ok then
        (case set_buffers fd ais of (found, evs) \<Rightarrow> (found, Sock_Sndbuf fd SOCKET_BUFFER_SIZE # Sock_Rcvbuf fd SOCKET_BUFFER_SIZE # evs))
      else (True, [Sock_Sndbuf fd SOCKET_BUFFER_SIZE, Sock_Rcvbuf fd SOCKET_BUFFER_SIZE]))"

text \<open>\<open>opened\<close> is the descriptor \<^verbatim>\<open>socket99_open\<close> gives, \<open>ais\<close> the addresses \<^verbatim>\<open>getaddrinfo\<close> finds.\<close>

definition KineticSocket_Connect :: "int option \<Rightarrow> (bool \<times> bool) list option \<Rightarrow> int \<times> sock_event list" where
  "KineticSocket_Connect opened ais =
     (case opened of
        None \<Rightarrow> (KINETIC_SOCKET_DESCRIPTOR_INVALID, [])
      | Some fd \<Rightarrow>
          (case ais of
             None \<Rightarrow> (KINETIC_SOCKET_DESCRIPTOR_INVALID, [Sock_Open fd, Sock_Close fd])
           | Some as \<Rightarrow>
               (case set_buffers fd as of (found, evs) \<Rightarrow>
                  let all = Sock_Open fd # KineticSocket_EnableTCPNoDelay fd @ evs @ [Sock_FreeAddrinfo] in
                  if \<not> found \<or> fd = KINETIC_SOCKET_DESCRIPTOR_INVALID then (KINETIC_SOCKET_DESCRIPTOR_INVALID, all)
                  else (fd, all))))"

definition KineticSocket_Close :: "int \<Rightarrow> sock_event list" where
  "KineticSocket_Close fd = (if fd = -1 then [] else [Sock_Close fd])"

definition KineticSocket_BeginPacket :: "int \<Rightarrow> sock_event list" where
  "KineticSocket_BeginPacket fd = [Sock_Cork fd True]"

definition KineticSocket_FinishPacket :: "int \<Rightarrow> sock_event list" where
  "KineticSocket_FinishPacket fd = [Sock_Cork fd False]"

lemma open_after_append [simp]: "open_after (xs @ ys) fds = open_after ys (open_after xs fds)"
  by (induction xs fds rule: open_after.induct) simp_all

lemma set_buffers_open: "set_buffers fd as = (found, evs) \<Longrightarrow> open_after evs fds = fds"
proof (induction fd as arbitrary: found evs rule: set_buffers.induct)
  case (2 fd s r ais)
  obtain f es where rec: "set_buffers fd ais = (f, es)" by fastforce
  show ?case
  proof (cases "s \<and> r")
    case True
    with 2(3) show ?thesis by auto
  next
    case False
    with 2(1,2) rec have "open_after es fds = fds" by blast
    moreover have "evs = Sock_Sndbuf fd SOCKET_BUFFER_SIZE # es \<or> evs = Sock_Sndbuf fd SOCKET_BUFFER_SIZE # Sock_Rcvbuf fd SOCKET_BUFFER_SIZE # es"
      using False 2(3) rec by (simp split: if_splits)
    ultimately show ?thesis by (elim disjE) simp_all
  qed
qed simp

lemma set_buffers_found:
  "set_buffers fd as = (found, evs) \<Longrightarrow>
     (found \<longleftrightarrow> (True, True) \<in> set as) \<and>
     (found \<longrightarrow> (\<exists>pre. evs = pre @ [Sock_Sndbuf fd SOCKET_BUFFER_SIZE, Sock_Rcvbuf fd SOCKET_BUFFER_SIZE]))"
proof (induction fd as arbitrary: found evs rule: set_buffers.induct)
  case (2 fd s r ais)
  obtain f es where rec: "set_buffers fd ais = (f, es)" by fastforce
  show ?case
  proof (cases "s \<and> r")
    case True
    with 2(3) show ?thesis by auto
  next
    case False
    with 2(1,2) rec have "(f \<longleftrightarrow> (True, True) \<in> set ais) \<and>
        (f \<longrightarrow> (\<exists>pre. es = pre @ [Sock_Sndbuf fd SOCKET_BUFFER_SIZE, Sock_Rcvbuf fd SOCKET_BUFFER_SIZE]))" by blast
    with False 2(3) rec show ?thesis by (auto split: if_splits)
  qed
qed auto

text \<open>C36: Connecting leaves one descriptor open when it returns it and none when it reports failure, with one exception: when the name
  resolves but no address takes the buffer sizes, the call reports failure and the descriptor stays open. A descriptor that is
  returned has Nagle's algorithm switched off and both buffers set to the size of an object, and closing it restores the open descriptors.\<close>

theorem socket_connect_outcome:
  assumes "KineticSocket_Connect opened ais = (r, evs)" "\<forall>fd. opened = Some fd \<longrightarrow> fd \<ge> 0 \<and> fd \<notin> fds"
  shows "(r \<ge> 0 \<longrightarrow> opened = Some r \<and> open_after evs fds = insert r fds \<and> open_after (evs @ KineticSocket_Close r) fds = fds \<and>
       {Sock_NoDelay r, Sock_Sndbuf r SOCKET_BUFFER_SIZE, Sock_Rcvbuf r SOCKET_BUFFER_SIZE} \<subseteq> set evs) \<and>
     (r < 0 \<longrightarrow> r = -1 \<and> open_after evs fds =
        (case (opened, ais) of (Some fd, Some as) \<Rightarrow> insert fd fds | _ \<Rightarrow> fds)) \<and>
     (r \<ge> 0 \<longleftrightarrow> opened \<noteq> None \<and> (\<exists>as. ais = Some as \<and> (True, True) \<in> set as))"
proof (cases "opened = None \<or> ais = None")
  case True
  with assms show ?thesis by (auto simp: KineticSocket_Connect_def KINETIC_SOCKET_DESCRIPTOR_INVALID_def split: option.splits)
next
  case False
  then obtain fd as where o: "opened = Some fd" "ais = Some as" by auto
  obtain found es where b: "set_buffers fd as = (found, es)" by fastforce
  have fd: "fd \<ge> 0" "fd \<notin> fds" using assms(2) o by auto
  have "r = (if found then fd else -1)" "evs = Sock_Open fd # Sock_NoDelay fd # es @ [Sock_FreeAddrinfo]"
    using assms(1) o b fd
    by (auto simp: KineticSocket_Connect_def KINETIC_SOCKET_DESCRIPTOR_INVALID_def KineticSocket_EnableTCPNoDelay_def Let_def split: if_splits)
  with set_buffers_found [OF b] set_buffers_open [OF b] o fd show ?thesis by (auto simp: KineticSocket_Close_def)
qed

theorem socket_connect_outcome_witness:
  "KineticSocket_Connect (Some 7) (Some [(True, False)]) =
     (-1, [Sock_Open 7, Sock_NoDelay 7, Sock_Sndbuf 7 1048576, Sock_Rcvbuf 7 1048576, Sock_FreeAddrinfo]) \<and>
   open_after (snd (KineticSocket_Connect (Some 7) (Some [(True, False)]))) {3} = {3, 7}"
proof -
  have c: "KineticSocket_Connect (Some 7) (Some [(True, False)]) =
     (-1, [Sock_Open 7, Sock_NoDelay 7, Sock_Sndbuf 7 1048576, Sock_Rcvbuf 7 1048576, Sock_FreeAddrinfo])" by code_simp
  then show ?thesis using socket_connect_outcome [OF c, of "{3}"] by (simp add: insert_commute)
qed

end
