(* ===== verification/Kinetic_Logger.thy ===== *)
theory Kinetic_Logger
  imports Pdu Kinetic_Types
begin

text \<open>
  The log (\<^verbatim>\<open>kinetic_logger.c\<close>): levels and targets, the shared line buffer, dumps of byte arrays and the recursive dump of a
  protobuf message with its indentation, a static array of 64 characters. The time stamp in front of each line is left out. A line is
  the text \<^verbatim>\<open>printf\<close> makes of its arguments; \<open>None\<close> is undefined behaviour: a null string or descriptor, an index out of bounds.
\<close>

section \<open>State\<close>

datatype log_target = Log_Stdout | Log_File string

record logger =
  lg_level :: int
  lg_handle :: "log_target option"
  lg_indent :: string
  lg_overflow :: nat
  lg_out :: "string list" \<comment> \<open>lines written to the handle\<close>
  lg_console :: "string list" \<comment> \<open>lines written with \<^verbatim>\<open>printf\<close>\<close>
  lg_closed :: "string list" \<comment> \<open>files closed\<close>

definition BUFFER_SIZE :: nat where "BUFFER_SIZE = 1024"
definition BUFFER_MAX_STRLEN :: nat where "BUFFER_MAX_STRLEN = BUFFER_SIZE - 2"
definition LOG_INDENT :: string where "LOG_INDENT = ''  ''"
definition INDENT_SIZE :: nat where "INDENT_SIZE = 64"
definition max_indent :: nat where "max_indent = INDENT_SIZE - 3"

definition is_level_enabled :: "int \<Rightarrow> logger \<Rightarrow> bool" where
  "is_level_enabled log_level l \<longleftrightarrow> log_level \<le> lg_level l \<and> lg_level l \<ge> 0"

section \<open>Lines\<close>

text \<open>Numbers as \<^verbatim>\<open>printf\<close> writes them.\<close>

fun dec_nat :: "nat \<Rightarrow> string" where
  "dec_nat n = (if n < 10 then [char_of (48 + n)] else dec_nat (n div 10) @ [char_of (48 + n mod 10)])"

declare dec_nat.simps [simp del]

definition dec :: "int \<Rightarrow> string" where
  "dec i = (if i < 0 then CHR ''-'' # dec_nat (nat (- i)) else dec_nat (nat i))"

text \<open>\<^verbatim>\<open>vsnprintf\<close> stores at most \<open>BUFFER_MAX_STRLEN - 1\<close> characters and a terminator; for a longer text the code then writes a terminator
  behind that one. The newline is appended in the same buffer.\<close>

definition log_buffer :: "string \<Rightarrow> string option" where
  "log_buffer msg =
     do { let s = take (BUFFER_MAX_STRLEN - 1) msg;
          c_assert (length s < BUFFER_SIZE);
          let line = s @ [CHR 0x0A];
          c_assert (length line < BUFFER_SIZE);
          Some line }"

text \<open>\<open>msg\<close> is the formatted text, \<open>None\<close> for a null format.\<close>

definition KineticLogger_LogPrintf :: "int \<Rightarrow> string option \<Rightarrow> logger \<Rightarrow> logger option" where
  "KineticLogger_LogPrintf log_level msg l =
     (if lg_handle l = None then Some l
      else case msg of
        None \<Rightarrow> Some l
      | Some m \<Rightarrow>
          if \<not> is_level_enabled log_level l then Some l
          else do { line \<leftarrow> log_buffer m; Some (l\<lparr>lg_out := lg_out l @ [line]\<rparr>) })"

definition KineticLogger_Log :: "int \<Rightarrow> string \<Rightarrow> logger \<Rightarrow> logger option" where
  "KineticLogger_Log log_level message = KineticLogger_LogPrintf log_level (Some message)"

text \<open>Only four characters of the file name are compared.\<close>

definition KineticLogger_Init :: "string \<Rightarrow> string option \<Rightarrow> int \<Rightarrow> bool \<Rightarrow> logger \<Rightarrow> logger option" where
  "KineticLogger_Init version log_file log_level fopen_ok l =
     (let l0 = l\<lparr>lg_level := -1, lg_handle := None\<rparr> in
      case log_file of
        None \<Rightarrow> Some (l0\<lparr>lg_console := lg_console l0 @ [''Logging kinetic-c output is disabled!'']\<rparr>)
      | Some f \<Rightarrow>
          do { let l1 = l0\<lparr>lg_level := log_level\<rparr>;
               let say = (\<lambda>target l. if log_level > 0
                   then l\<lparr>lg_console := lg_console l @ [''Logging kinetic-c output to '' @ target @ '' w/ log_level='' @ dec log_level]\<rparr> else l);
               l2 \<leftarrow> (if take 4 f = ''stdo'' \<or> take 4 f = ''STDO'' then Some ((say ''console (stdout)'' l1)\<lparr>lg_handle := Some Log_Stdout\<rparr>)
                     else do { c_assert fopen_ok; Some ((say f l1)\<lparr>lg_handle := Some (Log_File f)\<rparr>) });
               KineticLogger_LogPrintf 1 (Some version) l2 })"

definition KineticLogger_Close :: "logger \<Rightarrow> logger" where
  "KineticLogger_Close l =
     (case lg_handle l of
        Some h \<Rightarrow>
          if lg_level l \<ge> 0 then
            l\<lparr>lg_handle := None, lg_closed := lg_closed l @ (case h of Log_Stdout \<Rightarrow> [] | Log_File f \<Rightarrow> [f])\<rparr>
          else l
      | None \<Rightarrow> l)"

section \<open>Bytes\<close>

definition hex_digit :: "nat \<Rightarrow> char" where
  "hex_digit c = char_of (if c \<ge> 10 then c + (65 - 48 - 10) + 48 else c + 48)"

text \<open>The loop writes from the right: the low digit, then the high one.\<close>

definition bytetoa :: "u8 \<Rightarrow> string" where
  "bytetoa v = [hex_digit (unat v div 16 mod 16), hex_digit (unat v mod 16)]"

primrec slice_loop :: "nat \<Rightarrow> u8 list \<Rightarrow> nat \<Rightarrow> string option" where
  "slice_loop 0 bytes i = Some []"
| "slice_loop (Suc n) bytes i =
     do { c_assert (i < length bytes);
          rest \<leftarrow> slice_loop n bytes (Suc i);
          Some (CHR 0x5C # bytetoa (bytes ! i) @ rest) }"

text \<open>The text and its length.\<close>

definition KineticLogger_ByteArraySliceToCString :: "u8 list \<Rightarrow> nat \<Rightarrow> nat \<Rightarrow> (string \<times> nat) option" where
  "KineticLogger_ByteArraySliceToCString bytes start count =
     do { s \<leftarrow> slice_loop count bytes start; Some (s, length s) }"

definition printable_char :: "u8 \<Rightarrow> char" where
  "printable_char b = (if 32 \<le> unat b \<and> unat b \<le> 126 then char_of (unat b) else CHR ''.'')"

definition bytesPerLine :: nat where "bytesPerLine = 32"
definition lineLen :: nat where "lineLen = 4 + bytesPerLine * 4"

text \<open>One line of a dump: the bytes in hexadecimal and as text, each in an array of \<open>lineLen + 1\<close> characters.\<close>

definition dump_line :: "string \<Rightarrow> u8 list \<Rightarrow> string option" where
  "dump_line title bs =
     (let hex = concat (map bytetoa bs); ascii = map printable_char bs in
      do { c_assert (length hex < lineLen + 1); c_assert (length ascii < lineLen + 1);
           Some (title @ '':  '' @ hex @ '' : '' @ ascii) })"

function dump_lines :: "int \<Rightarrow> string \<Rightarrow> u8 list \<Rightarrow> logger \<Rightarrow> logger option" where
  "dump_lines log_level title bs l =
     (if bs = [] then Some l
      else do { line \<leftarrow> dump_line title (take bytesPerLine bs);
                l1 \<leftarrow> KineticLogger_LogPrintf log_level (Some line) l;
                dump_lines log_level title (drop bytesPerLine bs) l1 })"
  by auto
termination by (relation "measure (\<lambda>(_, _, bs, _). length bs)") (auto simp: bytesPerLine_def)

declare dump_lines.simps [simp del]

definition KineticLogger_LogByteArray :: "int \<Rightarrow> string option \<Rightarrow> u8 list option \<Rightarrow> logger \<Rightarrow> logger option" where
  "KineticLogger_LogByteArray log_level title bytes l =
     (case title of
        None \<Rightarrow> Some l
      | Some t \<Rightarrow>
          if \<not> is_level_enabled log_level l then Some l
          else (case bytes of
                  None \<Rightarrow> KineticLogger_LogPrintf log_level (Some (t @ '': (??? bytes : buffer is NULL)'')) l
                | Some bs \<Rightarrow>
                    do { l1 \<leftarrow> KineticLogger_LogPrintf log_level (Some (t @ '': ('' @ dec (int (length bs)) @ '' bytes)'')) l;
                         dump_lines log_level t bs l1 }))"

definition KineticLogger_LogByteBuffer :: "int \<Rightarrow> string option \<Rightarrow> u8 list option \<Rightarrow> nat \<Rightarrow> logger \<Rightarrow> logger option" where
  "KineticLogger_LogByteBuffer log_level title array used l =
     (if title = None \<or> \<not> is_level_enabled log_level l then Some l
      else do { c_assert (\<forall>bs. array = Some bs \<longrightarrow> used \<le> length bs);
                KineticLogger_LogByteArray log_level title (map_option (take used) array) l })"

definition KineticLogger_LogLocation :: "string option \<Rightarrow> int \<Rightarrow> string option \<Rightarrow> logger \<Rightarrow> logger option" where
  "KineticLogger_LogLocation filename line message l =
     (case (filename, message) of
        (Some f, Some m) \<Rightarrow>
          let txt = ''[@'' @ f @ '':'' @ dec line @ ''] '' @ m in
          if lg_level l \<ge> 0 then KineticLogger_LogPrintf 1 (Some txt) l
          else Some (l\<lparr>lg_console := lg_console l @ [txt]\<rparr>)
      | _ \<Rightarrow> Some l)"

text \<open>The lengths are printed as signed integers.\<close>

definition KineticLogger_LogHeader :: "int \<Rightarrow> KineticPDUHeader option \<Rightarrow> logger \<Rightarrow> logger option" where
  "KineticLogger_LogHeader log_level header l =
     (case header of
        None \<Rightarrow> Some l
      | Some h \<Rightarrow>
          if \<not> is_level_enabled log_level l then Some l
          else do { l1 \<leftarrow> KineticLogger_Log log_level ''PDU Header:'' l;
                    l2 \<leftarrow> KineticLogger_LogPrintf log_level (Some (''  versionPrefix: '' @ [char_of (unat (versionPrefix h))])) l1;
                    l3 \<leftarrow> KineticLogger_LogPrintf log_level (Some (''  protobufLength: '' @ dec (sint (protobufLength h)))) l2;
                    KineticLogger_LogPrintf log_level (Some (''  valueLength: '' @ dec (sint (valueLength h)))) l3 })"

section \<open>Messages\<close>

text \<open>A message as its descriptor presents it. Numbers carry their value; a floating point number the text \<^verbatim>\<open>%f\<close> gives. An
  enumeration carries the name its descriptor has for the value, if any. The byte string of the field \<^verbatim>\<open>commandBytes\<close> carries the command
  the protobuf decoder makes of it. The mark of an optional field is the byte at its quantifier offset, which for strings and messages is not a
  presence flag but the first byte of the message itself.\<close>

datatype pb_value =
    PB_Number int
  | PB_Float string
  | PB_Bool bool
  | PB_String "string option"
  | PB_Bytes "u8 list option"
  | PB_Enum "string option"
  | PB_NullMessage
  | PB_Message "pb_field list"
  | PB_CommandBytes "u8 list option" "pb_field list option"
  | PB_Invalid
and pb_field =
    PB_Required string pb_value
  | PB_Optional string bool pb_value
  | PB_Repeated string "pb_value list"

definition push_indent :: "logger \<Rightarrow> logger option" where
  "push_indent l =
     (if length (lg_indent l) < max_indent
      then do { c_assert (length (lg_indent l @ LOG_INDENT) < INDENT_SIZE); Some (l\<lparr>lg_indent := lg_indent l @ LOG_INDENT\<rparr>) }
      else Some (l\<lparr>lg_overflow := lg_overflow l + 1\<rparr>))"

definition pop_indent :: "logger \<Rightarrow> logger option" where
  "pop_indent l =
     (if lg_overflow l = 0
      then do { c_assert (2 \<le> length (lg_indent l)); Some (l\<lparr>lg_indent := take (length (lg_indent l) - 2) (lg_indent l)\<rparr>) }
      else Some (l\<lparr>lg_overflow := lg_overflow l - 1\<rparr>))"

definition log_proto_level_start :: "string \<Rightarrow> logger \<Rightarrow> logger option" where
  "log_proto_level_start name l =
     do { l1 \<leftarrow> KineticLogger_LogPrintf 0 (Some (lg_indent l @ name @ '' {'')) l; push_indent l1 }"

definition log_proto_level_end :: "logger \<Rightarrow> logger option" where
  "log_proto_level_end l =
     do { l1 \<leftarrow> pop_indent l; KineticLogger_LogPrintf 0 (Some (lg_indent l1 @ ''}'')) l1 }"

definition log_proto_level_start_array :: "string \<Rightarrow> nat \<Rightarrow> logger \<Rightarrow> logger option" where
  "log_proto_level_start_array name quantity l =
     do { l1 \<leftarrow> KineticLogger_LogPrintf 0 (Some (lg_indent l @ name @ '': ('' @ dec (int quantity) @ '' elements)'')) l;
          l2 \<leftarrow> KineticLogger_LogPrintf 0 (Some (lg_indent l1 @ ''['')) l1;
          push_indent l2 }"

definition log_proto_level_end_array :: "logger \<Rightarrow> logger option" where
  "log_proto_level_end_array l =
     do { l1 \<leftarrow> pop_indent l; KineticLogger_LogPrintf 0 (Some (lg_indent l1 @ '']'')) l1 }"

definition log_entry :: "int \<Rightarrow> string \<Rightarrow> string \<Rightarrow> logger \<Rightarrow> logger option" where
  "log_entry log_level name txt l = KineticLogger_LogPrintf log_level (Some (lg_indent l @ name @ '': '' @ txt)) l"

text \<open>The indentation passed down is the static array itself, so every line uses its current contents.\<close>

fun LogUnboxed :: "int \<Rightarrow> string \<Rightarrow> pb_value \<Rightarrow> logger \<Rightarrow> logger option"
  and log_elements :: "int \<Rightarrow> string \<Rightarrow> pb_value list \<Rightarrow> logger \<Rightarrow> logger option"
  and log_field :: "int \<Rightarrow> pb_field \<Rightarrow> logger \<Rightarrow> logger option"
  and log_fields :: "int \<Rightarrow> pb_field list \<Rightarrow> logger \<Rightarrow> logger option" where
  "LogUnboxed lv name (PB_Number i) l = log_entry lv name (dec i) l"
| "LogUnboxed lv name (PB_Float s) l = log_entry lv name s l"
| "LogUnboxed lv name (PB_Bool b) l = log_entry lv name (if b then ''true'' else ''false'') l"
| "LogUnboxed lv name (PB_String s) l = (case s of None \<Rightarrow> None | Some t \<Rightarrow> log_entry lv name t l)"
| "LogUnboxed lv name (PB_Bytes bs) l =
     do { l1 \<leftarrow> log_proto_level_start name l;
          l2 \<leftarrow> KineticLogger_LogByteArray lv (Some (lg_indent l1)) bs l1;
          log_proto_level_end l2 }"
| "LogUnboxed lv name (PB_Enum s) l = (case s of None \<Rightarrow> None | Some t \<Rightarrow> log_entry lv name t l)"
| "LogUnboxed lv name PB_NullMessage l = Some l"
| "LogUnboxed lv name (PB_Message fs) l =
     do { l1 \<leftarrow> log_proto_level_start name l;
          l2 \<leftarrow> (if is_level_enabled lv l1 then log_fields lv fs l1 else Some l1);
          log_proto_level_end l2 }"
| "LogUnboxed lv name (PB_CommandBytes bs cmd) l =
     do { l1 \<leftarrow> log_proto_level_start name l;
          l2 \<leftarrow> KineticLogger_LogByteArray lv (Some (lg_indent l1)) bs l1;
          log_proto_level_end l2 }"
| "LogUnboxed lv name PB_Invalid l = None"
| "log_elements lv name [] l = Some l"
| "log_elements lv name (v # vs) l = do { l1 \<leftarrow> LogUnboxed lv name v l; log_elements lv name vs l1 }"
| "log_field lv (PB_Required name v) l = LogUnboxed lv name v l"
| "log_field lv (PB_Optional name q v) l =
     (if \<not> q then Some l
      else (case v of
              PB_NullMessage \<Rightarrow> Some l
            | PB_CommandBytes bs cmd \<Rightarrow>
                (if bs = None \<or> bs = Some [] then Some l
                 else do { l1 \<leftarrow> log_proto_level_start name l;
                           l2 \<leftarrow> (case cmd of None \<Rightarrow> Some l1
                                  | Some fs \<Rightarrow> if is_level_enabled lv l1 then log_fields lv fs l1 else Some l1);
                           log_proto_level_end l2 })
            | _ \<Rightarrow> LogUnboxed lv name v l))"
| "log_field lv (PB_Repeated name vs) l =
     (if vs = [] then Some l
      else do { l1 \<leftarrow> log_proto_level_start_array name (length vs) l;
                l2 \<leftarrow> log_elements lv name vs l1;
                log_proto_level_end_array l2 })"
| "log_fields lv [] l = Some l"
| "log_fields lv (f # fs) l = do { l1 \<leftarrow> log_field lv f l; log_fields lv fs l1 }"

definition log_protobuf_message :: "int \<Rightarrow> pb_field list option \<Rightarrow> logger \<Rightarrow> logger option" where
  "log_protobuf_message lv msg l =
     (case msg of None \<Rightarrow> Some l | Some fs \<Rightarrow> if is_level_enabled lv l then log_fields lv fs l else Some l)"

definition KineticLogger_LogProtobuf :: "int \<Rightarrow> pb_field list option \<Rightarrow> logger \<Rightarrow> logger option" where
  "KineticLogger_LogProtobuf lv msg l =
     (if msg = None \<or> \<not> is_level_enabled lv l then Some l
      else do { let l0 = l\<lparr>lg_overflow := 0\<rparr>;
                l1 \<leftarrow> KineticLogger_Log lv ''Kinetic Protobuf:'' l0;
                log_protobuf_message lv msg l1 })"

text \<open>The names of the two text fields of a status are looked for in their descriptors, which the generated tables leave null
  for strings and bytes; \<open>value_name\<close> is the name of the code in the enumeration, \<open>num\<close> its number.\<close>

definition status_field_descriptor :: "string \<Rightarrow> string option" where
  "status_field_descriptor f = (if f = ''code'' then Some ''StatusCode'' else None)"

definition KineticLogger_LogStatus ::
  "int \<Rightarrow> (StatusCode \<Rightarrow> string option) \<Rightarrow> (StatusCode \<Rightarrow> int) \<Rightarrow> (StatusCode \<times> string option \<times> u8 list option) option \<Rightarrow> logger \<Rightarrow> logger option" where
  "KineticLogger_LogStatus lv value_name num status l =
     (case status of
        None \<Rightarrow> Some l
      | Some (code, statusmessage, detailed) \<Rightarrow>
          if \<not> is_level_enabled lv l then Some l
          else if code = STATUS_CODE_SUCCESS then KineticLogger_LogPrintf lv (Some (''Operation completed successfully'' @ [CHR 0x0A])) l
          else if code = STATUS_CODE_INVALID_STATUS_CODE then KineticLogger_LogPrintf lv (Some (''Operation was aborted!'' @ [CHR 0x0A])) l
          else do {
            status_field_descriptor ''code'';
            nm \<leftarrow> value_name code;
            l1 \<leftarrow> KineticLogger_LogPrintf lv
                   (Some (''Operation completed but failed w/error: code='' @ dec (num code) @ ''('' @ nm @ '')'' @ [CHR 0x0A])) l;
            l2 \<leftarrow> (case statusmessage of None \<Rightarrow> Some l1
                   | Some s \<Rightarrow> do { d \<leftarrow> status_field_descriptor ''statusMessage'';
                                     KineticLogger_LogPrintf lv (Some (''  '' @ d @ '': '' @ [CHR 0x27] @ s @ [CHR 0x27])) l1 });
            (case detailed of None \<Rightarrow> Some l2
             | Some bs \<Rightarrow> do { d \<leftarrow> status_field_descriptor ''detailedMessage'';
                                let m = ''  '' @ d @ '': '' @ concat (map bytetoa bs);
                                c_assert (length m < 256);
                                KineticLogger_LogPrintf lv (Some (''  '' @ m)) l2 }) })"

section \<open>Properties\<close>

text \<open>What no call changes besides the output.\<close>

definition only_writes :: "logger \<Rightarrow> logger \<Rightarrow> bool" where
  "only_writes l l' \<longleftrightarrow> (\<exists>ls. l' = l\<lparr>lg_out := lg_out l @ ls\<rparr> \<and> (\<forall>s \<in> set ls. length s < BUFFER_SIZE))"

lemma only_writes_refl [simp, intro]: "only_writes l l"
  unfolding only_writes_def by (rule exI [of _ "[]"]) simp

lemma only_writes_trans: "only_writes a b \<Longrightarrow> only_writes b c \<Longrightarrow> only_writes a c"
proof -
  assume "only_writes a b" "only_writes b c"
  then obtain xs ys where "b = a\<lparr>lg_out := lg_out a @ xs\<rparr>" "c = b\<lparr>lg_out := lg_out b @ ys\<rparr>"
    "\<forall>s \<in> set xs. length s < BUFFER_SIZE" "\<forall>s \<in> set ys. length s < BUFFER_SIZE"
    unfolding only_writes_def by blast
  then show ?thesis unfolding only_writes_def by (intro exI [of _ "xs @ ys"]) auto
qed

lemma only_writes_same: "only_writes l l' \<Longrightarrow> lg_indent l' = lg_indent l \<and> lg_overflow l' = lg_overflow l \<and> is_level_enabled v l' = is_level_enabled v l"
  by (auto simp: only_writes_def is_level_enabled_def)

lemma log_buffer_eq: "log_buffer msg = Some (take 1021 msg @ [CHR 0x0A])"
  by (simp add: log_buffer_def BUFFER_MAX_STRLEN_def BUFFER_SIZE_def Let_def)

text \<open>A line is written exactly when there is a target, a format and the level is enabled; it is cut to fit the buffer.\<close>

lemma LogPrintf_eq:
  "KineticLogger_LogPrintf lv msg l =
     Some (case msg of
             Some m \<Rightarrow> if lg_handle l \<noteq> None \<and> is_level_enabled lv l then l\<lparr>lg_out := lg_out l @ [take 1021 m @ [CHR 0x0A]]\<rparr> else l
           | None \<Rightarrow> l)"
  by (auto simp: KineticLogger_LogPrintf_def log_buffer_eq split: option.splits)

lemma LogPrintf_writes: "\<exists>l'. KineticLogger_LogPrintf lv msg l = Some l' \<and> only_writes l l'"
proof (cases "\<exists>m. msg = Some m \<and> lg_handle l \<noteq> None \<and> is_level_enabled lv l")
  case True
  then obtain m where "KineticLogger_LogPrintf lv msg l = Some (l\<lparr>lg_out := lg_out l @ [take 1021 m @ [CHR 0x0A]]\<rparr>)"
    by (auto simp: LogPrintf_eq)
  moreover have "only_writes l (l\<lparr>lg_out := lg_out l @ [take 1021 m @ [CHR 0x0A]]\<rparr>)"
    unfolding only_writes_def by (intro exI [of _ "[take 1021 m @ [CHR 0x0A]]"]) (simp add: BUFFER_SIZE_def)
  ultimately show ?thesis by blast
qed (auto simp: LogPrintf_eq split: option.splits)

lemma dump_line_total: "length bs \<le> bytesPerLine \<Longrightarrow> \<exists>s. dump_line title bs = Some s"
proof -
  assume "length bs \<le> bytesPerLine"
  moreover have "length (concat (map bytetoa bs)) = 2 * length bs" by (induction bs) (simp_all add: bytetoa_def)
  ultimately show ?thesis by (simp add: dump_line_def Let_def bytesPerLine_def lineLen_def)
qed

lemma dump_lines_writes: "\<exists>l'. dump_lines lv title bs l = Some l' \<and> only_writes l l'"
proof (induction lv title bs l rule: dump_lines.induct)
  case (1 lv title bs l)
  show ?case
  proof (cases "bs = []")
    case True
    then show ?thesis by (simp add: dump_lines.simps)
  next
    case False
    from dump_line_total [of "take bytesPerLine bs" title] obtain s where s: "dump_line title (take bytesPerLine bs) = Some s" by auto
    from LogPrintf_writes [of lv "Some s" l] obtain l1 where l1: "KineticLogger_LogPrintf lv (Some s) l = Some l1" "only_writes l l1" by blast
    from 1(1) [OF False s l1(1)] l1 s False show ?thesis by (subst dump_lines.simps) (auto intro: only_writes_trans)
  qed
qed

lemma LogByteArray_writes: "\<exists>l'. KineticLogger_LogByteArray lv title bytes l = Some l' \<and> only_writes l l'"
proof -
  have "\<exists>l'. Option.bind (KineticLogger_LogPrintf lv m l) (dump_lines lv t bs) = Some l' \<and> only_writes l l'" for m t bs
    using LogPrintf_writes [of lv m l] dump_lines_writes [of lv t bs] by (metis bind.bind_lunit only_writes_trans)
  then show ?thesis using LogPrintf_writes [of lv _ l] by (auto simp: KineticLogger_LogByteArray_def split: option.splits)
qed

text \<open>The indentation is a row of spaces of even length between 2 and 62; opening and closing a level are inverse.\<close>

definition indent_ok :: "logger \<Rightarrow> bool" where
  "indent_ok l \<longleftrightarrow> 2 \<le> length (lg_indent l) \<and> length (lg_indent l) \<le> 62 \<and> (lg_overflow l > 0 \<longrightarrow> length (lg_indent l) = 62) \<and>
     even (length (lg_indent l))"

lemma push_indent_ok:
  assumes "indent_ok l"
  shows "\<exists>l'. push_indent l = Some l' \<and> indent_ok l' \<and> is_level_enabled v l' = is_level_enabled v l \<and>
    (\<forall>l''. only_writes l' l'' \<longrightarrow> (\<exists>m. pop_indent l'' = Some m \<and> only_writes l m))"
proof (cases "length (lg_indent l) < 61")
  case True
  with assms have "length (lg_indent l) \<le> 60" "lg_overflow l = 0" by (auto simp: indent_ok_def elim!: evenE)
  with assms True show ?thesis
    by (auto simp: push_indent_def pop_indent_def indent_ok_def max_indent_def INDENT_SIZE_def LOG_INDENT_def is_level_enabled_def only_writes_def)
next
  case False
  with assms have "length (lg_indent l) = 62" by (auto simp: indent_ok_def elim!: evenE)
  with assms show ?thesis
    by (auto simp: push_indent_def pop_indent_def indent_ok_def max_indent_def INDENT_SIZE_def is_level_enabled_def only_writes_def)
qed

lemma indent_ok_writes: "only_writes l l' \<Longrightarrow> indent_ok l \<Longrightarrow> indent_ok l'"
  using only_writes_same by (simp add: indent_ok_def)

locale log_nesting =
  fixes start finish :: "logger \<Rightarrow> logger option"
  assumes start_pushes: "\<exists>l0. only_writes l l0 \<and> start l = push_indent l0"
    and finish_pops: "pop_indent l = Some m \<Longrightarrow> \<exists>m'. finish l = Some m' \<and> only_writes m m'"
begin

lemma nested_writes:
  assumes "indent_ok l" "\<And>l1. start l = Some l1 \<Longrightarrow> indent_ok l1 \<Longrightarrow> \<exists>l2. body l1 = Some l2 \<and> only_writes l1 l2"
  shows "\<exists>l'. do { l1 \<leftarrow> start l; l2 \<leftarrow> body l1; finish l2 } = Some l' \<and> only_writes l l'"
proof -
  from start_pushes obtain l0 where l0: "only_writes l l0" "start l = push_indent l0" by blast
  from push_indent_ok [OF indent_ok_writes [OF l0(1) assms(1)]] obtain l1 where l1: "push_indent l0 = Some l1" "indent_ok l1"
    and pop: "\<forall>l''. only_writes l1 l'' \<longrightarrow> (\<exists>m. pop_indent l'' = Some m \<and> only_writes l0 m)" by blast
  from l0(2) l1(1) have "start l = Some l1" by simp
  from assms(2) [OF this l1(2)] obtain l2 where l2: "body l1 = Some l2" "only_writes l1 l2" by blast
  with pop obtain m where m: "pop_indent l2 = Some m" "only_writes l0 m" by blast
  from finish_pops [OF m(1)] obtain m' where "finish l2 = Some m'" "only_writes m m'" by blast
  with l0 l1(1) l2(1) m(2) show ?thesis by (auto intro: only_writes_trans)
qed

end

lemma LogPrintf_obtain:
  obtains l' where "KineticLogger_LogPrintf lv msg l = Some l'" "only_writes l l'"
  using LogPrintf_writes by blast

interpretation message_level: log_nesting "log_proto_level_start name" log_proto_level_end
proof
  show "\<exists>l0. only_writes l l0 \<and> log_proto_level_start name l = push_indent l0" for l
    by (rule LogPrintf_obtain [of 0 "Some (lg_indent l @ name @ '' {'')" l]) (auto simp: log_proto_level_start_def)
  show "\<exists>m'. log_proto_level_end l = Some m' \<and> only_writes m m'" if "pop_indent l = Some m" for l m
    using that by (auto simp: log_proto_level_end_def LogPrintf_writes)
qed

interpretation array_level: log_nesting "log_proto_level_start_array name n" log_proto_level_end_array
proof
  show "\<exists>l0. only_writes l l0 \<and> log_proto_level_start_array name n l = push_indent l0" for l
  proof -
    obtain l1 where 1: "KineticLogger_LogPrintf 0 (Some (lg_indent l @ name @ '': ('' @ dec (int n) @ '' elements)'')) l = Some l1" "only_writes l l1"
      by (rule LogPrintf_obtain)
    obtain l2 where "KineticLogger_LogPrintf 0 (Some (lg_indent l1 @ ''['')) l1 = Some l2" "only_writes l1 l2" by (rule LogPrintf_obtain)
    with 1 show ?thesis by (auto simp: log_proto_level_start_array_def intro: only_writes_trans)
  qed
  show "\<exists>m'. log_proto_level_end_array l = Some m' \<and> only_writes m m'" if "pop_indent l = Some m" for l m
    using that by (auto simp: log_proto_level_end_array_def LogPrintf_writes)
qed

text \<open>Messages without null strings, unnamed enumeration values and invalid types.\<close>

fun loggable_value :: "pb_value \<Rightarrow> bool" and loggable :: "pb_field \<Rightarrow> bool" where
  "loggable_value (PB_String s) = (s \<noteq> None)"
| "loggable_value (PB_Enum s) = (s \<noteq> None)"
| "loggable_value (PB_Message fs) = list_all loggable fs"
| "loggable_value (PB_CommandBytes bs cmd) = (case cmd of None \<Rightarrow> True | Some fs \<Rightarrow> list_all loggable fs)"
| "loggable_value PB_Invalid = False"
| "loggable_value _ = True"
| "loggable (PB_Required n v) = loggable_value v"
| "loggable (PB_Optional n q v) = (q \<longrightarrow> loggable_value v)"
| "loggable (PB_Repeated n vs) = list_all loggable_value vs"

lemma log_entry_writes: "\<exists>l'. log_entry lv name txt l = Some l' \<and> only_writes l l'"
  by (simp add: log_entry_def LogPrintf_writes)

lemma message_writes:
  "loggable_value v \<Longrightarrow> indent_ok l \<Longrightarrow> \<exists>l'. LogUnboxed lv name v l = Some l' \<and> only_writes l l'"
  "list_all loggable_value vs \<Longrightarrow> indent_ok l \<Longrightarrow> \<exists>l'. log_elements lv name vs l = Some l' \<and> only_writes l l'"
  "loggable f \<Longrightarrow> indent_ok l \<Longrightarrow> \<exists>l'. log_field lv f l = Some l' \<and> only_writes l l'"
  "list_all loggable fs \<Longrightarrow> indent_ok l \<Longrightarrow> \<exists>l'. log_fields lv fs l = Some l' \<and> only_writes l l'"
proof (induction lv name v l and lv name vs l and lv f l and lv fs l rule: LogUnboxed_log_elements_log_field_log_fields.induct)
  case (5 lv name bs l)
  then show ?case by (simp, intro message_level.nested_writes) (auto intro: LogByteArray_writes)
next
  case (8 lv name fs l)
  then show ?case by (simp, intro message_level.nested_writes) auto
next
  case (9 lv name bs cmd l)
  then show ?case by (simp, intro message_level.nested_writes) (auto intro: LogByteArray_writes)
next
  case (12 lv name v vs l)
  then show ?case by (fastforce intro: only_writes_trans indent_ok_writes)
next
  case (14 lv name q v l)
  show ?case
  proof (cases "q \<and> (\<exists>bs cmd. v = PB_CommandBytes bs cmd \<and> \<not> (bs = None \<or> bs = Some []))")
    case True
    then obtain bs cmd where v: "q" "v = PB_CommandBytes bs cmd" "\<not> (bs = None \<or> bs = Some [])" by blast
    let ?body = "\<lambda>l1. case cmd of None \<Rightarrow> Some l1 | Some fs \<Rightarrow> if is_level_enabled lv l1 then log_fields lv fs l1 else Some l1"
    have "\<exists>l'. do { l1 \<leftarrow> log_proto_level_start name l; l2 \<leftarrow> ?body l1; log_proto_level_end l2 } = Some l' \<and> only_writes l l'"
      using 14 v by (intro message_level.nested_writes) (auto split: option.splits)
    then show ?thesis using v by simp
  next
    case False
    then show ?thesis using 14 by (cases v) auto
  qed
next
  case (15 lv name vs l)
  then show ?case by (cases "vs = []") (simp, simp, intro array_level.nested_writes, auto)
next
  case (17 lv f fs l)
  then show ?case by (fastforce intro: only_writes_trans indent_ok_writes)
qed (auto simp: log_entry_writes)


definition ex_logger :: logger where
  "ex_logger = \<lparr>lg_level = 3, lg_handle = Some Log_Stdout, lg_indent = LOG_INDENT, lg_overflow = 0, lg_out = [], lg_console = [], lg_closed = []\<rparr>"


text \<open>An optional string that is absent is not skipped: the mark read for it is the first byte of the message, not a presence flag.\<close>

lemma absent_string_undefined:
  "is_level_enabled lv l \<Longrightarrow> log_protobuf_message lv (Some [PB_Optional name True (PB_String None)]) l = None"
  by (simp add: log_protobuf_message_def)

text \<open>A status that carries a message is read through a null descriptor.\<close>

lemma status_message_undefined:
  "is_level_enabled lv l \<Longrightarrow> code \<notin> {STATUS_CODE_SUCCESS, STATUS_CODE_INVALID_STATUS_CODE} \<Longrightarrow> msg \<noteq> None \<or> detailed \<noteq> None \<Longrightarrow>
     KineticLogger_LogStatus lv nm num (Some (code, msg, detailed)) l = None"
  by (auto simp: KineticLogger_LogStatus_def status_field_descriptor_def LogPrintf_eq bind_eq_None_conv split: option.splits)

section \<open>Reading a dump back\<close>

definition hex_value :: "char \<Rightarrow> nat" where
  "hex_value c = (let n = of_char c in if n \<ge> 65 then n - 55 else n - 48)"

fun unescape :: "string \<Rightarrow> u8 list option" where
  "unescape [] = Some []"
| "unescape (a # b # c # cs) =
     (if a = CHR 0x5C then map_option ((#) (of_nat (16 * hex_value b + hex_value c))) (unescape cs) else None)"
| "unescape _ = None"

lemma hex_value_digit: "n < 16 \<Longrightarrow> hex_value (hex_digit n) = n"
  by (auto simp: hex_value_def hex_digit_def Let_def)

lemma bytetoa_value: "bytetoa b = [h, d] \<Longrightarrow> (of_nat (16 * hex_value h + hex_value d) :: u8) = b"
proof -
  have "unat b < 256" using unsigned_less [of b] by simp
  then have "unat b div 16 mod 16 = unat b div 16" by simp
  moreover assume "bytetoa b = [h, d]"
  ultimately have "16 * hex_value h + hex_value d = unat b" using \<open>unat b < 256\<close> by (auto simp: bytetoa_def hex_value_digit)
  then show ?thesis by simp
qed

lemma slice_loop_unescape:
  "i + n \<le> length bytes \<Longrightarrow> \<exists>s. slice_loop n bytes i = Some s \<and> length s = 3 * n \<and> unescape s = Some (take n (drop i bytes))"
proof (induction n arbitrary: i)
  case (Suc n)
  then have "Suc i + n \<le> length bytes" by simp
  from Suc.IH [OF this] obtain s where s: "slice_loop n bytes (Suc i) = Some s" "length s = 3 * n"
    "unescape s = Some (take n (drop (Suc i) bytes))" by blast
  obtain h d where hd: "bytetoa (bytes ! i) = [h, d]" by (simp add: bytetoa_def)
  with s Suc.prems bytetoa_value [OF hd] show ?case by (auto simp: Cons_nth_drop_Suc [symmetric])
qed simp

text \<open>The escaped text of a slice of a byte array has three characters for each byte, and determines the bytes: reading each escape as two
  hexadecimal digits gives the slice back. A slice outside the array is read out of bounds.\<close>

theorem slice_text_roundtrip:
  "(case KineticLogger_ByteArraySliceToCString bytes start count of
      Some (s, n) \<Rightarrow> start + count \<le> length bytes \<or> count = 0 \<and> s = []
    | None \<Rightarrow> start + count > length bytes) \<and>
   (start + count \<le> length bytes \<longrightarrow> (\<exists>s. KineticLogger_ByteArraySliceToCString bytes start count = Some (s, 3 * count) \<and>
      unescape s = Some (take count (drop start bytes))))"
proof -
  have out: "slice_loop n bytes i = None" if "i + n > length bytes" "n > 0" for n i
    using that
  proof (induction n arbitrary: i)
    case (Suc n)
    then show ?case by (cases "n = 0") auto
  qed simp
  show ?thesis
  proof (cases "start + count \<le> length bytes")
    case True
    with slice_loop_unescape [OF True] show ?thesis by (auto simp: KineticLogger_ByteArraySliceToCString_def)
  next
    case False
    with out [of start count] show ?thesis
      by (cases "count = 0") (auto simp: KineticLogger_ByteArraySliceToCString_def)
  qed
qed

theorem slice_text_roundtrip_witness:
  "\<exists>s. KineticLogger_ByteArraySliceToCString [1, 171, 255, 7] 1 2 = Some (s, 6) \<and> unescape s = Some [171, 255]"
  using slice_text_roundtrip [of "[1, 171, 255, 7]" 1 2] by (simp add: numeral_2_eq_2)

end
