(* ===== verification/Kinetic_Accessors.thy ===== *)
theory Kinetic_Accessors
  imports Kinetic_Entry Kinetic_ACL Kinetic_Logger
begin

text \<open>
  Small operations around the data of the client: the accessors of an entry (\<^verbatim>\<open>kinetic_entry.c\<close>), the description of
  a system error (\<^verbatim>\<open>kinetic_types_internal.c\<close>), and the printed form of access control lists (\<^verbatim>\<open>kinetic_acl.c\<close>). A null entry fails an assertion.
\<close>

section \<open>Entries\<close>

definition KineticEntry_Init :: "KineticEntry option \<Rightarrow> KineticEntry option" where
  "KineticEntry_Init entry =
     do { entry;
          Some \<lparr>ke_key = BYTE_BUFFER_NONE, ke_value = BYTE_BUFFER_NONE, ke_dbVersion = BYTE_BUFFER_NONE, ke_tag = BYTE_BUFFER_NONE,
            ke_algorithm = KINETIC_ALGORITHM_OTHER 0, ke_newVersion = BYTE_BUFFER_NONE, ke_metadataOnly = False, ke_force = False,
            ke_computeTag = False, ke_synchronization = KINETIC_SYNCHRONIZATION_OTHER 0\<rparr> }"

definition KineticEntry_GetVersion :: "KineticEntry option \<Rightarrow> byte_buffer option" where
  "KineticEntry_GetVersion = map_option ke_dbVersion"

definition KineticEntry_SetVersion :: "KineticEntry option \<Rightarrow> byte_buffer \<Rightarrow> KineticEntry option" where
  "KineticEntry_SetVersion entry version = map_option (ke_dbVersion_update (\<lambda>_. version)) entry"

definition KineticEntry_GetTag :: "KineticEntry option \<Rightarrow> byte_buffer option" where
  "KineticEntry_GetTag = map_option ke_tag"

definition KineticEntry_SetTag :: "KineticEntry option \<Rightarrow> byte_buffer \<Rightarrow> KineticEntry option" where
  "KineticEntry_SetTag entry tag = map_option (ke_tag_update (\<lambda>_. tag)) entry"

definition KineticEntry_GetAlgorithm :: "KineticEntry option \<Rightarrow> KineticAlgorithm option" where
  "KineticEntry_GetAlgorithm = map_option ke_algorithm"

definition KineticEntry_SetAlgorithm :: "KineticEntry option \<Rightarrow> KineticAlgorithm \<Rightarrow> KineticEntry option" where
  "KineticEntry_SetAlgorithm entry algorithm = map_option (ke_algorithm_update (\<lambda>_. algorithm)) entry"

text \<open>Each accessor reads what its partner wrote and nothing the others wrote.\<close>

lemma entry_accessors:
  "KineticEntry_GetVersion (KineticEntry_SetVersion (Some e) v) = Some v" "KineticEntry_GetTag (KineticEntry_SetVersion (Some e) v) = Some (ke_tag e)"
  "KineticEntry_GetAlgorithm (KineticEntry_SetVersion (Some e) v) = Some (ke_algorithm e)"
  "KineticEntry_GetTag (KineticEntry_SetTag (Some e) t) = Some t" "KineticEntry_GetVersion (KineticEntry_SetTag (Some e) t) = Some (ke_dbVersion e)"
  "KineticEntry_GetAlgorithm (KineticEntry_SetTag (Some e) t) = Some (ke_algorithm e)"
  "KineticEntry_GetAlgorithm (KineticEntry_SetAlgorithm (Some e) a) = Some a"
  "KineticEntry_GetVersion (KineticEntry_SetAlgorithm (Some e) a) = Some (ke_dbVersion e)"
  "KineticEntry_GetTag (KineticEntry_SetAlgorithm (Some e) a) = Some (ke_tag e)"
  by (simp_all add: KineticEntry_GetVersion_def KineticEntry_SetVersion_def KineticEntry_GetTag_def KineticEntry_SetTag_def
      KineticEntry_GetAlgorithm_def KineticEntry_SetAlgorithm_def)

section \<open>Error descriptions\<close>

text \<open>The status and what is written to the buffer of \<open>len\<close> bytes, of which \<^verbatim>\<open>strncat\<close> uses one for the terminator.\<close>

definition Kinetic_GetErrnoDescription :: "(int \<Rightarrow> string) \<Rightarrow> int \<Rightarrow> nat \<Rightarrow> int \<times> string option" where
  "Kinetic_GetErrnoDescription strerror err_num len =
     (if len = 0 then (-1, None) else (0, Some (take (len - 1) (strerror err_num))))"

lemma errno_description_fits: "Kinetic_GetErrnoDescription strerror e len = (r, Some s) \<Longrightarrow> length s < len"
  by (auto simp: Kinetic_GetErrnoDescription_def split: if_splits)

section \<open>Printing access control lists\<close>

text \<open>The lines; an empty one separates scopes and lists.\<close>

definition scope_lines :: "nat \<Rightarrow> Scope \<Rightarrow> string list" where
  "scope_lines si sc =
     (if si > 0 then [[]] else []) @ [''    scope '' @ dec (int si) @ '':''] @
     (case cs_offset sc of None \<Rightarrow> [] | Some n \<Rightarrow> [''      offset: '' @ dec n]) @
     (case cs_value sc of None \<Rightarrow> [] | Some v \<Rightarrow> [''      value['' @ dec (int (length v)) @ '']: '' @ [CHR 0x22] @ v @ [CHR 0x22]]) @
     map (\<lambda>p. ''      permission: '' @ str_of_permission p) (cs_permission sc) @
     (case cs_tlsrequired sc of None \<Rightarrow> [] | Some b \<Rightarrow> [''      tlsrequired: '' @ (if b then ''1'' else ''0'')])"

text \<open>A null scope is dereferenced.\<close>

fun print_scopes :: "nat \<Rightarrow> Scope option list \<Rightarrow> string list option" where
  "print_scopes si [] = Some []"
| "print_scopes si (None # scs) = None"
| "print_scopes si (Some sc # scs) = do { ls \<leftarrow> print_scopes (Suc si) scs; Some (scope_lines si sc @ ls) }"

definition acl_lines :: "nat \<Rightarrow> ACL \<Rightarrow> string list option" where
  "acl_lines ai acl =
     do { ls \<leftarrow> print_scopes 0 (ac_scope acl);
          Some ((if ai > 0 then [[]] else []) @
            (case ac_identity acl of None \<Rightarrow> [] | Some n \<Rightarrow> [''  identity: '' @ dec n]) @
            (case ac_key acl of None \<Rightarrow> [] | Some k \<Rightarrow> [''  key[HmacSHA1,'' @ dec (int (length k)) @ '']: '' @ [CHR 0x22] @ k @ [CHR 0x22]]) @
            [''  scopes: ('' @ dec (int (length (ac_scope acl))) @ '')''] @ ls) }"

fun print_acls :: "nat \<Rightarrow> ACL list \<Rightarrow> string list option" where
  "print_acls ai [] = Some []"
| "print_acls ai (a # as) = do { ls \<leftarrow> acl_lines ai a; rest \<leftarrow> print_acls (Suc ai) as; Some (ls @ rest) }"

definition KineticACL_Print :: "ACL list option \<Rightarrow> string list option" where
  "KineticACL_Print acls =
     (case acls of None \<Rightarrow> Some [''NULL'']
      | Some as \<Rightarrow> do { ls \<leftarrow> print_acls 0 as; Some ((''ACLs ['' @ dec (int (length as)) @ '']:'') # ls) })"

lemma print_scopes_None: "print_scopes si scs = None \<longleftrightarrow> None \<in> set scs"
  by (induction si scs rule: print_scopes.induct) (auto simp: bind_eq_None_conv)

lemma print_acls_None: "print_acls ai acls = None \<longleftrightarrow> (\<exists>a \<in> set acls. None \<in> set (ac_scope a))"
proof (induction ai acls rule: print_acls.induct)
  case (2 ai a as)
  have "acl_lines ai a = None \<longleftrightarrow> None \<in> set (ac_scope a)" by (auto simp: acl_lines_def bind_eq_None_conv print_scopes_None)
  with 2 show ?case by (cases "acl_lines ai a") (auto simp: bind_eq_None_conv)
qed simp

text \<open>Printing dereferences a null pointer exactly for the lists that freeing does.\<close>

lemma print_undefined: "KineticACL_Print (Some acls) = None \<longleftrightarrow> (\<exists>a \<in> set acls. None \<in> set (ac_scope a))"
  using print_acls_None [of 0 acls] by (auto simp: KineticACL_Print_def bind_eq_None_conv)

end
