(* ===== verification/Lifetimes.thy ===== *)
theory Lifetimes
  imports Memory_Blocks
begin

text \<open>
  The blocks of operations, responses and the bus (\<^verbatim>\<open>kinetic_allocator.c\<close>, \<^verbatim>\<open>Bus_Free\<close> and \<^verbatim>\<open>Threadpool_Free\<close>): which are allocated together and which are
  freed with them. The trees the protobuf decoder allocates for a response are lists of blocks.
\<close>

section \<open>Operations and responses\<close>

record response_mem =
  rp_block :: nat
  rp_command :: "nat list option"
  rp_proto :: "nat list option"

record operation_mem =
  om_block :: nat
  om_request :: "nat option"
  om_response :: "response_mem option"

definition KineticAllocator_NewKineticResponse :: "(nat \<Rightarrow> bool) \<Rightarrow> mem \<Rightarrow> response_mem option \<times> mem" where
  "KineticAllocator_NewKineticResponse ok m =
     (case c_calloc ok m of (p, m1) \<Rightarrow> (map_option (\<lambda>b. \<lparr>rp_block = b, rp_command = None, rp_proto = None\<rparr>) p, m1))"

definition free_unpacked :: "nat list option \<Rightarrow> mem \<Rightarrow> mem option" where
  "free_unpacked t m = (case t of None \<Rightarrow> Some m | Some bs \<Rightarrow> free_all (map Some bs) m)"

definition KineticAllocator_FreeKineticResponse :: "response_mem option \<Rightarrow> mem \<Rightarrow> mem option" where
  "KineticAllocator_FreeKineticResponse response m =
     do { r \<leftarrow> response;
          m1 \<leftarrow> free_unpacked (rp_command r) m;
          m2 \<leftarrow> free_unpacked (rp_proto r) m1;
          c_free (Some (rp_block r)) m2 }"

definition alloc_operation :: "(nat \<Rightarrow> bool) \<Rightarrow> mem \<Rightarrow> (operation_mem option \<times> mem) option" where
  "alloc_operation ok m =
     (case c_calloc ok m of
        (None, m1) \<Rightarrow> Some (None, m1)
      | (Some b, m1) \<Rightarrow>
          (case c_calloc ok m1 of
             (None, m2) \<Rightarrow> do { m3 \<leftarrow> c_free (Some b) m2; Some (None, m3) }
           | (Some r, m2) \<Rightarrow> Some (Some \<lparr>om_block = b, om_request = Some r, om_response = None\<rparr>, m2)))"

definition KineticAllocator_FreeOperation :: "operation_mem option \<Rightarrow> mem \<Rightarrow> mem option" where
  "KineticAllocator_FreeOperation operation m =
     do { op \<leftarrow> operation;
          m1 \<leftarrow> c_free (om_request op) m;
          m2 \<leftarrow> (case om_response op of None \<Rightarrow> Some m1 | Some r \<Rightarrow> KineticAllocator_FreeKineticResponse (Some r) m1);
          c_free (Some (om_block op)) m2 }"

text \<open>The waiter destroyed with a session is part of its block.\<close>

definition KineticAllocator_FreeSession :: "nat option \<Rightarrow> mem \<Rightarrow> mem option" where
  "KineticAllocator_FreeSession session m = c_free session m"

definition tree_own :: "nat list option \<Rightarrow> nat multiset" where
  "tree_own t = (case t of None \<Rightarrow> {#} | Some bs \<Rightarrow> mset bs)"

definition response_own :: "response_mem \<Rightarrow> nat multiset" where
  "response_own r = add_mset (rp_block r) (tree_own (rp_command r) + tree_own (rp_proto r))"

definition operation_own :: "operation_mem \<Rightarrow> nat multiset" where
  "operation_own op = add_mset (om_block op) (opt_block (om_request op) + (case om_response op of None \<Rightarrow> {#} | Some r \<Rightarrow> response_own r))"

lemma free_unpacked_grown: "grown m m' (tree_own t + B) \<Longrightarrow> \<exists>m''. free_unpacked t m' = Some m'' \<and> grown m m'' B"
proof (cases t)
  case (Some bs)
  have "opt_blocks (map Some bs) = mset bs" by (induction bs) simp_all
  moreover assume "grown m m' (tree_own t + B)"
  ultimately show ?thesis using Some free_all_grown [of m m' "map Some bs" B] by (simp add: tree_own_def free_unpacked_def)
qed (simp add: tree_own_def free_unpacked_def)

lemma free_response_grown:
  assumes "grown m m' (response_own r + B)"
  shows "\<exists>m''. KineticAllocator_FreeKineticResponse (Some r) m' = Some m'' \<and> grown m m'' B"
proof -
  from assms have "grown m m' (tree_own (rp_command r) + (tree_own (rp_proto r) + add_mset (rp_block r) B))"
    by (simp add: response_own_def ac_simps)
  from free_unpacked_grown [OF this] obtain m1 where 1: "free_unpacked (rp_command r) m' = Some m1"
    "grown m m1 (tree_own (rp_proto r) + add_mset (rp_block r) B)" by blast
  from free_unpacked_grown [OF 1(2)] obtain m2 where 2: "free_unpacked (rp_proto r) m1 = Some m2" "grown m m2 (add_mset (rp_block r) B)" by blast
  from free_grown [OF 2(2)] 1(1) 2(1) show ?thesis by (simp add: KineticAllocator_FreeKineticResponse_def)
qed

lemma free_operation_grown:
  assumes "grown m m' (operation_own op)"
  shows "\<exists>m''. KineticAllocator_FreeOperation (Some op) m' = Some m'' \<and> grown m m'' {#}"
proof -
  let ?resp = "case om_response op of None \<Rightarrow> {#} | Some r \<Rightarrow> response_own r"
  from assms have "grown m m' (opt_block (om_request op) + (?resp + {#om_block op#}))" by (simp add: operation_own_def ac_simps)
  from free_opt_grown [OF this] obtain m1 where 1: "c_free (om_request op) m' = Some m1" "grown m m1 (?resp + {#om_block op#})" by blast
  obtain m2 where 2: "(case om_response op of None \<Rightarrow> Some m1 | Some r \<Rightarrow> KineticAllocator_FreeKineticResponse (Some r) m1) = Some m2"
    "grown m m2 {#om_block op#}"
    using 1(2) free_response_grown [of m m1 _ "{#om_block op#}"] by (cases "om_response op") auto
  from free_grown [of m m2 "om_block op" "{#}"] 1(1) 2 show ?thesis by (simp add: KineticAllocator_FreeOperation_def)
qed

text \<open>The life of an operation: a failed allocation leaves the heap as it was, and freeing an operation, with or without a response whose
  trees \<open>cs\<close> and \<open>ps\<close> the decoder allocated, gives back everything since its allocation.\<close>

lemma operation_lifecycle:
  assumes "mem_ok m" "alloc_operation ok m = Some (opo, m1)"
  shows "opo = None \<Longrightarrow> mem_live m1 = mem_live m"
    and "opo = Some op \<Longrightarrow> KineticAllocator_NewKineticResponse ok m1 = (Some r, m2) \<Longrightarrow> grown m2 m3 (mset cs + mset ps) \<Longrightarrow>
      \<exists>m4. KineticAllocator_FreeOperation (Some (op\<lparr>om_response := Some (r\<lparr>rp_command := Some cs, rp_proto := Some ps\<rparr>)\<rparr>)) m3 = Some m4 \<and>
        mem_live m4 = mem_live m"
proof -
  obtain p n1 where p: "c_calloc ok m = (p, n1)" by fastforce
  obtain q n2 where q: "c_calloc ok n1 = (q, n2)" by fastforce
  note g1 = calloc_grown [OF assms(1) p]
  note g2 = grown_trans [OF g1 calloc_grown [OF grown_mem_ok [OF g1] q]]
  show "mem_live m1 = mem_live m" if "opo = None"
  proof (cases p)
    case None
    with assms(2) p g1 show ?thesis by (auto simp: alloc_operation_def dest: grown_empty)
  next
    case (Some b)
    with assms(2) p q that have "q = None" by (auto simp: alloc_operation_def split: option.splits)
    with assms(2) p q g2 Some free_grown [of m n2 b "{#}"] show ?thesis by (auto simp: alloc_operation_def dest: grown_empty)
  qed
  assume op: "opo = Some op" and r: "KineticAllocator_NewKineticResponse ok m1 = (Some r, m2)" and t: "grown m2 m3 (mset cs + mset ps)"
  from op assms(2) p q obtain b e where be: "p = Some b" "q = Some e" "op = \<lparr>om_block = b, om_request = Some e, om_response = None\<rparr>" "m1 = n2"
    by (auto simp: alloc_operation_def bind_Some_iff split: option.splits)
  from r obtain d where d: "c_calloc ok m1 = (Some d, m2)" "r = \<lparr>rp_block = d, rp_command = None, rp_proto = None\<rparr>"
    by (auto simp: KineticAllocator_NewKineticResponse_def split: prod.splits)
  from g2 be have g: "grown m m1 {#b, e#}" by (simp add: add_mset_commute)
  from grown_trans [OF grown_trans [OF g calloc_grown [OF grown_mem_ok [OF g] d(1)]] t]
  have "grown m m3 (operation_own (op\<lparr>om_response := Some (r\<lparr>rp_command := Some cs, rp_proto := Some ps\<rparr>)\<rparr>))"
    using be d by (simp add: operation_own_def response_own_def tree_own_def ac_simps add_mset_commute)
  from free_operation_grown [OF this]
  show "\<exists>m4. KineticAllocator_FreeOperation (Some (op\<lparr>om_response := Some (r\<lparr>rp_command := Some cs, rp_proto := Some ps\<rparr>)\<rparr>)) m3 = Some m4 \<and>
      mem_live m4 = mem_live m" by (auto dest: grown_empty)
qed

section \<open>Taking the bus down\<close>

datatype free_event =
    FE_Bus_Shutdown bool
  | FE_Listener_Free nat
  | FE_Listeners
  | FE_Pool_Shutdown bool bool \<comment> \<open>forced, and the answer\<close>
  | FE_Pool_Tasks
  | FE_Pool_Threads
  | FE_Pool
  | FE_Joined
  | FE_Threads
  | FE_Fd_set_lock
  | FE_Ssl_ctx
  | FE_Bus

definition THREAD_SHUTDOWN_SECONDS :: nat where "THREAD_SHUTDOWN_SECONDS = 5"

definition Threadpool_Free :: "free_event list" where "Threadpool_Free = [FE_Pool_Tasks, FE_Pool_Threads, FE_Pool]"

text \<open>The loop asks the bus to shut down until it says yes; \<open>None\<close> when the answers end first. It is skipped for a halted bus.\<close>

fun shutdown_loop :: "bool list \<Rightarrow> free_event list option" where
  "shutdown_loop [] = None"
| "shutdown_loop (a # as) = (if a then Some [FE_Bus_Shutdown True] else map_option ((#) (FE_Bus_Shutdown False)) (shutdown_loop as))"

text \<open>\<open>n\<close> rounds are left; \<open>pool\<close> gives the answer of the round, \<open>forced\<close> that of the last call.\<close>

primrec pool_loop :: "nat \<Rightarrow> (nat \<Rightarrow> bool) \<Rightarrow> bool \<Rightarrow> free_event list" where
  "pool_loop 0 pool forced = []"
| "pool_loop (Suc n) pool forced =
     (if pool n then [FE_Pool_Shutdown False True]
      else FE_Pool_Shutdown False False # (if n = 0 then [FE_Pool_Shutdown True forced] else pool_loop n pool forced))"

definition Bus_Free :: "(nat \<times> bool) option \<Rightarrow> bool list \<Rightarrow> (nat \<Rightarrow> bool) \<Rightarrow> bool \<Rightarrow> free_event list option" where
  "Bus_Free b shutdowns pool forced =
     (case b of
        None \<Rightarrow> Some []
      | Some (listener_count, halted) \<Rightarrow>
          do { evs \<leftarrow> (if halted then Some [] else shutdown_loop shutdowns);
               Some (evs @ map FE_Listener_Free [0..<listener_count] @ [FE_Listeners] @
                 pool_loop (1000 * THREAD_SHUTDOWN_SECONDS div 10) pool forced @ Threadpool_Free @
                 [FE_Joined, FE_Threads, FE_Fd_set_lock, FE_Ssl_ctx, FE_Bus]) })"

lemma shutdown_loop_eq: "shutdown_loop as = Some evs \<Longrightarrow> \<exists>n. evs = replicate n (FE_Bus_Shutdown False) @ [FE_Bus_Shutdown True]"
proof (induction as arbitrary: evs)
  case (Cons a as)
  show ?case
  proof (cases a)
    case True
    with Cons.prems show ?thesis by (auto intro!: exI [of _ 0])
  next
    case False
    with Cons.prems obtain es where "shutdown_loop as = Some es" "evs = FE_Bus_Shutdown False # es" by auto
    with Cons.IH show ?thesis by (metis append_Cons replicate_Suc)
  qed
qed simp

text \<open>The pool is asked at most five hundred times, and forced exactly when it never agreed.\<close>

lemma pool_loop_forces:
  "n > 0 \<Longrightarrow> length (filter (\<lambda>e. \<exists>a. e = FE_Pool_Shutdown False a) (pool_loop n pool forced)) \<le> n \<and>
     (FE_Pool_Shutdown True forced \<in> set (pool_loop n pool forced) \<longleftrightarrow> (\<forall>i < n. \<not> pool i))"
proof (induction n)
  case (Suc n)
  show ?case
  proof (cases "n = 0")
    case False
    with Suc.IH show ?thesis by (auto simp: less_Suc_eq)
  qed auto
qed simp

lemma bus_free_order:
  assumes "Bus_Free (Some (k, halted)) shutdowns pool forced = Some evs"
  shows "\<exists>pre mid. evs = pre @ map FE_Listener_Free [0..<k] @ [FE_Listeners] @ mid @
      [FE_Pool_Tasks, FE_Pool_Threads, FE_Pool, FE_Joined, FE_Threads, FE_Fd_set_lock, FE_Ssl_ctx, FE_Bus] \<and>
    (halted \<and> pre = [] \<or> \<not> halted \<and> (\<exists>n. pre = replicate n (FE_Bus_Shutdown False) @ [FE_Bus_Shutdown True])) \<and>
    (FE_Pool_Shutdown True forced \<in> set mid \<longleftrightarrow> (\<forall>i < 500. \<not> pool i))"
proof -
  let ?mid = "pool_loop 500 pool forced"
  from assms obtain pre where "evs = pre @ map FE_Listener_Free [0..<k] @ [FE_Listeners] @ ?mid @
      [FE_Pool_Tasks, FE_Pool_Threads, FE_Pool, FE_Joined, FE_Threads, FE_Fd_set_lock, FE_Ssl_ctx, FE_Bus]"
    and pre: "(if halted then Some [] else shutdown_loop shutdowns) = Some pre"
    by (auto simp: Bus_Free_def bind_Some_iff Threadpool_Free_def THREAD_SHUTDOWN_SECONDS_def)
  moreover have "FE_Pool_Shutdown True forced \<in> set ?mid \<longleftrightarrow> (\<forall>i < 500. \<not> pool i)"
    using pool_loop_forces [of 500 pool forced] by simp
  moreover have "halted \<and> pre = [] \<or> \<not> halted \<and> (\<exists>n. pre = replicate n (FE_Bus_Shutdown False) @ [FE_Bus_Shutdown True])"
    using pre shutdown_loop_eq by (auto split: if_splits)
  ultimately show ?thesis by blast
qed

end
