(* ===== verification/Kinetic_Wait.thy ===== *)
theory Kinetic_Wait
  imports Kinetic_Types
begin

text \<open>
  The wait of a synchronous call (\<^verbatim>\<open>KineticController_ExecuteOperation\<close> without a closure, \<^verbatim>\<open>kinetic_controller.c\<close>). The caller puts a mutex, a condition variable and
  a result on its stack, sends the request and waits; \<^verbatim>\<open>DefaultCallback\<close> runs once, in a thread of the pool, and writes the result. Each step is one call
  of the thread library or one access under the mutex; \<^verbatim>\<open>pthread_cond_wait\<close> releases the mutex and sleeps in one step, and may wake without a signal.
\<close>

section \<open>State and steps\<close>

datatype owner = Caller | Callback

datatype caller_pc =
    C_Lock \<comment> \<open>before \<^verbatim>\<open>pthread_mutex_lock\<close>\<close>
  | C_Test \<comment> \<open>at the condition of the loop\<close>
  | C_Asleep
  | C_Wake \<comment> \<open>woken, before it has the mutex again\<close>
  | C_Read \<comment> \<open>behind the loop\<close>
  | C_Unlock KineticStatus
  | C_Destroy KineticStatus
  | C_Returned KineticStatus

datatype callback_pc =
    B_Lock
  | B_Status
  | B_Completed
  | B_Signal
  | B_Unlock
  | B_Done

record wait_state =
  wt_mutex :: "owner option"
  wt_completed :: bool
  wt_status :: KineticStatus
  wt_caller :: caller_pc
  wt_callback :: callback_pc
  wt_destroyed :: bool

definition wait_init :: wait_state where
  "wait_init = \<lparr>wt_mutex = None, wt_completed = False, wt_status = KINETIC_STATUS_INVALID, wt_caller = C_Lock,
     wt_callback = B_Lock, wt_destroyed = False\<rparr>"

fun caller_step :: "wait_state \<Rightarrow> wait_state option" where
  "caller_step w =
     (case wt_caller w of
        C_Lock \<Rightarrow> if wt_mutex w = None then Some (w\<lparr>wt_mutex := Some Caller, wt_caller := C_Test\<rparr>) else None
      | C_Test \<Rightarrow> Some (if wt_completed w then w\<lparr>wt_caller := C_Read\<rparr> else w\<lparr>wt_mutex := None, wt_caller := C_Asleep\<rparr>)
      | C_Asleep \<Rightarrow> None
      | C_Wake \<Rightarrow> if wt_mutex w = None then Some (w\<lparr>wt_mutex := Some Caller, wt_caller := C_Test\<rparr>) else None
      | C_Read \<Rightarrow> Some (w\<lparr>wt_caller := C_Unlock (wt_status w)\<rparr>)
      | C_Unlock s \<Rightarrow> Some (w\<lparr>wt_mutex := None, wt_caller := C_Destroy s\<rparr>)
      | C_Destroy s \<Rightarrow> Some (w\<lparr>wt_destroyed := True, wt_caller := C_Returned s\<rparr>)
      | C_Returned s \<Rightarrow> None)"

text \<open>\<open>status\<close> is the status the operation completes with.\<close>

fun DefaultCallback_step :: "KineticStatus \<Rightarrow> wait_state \<Rightarrow> wait_state option" where
  "DefaultCallback_step status w =
     (case wt_callback w of
        B_Lock \<Rightarrow> if wt_mutex w = None then Some (w\<lparr>wt_mutex := Some Callback, wt_callback := B_Status\<rparr>) else None
      | B_Status \<Rightarrow> Some (w\<lparr>wt_status := status, wt_callback := B_Completed\<rparr>)
      | B_Completed \<Rightarrow> Some (w\<lparr>wt_completed := True, wt_callback := B_Signal\<rparr>)
      | B_Signal \<Rightarrow> Some (w\<lparr>wt_callback := B_Unlock, wt_caller := (if wt_caller w = C_Asleep then C_Wake else wt_caller w)\<rparr>)
      | B_Unlock \<Rightarrow> Some (w\<lparr>wt_mutex := None, wt_callback := B_Done\<rparr>)
      | B_Done \<Rightarrow> None)"

inductive wait_step :: "KineticStatus \<Rightarrow> wait_state \<Rightarrow> wait_state \<Rightarrow> bool" for status where
  caller: "caller_step w = Some w' \<Longrightarrow> wait_step status w w'"
| callback: "DefaultCallback_step status w = Some w' \<Longrightarrow> wait_step status w w'"
| spurious: "wt_caller w = C_Asleep \<Longrightarrow> wait_step status w (w\<lparr>wt_caller := C_Wake\<rparr>)"

inductive wait_reachable :: "KineticStatus \<Rightarrow> wait_state \<Rightarrow> bool" for status where
  init: "wait_reachable status wait_init"
| step: "wait_reachable status w \<Longrightarrow> wait_step status w w' \<Longrightarrow> wait_reachable status w'"

inductive_cases wait_stepE: "wait_step status w w'"

section \<open>Invariant\<close>

definition caller_holds :: "caller_pc \<Rightarrow> bool" where
  "caller_holds c = (case c of C_Test \<Rightarrow> True | C_Read \<Rightarrow> True | C_Unlock s \<Rightarrow> True | _ \<Rightarrow> False)"

definition callback_holds :: "callback_pc \<Rightarrow> bool" where
  "callback_holds b \<longleftrightarrow> b \<noteq> B_Lock \<and> b \<noteq> B_Done"

text \<open>The caller's result once it has read it.\<close>

definition caller_result :: "caller_pc \<Rightarrow> KineticStatus option" where
  "caller_result c = (case c of C_Unlock s \<Rightarrow> Some s | C_Destroy s \<Rightarrow> Some s | C_Returned s \<Rightarrow> Some s | _ \<Rightarrow> None)"

definition wait_inv :: "KineticStatus \<Rightarrow> wait_state \<Rightarrow> bool" where
  "wait_inv status w \<longleftrightarrow>
     (wt_mutex w = Some Caller \<longleftrightarrow> caller_holds (wt_caller w)) \<and>
     (wt_mutex w = Some Callback \<longleftrightarrow> callback_holds (wt_callback w)) \<and>
     (wt_completed w \<longleftrightarrow> wt_callback w \<in> {B_Signal, B_Unlock, B_Done}) \<and>
     (wt_callback w \<notin> {B_Lock, B_Status} \<longrightarrow> wt_status w = status) \<and>
     (wt_caller w = C_Asleep \<longrightarrow> wt_callback w \<notin> {B_Unlock, B_Done}) \<and>
     (caller_result (wt_caller w) \<noteq> None \<or> wt_caller w = C_Read \<longrightarrow> wt_callback w = B_Done) \<and>
     (\<forall>s. caller_result (wt_caller w) = Some s \<longrightarrow> s = status) \<and>
     (wt_destroyed w \<longleftrightarrow> (\<exists>s. wt_caller w = C_Returned s))"

lemmas wait_defs = wait_inv_def caller_holds_def callback_holds_def caller_result_def

lemma caller_step_inv: "caller_step w = Some w' \<Longrightarrow> wait_inv status w \<Longrightarrow> wait_inv status w'"
proof -
  assume step: "caller_step w = Some w'" and i: "wait_inv status w"
  obtain mx co st ca cb de where w: "w = \<lparr>wt_mutex = mx, wt_completed = co, wt_status = st, wt_caller = ca, wt_callback = cb, wt_destroyed = de\<rparr>"
    by (cases w)
  show ?thesis
  proof (cases ca)
    case C_Test
    with step i show ?thesis unfolding w by (cases cb) (simp_all add: wait_defs split: if_splits, auto)
  qed (use step i in \<open>simp_all add: w wait_defs split: if_splits, auto\<close>)
qed

lemma callback_step_inv: "DefaultCallback_step status w = Some w' \<Longrightarrow> wait_inv status w \<Longrightarrow> wait_inv status w'"
proof -
  assume step: "DefaultCallback_step status w = Some w'" and i: "wait_inv status w"
  obtain mx co st ca cb de where w: "w = \<lparr>wt_mutex = mx, wt_completed = co, wt_status = st, wt_caller = ca, wt_callback = cb, wt_destroyed = de\<rparr>"
    by (cases w)
  show ?thesis
  proof (cases cb)
    case B_Lock
    with step i show ?thesis unfolding w by (cases ca) (auto simp: wait_defs split: if_splits)
  next
    case B_Signal
    with step i show ?thesis unfolding w by (cases ca) (simp_all add: wait_defs, auto)
  qed (use step i in \<open>simp_all add: w wait_defs, auto\<close>)
qed

lemma reachable_wait_inv: "wait_reachable status w \<Longrightarrow> wait_inv status w"
proof (induction rule: wait_reachable.induct)
  case init
  show ?case by (simp add: wait_defs wait_init_def)
next
  case (step w w')
  from step(2) step.IH show ?case
    by (cases rule: wait_step.cases) (auto intro: caller_step_inv callback_step_inv simp del: caller_step.simps DefaultCallback_step.simps,
      auto simp: wait_defs)
qed

section \<open>Progress\<close>

text \<open>How many steps the callback and, behind it, the caller still have to take.\<close>

fun callback_left :: "callback_pc \<Rightarrow> nat" where
  "callback_left B_Lock = 5" | "callback_left B_Status = 4" | "callback_left B_Completed = 3" | "callback_left B_Signal = 2"
| "callback_left B_Unlock = 1" | "callback_left B_Done = 0"

fun caller_left :: "caller_pc \<Rightarrow> nat" where
  "caller_left C_Lock = 5" | "caller_left C_Wake = 5" | "caller_left C_Test = 4" | "caller_left C_Asleep = 6" | "caller_left C_Read = 3"
| "caller_left (C_Unlock s) = 2" | "caller_left (C_Destroy s) = 1" | "caller_left (C_Returned s) = 0"

lemma callback_step_left: "DefaultCallback_step status w = Some w' \<Longrightarrow> callback_left (wt_callback w) = Suc (callback_left (wt_callback w'))"
  by (cases "wt_callback w") (auto split: if_splits)

lemma caller_step_left:
  "caller_step w = Some w' \<Longrightarrow> wait_inv status w \<Longrightarrow> wt_callback w = B_Done \<Longrightarrow>
     wt_callback w' = B_Done \<and> caller_left (wt_caller w) = Suc (caller_left (wt_caller w'))"
  by (cases "wt_caller w") (auto simp: wait_defs split: if_splits)

lemma caller_can_step:
  "wait_inv status w \<Longrightarrow> wt_callback w = B_Done \<Longrightarrow> (\<nexists>s. wt_caller w = C_Returned s) \<Longrightarrow> caller_step w \<noteq> None"
  by (cases "wt_caller w"; cases "wt_mutex w") (auto simp: wait_defs, (metis (full_types) owner.exhaust)+)

lemma someone_can_step:
  assumes "wait_inv status w" "wt_callback w \<noteq> B_Done"
  shows "DefaultCallback_step status w \<noteq> None \<or> caller_step w \<noteq> None"
proof (cases "wt_callback w = B_Lock \<and> wt_mutex w \<noteq> None")
  case True
  with assms have "wt_mutex w = Some Caller" by (auto simp: wait_defs) (metis (full_types) owner.exhaust)
  with assms have "caller_holds (wt_caller w)" by (simp add: wait_inv_def)
  then show ?thesis by (auto simp: caller_holds_def split: caller_pc.splits)
next
  case False
  with assms(2) show ?thesis by (cases "wt_callback w") auto
qed

primrec run_caller :: "nat \<Rightarrow> wait_state \<Rightarrow> wait_state option" where
  "run_caller 0 w = Some w"
| "run_caller (Suc n) w = do { w' \<leftarrow> caller_step w; run_caller n w' }"

lemma caller_left_zero: "caller_left c = 0 \<Longrightarrow> \<exists>s. c = C_Returned s"
  by (cases c) auto

lemma run_caller_returns:
  "wait_inv status w \<Longrightarrow> wt_callback w = B_Done \<Longrightarrow> caller_left (wt_caller w) = n \<Longrightarrow>
     \<exists>w'. run_caller n w = Some w' \<and> wt_caller w' = C_Returned status"
proof (induction n arbitrary: w)
  case 0
  then obtain s where "wt_caller w = C_Returned s" using caller_left_zero by blast
  with 0(1) show ?case by (auto simp: wait_inv_def caller_result_def)
next
  case (Suc n)
  then have "\<nexists>s. wt_caller w = C_Returned s" by auto
  with Suc caller_can_step obtain w' where w': "caller_step w = Some w'" by fastforce
  with caller_step_left [OF w'] caller_step_inv [OF w'] Suc have "wait_inv status w'" "wt_callback w' = B_Done" "caller_left (wt_caller w') = n"
    by auto
  with Suc.IH w' show ?case by simp
qed


text \<open>The caller falls asleep first and the callback wakes it.\<close>

definition ex_wait :: wait_state where
  "ex_wait = \<lparr>wt_mutex = None, wt_completed = True, wt_status = KINETIC_STATUS_SUCCESS, wt_caller = C_Wake, wt_callback = B_Done, wt_destroyed = False\<rparr>"

lemma ex_wait_reachable: "wait_reachable KINETIC_STATUS_SUCCESS ex_wait"
proof -
  let ?s = KINETIC_STATUS_SUCCESS
  have c: "wait_reachable ?s w \<Longrightarrow> caller_step w = Some w' \<Longrightarrow> wait_reachable ?s w'" for w w' by (blast intro: wait_reachable.step wait_step.caller)
  have b: "wait_reachable ?s w \<Longrightarrow> DefaultCallback_step ?s w = Some w' \<Longrightarrow> wait_reachable ?s w'" for w w' by (blast intro: wait_reachable.step wait_step.callback)
  have "caller_step (the (caller_step wait_init)) = Some (wait_init\<lparr>wt_caller := C_Asleep\<rparr>)" by (simp add: wait_init_def)
  moreover have "caller_step wait_init = Some (the (caller_step wait_init))" by (simp add: wait_init_def)
  ultimately have "wait_reachable ?s (wait_init\<lparr>wt_caller := C_Asleep\<rparr>)" using c wait_reachable.init by blast
  from b [OF b [OF b [OF b [OF b [OF this]]]]] show ?thesis by (simp add: wait_init_def ex_wait_def)
qed


end
