(* ===== verification/Util_Options.thy ===== *)
theory Util_Options
  imports Kinetic_Client "HOL-Library.Sublist"
begin

text \<open>
  The command line of the utility (\<^verbatim>\<open>utility/main.c\<close>): its option table, the answers of \<^verbatim>\<open>getopt_long\<close> and \<^verbatim>\<open>ParseOptions\<close>, which turns them into the
  configuration of two sessions and an entry. The character arrays are lists of their full length; \<open>None\<close> is undefined behaviour (a null
  \<^verbatim>\<open>optarg\<close> that is read, a number out of range, an array written past its end). A program that exits gives its code and what it printed.
\<close>

section \<open>Character arrays and numbers\<close>

type_synonym cbuf = "char list"

abbreviation NUL :: char where "NUL \<equiv> CHR 0x00"

definition cstr :: "cbuf \<Rightarrow> string" where
  "cstr b = takeWhile (\<lambda>c. c \<noteq> NUL) b"

text \<open>\<^verbatim>\<open>strncpy(dst, src, n)\<close>: at most \<open>n\<close> characters, filled up with zeros.\<close>

definition strncpy :: "cbuf \<Rightarrow> string \<Rightarrow> nat \<Rightarrow> cbuf" where
  "strncpy dst src n = (let s = cstr (take n src) in s @ replicate (n - length s) NUL @ drop n dst)"

definition char_array :: "nat \<Rightarrow> string \<Rightarrow> cbuf" where
  "char_array n s = s @ replicate (n - length s) NUL"

definition is_digit :: "char \<Rightarrow> bool" where
  "is_digit c \<longleftrightarrow> 48 \<le> (of_char c :: nat) \<and> (of_char c :: nat) \<le> 57"

definition is_space :: "char \<Rightarrow> bool" where
  "is_space c \<longleftrightarrow> (of_char c :: nat) = 32 \<or> 9 \<le> (of_char c :: nat) \<and> (of_char c :: nat) \<le> 13"

fun digits_value :: "int \<Rightarrow> string \<Rightarrow> int" where
  "digits_value v [] = v"
| "digits_value v (c # cs) = (if is_digit c then digits_value (10 * v + of_char c - 48) cs else v)"

text \<open>The number a text begins with. A value the type cannot hold is undefined.\<close>

definition text_value :: "string \<Rightarrow> int" where
  "text_value s =
     (case dropWhile is_space s of
        [] \<Rightarrow> 0
      | c # cs \<Rightarrow> if c = CHR ''-'' then - digits_value 0 cs else if c = CHR ''+'' then digits_value 0 cs else digits_value 0 (c # cs))"

definition atoi :: "string \<Rightarrow> int option" where
  "atoi s = (if - (2 ^ 31) \<le> text_value s \<and> text_value s < 2 ^ 31 then Some (text_value s) else None)"

definition atol :: "string \<Rightarrow> int option" where
  "atol s = (if - (2 ^ 63) \<le> text_value s \<and> text_value s < 2 ^ 63 then Some (text_value s) else None)"

section \<open>Options\<close>

datatype OptionID =
    OPT_NONE
  | OPT_HELP | OPT_LOGLEVEL | OPT_HOST | OPT_PORT | OPT_TLSPORT | OPT_IDENTITY | OPT_KEY | OPT_VALUE | OPT_CLUSTERVERSION | OPT_FILE
  | OPT_HMACKEY | OPT_NEWCLUSTERVERSION | OPT_PIN | OPT_NEWPIN | OPT_LOGTYPE | OPT_DEVICELOGNAME
  | OPT_NOOP | OPT_PUT | OPT_GET | OPT_DELETE | OPT_GETNEXT | OPT_GETPREVIOUS | OPT_GETLOG | OPT_GETDEVICESPECIFICLOG | OPT_SETERASEPIN
  | OPT_INSTANTERASE | OPT_SECUREERASE | OPT_SETLOCKPIN | OPT_LOCKDEVICE | OPT_UNLOCKDEVICE | OPT_SETCLUSTERVERSION | OPT_SETACL
  | OPT_UPDATEFIRMWARE

text \<open>The numbers of the options. Those below 200 are characters, so that a short option has the number of the long one.\<close>

fun OptionID_code :: "OptionID \<Rightarrow> int" where
  "OptionID_code OPT_NONE = 0"
| "OptionID_code OPT_HELP = of_char (CHR ''?'')"
| "OptionID_code OPT_LOGLEVEL = of_char (CHR ''l'')"
| "OptionID_code OPT_HOST = of_char (CHR ''h'')"
| "OptionID_code OPT_PORT = of_char (CHR ''p'')"
| "OptionID_code OPT_TLSPORT = of_char (CHR ''t'')"
| "OptionID_code OPT_IDENTITY = of_char (CHR ''i'')"
| "OptionID_code OPT_KEY = of_char (CHR ''k'')"
| "OptionID_code OPT_VALUE = of_char (CHR ''v'')"
| "OptionID_code OPT_CLUSTERVERSION = of_char (CHR ''c'')"
| "OptionID_code OPT_FILE = of_char (CHR ''f'')"
| "OptionID_code OPT_HMACKEY = 200"
| "OptionID_code OPT_NEWCLUSTERVERSION = 201"
| "OptionID_code OPT_PIN = 202"
| "OptionID_code OPT_NEWPIN = 203"
| "OptionID_code OPT_LOGTYPE = 204"
| "OptionID_code OPT_DEVICELOGNAME = 205"
| "OptionID_code OPT_NOOP = 300"
| "OptionID_code OPT_PUT = 301"
| "OptionID_code OPT_GET = 302"
| "OptionID_code OPT_DELETE = 303"
| "OptionID_code OPT_GETNEXT = 304"
| "OptionID_code OPT_GETPREVIOUS = 305"
| "OptionID_code OPT_GETLOG = 306"
| "OptionID_code OPT_GETDEVICESPECIFICLOG = 307"
| "OptionID_code OPT_SETERASEPIN = 308"
| "OptionID_code OPT_INSTANTERASE = 309"
| "OptionID_code OPT_SECUREERASE = 310"
| "OptionID_code OPT_SETLOCKPIN = 311"
| "OptionID_code OPT_LOCKDEVICE = 312"
| "OptionID_code OPT_UNLOCKDEVICE = 313"
| "OptionID_code OPT_SETCLUSTERVERSION = 314"
| "OptionID_code OPT_SETACL = 315"
| "OptionID_code OPT_UPDATEFIRMWARE = 316"

text \<open>Name, whether an argument is required, and number.\<close>

definition long_options :: "(string \<times> bool \<times> OptionID) list" where
  "long_options =
     [(''help'', False, OPT_HELP),
      (''noop'', False, OPT_NOOP), (''put'', False, OPT_PUT), (''get'', False, OPT_GET), (''delete'', False, OPT_DELETE),
      (''getnext'', False, OPT_GETNEXT), (''getprevious'', False, OPT_GETPREVIOUS), (''getlog'', False, OPT_GETLOG),
      (''getdevicespecificlog'', False, OPT_GETDEVICESPECIFICLOG), (''seterasepin'', False, OPT_SETERASEPIN),
      (''instanterase'', False, OPT_INSTANTERASE), (''secureerase'', False, OPT_SECUREERASE), (''setlockpin'', False, OPT_SETLOCKPIN),
      (''lockdevice'', False, OPT_LOCKDEVICE), (''unlockdevice'', False, OPT_UNLOCKDEVICE),
      (''setclusterversion'', False, OPT_SETCLUSTERVERSION), (''setacl'', False, OPT_SETACL), (''updatefirmware'', False, OPT_UPDATEFIRMWARE),
      (''loglevel'', True, OPT_LOGLEVEL), (''host'', True, OPT_HOST), (''port'', True, OPT_PORT), (''tlsport'', True, OPT_TLSPORT),
      (''identity'', True, OPT_IDENTITY), (''hmackey'', True, OPT_HMACKEY), (''clusterversion'', True, OPT_CLUSTERVERSION),
      (''file'', True, OPT_FILE), (''newclusterversion'', True, OPT_NEWCLUSTERVERSION), (''pin'', True, OPT_PIN),
      (''newpin'', True, OPT_NEWPIN), (''logtype'', True, OPT_LOGTYPE), (''devicelogname'', True, OPT_DEVICELOGNAME),
      (''key'', True, OPT_KEY), (''value'', True, OPT_VALUE)]"

text \<open>The short options \<^verbatim>\<open>"?lhptics:"\<close>; only the last takes an argument.\<close>

definition short_options :: "(char \<times> bool) list" where
  "short_options = map (\<lambda>c. (c, False)) ''?lhptic'' @ [(CHR ''s'', True)]"

fun GetOptString :: "OptionID \<Rightarrow> string" where
  "GetOptString OPT_HELP = ''help''"
| "GetOptString OPT_LOGLEVEL = ''loglevel''"
| "GetOptString OPT_HOST = ''host''"
| "GetOptString OPT_PORT = ''port''"
| "GetOptString OPT_TLSPORT = ''tlsport''"
| "GetOptString OPT_IDENTITY = ''identity''"
| "GetOptString OPT_KEY = ''key''"
| "GetOptString OPT_VALUE = ''value''"
| "GetOptString OPT_CLUSTERVERSION = ''clusterversion''"
| "GetOptString OPT_FILE = ''file''"
| "GetOptString OPT_HMACKEY = ''hmackey''"
| "GetOptString OPT_NEWCLUSTERVERSION = ''newclusterversion''"
| "GetOptString OPT_PIN = ''pin''"
| "GetOptString OPT_NEWPIN = ''newpin''"
| "GetOptString OPT_LOGTYPE = ''logtype''"
| "GetOptString OPT_NOOP = ''noop''"
| "GetOptString OPT_PUT = ''put''"
| "GetOptString OPT_GET = ''get''"
| "GetOptString OPT_DELETE = ''delete''"
| "GetOptString OPT_GETNEXT = ''getnext''"
| "GetOptString OPT_GETPREVIOUS = ''getprevious''"
| "GetOptString OPT_GETLOG = ''getlog''"
| "GetOptString OPT_GETDEVICESPECIFICLOG = ''getdevicespecificlog''"
| "GetOptString OPT_SETERASEPIN = ''seterasepin''"
| "GetOptString OPT_INSTANTERASE = ''instanterase''"
| "GetOptString OPT_SECUREERASE = ''secureerase''"
| "GetOptString OPT_SETLOCKPIN = ''setlockpin''"
| "GetOptString OPT_LOCKDEVICE = ''lockdevice''"
| "GetOptString OPT_UNLOCKDEVICE = ''unlockdevice''"
| "GetOptString OPT_SETCLUSTERVERSION = ''setclusterversion''"
| "GetOptString OPT_SETACL = ''setacl''"
| "GetOptString OPT_UPDATEFIRMWARE = ''updatefirmware''"
| "GetOptString _ = ''<UNKNOWN OPTION>''"

section \<open>The answers of getopt\<close>

type_synonym answer = "int \<times> string option"

definition bad_option :: answer where
  "bad_option = (of_char (CHR ''?''), None)"

text \<open>A word of short options.\<close>

fun short_cluster :: "string \<Rightarrow> string list \<Rightarrow> answer list \<times> string list" where
  "short_cluster [] args = ([], args)"
| "short_cluster (c # cs) args =
     (case map_of short_options c of
        Some True \<Rightarrow>
          if cs \<noteq> [] then ([(of_char c, Some cs)], args)
          else (case args of [] \<Rightarrow> ([bad_option], []) | a # as \<Rightarrow> ([(of_char c, Some a)], as))
      | found \<Rightarrow>
          (let (ans, rest) = short_cluster cs args in ((if found = None then bad_option else (of_char c, None)) # ans, rest)))"

text \<open>A long option is named in full or by a beginning that no other one has.\<close>

definition long_match :: "string \<Rightarrow> (bool \<times> OptionID) option" where
  "long_match name =
     (case map_of long_options name of
        Some o1 \<Rightarrow> Some o1
      | None \<Rightarrow> (case filter (\<lambda>(n, _). prefix name n) long_options of [(_, o1)] \<Rightarrow> Some o1 | _ \<Rightarrow> None))"

definition long_option :: "string \<Rightarrow> string list \<Rightarrow> answer \<times> string list" where
  "long_option word args =
     (let name = takeWhile (\<lambda>c. c \<noteq> CHR ''='') word;
          value = (case dropWhile (\<lambda>c. c \<noteq> CHR ''='') word of [] \<Rightarrow> None | _ # v \<Rightarrow> Some v)
      in case long_match name of
           None \<Rightarrow> (bad_option, args)
         | Some (False, i) \<Rightarrow> ((if value = None then (OptionID_code i, None) else bad_option), args)
         | Some (True, i) \<Rightarrow>
             (case value of
                Some v \<Rightarrow> ((OptionID_code i, Some v), args)
              | None \<Rightarrow> (case args of [] \<Rightarrow> (bad_option, []) | a # as \<Rightarrow> ((OptionID_code i, Some a), as))))"

lemma short_cluster_rest: "length (snd (short_cluster cs args)) \<le> length args"
  by (induction cs args rule: short_cluster.induct) (auto split: option.splits list.splits prod.splits bool.splits if_splits)

lemma long_option_rest: "length (snd (long_option w args)) \<le> length args"
  by (auto simp: long_option_def Let_def split: option.splits list.splits bool.splits)

text \<open>The sequence of its answers. Words that are no options are passed over, two dashes alone end the options.\<close>

function getopt_long :: "string list \<Rightarrow> answer list" where
  "getopt_long [] = []"
| "getopt_long (w # args) =
     (if w = ''--'' then []
      else if take 2 w = ''--'' then (let (a, rest) = long_option (drop 2 w) args in a # getopt_long rest)
      else if take 1 w = ''-'' \<and> w \<noteq> ''-'' then (let (as, rest) = short_cluster (drop 1 w) args in as @ getopt_long rest)
      else getopt_long args)"
  by pat_completeness auto
termination
proof (relation "measure length", goal_cases)
  case (2 w args x a rest)
  with long_option_rest [of "drop 2 w" args] show ?case by (metis in_measure le_imp_less_Suc length_Cons snd_conv)
next
  case (3 w args x a rest)
  with short_cluster_rest [of "drop 1 w" args] show ?case by (metis in_measure le_imp_less_Suc length_Cons snd_conv)
qed simp_all

section \<open>Usage\<close>

text \<open>The lines of \<^verbatim>\<open>PrintUsage\<close>.\<close>

definition plain_tail :: string where
  "plain_tail = '' [--host <ip|hostname>] [--port <port>] [--clusterversion <clusterversion>]''"

definition admin_tail :: string where
  "admin_tail = '' [--host <ip|hostname>] [--tlsport <tlsport>] [--clusterversion <clusterversion>]''"

definition usage_lines :: "string list" where
  "usage_lines =
      ['' --help'',
       '' --noop'' @ plain_tail,
       '' --put --key <key> --value <value>'' @ plain_tail,
       '' --get --key <key>'' @ plain_tail,
       '' --getnext --key <key>'' @ plain_tail,
       '' --getprevious --key <key>'' @ plain_tail,
       '' --delete --key <key>'' @ plain_tail,
       '' --getlog --logtype <utilizations|temperatures|capacities|configuration|statistics|messages|limits>'' @ admin_tail,
       '' --getdevicespecificlog --devicelogname <name|ID>'' @ admin_tail,
       '' --setclusterversion --newclusterversion <newclusterversion>'' @ admin_tail,
       '' --seterasepin --pin <oldpin> --newpin <newerasepin>'' @ admin_tail,
       '' --instanterase --pin <erasepin>'' @ admin_tail,
       '' --secureerase --pin <erasepin>'' @ admin_tail,
       '' --setlockpin --pin <oldpin>> <--newpin <newpin>'' @ admin_tail,
       '' --lockdevice --pin <lockpin>'' @ admin_tail,
       '' --unlockdevice --pin <lockpin>'' @ admin_tail,
       '' --setacl --file <acl_json_file>'' @ admin_tail,
       '' --updatefirmware --file <file> --pin <pin>'' @ plain_tail @ '' '']"

definition PrintUsage :: "string \<Rightarrow> string list" where
  "PrintUsage exec = (''Usage: '' @ exec @ '' --<cmd> [options...]'') # map ((@) exec) usage_lines"

section \<open>Configuration\<close>

definition KINETIC_PORT :: int where "KINETIC_PORT = 8123"
definition KINETIC_TLS_PORT :: int where "KINETIC_TLS_PORT = 8443"

text \<open>The arrays of the structure the entry points into are blocks of the heap, the others are part of the record.\<close>

definition keyData :: ptr where "keyData = Ptr 1 0"
definition tagData :: ptr where "tagData = Ptr 2 0"
definition newVersionData :: ptr where "newVersionData = Ptr 3 0"
definition versionData :: ptr where "versionData = Ptr 4 0"
definition valueData :: ptr where "valueData = Ptr 5 0"

record UtilConfig =
  uc_opID :: OptionID
  uc_logLevel :: int
  uc_config :: KineticSessionConfig
  uc_adminConfig :: KineticSessionConfig
  uc_pin :: cbuf
  uc_newPin :: cbuf
  uc_newClusterVersion :: int
  uc_file :: cbuf
  uc_logType :: KineticLogInfo_Type
  uc_deviceLogName :: cbuf
  uc_entry :: KineticEntry

record util_opts =
  uo_opID :: OptionID
  uo_logLevel :: int
  uo_host :: cbuf
  uo_port :: int
  uo_tlsPort :: int
  uo_clusterVersion :: int
  uo_identity :: int
  uo_hmacKey :: cbuf
  uo_logType :: cbuf
  uo_deviceLogName :: cbuf
  uo_key :: cbuf
  uo_version :: cbuf
  uo_tag :: cbuf
  uo_algorithm :: KineticAlgorithm
  uo_force :: bool
  uo_value :: cbuf

definition zero_entry :: KineticEntry where
  "zero_entry = \<lparr>ke_key = BYTE_BUFFER_NONE, ke_value = BYTE_BUFFER_NONE, ke_dbVersion = BYTE_BUFFER_NONE, ke_tag = BYTE_BUFFER_NONE,
     ke_algorithm = KINETIC_ALGORITHM_OTHER 0, ke_newVersion = BYTE_BUFFER_NONE, ke_metadataOnly = False, ke_force = False,
     ke_computeTag = False, ke_synchronization = KINETIC_SYNCHRONIZATION_OTHER 0\<rparr>"

definition zero_config :: KineticSessionConfig where
  "zero_config = \<lparr>sc_host = [], sc_port = 0, sc_clusterVersion = 0, sc_identity = 0, sc_hmacKey = None, sc_useSsl = False, sc_timeoutSeconds = 0\<rparr>"

text \<open>What \<^verbatim>\<open>main\<close> clears.\<close>

definition zero_cfg :: UtilConfig where
  "zero_cfg = \<lparr>uc_opID = OPT_NONE, uc_logLevel = 0, uc_config = zero_config, uc_adminConfig = zero_config, uc_pin = replicate 32 NUL,
     uc_newPin = replicate 32 NUL, uc_newClusterVersion = 0, uc_file = replicate 256 NUL, uc_logType = DEVICE_INFO_OTHER 0,
     uc_deviceLogName = replicate 64 NUL, uc_entry = zero_entry\<rparr>"

definition cfg_heap :: heap where
  "cfg_heap = [1 \<mapsto> replicate 1024 0, 2 \<mapsto> replicate 1024 0, 3 \<mapsto> replicate 1024 0, 4 \<mapsto> replicate 1024 0, 5 \<mapsto> replicate KINETIC_OBJ_SIZE 0]"

text \<open>\<open>host_max\<close> is \<^verbatim>\<open>HOST_NAME_MAX\<close>, which depends on the platform.\<close>

definition default_opts :: "nat \<Rightarrow> util_opts" where
  "default_opts host_max =
     \<lparr>uo_opID = OPT_NONE, uo_logLevel = 0, uo_host = char_array host_max ''localhost'', uo_port = KINETIC_PORT,
      uo_tlsPort = KINETIC_TLS_PORT, uo_clusterVersion = 0, uo_identity = 1, uo_hmacKey = char_array KINETIC_MAX_KEY_LEN ''asdfasdf'',
      uo_logType = char_array 64 ''utilizations'', uo_deviceLogName = char_array 64 [], uo_key = char_array 64 ''foo'', uo_version = char_array 64 [],
      uo_tag = char_array 64 ''SomeTagValue'', uo_algorithm = KINETIC_ALGORITHM_SHA1, uo_force = True, uo_value = char_array 1024 ''Hello!''\<rparr>"

definition bytes_of :: "string \<Rightarrow> u8 list" where
  "bytes_of = map of_char"

definition ConfigureEntry ::
  "heap \<Rightarrow> ptr \<Rightarrow> ptr \<Rightarrow> ptr \<Rightarrow> KineticAlgorithm \<Rightarrow> bool \<Rightarrow> ptr \<Rightarrow> (heap \<times> KineticEntry) option" where
  "ConfigureEntry h key tag version algorithm force value =
     do { (h1, k) \<leftarrow> ByteBuffer_CreateAndAppendCString h keyData 1024 key;
          (h2, t) \<leftarrow> ByteBuffer_CreateAndAppendCString h1 tagData 1024 tag;
          (h3, nv) \<leftarrow> ByteBuffer_CreateAndAppendCString h2 newVersionData 1024 version;
          dv \<leftarrow> ByteBuffer_Create versionData 1024 0;
          (h4, v) \<leftarrow> ByteBuffer_CreateAndAppendCString h3 valueData (of_nat KINETIC_OBJ_SIZE) value;
          Some (h4, zero_entry\<lparr>ke_key := k, ke_tag := t, ke_newVersion := nv, ke_dbVersion := dv, ke_algorithm := algorithm, ke_value := v,
            ke_synchronization := KINETIC_SYNCHRONIZATION_WRITETHROUGH, ke_force := force\<rparr>) }"

section \<open>Parsing\<close>

type_synonym util_exit = "int \<times> string list"

definition operations :: "OptionID list" where
  "operations = [OPT_NOOP, OPT_PUT, OPT_GET, OPT_DELETE, OPT_GETNEXT, OPT_GETPREVIOUS, OPT_GETLOG, OPT_GETDEVICESPECIFICLOG, OPT_SETERASEPIN,
     OPT_INSTANTERASE, OPT_SECUREERASE, OPT_SETLOCKPIN, OPT_LOCKDEVICE, OPT_UNLOCKDEVICE, OPT_SETCLUSTERVERSION, OPT_SETACL, OPT_UPDATEFIRMWARE]"

definition settings :: "OptionID list" where
  "settings = [OPT_LOGLEVEL, OPT_HOST, OPT_PORT, OPT_TLSPORT, OPT_IDENTITY, OPT_HMACKEY, OPT_KEY, OPT_VALUE, OPT_CLUSTERVERSION,
     OPT_NEWCLUSTERVERSION, OPT_FILE, OPT_PIN, OPT_NEWPIN, OPT_LOGTYPE, OPT_DEVICELOGNAME]"

text \<open>An option with an argument: one branch of the switch each.\<close>

fun apply_setting :: "OptionID \<Rightarrow> string \<Rightarrow> util_opts \<times> UtilConfig \<Rightarrow> (util_opts \<times> UtilConfig) option" where
  "apply_setting OPT_LOGLEVEL a (opt, c) = do { n \<leftarrow> atoi a; Some (opt\<lparr>uo_logLevel := n\<rparr>, c) }"
| "apply_setting OPT_HOST a (opt, c) = Some (opt\<lparr>uo_host := strncpy (uo_host opt) a (length (uo_host opt))\<rparr>, c)"
| "apply_setting OPT_PORT a (opt, c) = do { n \<leftarrow> atoi a; Some (opt\<lparr>uo_port := n\<rparr>, c) }"
| "apply_setting OPT_TLSPORT a (opt, c) = do { n \<leftarrow> atoi a; Some (opt\<lparr>uo_tlsPort := n\<rparr>, c) }"
| "apply_setting OPT_IDENTITY a (opt, c) = do { n \<leftarrow> atoi a; Some (opt\<lparr>uo_identity := n\<rparr>, c) }"
| "apply_setting OPT_HMACKEY a (opt, c) = Some (opt\<lparr>uo_hmacKey := strncpy (uo_hmacKey opt) a (KINETIC_MAX_KEY_LEN - 1)\<rparr>, c)"
| "apply_setting OPT_KEY a (opt, c) = Some (opt\<lparr>uo_key := strncpy (uo_key opt) a 63\<rparr>, c)"
| "apply_setting OPT_VALUE a (opt, c) = Some (opt\<lparr>uo_value := strncpy (uo_value opt) a 1023\<rparr>, c)"
| "apply_setting OPT_CLUSTERVERSION a (opt, c) = do { n \<leftarrow> atol a; Some (opt\<lparr>uo_clusterVersion := n\<rparr>, c) }"
| "apply_setting OPT_NEWCLUSTERVERSION a (opt, c) = do { n \<leftarrow> atol a; Some (opt, c\<lparr>uc_newClusterVersion := n\<rparr>) }"
| "apply_setting OPT_FILE a (opt, c) = Some (opt, c\<lparr>uc_file := strncpy (uc_file c) a 255\<rparr>)"
| "apply_setting OPT_PIN a (opt, c) = Some (opt, c\<lparr>uc_pin := strncpy (uc_pin c) a 31\<rparr>)"
| "apply_setting OPT_NEWPIN a (opt, c) = Some (opt, c\<lparr>uc_newPin := strncpy (uc_newPin c) a 31\<rparr>)"
| "apply_setting OPT_LOGTYPE a (opt, c) = Some (opt\<lparr>uo_logType := strncpy (uo_logType opt) a 63\<rparr>, c)"
| "apply_setting OPT_DEVICELOGNAME a (opt, c) = Some (opt, c\<lparr>uc_deviceLogName := strncpy (uc_deviceLogName c) a 63\<rparr>)"
| "apply_setting _ a s = None"

text \<open>The switch. A null argument that is read is undefined. Zero, which \<^verbatim>\<open>getopt_long\<close> returns only for an option with a flag, falls through to the
  log level.\<close>

definition handle_option :: "string \<Rightarrow> answer \<Rightarrow> util_opts \<times> UtilConfig \<Rightarrow> (util_exit + (util_opts \<times> UtilConfig)) option" where
  "handle_option exec ans s =
     (let (option, optarg) = ans in
      case find (\<lambda>i. OptionID_code i = option) (OPT_NONE # settings) of
        Some i \<Rightarrow> do { a \<leftarrow> optarg; s' \<leftarrow> apply_setting (if i = OPT_NONE then OPT_LOGLEVEL else i) a s; Some (Inr s') }
      | None \<Rightarrow>
          (case find (\<lambda>i. OptionID_code i = option) operations of
             Some i \<Rightarrow>
               if uo_opID (fst s) = OPT_NONE then Some (Inr ((fst s)\<lparr>uo_opID := i\<rparr>, snd s))
               else Some (Inl (-1, ''Multiple operations specified!'' # PrintUsage exec))
           | None \<Rightarrow>
               if option = OptionID_code OPT_HELP then Some (Inl (0, PrintUsage exec)) else Some (Inl (-1, PrintUsage exec))))"

fun handle_options :: "string \<Rightarrow> answer list \<Rightarrow> util_opts \<times> UtilConfig \<Rightarrow> (util_exit + (util_opts \<times> UtilConfig)) option" where
  "handle_options exec [] s = Some (Inr s)"
| "handle_options exec (a # as) s =
     do { r \<leftarrow> handle_option exec a s;
          (case r of Inl e \<Rightarrow> Some (Inl e) | Inr s' \<Rightarrow> handle_options exec as s') }"

definition log_types :: "(string \<times> KineticLogInfo_Type) list" where
  "log_types =
     [(''utilizations'', DEVICE_INFO_UTILIZATIONS), (''temperatures'', DEVICE_INFO_TEMPERATURES), (''capacities'', DEVICE_INFO_CAPACITIES),
      (''configuration'', DEVICE_INFO_CONFIGURATION), (''statistics'', DEVICE_INFO_STATISTICS), (''messages'', DEVICE_INFO_MESSAGES),
      (''limits'', DEVICE_INFO_LIMITS)]"

text \<open>The session's configuration. The key is copied into an array of 1024 bytes; more of it is written past the end.\<close>

definition session_config :: "nat \<Rightarrow> util_opts \<Rightarrow> KineticSessionConfig option" where
  "session_config host_max opt =
     do { c_assert (length (cstr (uo_hmacKey opt)) \<le> 1024);
          Some \<lparr>sc_host = cstr (strncpy (replicate host_max NUL) (uo_host opt) (host_max - 1)), sc_port = uo_port opt,
            sc_clusterVersion = uo_clusterVersion opt, sc_identity = uo_identity opt, sc_hmacKey = Some (bytes_of (cstr (uo_hmacKey opt))),
            sc_useSsl = False, sc_timeoutSeconds = 0\<rparr> }"

text \<open>The strings of the options are blocks 6 to 9 of the heap.\<close>

definition opts_heap :: "util_opts \<Rightarrow> heap" where
  "opts_heap opt = cfg_heap(6 \<mapsto> bytes_of (uo_key opt), 7 \<mapsto> bytes_of (uo_tag opt), 8 \<mapsto> bytes_of (uo_version opt), 9 \<mapsto> bytes_of (uo_value opt))"

definition ParseOptions :: "nat \<Rightarrow> string \<Rightarrow> string list \<Rightarrow> (util_exit + (UtilConfig \<times> heap)) option" where
  "ParseOptions host_max exec args =
     do { r \<leftarrow> handle_options exec (getopt_long args) (default_opts host_max, zero_cfg);
          (case r of Inl e \<Rightarrow> Some (Inl e)
           | Inr (opt, c) \<Rightarrow>
               do { config \<leftarrow> session_config host_max opt;
                    (h, e) \<leftarrow> ConfigureEntry (opts_heap opt) (Ptr 6 0) (Ptr 7 0) (Ptr 8 0) (uo_algorithm opt) (uo_force opt) (Ptr 9 0);
                    (case map_of log_types (cstr (uo_logType opt)) of
                       None \<Rightarrow> Some (Inl (1, [''Invalid log info type: '' @ cstr (uo_logType opt)]))
                     | Some t \<Rightarrow>
                         Some (Inr (c\<lparr>uc_logLevel := uo_logLevel opt, uc_config := config,
                           uc_adminConfig := config\<lparr>sc_port := uo_tlsPort opt, sc_useSsl := True\<rparr>,
                           uc_entry := e, uc_opID := uo_opID opt, uc_logType := t\<rparr>, h))) }) }"

section \<open>A command line and what it sets\<close>

text \<open>A command line of settings with their arguments and one operation, written with the long names. The last setting of an option counts.\<close>

definition long_name :: "OptionID \<Rightarrow> string" where
  "long_name i = the (map_of (map (\<lambda>(n, _, j). (j, n)) long_options) i)"

definition settings_line :: "(OptionID \<times> string) list \<Rightarrow> string list" where
  "settings_line ss = concat (map (\<lambda>(i, a). [''--'' @ long_name i, a]) ss)"

definition given :: "(OptionID \<times> string) list \<Rightarrow> OptionID \<Rightarrow> 'a \<Rightarrow> (string \<Rightarrow> 'a) \<Rightarrow> 'a" where
  "given ss i d f = (case map_of (rev ss) i of None \<Rightarrow> d | Some a \<Rightarrow> f a)"

definition setting_ok :: "OptionID \<times> string \<Rightarrow> bool" where
  "setting_ok = (\<lambda>(i, a). i \<in> set settings \<and> NUL \<notin> set a \<and>
     (i \<in> {OPT_LOGLEVEL, OPT_PORT, OPT_TLSPORT, OPT_IDENTITY} \<longrightarrow> atoi a \<noteq> None) \<and>
     (i \<in> {OPT_CLUSTERVERSION, OPT_NEWCLUSTERVERSION} \<longrightarrow> atol a \<noteq> None))"

lemma given_Nil [simp]: "given [] i d f = d"
  by (simp add: given_def)

lemma given_snoc [simp]: "given (ss @ [(j, a)]) i d f = (if i = j then f a else given ss i d f)"
  by (simp add: given_def)

lemma settings_line_simps [simp]:
  "settings_line [] = []" "settings_line ((i, a) # ss) = (''--'' @ long_name i) # a # settings_line ss"
  by (simp_all add: settings_line_def)

text \<open>The tables are consistent; each fact about them is computed once.\<close>

lemma settings_table:
  "list_all (\<lambda>i. long_match (long_name i) = Some (True, i) \<and> CHR ''='' \<notin> set (long_name i) \<and> long_name i \<noteq> [] \<and> i \<noteq> OPT_NONE \<and>
     find (\<lambda>j. OptionID_code j = OptionID_code i) (OPT_NONE # settings) = Some i) settings"
  by code_simp

lemma operations_table:
  "list_all (\<lambda>i. long_match (long_name i) = Some (False, i) \<and> CHR ''='' \<notin> set (long_name i) \<and> long_name i \<noteq> [] \<and>
     find (\<lambda>j. OptionID_code j = OptionID_code i) (OPT_NONE # settings) = None \<and>
     find (\<lambda>j. OptionID_code j = OptionID_code i) operations = Some i) operations"
  by code_simp

lemma usage_table: "list_all (\<lambda>i. list_ex (prefix ('' --'' @ long_name i)) usage_lines) operations"
  by code_simp

lemmas settings_facts = settings_table [unfolded list_all_iff, rule_format]
lemmas operations_facts = operations_table [unfolded list_all_iff, rule_format]

lemma no_equals:
  "CHR ''='' \<notin> set n \<Longrightarrow> takeWhile (\<lambda>c. c \<noteq> CHR ''='') n = n" "CHR ''='' \<notin> set n \<Longrightarrow> dropWhile (\<lambda>c. c \<noteq> CHR ''='') n = []"
  by (induction n) auto

lemma getopt_setting: "i \<in> set settings \<Longrightarrow> getopt_long ((''--'' @ long_name i) # a # rest) = (OptionID_code i, Some a) # getopt_long rest"
  using settings_facts [of i] by (simp add: long_option_def no_equals del: find.simps)

lemma getopt_operation: "i \<in> set operations \<Longrightarrow> getopt_long ((''--'' @ long_name i) # rest) = (OptionID_code i, None) # getopt_long rest"
  using operations_facts [of i] by (simp add: long_option_def no_equals del: find.simps)

lemma handle_setting:
  assumes "i \<in> set settings" shows "handle_option exec (OptionID_code i, Some a) s = map_option Inr (apply_setting i a s)"
proof -
  from settings_facts [OF assms] have "find (\<lambda>j. OptionID_code j = OptionID_code i) (OPT_NONE # settings) = Some i" "i \<noteq> OPT_NONE" by blast+
  then show ?thesis unfolding handle_option_def Let_def by (cases "apply_setting i a s") (simp_all del: find.simps)
qed

lemma handle_operation:
  assumes "i \<in> set operations" "uo_opID (fst s) = OPT_NONE"
  shows "handle_option exec (OptionID_code i, None) s = Some (Inr ((fst s)\<lparr>uo_opID := i\<rparr>, snd s))"
  using operations_facts [OF assms(1)] assms(2) unfolding handle_option_def Let_def by (simp del: find.simps)

section \<open>The arrays stay terminated\<close>

definition holds :: "cbuf \<Rightarrow> nat \<Rightarrow> string \<Rightarrow> bool" where
  "holds b n v \<longleftrightarrow> length b = Suc n \<and> b ! n = NUL \<and> cstr b = v"

lemma cstr_no_NUL [simp]: "NUL \<notin> set s \<Longrightarrow> cstr s = s"
  by (auto simp: cstr_def takeWhile_eq_all_conv)

lemma cstr_append_NUL: "NUL \<notin> set s \<Longrightarrow> cstr (s @ NUL # r) = s"
  by (auto simp: cstr_def takeWhile_append)

lemma cstr_pad: "NUL \<notin> set s \<Longrightarrow> cstr (s @ replicate k NUL) = s"
  by (cases k) (simp_all add: cstr_append_NUL)

lemma holds_char_array: "NUL \<notin> set s \<Longrightarrow> length s \<le> n \<Longrightarrow> holds (char_array (Suc n) s) n s"
  by (simp add: holds_def char_array_def cstr_pad nth_append)

lemma NUL_take: "NUL \<notin> set s \<Longrightarrow> NUL \<notin> set (take n s)"
  by (meson in_set_takeD)

lemma holds_strncpy:
  assumes "holds b n v" "NUL \<notin> set a" shows "holds (strncpy b a n) n (take n a)"
proof -
  from assms(1) have b: "length b = Suc n" "drop n b = [NUL]" by (auto simp: holds_def Cons_nth_drop_Suc [symmetric])
  note t = NUL_take [OF assms(2), of n]
  have eq: "strncpy b a n = take n a @ replicate (Suc n - length (take n a)) NUL"
    using b t by (simp add: strncpy_def Let_def replicate_append_same Suc_diff_le)
  show ?thesis unfolding holds_def eq using t by (simp add: cstr_pad nth_append)
qed

lemma strncpy_whole:
  assumes "NUL \<notin> set a" shows "length (strncpy b a (length b)) = length b" "cstr (strncpy b a (length b)) = take (length b) a"
  using NUL_take [OF assms, of "length b"] by (simp_all add: strncpy_def Let_def cstr_pad)

lemma cstr_set [simp]: "NUL \<notin> set (cstr s)"
  by (auto simp: cstr_def dest: set_takeWhileD)

lemma takeWhile_take_commute: "takeWhile P (take n s) = take n (takeWhile P s)"
proof (induction s arbitrary: n)
  case (Cons x s)
  then show ?case by (cases n) simp_all
qed simp

lemma cstr_take: "cstr (take n s) = take n (cstr s)"
  by (simp add: cstr_def takeWhile_take_commute)

lemma holds_length: "holds b n v \<Longrightarrow> length v \<le> n"
proof (rule ccontr)
  assume h: "holds b n v" and "\<not> length v \<le> n"
  then have "cstr b ! n \<in> set (cstr b)" "cstr b ! n = b ! n" by (auto simp: holds_def cstr_def takeWhile_nth)
  with h show False by (metis cstr_set holds_def)
qed

lemma char_array_string: "NUL \<notin> set s \<Longrightarrow> length s \<le> n \<Longrightarrow> length (char_array n s) = n \<and> cstr (char_array n s) = s"
  by (simp add: char_array_def cstr_pad)

text \<open>What the options and the configuration hold after the settings \<open>ss\<close>.\<close>

definition configured :: "nat \<Rightarrow> (OptionID \<times> string) list \<Rightarrow> OptionID \<Rightarrow> util_opts \<times> UtilConfig \<Rightarrow> bool" where
  "configured host_max ss i = (\<lambda>(opt, c).
     uo_opID opt = i \<and> uo_logLevel opt = given ss OPT_LOGLEVEL 0 text_value \<and>
     length (uo_host opt) = host_max \<and> cstr (uo_host opt) = given ss OPT_HOST ''localhost'' (take host_max) \<and>
     uo_port opt = given ss OPT_PORT KINETIC_PORT text_value \<and> uo_tlsPort opt = given ss OPT_TLSPORT KINETIC_TLS_PORT text_value \<and>
     uo_clusterVersion opt = given ss OPT_CLUSTERVERSION 0 text_value \<and> uo_identity opt = given ss OPT_IDENTITY 1 text_value \<and>
     holds (uo_hmacKey opt) (KINETIC_MAX_KEY_LEN - 1) (given ss OPT_HMACKEY ''asdfasdf'' (take (KINETIC_MAX_KEY_LEN - 1))) \<and>
     holds (uo_logType opt) 63 (given ss OPT_LOGTYPE ''utilizations'' (take 63)) \<and>
     holds (uo_key opt) 63 (given ss OPT_KEY ''foo'' (take 63)) \<and> holds (uo_version opt) 63 [] \<and> holds (uo_tag opt) 63 ''SomeTagValue'' \<and>
     uo_algorithm opt = KINETIC_ALGORITHM_SHA1 \<and> uo_force opt \<and> holds (uo_value opt) 1023 (given ss OPT_VALUE ''Hello!'' (take 1023)) \<and>
     holds (uc_pin c) 31 (given ss OPT_PIN [] (take 31)) \<and> holds (uc_newPin c) 31 (given ss OPT_NEWPIN [] (take 31)) \<and>
     uc_newClusterVersion c = given ss OPT_NEWCLUSTERVERSION 0 text_value \<and> holds (uc_file c) 255 (given ss OPT_FILE [] (take 255)) \<and>
     holds (uc_deviceLogName c) 63 (given ss OPT_DEVICELOGNAME [] (take 63)))"

lemma holds_zero: "holds (replicate (Suc n) NUL) n []"
  using holds_char_array [of "[]" n] by (simp add: char_array_def)

lemma configured_start: "10 \<le> host_max \<Longrightarrow> configured host_max [] OPT_NONE (default_opts host_max, zero_cfg)"
  using holds_char_array [of "''asdfasdf''" "KINETIC_MAX_KEY_LEN - 1"] holds_char_array [of "''utilizations''" 63] holds_char_array [of "''foo''" 63]
    holds_char_array [of "[]" 63] holds_char_array [of "''SomeTagValue''" 63] holds_char_array [of "''Hello!''" 1023] holds_zero [of 31] holds_zero [of 255]
    holds_zero [of 63] char_array_string [of "''localhost''" host_max]
  by (simp add: configured_def default_opts_def zero_cfg_def KINETIC_MAX_KEY_LEN_def)

lemma configured_operation: "configured host_max ss j (opt, c) \<Longrightarrow> configured host_max ss i (opt\<lparr>uo_opID := i\<rparr>, c)"
  by (simp add: configured_def)

lemma number_values: "atoi a \<noteq> None \<Longrightarrow> atoi a = Some (text_value a)" "atol a \<noteq> None \<Longrightarrow> atol a = Some (text_value a)"
  by (auto simp: atoi_def atol_def split: if_splits)

lemma configured_setting:
  assumes "configured host_max ss j (opt, c)" "setting_ok (i, a)"
  shows "\<exists>s'. apply_setting i a (opt, c) = Some s' \<and> configured host_max (ss @ [(i, a)]) j s'"
proof -
  from assms(2) have i: "i \<in> set settings" and a: "NUL \<notin> set a" by (auto simp: setting_ok_def)
  show ?thesis
    using assms i holds_strncpy [OF _ a] strncpy_whole [OF a, of "uo_host opt"]
    unfolding settings_def set_simps
    by (elim insertE emptyE; simp add: configured_def setting_ok_def number_values; blast)
qed

lemma handle_settings:
  "configured host_max ss j s \<Longrightarrow> list_all setting_ok ts \<Longrightarrow>
     \<exists>s'. handle_options exec (getopt_long (settings_line ts @ rest)) s = handle_options exec (getopt_long rest) s' \<and> configured host_max (ss @ ts) j s'"
proof (induction ts arbitrary: ss s)
  case (Cons t ts)
  obtain i a where t: "t = (i, a)" by (cases t)
  obtain opt c where s: "s = (opt, c)" by (cases s)
  from Cons.prems t have ok: "setting_ok (i, a)" "list_all setting_ok ts" by simp_all
  then have i: "i \<in> set settings" by (simp add: setting_ok_def)
  from configured_setting [OF Cons.prems(1) [unfolded s] ok(1)] obtain s1 where s1: "apply_setting i a s = Some s1" "configured host_max (ss @ [(i, a)]) j s1"
    by (auto simp: s)
  have g: "getopt_long (settings_line (t # ts) @ rest) = (OptionID_code i, Some a) # getopt_long (settings_line ts @ rest)"
    using getopt_setting [OF i, of a "settings_line ts @ rest"] by (simp add: t del: getopt_long.simps)
  from Cons.IH [OF s1(2) ok(2)] show ?case
    unfolding g by (simp add: t s1(1) handle_setting [OF i])
qed (auto intro: exI)

lemma handle_command_line:
  assumes "10 \<le> host_max" "list_all setting_ok ss" "list_all setting_ok ts" "i \<in> set operations"
  shows "\<exists>s. handle_options exec (getopt_long (settings_line ss @ [''--'' @ long_name i] @ settings_line ts)) (default_opts host_max, zero_cfg) = Some (Inr s) \<and>
    configured host_max (ss @ ts) i s"
proof -
  let ?rest = "[''--'' @ long_name i] @ settings_line ts"
  from handle_settings [OF configured_start [OF assms(1)] assms(2), of exec ?rest] obtain opt c where
    1: "handle_options exec (getopt_long (settings_line ss @ ?rest)) (default_opts host_max, zero_cfg) = handle_options exec (getopt_long ?rest) (opt, c)"
      "configured host_max ss OPT_NONE (opt, c)" by auto
  have "uo_opID opt = OPT_NONE" using 1(2) by (simp add: configured_def)
  then have 2: "handle_options exec (getopt_long ?rest) (opt, c) = handle_options exec (getopt_long (settings_line ts)) (opt\<lparr>uo_opID := i\<rparr>, c)"
    using getopt_operation [OF assms(4), of "settings_line ts"] handle_operation [OF assms(4), of "(opt, c)"] by (simp del: getopt_long.simps)
  from handle_settings [OF configured_operation [OF 1(2), of i] assms(3), of exec "[]"] show ?thesis unfolding 1(1) 2 by simp
qed

section \<open>The entry\<close>

lemma of_char_byte_eq_0: "(of_char c :: u8) = 0 \<longleftrightarrow> c = NUL"
proof
  assume "(of_char c :: u8) = 0"
  then have "(of_nat (of_char c :: nat) :: u8) = 0" by (simp add: of_nat_of_char)
  then have "256 dvd (of_char c :: nat)" by (simp add: word_of_nat_eq_0_iff)
  moreover have "(of_char c :: nat) < 256" by simp
  ultimately have "(of_char c :: nat) = 0" by (metis gr0I nat_dvd_not_less)
  then have "(of_char c :: nat) = of_char NUL" by simp
  then show "c = NUL" by (simp only: of_char_eq_iff)
qed simp

lemma bytes_of_cstr: "takeWhile (\<lambda>x. x \<noteq> 0) (bytes_of b) = bytes_of (cstr b)"
  by (simp add: bytes_of_def cstr_def takeWhile_map comp_def of_char_byte_eq_0)

lemma length_bytes_of [simp]: "length (bytes_of s) = length s"
  by (simp add: bytes_of_def)

lemma create_and_append_cstring:
  assumes "h b = Some bb" "h c = Some cc" "b \<noteq> c" "0 \<in> set cc" "takeWhile (\<lambda>x. x \<noteq> 0) cc = s" "length s \<le> length bb"
    "length bb < 2 ^ 31" "L = of_nat (length bb)" "0 < length bb"
  shows "ByteBuffer_CreateAndAppendCString h (Ptr b 0) L (Ptr c 0) =
    Some (h(b \<mapsto> splice_at bb 0 s), \<lparr>bb_array = \<lparr>ba_len = L, ba_data = Ptr b 0\<rparr>, bytesUsed = of_nat (length s)\<rparr>)"
proof -
  have len: "(scast (of_nat (length s) :: 32 word) :: size_t) = of_nat (length s)"
  proof -
    have "sint (of_nat (length s) :: 32 word) = int (length s)"
      using assms(6,7) by (simp add: signed_of_nat signed_take_bit_int_eq_self)
    then show ?thesis by (simp add: scast_eq)
  qed
  have u: "unat (of_nat (length s) :: size_t) = length s" "unat L = length bb"
    using assms(6-8) by (simp_all add: unat_of_nat take_bit_nat_eq_self)
  have L0: "L \<noteq> 0" using u(2) assms(9) by auto
  have cs: "cstring h (Ptr c 0) = Some s" using assms(2,4,5) by (simp add: cstring_def)
  have lc: "take (length s) cc = s" using assms(5) by (metis takeWhile_eq_take)
  have ls: "length s \<le> length cc" using assms(5) length_takeWhile_le by metis
  show ?thesis
  proof (cases "s = []")
    case True
    then have "h(b \<mapsto> splice_at bb 0 s) = h" using assms(1) by (simp add: splice_at_def fun_upd_idem)
    with True show ?thesis using cs L0
      by (simp add: ByteBuffer_CreateAndAppendCString_def ByteBuffer_Create_def ByteBuffer_AppendCString_def c_assert_def word_gt_0)
  next
    case False
    have nz: "(of_nat (length s) :: size_t) \<noteq> 0" using u(1) False by (metis length_0_conv unat_0)
    have le: "\<not> of_nat (length s) > L" using u assms(6) by (simp add: word_le_nat_alt not_less)
    have "memcpy h (Ptr b 0) (Ptr c 0) (length s) = Some (h(b \<mapsto> splice_at bb 0 s))"
      using assms(1-3,6) lc ls by (simp add: memcpy_def overlap_def c_assert_def load_bytes_def store_bytes_def)
    then show ?thesis using cs L0 nz le u(1)
      by (simp add: ByteBuffer_CreateAndAppendCString_def ByteBuffer_Create_def ByteBuffer_AppendCString_def c_assert_def word_gt_0 len)
  qed
qed

lemma holds_terminated: "holds b n v \<Longrightarrow> 0 \<in> set (bytes_of b) \<and> takeWhile (\<lambda>x. x \<noteq> 0) (bytes_of b) = bytes_of v"
proof -
  assume h: "holds b n v"
  then have "NUL \<in> set b" by (metis holds_def lessI nth_mem)
  then have "of_char NUL \<in> set (bytes_of b)" unfolding bytes_of_def by (metis image_eqI set_map)
  with h show ?thesis by (simp add: bytes_of_cstr holds_def)
qed

text \<open>A buffer over the whole of block \<open>b\<close> of \<open>n\<close> bytes, holding \<open>v\<close>.\<close>

definition buffer_of :: "heap \<Rightarrow> byte_buffer \<Rightarrow> nat \<Rightarrow> nat \<Rightarrow> u8 list \<Rightarrow> bool" where
  "buffer_of h bf b n v \<longleftrightarrow> bf = \<lparr>bb_array = \<lparr>ba_len = of_nat n, ba_data = Ptr b 0\<rparr>, bytesUsed = of_nat (length v)\<rparr> \<and>
     (\<exists>bs. h b = Some bs \<and> length bs = n \<and> take (length v) bs = v) \<and> length v \<le> n"

lemma buffer_of_contents: "buffer_of h bf b n v \<Longrightarrow> n < 2 ^ 31 \<Longrightarrow> contents h bf = v"
  by (auto simp: buffer_of_def contents_def load_bytes_def unat_of_nat take_bit_nat_eq_self)

definition util_entry :: "heap \<Rightarrow> KineticEntry \<Rightarrow> string \<Rightarrow> string \<Rightarrow> string \<Rightarrow> bool" where
  "util_entry h e key tag val \<longleftrightarrow>
     buffer_of h (ke_key e) 1 1024 (bytes_of key) \<and> buffer_of h (ke_tag e) 2 1024 (bytes_of tag) \<and> buffer_of h (ke_newVersion e) 3 1024 [] \<and>
     buffer_of h (ke_dbVersion e) 4 1024 [] \<and> buffer_of h (ke_value e) 5 KINETIC_OBJ_SIZE (bytes_of val) \<and>
     ke_algorithm e = KINETIC_ALGORITHM_SHA1 \<and> ke_force e \<and> \<not> ke_metadataOnly e \<and> \<not> ke_computeTag e \<and>
     ke_synchronization e = KINETIC_SYNCHRONIZATION_WRITETHROUGH"

lemma ConfigureEntry_opts:
  assumes "holds (uo_key opt) 63 k" "holds (uo_tag opt) 63 t" "holds (uo_version opt) 63 []" "holds (uo_value opt) 1023 v"
  shows "\<exists>h e. ConfigureEntry (opts_heap opt) (Ptr 6 0) (Ptr 7 0) (Ptr 8 0) KINETIC_ALGORITHM_SHA1 True (Ptr 9 0) = Some (h, e) \<and> util_entry h e k t v"
proof -
  note T = assms [THEN holds_terminated] and L = assms [THEN holds_length]
  let ?h0 = "opts_heap opt"
  let ?h1 = "?h0(1 \<mapsto> splice_at (replicate 1024 0) 0 (bytes_of k))"
  let ?h2 = "?h1(2 \<mapsto> splice_at (replicate 1024 0) 0 (bytes_of t))"
  let ?h3 = "?h2(3 \<mapsto> splice_at (replicate 1024 0) 0 [])"
  let ?h4 = "?h3(5 \<mapsto> splice_at (replicate KINETIC_OBJ_SIZE 0) 0 (bytes_of v))"
  have e1: "ByteBuffer_CreateAndAppendCString ?h0 (Ptr 1 0) 1024 (Ptr 6 0) =
    Some (?h1, \<lparr>bb_array = \<lparr>ba_len = 1024, ba_data = Ptr 1 0\<rparr>, bytesUsed = of_nat (length k)\<rparr>)"
    using T(1) L(1) by (subst create_and_append_cstring) (auto simp: opts_heap_def cfg_heap_def)
  have e2: "ByteBuffer_CreateAndAppendCString ?h1 (Ptr 2 0) 1024 (Ptr 7 0) =
    Some (?h2, \<lparr>bb_array = \<lparr>ba_len = 1024, ba_data = Ptr 2 0\<rparr>, bytesUsed = of_nat (length t)\<rparr>)"
    using T(2) L(2) by (subst create_and_append_cstring) (auto simp: opts_heap_def cfg_heap_def)
  have e3: "ByteBuffer_CreateAndAppendCString ?h2 (Ptr 3 0) 1024 (Ptr 8 0) =
    Some (?h3, \<lparr>bb_array = \<lparr>ba_len = 1024, ba_data = Ptr 3 0\<rparr>, bytesUsed = 0\<rparr>)"
    using T(3) by (subst create_and_append_cstring) (auto simp: opts_heap_def cfg_heap_def bytes_of_def)
  have e4: "ByteBuffer_CreateAndAppendCString ?h3 (Ptr 5 0) (of_nat KINETIC_OBJ_SIZE) (Ptr 9 0) =
    Some (?h4, \<lparr>bb_array = \<lparr>ba_len = of_nat KINETIC_OBJ_SIZE, ba_data = Ptr 5 0\<rparr>, bytesUsed = of_nat (length v)\<rparr>)"
    using T(4) L(4) by (subst create_and_append_cstring) (auto simp: opts_heap_def cfg_heap_def KINETIC_OBJ_SIZE_def)
  let ?e = "zero_entry\<lparr>ke_key := \<lparr>bb_array = \<lparr>ba_len = 1024, ba_data = Ptr 1 0\<rparr>, bytesUsed = of_nat (length k)\<rparr>,
    ke_tag := \<lparr>bb_array = \<lparr>ba_len = 1024, ba_data = Ptr 2 0\<rparr>, bytesUsed = of_nat (length t)\<rparr>,
    ke_newVersion := \<lparr>bb_array = \<lparr>ba_len = 1024, ba_data = Ptr 3 0\<rparr>, bytesUsed = 0\<rparr>,
    ke_dbVersion := \<lparr>bb_array = \<lparr>ba_len = 1024, ba_data = Ptr 4 0\<rparr>, bytesUsed = 0\<rparr>, ke_algorithm := KINETIC_ALGORITHM_SHA1,
    ke_value := \<lparr>bb_array = \<lparr>ba_len = of_nat KINETIC_OBJ_SIZE, ba_data = Ptr 5 0\<rparr>, bytesUsed = of_nat (length v)\<rparr>,
    ke_synchronization := KINETIC_SYNCHRONIZATION_WRITETHROUGH, ke_force := True\<rparr>"
  have c: "ByteBuffer_Create (Ptr 4 0) 1024 0 = Some \<lparr>bb_array = \<lparr>ba_len = 1024, ba_data = Ptr 4 0\<rparr>, bytesUsed = 0\<rparr>"
    by (simp add: ByteBuffer_Create_def c_assert_def)
  have "ConfigureEntry ?h0 (Ptr 6 0) (Ptr 7 0) (Ptr 8 0) KINETIC_ALGORITHM_SHA1 True (Ptr 9 0) = Some (?h4, ?e)"
    by (simp only: ConfigureEntry_def keyData_def tagData_def newVersionData_def versionData_def valueData_def e1 e2 e3 e4 c bind.bind_lunit prod.case)
  moreover have "util_entry ?h4 ?e k t v"
    using L by (simp add: util_entry_def zero_entry_def buffer_of_def splice_at_def opts_heap_def cfg_heap_def KINETIC_OBJ_SIZE_def)
  ultimately show ?thesis by blast
qed

section \<open>The whole command line\<close>

lemma strncpy_from_array: "cstr (strncpy (replicate (Suc n) NUL) src n) = take n (cstr src)"
proof -
  have "strncpy (replicate (Suc n) NUL) src n = cstr (take n src) @ replicate (Suc n - length (cstr (take n src))) NUL"
    using length_takeWhile_le [of "\<lambda>c. c \<noteq> NUL" "take n src"] drop_replicate [of n "Suc n" NUL]
    by (simp add: strncpy_def Let_def cstr_def replicate_append_same Suc_diff_le del: replicate.simps) (simp add: replicate_append_same)
  then show ?thesis using NUL_take [OF cstr_set] by (simp add: cstr_pad cstr_take)
qed

text \<open>The configuration that settings \<open>ss\<close> and operation \<open>i\<close> ask for.\<close>

definition config_for :: "nat \<Rightarrow> (OptionID \<times> string) list \<Rightarrow> KineticSessionConfig" where
  "config_for host_max ss =
     \<lparr>sc_host = given ss OPT_HOST ''localhost'' (take (host_max - 1)), sc_port = given ss OPT_PORT KINETIC_PORT text_value,
      sc_clusterVersion = given ss OPT_CLUSTERVERSION 0 text_value, sc_identity = given ss OPT_IDENTITY 1 text_value,
      sc_hmacKey = Some (bytes_of (given ss OPT_HMACKEY ''asdfasdf'' (take (KINETIC_MAX_KEY_LEN - 1)))), sc_useSsl = False, sc_timeoutSeconds = 0\<rparr>"

definition parsed :: "nat \<Rightarrow> (OptionID \<times> string) list \<Rightarrow> OptionID \<Rightarrow> UtilConfig \<Rightarrow> heap \<Rightarrow> bool" where
  "parsed host_max ss i cfg h \<longleftrightarrow>
     uc_opID cfg = i \<and> uc_logLevel cfg = given ss OPT_LOGLEVEL 0 text_value \<and> uc_config cfg = config_for host_max ss \<and>
     uc_adminConfig cfg = (config_for host_max ss)\<lparr>sc_port := given ss OPT_TLSPORT KINETIC_TLS_PORT text_value, sc_useSsl := True\<rparr> \<and>
     cstr (uc_pin cfg) = given ss OPT_PIN [] (take 31) \<and> cstr (uc_newPin cfg) = given ss OPT_NEWPIN [] (take 31) \<and>
     uc_newClusterVersion cfg = given ss OPT_NEWCLUSTERVERSION 0 text_value \<and> cstr (uc_file cfg) = given ss OPT_FILE [] (take 255) \<and>
     map_of log_types (given ss OPT_LOGTYPE ''utilizations'' (take 63)) = Some (uc_logType cfg) \<and>
     cstr (uc_deviceLogName cfg) = given ss OPT_DEVICELOGNAME [] (take 63) \<and>
     util_entry h (uc_entry cfg) (given ss OPT_KEY ''foo'' (take 63)) ''SomeTagValue'' (given ss OPT_VALUE ''Hello!'' (take 1023))"

definition settings_ok :: "(OptionID \<times> string) list \<Rightarrow> bool" where
  "settings_ok ss \<longleftrightarrow> list_all setting_ok ss \<and> length (given ss OPT_HMACKEY ''asdfasdf'' (take (KINETIC_MAX_KEY_LEN - 1))) \<le> 1024 \<and>
     map_of log_types (given ss OPT_LOGTYPE ''utilizations'' (take 63)) \<noteq> None"

lemma given_map: "f (given ss i d g) = given ss i (f d) (\<lambda>a. f (g a))"
  by (simp add: given_def split: option.splits)

lemma session_config_given:
  assumes "configured host_max ss i (opt, c)" "10 \<le> host_max" "length (given ss OPT_HMACKEY ''asdfasdf'' (take (KINETIC_MAX_KEY_LEN - 1))) \<le> 1024"
  shows "session_config host_max opt = Some (config_for host_max ss)"
proof -
  obtain n where n: "host_max = Suc n" "9 \<le> n" using assms(2) by (cases host_max) auto
  have "cstr (uo_host opt) = given ss OPT_HOST ''localhost'' (take host_max)" using assms(1) by (simp add: configured_def)
  then have "cstr (strncpy (replicate host_max NUL) (uo_host opt) (host_max - 1)) = given ss OPT_HOST ''localhost'' (take (host_max - 1))"
    using n given_map [of "take n" ss OPT_HOST "''localhost''" "take host_max"] strncpy_from_array [of n "uo_host opt"]
    by (simp add: min_def del: replicate.simps)
  with assms(1,3) show ?thesis by (simp add: session_config_def config_for_def configured_def holds_def c_assert_def)
qed

lemma ParseOptions_command_line:
  assumes "10 \<le> host_max" "settings_ok (ss @ ts)" "i \<in> set operations"
  shows "\<exists>cfg h. ParseOptions host_max exec (settings_line ss @ [''--'' @ long_name i] @ settings_line ts) = Some (Inr (cfg, h)) \<and>
    parsed host_max (ss @ ts) i cfg h"
proof -
  let ?line = "settings_line ss @ [''--'' @ long_name i] @ settings_line ts"
  from assms(2) have "list_all setting_ok ss" "list_all setting_ok ts" by (auto simp: settings_ok_def)
  from handle_command_line [OF assms(1) this assms(3), of exec] obtain opt c where
    s: "handle_options exec (getopt_long ?line) (default_opts host_max, zero_cfg) = Some (Inr (opt, c))" "configured host_max (ss @ ts) i (opt, c)" by auto
  note C = s(2) [unfolded configured_def, simplified]
  have cfg: "session_config host_max opt = Some (config_for host_max (ss @ ts))"
    using session_config_given [OF s(2) assms(1)] assms(2) by (simp add: settings_ok_def)
  obtain h e where e: "ConfigureEntry (opts_heap opt) (Ptr 6 0) (Ptr 7 0) (Ptr 8 0) (uo_algorithm opt) (uo_force opt) (Ptr 9 0) = Some (h, e)"
    "util_entry h e (given (ss @ ts) OPT_KEY ''foo'' (take 63)) ''SomeTagValue'' (given (ss @ ts) OPT_VALUE ''Hello!'' (take 1023))"
    using ConfigureEntry_opts [of opt] C by (metis (full_types))
  obtain t where t: "map_of log_types (given (ss @ ts) OPT_LOGTYPE ''utilizations'' (take 63)) = Some t" "cstr (uo_logType opt) = given (ss @ ts) OPT_LOGTYPE ''utilizations'' (take 63)"
    using assms(2) C by (auto simp: settings_ok_def holds_def)
  show ?thesis unfolding ParseOptions_def s(1)
    using C e t cfg by (simp add: parsed_def holds_def)
qed

section \<open>Command lines that are rejected\<close>

text \<open>The usage names every operation.\<close>

lemma usage_names_operations: "i \<in> set operations \<Longrightarrow> \<exists>l \<in> set (PrintUsage exec). prefix (exec @ '' --'' @ long_name i) l"
  using usage_table by (auto simp: list_all_iff list_ex_iff PrintUsage_def)

text \<open>What \<^verbatim>\<open>getopt_long\<close> does not know it answers with the number of the help option, so that a mistyped option prints the usage and the program
  reports success.\<close>

lemma unknown_option_exits_with_0: "long_match w = None \<Longrightarrow> CHR ''='' \<notin> set w \<Longrightarrow> w \<noteq> [] \<Longrightarrow> ParseOptions host_max exec ((''--'' @ w) # args) = Some (Inl (0, PrintUsage exec))"
  by (simp add: ParseOptions_def long_option_def no_equals bad_option_def handle_option_def settings_def operations_def)

lemma misspelled_operation_exits_with_0: "ParseOptions host_max exec [''--flush''] = Some (Inl (0, PrintUsage exec))"
proof -
  have "long_match ''flush'' = None" by code_simp
  from unknown_option_exits_with_0 [OF this, of host_max exec "[]"] show ?thesis by simp
qed

text \<open>The short options of the settings take no argument, so that their branch reads a null pointer.\<close>

lemma short_setting_undefined: "c \<in> set ''lhptic'' \<Longrightarrow> ParseOptions host_max exec ([CHR ''-'', c] # args) = None"
proof -
  have t: "list_all (\<lambda>c. c \<noteq> CHR ''-'' \<and> map_of short_options c = Some False \<and>
     list_ex (\<lambda>i. find (\<lambda>j. OptionID_code j = of_char c) (OPT_NONE # settings) = Some i) settings) ''lhptic''" by code_simp
  assume "c \<in> set ''lhptic''"
  with t have c: "c \<noteq> CHR ''-''" "map_of short_options c = Some False"
    and "list_ex (\<lambda>i. find (\<lambda>j. OptionID_code j = of_char c) (OPT_NONE # settings) = Some i) settings" by (auto simp: list_all_iff)
  then obtain i where "find (\<lambda>j. OptionID_code j = of_char c) (OPT_NONE # settings) = Some i" by (auto simp: list_ex_iff simp del: find.simps)
  then have "handle_option exec (of_char c, None) s = None" for s unfolding handle_option_def by (simp del: find.simps)
  with c show ?thesis by (simp add: ParseOptions_def)
qed

lemma two_operations_rejected:
  assumes "i \<in> set operations" "j \<in> set operations"
  shows "ParseOptions host_max exec [''--'' @ long_name i, ''--'' @ long_name j] = Some (Inl (-1, ''Multiple operations specified!'' # PrintUsage exec))"
proof -
  have "uo_opID (default_opts host_max) = OPT_NONE" by (simp add: default_opts_def)
  moreover have "i \<noteq> OPT_NONE" using assms(1) by (auto simp: operations_def)
  moreover have "handle_option exec (OptionID_code j, None) s = Some (Inl (-1, ''Multiple operations specified!'' # PrintUsage exec))"
    if "uo_opID (fst s) \<noteq> OPT_NONE" for s
    using operations_facts [OF assms(2)] that unfolding handle_option_def Let_def by (simp del: find.simps)
  ultimately show ?thesis unfolding ParseOptions_def
    by (simp add: getopt_operation [OF assms(1)] getopt_operation [OF assms(2)] handle_operation [OF assms(1)] del: getopt_long.simps(2) append.simps)
qed

text \<open>A key for the signatures longer than 1024 characters is written past its array.\<close>

lemma long_hmac_key_undefined:
  assumes "10 \<le> host_max" "list_all setting_ok ss" "i \<in> set operations" "1024 < length (given ss OPT_HMACKEY ''asdfasdf'' (take (KINETIC_MAX_KEY_LEN - 1)))"
  shows "ParseOptions host_max exec (settings_line ss @ [''--'' @ long_name i]) = None"
proof -
  from handle_command_line [OF assms(1,2) _ assms(3), of "[]" exec] obtain opt c where
    s: "handle_options exec (getopt_long (settings_line ss @ [''--'' @ long_name i])) (default_opts host_max, zero_cfg) = Some (Inr (opt, c))"
      "configured host_max ss i (opt, c)" by auto
  then have "session_config host_max opt = None" using assms(4) by (simp add: configured_def holds_def session_config_def c_assert_def)
  with s(1) show ?thesis by (simp add: ParseOptions_def)
qed

end
