(* ===== verification/Utility.thy ===== *)
theory Utility
  imports Util_Options Kinetic_Device_Info
begin

text \<open>
  The command line utility (\<^verbatim>\<open>utility/main.c\<close>) on top of the library: it opens a plain and an administrative session, makes the one call its options ask
  for and prints the result. What the call leaves in the entry and the log is an input. Output is structured: a line of text, or a format with the
  values printed; a \<^verbatim>\<open>float\<close> stands for its 32 bits. Printing a string without terminator, or a null one, is undefined (\<open>None\<close>).
\<close>

section \<open>Printing\<close>

datatype util_val = V_Str "u8 list" | V_Float u32 | V_Num int

datatype util_out =
    Out_Text string
  | Out_Line string "util_val list"
  | Out_Failed OptionID KineticStatus
  | Out_No_Connection KineticSessionConfig KineticStatus

text \<open>The key and the value are terminated in place before they are printed.\<close>

definition PrintEntry :: "heap \<Rightarrow> KineticEntry \<Rightarrow> (util_out list \<times> heap) option" where
  "PrintEntry h entry =
     do { h1 \<leftarrow> store_bytes h (ptr_add (bb_data (ke_key entry)) (unat (bytesUsed (ke_key entry)))) [0];
          h2 \<leftarrow> store_bytes h1 (ptr_add (bb_data (ke_value entry)) (unat (bytesUsed (ke_value entry)))) [0];
          k \<leftarrow> cstring h2 (bb_data (ke_key entry));
          v \<leftarrow> cstring h2 (bb_data (ke_value entry));
          Some ([Out_Text ''Kinetic Entry:'', Out_Line ''  key: '' [V_Str k], Out_Line ''  value: '' [V_Str v]], h2) }"

definition printed_string :: "string cell \<Rightarrow> util_val option" where
  "printed_string c = map_option (\<lambda>(_, s). V_Str (bytes_of s)) c"

definition terminated :: "u8 list \<Rightarrow> util_val option" where
  "terminated bs = (if 0 \<in> set bs then Some (V_Str (takeWhile (\<lambda>x. x \<noteq> 0) bs)) else None)"

text \<open>A byte array printed as it is, without a terminator of its own.\<close>

definition printed_array :: "log_bytes \<Rightarrow> util_val option" where
  "printed_array ba = do { (_, bs) \<leftarrow> lb_data ba; terminated bs }"

text \<open>A byte array copied to an array of 1024 zeros first.\<close>

definition printed_copy :: "log_bytes \<Rightarrow> util_val option" where
  "printed_copy ba =
     (if lb_len ba = 0 then Some (V_Str [])
      else do { (_, bs) \<leftarrow> lb_data ba; c_assert (lb_len ba \<le> 1024); terminated (take (lb_len ba) bs @ replicate (1024 - lb_len ba) 0) })"

definition line_str :: "string \<Rightarrow> util_val option \<Rightarrow> util_out list option" where
  "line_str label v = map_option (\<lambda>x. [Out_Line label [x]]) v"

text \<open>Output pieces one after the other; the first that is undefined makes the whole so.\<close>

fun print_all :: "util_out list option list \<Rightarrow> util_out list option" where
  "print_all [] = Some []"
| "print_all (p # ps) = do { xs \<leftarrow> p; ys \<leftarrow> print_all ps; Some (xs @ ys) }"

definition print_utilization :: "KineticLogInfo_Utilization \<Rightarrow> util_out list option" where
  "print_utilization u = do { n \<leftarrow> printed_string (lu_name u); Some [Out_Line ''  %s: %.2f %%'' [n, V_Float (lu_value u)]] }"

definition print_temperature :: "KineticLogInfo_Temperature \<Rightarrow> util_out list option" where
  "print_temperature t =
     do { n \<leftarrow> printed_string (lt_name t);
          Some [Out_Line ''  %s: current=%.1f, min=%.1f, max=%.1f, target=%.1f''
            [n, V_Float (lt_current t), V_Float (lt_minimum t), V_Float (lt_maximum t), V_Float (lt_target t)]] }"

definition print_interface :: "KineticLogInfo_Interface \<Rightarrow> util_out list option" where
  "print_interface i =
     print_all
      [line_str ''  interface: '' (printed_string (inf_name i)), line_str ''    MAC: '' (printed_copy (inf_MAC i)),
       line_str ''    ipv4Address: '' (printed_copy (inf_ipv4Address i)), line_str ''    ipv6Address: '' (printed_copy (inf_ipv6Address i))]"

definition print_configuration :: "KineticLogInfo_Configuration \<Rightarrow> util_out list option" where
  "print_configuration c =
     do { (_, ifs) \<leftarrow> cfg_interfaces c;
          print_all
           ([line_str ''  vendor: '' (printed_string (cfg_vendor c)), line_str ''  model: '' (printed_string (cfg_model c)),
             line_str ''  serialNumber: '' (printed_array (cfg_serialNumber c)), line_str ''  worldWideName: '' (printed_array (cfg_worldWideName c)),
             line_str ''  version: '' (printed_string (cfg_version c)), line_str ''  compilationDate: '' (printed_string (cfg_compilationDate c)),
             line_str ''  sourceHash: '' (printed_string (cfg_sourceHash c)), line_str ''  protocolVersion: '' (printed_string (cfg_protocolVersion c)),
             line_str ''  protocolCompilationDate: '' (printed_string (cfg_protocolCompilationDate c)),
             line_str ''  protocolSourceHash: '' (printed_string (cfg_protocolSourceHash c))] @
            map print_interface (take (cfg_numInterfaces c) ifs) @
            [Some [Out_Line ''  port: '' [V_Num (cfg_port c)], Out_Line ''  tlsPort: '' [V_Num (cfg_tlsPort c)]]]) }"

definition print_limits :: "KineticLogInfo_Limits \<Rightarrow> util_out list" where
  "print_limits l =
     map (\<lambda>(n, v). Out_Line n [V_Num (uint v)])
      [(''  maxKeySize: '', maxKeySize l), (''  maxValueSize: '', maxValueSize l), (''  maxVersionSize: '', maxVersionSize l),
       (''  maxTagSize: '', maxTagSize l), (''  maxConnections: '', maxConnections l),
       (''  maxOutstandingReadRequests: '', maxOutstandingReadRequests l), (''  maxOutstandingWriteRequests: '', maxOutstandingWriteRequests l),
       (''  maxMessageSize: '', maxMessageSize l), (''  maxKeyRangeCount: '', maxKeyRangeCount l), (''  maxIdentityCount: '', maxIdentityCount l),
       (''  maxPinSize: '', maxPinSize l)]"

text \<open>The part that is printed must be there.\<close>

definition PrintLogInfo :: "KineticLogInfo_Type \<Rightarrow> KineticLogInfo \<Rightarrow> util_out list option" where
  "PrintLogInfo type info =
     (case type of
        DEVICE_INFO_UTILIZATIONS \<Rightarrow>
          print_all (Some [Out_Text ''Device Utilizations:''] #
            map print_utilization (case li_utilizations info of None \<Rightarrow> [] | Some (_, us) \<Rightarrow> take (li_numUtilizations info) us))
      | DEVICE_INFO_CAPACITIES \<Rightarrow>
          do { (_, c) \<leftarrow> li_capacity info;
               Some [Out_Text ''Device Capacities:'', Out_Line ''  nominalCapacity: %.3f MB'' [V_Num (uint (nominalCapacityInBytes c))],
                 Out_Line ''  portionFull:     %.2f %%'' [V_Float (portionFull c)]] }
      | DEVICE_INFO_TEMPERATURES \<Rightarrow>
          print_all (Some [Out_Text ''Device Temperatures:''] #
            map print_temperature (case li_temperatures info of None \<Rightarrow> [] | Some (_, ts) \<Rightarrow> take (li_numTemperatures info) ts))
      | DEVICE_INFO_CONFIGURATION \<Rightarrow>
          do { (_, c) \<leftarrow> li_configuration info; out \<leftarrow> print_configuration c; Some (Out_Text ''Device Configuration:'' # out) }
      | DEVICE_INFO_STATISTICS \<Rightarrow>
          Some (Out_Text ''Device Statistics:'' #
            map (\<lambda>s. Out_Line ''  %s: count=%llu, bytes=%llu''
                   [V_Str (bytes_of (KineticMessageType_GetName (ls_messageType s))), V_Num (uint (ls_count s)), V_Num (uint (ls_bytes s))])
              (case li_statistics info of None \<Rightarrow> [] | Some (_, ss) \<Rightarrow> take (li_numStatistics info) ss))
      | DEVICE_INFO_MESSAGES \<Rightarrow>
          do { v \<leftarrow> (case lb_data (li_messages info) of None \<Rightarrow> Some (V_Str []) | Some (_, bs) \<Rightarrow> terminated (bs @ [0]));
               Some [Out_Text ''Device Log Messages:'', Out_Line ''  '' [v]] }
      | DEVICE_INFO_LIMITS \<Rightarrow>
          do { (_, l) \<leftarrow> li_limits info; Some (Out_Text ''Device Limits:'' # print_limits l) }
      | DEVICE_INFO_OTHER n \<Rightarrow> Some [Out_Line ''Unknown log type! '' [V_Num n]])"

section \<open>The call an operation makes\<close>

datatype util_session = Plain | Admin

datatype util_call =
    UC_NoOp | UC_Put | UC_Get | UC_GetNext | UC_GetPrevious | UC_Delete
  | UC_GetLog KineticLogInfo_Type | UC_GetDeviceSpecificLog string
  | UC_SetErasePin string string | UC_InstantErase string | UC_SecureErase string
  | UC_SetLockPin string string | UC_LockDevice string | UC_UnlockDevice string
  | UC_SetClusterVersion int | UC_SetACL string | UC_UpdateFirmware string

fun operation_call :: "OptionID \<Rightarrow> UtilConfig \<Rightarrow> (util_session \<times> util_call) option" where
  "operation_call OPT_NOOP cfg = Some (Plain, UC_NoOp)"
| "operation_call OPT_PUT cfg = Some (Plain, UC_Put)"
| "operation_call OPT_GET cfg = Some (Plain, UC_Get)"
| "operation_call OPT_GETNEXT cfg = Some (Plain, UC_GetNext)"
| "operation_call OPT_GETPREVIOUS cfg = Some (Plain, UC_GetPrevious)"
| "operation_call OPT_DELETE cfg = Some (Plain, UC_Delete)"
| "operation_call OPT_GETLOG cfg = Some (Admin, UC_GetLog (uc_logType cfg))"
| "operation_call OPT_GETDEVICESPECIFICLOG cfg = Some (Admin, UC_GetDeviceSpecificLog (cstr (uc_deviceLogName cfg)))"
| "operation_call OPT_SETERASEPIN cfg = Some (Admin, UC_SetErasePin (cstr (uc_pin cfg)) (cstr (uc_newPin cfg)))"
| "operation_call OPT_INSTANTERASE cfg = Some (Admin, UC_InstantErase (cstr (uc_pin cfg)))"
| "operation_call OPT_SECUREERASE cfg = Some (Admin, UC_SecureErase (cstr (uc_pin cfg)))"
| "operation_call OPT_SETLOCKPIN cfg = Some (Admin, UC_SetLockPin (cstr (uc_pin cfg)) (cstr (uc_newPin cfg)))"
| "operation_call OPT_LOCKDEVICE cfg = Some (Admin, UC_LockDevice (cstr (uc_pin cfg)))"
| "operation_call OPT_UNLOCKDEVICE cfg = Some (Admin, UC_UnlockDevice (cstr (uc_pin cfg)))"
| "operation_call OPT_SETCLUSTERVERSION cfg = Some (Admin, UC_SetClusterVersion (uc_newClusterVersion cfg))"
| "operation_call OPT_SETACL cfg = Some (Admin, UC_SetACL (cstr (uc_file cfg)))"
| "operation_call OPT_UPDATEFIRMWARE cfg = Some (Plain, UC_UpdateFirmware (cstr (uc_file cfg)))"
| "operation_call _ cfg = None"

text \<open>The calls of the library. The PINs and the name are arrays of the configuration, blocks 10 to 12; the files are what reading them gives.\<close>

definition cfg_array :: "nat \<Rightarrow> string \<Rightarrow> byte_array" where
  "cfg_array b s = ByteArray_Create (Ptr b 0) (of_nat (length s))"

record ('l, 'a) util_library =
  ul_input :: "('l, 'a) call_input"
  ul_firmware :: "string \<Rightarrow> firmware_file"
  ul_acls :: "string \<Rightarrow> 'a list option"

fun library_call :: "('l, 'a) util_library \<Rightarrow> 'u client_ctx \<Rightarrow> KineticEntry \<Rightarrow> util_call \<Rightarrow> ('l, 'a, 'u) call_result option" where
  "library_call ul cx e UC_NoOp = KineticClient_NoOp (ul_input ul) cx"
| "library_call ul cx e UC_Put = KineticClient_Put (ul_input ul) cx e None"
| "library_call ul cx e UC_Get = KineticClient_Get (ul_input ul) cx e None"
| "library_call ul cx e UC_GetNext = KineticClient_GetNext (ul_input ul) cx e None"
| "library_call ul cx e UC_GetPrevious = KineticClient_GetPrevious (ul_input ul) cx e None"
| "library_call ul cx e UC_Delete = KineticClient_Delete (ul_input ul) cx e None"
| "library_call ul cx e (UC_GetLog t) = KineticAdminClient_GetLog (ul_input ul) cx t None None"
| "library_call ul cx e (UC_GetDeviceSpecificLog n) = KineticAdminClient_GetDeviceSpecificLog (ul_input ul) cx (cfg_array 12 n) None None"
| "library_call ul cx e (UC_SetErasePin old new) = KineticAdminClient_SetErasePin (ul_input ul) cx (cfg_array 10 old) (cfg_array 11 new)"
| "library_call ul cx e (UC_InstantErase pin) = KineticAdminClient_InstantErase (ul_input ul) cx (cfg_array 10 pin)"
| "library_call ul cx e (UC_SecureErase pin) = KineticAdminClient_SecureErase (ul_input ul) cx (cfg_array 10 pin)"
| "library_call ul cx e (UC_SetLockPin old new) = KineticAdminClient_SetLockPin (ul_input ul) cx (cfg_array 10 old) (cfg_array 11 new)"
| "library_call ul cx e (UC_LockDevice pin) = KineticAdminClient_LockDevice (ul_input ul) cx (cfg_array 10 pin)"
| "library_call ul cx e (UC_UnlockDevice pin) = KineticAdminClient_UnlockDevice (ul_input ul) cx (cfg_array 10 pin)"
| "library_call ul cx e (UC_SetClusterVersion v) = KineticAdminClient_SetClusterVersion (ul_input ul) cx v"
| "library_call ul cx e (UC_SetACL f) = KineticAdminClient_SetACL (ul_input ul) cx True (ul_acls ul f)"
| "library_call ul cx e (UC_UpdateFirmware f) = KineticAdminClient_UpdateFirmware (ul_input ul) cx (ul_firmware ul f)"

fun call_status :: "('l, 'a, 'u) call_result \<Rightarrow> KineticStatus" where
  "call_status (Call_Refused st) = st"
| "call_status (Call_Dropped st fr) = st"
| "call_status (Call_Executed st evs ss) = st"

section \<open>Reporting\<close>

text \<open>What a successful call leaves: the entry in its buffers, or a log.\<close>

record util_answer =
  an_heap :: heap
  an_entry :: KineticEntry
  an_log :: "KineticLogInfo option"

definition print_device_name :: "KineticLogInfo \<Rightarrow> util_out list option" where
  "print_device_name info =
     do { (_, d) \<leftarrow> li_device info;
          v \<leftarrow> (case lb_data (ld_name d) of None \<Rightarrow> if lb_len (ld_name d) = 0 then Some (V_Str []) else None | Some (_, bs) \<Rightarrow> terminated (bs @ [0]));
          Some [Out_Text ''Device-Specific Log Info:'', Out_Line ''  '' [v]] }"

fun success_text :: "OptionID \<Rightarrow> string list" where
  "success_text OPT_NOOP = [''NoOp operation completed successfully. Kinetic Device is alive and well!'']"
| "success_text OPT_PUT = [''Put operation completed successfully. Your data has been stored!'']"
| "success_text OPT_GET = [''Get executed successfully.'']"
| "success_text OPT_GETNEXT = [''GetNext executed successfully.'']"
| "success_text OPT_GETPREVIOUS = [''GetPrevious executed successfully.'']"
| "success_text OPT_DELETE = [''Delete executed successfully. The entry has been destroyed!'']"
| "success_text OPT_GETLOG = [''GetLog executed successfully.'', ''The device log info has been retrieved!'']"
| "success_text OPT_GETDEVICESPECIFICLOG = [''GetDeviceSpecificLog executed successfully.The device-specific device log info has been retrieved!'']"
| "success_text OPT_SETERASEPIN = [''SetErasePin executed successfully.'', ''The kinetic device erase pin has been changed!'']"
| "success_text OPT_INSTANTERASE = [''InstantErase executed successfully.'', ''The kinetic device has been erased!'']"
| "success_text OPT_SECUREERASE = [''SecureErase executed successfully.'', ''The kinetic device has been erased!'']"
| "success_text OPT_SETLOCKPIN = [''SetLockPin executed successfully.'', ''The kinetic device lock/unlock pin has been changed!'']"
| "success_text OPT_LOCKDEVICE = [''LockDevice executed successfully.'', ''The kinetic device is now locked!'']"
| "success_text OPT_UNLOCKDEVICE = [''UnlockDevice executed successfully.'', ''The kinetic device is now unlocked!'']"
| "success_text OPT_SETCLUSTERVERSION = [''SetClusterVersion executed successfully.'', ''The kinetic device'' @ CHR 0x27 # ''s cluster version has been updated!'']"
| "success_text OPT_SETACL = [''SetACL executed successfully.'', ''The kinetic device ACLs have been replaced!'']"
| "success_text OPT_UPDATEFIRMWARE = [''SecureErase executed successfully.'', ''The kinetic device has been restored to empty status!'']"
| "success_text _ = []"

definition print_answer :: "OptionID \<Rightarrow> UtilConfig \<Rightarrow> util_answer \<Rightarrow> util_out list option" where
  "print_answer i cfg ans =
     do { more \<leftarrow>
            (if i \<in> {OPT_PUT, OPT_GET, OPT_GETNEXT, OPT_GETPREVIOUS, OPT_DELETE} then map_option fst (PrintEntry (an_heap ans) (an_entry ans))
             else if i = OPT_GETLOG then do { l \<leftarrow> an_log ans; PrintLogInfo (uc_logType cfg) l }
             else if i = OPT_GETDEVICESPECIFICLOG then do { l \<leftarrow> an_log ans; print_device_name l }
             else Some []);
          Some (map Out_Text (success_text i) @ more) }"

text \<open>A device log that is not found counts as success.\<close>

definition ExecuteOperation ::
  "('l, 'a) util_library \<Rightarrow> (util_session \<Rightarrow> 'u client_ctx) \<Rightarrow> util_answer \<Rightarrow> UtilConfig \<Rightarrow> (util_exit + (KineticStatus \<times> util_out list)) option" where
  "ExecuteOperation ul cx ans cfg =
     (case operation_call (uc_opID cfg) cfg of
        None \<Rightarrow> Some (Inl (-1, [''Specified operation is invalid!'']))
      | Some (s, c) \<Rightarrow>
          if uc_opID cfg = OPT_GETDEVICESPECIFICLOG \<and> cstr (uc_deviceLogName cfg) = []
          then Some (Inl (1, [''Device-specific log type requires --devicelogname to be set!'']))
          else do {
            r \<leftarrow> library_call ul (cx s) (uc_entry cfg) c;
            let status = call_status r;
            if status = KINETIC_STATUS_SUCCESS then
              do { out \<leftarrow> print_answer (uc_opID cfg) cfg ans; Some (Inr (KINETIC_STATUS_SUCCESS, out)) }
            else if uc_opID cfg = OPT_GETDEVICESPECIFICLOG \<and> status = KINETIC_STATUS_NOT_FOUND then
              Some (Inr (KINETIC_STATUS_SUCCESS, [Out_Text ''The specified device-specific log was not found on the device!'']))
            else Some (Inr (status, [Out_Failed (uc_opID cfg) status])) })"

section \<open>The program\<close>

text \<open>Its surroundings: whether a client can be made, how connecting goes for either session, the bus, the library's inputs, and the answer.\<close>

record ('l, 'a, 'u) util_env =
  ue_client :: bool
  ue_create :: "util_session \<Rightarrow> ('l, 'a) create_input"
  ue_bus :: "'u bus option"
  ue_library :: "('l, 'a) util_library"
  ue_answer :: util_answer

text \<open>The exit code and the output. No session is destroyed and the client is not shut down.\<close>

definition util_main :: "nat \<Rightarrow> string \<Rightarrow> string list \<Rightarrow> ('l, 'a, 'u) util_env \<Rightarrow> (int \<times> util_out list) option" where
  "util_main host_max exec args env =
     do { p \<leftarrow> ParseOptions host_max exec args;
          (case p of
             Inl (code, out) \<Rightarrow> Some (code, map Out_Text out)
           | Inr (cfg, h) \<Rightarrow>
               if uc_opID cfg = OPT_NONE then Some (1, map Out_Text (''No operation specified!'' # PrintUsage exec))
               else if \<not> ue_client env then Some (1, [Out_Text ''Failed creating a client instance!''])
               else do {
                 (st1, _, so1, _) \<leftarrow> KineticClient_CreateSession (Some (uc_config cfg)) True True (ue_create env Plain);
                 if st1 \<noteq> KINETIC_STATUS_SUCCESS then Some (1, [Out_No_Connection (uc_config cfg) st1])
                 else do {
                   let cfg1 = cfg\<lparr>uc_adminConfig := (uc_adminConfig cfg)\<lparr>sc_useSsl := True\<rparr>\<rparr>;
                   (st2, _, so2, _) \<leftarrow> KineticClient_CreateSession (Some (uc_adminConfig cfg1)) True True (ue_create env Admin);
                   if st2 \<noteq> KINETIC_STATUS_SUCCESS then Some (1, [Out_No_Connection (uc_config cfg) st2])
                   else do {
                     s1 \<leftarrow> so1;
                     s2 \<leftarrow> so2;
                     r \<leftarrow> ExecuteOperation (ue_library env)
                       (\<lambda>s. \<lparr>cx_heap = h, cx_session = (case s of Plain \<Rightarrow> s1 | Admin \<Rightarrow> s2), cx_bus = ue_bus env\<rparr>) (ue_answer env) cfg1;
                     (case r of
                        Inl (code, out) \<Rightarrow> Some (code, map Out_Text out)
                      | Inr (status, out) \<Rightarrow>
                          if status \<noteq> KINETIC_STATUS_SUCCESS then Some (1, out @ [Out_Text ''Failed executing operation!''])
                          else Some (0, out)) } } }) }"

section \<open>What can be printed\<close>

lemma store_terminator:
  assumes "buffer_of h bf b n v" "n < 2 ^ 31"
  shows "store_bytes h (ptr_add (bb_data bf) (unat (bytesUsed bf))) [0] =
    (if length v < n then Some (h(b \<mapsto> splice_at (the (h b)) (length v) [0])) else None)"
proof -
  obtain bs where b: "h b = Some bs" "length bs = n" "length v \<le> n" "bb_data bf = Ptr b 0" "bytesUsed bf = of_nat (length v)"
    using assms(1) by (auto simp: buffer_of_def)
  have "unat (bytesUsed bf) = length v" unfolding b(5) using b(3) assms(2) by (simp add: unat_of_nat take_bit_nat_eq_self)
  with b(1,2,4) show ?thesis by (simp add: store_bytes_def Suc_le_eq)
qed

lemma takeWhile_terminator: "takeWhile (\<lambda>x. x \<noteq> 0) (v @ 0 # r) = takeWhile (\<lambda>x. x \<noteq> 0) (v :: u8 list)"
  by (induction v) auto

lemma cstring_terminated:
  assumes "take (length v) bs = v"
  shows "0 \<in> set (splice_at bs (length v) [0]) \<and> takeWhile (\<lambda>x. x \<noteq> 0) (splice_at bs (length v) [0]) = takeWhile (\<lambda>x. x \<noteq> 0) (v :: u8 list)"
  by (simp add: splice_at_def assms takeWhile_terminator)

text \<open>An entry is printed up to the first zero byte of its key and value, but only when both leave room for a terminator: a key of 1024 bytes, or a value of the largest size
  the protocol allows, makes the utility write past its arrays.\<close>

lemma PrintEntry_room:
  assumes k: "buffer_of h (ke_key e) 1 1024 k" and v: "buffer_of h (ke_value e) 5 KINETIC_OBJ_SIZE v"
  shows "if length k < 1024 \<and> length v < KINETIC_OBJ_SIZE
    then \<exists>h'. PrintEntry h e = Some ([Out_Text ''Kinetic Entry:'', Out_Line ''  key: '' [V_Str (takeWhile (\<lambda>x. x \<noteq> 0) k)],
      Out_Line ''  value: '' [V_Str (takeWhile (\<lambda>x. x \<noteq> 0) v)]], h')
    else PrintEntry h e = None"
proof -
  obtain kb where kb: "h 1 = Some kb" "length kb = 1024" "take (length k) kb = k" "bb_data (ke_key e) = Ptr 1 0" using k by (auto simp: buffer_of_def)
  obtain vb where vb: "h 5 = Some vb" "length vb = KINETIC_OBJ_SIZE" "take (length v) vb = v" "bb_data (ke_value e) = Ptr 5 0" using v by (auto simp: buffer_of_def)
  let ?h1 = "h(1 \<mapsto> splice_at kb (length k) [0])"
  have obj: "KINETIC_OBJ_SIZE < 2 ^ 31" by (simp add: KINETIC_OBJ_SIZE_def)
  have v1: "buffer_of ?h1 (ke_value e) 5 KINETIC_OBJ_SIZE v" using v by (simp add: buffer_of_def)
  note st = store_terminator [OF k] store_terminator [OF v1 obj]
  show ?thesis
  proof (cases "length k < 1024 \<and> length v < KINETIC_OBJ_SIZE")
    case True
    with kb vb st cstring_terminated [OF kb(3)] cstring_terminated [OF vb(3)] show ?thesis
      by (simp add: PrintEntry_def cstring_def)
  next
    case False
    with kb st show ?thesis by (auto simp: PrintEntry_def)
  qed
qed

text \<open>The serial number and the world wide name of a configuration are printed as strings, although the library copies them without a terminator.\<close>

lemma print_all_None: "None \<in> set ps \<Longrightarrow> print_all ps = None"
proof (induction ps)
  case (Cons p ps)
  then show ?case by (cases p) auto
qed simp

lemma configuration_read_past_end:
  assumes "lb_data (cfg_serialNumber c) = Some (b, bs)" "0 \<notin> set bs"
  shows "print_configuration c = None"
  using assms print_all_None by (cases "cfg_interfaces c") (auto simp: print_configuration_def printed_array_def terminated_def line_str_def)

section \<open>From the command line to the call\<close>

lemma connect_keeps_config:
  assumes "KineticSession_Connect (Some s) inp = Some (KINETIC_STATUS_SUCCESS, evs, so)" "\<not> rw_ready (ss_connectionReady s)"
  shows "\<exists>s'. so = Some s' \<and> ss_config s' = ss_config s"
proof -
  let ?s2 = "s\<lparr>ss_socket := ci_socket inp, ss_connected := True, ss_si := Some new_socket_info\<rparr>"
  from assms(1) obtain s3 where w: "wait_connection ?s2 0 (ci_waits inp) = Some (0, s3)" "so = Some s3"
    by (auto simp: KineticSession_Connect_def bind_Some_iff Let_def split: if_splits prod.splits)
  have "ready_inv ?s2" using assms(2) by (simp add: ready_inv_def)
  from wait_connection_outcome [OF w(1) this] w(2) show ?thesis by (simp add: keeps_def)
qed

lemma created_session_config:
  assumes "KineticClient_CreateSession (Some c) True True inp = Some (KINETIC_STATUS_SUCCESS, evs, so, f)"
  shows "\<exists>s. so = Some s \<and> ss_config s = c"
proof -
  from assms obtain s0 where s0: "KineticAllocator_NewSession c (cr_calloc inp) = Some (Some s0)"
    by (auto simp: KineticClient_CreateSession_def bind_Some_iff split: if_splits option.splits)
  then have c0: "ss_config s0 = c" "ss_connectionReady s0 = KineticResourceWaiter_Init"
    by (auto simp: KineticAllocator_NewSession_def bind_Some_iff split: if_splits)
  from assms s0 obtain s1 evs1 where s1: "KineticSession_Create (Some s0) True (cr_mutex inp) (cr_semaphore inp) = (KINETIC_STATUS_SUCCESS, Some s1)"
    "KineticSession_Connect (Some s1) (cr_connect inp) = Some (KINETIC_STATUS_SUCCESS, evs1, so)"
    by (auto simp: KineticClient_CreateSession_def KineticSession_Create_def Let_def bind_Some_iff split: if_splits prod.splits option.splits)
  then have "ss_config s1 = c" "\<not> rw_ready (ss_connectionReady s1)"
    using c0 by (auto simp: KineticSession_Create_def Let_def KineticResourceWaiter_Init_def split: if_splits)
  with connect_keeps_config [OF s1(2)] show ?thesis by auto
qed

text \<open>The call that settings \<open>ss\<close> and operation \<open>i\<close> ask for, and the session it belongs on: whatever administers the device, except for a firmware,
  goes over the encrypted one.\<close>

fun requested :: "(OptionID \<times> string) list \<Rightarrow> OptionID \<Rightarrow> util_session \<times> util_call" where
  "requested ss OPT_PUT = (Plain, UC_Put)"
| "requested ss OPT_GET = (Plain, UC_Get)"
| "requested ss OPT_GETNEXT = (Plain, UC_GetNext)"
| "requested ss OPT_GETPREVIOUS = (Plain, UC_GetPrevious)"
| "requested ss OPT_DELETE = (Plain, UC_Delete)"
| "requested ss OPT_GETLOG = (Admin, UC_GetLog (the (map_of log_types (given ss OPT_LOGTYPE ''utilizations'' (take 63)))))"
| "requested ss OPT_GETDEVICESPECIFICLOG = (Admin, UC_GetDeviceSpecificLog (given ss OPT_DEVICELOGNAME [] (take 63)))"
| "requested ss OPT_SETERASEPIN = (Admin, UC_SetErasePin (given ss OPT_PIN [] (take 31)) (given ss OPT_NEWPIN [] (take 31)))"
| "requested ss OPT_INSTANTERASE = (Admin, UC_InstantErase (given ss OPT_PIN [] (take 31)))"
| "requested ss OPT_SECUREERASE = (Admin, UC_SecureErase (given ss OPT_PIN [] (take 31)))"
| "requested ss OPT_SETLOCKPIN = (Admin, UC_SetLockPin (given ss OPT_PIN [] (take 31)) (given ss OPT_NEWPIN [] (take 31)))"
| "requested ss OPT_LOCKDEVICE = (Admin, UC_LockDevice (given ss OPT_PIN [] (take 31)))"
| "requested ss OPT_UNLOCKDEVICE = (Admin, UC_UnlockDevice (given ss OPT_PIN [] (take 31)))"
| "requested ss OPT_SETCLUSTERVERSION = (Admin, UC_SetClusterVersion (given ss OPT_NEWCLUSTERVERSION 0 text_value))"
| "requested ss OPT_SETACL = (Admin, UC_SetACL (given ss OPT_FILE [] (take 255)))"
| "requested ss OPT_UPDATEFIRMWARE = (Plain, UC_UpdateFirmware (given ss OPT_FILE [] (take 255)))"
| "requested ss _ = (Plain, UC_NoOp)"

lemma operation_call_requested: "parsed host_max ss i cfg h \<Longrightarrow> i \<in> set operations \<Longrightarrow> operation_call i cfg = Some (requested ss i)"
  unfolding operations_def set_simps by (elim insertE emptyE; simp add: parsed_def)

definition admin_config_for :: "nat \<Rightarrow> (OptionID \<times> string) list \<Rightarrow> KineticSessionConfig" where
  "admin_config_for host_max ss = (config_for host_max ss)\<lparr>sc_port := given ss OPT_TLSPORT KINETIC_TLS_PORT text_value, sc_useSsl := True\<rparr>"

lemma main_executes:
  assumes p: "ParseOptions host_max exec args = Some (Inr (cfg, h))" "parsed host_max ss i cfg h" "i \<in> set operations" "ue_client env"
    and s1: "KineticClient_CreateSession (Some (config_for host_max ss)) True True (ue_create env Plain) = Some (KINETIC_STATUS_SUCCESS, ev1, Some s1, f1)"
    and s2: "KineticClient_CreateSession (Some (admin_config_for host_max ss)) True True (ue_create env Admin) = Some (KINETIC_STATUS_SUCCESS, ev2, Some s2, f2)"
  shows "util_main host_max exec args env =
    do { r \<leftarrow> ExecuteOperation (ue_library env)
           (\<lambda>s. \<lparr>cx_heap = h, cx_session = (case s of Plain \<Rightarrow> s1 | Admin \<Rightarrow> s2), cx_bus = ue_bus env\<rparr>) (ue_answer env) cfg;
         (case r of
            Inl (code, out) \<Rightarrow> Some (code, map Out_Text out)
          | Inr (status, out) \<Rightarrow>
              if status \<noteq> KINETIC_STATUS_SUCCESS then Some (1, out @ [Out_Text ''Failed executing operation!'']) else Some (0, out)) }"
proof -
  have "i \<noteq> OPT_NONE" using p(3) by (auto simp: operations_def)
  then have c: "uc_opID cfg \<noteq> OPT_NONE" "uc_config cfg = config_for host_max ss" "uc_adminConfig cfg = admin_config_for host_max ss"
    using p(2) by (auto simp: parsed_def admin_config_for_def)
  then have ssl: "cfg\<lparr>uc_adminConfig := (uc_adminConfig cfg)\<lparr>sc_useSsl := True\<rparr>\<rparr> = cfg" "(admin_config_for host_max ss)\<lparr>sc_useSsl := True\<rparr> = admin_config_for host_max ss"
    by (simp_all add: admin_config_for_def)
  show ?thesis unfolding util_main_def p(1) using c(1) p(4) by (simp add: c(2) s1 s2 ssl Let_def del: UtilConfig.update_convs) (simp add: c(3) ssl s2)
qed


text \<open>Both sessions open, and an erase for which no memory is left: the call passes the check of the session, fails, and so does the program.\<close>

definition ex_create :: "(nat, nat) create_input" where
  "ex_create = \<lparr>cr_calloc = True, cr_mutex = True, cr_semaphore = True, cr_connect = ex_connect\<rparr>"

lemma ex_create_succeeds:
  assumes "sc_host c \<noteq> []" "sc_hmacKey c = Some k" "k \<noteq> []" "length k \<le> KINETIC_MAX_KEY_LEN"
  shows "\<exists>ev s f. KineticClient_CreateSession (Some c) True True ex_create = Some (KINETIC_STATUS_SUCCESS, ev, Some s, f)"
proof -
  obtain s0 where s0: "KineticAllocator_NewSession c True = Some (Some s0)" "ss_config s0 = c" "ss_connectionReady s0 = KineticResourceWaiter_Init"
    using assms by (simp add: KineticAllocator_NewSession_def c_assert_def)
  obtain s1 where s1: "KineticSession_Create (Some s0) True True True = (KINETIC_STATUS_SUCCESS, Some s1)" "ss_config s1 = c"
    "ss_connectionReady s1 = KineticResourceWaiter_Init"
    using s0(2,3) by (simp add: KineticSession_Create_def Let_def KineticCountingSemaphore_Create_def)
  let ?s2 = "s1\<lparr>ss_socket := 5, ss_connected := True, ss_si := Some new_socket_info\<rparr>"
  let ?s3 = "?s2\<lparr>ss_connectionID := 7, ss_connectionReady := (ss_connectionReady s1)\<lparr>rw_ready := True\<rparr>\<rparr>"
  have "Kinetic_Session.handle_all [ex_status_message] ?s2 = Some ?s3"
    by (simp add: KineticController_HandleUnexpectedResponse_def ex_status_message_def KineticResponse_GetConnectionID_def
      KineticSession_SetConnectionID_def KineticResourceWaiter_SetAvailable_def)
  moreover have "wait_connection ?s3 0 [(110, [])] = Some (0, ?s3)" by (subst wait_connection.simps) simp
  ultimately have "wait_connection ?s2 0 (ci_waits ex_connect) = Some (0, ?s3)"
    using s1(3) by (subst wait_connection.simps) (simp add: ex_connect_def KineticResourceWaiter_Init_def)
  then have "\<exists>ev. KineticSession_Connect (Some s1) ex_connect = Some (KINETIC_STATUS_SUCCESS, ev, Some ?s3)"
    using assms(1) s1(2) by (simp add: KineticSession_Connect_def ex_connect_def KINETIC_SOCKET_INVALID_def)
  then show ?thesis using assms s0(1) s1(1) by (auto simp: KineticClient_CreateSession_def ex_create_def)
qed

definition ex_util_env :: "(nat, nat, nat) util_env" where
  "ex_util_env = \<lparr>ue_client = True, ue_create = (\<lambda>_. ex_create), ue_bus = None,
     ue_library = \<lparr>ul_input = ex_call\<lparr>ca_alloc_op := False\<rparr>,
       ul_firmware = (\<lambda>_. \<lparr>fw_path = False, fw_open = False, fw_seek_end = False, fw_len = 0, fw_seek_set = False, fw_buf = NULL, fw_read = 0\<rparr>),
       ul_acls = (\<lambda>_. None)\<rparr>,
     ue_answer = \<lparr>an_heap = Map.empty, an_entry = zero_entry, an_log = None\<rparr>\<rparr>"


end
