(* ===== verification/Pb_Tables.thy ===== *)
theory Pb_Tables
  imports Main
begin

text \<open>
  The tables of the generated protocol code. From \<^verbatim>\<open>kinetic.pb-c.c\<close>: the descriptors of the messages and of the enumerations. From \<^verbatim>\<open>kinetic.pb-c.h\<close>: the structures
  they describe with the values of their \<^verbatim>\<open>INIT\<close> macros, and the enumeration types. The prefix of the package is left out of identifiers; an offset of a structure is the
  name of the member it belongs to, and the address of a table is the name of the table.
\<close>

section \<open>Descriptors\<close>

datatype pb_label = LABEL_REQUIRED | LABEL_OPTIONAL | LABEL_REPEATED

datatype pb_type = TYPE_INT32 | TYPE_INT64 | TYPE_UINT32 | TYPE_UINT64 | TYPE_FLOAT | TYPE_BOOL | TYPE_ENUM | TYPE_STRING | TYPE_BYTES | TYPE_MESSAGE

record ProtobufCFieldDescriptor =
  fd_name :: string
  fd_id :: nat
  fd_label :: pb_label
  fd_type :: pb_type
  fd_quantifier :: "string option"
  fd_member :: string
  fd_descriptor :: "string option"
  fd_default :: "string option"

definition pb_field ::
  "string \<Rightarrow> nat \<Rightarrow> pb_label \<Rightarrow> pb_type \<Rightarrow> string option \<Rightarrow> string \<Rightarrow> string option \<Rightarrow> string option \<Rightarrow> ProtobufCFieldDescriptor" where
  "pb_field n i l t q m d v = \<lparr>fd_name = n, fd_id = i, fd_label = l, fd_type = t, fd_quantifier = q, fd_member = m, fd_descriptor = d, fd_default = v\<rparr>"

text \<open>A table of ranges gives the first number of each range and the index of its first entry; its last row closes it with the number of entries.\<close>

record ProtobufCMessageDescriptor =
  md_id :: string
  md_name :: string
  md_short_name :: string
  md_c_name :: string
  md_package_name :: string
  md_struct :: string
  md_n_fields :: nat
  md_fields :: "ProtobufCFieldDescriptor list"
  md_fields_sorted_by_name :: "nat list"
  md_n_field_ranges :: nat
  md_field_ranges :: "(int \<times> nat) list"

record ProtobufCEnumDescriptor =
  ed_id :: string
  ed_name :: string
  ed_short_name :: string
  ed_c_name :: string
  ed_package_name :: string
  ed_n_values :: nat
  ed_values :: "(string \<times> string \<times> int) list"
  ed_n_value_names :: nat
  ed_values_by_name :: "(string \<times> nat) list"
  ed_n_value_ranges :: nat
  ed_value_ranges :: "(int \<times> nat) list"

text \<open>The type of a member. A message member is a pointer to one, an array a pointer to its first element.\<close>

datatype c_type =
    CT_bool | CT_size | CT_int32 | CT_int64 | CT_uint32 | CT_uint64 | CT_float | CT_binary | CT_string
  | CT_enum string | CT_message string | CT_array c_type

datatype init_value = Init_0 | Init_NULL | Init_empty | Init_default string

text \<open>The name of the structure, the descriptor its initial value points to, and its members after the base.\<close>

type_synonym pb_struct = "string \<times> string \<times> (string \<times> c_type \<times> init_value) list"

section \<open>Messages\<close>

definition local__protocol_version__default_value :: string where
  "local__protocol_version__default_value = ''3.0.5''"

definition local__field_descriptors :: "ProtobufCFieldDescriptor list" where
  "local__field_descriptors =
     [pb_field ''protocolVersion'' 1 LABEL_OPTIONAL TYPE_STRING (None) ''protocolversion'' (None) (Some ''local__protocol_version'')]"

definition local__descriptor :: ProtobufCMessageDescriptor where
  "local__descriptor =
     \<lparr>md_id = ''local'', md_name = ''com.seagate.kinetic.proto.Local'', md_short_name = ''Local'', md_c_name = ''Com__Seagate__Kinetic__Proto__Local'',
      md_package_name = ''com.seagate.kinetic.proto'', md_struct = ''Local'', md_n_fields = 1, md_fields = local__field_descriptors,
      md_fields_sorted_by_name = [0], md_n_field_ranges = 1, md_field_ranges = [(1, 0), (0, 1)]\<rparr>"

definition message__hmacauth__field_descriptors :: "ProtobufCFieldDescriptor list" where
  "message__hmacauth__field_descriptors =
     [pb_field ''identity'' 1 LABEL_OPTIONAL TYPE_INT64 (Some ''has_identity'') ''identity'' (None) (None),
      pb_field ''hmac'' 2 LABEL_OPTIONAL TYPE_BYTES (Some ''has_hmac'') ''hmac'' (None) (None)]"

definition message__hmacauth__descriptor :: ProtobufCMessageDescriptor where
  "message__hmacauth__descriptor =
     \<lparr>md_id = ''message__hmacauth'', md_name = ''com.seagate.kinetic.proto.Message.HMACauth'', md_short_name = ''HMACauth'', md_c_name = ''Com__Seagate__Kinetic__Proto__Message__HMACauth'',
      md_package_name = ''com.seagate.kinetic.proto'', md_struct = ''Message__HMACauth'', md_n_fields = 2, md_fields = message__hmacauth__field_descriptors,
      md_fields_sorted_by_name = [1, 0], md_n_field_ranges = 1, md_field_ranges = [(1, 0), (0, 2)]\<rparr>"

definition message__pinauth__field_descriptors :: "ProtobufCFieldDescriptor list" where
  "message__pinauth__field_descriptors =
     [pb_field ''pin'' 1 LABEL_OPTIONAL TYPE_BYTES (Some ''has_pin'') ''pin'' (None) (None)]"

definition message__pinauth__descriptor :: ProtobufCMessageDescriptor where
  "message__pinauth__descriptor =
     \<lparr>md_id = ''message__pinauth'', md_name = ''com.seagate.kinetic.proto.Message.PINauth'', md_short_name = ''PINauth'', md_c_name = ''Com__Seagate__Kinetic__Proto__Message__PINauth'',
      md_package_name = ''com.seagate.kinetic.proto'', md_struct = ''Message__PINauth'', md_n_fields = 1, md_fields = message__pinauth__field_descriptors,
      md_fields_sorted_by_name = [0], md_n_field_ranges = 1, md_field_ranges = [(1, 0), (0, 1)]\<rparr>"

definition message__field_descriptors :: "ProtobufCFieldDescriptor list" where
  "message__field_descriptors =
     [pb_field ''authType'' 4 LABEL_OPTIONAL TYPE_ENUM (Some ''has_authtype'') ''authtype'' (Some ''message__auth_type'') (None),
      pb_field ''hmacAuth'' 5 LABEL_OPTIONAL TYPE_MESSAGE (None) ''hmacauth'' (Some ''message__hmacauth'') (None),
      pb_field ''pinAuth'' 6 LABEL_OPTIONAL TYPE_MESSAGE (None) ''pinauth'' (Some ''message__pinauth'') (None),
      pb_field ''commandBytes'' 7 LABEL_OPTIONAL TYPE_BYTES (Some ''has_commandbytes'') ''commandbytes'' (None) (None)]"

definition message__descriptor :: ProtobufCMessageDescriptor where
  "message__descriptor =
     \<lparr>md_id = ''message'', md_name = ''com.seagate.kinetic.proto.Message'', md_short_name = ''Message'', md_c_name = ''Com__Seagate__Kinetic__Proto__Message'',
      md_package_name = ''com.seagate.kinetic.proto'', md_struct = ''Message'', md_n_fields = 4, md_fields = message__field_descriptors,
      md_fields_sorted_by_name = [0, 3, 1, 2], md_n_field_ranges = 1, md_field_ranges = [(4, 0), (0, 4)]\<rparr>"

definition command__header__field_descriptors :: "ProtobufCFieldDescriptor list" where
  "command__header__field_descriptors =
     [pb_field ''clusterVersion'' 1 LABEL_OPTIONAL TYPE_INT64 (Some ''has_clusterversion'') ''clusterversion'' (None) (None),
      pb_field ''connectionID'' 3 LABEL_OPTIONAL TYPE_INT64 (Some ''has_connectionid'') ''connectionid'' (None) (None),
      pb_field ''sequence'' 4 LABEL_OPTIONAL TYPE_INT64 (Some ''has_sequence'') ''sequence'' (None) (None),
      pb_field ''ackSequence'' 6 LABEL_OPTIONAL TYPE_INT64 (Some ''has_acksequence'') ''acksequence'' (None) (None),
      pb_field ''messageType'' 7 LABEL_OPTIONAL TYPE_ENUM (Some ''has_messagetype'') ''messagetype'' (Some ''command__message_type'') (None),
      pb_field ''timeout'' 9 LABEL_OPTIONAL TYPE_INT64 (Some ''has_timeout'') ''timeout'' (None) (None),
      pb_field ''earlyExit'' 10 LABEL_OPTIONAL TYPE_BOOL (Some ''has_earlyexit'') ''earlyexit'' (None) (None),
      pb_field ''priority'' 12 LABEL_OPTIONAL TYPE_ENUM (Some ''has_priority'') ''priority'' (Some ''command__priority'') (None),
      pb_field ''TimeQuanta'' 13 LABEL_OPTIONAL TYPE_INT64 (Some ''has_timequanta'') ''timequanta'' (None) (None)]"

definition command__header__descriptor :: ProtobufCMessageDescriptor where
  "command__header__descriptor =
     \<lparr>md_id = ''command__header'', md_name = ''com.seagate.kinetic.proto.Command.Header'', md_short_name = ''Header'', md_c_name = ''Com__Seagate__Kinetic__Proto__Command__Header'',
      md_package_name = ''com.seagate.kinetic.proto'', md_struct = ''Command__Header'', md_n_fields = 9, md_fields = command__header__field_descriptors,
      md_fields_sorted_by_name = [8, 3, 0, 1, 6, 4, 7, 2, 5], md_n_field_ranges = 5, md_field_ranges = [(1, 0), (3, 1), (6, 3), (9, 5), (12, 7), (0, 9)]\<rparr>"

definition command__body__field_descriptors :: "ProtobufCFieldDescriptor list" where
  "command__body__field_descriptors =
     [pb_field ''keyValue'' 1 LABEL_OPTIONAL TYPE_MESSAGE (None) ''keyvalue'' (Some ''command__key_value'') (None),
      pb_field ''range'' 2 LABEL_OPTIONAL TYPE_MESSAGE (None) ''range'' (Some ''command__range'') (None),
      pb_field ''setup'' 3 LABEL_OPTIONAL TYPE_MESSAGE (None) ''setup'' (Some ''command__setup'') (None),
      pb_field ''p2pOperation'' 4 LABEL_OPTIONAL TYPE_MESSAGE (None) ''p2poperation'' (Some ''command__p2_poperation'') (None),
      pb_field ''getLog'' 6 LABEL_OPTIONAL TYPE_MESSAGE (None) ''getlog'' (Some ''command__get_log'') (None),
      pb_field ''security'' 7 LABEL_OPTIONAL TYPE_MESSAGE (None) ''security'' (Some ''command__security'') (None),
      pb_field ''pinOp'' 8 LABEL_OPTIONAL TYPE_MESSAGE (None) ''pinop'' (Some ''command__pin_operation'') (None)]"

definition command__body__descriptor :: ProtobufCMessageDescriptor where
  "command__body__descriptor =
     \<lparr>md_id = ''command__body'', md_name = ''com.seagate.kinetic.proto.Command.Body'', md_short_name = ''Body'', md_c_name = ''Com__Seagate__Kinetic__Proto__Command__Body'',
      md_package_name = ''com.seagate.kinetic.proto'', md_struct = ''Command__Body'', md_n_fields = 7, md_fields = command__body__field_descriptors,
      md_fields_sorted_by_name = [4, 0, 3, 6, 1, 5, 2], md_n_field_ranges = 2, md_field_ranges = [(1, 0), (6, 4), (0, 7)]\<rparr>"

definition command__status__field_descriptors :: "ProtobufCFieldDescriptor list" where
  "command__status__field_descriptors =
     [pb_field ''code'' 1 LABEL_OPTIONAL TYPE_ENUM (Some ''has_code'') ''code'' (Some ''command__status__status_code'') (None),
      pb_field ''statusMessage'' 2 LABEL_OPTIONAL TYPE_STRING (None) ''statusmessage'' (None) (None),
      pb_field ''detailedMessage'' 3 LABEL_OPTIONAL TYPE_BYTES (Some ''has_detailedmessage'') ''detailedmessage'' (None) (None)]"

definition command__status__descriptor :: ProtobufCMessageDescriptor where
  "command__status__descriptor =
     \<lparr>md_id = ''command__status'', md_name = ''com.seagate.kinetic.proto.Command.Status'', md_short_name = ''Status'', md_c_name = ''Com__Seagate__Kinetic__Proto__Command__Status'',
      md_package_name = ''com.seagate.kinetic.proto'', md_struct = ''Command__Status'', md_n_fields = 3, md_fields = command__status__field_descriptors,
      md_fields_sorted_by_name = [0, 2, 1], md_n_field_ranges = 1, md_field_ranges = [(1, 0), (0, 3)]\<rparr>"

definition command__key_value__field_descriptors :: "ProtobufCFieldDescriptor list" where
  "command__key_value__field_descriptors =
     [pb_field ''newVersion'' 2 LABEL_OPTIONAL TYPE_BYTES (Some ''has_newversion'') ''newversion'' (None) (None),
      pb_field ''key'' 3 LABEL_OPTIONAL TYPE_BYTES (Some ''has_key'') ''key'' (None) (None),
      pb_field ''dbVersion'' 4 LABEL_OPTIONAL TYPE_BYTES (Some ''has_dbversion'') ''dbversion'' (None) (None),
      pb_field ''tag'' 5 LABEL_OPTIONAL TYPE_BYTES (Some ''has_tag'') ''tag'' (None) (None),
      pb_field ''algorithm'' 6 LABEL_OPTIONAL TYPE_ENUM (Some ''has_algorithm'') ''algorithm'' (Some ''command__algorithm'') (None),
      pb_field ''metadataOnly'' 7 LABEL_OPTIONAL TYPE_BOOL (Some ''has_metadataonly'') ''metadataonly'' (None) (None),
      pb_field ''force'' 8 LABEL_OPTIONAL TYPE_BOOL (Some ''has_force'') ''force'' (None) (None),
      pb_field ''synchronization'' 9 LABEL_OPTIONAL TYPE_ENUM (Some ''has_synchronization'') ''synchronization'' (Some ''command__synchronization'') (None)]"

definition command__key_value__descriptor :: ProtobufCMessageDescriptor where
  "command__key_value__descriptor =
     \<lparr>md_id = ''command__key_value'', md_name = ''com.seagate.kinetic.proto.Command.KeyValue'', md_short_name = ''KeyValue'', md_c_name = ''Com__Seagate__Kinetic__Proto__Command__KeyValue'',
      md_package_name = ''com.seagate.kinetic.proto'', md_struct = ''Command__KeyValue'', md_n_fields = 8, md_fields = command__key_value__field_descriptors,
      md_fields_sorted_by_name = [4, 2, 6, 1, 5, 0, 7, 3], md_n_field_ranges = 1, md_field_ranges = [(2, 0), (0, 8)]\<rparr>"

definition command__range__field_descriptors :: "ProtobufCFieldDescriptor list" where
  "command__range__field_descriptors =
     [pb_field ''startKey'' 1 LABEL_OPTIONAL TYPE_BYTES (Some ''has_startkey'') ''startkey'' (None) (None),
      pb_field ''endKey'' 2 LABEL_OPTIONAL TYPE_BYTES (Some ''has_endkey'') ''endkey'' (None) (None),
      pb_field ''startKeyInclusive'' 3 LABEL_OPTIONAL TYPE_BOOL (Some ''has_startkeyinclusive'') ''startkeyinclusive'' (None) (None),
      pb_field ''endKeyInclusive'' 4 LABEL_OPTIONAL TYPE_BOOL (Some ''has_endkeyinclusive'') ''endkeyinclusive'' (None) (None),
      pb_field ''maxReturned'' 5 LABEL_OPTIONAL TYPE_INT32 (Some ''has_maxreturned'') ''maxreturned'' (None) (None),
      pb_field ''reverse'' 6 LABEL_OPTIONAL TYPE_BOOL (Some ''has_reverse'') ''reverse'' (None) (None),
      pb_field ''keys'' 8 LABEL_REPEATED TYPE_BYTES (Some ''n_keys'') ''keys'' (None) (None)]"

definition command__range__descriptor :: ProtobufCMessageDescriptor where
  "command__range__descriptor =
     \<lparr>md_id = ''command__range'', md_name = ''com.seagate.kinetic.proto.Command.Range'', md_short_name = ''Range'', md_c_name = ''Com__Seagate__Kinetic__Proto__Command__Range'',
      md_package_name = ''com.seagate.kinetic.proto'', md_struct = ''Command__Range'', md_n_fields = 7, md_fields = command__range__field_descriptors,
      md_fields_sorted_by_name = [1, 3, 6, 4, 5, 0, 2], md_n_field_ranges = 2, md_field_ranges = [(1, 0), (8, 6), (0, 7)]\<rparr>"

definition command__setup__field_descriptors :: "ProtobufCFieldDescriptor list" where
  "command__setup__field_descriptors =
     [pb_field ''newClusterVersion'' 1 LABEL_OPTIONAL TYPE_INT64 (Some ''has_newclusterversion'') ''newclusterversion'' (None) (None),
      pb_field ''firmwareDownload'' 5 LABEL_OPTIONAL TYPE_BOOL (Some ''has_firmwaredownload'') ''firmwaredownload'' (None) (None)]"

definition command__setup__descriptor :: ProtobufCMessageDescriptor where
  "command__setup__descriptor =
     \<lparr>md_id = ''command__setup'', md_name = ''com.seagate.kinetic.proto.Command.Setup'', md_short_name = ''Setup'', md_c_name = ''Com__Seagate__Kinetic__Proto__Command__Setup'',
      md_package_name = ''com.seagate.kinetic.proto'', md_struct = ''Command__Setup'', md_n_fields = 2, md_fields = command__setup__field_descriptors,
      md_fields_sorted_by_name = [1, 0], md_n_field_ranges = 2, md_field_ranges = [(1, 0), (5, 1), (0, 2)]\<rparr>"

definition command__p2_poperation__operation__field_descriptors :: "ProtobufCFieldDescriptor list" where
  "command__p2_poperation__operation__field_descriptors =
     [pb_field ''key'' 3 LABEL_OPTIONAL TYPE_BYTES (Some ''has_key'') ''key'' (None) (None),
      pb_field ''version'' 4 LABEL_OPTIONAL TYPE_BYTES (Some ''has_version'') ''version'' (None) (None),
      pb_field ''newKey'' 5 LABEL_OPTIONAL TYPE_BYTES (Some ''has_newkey'') ''newkey'' (None) (None),
      pb_field ''force'' 6 LABEL_OPTIONAL TYPE_BOOL (Some ''has_force'') ''force'' (None) (None),
      pb_field ''status'' 7 LABEL_OPTIONAL TYPE_MESSAGE (None) ''status'' (Some ''command__status'') (None),
      pb_field ''p2pop'' 8 LABEL_OPTIONAL TYPE_MESSAGE (None) ''p2pop'' (Some ''command__p2_poperation'') (None)]"

definition command__p2_poperation__operation__descriptor :: ProtobufCMessageDescriptor where
  "command__p2_poperation__operation__descriptor =
     \<lparr>md_id = ''command__p2_poperation__operation'', md_name = ''com.seagate.kinetic.proto.Command.P2POperation.Operation'', md_short_name = ''Operation'', md_c_name = ''Com__Seagate__Kinetic__Proto__Command__P2POperation__Operation'',
      md_package_name = ''com.seagate.kinetic.proto'', md_struct = ''Command__P2POperation__Operation'', md_n_fields = 6, md_fields = command__p2_poperation__operation__field_descriptors,
      md_fields_sorted_by_name = [3, 0, 2, 5, 4, 1], md_n_field_ranges = 1, md_field_ranges = [(3, 0), (0, 6)]\<rparr>"

definition command__p2_poperation__peer__field_descriptors :: "ProtobufCFieldDescriptor list" where
  "command__p2_poperation__peer__field_descriptors =
     [pb_field ''hostname'' 1 LABEL_OPTIONAL TYPE_STRING (None) ''hostname'' (None) (None),
      pb_field ''port'' 2 LABEL_OPTIONAL TYPE_INT32 (Some ''has_port'') ''port'' (None) (None),
      pb_field ''tls'' 3 LABEL_OPTIONAL TYPE_BOOL (Some ''has_tls'') ''tls'' (None) (None)]"

definition command__p2_poperation__peer__descriptor :: ProtobufCMessageDescriptor where
  "command__p2_poperation__peer__descriptor =
     \<lparr>md_id = ''command__p2_poperation__peer'', md_name = ''com.seagate.kinetic.proto.Command.P2POperation.Peer'', md_short_name = ''Peer'', md_c_name = ''Com__Seagate__Kinetic__Proto__Command__P2POperation__Peer'',
      md_package_name = ''com.seagate.kinetic.proto'', md_struct = ''Command__P2POperation__Peer'', md_n_fields = 3, md_fields = command__p2_poperation__peer__field_descriptors,
      md_fields_sorted_by_name = [0, 1, 2], md_n_field_ranges = 1, md_field_ranges = [(1, 0), (0, 3)]\<rparr>"

definition command__p2_poperation__field_descriptors :: "ProtobufCFieldDescriptor list" where
  "command__p2_poperation__field_descriptors =
     [pb_field ''peer'' 1 LABEL_OPTIONAL TYPE_MESSAGE (None) ''peer'' (Some ''command__p2_poperation__peer'') (None),
      pb_field ''operation'' 2 LABEL_REPEATED TYPE_MESSAGE (Some ''n_operation'') ''operation'' (Some ''command__p2_poperation__operation'') (None),
      pb_field ''allChildOperationsSucceeded'' 3 LABEL_OPTIONAL TYPE_BOOL (Some ''has_allchildoperationssucceeded'') ''allchildoperationssucceeded'' (None) (None)]"

definition command__p2_poperation__descriptor :: ProtobufCMessageDescriptor where
  "command__p2_poperation__descriptor =
     \<lparr>md_id = ''command__p2_poperation'', md_name = ''com.seagate.kinetic.proto.Command.P2POperation'', md_short_name = ''P2POperation'', md_c_name = ''Com__Seagate__Kinetic__Proto__Command__P2POperation'',
      md_package_name = ''com.seagate.kinetic.proto'', md_struct = ''Command__P2POperation'', md_n_fields = 3, md_fields = command__p2_poperation__field_descriptors,
      md_fields_sorted_by_name = [2, 1, 0], md_n_field_ranges = 1, md_field_ranges = [(1, 0), (0, 3)]\<rparr>"

definition command__get_log__utilization__field_descriptors :: "ProtobufCFieldDescriptor list" where
  "command__get_log__utilization__field_descriptors =
     [pb_field ''name'' 1 LABEL_OPTIONAL TYPE_STRING (None) ''name'' (None) (None),
      pb_field ''value'' 2 LABEL_OPTIONAL TYPE_FLOAT (Some ''has_value'') ''value'' (None) (None)]"

definition command__get_log__utilization__descriptor :: ProtobufCMessageDescriptor where
  "command__get_log__utilization__descriptor =
     \<lparr>md_id = ''command__get_log__utilization'', md_name = ''com.seagate.kinetic.proto.Command.GetLog.Utilization'', md_short_name = ''Utilization'', md_c_name = ''Com__Seagate__Kinetic__Proto__Command__GetLog__Utilization'',
      md_package_name = ''com.seagate.kinetic.proto'', md_struct = ''Command__GetLog__Utilization'', md_n_fields = 2, md_fields = command__get_log__utilization__field_descriptors,
      md_fields_sorted_by_name = [0, 1], md_n_field_ranges = 1, md_field_ranges = [(1, 0), (0, 2)]\<rparr>"

definition command__get_log__temperature__field_descriptors :: "ProtobufCFieldDescriptor list" where
  "command__get_log__temperature__field_descriptors =
     [pb_field ''name'' 1 LABEL_OPTIONAL TYPE_STRING (None) ''name'' (None) (None),
      pb_field ''current'' 2 LABEL_OPTIONAL TYPE_FLOAT (Some ''has_current'') ''current'' (None) (None),
      pb_field ''minimum'' 3 LABEL_OPTIONAL TYPE_FLOAT (Some ''has_minimum'') ''minimum'' (None) (None),
      pb_field ''maximum'' 4 LABEL_OPTIONAL TYPE_FLOAT (Some ''has_maximum'') ''maximum'' (None) (None),
      pb_field ''target'' 5 LABEL_OPTIONAL TYPE_FLOAT (Some ''has_target'') ''target'' (None) (None)]"

definition command__get_log__temperature__descriptor :: ProtobufCMessageDescriptor where
  "command__get_log__temperature__descriptor =
     \<lparr>md_id = ''command__get_log__temperature'', md_name = ''com.seagate.kinetic.proto.Command.GetLog.Temperature'', md_short_name = ''Temperature'', md_c_name = ''Com__Seagate__Kinetic__Proto__Command__GetLog__Temperature'',
      md_package_name = ''com.seagate.kinetic.proto'', md_struct = ''Command__GetLog__Temperature'', md_n_fields = 5, md_fields = command__get_log__temperature__field_descriptors,
      md_fields_sorted_by_name = [1, 3, 2, 0, 4], md_n_field_ranges = 1, md_field_ranges = [(1, 0), (0, 5)]\<rparr>"

definition command__get_log__capacity__field_descriptors :: "ProtobufCFieldDescriptor list" where
  "command__get_log__capacity__field_descriptors =
     [pb_field ''nominalCapacityInBytes'' 4 LABEL_OPTIONAL TYPE_UINT64 (Some ''has_nominalcapacityinbytes'') ''nominalcapacityinbytes'' (None) (None),
      pb_field ''portionFull'' 5 LABEL_OPTIONAL TYPE_FLOAT (Some ''has_portionfull'') ''portionfull'' (None) (None)]"

definition command__get_log__capacity__descriptor :: ProtobufCMessageDescriptor where
  "command__get_log__capacity__descriptor =
     \<lparr>md_id = ''command__get_log__capacity'', md_name = ''com.seagate.kinetic.proto.Command.GetLog.Capacity'', md_short_name = ''Capacity'', md_c_name = ''Com__Seagate__Kinetic__Proto__Command__GetLog__Capacity'',
      md_package_name = ''com.seagate.kinetic.proto'', md_struct = ''Command__GetLog__Capacity'', md_n_fields = 2, md_fields = command__get_log__capacity__field_descriptors,
      md_fields_sorted_by_name = [0, 1], md_n_field_ranges = 1, md_field_ranges = [(4, 0), (0, 2)]\<rparr>"

definition command__get_log__configuration__interface__field_descriptors :: "ProtobufCFieldDescriptor list" where
  "command__get_log__configuration__interface__field_descriptors =
     [pb_field ''name'' 1 LABEL_OPTIONAL TYPE_STRING (None) ''name'' (None) (None),
      pb_field ''MAC'' 2 LABEL_OPTIONAL TYPE_BYTES (Some ''has_mac'') ''mac'' (None) (None),
      pb_field ''ipv4Address'' 3 LABEL_OPTIONAL TYPE_BYTES (Some ''has_ipv4address'') ''ipv4address'' (None) (None),
      pb_field ''ipv6Address'' 4 LABEL_OPTIONAL TYPE_BYTES (Some ''has_ipv6address'') ''ipv6address'' (None) (None)]"

definition command__get_log__configuration__interface__descriptor :: ProtobufCMessageDescriptor where
  "command__get_log__configuration__interface__descriptor =
     \<lparr>md_id = ''command__get_log__configuration__interface'', md_name = ''com.seagate.kinetic.proto.Command.GetLog.Configuration.Interface'', md_short_name = ''Interface'', md_c_name = ''Com__Seagate__Kinetic__Proto__Command__GetLog__Configuration__Interface'',
      md_package_name = ''com.seagate.kinetic.proto'', md_struct = ''Command__GetLog__Configuration__Interface'', md_n_fields = 4, md_fields = command__get_log__configuration__interface__field_descriptors,
      md_fields_sorted_by_name = [1, 2, 3, 0], md_n_field_ranges = 1, md_field_ranges = [(1, 0), (0, 4)]\<rparr>"

definition command__get_log__configuration__field_descriptors :: "ProtobufCFieldDescriptor list" where
  "command__get_log__configuration__field_descriptors =
     [pb_field ''vendor'' 5 LABEL_OPTIONAL TYPE_STRING (None) ''vendor'' (None) (None),
      pb_field ''model'' 6 LABEL_OPTIONAL TYPE_STRING (None) ''model'' (None) (None),
      pb_field ''serialNumber'' 7 LABEL_OPTIONAL TYPE_BYTES (Some ''has_serialnumber'') ''serialnumber'' (None) (None),
      pb_field ''version'' 8 LABEL_OPTIONAL TYPE_STRING (None) ''version'' (None) (None),
      pb_field ''interface'' 9 LABEL_REPEATED TYPE_MESSAGE (Some ''n_interface'') ''interface'' (Some ''command__get_log__configuration__interface'') (None),
      pb_field ''port'' 10 LABEL_OPTIONAL TYPE_INT32 (Some ''has_port'') ''port'' (None) (None),
      pb_field ''tlsPort'' 11 LABEL_OPTIONAL TYPE_INT32 (Some ''has_tlsport'') ''tlsport'' (None) (None),
      pb_field ''compilationDate'' 12 LABEL_OPTIONAL TYPE_STRING (None) ''compilationdate'' (None) (None),
      pb_field ''sourceHash'' 13 LABEL_OPTIONAL TYPE_STRING (None) ''sourcehash'' (None) (None),
      pb_field ''worldWideName'' 14 LABEL_OPTIONAL TYPE_BYTES (Some ''has_worldwidename'') ''worldwidename'' (None) (None),
      pb_field ''protocolVersion'' 15 LABEL_OPTIONAL TYPE_STRING (None) ''protocolversion'' (None) (None),
      pb_field ''protocolCompilationDate'' 16 LABEL_OPTIONAL TYPE_STRING (None) ''protocolcompilationdate'' (None) (None),
      pb_field ''protocolSourceHash'' 17 LABEL_OPTIONAL TYPE_STRING (None) ''protocolsourcehash'' (None) (None)]"

definition command__get_log__configuration__descriptor :: ProtobufCMessageDescriptor where
  "command__get_log__configuration__descriptor =
     \<lparr>md_id = ''command__get_log__configuration'', md_name = ''com.seagate.kinetic.proto.Command.GetLog.Configuration'', md_short_name = ''Configuration'', md_c_name = ''Com__Seagate__Kinetic__Proto__Command__GetLog__Configuration'',
      md_package_name = ''com.seagate.kinetic.proto'', md_struct = ''Command__GetLog__Configuration'', md_n_fields = 13, md_fields = command__get_log__configuration__field_descriptors,
      md_fields_sorted_by_name = [7, 4, 1, 5, 11, 12, 10, 2, 8, 6, 0, 3, 9], md_n_field_ranges = 1, md_field_ranges = [(5, 0), (0, 13)]\<rparr>"

definition command__get_log__statistics__field_descriptors :: "ProtobufCFieldDescriptor list" where
  "command__get_log__statistics__field_descriptors =
     [pb_field ''messageType'' 1 LABEL_OPTIONAL TYPE_ENUM (Some ''has_messagetype'') ''messagetype'' (Some ''command__message_type'') (None),
      pb_field ''count'' 4 LABEL_OPTIONAL TYPE_UINT64 (Some ''has_count'') ''count'' (None) (None),
      pb_field ''bytes'' 5 LABEL_OPTIONAL TYPE_UINT64 (Some ''has_bytes'') ''bytes'' (None) (None)]"

definition command__get_log__statistics__descriptor :: ProtobufCMessageDescriptor where
  "command__get_log__statistics__descriptor =
     \<lparr>md_id = ''command__get_log__statistics'', md_name = ''com.seagate.kinetic.proto.Command.GetLog.Statistics'', md_short_name = ''Statistics'', md_c_name = ''Com__Seagate__Kinetic__Proto__Command__GetLog__Statistics'',
      md_package_name = ''com.seagate.kinetic.proto'', md_struct = ''Command__GetLog__Statistics'', md_n_fields = 3, md_fields = command__get_log__statistics__field_descriptors,
      md_fields_sorted_by_name = [2, 1, 0], md_n_field_ranges = 2, md_field_ranges = [(1, 0), (4, 1), (0, 3)]\<rparr>"

definition command__get_log__limits__field_descriptors :: "ProtobufCFieldDescriptor list" where
  "command__get_log__limits__field_descriptors =
     [pb_field ''maxKeySize'' 1 LABEL_OPTIONAL TYPE_UINT32 (Some ''has_maxkeysize'') ''maxkeysize'' (None) (None),
      pb_field ''maxValueSize'' 2 LABEL_OPTIONAL TYPE_UINT32 (Some ''has_maxvaluesize'') ''maxvaluesize'' (None) (None),
      pb_field ''maxVersionSize'' 3 LABEL_OPTIONAL TYPE_UINT32 (Some ''has_maxversionsize'') ''maxversionsize'' (None) (None),
      pb_field ''maxTagSize'' 4 LABEL_OPTIONAL TYPE_UINT32 (Some ''has_maxtagsize'') ''maxtagsize'' (None) (None),
      pb_field ''maxConnections'' 5 LABEL_OPTIONAL TYPE_UINT32 (Some ''has_maxconnections'') ''maxconnections'' (None) (None),
      pb_field ''maxOutstandingReadRequests'' 6 LABEL_OPTIONAL TYPE_UINT32 (Some ''has_maxoutstandingreadrequests'') ''maxoutstandingreadrequests'' (None) (None),
      pb_field ''maxOutstandingWriteRequests'' 7 LABEL_OPTIONAL TYPE_UINT32 (Some ''has_maxoutstandingwriterequests'') ''maxoutstandingwriterequests'' (None) (None),
      pb_field ''maxMessageSize'' 8 LABEL_OPTIONAL TYPE_UINT32 (Some ''has_maxmessagesize'') ''maxmessagesize'' (None) (None),
      pb_field ''maxKeyRangeCount'' 9 LABEL_OPTIONAL TYPE_UINT32 (Some ''has_maxkeyrangecount'') ''maxkeyrangecount'' (None) (None),
      pb_field ''maxIdentityCount'' 10 LABEL_OPTIONAL TYPE_UINT32 (Some ''has_maxidentitycount'') ''maxidentitycount'' (None) (None),
      pb_field ''maxPinSize'' 11 LABEL_OPTIONAL TYPE_UINT32 (Some ''has_maxpinsize'') ''maxpinsize'' (None) (None)]"

definition command__get_log__limits__descriptor :: ProtobufCMessageDescriptor where
  "command__get_log__limits__descriptor =
     \<lparr>md_id = ''command__get_log__limits'', md_name = ''com.seagate.kinetic.proto.Command.GetLog.Limits'', md_short_name = ''Limits'', md_c_name = ''Com__Seagate__Kinetic__Proto__Command__GetLog__Limits'',
      md_package_name = ''com.seagate.kinetic.proto'', md_struct = ''Command__GetLog__Limits'', md_n_fields = 11, md_fields = command__get_log__limits__field_descriptors,
      md_fields_sorted_by_name = [4, 9, 8, 0, 7, 5, 6, 10, 3, 1, 2], md_n_field_ranges = 1, md_field_ranges = [(1, 0), (0, 11)]\<rparr>"

definition command__get_log__device__field_descriptors :: "ProtobufCFieldDescriptor list" where
  "command__get_log__device__field_descriptors =
     [pb_field ''name'' 1 LABEL_OPTIONAL TYPE_BYTES (Some ''has_name'') ''name'' (None) (None)]"

definition command__get_log__device__descriptor :: ProtobufCMessageDescriptor where
  "command__get_log__device__descriptor =
     \<lparr>md_id = ''command__get_log__device'', md_name = ''com.seagate.kinetic.proto.Command.GetLog.Device'', md_short_name = ''Device'', md_c_name = ''Com__Seagate__Kinetic__Proto__Command__GetLog__Device'',
      md_package_name = ''com.seagate.kinetic.proto'', md_struct = ''Command__GetLog__Device'', md_n_fields = 1, md_fields = command__get_log__device__field_descriptors,
      md_fields_sorted_by_name = [0], md_n_field_ranges = 1, md_field_ranges = [(1, 0), (0, 1)]\<rparr>"

definition command__get_log__field_descriptors :: "ProtobufCFieldDescriptor list" where
  "command__get_log__field_descriptors =
     [pb_field ''types'' 1 LABEL_REPEATED TYPE_ENUM (Some ''n_types'') ''types'' (Some ''command__get_log__type'') (None),
      pb_field ''utilizations'' 2 LABEL_REPEATED TYPE_MESSAGE (Some ''n_utilizations'') ''utilizations'' (Some ''command__get_log__utilization'') (None),
      pb_field ''temperatures'' 3 LABEL_REPEATED TYPE_MESSAGE (Some ''n_temperatures'') ''temperatures'' (Some ''command__get_log__temperature'') (None),
      pb_field ''capacity'' 4 LABEL_OPTIONAL TYPE_MESSAGE (None) ''capacity'' (Some ''command__get_log__capacity'') (None),
      pb_field ''configuration'' 5 LABEL_OPTIONAL TYPE_MESSAGE (None) ''configuration'' (Some ''command__get_log__configuration'') (None),
      pb_field ''statistics'' 6 LABEL_REPEATED TYPE_MESSAGE (Some ''n_statistics'') ''statistics'' (Some ''command__get_log__statistics'') (None),
      pb_field ''messages'' 7 LABEL_OPTIONAL TYPE_BYTES (Some ''has_messages'') ''messages'' (None) (None),
      pb_field ''limits'' 8 LABEL_OPTIONAL TYPE_MESSAGE (None) ''limits'' (Some ''command__get_log__limits'') (None),
      pb_field ''device'' 9 LABEL_OPTIONAL TYPE_MESSAGE (None) ''device'' (Some ''command__get_log__device'') (None)]"

definition command__get_log__descriptor :: ProtobufCMessageDescriptor where
  "command__get_log__descriptor =
     \<lparr>md_id = ''command__get_log'', md_name = ''com.seagate.kinetic.proto.Command.GetLog'', md_short_name = ''GetLog'', md_c_name = ''Com__Seagate__Kinetic__Proto__Command__GetLog'',
      md_package_name = ''com.seagate.kinetic.proto'', md_struct = ''Command__GetLog'', md_n_fields = 9, md_fields = command__get_log__field_descriptors,
      md_fields_sorted_by_name = [3, 4, 8, 7, 6, 5, 2, 0, 1], md_n_field_ranges = 1, md_field_ranges = [(1, 0), (0, 9)]\<rparr>"

definition command__security__acl__scope__field_descriptors :: "ProtobufCFieldDescriptor list" where
  "command__security__acl__scope__field_descriptors =
     [pb_field ''offset'' 1 LABEL_OPTIONAL TYPE_INT64 (Some ''has_offset'') ''offset'' (None) (None),
      pb_field ''value'' 2 LABEL_OPTIONAL TYPE_BYTES (Some ''has_value'') ''value'' (None) (None),
      pb_field ''permission'' 3 LABEL_REPEATED TYPE_ENUM (Some ''n_permission'') ''permission'' (Some ''command__security__acl__permission'') (None),
      pb_field ''TlsRequired'' 4 LABEL_OPTIONAL TYPE_BOOL (Some ''has_tlsrequired'') ''tlsrequired'' (None) (None)]"

definition command__security__acl__scope__descriptor :: ProtobufCMessageDescriptor where
  "command__security__acl__scope__descriptor =
     \<lparr>md_id = ''command__security__acl__scope'', md_name = ''com.seagate.kinetic.proto.Command.Security.ACL.Scope'', md_short_name = ''Scope'', md_c_name = ''Com__Seagate__Kinetic__Proto__Command__Security__ACL__Scope'',
      md_package_name = ''com.seagate.kinetic.proto'', md_struct = ''Command__Security__ACL__Scope'', md_n_fields = 4, md_fields = command__security__acl__scope__field_descriptors,
      md_fields_sorted_by_name = [3, 0, 2, 1], md_n_field_ranges = 1, md_field_ranges = [(1, 0), (0, 4)]\<rparr>"

definition command__security__acl__field_descriptors :: "ProtobufCFieldDescriptor list" where
  "command__security__acl__field_descriptors =
     [pb_field ''identity'' 1 LABEL_OPTIONAL TYPE_INT64 (Some ''has_identity'') ''identity'' (None) (None),
      pb_field ''key'' 2 LABEL_OPTIONAL TYPE_BYTES (Some ''has_key'') ''key'' (None) (None),
      pb_field ''hmacAlgorithm'' 3 LABEL_OPTIONAL TYPE_ENUM (Some ''has_hmacalgorithm'') ''hmacalgorithm'' (Some ''command__security__acl__hmacalgorithm'') (None),
      pb_field ''scope'' 4 LABEL_REPEATED TYPE_MESSAGE (Some ''n_scope'') ''scope'' (Some ''command__security__acl__scope'') (None),
      pb_field ''maxPriority'' 5 LABEL_OPTIONAL TYPE_ENUM (Some ''has_maxpriority'') ''maxpriority'' (Some ''command__priority'') (None)]"

definition command__security__acl__descriptor :: ProtobufCMessageDescriptor where
  "command__security__acl__descriptor =
     \<lparr>md_id = ''command__security__acl'', md_name = ''com.seagate.kinetic.proto.Command.Security.ACL'', md_short_name = ''ACL'', md_c_name = ''Com__Seagate__Kinetic__Proto__Command__Security__ACL'',
      md_package_name = ''com.seagate.kinetic.proto'', md_struct = ''Command__Security__ACL'', md_n_fields = 5, md_fields = command__security__acl__field_descriptors,
      md_fields_sorted_by_name = [2, 0, 1, 4, 3], md_n_field_ranges = 1, md_field_ranges = [(1, 0), (0, 5)]\<rparr>"

definition command__security__field_descriptors :: "ProtobufCFieldDescriptor list" where
  "command__security__field_descriptors =
     [pb_field ''acl'' 2 LABEL_REPEATED TYPE_MESSAGE (Some ''n_acl'') ''acl'' (Some ''command__security__acl'') (None),
      pb_field ''oldLockPIN'' 3 LABEL_OPTIONAL TYPE_BYTES (Some ''has_oldlockpin'') ''oldlockpin'' (None) (None),
      pb_field ''newLockPIN'' 4 LABEL_OPTIONAL TYPE_BYTES (Some ''has_newlockpin'') ''newlockpin'' (None) (None),
      pb_field ''oldErasePIN'' 5 LABEL_OPTIONAL TYPE_BYTES (Some ''has_olderasepin'') ''olderasepin'' (None) (None),
      pb_field ''newErasePIN'' 6 LABEL_OPTIONAL TYPE_BYTES (Some ''has_newerasepin'') ''newerasepin'' (None) (None)]"

definition command__security__descriptor :: ProtobufCMessageDescriptor where
  "command__security__descriptor =
     \<lparr>md_id = ''command__security'', md_name = ''com.seagate.kinetic.proto.Command.Security'', md_short_name = ''Security'', md_c_name = ''Com__Seagate__Kinetic__Proto__Command__Security'',
      md_package_name = ''com.seagate.kinetic.proto'', md_struct = ''Command__Security'', md_n_fields = 5, md_fields = command__security__field_descriptors,
      md_fields_sorted_by_name = [0, 4, 2, 3, 1], md_n_field_ranges = 1, md_field_ranges = [(2, 0), (0, 5)]\<rparr>"

definition command__pin_operation__field_descriptors :: "ProtobufCFieldDescriptor list" where
  "command__pin_operation__field_descriptors =
     [pb_field ''pinOpType'' 1 LABEL_OPTIONAL TYPE_ENUM (Some ''has_pinoptype'') ''pinoptype'' (Some ''command__pin_operation__pin_op_type'') (None)]"

definition command__pin_operation__descriptor :: ProtobufCMessageDescriptor where
  "command__pin_operation__descriptor =
     \<lparr>md_id = ''command__pin_operation'', md_name = ''com.seagate.kinetic.proto.Command.PinOperation'', md_short_name = ''PinOperation'', md_c_name = ''Com__Seagate__Kinetic__Proto__Command__PinOperation'',
      md_package_name = ''com.seagate.kinetic.proto'', md_struct = ''Command__PinOperation'', md_n_fields = 1, md_fields = command__pin_operation__field_descriptors,
      md_fields_sorted_by_name = [0], md_n_field_ranges = 1, md_field_ranges = [(1, 0), (0, 1)]\<rparr>"

definition command__field_descriptors :: "ProtobufCFieldDescriptor list" where
  "command__field_descriptors =
     [pb_field ''header'' 1 LABEL_OPTIONAL TYPE_MESSAGE (None) ''header'' (Some ''command__header'') (None),
      pb_field ''body'' 2 LABEL_OPTIONAL TYPE_MESSAGE (None) ''body'' (Some ''command__body'') (None),
      pb_field ''status'' 3 LABEL_OPTIONAL TYPE_MESSAGE (None) ''status'' (Some ''command__status'') (None)]"

definition command__descriptor :: ProtobufCMessageDescriptor where
  "command__descriptor =
     \<lparr>md_id = ''command'', md_name = ''com.seagate.kinetic.proto.Command'', md_short_name = ''Command'', md_c_name = ''Com__Seagate__Kinetic__Proto__Command'',
      md_package_name = ''com.seagate.kinetic.proto'', md_struct = ''Command'', md_n_fields = 3, md_fields = command__field_descriptors,
      md_fields_sorted_by_name = [1, 0, 2], md_n_field_ranges = 1, md_field_ranges = [(1, 0), (0, 3)]\<rparr>"

section \<open>Enumerations\<close>

definition message__auth_type__descriptor :: ProtobufCEnumDescriptor where
  "message__auth_type__descriptor =
     \<lparr>ed_id = ''message__auth_type'', ed_name = ''com.seagate.kinetic.proto.Message.AuthType'', ed_short_name = ''AuthType'', ed_c_name = ''Com__Seagate__Kinetic__Proto__Message__AuthType'', ed_package_name = ''com.seagate.kinetic.proto'', ed_n_values = 4,
      ed_values =
       [(''INVALID_AUTH_TYPE'', ''MESSAGE__AUTH_TYPE__INVALID_AUTH_TYPE'', -1),
        (''HMACAUTH'', ''MESSAGE__AUTH_TYPE__HMACAUTH'', 1),
        (''PINAUTH'', ''MESSAGE__AUTH_TYPE__PINAUTH'', 2),
        (''UNSOLICITEDSTATUS'', ''MESSAGE__AUTH_TYPE__UNSOLICITEDSTATUS'', 3)],
      ed_n_value_names = 4, ed_values_by_name =
       [(''HMACAUTH'', 1), (''INVALID_AUTH_TYPE'', 0), (''PINAUTH'', 2), (''UNSOLICITEDSTATUS'', 3)],
      ed_n_value_ranges = 2, ed_value_ranges = [(-1, 0), (1, 1), (0, 4)]\<rparr>"

definition command__status__status_code__descriptor :: ProtobufCEnumDescriptor where
  "command__status__status_code__descriptor =
     \<lparr>ed_id = ''command__status__status_code'', ed_name = ''com.seagate.kinetic.proto.Command.Status.StatusCode'', ed_short_name = ''StatusCode'', ed_c_name = ''Com__Seagate__Kinetic__Proto__Command__Status__StatusCode'', ed_package_name = ''com.seagate.kinetic.proto'', ed_n_values = 22,
      ed_values =
       [(''INVALID_STATUS_CODE'', ''COMMAND__STATUS__STATUS_CODE__INVALID_STATUS_CODE'', -1),
        (''NOT_ATTEMPTED'', ''COMMAND__STATUS__STATUS_CODE__NOT_ATTEMPTED'', 0),
        (''SUCCESS'', ''COMMAND__STATUS__STATUS_CODE__SUCCESS'', 1),
        (''HMAC_FAILURE'', ''COMMAND__STATUS__STATUS_CODE__HMAC_FAILURE'', 2),
        (''NOT_AUTHORIZED'', ''COMMAND__STATUS__STATUS_CODE__NOT_AUTHORIZED'', 3),
        (''VERSION_FAILURE'', ''COMMAND__STATUS__STATUS_CODE__VERSION_FAILURE'', 4),
        (''INTERNAL_ERROR'', ''COMMAND__STATUS__STATUS_CODE__INTERNAL_ERROR'', 5),
        (''HEADER_REQUIRED'', ''COMMAND__STATUS__STATUS_CODE__HEADER_REQUIRED'', 6),
        (''NOT_FOUND'', ''COMMAND__STATUS__STATUS_CODE__NOT_FOUND'', 7),
        (''VERSION_MISMATCH'', ''COMMAND__STATUS__STATUS_CODE__VERSION_MISMATCH'', 8),
        (''SERVICE_BUSY'', ''COMMAND__STATUS__STATUS_CODE__SERVICE_BUSY'', 9),
        (''EXPIRED'', ''COMMAND__STATUS__STATUS_CODE__EXPIRED'', 10),
        (''DATA_ERROR'', ''COMMAND__STATUS__STATUS_CODE__DATA_ERROR'', 11),
        (''PERM_DATA_ERROR'', ''COMMAND__STATUS__STATUS_CODE__PERM_DATA_ERROR'', 12),
        (''REMOTE_CONNECTION_ERROR'', ''COMMAND__STATUS__STATUS_CODE__REMOTE_CONNECTION_ERROR'', 13),
        (''NO_SPACE'', ''COMMAND__STATUS__STATUS_CODE__NO_SPACE'', 14),
        (''NO_SUCH_HMAC_ALGORITHM'', ''COMMAND__STATUS__STATUS_CODE__NO_SUCH_HMAC_ALGORITHM'', 15),
        (''INVALID_REQUEST'', ''COMMAND__STATUS__STATUS_CODE__INVALID_REQUEST'', 16),
        (''NESTED_OPERATION_ERRORS'', ''COMMAND__STATUS__STATUS_CODE__NESTED_OPERATION_ERRORS'', 17),
        (''DEVICE_LOCKED'', ''COMMAND__STATUS__STATUS_CODE__DEVICE_LOCKED'', 18),
        (''DEVICE_ALREADY_UNLOCKED'', ''COMMAND__STATUS__STATUS_CODE__DEVICE_ALREADY_UNLOCKED'', 19),
        (''CONNECTION_TERMINATED'', ''COMMAND__STATUS__STATUS_CODE__CONNECTION_TERMINATED'', 20)],
      ed_n_value_names = 22, ed_values_by_name =
       [(''CONNECTION_TERMINATED'', 21), (''DATA_ERROR'', 12), (''DEVICE_ALREADY_UNLOCKED'', 20), (''DEVICE_LOCKED'', 19), (''EXPIRED'', 11), (''HEADER_REQUIRED'', 7), (''HMAC_FAILURE'', 3), (''INTERNAL_ERROR'', 6), (''INVALID_REQUEST'', 17), (''INVALID_STATUS_CODE'', 0), (''NESTED_OPERATION_ERRORS'', 18), (''NOT_ATTEMPTED'', 1), (''NOT_AUTHORIZED'', 4), (''NOT_FOUND'', 8), (''NO_SPACE'', 15), (''NO_SUCH_HMAC_ALGORITHM'', 16), (''PERM_DATA_ERROR'', 13), (''REMOTE_CONNECTION_ERROR'', 14), (''SERVICE_BUSY'', 10), (''SUCCESS'', 2), (''VERSION_FAILURE'', 5), (''VERSION_MISMATCH'', 9)],
      ed_n_value_ranges = 1, ed_value_ranges = [(-1, 0), (0, 22)]\<rparr>"

definition command__get_log__type__descriptor :: ProtobufCEnumDescriptor where
  "command__get_log__type__descriptor =
     \<lparr>ed_id = ''command__get_log__type'', ed_name = ''com.seagate.kinetic.proto.Command.GetLog.Type'', ed_short_name = ''Type'', ed_c_name = ''Com__Seagate__Kinetic__Proto__Command__GetLog__Type'', ed_package_name = ''com.seagate.kinetic.proto'', ed_n_values = 9,
      ed_values =
       [(''INVALID_TYPE'', ''COMMAND__GET_LOG__TYPE__INVALID_TYPE'', -1),
        (''UTILIZATIONS'', ''COMMAND__GET_LOG__TYPE__UTILIZATIONS'', 0),
        (''TEMPERATURES'', ''COMMAND__GET_LOG__TYPE__TEMPERATURES'', 1),
        (''CAPACITIES'', ''COMMAND__GET_LOG__TYPE__CAPACITIES'', 2),
        (''CONFIGURATION'', ''COMMAND__GET_LOG__TYPE__CONFIGURATION'', 3),
        (''STATISTICS'', ''COMMAND__GET_LOG__TYPE__STATISTICS'', 4),
        (''MESSAGES'', ''COMMAND__GET_LOG__TYPE__MESSAGES'', 5),
        (''LIMITS'', ''COMMAND__GET_LOG__TYPE__LIMITS'', 6),
        (''DEVICE'', ''COMMAND__GET_LOG__TYPE__DEVICE'', 7)],
      ed_n_value_names = 9, ed_values_by_name =
       [(''CAPACITIES'', 3), (''CONFIGURATION'', 4), (''DEVICE'', 8), (''INVALID_TYPE'', 0), (''LIMITS'', 7), (''MESSAGES'', 6), (''STATISTICS'', 5), (''TEMPERATURES'', 2), (''UTILIZATIONS'', 1)],
      ed_n_value_ranges = 1, ed_value_ranges = [(-1, 0), (0, 9)]\<rparr>"

definition command__security__acl__hmacalgorithm__descriptor :: ProtobufCEnumDescriptor where
  "command__security__acl__hmacalgorithm__descriptor =
     \<lparr>ed_id = ''command__security__acl__hmacalgorithm'', ed_name = ''com.seagate.kinetic.proto.Command.Security.ACL.HMACAlgorithm'', ed_short_name = ''HMACAlgorithm'', ed_c_name = ''Com__Seagate__Kinetic__Proto__Command__Security__ACL__HMACAlgorithm'', ed_package_name = ''com.seagate.kinetic.proto'', ed_n_values = 2,
      ed_values =
       [(''INVALID_HMAC_ALGORITHM'', ''COMMAND__SECURITY__ACL__HMACALGORITHM__INVALID_HMAC_ALGORITHM'', -1),
        (''HmacSHA1'', ''COMMAND__SECURITY__ACL__HMACALGORITHM__HmacSHA1'', 1)],
      ed_n_value_names = 2, ed_values_by_name =
       [(''HmacSHA1'', 1), (''INVALID_HMAC_ALGORITHM'', 0)],
      ed_n_value_ranges = 2, ed_value_ranges = [(-1, 0), (1, 1), (0, 2)]\<rparr>"

definition command__security__acl__permission__descriptor :: ProtobufCEnumDescriptor where
  "command__security__acl__permission__descriptor =
     \<lparr>ed_id = ''command__security__acl__permission'', ed_name = ''com.seagate.kinetic.proto.Command.Security.ACL.Permission'', ed_short_name = ''Permission'', ed_c_name = ''Com__Seagate__Kinetic__Proto__Command__Security__ACL__Permission'', ed_package_name = ''com.seagate.kinetic.proto'', ed_n_values = 9,
      ed_values =
       [(''INVALID_PERMISSION'', ''COMMAND__SECURITY__ACL__PERMISSION__INVALID_PERMISSION'', -1),
        (''READ'', ''COMMAND__SECURITY__ACL__PERMISSION__READ'', 0),
        (''WRITE'', ''COMMAND__SECURITY__ACL__PERMISSION__WRITE'', 1),
        (''DELETE'', ''COMMAND__SECURITY__ACL__PERMISSION__DELETE'', 2),
        (''RANGE'', ''COMMAND__SECURITY__ACL__PERMISSION__RANGE'', 3),
        (''SETUP'', ''COMMAND__SECURITY__ACL__PERMISSION__SETUP'', 4),
        (''P2POP'', ''COMMAND__SECURITY__ACL__PERMISSION__P2POP'', 5),
        (''GETLOG'', ''COMMAND__SECURITY__ACL__PERMISSION__GETLOG'', 7),
        (''SECURITY'', ''COMMAND__SECURITY__ACL__PERMISSION__SECURITY'', 8)],
      ed_n_value_names = 9, ed_values_by_name =
       [(''DELETE'', 3), (''GETLOG'', 7), (''INVALID_PERMISSION'', 0), (''P2POP'', 6), (''RANGE'', 4), (''READ'', 1), (''SECURITY'', 8), (''SETUP'', 5), (''WRITE'', 2)],
      ed_n_value_ranges = 2, ed_value_ranges = [(-1, 0), (7, 7), (0, 9)]\<rparr>"

definition command__pin_operation__pin_op_type__descriptor :: ProtobufCEnumDescriptor where
  "command__pin_operation__pin_op_type__descriptor =
     \<lparr>ed_id = ''command__pin_operation__pin_op_type'', ed_name = ''com.seagate.kinetic.proto.Command.PinOperation.PinOpType'', ed_short_name = ''PinOpType'', ed_c_name = ''Com__Seagate__Kinetic__Proto__Command__PinOperation__PinOpType'', ed_package_name = ''com.seagate.kinetic.proto'', ed_n_values = 5,
      ed_values =
       [(''INVALID_PINOP'', ''COMMAND__PIN_OPERATION__PIN_OP_TYPE__INVALID_PINOP'', -1),
        (''UNLOCK_PINOP'', ''COMMAND__PIN_OPERATION__PIN_OP_TYPE__UNLOCK_PINOP'', 1),
        (''LOCK_PINOP'', ''COMMAND__PIN_OPERATION__PIN_OP_TYPE__LOCK_PINOP'', 2),
        (''ERASE_PINOP'', ''COMMAND__PIN_OPERATION__PIN_OP_TYPE__ERASE_PINOP'', 3),
        (''SECURE_ERASE_PINOP'', ''COMMAND__PIN_OPERATION__PIN_OP_TYPE__SECURE_ERASE_PINOP'', 4)],
      ed_n_value_names = 5, ed_values_by_name =
       [(''ERASE_PINOP'', 3), (''INVALID_PINOP'', 0), (''LOCK_PINOP'', 2), (''SECURE_ERASE_PINOP'', 4), (''UNLOCK_PINOP'', 1)],
      ed_n_value_ranges = 2, ed_value_ranges = [(-1, 0), (1, 1), (0, 5)]\<rparr>"

definition command__synchronization__descriptor :: ProtobufCEnumDescriptor where
  "command__synchronization__descriptor =
     \<lparr>ed_id = ''command__synchronization'', ed_name = ''com.seagate.kinetic.proto.Command.Synchronization'', ed_short_name = ''Synchronization'', ed_c_name = ''Com__Seagate__Kinetic__Proto__Command__Synchronization'', ed_package_name = ''com.seagate.kinetic.proto'', ed_n_values = 4,
      ed_values =
       [(''INVALID_SYNCHRONIZATION'', ''COMMAND__SYNCHRONIZATION__INVALID_SYNCHRONIZATION'', -1),
        (''WRITETHROUGH'', ''COMMAND__SYNCHRONIZATION__WRITETHROUGH'', 1),
        (''WRITEBACK'', ''COMMAND__SYNCHRONIZATION__WRITEBACK'', 2),
        (''FLUSH'', ''COMMAND__SYNCHRONIZATION__FLUSH'', 3)],
      ed_n_value_names = 4, ed_values_by_name =
       [(''FLUSH'', 3), (''INVALID_SYNCHRONIZATION'', 0), (''WRITEBACK'', 2), (''WRITETHROUGH'', 1)],
      ed_n_value_ranges = 2, ed_value_ranges = [(-1, 0), (1, 1), (0, 4)]\<rparr>"

definition command__priority__descriptor :: ProtobufCEnumDescriptor where
  "command__priority__descriptor =
     \<lparr>ed_id = ''command__priority'', ed_name = ''com.seagate.kinetic.proto.Command.Priority'', ed_short_name = ''Priority'', ed_c_name = ''Com__Seagate__Kinetic__Proto__Command__Priority'', ed_package_name = ''com.seagate.kinetic.proto'', ed_n_values = 5,
      ed_values =
       [(''LOWEST'', ''COMMAND__PRIORITY__LOWEST'', 1),
        (''LOWER'', ''COMMAND__PRIORITY__LOWER'', 3),
        (''NORMAL'', ''COMMAND__PRIORITY__NORMAL'', 5),
        (''HIGHER'', ''COMMAND__PRIORITY__HIGHER'', 7),
        (''HIGHEST'', ''COMMAND__PRIORITY__HIGHEST'', 9)],
      ed_n_value_names = 5, ed_values_by_name =
       [(''HIGHER'', 3), (''HIGHEST'', 4), (''LOWER'', 1), (''LOWEST'', 0), (''NORMAL'', 2)],
      ed_n_value_ranges = 5, ed_value_ranges = [(1, 0), (3, 1), (5, 2), (7, 3), (9, 4), (0, 5)]\<rparr>"

definition command__algorithm__descriptor :: ProtobufCEnumDescriptor where
  "command__algorithm__descriptor =
     \<lparr>ed_id = ''command__algorithm'', ed_name = ''com.seagate.kinetic.proto.Command.Algorithm'', ed_short_name = ''Algorithm'', ed_c_name = ''Com__Seagate__Kinetic__Proto__Command__Algorithm'', ed_package_name = ''com.seagate.kinetic.proto'', ed_n_values = 6,
      ed_values =
       [(''INVALID_ALGORITHM'', ''COMMAND__ALGORITHM__INVALID_ALGORITHM'', -1),
        (''SHA1'', ''COMMAND__ALGORITHM__SHA1'', 1),
        (''SHA2'', ''COMMAND__ALGORITHM__SHA2'', 2),
        (''SHA3'', ''COMMAND__ALGORITHM__SHA3'', 3),
        (''CRC32'', ''COMMAND__ALGORITHM__CRC32'', 4),
        (''CRC64'', ''COMMAND__ALGORITHM__CRC64'', 5)],
      ed_n_value_names = 6, ed_values_by_name =
       [(''CRC32'', 4), (''CRC64'', 5), (''INVALID_ALGORITHM'', 0), (''SHA1'', 1), (''SHA2'', 2), (''SHA3'', 3)],
      ed_n_value_ranges = 2, ed_value_ranges = [(-1, 0), (1, 1), (0, 6)]\<rparr>"

definition command__message_type__descriptor :: ProtobufCEnumDescriptor where
  "command__message_type__descriptor =
     \<lparr>ed_id = ''command__message_type'', ed_name = ''com.seagate.kinetic.proto.Command.MessageType'', ed_short_name = ''MessageType'', ed_c_name = ''Com__Seagate__Kinetic__Proto__Command__MessageType'', ed_package_name = ''com.seagate.kinetic.proto'', ed_n_values = 33,
      ed_values =
       [(''INVALID_MESSAGE_TYPE'', ''COMMAND__MESSAGE_TYPE__INVALID_MESSAGE_TYPE'', -1),
        (''GET_RESPONSE'', ''COMMAND__MESSAGE_TYPE__GET_RESPONSE'', 1),
        (''GET'', ''COMMAND__MESSAGE_TYPE__GET'', 2),
        (''PUT_RESPONSE'', ''COMMAND__MESSAGE_TYPE__PUT_RESPONSE'', 3),
        (''PUT'', ''COMMAND__MESSAGE_TYPE__PUT'', 4),
        (''DELETE_RESPONSE'', ''COMMAND__MESSAGE_TYPE__DELETE_RESPONSE'', 5),
        (''DELETE'', ''COMMAND__MESSAGE_TYPE__DELETE'', 6),
        (''GETNEXT_RESPONSE'', ''COMMAND__MESSAGE_TYPE__GETNEXT_RESPONSE'', 7),
        (''GETNEXT'', ''COMMAND__MESSAGE_TYPE__GETNEXT'', 8),
        (''GETPREVIOUS_RESPONSE'', ''COMMAND__MESSAGE_TYPE__GETPREVIOUS_RESPONSE'', 9),
        (''GETPREVIOUS'', ''COMMAND__MESSAGE_TYPE__GETPREVIOUS'', 10),
        (''GETKEYRANGE_RESPONSE'', ''COMMAND__MESSAGE_TYPE__GETKEYRANGE_RESPONSE'', 11),
        (''GETKEYRANGE'', ''COMMAND__MESSAGE_TYPE__GETKEYRANGE'', 12),
        (''GETVERSION_RESPONSE'', ''COMMAND__MESSAGE_TYPE__GETVERSION_RESPONSE'', 15),
        (''GETVERSION'', ''COMMAND__MESSAGE_TYPE__GETVERSION'', 16),
        (''SETUP_RESPONSE'', ''COMMAND__MESSAGE_TYPE__SETUP_RESPONSE'', 21),
        (''SETUP'', ''COMMAND__MESSAGE_TYPE__SETUP'', 22),
        (''GETLOG_RESPONSE'', ''COMMAND__MESSAGE_TYPE__GETLOG_RESPONSE'', 23),
        (''GETLOG'', ''COMMAND__MESSAGE_TYPE__GETLOG'', 24),
        (''SECURITY_RESPONSE'', ''COMMAND__MESSAGE_TYPE__SECURITY_RESPONSE'', 25),
        (''SECURITY'', ''COMMAND__MESSAGE_TYPE__SECURITY'', 26),
        (''PEER2PEERPUSH_RESPONSE'', ''COMMAND__MESSAGE_TYPE__PEER2PEERPUSH_RESPONSE'', 27),
        (''PEER2PEERPUSH'', ''COMMAND__MESSAGE_TYPE__PEER2PEERPUSH'', 28),
        (''NOOP_RESPONSE'', ''COMMAND__MESSAGE_TYPE__NOOP_RESPONSE'', 29),
        (''NOOP'', ''COMMAND__MESSAGE_TYPE__NOOP'', 30),
        (''FLUSHALLDATA_RESPONSE'', ''COMMAND__MESSAGE_TYPE__FLUSHALLDATA_RESPONSE'', 31),
        (''FLUSHALLDATA'', ''COMMAND__MESSAGE_TYPE__FLUSHALLDATA'', 32),
        (''PINOP_RESPONSE'', ''COMMAND__MESSAGE_TYPE__PINOP_RESPONSE'', 35),
        (''PINOP'', ''COMMAND__MESSAGE_TYPE__PINOP'', 36),
        (''MEDIASCAN_RESPONSE'', ''COMMAND__MESSAGE_TYPE__MEDIASCAN_RESPONSE'', 37),
        (''MEDIASCAN'', ''COMMAND__MESSAGE_TYPE__MEDIASCAN'', 38),
        (''MEDIAOPTIMIZE_RESPONSE'', ''COMMAND__MESSAGE_TYPE__MEDIAOPTIMIZE_RESPONSE'', 39),
        (''MEDIAOPTIMIZE'', ''COMMAND__MESSAGE_TYPE__MEDIAOPTIMIZE'', 40)],
      ed_n_value_names = 33, ed_values_by_name =
       [(''DELETE'', 6), (''DELETE_RESPONSE'', 5), (''FLUSHALLDATA'', 26), (''FLUSHALLDATA_RESPONSE'', 25), (''GET'', 2), (''GETKEYRANGE'', 12), (''GETKEYRANGE_RESPONSE'', 11), (''GETLOG'', 18), (''GETLOG_RESPONSE'', 17), (''GETNEXT'', 8), (''GETNEXT_RESPONSE'', 7), (''GETPREVIOUS'', 10), (''GETPREVIOUS_RESPONSE'', 9), (''GETVERSION'', 14), (''GETVERSION_RESPONSE'', 13), (''GET_RESPONSE'', 1), (''INVALID_MESSAGE_TYPE'', 0), (''MEDIAOPTIMIZE'', 32), (''MEDIAOPTIMIZE_RESPONSE'', 31), (''MEDIASCAN'', 30), (''MEDIASCAN_RESPONSE'', 29), (''NOOP'', 24), (''NOOP_RESPONSE'', 23), (''PEER2PEERPUSH'', 22), (''PEER2PEERPUSH_RESPONSE'', 21), (''PINOP'', 28), (''PINOP_RESPONSE'', 27), (''PUT'', 4), (''PUT_RESPONSE'', 3), (''SECURITY'', 20), (''SECURITY_RESPONSE'', 19), (''SETUP'', 16), (''SETUP_RESPONSE'', 15)],
      ed_n_value_ranges = 5, ed_value_ranges = [(-1, 0), (1, 1), (15, 13), (21, 15), (35, 27), (0, 33)]\<rparr>"

section \<open>Structures\<close>

definition local__struct :: pb_struct where
  "local__struct = (''Local'', ''local'',
     [(''protocolversion'', CT_string, (Init_default ''local__protocol_version''))])"

definition message__hmacauth__struct :: pb_struct where
  "message__hmacauth__struct = (''Message__HMACauth'', ''message__hmacauth'',
     [(''has_identity'', CT_bool, Init_0),
      (''identity'', CT_int64, Init_0),
      (''has_hmac'', CT_bool, Init_0),
      (''hmac'', CT_binary, Init_empty)])"

definition message__pinauth__struct :: pb_struct where
  "message__pinauth__struct = (''Message__PINauth'', ''message__pinauth'',
     [(''has_pin'', CT_bool, Init_0),
      (''pin'', CT_binary, Init_empty)])"

definition message__struct :: pb_struct where
  "message__struct = (''Message'', ''message'',
     [(''has_authtype'', CT_bool, Init_0),
      (''authtype'', (CT_enum ''Message__AuthType''), Init_0),
      (''hmacauth'', (CT_message ''Message__HMACauth''), Init_NULL),
      (''pinauth'', (CT_message ''Message__PINauth''), Init_NULL),
      (''has_commandbytes'', CT_bool, Init_0),
      (''commandbytes'', CT_binary, Init_empty)])"

definition command__header__struct :: pb_struct where
  "command__header__struct = (''Command__Header'', ''command__header'',
     [(''has_clusterversion'', CT_bool, Init_0),
      (''clusterversion'', CT_int64, Init_0),
      (''has_connectionid'', CT_bool, Init_0),
      (''connectionid'', CT_int64, Init_0),
      (''has_sequence'', CT_bool, Init_0),
      (''sequence'', CT_int64, Init_0),
      (''has_acksequence'', CT_bool, Init_0),
      (''acksequence'', CT_int64, Init_0),
      (''has_messagetype'', CT_bool, Init_0),
      (''messagetype'', (CT_enum ''Command__MessageType''), Init_0),
      (''has_timeout'', CT_bool, Init_0),
      (''timeout'', CT_int64, Init_0),
      (''has_earlyexit'', CT_bool, Init_0),
      (''earlyexit'', CT_bool, Init_0),
      (''has_priority'', CT_bool, Init_0),
      (''priority'', (CT_enum ''Command__Priority''), Init_0),
      (''has_timequanta'', CT_bool, Init_0),
      (''timequanta'', CT_int64, Init_0)])"

definition command__body__struct :: pb_struct where
  "command__body__struct = (''Command__Body'', ''command__body'',
     [(''keyvalue'', (CT_message ''Command__KeyValue''), Init_NULL),
      (''range'', (CT_message ''Command__Range''), Init_NULL),
      (''setup'', (CT_message ''Command__Setup''), Init_NULL),
      (''p2poperation'', (CT_message ''Command__P2POperation''), Init_NULL),
      (''getlog'', (CT_message ''Command__GetLog''), Init_NULL),
      (''security'', (CT_message ''Command__Security''), Init_NULL),
      (''pinop'', (CT_message ''Command__PinOperation''), Init_NULL)])"

definition command__status__struct :: pb_struct where
  "command__status__struct = (''Command__Status'', ''command__status'',
     [(''has_code'', CT_bool, Init_0),
      (''code'', (CT_enum ''Command__Status__StatusCode''), Init_0),
      (''statusmessage'', CT_string, Init_NULL),
      (''has_detailedmessage'', CT_bool, Init_0),
      (''detailedmessage'', CT_binary, Init_empty)])"

definition command__key_value__struct :: pb_struct where
  "command__key_value__struct = (''Command__KeyValue'', ''command__key_value'',
     [(''has_newversion'', CT_bool, Init_0),
      (''newversion'', CT_binary, Init_empty),
      (''has_force'', CT_bool, Init_0),
      (''force'', CT_bool, Init_0),
      (''has_key'', CT_bool, Init_0),
      (''key'', CT_binary, Init_empty),
      (''has_dbversion'', CT_bool, Init_0),
      (''dbversion'', CT_binary, Init_empty),
      (''has_tag'', CT_bool, Init_0),
      (''tag'', CT_binary, Init_empty),
      (''has_algorithm'', CT_bool, Init_0),
      (''algorithm'', (CT_enum ''Command__Algorithm''), Init_0),
      (''has_metadataonly'', CT_bool, Init_0),
      (''metadataonly'', CT_bool, Init_0),
      (''has_synchronization'', CT_bool, Init_0),
      (''synchronization'', (CT_enum ''Command__Synchronization''), Init_0)])"

definition command__range__struct :: pb_struct where
  "command__range__struct = (''Command__Range'', ''command__range'',
     [(''has_startkey'', CT_bool, Init_0),
      (''startkey'', CT_binary, Init_empty),
      (''has_endkey'', CT_bool, Init_0),
      (''endkey'', CT_binary, Init_empty),
      (''has_startkeyinclusive'', CT_bool, Init_0),
      (''startkeyinclusive'', CT_bool, Init_0),
      (''has_endkeyinclusive'', CT_bool, Init_0),
      (''endkeyinclusive'', CT_bool, Init_0),
      (''has_maxreturned'', CT_bool, Init_0),
      (''maxreturned'', CT_int32, Init_0),
      (''has_reverse'', CT_bool, Init_0),
      (''reverse'', CT_bool, Init_0),
      (''n_keys'', CT_size, Init_0),
      (''keys'', (CT_array CT_binary), Init_NULL)])"

definition command__setup__struct :: pb_struct where
  "command__setup__struct = (''Command__Setup'', ''command__setup'',
     [(''has_newclusterversion'', CT_bool, Init_0),
      (''newclusterversion'', CT_int64, Init_0),
      (''has_firmwaredownload'', CT_bool, Init_0),
      (''firmwaredownload'', CT_bool, Init_0)])"

definition command__p2_poperation__operation__struct :: pb_struct where
  "command__p2_poperation__operation__struct = (''Command__P2POperation__Operation'', ''command__p2_poperation__operation'',
     [(''has_key'', CT_bool, Init_0),
      (''key'', CT_binary, Init_empty),
      (''has_version'', CT_bool, Init_0),
      (''version'', CT_binary, Init_empty),
      (''has_newkey'', CT_bool, Init_0),
      (''newkey'', CT_binary, Init_empty),
      (''has_force'', CT_bool, Init_0),
      (''force'', CT_bool, Init_0),
      (''status'', (CT_message ''Command__Status''), Init_NULL),
      (''p2pop'', (CT_message ''Command__P2POperation''), Init_NULL)])"

definition command__p2_poperation__peer__struct :: pb_struct where
  "command__p2_poperation__peer__struct = (''Command__P2POperation__Peer'', ''command__p2_poperation__peer'',
     [(''hostname'', CT_string, Init_NULL),
      (''has_port'', CT_bool, Init_0),
      (''port'', CT_int32, Init_0),
      (''has_tls'', CT_bool, Init_0),
      (''tls'', CT_bool, Init_0)])"

definition command__p2_poperation__struct :: pb_struct where
  "command__p2_poperation__struct = (''Command__P2POperation'', ''command__p2_poperation'',
     [(''peer'', (CT_message ''Command__P2POperation__Peer''), Init_NULL),
      (''n_operation'', CT_size, Init_0),
      (''operation'', (CT_array (CT_message ''Command__P2POperation__Operation'')), Init_NULL),
      (''has_allchildoperationssucceeded'', CT_bool, Init_0),
      (''allchildoperationssucceeded'', CT_bool, Init_0)])"

definition command__get_log__utilization__struct :: pb_struct where
  "command__get_log__utilization__struct = (''Command__GetLog__Utilization'', ''command__get_log__utilization'',
     [(''name'', CT_string, Init_NULL),
      (''has_value'', CT_bool, Init_0),
      (''value'', CT_float, Init_0)])"

definition command__get_log__temperature__struct :: pb_struct where
  "command__get_log__temperature__struct = (''Command__GetLog__Temperature'', ''command__get_log__temperature'',
     [(''name'', CT_string, Init_NULL),
      (''has_current'', CT_bool, Init_0),
      (''current'', CT_float, Init_0),
      (''has_minimum'', CT_bool, Init_0),
      (''minimum'', CT_float, Init_0),
      (''has_maximum'', CT_bool, Init_0),
      (''maximum'', CT_float, Init_0),
      (''has_target'', CT_bool, Init_0),
      (''target'', CT_float, Init_0)])"

definition command__get_log__capacity__struct :: pb_struct where
  "command__get_log__capacity__struct = (''Command__GetLog__Capacity'', ''command__get_log__capacity'',
     [(''has_nominalcapacityinbytes'', CT_bool, Init_0),
      (''nominalcapacityinbytes'', CT_uint64, Init_0),
      (''has_portionfull'', CT_bool, Init_0),
      (''portionfull'', CT_float, Init_0)])"

definition command__get_log__configuration__interface__struct :: pb_struct where
  "command__get_log__configuration__interface__struct = (''Command__GetLog__Configuration__Interface'', ''command__get_log__configuration__interface'',
     [(''name'', CT_string, Init_NULL),
      (''has_mac'', CT_bool, Init_0),
      (''mac'', CT_binary, Init_empty),
      (''has_ipv4address'', CT_bool, Init_0),
      (''ipv4address'', CT_binary, Init_empty),
      (''has_ipv6address'', CT_bool, Init_0),
      (''ipv6address'', CT_binary, Init_empty)])"

definition command__get_log__configuration__struct :: pb_struct where
  "command__get_log__configuration__struct = (''Command__GetLog__Configuration'', ''command__get_log__configuration'',
     [(''vendor'', CT_string, Init_NULL),
      (''model'', CT_string, Init_NULL),
      (''has_serialnumber'', CT_bool, Init_0),
      (''serialnumber'', CT_binary, Init_empty),
      (''has_worldwidename'', CT_bool, Init_0),
      (''worldwidename'', CT_binary, Init_empty),
      (''version'', CT_string, Init_NULL),
      (''compilationdate'', CT_string, Init_NULL),
      (''sourcehash'', CT_string, Init_NULL),
      (''protocolversion'', CT_string, Init_NULL),
      (''protocolcompilationdate'', CT_string, Init_NULL),
      (''protocolsourcehash'', CT_string, Init_NULL),
      (''n_interface'', CT_size, Init_0),
      (''interface'', (CT_array (CT_message ''Command__GetLog__Configuration__Interface'')), Init_NULL),
      (''has_port'', CT_bool, Init_0),
      (''port'', CT_int32, Init_0),
      (''has_tlsport'', CT_bool, Init_0),
      (''tlsport'', CT_int32, Init_0)])"

definition command__get_log__statistics__struct :: pb_struct where
  "command__get_log__statistics__struct = (''Command__GetLog__Statistics'', ''command__get_log__statistics'',
     [(''has_messagetype'', CT_bool, Init_0),
      (''messagetype'', (CT_enum ''Command__MessageType''), Init_0),
      (''has_count'', CT_bool, Init_0),
      (''count'', CT_uint64, Init_0),
      (''has_bytes'', CT_bool, Init_0),
      (''bytes'', CT_uint64, Init_0)])"

definition command__get_log__limits__struct :: pb_struct where
  "command__get_log__limits__struct = (''Command__GetLog__Limits'', ''command__get_log__limits'',
     [(''has_maxkeysize'', CT_bool, Init_0),
      (''maxkeysize'', CT_uint32, Init_0),
      (''has_maxvaluesize'', CT_bool, Init_0),
      (''maxvaluesize'', CT_uint32, Init_0),
      (''has_maxversionsize'', CT_bool, Init_0),
      (''maxversionsize'', CT_uint32, Init_0),
      (''has_maxtagsize'', CT_bool, Init_0),
      (''maxtagsize'', CT_uint32, Init_0),
      (''has_maxconnections'', CT_bool, Init_0),
      (''maxconnections'', CT_uint32, Init_0),
      (''has_maxoutstandingreadrequests'', CT_bool, Init_0),
      (''maxoutstandingreadrequests'', CT_uint32, Init_0),
      (''has_maxoutstandingwriterequests'', CT_bool, Init_0),
      (''maxoutstandingwriterequests'', CT_uint32, Init_0),
      (''has_maxmessagesize'', CT_bool, Init_0),
      (''maxmessagesize'', CT_uint32, Init_0),
      (''has_maxkeyrangecount'', CT_bool, Init_0),
      (''maxkeyrangecount'', CT_uint32, Init_0),
      (''has_maxidentitycount'', CT_bool, Init_0),
      (''maxidentitycount'', CT_uint32, Init_0),
      (''has_maxpinsize'', CT_bool, Init_0),
      (''maxpinsize'', CT_uint32, Init_0)])"

definition command__get_log__device__struct :: pb_struct where
  "command__get_log__device__struct = (''Command__GetLog__Device'', ''command__get_log__device'',
     [(''has_name'', CT_bool, Init_0),
      (''name'', CT_binary, Init_empty)])"

definition command__get_log__struct :: pb_struct where
  "command__get_log__struct = (''Command__GetLog'', ''command__get_log'',
     [(''n_types'', CT_size, Init_0),
      (''types'', (CT_array (CT_enum ''Command__GetLog__Type'')), Init_NULL),
      (''n_utilizations'', CT_size, Init_0),
      (''utilizations'', (CT_array (CT_message ''Command__GetLog__Utilization'')), Init_NULL),
      (''n_temperatures'', CT_size, Init_0),
      (''temperatures'', (CT_array (CT_message ''Command__GetLog__Temperature'')), Init_NULL),
      (''capacity'', (CT_message ''Command__GetLog__Capacity''), Init_NULL),
      (''configuration'', (CT_message ''Command__GetLog__Configuration''), Init_NULL),
      (''n_statistics'', CT_size, Init_0),
      (''statistics'', (CT_array (CT_message ''Command__GetLog__Statistics'')), Init_NULL),
      (''has_messages'', CT_bool, Init_0),
      (''messages'', CT_binary, Init_empty),
      (''limits'', (CT_message ''Command__GetLog__Limits''), Init_NULL),
      (''device'', (CT_message ''Command__GetLog__Device''), Init_NULL)])"

definition command__security__acl__scope__struct :: pb_struct where
  "command__security__acl__scope__struct = (''Command__Security__ACL__Scope'', ''command__security__acl__scope'',
     [(''has_offset'', CT_bool, Init_0),
      (''offset'', CT_int64, Init_0),
      (''has_value'', CT_bool, Init_0),
      (''value'', CT_binary, Init_empty),
      (''n_permission'', CT_size, Init_0),
      (''permission'', (CT_array (CT_enum ''Command__Security__ACL__Permission'')), Init_NULL),
      (''has_tlsrequired'', CT_bool, Init_0),
      (''tlsrequired'', CT_bool, Init_0)])"

definition command__security__acl__struct :: pb_struct where
  "command__security__acl__struct = (''Command__Security__ACL'', ''command__security__acl'',
     [(''has_identity'', CT_bool, Init_0),
      (''identity'', CT_int64, Init_0),
      (''has_key'', CT_bool, Init_0),
      (''key'', CT_binary, Init_empty),
      (''has_hmacalgorithm'', CT_bool, Init_0),
      (''hmacalgorithm'', (CT_enum ''Command__Security__ACL__HMACAlgorithm''), Init_0),
      (''n_scope'', CT_size, Init_0),
      (''scope'', (CT_array (CT_message ''Command__Security__ACL__Scope'')), Init_NULL),
      (''has_maxpriority'', CT_bool, Init_0),
      (''maxpriority'', (CT_enum ''Command__Priority''), Init_0)])"

definition command__security__struct :: pb_struct where
  "command__security__struct = (''Command__Security'', ''command__security'',
     [(''n_acl'', CT_size, Init_0),
      (''acl'', (CT_array (CT_message ''Command__Security__ACL'')), Init_NULL),
      (''has_oldlockpin'', CT_bool, Init_0),
      (''oldlockpin'', CT_binary, Init_empty),
      (''has_newlockpin'', CT_bool, Init_0),
      (''newlockpin'', CT_binary, Init_empty),
      (''has_olderasepin'', CT_bool, Init_0),
      (''olderasepin'', CT_binary, Init_empty),
      (''has_newerasepin'', CT_bool, Init_0),
      (''newerasepin'', CT_binary, Init_empty)])"

definition command__pin_operation__struct :: pb_struct where
  "command__pin_operation__struct = (''Command__PinOperation'', ''command__pin_operation'',
     [(''has_pinoptype'', CT_bool, Init_0),
      (''pinoptype'', (CT_enum ''Command__PinOperation__PinOpType''), Init_0)])"

definition command__struct :: pb_struct where
  "command__struct = (''Command'', ''command'',
     [(''header'', (CT_message ''Command__Header''), Init_NULL),
      (''body'', (CT_message ''Command__Body''), Init_NULL),
      (''status'', (CT_message ''Command__Status''), Init_NULL)])"

section \<open>Enumeration types\<close>

definition message__auth_type__enum :: "string \<times> (string \<times> int) list" where
  "message__auth_type__enum = (''Message__AuthType'',
     [(''MESSAGE__AUTH_TYPE__INVALID_AUTH_TYPE'', -1),
      (''MESSAGE__AUTH_TYPE__HMACAUTH'', 1),
      (''MESSAGE__AUTH_TYPE__PINAUTH'', 2),
      (''MESSAGE__AUTH_TYPE__UNSOLICITEDSTATUS'', 3)])"

definition command__status__status_code__enum :: "string \<times> (string \<times> int) list" where
  "command__status__status_code__enum = (''Command__Status__StatusCode'',
     [(''COMMAND__STATUS__STATUS_CODE__INVALID_STATUS_CODE'', -1),
      (''COMMAND__STATUS__STATUS_CODE__NOT_ATTEMPTED'', 0),
      (''COMMAND__STATUS__STATUS_CODE__SUCCESS'', 1),
      (''COMMAND__STATUS__STATUS_CODE__HMAC_FAILURE'', 2),
      (''COMMAND__STATUS__STATUS_CODE__NOT_AUTHORIZED'', 3),
      (''COMMAND__STATUS__STATUS_CODE__VERSION_FAILURE'', 4),
      (''COMMAND__STATUS__STATUS_CODE__INTERNAL_ERROR'', 5),
      (''COMMAND__STATUS__STATUS_CODE__HEADER_REQUIRED'', 6),
      (''COMMAND__STATUS__STATUS_CODE__NOT_FOUND'', 7),
      (''COMMAND__STATUS__STATUS_CODE__VERSION_MISMATCH'', 8),
      (''COMMAND__STATUS__STATUS_CODE__SERVICE_BUSY'', 9),
      (''COMMAND__STATUS__STATUS_CODE__EXPIRED'', 10),
      (''COMMAND__STATUS__STATUS_CODE__DATA_ERROR'', 11),
      (''COMMAND__STATUS__STATUS_CODE__PERM_DATA_ERROR'', 12),
      (''COMMAND__STATUS__STATUS_CODE__REMOTE_CONNECTION_ERROR'', 13),
      (''COMMAND__STATUS__STATUS_CODE__NO_SPACE'', 14),
      (''COMMAND__STATUS__STATUS_CODE__NO_SUCH_HMAC_ALGORITHM'', 15),
      (''COMMAND__STATUS__STATUS_CODE__INVALID_REQUEST'', 16),
      (''COMMAND__STATUS__STATUS_CODE__NESTED_OPERATION_ERRORS'', 17),
      (''COMMAND__STATUS__STATUS_CODE__DEVICE_LOCKED'', 18),
      (''COMMAND__STATUS__STATUS_CODE__DEVICE_ALREADY_UNLOCKED'', 19),
      (''COMMAND__STATUS__STATUS_CODE__CONNECTION_TERMINATED'', 20)])"

definition command__get_log__type__enum :: "string \<times> (string \<times> int) list" where
  "command__get_log__type__enum = (''Command__GetLog__Type'',
     [(''COMMAND__GET_LOG__TYPE__INVALID_TYPE'', -1),
      (''COMMAND__GET_LOG__TYPE__UTILIZATIONS'', 0),
      (''COMMAND__GET_LOG__TYPE__TEMPERATURES'', 1),
      (''COMMAND__GET_LOG__TYPE__CAPACITIES'', 2),
      (''COMMAND__GET_LOG__TYPE__CONFIGURATION'', 3),
      (''COMMAND__GET_LOG__TYPE__STATISTICS'', 4),
      (''COMMAND__GET_LOG__TYPE__MESSAGES'', 5),
      (''COMMAND__GET_LOG__TYPE__LIMITS'', 6),
      (''COMMAND__GET_LOG__TYPE__DEVICE'', 7)])"

definition command__security__acl__hmacalgorithm__enum :: "string \<times> (string \<times> int) list" where
  "command__security__acl__hmacalgorithm__enum = (''Command__Security__ACL__HMACAlgorithm'',
     [(''COMMAND__SECURITY__ACL__HMACALGORITHM__INVALID_HMAC_ALGORITHM'', -1),
      (''COMMAND__SECURITY__ACL__HMACALGORITHM__HmacSHA1'', 1)])"

definition command__security__acl__permission__enum :: "string \<times> (string \<times> int) list" where
  "command__security__acl__permission__enum = (''Command__Security__ACL__Permission'',
     [(''COMMAND__SECURITY__ACL__PERMISSION__INVALID_PERMISSION'', -1),
      (''COMMAND__SECURITY__ACL__PERMISSION__READ'', 0),
      (''COMMAND__SECURITY__ACL__PERMISSION__WRITE'', 1),
      (''COMMAND__SECURITY__ACL__PERMISSION__DELETE'', 2),
      (''COMMAND__SECURITY__ACL__PERMISSION__RANGE'', 3),
      (''COMMAND__SECURITY__ACL__PERMISSION__SETUP'', 4),
      (''COMMAND__SECURITY__ACL__PERMISSION__P2POP'', 5),
      (''COMMAND__SECURITY__ACL__PERMISSION__GETLOG'', 7),
      (''COMMAND__SECURITY__ACL__PERMISSION__SECURITY'', 8)])"

definition command__pin_operation__pin_op_type__enum :: "string \<times> (string \<times> int) list" where
  "command__pin_operation__pin_op_type__enum = (''Command__PinOperation__PinOpType'',
     [(''COMMAND__PIN_OPERATION__PIN_OP_TYPE__INVALID_PINOP'', -1),
      (''COMMAND__PIN_OPERATION__PIN_OP_TYPE__UNLOCK_PINOP'', 1),
      (''COMMAND__PIN_OPERATION__PIN_OP_TYPE__LOCK_PINOP'', 2),
      (''COMMAND__PIN_OPERATION__PIN_OP_TYPE__ERASE_PINOP'', 3),
      (''COMMAND__PIN_OPERATION__PIN_OP_TYPE__SECURE_ERASE_PINOP'', 4)])"

definition command__synchronization__enum :: "string \<times> (string \<times> int) list" where
  "command__synchronization__enum = (''Command__Synchronization'',
     [(''COMMAND__SYNCHRONIZATION__INVALID_SYNCHRONIZATION'', -1),
      (''COMMAND__SYNCHRONIZATION__WRITETHROUGH'', 1),
      (''COMMAND__SYNCHRONIZATION__WRITEBACK'', 2),
      (''COMMAND__SYNCHRONIZATION__FLUSH'', 3)])"

definition command__priority__enum :: "string \<times> (string \<times> int) list" where
  "command__priority__enum = (''Command__Priority'',
     [(''COMMAND__PRIORITY__NORMAL'', 5),
      (''COMMAND__PRIORITY__LOWEST'', 1),
      (''COMMAND__PRIORITY__LOWER'', 3),
      (''COMMAND__PRIORITY__HIGHER'', 7),
      (''COMMAND__PRIORITY__HIGHEST'', 9)])"

definition command__algorithm__enum :: "string \<times> (string \<times> int) list" where
  "command__algorithm__enum = (''Command__Algorithm'',
     [(''COMMAND__ALGORITHM__INVALID_ALGORITHM'', -1),
      (''COMMAND__ALGORITHM__SHA1'', 1),
      (''COMMAND__ALGORITHM__SHA2'', 2),
      (''COMMAND__ALGORITHM__SHA3'', 3),
      (''COMMAND__ALGORITHM__CRC32'', 4),
      (''COMMAND__ALGORITHM__CRC64'', 5)])"

definition command__message_type__enum :: "string \<times> (string \<times> int) list" where
  "command__message_type__enum = (''Command__MessageType'',
     [(''COMMAND__MESSAGE_TYPE__INVALID_MESSAGE_TYPE'', -1),
      (''COMMAND__MESSAGE_TYPE__GET'', 2),
      (''COMMAND__MESSAGE_TYPE__GET_RESPONSE'', 1),
      (''COMMAND__MESSAGE_TYPE__PUT'', 4),
      (''COMMAND__MESSAGE_TYPE__PUT_RESPONSE'', 3),
      (''COMMAND__MESSAGE_TYPE__DELETE'', 6),
      (''COMMAND__MESSAGE_TYPE__DELETE_RESPONSE'', 5),
      (''COMMAND__MESSAGE_TYPE__GETNEXT'', 8),
      (''COMMAND__MESSAGE_TYPE__GETNEXT_RESPONSE'', 7),
      (''COMMAND__MESSAGE_TYPE__GETPREVIOUS'', 10),
      (''COMMAND__MESSAGE_TYPE__GETPREVIOUS_RESPONSE'', 9),
      (''COMMAND__MESSAGE_TYPE__GETKEYRANGE'', 12),
      (''COMMAND__MESSAGE_TYPE__GETKEYRANGE_RESPONSE'', 11),
      (''COMMAND__MESSAGE_TYPE__GETVERSION'', 16),
      (''COMMAND__MESSAGE_TYPE__GETVERSION_RESPONSE'', 15),
      (''COMMAND__MESSAGE_TYPE__SETUP'', 22),
      (''COMMAND__MESSAGE_TYPE__SETUP_RESPONSE'', 21),
      (''COMMAND__MESSAGE_TYPE__GETLOG'', 24),
      (''COMMAND__MESSAGE_TYPE__GETLOG_RESPONSE'', 23),
      (''COMMAND__MESSAGE_TYPE__SECURITY'', 26),
      (''COMMAND__MESSAGE_TYPE__SECURITY_RESPONSE'', 25),
      (''COMMAND__MESSAGE_TYPE__PEER2PEERPUSH'', 28),
      (''COMMAND__MESSAGE_TYPE__PEER2PEERPUSH_RESPONSE'', 27),
      (''COMMAND__MESSAGE_TYPE__NOOP'', 30),
      (''COMMAND__MESSAGE_TYPE__NOOP_RESPONSE'', 29),
      (''COMMAND__MESSAGE_TYPE__FLUSHALLDATA'', 32),
      (''COMMAND__MESSAGE_TYPE__FLUSHALLDATA_RESPONSE'', 31),
      (''COMMAND__MESSAGE_TYPE__PINOP'', 36),
      (''COMMAND__MESSAGE_TYPE__PINOP_RESPONSE'', 35),
      (''COMMAND__MESSAGE_TYPE__MEDIASCAN'', 38),
      (''COMMAND__MESSAGE_TYPE__MEDIASCAN_RESPONSE'', 37),
      (''COMMAND__MESSAGE_TYPE__MEDIAOPTIMIZE'', 40),
      (''COMMAND__MESSAGE_TYPE__MEDIAOPTIMIZE_RESPONSE'', 39)])"

section \<open>All of them\<close>

definition all_messages :: "ProtobufCMessageDescriptor list" where
  "all_messages =
     [local__descriptor,
      message__hmacauth__descriptor,
      message__pinauth__descriptor,
      message__descriptor,
      command__header__descriptor,
      command__body__descriptor,
      command__status__descriptor,
      command__key_value__descriptor,
      command__range__descriptor,
      command__setup__descriptor,
      command__p2_poperation__operation__descriptor,
      command__p2_poperation__peer__descriptor,
      command__p2_poperation__descriptor,
      command__get_log__utilization__descriptor,
      command__get_log__temperature__descriptor,
      command__get_log__capacity__descriptor,
      command__get_log__configuration__interface__descriptor,
      command__get_log__configuration__descriptor,
      command__get_log__statistics__descriptor,
      command__get_log__limits__descriptor,
      command__get_log__device__descriptor,
      command__get_log__descriptor,
      command__security__acl__scope__descriptor,
      command__security__acl__descriptor,
      command__security__descriptor,
      command__pin_operation__descriptor,
      command__descriptor]"

definition all_enums :: "ProtobufCEnumDescriptor list" where
  "all_enums =
     [message__auth_type__descriptor,
      command__status__status_code__descriptor,
      command__get_log__type__descriptor,
      command__security__acl__hmacalgorithm__descriptor,
      command__security__acl__permission__descriptor,
      command__pin_operation__pin_op_type__descriptor,
      command__synchronization__descriptor,
      command__priority__descriptor,
      command__algorithm__descriptor,
      command__message_type__descriptor]"

definition all_structs :: "pb_struct list" where
  "all_structs =
     [local__struct,
      message__hmacauth__struct,
      message__pinauth__struct,
      message__struct,
      command__header__struct,
      command__body__struct,
      command__status__struct,
      command__key_value__struct,
      command__range__struct,
      command__setup__struct,
      command__p2_poperation__operation__struct,
      command__p2_poperation__peer__struct,
      command__p2_poperation__struct,
      command__get_log__utilization__struct,
      command__get_log__temperature__struct,
      command__get_log__capacity__struct,
      command__get_log__configuration__interface__struct,
      command__get_log__configuration__struct,
      command__get_log__statistics__struct,
      command__get_log__limits__struct,
      command__get_log__device__struct,
      command__get_log__struct,
      command__security__acl__scope__struct,
      command__security__acl__struct,
      command__security__struct,
      command__pin_operation__struct,
      command__struct]"

definition all_enum_types :: "(string \<times> (string \<times> int) list) list" where
  "all_enum_types =
     [message__auth_type__enum,
      command__status__status_code__enum,
      command__get_log__type__enum,
      command__security__acl__hmacalgorithm__enum,
      command__security__acl__permission__enum,
      command__pin_operation__pin_op_type__enum,
      command__synchronization__enum,
      command__priority__enum,
      command__algorithm__enum,
      command__message_type__enum]"

end
