(* ===== verification/Pb_Descriptors.thy ===== *)
theory Pb_Descriptors
  imports Pb_Tables
begin

text \<open>
  What the protobuf library relies on in the generated tables: it reads and writes the members of a structure through the offsets, labels and types of a descriptor, finds
  fields by number through the table of ranges and by name through a sorted table. The tables are checked by computation, the meaning of the checks is proved in general.
\<close>

section \<open>Types\<close>

definition pb_prefix :: string where
  "pb_prefix = ''Com__Seagate__Kinetic__Proto__''"

definition struct_of_message :: "string \<Rightarrow> string option" where
  "struct_of_message i = map_option md_struct (find (\<lambda>d. md_id d = i) all_messages)"

definition type_of_enum :: "string \<Rightarrow> string option" where
  "type_of_enum i = map_option (\<lambda>d. drop (length pb_prefix) (ed_c_name d)) (find (\<lambda>d. ed_id d = i) all_enums)"

text \<open>The C type of one value of a field; a message and an enumeration are those of the descriptor the field names.\<close>

fun value_type :: "pb_type \<Rightarrow> string option \<Rightarrow> c_type option" where
  "value_type TYPE_INT32 None = Some CT_int32"
| "value_type TYPE_INT64 None = Some CT_int64"
| "value_type TYPE_UINT32 None = Some CT_uint32"
| "value_type TYPE_UINT64 None = Some CT_uint64"
| "value_type TYPE_FLOAT None = Some CT_float"
| "value_type TYPE_BOOL None = Some CT_bool"
| "value_type TYPE_STRING None = Some CT_string"
| "value_type TYPE_BYTES None = Some CT_binary"
| "value_type TYPE_ENUM (Some i) = map_option CT_enum (type_of_enum i)"
| "value_type TYPE_MESSAGE (Some i) = map_option CT_message (struct_of_message i)"
| "value_type _ _ = None"

definition is_pointer :: "pb_type \<Rightarrow> bool" where
  "is_pointer t \<longleftrightarrow> t = TYPE_STRING \<or> t = TYPE_MESSAGE"

text \<open>An optional value has a flag beside it unless a null pointer says that it is absent; a repeated one is an array with its length.\<close>

definition field_type :: "ProtobufCFieldDescriptor \<Rightarrow> (c_type \<times> c_type option) option" where
  "field_type f =
     (case value_type (fd_type f) (fd_descriptor f) of
        None \<Rightarrow> None
      | Some t \<Rightarrow>
          (case fd_label f of
             LABEL_OPTIONAL \<Rightarrow> Some (t, if is_pointer (fd_type f) then None else Some CT_bool)
           | LABEL_REPEATED \<Rightarrow> Some (CT_array t, Some CT_size)
           | LABEL_REQUIRED \<Rightarrow> Some (t, None)))"

definition member :: "(string \<times> c_type \<times> init_value) list \<Rightarrow> string \<Rightarrow> (c_type \<times> init_value) option" where
  "member ms = map_of ms"

text \<open>The initial value says that the field is absent; a value that is not a pointer is zero.\<close>

definition initial :: "ProtobufCFieldDescriptor \<Rightarrow> init_value" where
  "initial f =
     (case fd_default f of
        Some v \<Rightarrow> Init_default v
      | None \<Rightarrow>
          if fd_label f = LABEL_REPEATED \<or> is_pointer (fd_type f) then Init_NULL
          else if fd_type f = TYPE_BYTES then Init_empty else Init_0)"

definition field_ok :: "(string \<times> c_type \<times> init_value) list \<Rightarrow> ProtobufCFieldDescriptor \<Rightarrow> bool" where
  "field_ok ms f \<longleftrightarrow>
     (case field_type f of
        None \<Rightarrow> False
      | Some (t, qt) \<Rightarrow>
          member ms (fd_member f) = Some (t, initial f) \<and>
          (case (fd_quantifier f, qt) of
             (None, None) \<Rightarrow> True
           | (Some q, Some t') \<Rightarrow> member ms q = Some (t', Init_0)
           | _ \<Rightarrow> False))"

text \<open>The members a field uses.\<close>

definition storage :: "ProtobufCFieldDescriptor \<Rightarrow> string list" where
  "storage f = (case fd_quantifier f of None \<Rightarrow> [] | Some q \<Rightarrow> [q]) @ [fd_member f]"

definition message_ok :: "ProtobufCMessageDescriptor \<Rightarrow> bool" where
  "message_ok d =
     (case find (\<lambda>(n, _). n = md_struct d) all_structs of
        None \<Rightarrow> False
      | Some (n, i, ms) \<Rightarrow>
          i = md_id d \<and> pb_prefix @ n = md_c_name d \<and> set (map fst ms) = set (concat (map storage (md_fields d))) \<and>
          distinct (map fst ms) \<and> distinct (concat (map storage (md_fields d))) \<and> list_all (field_ok ms) (md_fields d))"

section \<open>Lookup\<close>

text \<open>What a table of ranges means: a row with its successor covers as many numbers as entries lie between them.\<close>

fun range_lookup :: "(int \<times> nat) list \<Rightarrow> int \<Rightarrow> nat option" where
  "range_lookup ((s, i) # (s', j) # rs) v =
     (if s \<le> v \<and> v < s + (int j - int i) then Some (i + nat (v - s)) else range_lookup ((s', j) # rs) v)"
| "range_lookup _ v = None"

fun range_numbers :: "(int \<times> nat) list \<Rightarrow> int list" where
  "range_numbers ((s, i) # (s', j) # rs) = map (\<lambda>k. s + int k) [0..<j - i] @ range_numbers ((s', j) # rs)"
| "range_numbers _ = []"

fun rows_ok :: "(int \<times> nat) list \<Rightarrow> bool" where
  "rows_ok ((s, i) # (s', j) # rs) = (i < j \<and> rows_ok ((s', j) # rs))"
| "rows_ok rs = (rs \<noteq> [])"

fun position :: "'a list \<Rightarrow> 'a \<Rightarrow> nat option" where
  "position [] x = None"
| "position (y # ys) x = (if y = x then Some 0 else map_option Suc (position ys x))"

text \<open>The order of \<^verbatim>\<open>strcmp\<close>.\<close>

fun str_less :: "string \<Rightarrow> string \<Rightarrow> bool" where
  "str_less [] ys = (ys \<noteq> [])"
| "str_less (x # xs) [] = False"
| "str_less (x # xs) (y # ys) = ((of_char x :: nat) < of_char y \<or> x = y \<and> str_less xs ys)"

fun ascending :: "('a \<Rightarrow> 'a \<Rightarrow> bool) \<Rightarrow> 'a list \<Rightarrow> bool" where
  "ascending r (x # y # zs) = (r x y \<and> ascending r (y # zs))"
| "ascending r xs = True"

definition lookup_ok :: "ProtobufCMessageDescriptor \<Rightarrow> bool" where
  "lookup_ok d \<longleftrightarrow>
     length (md_fields d) = md_n_fields d \<and> length (md_field_ranges d) = Suc (md_n_field_ranges d) \<and>
     rows_ok (md_field_ranges d) \<and> snd (hd (md_field_ranges d)) = 0 \<and>
     range_numbers (md_field_ranges d) = map (\<lambda>f. int (fd_id f)) (md_fields d) \<and> ascending (<) (0 # map fd_id (md_fields d)) \<and>
     length (md_fields_sorted_by_name d) = md_n_fields d \<and> list_all (\<lambda>i. i < md_n_fields d) (md_fields_sorted_by_name d) \<and>
     ascending str_less (map (\<lambda>i. fd_name (md_fields d ! i)) (md_fields_sorted_by_name d))"

definition enum_ok :: "ProtobufCEnumDescriptor \<Rightarrow> bool" where
  "enum_ok d \<longleftrightarrow>
     length (ed_values d) = ed_n_values d \<and> length (ed_value_ranges d) = Suc (ed_n_value_ranges d) \<and>
     rows_ok (ed_value_ranges d) \<and> snd (hd (ed_value_ranges d)) = 0 \<and>
     range_numbers (ed_value_ranges d) = map (\<lambda>(_, _, v). v) (ed_values d) \<and> ascending (<) (map (\<lambda>(_, _, v). v) (ed_values d)) \<and>
     length (ed_values_by_name d) = ed_n_value_names d \<and> ed_n_value_names d = ed_n_values d \<and>
     list_all (\<lambda>(n, i). i < ed_n_values d \<and> fst (ed_values d ! i) = n) (ed_values_by_name d) \<and>
     ascending str_less (map fst (ed_values_by_name d)) \<and>
     (case find (\<lambda>(n, _). pb_prefix @ n = ed_c_name d) all_enum_types of
        None \<Rightarrow> False
      | Some (n, cs) \<Rightarrow> length cs = ed_n_values d \<and> list_all (\<lambda>(_, c, v). map_of cs c = Some v) (ed_values d))"

section \<open>The tables pass\<close>

lemma messages_ok: "list_all message_ok all_messages"
  by code_simp

lemma lookups_ok: "list_all lookup_ok all_messages"
  by code_simp

lemma enums_ok: "list_all enum_ok all_enums"
  by code_simp

section \<open>What that means\<close>

lemma range_lookup_position:
  "rows_ok rs \<Longrightarrow> range_lookup rs v = map_option ((+) (snd (hd rs))) (position (range_numbers rs) v)"
proof (induction rs v rule: range_lookup.induct)
  case (1 s i s' j rs v)
  have pos: "position (map (\<lambda>k. a + int k) [0..<n] @ ys) v =
      (if a \<le> v \<and> v < a + int n then Some (nat (v - a)) else map_option ((+) n) (position ys v))" for a n ys
  proof (induction n arbitrary: a)
    case 0
    then show ?case by (auto simp: option.map_ident_strong)
  next
    case (Suc n)
    have "map (\<lambda>k. a + int k) [0..<Suc n] = a # map (\<lambda>k. (a + 1) + int k) [0..<n]"
      by (simp add: upt_conv_Cons map_Suc_upt [symmetric] del: upt_Suc)
    with Suc.IH [of "a + 1"] show ?case by (auto simp: option.map_comp comp_def nat_diff_distrib' Suc_nat_eq_nat_zadd1 simp del: upt_Suc)
  qed
  from 1 have "i < j" "rows_ok ((s', j) # rs)" by simp_all
  with 1(1) show ?case by (auto simp: pos option.map_comp comp_def)
qed simp_all

lemma ascending_sorted: "ascending r xs \<Longrightarrow> transp r \<Longrightarrow> sorted_wrt r xs"
proof (induction xs rule: induct_list012)
  case (3 x y zs)
  then show ?case by (auto dest: transpD)
qed simp_all

lemma sorted_distinct: "sorted_wrt r xs \<Longrightarrow> irreflp r \<Longrightarrow> distinct xs"
  by (induction xs) (auto dest: irreflpD)

lemma str_less_trans: "str_less xs ys \<Longrightarrow> str_less ys zs \<Longrightarrow> str_less xs zs"
proof (induction xs ys arbitrary: zs rule: str_less.induct)
  case (1 ys)
  then show ?case by (cases zs; cases ys) auto
next
  case (3 x xs y ys)
  then show ?case by (cases zs) auto
qed simp

lemma str_less_irrefl: "\<not> str_less xs xs"
  by (induction xs) auto

lemma str_less_order: "transp str_less" "irreflp str_less"
  using str_less_trans str_less_irrefl by (auto intro: transpI irreflpI)

lemma position_Some: "position xs x = Some i \<Longrightarrow> i < length xs \<and> xs ! i = x"
  by (induction xs arbitrary: i) (auto split: if_splits)

lemma position_nth: "distinct xs \<Longrightarrow> i < length xs \<Longrightarrow> position xs (xs ! i) = Some i"
proof (induction xs arbitrary: i)
  case (Cons x xs)
  then show ?case by (cases i) auto
qed simp

text \<open>A table of indices whose keys ascend strictly lists every index once.\<close>

lemma ascending_indices:
  assumes "ascending r (map f is)" "transp r" "irreflp r" "length is = n" "list_all (\<lambda>i. i < n) is" "i < n"
  shows "\<exists>!k. k < n \<and> is ! k = i"
proof -
  have d: "distinct is" using sorted_distinct [OF ascending_sorted [OF assms(1,2)] assms(3)] by (simp add: distinct_map)
  moreover have "set is \<subseteq> {..<n}" using assms(5) by (auto simp: list_all_iff)
  ultimately have "set is = {..<n}" using assms(4) by (metis card_lessThan card_subset_eq distinct_card finite_lessThan)
  with assms(6) obtain k where "k < n" "is ! k = i" using assms(4) by (metis in_set_conv_nth lessThan_iff)
  with d assms(4) show ?thesis by (metis nth_eq_iff_index_eq)
qed

lemma ranges_find:
  assumes "rows_ok rs" "snd (hd rs) = 0" "range_numbers rs = ns" "distinct ns"
  shows "range_lookup rs v = Some i \<longleftrightarrow> i < length ns \<and> ns ! i = v"
proof -
  have "range_lookup rs v = position ns v" using range_lookup_position [OF assms(1), of v] assms(2,3) by (simp add: option.map_ident_strong)
  then show ?thesis using position_Some position_nth [OF assms(4)] by metis
qed

lemma int_distinct: "distinct ns \<Longrightarrow> distinct (map int ns)"
  by (simp add: distinct_map inj_on_def)

lemma shared_storage:
  "distinct (concat (map g fs)) \<Longrightarrow> x \<in> set fs \<Longrightarrow> y \<in> set fs \<Longrightarrow> m \<in> set (g x) \<Longrightarrow> m \<in> set (g y) \<Longrightarrow> x = y"
proof (induction fs)
  case (Cons f fs)
  then have disj: "set (g f) \<inter> (\<Union>z \<in> set fs. set (g z)) = {}" by auto
  show ?case
  proof (cases "x = f \<or> y = f")
    case True
    then show ?thesis using Cons.prems disj by auto
  next
    case False
    then show ?thesis using Cons by auto
  qed
qed simp

lemma find_SomeD: "find P xs = Some x \<Longrightarrow> x \<in> set xs \<and> P x"
  by (auto simp: find_Some_iff)

lemma message_lookup:
  assumes "d \<in> set all_messages"
  shows "(\<forall>n i. range_lookup (md_field_ranges d) n = Some i \<longleftrightarrow> i < md_n_fields d \<and> int (fd_id (md_fields d ! i)) = n) \<and>
    (\<forall>i < md_n_fields d. 0 < fd_id (md_fields d ! i) \<and> (\<exists>!k. k < md_n_fields d \<and> md_fields_sorted_by_name d ! k = i)) \<and>
    sorted_wrt str_less (map (\<lambda>i. fd_name (md_fields d ! i)) (md_fields_sorted_by_name d))"
proof -
  have "lookup_ok d" using lookups_ok assms by (simp add: list_all_iff)
  then have n: "length (md_fields d) = md_n_fields d" and r: "rows_ok (md_field_ranges d)" "snd (hd (md_field_ranges d)) = 0"
    "range_numbers (md_field_ranges d) = map (\<lambda>f. int (fd_id f)) (md_fields d)" and a: "ascending (<) (0 # map fd_id (md_fields d))"
    and s: "length (md_fields_sorted_by_name d) = md_n_fields d" "list_all (\<lambda>i. i < md_n_fields d) (md_fields_sorted_by_name d)"
      "ascending str_less (map (\<lambda>i. fd_name (md_fields d ! i)) (md_fields_sorted_by_name d))"
    by (simp_all add: lookup_ok_def)
  have w: "sorted_wrt (<) (0 # map fd_id (md_fields d))" by (rule ascending_sorted [OF a]) (auto intro: transpI)
  then have "distinct (map fd_id (md_fields d))" using sorted_distinct [of "(<)" "map fd_id (md_fields d)"] by (auto simp: irreflp_def)
  then have "distinct (map (\<lambda>f. int (fd_id f)) (md_fields d))" using int_distinct by (fastforce simp: comp_def)
  from ranges_find [OF r this] n have "range_lookup (md_field_ranges d) v = Some i \<longleftrightarrow> i < md_n_fields d \<and> int (fd_id (md_fields d ! i)) = v" for v i
    by auto
  moreover have "0 < fd_id (md_fields d ! i)" if "i < md_n_fields d" for i using w that n by simp
  ultimately show ?thesis using ascending_indices [OF s(3) str_less_order s(1,2)] ascending_sorted [OF s(3) str_less_order(1)] by blast
qed

lemma enum_lookup:
  assumes "e \<in> set all_enums"
  shows "(\<forall>n i. range_lookup (ed_value_ranges e) n = Some i \<longleftrightarrow> i < ed_n_values e \<and> snd (snd (ed_values e ! i)) = n) \<and>
    (\<forall>(s, i) \<in> set (ed_values_by_name e). i < ed_n_values e \<and> fst (ed_values e ! i) = s) \<and>
    sorted_wrt str_less (map fst (ed_values_by_name e)) \<and> length (ed_values_by_name e) = ed_n_values e \<and>
    (\<exists>t cs. (t, cs) \<in> set all_enum_types \<and> ed_c_name e = pb_prefix @ t \<and> length cs = ed_n_values e \<and>
       (\<forall>(_, c, v) \<in> set (ed_values e). map_of cs c = Some v))"
proof -
  have ok: "enum_ok e" using enums_ok assms by (simp add: list_all_iff)
  have eq: "(\<lambda>(_, _, v). v) = (\<lambda>x :: string \<times> string \<times> int. snd (snd x))" by auto
  from ok have n: "length (ed_values e) = ed_n_values e" and r: "rows_ok (ed_value_ranges e)" "snd (hd (ed_value_ranges e)) = 0"
    "range_numbers (ed_value_ranges e) = map (\<lambda>x. snd (snd x)) (ed_values e)" and a: "ascending (<) (map (\<lambda>x. snd (snd x)) (ed_values e))"
    and s: "length (ed_values_by_name e) = ed_n_values e" "list_all (\<lambda>(n, i). i < ed_n_values e \<and> fst (ed_values e ! i) = n) (ed_values_by_name e)"
      "ascending str_less (map fst (ed_values_by_name e))"
    by (simp_all add: enum_ok_def eq)
  have "sorted_wrt (<) (map (\<lambda>x. snd (snd x)) (ed_values e))" by (rule ascending_sorted [OF a]) (auto intro: transpI)
  then have "distinct (map (\<lambda>x. snd (snd x)) (ed_values e))" using sorted_distinct by (auto simp: irreflp_def)
  from ranges_find [OF r this] n have "range_lookup (ed_value_ranges e) v = Some i \<longleftrightarrow> i < ed_n_values e \<and> snd (snd (ed_values e ! i)) = v" for v i
    by auto
  moreover from ok obtain t cs where "find (\<lambda>(n, _). pb_prefix @ n = ed_c_name e) all_enum_types = Some (t, cs)"
    and cs: "length cs = ed_n_values e" "list_all (\<lambda>(_, c, v). map_of cs c = Some v) (ed_values e)"
    unfolding enum_ok_def by (auto split: option.splits)
  then have "(t, cs) \<in> set all_enum_types" "ed_c_name e = pb_prefix @ t" by (auto dest: find_SomeD)
  moreover have "\<forall>(s, i) \<in> set (ed_values_by_name e). i < ed_n_values e \<and> fst (ed_values e ! i) = s" using s(2) by (auto simp: list_all_iff)
  ultimately show ?thesis using s(1) ascending_sorted [OF s(3) str_less_order(1)] cs by (auto simp: list_all_iff)
qed

text \<open>The zero an enumeration member starts out with is a value of only three of the ten enumerations.\<close>

lemma initial_enum_is_no_value:
  "map ed_id (filter (\<lambda>e. range_lookup (ed_value_ranges e) 0 \<noteq> None) all_enums) =
     [''command__status__status_code'', ''command__get_log__type'', ''command__security__acl__permission'']"
  by code_simp

text \<open>C35: The generated code is type correct where the compiler cannot see it. Every message descriptor belongs to one structure; the members of the structure are divided among
  its fields, so that no two fields share one and none is left over; the library, which writes a member with the type the descriptor gives, finds there a member of exactly that
  type, with a flag beside an optional value and a length beside an array, a message of the structure the descriptor points to and an enumeration of the type it points to; and the
  initial value of the structure makes every field absent.\<close>

theorem descriptors_describe_structures:
  assumes "d \<in> set all_messages"
  shows "\<exists>ms. (md_struct d, md_id d, ms) \<in> set all_structs \<and> md_c_name d = pb_prefix @ md_struct d \<and> distinct (map fst ms) \<and>
    (\<forall>m \<in> set (map fst ms). \<exists>!f. f \<in> set (md_fields d) \<and> m \<in> set (storage f)) \<and>
    (\<forall>f \<in> set (md_fields d). \<exists>t qt. field_type f = Some (t, qt) \<and> map_of ms (fd_member f) = Some (t, initial f) \<and>
       (case qt of None \<Rightarrow> fd_quantifier f = None | Some t' \<Rightarrow> \<exists>q. fd_quantifier f = Some q \<and> map_of ms q = Some (t', Init_0)))"
proof -
  have "message_ok d" using messages_ok assms by (simp add: list_all_iff)
  then obtain n i ms where f: "find (\<lambda>(n, _). n = md_struct d) all_structs = Some (n, i, ms)" and
    c: "i = md_id d" "pb_prefix @ n = md_c_name d" "set (map fst ms) = set (concat (map storage (md_fields d)))" "distinct (map fst ms)"
      "distinct (concat (map storage (md_fields d)))" "list_all (field_ok ms) (md_fields d)"
    unfolding message_ok_def by (auto split: option.splits)
  from f have "n = md_struct d" "(n, i, ms) \<in> set all_structs" by (auto dest: find_SomeD)
  with c have ms: "(md_struct d, md_id d, ms) \<in> set all_structs" "pb_prefix @ md_struct d = md_c_name d"
    "set (map fst ms) = set (concat (map storage (md_fields d)))" "distinct (map fst ms)" "distinct (concat (map storage (md_fields d)))"
    "\<forall>f \<in> set (md_fields d). field_ok ms f"
    by (auto simp: list_all_iff)
  have "\<exists>!f. f \<in> set (md_fields d) \<and> m \<in> set (storage f)" if "m \<in> set (map fst ms)" for m
    using that shared_storage [OF ms(5)] unfolding ms(3) by auto
  moreover have "\<exists>t qt. field_type f = Some (t, qt) \<and> map_of ms (fd_member f) = Some (t, initial f) \<and>
       (case qt of None \<Rightarrow> fd_quantifier f = None | Some t' \<Rightarrow> \<exists>q. fd_quantifier f = Some q \<and> map_of ms q = Some (t', Init_0))" if "f \<in> set (md_fields d)" for f
    using ms(6) that by (fastforce simp: field_ok_def member_def split: option.splits)
  ultimately show ?thesis using ms by (intro exI [of _ ms]) auto
qed

theorem descriptors_describe_structures_witness:
  "\<exists>ms. (''Message'', ''message'', ms) \<in> set all_structs \<and> (\<exists>v. map_of ms ''authtype'' = Some (CT_enum ''Message__AuthType'', v)) \<and>
     (\<exists>v. map_of ms ''pinauth'' = Some (CT_message ''Message__PINauth'', v))"
proof -
  have d: "message__descriptor \<in> set all_messages" by (simp add: all_messages_def)
  have e: "type_of_enum ''message__auth_type'' = Some ''Message__AuthType''" "struct_of_message ''message__pinauth'' = Some ''Message__PINauth''" by code_simp+
  have id: "md_struct message__descriptor = ''Message''" "md_id message__descriptor = ''message''" "md_fields message__descriptor = message__field_descriptors"
    by (simp_all add: message__descriptor_def)
  from descriptors_describe_structures [OF d] show ?thesis unfolding id
    by (auto simp: message__field_descriptors_def pb_field_def field_type_def e is_pointer_def)
qed

text \<open>C39: Fields and enumeration values are found. For every message descriptor, the table of ranges leads from a number to the field with that number and from every other number to
  none; the table of names has the index of every field once, in the order of the names; the numbers ascend from one on. The same holds for the values of every
  enumeration, which are those of the C type.\<close>

theorem descriptor_lookup_tables:
  assumes "d \<in> set all_messages" "e \<in> set all_enums"
  shows "(\<forall>n i. range_lookup (md_field_ranges d) n = Some i \<longleftrightarrow> i < md_n_fields d \<and> int (fd_id (md_fields d ! i)) = n) \<and>
    (\<forall>i < md_n_fields d. 0 < fd_id (md_fields d ! i) \<and> (\<exists>!k. k < md_n_fields d \<and> md_fields_sorted_by_name d ! k = i)) \<and>
    sorted_wrt str_less (map (\<lambda>i. fd_name (md_fields d ! i)) (md_fields_sorted_by_name d)) \<and>
    (\<forall>n i. range_lookup (ed_value_ranges e) n = Some i \<longleftrightarrow> i < ed_n_values e \<and> snd (snd (ed_values e ! i)) = n) \<and>
    (\<forall>(s, i) \<in> set (ed_values_by_name e). i < ed_n_values e \<and> fst (ed_values e ! i) = s) \<and>
    sorted_wrt str_less (map fst (ed_values_by_name e)) \<and> length (ed_values_by_name e) = ed_n_values e \<and>
    (\<exists>t cs. (t, cs) \<in> set all_enum_types \<and> ed_c_name e = pb_prefix @ t \<and> length cs = ed_n_values e \<and>
       (\<forall>(_, c, v) \<in> set (ed_values e). map_of cs c = Some v))"
  using message_lookup [OF assms(1)] enum_lookup [OF assms(2)] by blast

theorem descriptor_lookup_tables_witness:
  "range_lookup (md_field_ranges command__body__descriptor) 6 = Some 4 \<and> range_lookup (ed_value_ranges command__priority__descriptor) 4 \<noteq> Some 4 \<and>
   sorted_wrt str_less (map fst (ed_values_by_name command__priority__descriptor))"
proof -
  have m: "command__body__descriptor \<in> set all_messages" and e: "command__priority__descriptor \<in> set all_enums"
    by (simp_all add: all_messages_def all_enums_def)
  have "4 < md_n_fields command__body__descriptor" "int (fd_id (md_fields command__body__descriptor ! 4)) = 6"
    by (simp_all add: command__body__descriptor_def command__body__field_descriptors_def pb_field_def)
  moreover have "snd (snd (ed_values command__priority__descriptor ! 4)) \<noteq> 4" by (simp add: command__priority__descriptor_def)
  ultimately show ?thesis using descriptor_lookup_tables [OF m e] by blast
qed

end
