(* ===== verification/Spec2Isabelle.thy ===== *)
theory Spec2Isabelle
  imports Byte_Array Nbo Box_Ownership Bus_Setup Threadpool_Queue Msg_Freelist Kinetic_Client Kinetic_ACL
    Device_Log_Ownership Bus_Ssl Kinetic_Socket Kinetic_Accessors Lifetimes Kinetic_Wait Utility Pb_Descriptors
begin

text \<open>
  A verification development of the Kinetic C client library (\<^verbatim>\<open>src/src/lib\<close>, public headers in
  \<^verbatim>\<open>src/include\<close>).

  \<^bold>\<open>The program.\<close> A client application opens sessions to Kinetic drives and calls operations on them (put, get, delete, key
  ranges, peer-to-peer copies, administration). A call builds an operation with its request
  (\<^verbatim>\<open>kinetic_builder.c\<close>), which is numbered, signed, packed and handed to the message bus under the session's send mutex
  (\<^verbatim>\<open>kinetic_operation.c\<close>, \<^verbatim>\<open>kinetic_request.c\<close>, \<^verbatim>\<open>kinetic_auth.c\<close>). The bus (\<^verbatim>\<open>bus/\<close>) boxes the request, tells a listener thread to hold a
  response for it, writes it to the socket and hands the box to the listener, which matches responses to requests,
  times out what is overdue and hands results to a thread pool (\<^verbatim>\<open>threadpool/\<close>). A pool thread runs the result handler
  (\<^verbatim>\<open>kinetic_controller.c\<close>, \<^verbatim>\<open>kinetic_callbacks.c\<close>), which fills the client's buffers, gives back the session's slot and calls the
  client's closure.

  \<^bold>\<open>Conventions.\<close> Definitions keep the names of the C functions and structures. A function into \<open>'a option\<close> yields \<open>None\<close>
  exactly when an assertion of the code fails, an access is undefined, or a stream of inputs (answers of system
  calls, results of allocations, arrivals) ends before the code is done. Error returns are ordinary values. Machine
  integers are words where their width matters; sequence numbers and times are integers with the casts
  written out. What the code does to the outside is a list of events. The model is the asserting build:
  \<^verbatim>\<open>KINETIC_ASSERT\<close> is empty when the logger is compiled out. Nested types of the protobuf that the library only
  passes through are type parameters (\<open>'l\<close> for device logs, \<open>'a\<close> for access control lists, \<open>'u\<close> for a socket's user data).

  \<^bold>\<open>Theories, from the bottom up.\<close>

  \<^item> \<open>Prelude\<close>: integers, assertions, the heap of byte blocks and the libc operations on it.
  \<^item> \<open>Byte_Array\<close> (\<^verbatim>\<open>byte_array.c\<close>): arrays and buffers over the heap; the append operations refine appending to a bounded list.
  \<^item> \<open>Nbo\<close> (\<^verbatim>\<open>kinetic_nbo.c\<close>): byte order conversions on either kind of host.
  \<^item> \<open>Yacht\<close> (\<^verbatim>\<open>bus/yacht.c\<close>): the open-addressing table of descriptors, with the locale of its laws. Removal leaves a mark at which
    lookups stop too early, so a removed key can hide another one.
  \<^item> \<open>Bus_Types\<close>, \<open>Listener_Pool\<close>, \<open>Msg_Freelist\<close>, \<open>Listener_Task\<close>, \<open>Listener_Cmd\<close>, \<open>Listener_Io\<close>, \<open>Listener\<close> (\<^verbatim>\<open>bus/listener*.c\<close>): the listener
    thread. Its record of requests, its commands, input, ticks and its client interface are separate operations; \<open>Listener\<close> lets them
    interleave and shows that no reachable state fails an assertion. \<open>Msg_Freelist\<close> has the free list of command
    messages at the granularity of single memory accesses, and exhibits its ABA problem. \<open>Box_Ownership\<close> counts the
    owners of a request across all of it.
  \<^item> \<open>Send\<close>, \<open>Bus_Poll\<close>, \<open>Bus\<close>, \<open>Bus_Setup\<close> (\<^verbatim>\<open>bus/send*.c\<close>, \<^verbatim>\<open>bus/bus_poll.c\<close>, \<^verbatim>\<open>bus/bus.c\<close>): blocking sends, registration of sockets, order of
    sequence numbers, shutdown and construction.
  \<^item> \<open>Threadpool_Ring\<close>, \<open>Threadpool\<close>, \<open>Threadpool_Conc\<close>, \<open>Threadpool_Queue\<close> (\<^verbatim>\<open>threadpool/threadpool.c\<close>): the lock-free ring of tasks, sequentially as a
    refinement of a bounded queue, and under any interleaving of schedulers and workers.
  \<^item> \<open>Pdu\<close> (\<^verbatim>\<open>kinetic_pdu\<close> parts of \<^verbatim>\<open>kinetic_request.c\<close>, \<^verbatim>\<open>kinetic_bus.c\<close>): packing a unit and reassembling units from reads of any size.
  \<^item> \<open>Semaphores\<close> (\<^verbatim>\<open>kinetic_countingsemaphore.c\<close>, \<^verbatim>\<open>kinetic_resourcewaiter.c\<close>, \<^verbatim>\<open>kinetic_semaphore.c\<close>): synchronisation objects and the
    interleavings of their users.
  \<^item> \<open>Kinetic_Types\<close>, \<open>Kinetic_Entry\<close>, \<open>Kinetic_Proto\<close> (\<^verbatim>\<open>kinetic_types*.c\<close>, \<^verbatim>\<open>kinetic_message.c\<close>, structures of \<^verbatim>\<open>kinetic.pb-c.h\<close>): data of requests
    and responses and their conversions.
  \<^item> \<open>Kinetic_Auth\<close> (\<^verbatim>\<open>kinetic_hmac.c\<close>, \<^verbatim>\<open>kinetic_auth.c\<close>): signing and validating.
  \<^item> \<open>Kinetic_P2P\<close>: the tree of peer-to-peer operations, its protobuf and its results.
  \<^item> \<open>Kinetic_Session\<close> (\<^verbatim>\<open>kinetic_session.c\<close>, \<^verbatim>\<open>kinetic_response.c\<close>): responses, sessions, connecting.
  \<^item> \<open>Kinetic_Builder\<close> (\<^verbatim>\<open>kinetic_builder.c\<close>), \<open>Kinetic_Callbacks\<close> (\<^verbatim>\<open>kinetic_callbacks.c\<close>, the result side of \<^verbatim>\<open>kinetic_controller.c\<close>),
    \<open>Kinetic_Controller\<close> (the sending side), \<open>Kinetic_Client\<close> (\<^verbatim>\<open>kinetic_client.c\<close>, \<^verbatim>\<open>kinetic_admin_client.c\<close>): the path of an operation. \<open>Kinetic_Controller\<close>
    puts a session, the bus and the results together in a step relation.
  \<^item> \<open>Kinetic_ACL\<close> (\<^verbatim>\<open>kinetic_acl.c\<close>): loading and freeing of access control lists over a JSON library that is a parameter.
  \<^item> \<open>Memory_Blocks\<close>, \<open>Kinetic_Device_Info\<close>, \<open>Device_Log_Ownership\<close> (\<^verbatim>\<open>kinetic_device_info.c\<close>): a ledger of allocated blocks and of
    uninitialised pointers, the copy of a device log with every allocation able to fail, and its release. A copy that succeeds has
    the contents of the response's log and its release restores the heap; a copy that fails leaks or reads an uninitialised pointer.
  \<^item> \<open>Bus_Ssl\<close> (\<^verbatim>\<open>bus/bus_ssl.c\<close>), \<open>Kinetic_Socket\<close> (\<^verbatim>\<open>kinetic_socket.c\<close>): the TLS context and its blocking handshake, connecting a socket.
  \<^item> \<open>Kinetic_Logger\<close> (\<^verbatim>\<open>kinetic_logger.c\<close>): levels and targets, the line buffer and its truncation, the dump of byte arrays and, by recursion over
    a tree of fields, of protobuf messages with the indentation they share.
  \<^item> \<open>Kinetic_Wait\<close>: the synchronous wait of \<^verbatim>\<open>KineticController_ExecuteOperation\<close> against its callback, one locked section per step.
  \<^item> \<open>Lifetimes\<close> (\<^verbatim>\<open>kinetic_allocator.c\<close>, teardown of \<^verbatim>\<open>bus.c\<close> and \<^verbatim>\<open>threadpool.c\<close>): which blocks operations, responses, bus and pool own, and
    that their release gives each back once.
  \<^item> \<open>Kinetic_Accessors\<close>: optional fields of entries, descriptions of error numbers and printing of access control lists.
  \<^item> \<open>Util_Options\<close>, \<open>Utility\<close> (\<^verbatim>\<open>utility/main.c\<close>): the command line of the utility, with the answers of \<^verbatim>\<open>getopt_long\<close>, and the one library call it makes on
    one of its two sessions. From the command line to the call and the exit code in one theorem; command lines and answers on which the code is undefined are separate lemmas.
  \<^item> \<open>Pb_Tables\<close>, \<open>Pb_Descriptors\<close> (\<^verbatim>\<open>kinetic.pb-c.c\<close>, \<^verbatim>\<open>kinetic.pb-c.h\<close>): the descriptor tables of the generated protocol code, the structures and enumerations they describe, and
    what the protobuf library relies on in them: the types of the members behind the offsets, and lookup by number and by name. The tables are checked by computation.

  \<^bold>\<open>Locales.\<close> The contract of the descriptor table (\<open>fd_map\<close> in \<open>Yacht\<close>), of the append operations (\<open>buffer_appender\<close> in \<open>Byte_Array\<close>, five
  interpretations), of the free lists of records and of messages (\<open>free_list\<close> in \<open>Bus_Types\<close>) and of the queue behind the
  thread pool (\<open>task_queue\<close>) are locales, interpreted on the definitions of the model; bus, listener and pool use the
  facts of these interpretations. A structure filled field by field with early exits is the locale \<open>owned_field\<close> in \<open>Memory_Blocks\<close>; \<open>str_field\<close> and
  \<open>bytes_field\<close> give it for the string and byte fields of a device log, one interpretation per field. \<open>log_nesting\<close> in \<open>Kinetic_Logger\<close> is what starting and
  ending a nested level promise about the indentation.

  \<^bold>\<open>Bounds and fuel.\<close> Loops over answers of the outside recurse on the list of answers. The reader of access control lists has fuel: two
  more than the length of the file for reading it, and the length of the input for the objects in it, each of which takes at
  least one character. Claims that a loop returns are proved as such (a blocking send, the waits for a connection).
  A session's sequence numbers are followed up to the largest signed 64-bit number.

  \<^bold>\<open>Not modelled.\<close> Of \<^verbatim>\<open>kinetic.pb-c.c\<close> the functions that hand a message with its descriptor to the protobuf library are left out: its encoder and decoder are
  parameters, as are OpenSSL's hash and the JSON library. What the operating system, name resolution and OpenSSL answer are inputs, so the one-line wrappers in \<^verbatim>\<open>bus/syscall.c\<close> and
  \<^verbatim>\<open>kinetic_memory.c\<close> have no definitions. The time stamps in log lines are left out. The examples, the discovery tool, the test servers and the
  tests use the library and are not part of it. Atomic operations are sequentially consistent. The leaks on the error paths of the request
  builders are recorded as remarks and not as theorems.
\<close>

end
